(* ===== verification/Prelude.thy ===== *)
theory Prelude
  imports Main "HOL-Library.Word" "HOL-Library.Signed_Division"
begin

text \<open>
  Generic material the components share: bounds-checked access to lists and byte
  buffers, little- and big-endian fields, the conversion of a C value to
  \<open>int32_t\<close>, and the fact collections the component proofs use.
\<close>

unbundle bit_operations_syntax

named_theorems layout \<open>field offsets and sizes of the C structures\<close>
named_theorems law_simps \<open>what the documented behaviour of the calls gives\<close>
named_theorems world_simps \<open>how an operating-system call changes the world\<close>

type_synonym byte = "8 word"
type_synonym ptr = nat

section \<open>Conversion to a 32-bit signed integer\<close>

text \<open>An assignment of a wider value to \<open>int32_t\<close> keeps its low 32 bits.\<close>

definition i32 :: "int \<Rightarrow> int" where
  "i32 x = signed_take_bit 31 x"

lemma i32_id: "- (2 ^ 31) \<le> x \<Longrightarrow> x < 2 ^ 31 \<Longrightarrow> i32 x = x"
  by (simp add: i32_def signed_take_bit_int_eq_self)

lemma i32_nonneg: "0 \<le> x \<Longrightarrow> x < 2 ^ 31 \<Longrightarrow> i32 x = x"
  by (rule i32_id) auto

lemma i32_range: "- (2 ^ 31) \<le> i32 x \<and> i32 x < 2 ^ 31"
  unfolding i32_def
  using signed_take_bit_int_greater_eq_minus_exp [of 31 x] signed_take_bit_int_less_exp [of 31 x]
  by simp

lemma i32_of_nat: "n < 2 ^ 31 \<Longrightarrow> i32 (int n) = int n"
  by (rule i32_id) auto

section \<open>Bounds-checked access\<close>

text \<open>An array read is \<open>None\<close> where the C code would read outside the array.\<close>

definition tbl :: "'a list \<Rightarrow> int \<Rightarrow> 'a option" where
  "tbl xs i = (if 0 \<le> i \<and> nat i < length xs then Some (xs ! nat i) else None)"

lemma tbl_None_iff [simp]: "tbl xs i = None \<longleftrightarrow> \<not> (0 \<le> i \<and> i < int (length xs))"
  by (auto simp: tbl_def)

lemma tbl_SomeE:
  assumes "0 \<le> i" "i < int (length xs)"
  obtains x where "tbl xs i = Some x"
  using assms by (cases "tbl xs i") auto

definition slice :: "'a list \<Rightarrow> nat \<Rightarrow> nat \<Rightarrow> 'a list" where
  "slice xs off n = take n (drop off xs)"

lemma length_slice [simp]: "length (slice xs off n) = min n (length xs - off)"
  by (simp add: slice_def)

lemma slice_append_left: "off + n \<le> length xs \<Longrightarrow> slice (xs @ ys) off n = slice xs off n"
  by (simp add: slice_def)

lemma slice_append_right: "slice (xs @ ys) (length xs + k) n = slice ys k n"
  by (simp add: slice_def)

lemma slice_append_exact: "slice (xs @ ys @ zs) (length xs) (length ys) = ys"
  by (simp add: slice_def)

definition rd :: "'a list \<Rightarrow> nat \<Rightarrow> nat \<Rightarrow> 'a list option" where
  "rd xs off n = (if off + n \<le> length xs then Some (slice xs off n) else None)"

lemma rd_shift: "off + n \<le> length ys \<Longrightarrow> rd (xs @ ys @ zs) (length xs + off) n = rd ys off n"
  by (auto simp: rd_def slice_append_right slice_append_left)

text \<open>\<open>memcpy(dst + off, src, n)\<close>, with \<open>None\<close> outside either buffer.\<close>

definition blit :: "'a list \<Rightarrow> nat \<Rightarrow> 'a list \<Rightarrow> 'a list" where
  "blit dst off src = take off dst @ src @ drop (off + length src) dst"

definition memcpy :: "'a list \<Rightarrow> nat \<Rightarrow> 'a list \<Rightarrow> nat \<Rightarrow> nat \<Rightarrow> 'a list option" where
  "memcpy dst doff src soff n =
     (if doff + n \<le> length dst \<and> soff + n \<le> length src
      then Some (blit dst doff (slice src soff n)) else None)"

text \<open>Writing a block into a buffer, \<open>None\<close> where it does not fit.\<close>

definition poke :: "'a list \<Rightarrow> nat \<Rightarrow> 'a list \<Rightarrow> 'a list option" where
  "poke dst off src = (if off + length src \<le> length dst then Some (blit dst off src) else None)"

lemma length_blit [simp]: "off + length src \<le> length dst \<Longrightarrow> length (blit dst off src) = length dst"
  by (simp add: blit_def)

lemma slice_blit_same: "off + length src \<le> length dst \<Longrightarrow> slice (blit dst off src) off (length src) = src"
  by (simp add: blit_def slice_def)

lemma take_blit: "off \<le> length dst \<Longrightarrow> take off (blit dst off src) = take off dst"
  by (simp add: blit_def)

lemma nth_blit:
  assumes "off + length src \<le> length dst" "i < length dst"
  shows "blit dst off src ! i =
    (if off \<le> i \<and> i < off + length src then src ! (i - off) else dst ! i)"
  using assms by (auto simp: blit_def nth_append min_def)

lemma poke_mid:
  "length old = length new \<Longrightarrow> off = length xs \<Longrightarrow> poke (xs @ old @ zs) off new = Some (xs @ new @ zs)"
  by (simp add: poke_def blit_def)

section \<open>Little-endian fields\<close>

primrec le_bytes :: "nat \<Rightarrow> nat \<Rightarrow> byte list" where
  "le_bytes 0 v = []"
| "le_bytes (Suc n) v = word_of_nat v # le_bytes n (v div 256)"

primrec le_val :: "byte list \<Rightarrow> nat" where
  "le_val [] = 0"
| "le_val (b # bs) = unat b + 256 * le_val bs"

lemma length_le_bytes [simp]: "length (le_bytes n v) = n"
  by (induction n arbitrary: v) auto

lemma le_val_le_bytes: "le_val (le_bytes n v) = v mod 256 ^ n"
proof (induction n arbitrary: v)
  case 0
  then show ?case by simp
next
  case (Suc n)
  have "v mod (256 * 256 ^ n) = 256 * (v div 256 mod 256 ^ n) + v mod 256"
    by (rule mod_mult2_eq)
  then show ?case by (simp add: Suc.IH unat_of_nat)
qed

lemma le_val_bound: "le_val bs < 256 ^ length bs"
proof (induction bs)
  case Nil
  then show ?case by simp
next
  case (Cons b bs)
  have "unat b < 256" using unsigned_less [of b] by simp
  with Cons show ?case by simp
qed

end
