(* ===== verification/Platform.thy ===== *)
theory Platform
  imports Prelude
begin

text \<open>
  The compile-time platform of the C runtime and what depends on it alone: the error
  numbers, \<open>os_error/stub.c\<close>, the file kinds of \<open>detect_file_kind.c\<close>, the signal
  codes of \<open>signal.c\<close> and the handle tests of \<open>fd_util/stub.c\<close>.
  \<open>OtherUnix\<close> stands for the branches that are neither Linux, macOS nor Windows
  (the BSDs); its error numbers are those of the BSD family.
\<close>

datatype platform = Linux | MacOS | Windows | OtherUnix

text \<open>\<open>None\<close> is \<open>abort()\<close>.\<close>

fun get_platform :: "platform \<Rightarrow> int option" where
  "get_platform Linux = Some 0"
| "get_platform MacOS = Some 1"
| "get_platform Windows = Some 2"
| "get_platform OtherUnix = None"

section \<open>Error numbers of the system headers\<close>

definition EPERM :: int where "EPERM = 1"
definition ENOENT :: int where "ENOENT = 2"
definition ESRCH :: int where "ESRCH = 3"
definition EINTR :: int where "EINTR = 4"
definition EACCES :: int where "EACCES = 13"
definition EEXIST :: int where "EEXIST = 17"
definition ENOTDIR :: int where "ENOTDIR = 20"
definition EINVAL :: int where "EINVAL = 22"

definition EAGAIN :: "platform \<Rightarrow> int" where
  "EAGAIN pf = (if pf = Linux then 11 else 35)"
definition EWOULDBLOCK :: "platform \<Rightarrow> int" where
  "EWOULDBLOCK pf = EAGAIN pf"
definition EINPROGRESS :: "platform \<Rightarrow> int" where
  "EINPROGRESS pf = (if pf = Linux then 115 else 36)"
definition ENOSYS :: "platform \<Rightarrow> int" where
  "ENOSYS pf = (if pf = Linux then 38 else 78)"
definition ENAMETOOLONG :: "platform \<Rightarrow> int" where
  "ENAMETOOLONG pf = (if pf = Linux then 36 else 63)"
definition ECONNREFUSED :: "platform \<Rightarrow> int" where
  "ECONNREFUSED pf = (if pf = Linux then 111 else 61)"

definition ERROR_FILE_NOT_FOUND :: int where "ERROR_FILE_NOT_FOUND = 2"
definition ERROR_PATH_NOT_FOUND :: int where "ERROR_PATH_NOT_FOUND = 3"
definition ERROR_ACCESS_DENIED :: int where "ERROR_ACCESS_DENIED = 5"
definition ERROR_NO_MORE_FILES :: int where "ERROR_NO_MORE_FILES = 18"
definition ERROR_LOCK_VIOLATION :: int where "ERROR_LOCK_VIOLATION = 33"
definition ERROR_HANDLE_EOF :: int where "ERROR_HANDLE_EOF = 38"
definition ERROR_NOT_SUPPORTED :: int where "ERROR_NOT_SUPPORTED = 50"
definition ERROR_FILE_EXISTS :: int where "ERROR_FILE_EXISTS = 80"
definition ERROR_INVALID_PARAMETER :: int where "ERROR_INVALID_PARAMETER = 87"
definition ERROR_BROKEN_PIPE :: int where "ERROR_BROKEN_PIPE = 109"
definition ERROR_ALREADY_EXISTS :: int where "ERROR_ALREADY_EXISTS = 183"
definition ERROR_PIPE_BUSY :: int where "ERROR_PIPE_BUSY = 231"
definition WAIT_TIMEOUT :: int where "WAIT_TIMEOUT = 258"
definition ERROR_DIRECTORY :: int where "ERROR_DIRECTORY = 267"
definition ERROR_OPERATION_ABORTED :: int where "ERROR_OPERATION_ABORTED = 995"
definition ERROR_IO_INCOMPLETE :: int where "ERROR_IO_INCOMPLETE = 996"
definition ERROR_IO_PENDING :: int where "ERROR_IO_PENDING = 997"
definition ERROR_NOTIFY_ENUM_DIR :: int where "ERROR_NOTIFY_ENUM_DIR = 1022"
definition ERROR_NOT_FOUND :: int where "ERROR_NOT_FOUND = 1168"
definition ERROR_CONNECTION_REFUSED :: int where "ERROR_CONNECTION_REFUSED = 1225"

text \<open>Signals and inotify events the library names.\<close>

definition SIGUSR2 :: "platform \<Rightarrow> int" where "SIGUSR2 pf = (if pf = Linux then 12 else 31)"
definition IN_MODIFY :: "32 word" where "IN_MODIFY = 0x2"
definition IN_MOVED_FROM :: "32 word" where "IN_MOVED_FROM = 0x40"
definition IN_MOVED_TO :: "32 word" where "IN_MOVED_TO = 0x80"
definition IN_CREATE :: "32 word" where "IN_CREATE = 0x100"
definition IN_DELETE :: "32 word" where "IN_DELETE = 0x200"

lemmas unix_errnos = EPERM_def ENOENT_def ESRCH_def EINTR_def EACCES_def EEXIST_def
  ENOTDIR_def EINVAL_def EAGAIN_def EWOULDBLOCK_def EINPROGRESS_def ENOSYS_def
  ENAMETOOLONG_def ECONNREFUSED_def

lemmas win_errnos = ERROR_FILE_NOT_FOUND_def ERROR_PATH_NOT_FOUND_def ERROR_ACCESS_DENIED_def
  ERROR_NO_MORE_FILES_def ERROR_LOCK_VIOLATION_def ERROR_HANDLE_EOF_def ERROR_NOT_SUPPORTED_def
  ERROR_FILE_EXISTS_def ERROR_INVALID_PARAMETER_def ERROR_BROKEN_PIPE_def
  ERROR_ALREADY_EXISTS_def ERROR_PIPE_BUSY_def WAIT_TIMEOUT_def ERROR_DIRECTORY_def
  ERROR_OPERATION_ABORTED_def ERROR_IO_INCOMPLETE_def ERROR_IO_PENDING_def
  ERROR_NOTIFY_ENUM_DIR_def ERROR_NOT_FOUND_def ERROR_CONNECTION_REFUSED_def

section \<open>Classification of error codes\<close>

definition is_nonblocking_io_error :: "platform \<Rightarrow> int \<Rightarrow> bool" where
  "is_nonblocking_io_error pf err =
     (if pf = Windows then err = ERROR_IO_INCOMPLETE \<or> err = ERROR_IO_PENDING
      else err = EAGAIN pf \<or> err = EINPROGRESS pf \<or> err = EWOULDBLOCK pf)"

definition is_EINTR :: "platform \<Rightarrow> int \<Rightarrow> bool" where
  "is_EINTR pf err = (if pf = Windows then False else err = EINTR)"

definition is_ENOENT :: "platform \<Rightarrow> int \<Rightarrow> bool" where
  "is_ENOENT pf err =
     (if pf = Windows then err = ERROR_FILE_NOT_FOUND \<or> err = ERROR_PATH_NOT_FOUND
      else err = ENOENT)"

definition is_EEXIST :: "platform \<Rightarrow> int \<Rightarrow> bool" where
  "is_EEXIST pf err =
     (if pf = Windows then err = ERROR_FILE_EXISTS \<or> err = ERROR_ALREADY_EXISTS
      else err = EEXIST)"

definition is_EACCES :: "platform \<Rightarrow> int \<Rightarrow> bool" where
  "is_EACCES pf err = (if pf = Windows then err = ERROR_ACCESS_DENIED else err = EACCES)"

definition is_ECONNREFUSED :: "platform \<Rightarrow> int \<Rightarrow> bool" where
  "is_ECONNREFUSED pf err =
     (if pf = Windows then err = ERROR_CONNECTION_REFUSED else err = ECONNREFUSED pf)"

definition is_ERROR_NOTIFY_ENUM_DIR :: "platform \<Rightarrow> int \<Rightarrow> bool" where
  "is_ERROR_NOTIFY_ENUM_DIR pf err = (if pf = Windows then err = ERROR_NOTIFY_ENUM_DIR else False)"

definition get_ENOTDIR :: "platform \<Rightarrow> int" where
  "get_ENOTDIR pf = (if pf = Windows then ERROR_DIRECTORY else ENOTDIR)"

definition errno_is_cancelled :: "platform \<Rightarrow> int \<Rightarrow> bool" where
  "errno_is_cancelled pf err = (if pf = Windows then err = ERROR_OPERATION_ABORTED else err = EINTR)"

definition errno_is_lock_violation :: "platform \<Rightarrow> int \<Rightarrow> bool" where
  "errno_is_lock_violation pf err =
     (if pf = Windows then err = ERROR_LOCK_VIOLATION else err = EWOULDBLOCK pf)"

definition errno_is_read_EOF :: "int \<Rightarrow> bool" where
  "errno_is_read_EOF err = (err = ERROR_HANDLE_EOF \<or> err = ERROR_BROKEN_PIPE)"

lemmas classify_defs = is_nonblocking_io_error_def is_EINTR_def is_ENOENT_def is_EEXIST_def
  is_EACCES_def is_ECONNREFUSED_def is_ERROR_NOTIFY_ENUM_DIR_def get_ENOTDIR_def
  errno_is_cancelled_def errno_is_lock_violation_def errno_is_read_EOF_def

text \<open>The tests the library raises on, as one list, in the order of \<open>os_error/stub.c\<close>.\<close>

definition os_error_tests :: "platform \<Rightarrow> (int \<Rightarrow> bool) list" where
  "os_error_tests pf = [is_nonblocking_io_error pf, is_EINTR pf, is_ENOENT pf, is_EEXIST pf,
     is_EACCES pf, is_ECONNREFUSED pf, is_ERROR_NOTIFY_ENUM_DIR pf, \<lambda>e. e = get_ENOTDIR pf]"

text \<open>
  No error code satisfies two of the tests of
  \<open>os_error/stub.c\<close> on the same platform, so an error is handled as one kind only.
\<close>

lemma os_error_exclusive:
  assumes "i < j" "j < length (os_error_tests pf)"
  shows "\<not> ((os_error_tests pf ! i) e \<and> (os_error_tests pf ! j) e)"
proof -
  have "sorted_wrt (\<lambda>p q. \<not> (p e \<and> q e)) (os_error_tests pf)"
    by (auto simp: os_error_tests_def classify_defs unix_errnos win_errnos)
  then show ?thesis
    using assms by (simp add: sorted_wrt_iff_nth_less)
qed

section \<open>File kinds\<close>

datatype FileKind = UnknownFileKind | Regular | Directory | SymLink | Socket | Pipe
  | BlockDevice | CharDevice

fun file_kind_code :: "FileKind \<Rightarrow> int" where
  "file_kind_code UnknownFileKind = 0"
| "file_kind_code Regular = 1"
| "file_kind_code Directory = 2"
| "file_kind_code SymLink = 3"
| "file_kind_code Socket = 4"
| "file_kind_code Pipe = 5"
| "file_kind_code BlockDevice = 6"
| "file_kind_code CharDevice = 7"

text \<open>The bits of \<open>st_mode\<close> (\<open>S_IFMT\<close> = \<open>0170000\<close>) and of the Windows file attributes.\<close>

definition S_IFMT :: "32 word" where "S_IFMT = 0xF000"
definition S_IFIFO :: "32 word" where "S_IFIFO = 0x1000"
definition S_IFCHR :: "32 word" where "S_IFCHR = 0x2000"
definition S_IFDIR :: "32 word" where "S_IFDIR = 0x4000"
definition S_IFBLK :: "32 word" where "S_IFBLK = 0x6000"
definition S_IFREG :: "32 word" where "S_IFREG = 0x8000"
definition S_IFLNK :: "32 word" where "S_IFLNK = 0xA000"
definition S_IFSOCK :: "32 word" where "S_IFSOCK = 0xC000"

lemmas stat_mode_defs = S_IFMT_def S_IFIFO_def S_IFCHR_def S_IFDIR_def S_IFBLK_def S_IFREG_def
  S_IFLNK_def S_IFSOCK_def

definition FILE_ATTRIBUTE_HIDDEN :: "32 word" where "FILE_ATTRIBUTE_HIDDEN = 0x2"
definition FILE_ATTRIBUTE_DIRECTORY :: "32 word" where "FILE_ATTRIBUTE_DIRECTORY = 0x10"
definition FILE_ATTRIBUTE_NORMAL :: "32 word" where "FILE_ATTRIBUTE_NORMAL = 0x80"
definition FILE_ATTRIBUTE_REPARSE_POINT :: "32 word" where "FILE_ATTRIBUTE_REPARSE_POINT = 0x400"

definition file_kind_from_stat :: "32 word \<Rightarrow> FileKind" where
  "file_kind_from_stat st_mode =
     (let m = st_mode AND S_IFMT in
      if m = S_IFREG then Regular
      else if m = S_IFDIR then Directory
      else if m = S_IFLNK then SymLink
      else if m = S_IFSOCK then Socket
      else if m = S_IFIFO then Pipe
      else if m = S_IFBLK then BlockDevice
      else if m = S_IFCHR then CharDevice
      else UnknownFileKind)"

definition kind_from_attr :: "32 word \<Rightarrow> FileKind" where
  "kind_from_attr attrs =
     (if attrs AND FILE_ATTRIBUTE_REPARSE_POINT \<noteq> 0 then SymLink
      else if attrs AND FILE_ATTRIBUTE_DIRECTORY \<noteq> 0 then Directory
      else Regular)"

lemma file_kind_code_nonneg [simp]: "0 \<le> file_kind_code k"
  by (cases k) auto

lemma file_kind_code_small [simp]: "i32 (file_kind_code k) = file_kind_code k"
  by (cases k) (auto simp: i32_def)

section \<open>Handles\<close>

text \<open>
  \<open>fd_is_valid\<close> of \<open>fd_util/stub.c\<close> answers for the handles that are \<^emph>\<open>not\<close> valid.
\<close>

definition INVALID_HANDLE_VALUE :: int where "INVALID_HANDLE_VALUE = -1"

definition fd_is_valid :: "platform \<Rightarrow> int \<Rightarrow> bool" where
  "fd_is_valid pf handle = (if pf = Windows then handle = INVALID_HANDLE_VALUE else handle < 0)"

definition get_invalid_handle :: int where "get_invalid_handle = INVALID_HANDLE_VALUE"

text \<open>Standard streams: \<open>GetStdHandle(-10 - id)\<close> takes the number, Unix uses it as it is.\<close>

definition get_stdio_id :: "platform \<Rightarrow> int \<Rightarrow> int" where
  "get_stdio_id pf i = (if pf = Windows then -10 - i else i)"

end
