(* ===== verification/Os_Interface.thy ===== *)
theory Os_Interface
  imports Platform
begin

text \<open>
  The operating system as the C runtime sees it. The kernel is a parameter: a function
  that answers a call in a state of its own, about which nothing is assumed. A call may
  write \<open>errno\<close> (\<open>GetLastError\<close> on Windows) and an output structure. The world
  keeps the log of the calls made and what they returned, oldest first, so that the
  theorems can speak of what was opened, closed and released.
\<close>

section \<open>Calls\<close>

type_synonym buffer = "ptr \<times> int"

text \<open>Files and descriptors, Unix.\<close>

datatype (plugins only: code size) file_call =
    Nanosleep int int
  | Kqueue
  | Kevent_sleep int int int
  | Read int buffer int
  | Write int buffer int
  | Pread int buffer int int
  | Pwrite int buffer int int
  | Poll int int int
  | Open ptr "32 word" int
  | Close int
  | Fstat int
  | Fstat_to int ptr
  | Fstatat int ptr int
  | Stat ptr ptr
  | Lstat ptr ptr
  | Chmod ptr int
  | Fsync int
  | Fdatasync int
  | Flock int int
  | Remove ptr
  | Access ptr int
  | Renameat2 ptr ptr int
  | Renameatx ptr ptr int
  | Symlink ptr ptr
  | Mkdir ptr int
  | Rmdir ptr
  | Lseek_start int
  | Getdents64 int ptr int
  | Getattrlistbulk int ptr int
  | Realpath ptr
  | Inotify_add_watch int ptr "32 word"

text \<open>Descriptor flags, event queues, processes, signals and sockets, Unix.\<close>

datatype (plugins only: code size) proc_call =
    Fcntl_get int int
  | Fcntl_set int int "32 word"
  | Epoll_create1 "32 word"
  | Epoll_add int int "32 word" "64 word"
  | Epoll_wait int int int
  | Spawn_adddup2 int int
  | Spawn_addchdir ptr
  | Posix_spawn ptr "ptr list" "ptr list"
  | Posix_spawnp ptr "ptr list" "ptr list"
  | Pidfd_open int
  | Waitpid int int
  | Waitid_pidfd int
  | Bind int ptr int
  | Getaddrinfo ptr
  | Freeaddrinfo ptr
  | Sigwait "int list"
  | Sigmask_block_all
  | Sigmask_restore
  | Kill int int
  | Getpid
  | Write_int int int
  | Read_int int

text \<open>The MoonBit runtime and the C heap.\<close>

datatype (plugins only: code size) rt_call =
    Decref ptr
  | Incref ptr
  | Free ptr
  | Malloc int

text \<open>Windows: files.\<close>

datatype (plugins only: code size) wfile_call =
    W_Sleep int
  | W_ReadFile int buffer int "(32 word \<times> 32 word) option"
  | W_WriteFile int buffer int "(32 word \<times> 32 word) option"
  | W_CreateFileW ptr "32 word" "32 word" int "32 word"
  | W_WaitNamedPipeW ptr
  | W_GetFileInformationByHandle int
  | W_GetFileInformationByHandleEx int int ptr int
  | W_CloseHandle int
  | W_GetFileSizeEx int
  | W_FlushFileBuffers int
  | W_LockFileEx int "32 word" "32 word" "32 word"
  | W_GetFileAttributesW ptr
  | W_RemoveDirectoryW ptr
  | W_DeleteFileW ptr
  | W_SetFileInformationByHandle int int "16 word list"
  | W_MoveFileExW ptr ptr int
  | W_CreateDirectoryW ptr
  | W_CreateSymbolicLinkW ptr ptr int
  | W_DeviceIoControl int "16 word list"
  | W_GetFinalPathNameByHandleW int int
  | W_GetFileType int
  | W_getsockopt_type int

text \<open>Windows: processes, completion ports and events.\<close>

datatype (plugins only: code size) wproc_call =
    W_CreateJobObject
  | W_SetInformationJobObject int
  | W_AssignProcessToJobObject int int
  | W_GetCurrentProcess
  | W_GetStdHandle int
  | W_SetHandleInformation int
  | W_InitializeProcThreadAttributeList bool
  | W_UpdateAttributeHandleList "int list"
  | W_UpdateAttributeJobList int
  | W_DeleteProcThreadAttributeList
  | W_CreateProcessW ptr ptr "32 word" "int list"
  | W_TerminateProcess int
  | W_ResumeThread
  | W_WaitForMultipleObjects "int list"
  | W_CreateEvent
  | W_SetEvent int
  | W_CreateIoCompletionPort int int
  | W_SetFileCompletionNotificationModes int
  | W_GetQueuedCompletionStatusEx int int int
  | W_PostQueuedCompletionStatus int int
  | W_GetExitCodeProcess int
  | W_OpenProcess "32 word" int
  | W_GetEnvironmentStrings
  | W_FreeEnvironmentStrings ptr
  | W_GetCurrentProcessId
  | W_AliasToLuid "byte list"
  | W_LuidToIndex int
  | W_IndexToLuid "32 word"
  | W_LuidToAlias int

text \<open>
  Sockets, watches, event queues and signal masks, Unix. The address and option
  arguments are the bytes the call is given; a \<open>struct kevent\<close> is a change on a queue.
\<close>

record kevent =
  kev_ident :: int
  kev_filter :: int
  kev_flags :: "32 word"
  kev_fflags :: "32 word"

datatype sock_level = SOL_SOCKET | IPPROTO_TCP | IPPROTO_IP | IPPROTO_IPV6

datatype (plugins only: code size) sock_option =
    SO_EXCLUSIVEADDRUSE | SO_REUSEADDR | SO_REUSEPORT | SO_REUSE_MULTICASTPORT | SO_KEEPALIVE
  | SO_UPDATE_CONNECT_CONTEXT | SO_UPDATE_ACCEPT_CONTEXT
  | TCP_NODELAY | TCP_KEEPCNT | TCP_KEEPIDLE | TCP_KEEPALIVE | TCP_KEEPINTVL
  | IP_ADD_MEMBERSHIP | IPV6_ADD_MEMBERSHIP | IP_MULTICAST_IF | IPV6_MULTICAST_IF
  | IP_MULTICAST_TTL | IPV6_MULTICAST_HOPS | IP_MULTICAST_LOOP | IPV6_MULTICAST_LOOP | IPV6_V6ONLY

datatype (plugins only: code size) net_call =
    Sock int int
  | Setsockopt int sock_level sock_option "byte list"
  | Getsockopt_error int
  | Listen int
  | Connect int "byte list"
  | Accept int int
  | Recvfrom int buffer int int
  | Sendto int buffer int "byte list"
  | Getsockname int int
  | Ioctl_ifindex int "byte list"
  | Ioctl_ifname int "32 word"
  | If_nametoindex "byte list"
  | If_indextoname "32 word"
  | Make_pipe
  | Inotify_init1 "32 word"
  | Inotify_rm_watch int int
  | Kevent_change int "kevent list"
  | Kevent_fetch int int "(int \<times> int) option"
  | Sigmask_get
  | Sigmask_block "int list"
  | Sigaction int bool
  | Sigmask_set "int list"
  | Sigmask_unblock int
  | Flush_stdio
  | Raise int
  | Getifaddrs
  | Freeifaddrs

text \<open>Windows: sockets, overlapped transfers, pipes and console signals.\<close>

datatype (plugins only: code size) wnet_call =
    W_WSASocket int int "32 word"
  | W_closesocket int
  | W_setsockopt int sock_level sock_option "byte list"
  | W_listen int
  | W_connect int "byte list"
  | W_bind int "byte list"
  | W_getsockname int int
  | W_WSAIoctl_keepalive int "int list"
  | W_WSAIoctl_extension int int
  | W_ConnectEx int "byte list" ptr
  | W_AcceptEx int int int int ptr
  | W_WSARecv int buffer int "32 word" ptr
  | W_WSARecvFrom int buffer int "32 word" ptr int ptr
  | W_WSASend int buffer int "32 word" ptr
  | W_WSASendTo int buffer int "32 word" ptr int ptr
  | W_ReadFileOv int buffer int "32 word \<times> 32 word" ptr
  | W_WriteFileOv int buffer int "32 word \<times> 32 word" ptr
  | W_GetOverlappedResult int ptr
  | W_CancelIoEx int ptr
  | W_ReadDirectoryChanges bool int ptr int "32 word" ptr
  | W_UnlockFile int "32 word" "32 word"
  | W_CreateNamedPipeW ptr "32 word"
  | W_ConnectNamedPipe int
  | W_DisconnectNamedPipe int
  | W_WSAStartup int
  | W_WSACleanup
  | W_SetConsoleCtrlHandler int
  | W_ExitProcess "32 word"
  | W_GenerateConsoleCtrlEvent int int
  | W_GetTempPath int

datatype (plugins only: code size) call =
    File file_call
  | Proc proc_call
  | Rt rt_call
  | WFile wfile_call
  | WProc wproc_call
  | Net net_call
  | WNet wnet_call

section \<open>Answers and the world\<close>

record stat =
  st_mode :: "32 word"
  st_dev :: "64 word"
  st_ino :: "64 word"
  st_size :: int

record win_file_info =
  dwFileAttributes :: "32 word"
  dwVolumeSerialNumber :: "32 word"
  nFileIndexHigh :: "32 word"
  nFileIndexLow :: "32 word"

text \<open>
  An answer carries what the call returned, the error number it set (if it set one) and
  what it wrote through its output pointers: a number, a list of numbers, a
  \<open>struct stat\<close>, a Windows file record. A call uses the outputs it has.
\<close>

record answer =
  a_ret :: int
  a_err :: "int option"
  a_num :: int
  a_nums :: "int list"
  a_stat :: stat
  a_info :: win_file_info

definition blank :: answer where
  "blank = \<lparr>a_ret = 0, a_err = None, a_num = 0, a_nums = [],
     a_stat = \<lparr>st_mode = 0, st_dev = 0, st_ino = 0, st_size = 0\<rparr>,
     a_info = \<lparr>dwFileAttributes = 0, dwVolumeSerialNumber = 0, nFileIndexHigh = 0,
       nFileIndexLow = 0\<rparr>\<rparr>"

type_synonym 'k kernel = "call \<Rightarrow> 'k \<Rightarrow> answer \<times> 'k"

record 'k world =
  kst :: 'k
  errno :: int
  log :: "(call \<times> int) list"

definition sys :: "'k kernel \<Rightarrow> call \<Rightarrow> 'k world \<Rightarrow> answer \<times> 'k world" where
  "sys K c w =
     (case K c (kst w) of
        (a, k) \<Rightarrow>
          (a, w\<lparr>kst := k,
                errno := (case a_err a of None \<Rightarrow> errno w | Some e \<Rightarrow> e),
                log := log w @ [(c, a_ret a)]\<rparr>))"

text \<open>A call made for its effect only.\<close>

definition sys_do :: "'k kernel \<Rightarrow> call \<Rightarrow> 'k world \<Rightarrow> 'k world" where
  "sys_do K c w = snd (sys K c w)"

text \<open>\<open>SetLastError\<close>, and assignments to \<open>errno\<close>.\<close>

definition set_errno :: "int \<Rightarrow> 'k world \<Rightarrow> 'k world" where
  "set_errno e w = w\<lparr>errno := e\<rparr>"

lemma sys_log [world_simps]: "log (snd (sys K c w)) = log w @ [(c, a_ret (fst (sys K c w)))]"
  by (simp add: sys_def split: prod.splits)

lemma sys_errno_None [world_simps]: "a_err (fst (sys K c w)) = None \<Longrightarrow> errno (snd (sys K c w)) = errno w"
  by (auto simp: sys_def split: prod.splits)

lemma sys_errno_Some [world_simps]: "a_err (fst (sys K c w)) = Some e \<Longrightarrow> errno (snd (sys K c w)) = e"
  by (auto simp: sys_def split: prod.splits)

lemma sys_fst: "fst (sys K c w) = fst (K c (kst w))"
  by (simp add: sys_def split: prod.splits)

lemma sys_kst: "kst (snd (sys K c w)) = snd (K c (kst w))"
  by (simp add: sys_def split: prod.splits)

lemma sys_pair: "sys K c w = (a, w') \<Longrightarrow> a = fst (sys K c w) \<and> w' = snd (sys K c w)"
  by simp

lemma sys_do_log [world_simps]: "log (sys_do K c w) = log w @ [(c, a_ret (fst (sys K c w)))]"
  by (simp add: sys_do_def world_simps)

lemma set_errno_simps [simp, world_simps]:
  "errno (set_errno e w) = e" "log (set_errno e w) = log w" "kst (set_errno e w) = kst w"
  by (simp_all add: set_errno_def)

section \<open>Documented behaviour\<close>

text \<open>
  How each call reports failure: POSIX calls by a negative value (\<open>realpath\<close> by
  \<open>NULL\<close>), Windows calls by \<open>FALSE\<close> or \<open>NULL\<close>, those that return a file handle by
  \<open>INVALID_HANDLE_VALUE\<close>, \<open>GetFileAttributesW\<close> and \<open>WaitForMultipleObjects\<close> by
  \<open>0xffffffff\<close>. Calls that report in another way (the posix_spawn family,
  \<open>getaddrinfo\<close>, \<open>sigwait\<close>) or do not fail are no failures here.
\<close>

definition INVALID_FILE_ATTRIBUTES :: int where "INVALID_FILE_ATTRIBUTES = 4294967295"
definition WAIT_FAILED :: int where "WAIT_FAILED = 4294967295"

fun file_fails :: "file_call \<Rightarrow> int \<Rightarrow> bool" where
  "file_fails (Realpath _) r = (r = 0)"
| "file_fails _ r = (r < 0)"

fun proc_fails :: "proc_call \<Rightarrow> int \<Rightarrow> bool" where
  "proc_fails (Spawn_adddup2 _ _) r = False"
| "proc_fails (Spawn_addchdir _) r = False"
| "proc_fails (Posix_spawn _ _ _) r = False"
| "proc_fails (Posix_spawnp _ _ _) r = False"
| "proc_fails (Getaddrinfo _) r = False"
| "proc_fails (Freeaddrinfo _) r = False"
| "proc_fails (Sigwait _) r = False"
| "proc_fails Sigmask_block_all r = False"
| "proc_fails Sigmask_restore r = False"
| "proc_fails _ r = (r < 0)"

fun wfile_fails :: "wfile_call \<Rightarrow> int \<Rightarrow> bool" where
  "wfile_fails (W_Sleep _) r = False"
| "wfile_fails (W_CreateFileW _ _ _ _ _) r = (r = INVALID_HANDLE_VALUE)"
| "wfile_fails (W_GetFileAttributesW _) r = (r = INVALID_FILE_ATTRIBUTES)"
| "wfile_fails (W_GetFileType _) r = False"
| "wfile_fails (W_getsockopt_type _) r = (r \<noteq> 0)"
| "wfile_fails _ r = (r = 0)"

fun wproc_fails :: "wproc_call \<Rightarrow> int \<Rightarrow> bool" where
  "wproc_fails (W_GetStdHandle _) r = (r = INVALID_HANDLE_VALUE)"
| "wproc_fails (W_WaitForMultipleObjects _) r = (r = WAIT_FAILED)"
| "wproc_fails W_GetCurrentProcess r = False"
| "wproc_fails (W_AliasToLuid _) r = False"
| "wproc_fails (W_LuidToIndex _) r = False"
| "wproc_fails (W_IndexToLuid _) r = False"
| "wproc_fails (W_LuidToAlias _) r = False"
| "wproc_fails W_DeleteProcThreadAttributeList r = False"
| "wproc_fails (W_InitializeProcThreadAttributeList sizing) r = (r = 0)"
| "wproc_fails _ r = (r = 0)"

fun net_fails :: "net_call \<Rightarrow> int \<Rightarrow> bool" where
  "net_fails (If_nametoindex _) r = (r = 0)"
| "net_fails (If_indextoname _) r = (r = 0)"
| "net_fails (Sigmask_set _) r = False"
| "net_fails Sigmask_get r = False"
| "net_fails (Sigmask_block _) r = False"
| "net_fails (Sigaction _ _) r = False"
| "net_fails (Sigmask_unblock _) r = False"
| "net_fails Flush_stdio r = False"
| "net_fails Freeifaddrs r = False"
| "net_fails _ r = (r < 0)"

text \<open>The Winsock functions return zero for success, \<open>ConnectEx\<close> and the rest a boolean.\<close>

fun wnet_fails :: "wnet_call \<Rightarrow> int \<Rightarrow> bool" where
  "wnet_fails (W_WSASocket _ _ _) r = (r = INVALID_HANDLE_VALUE)"
| "wnet_fails (W_closesocket _) r = (r \<noteq> 0)"
| "wnet_fails (W_setsockopt _ _ _ _) r = (r < 0)"
| "wnet_fails (W_listen _) r = (r \<noteq> 0)"
| "wnet_fails (W_connect _ _) r = (r \<noteq> 0)"
| "wnet_fails (W_bind _ _) r = (r \<noteq> 0)"
| "wnet_fails (W_getsockname _ _) r = (r \<noteq> 0)"
| "wnet_fails (W_WSAIoctl_keepalive _ _) r = (r \<noteq> 0)"
| "wnet_fails (W_WSAIoctl_extension _ _) r = (r \<noteq> 0)"
| "wnet_fails (W_WSARecv _ _ _ _ _) r = (r \<noteq> 0)"
| "wnet_fails (W_WSARecvFrom _ _ _ _ _ _ _) r = (r \<noteq> 0)"
| "wnet_fails (W_WSASend _ _ _ _ _) r = (r \<noteq> 0)"
| "wnet_fails (W_WSASendTo _ _ _ _ _ _ _) r = (r \<noteq> 0)"
| "wnet_fails (W_CreateNamedPipeW _ _) r = (r = INVALID_HANDLE_VALUE)"
| "wnet_fails (W_WSAStartup _) r = False"
| "wnet_fails W_WSACleanup r = (r \<noteq> 0)"
| "wnet_fails (W_ExitProcess _) r = False"
| "wnet_fails _ r = (r = 0)"

fun call_fails :: "call \<Rightarrow> int \<Rightarrow> bool" where
  "call_fails (File c) r = file_fails c r"
| "call_fails (Proc c) r = proc_fails c r"
| "call_fails (Rt c) r = False"
| "call_fails (WFile c) r = wfile_fails c r"
| "call_fails (WProc c) r = wproc_fails c r"
| "call_fails (Net c) r = net_fails c r"
| "call_fails (WNet c) r = wnet_fails c r"

text \<open>
  What the code relies on: error numbers are not negative; a call that fails sets a positive
  one; the cleanup
  calls never set one that is not; the calls
  that return a C \<open>int\<close> or a byte count no larger than the \<open>int\<close> length they were given
  return a value of that range; \<open>ReadFile\<close> and \<open>WriteFile\<close> report a byte count of that
  range; the calls that return an error number never return a negative one.
\<close>

fun int_sized_file :: "file_call \<Rightarrow> bool" where
  "int_sized_file (Realpath _) = False"
| "int_sized_file _ = True"

fun int_sized_net :: "net_call \<Rightarrow> bool" where
  "int_sized_net (If_indextoname _) = False"
| "int_sized_net _ = True"

fun int_sized :: "call \<Rightarrow> bool" where
  "int_sized (File c) = int_sized_file c"
| "int_sized (Proc c) = True"
| "int_sized (Net c) = int_sized_net c"
| "int_sized _ = False"

text \<open>Calls that return an error number: zero or positive.\<close>

fun proc_returns_errno :: "proc_call \<Rightarrow> bool" where
  "proc_returns_errno (Spawn_adddup2 _ _) = True"
| "proc_returns_errno (Spawn_addchdir _) = True"
| "proc_returns_errno (Posix_spawn _ _ _) = True"
| "proc_returns_errno (Posix_spawnp _ _ _) = True"
| "proc_returns_errno (Sigwait _) = True"
| "proc_returns_errno _ = False"

fun returns_errno :: "call \<Rightarrow> bool" where
  "returns_errno (Proc c) = proc_returns_errno c"
| "returns_errno _ = False"

text \<open>
  \<open>PROCESS_INFORMATION\<close>: the process handle is the output number, the thread handle and
  the process id are the first two of the output list.
\<close>

definition pi_process :: "answer \<Rightarrow> int" where "pi_process a = a_num a"
definition pi_thread :: "answer \<Rightarrow> int" where
  "pi_thread a = (case a_nums a of t # _ \<Rightarrow> t | _ \<Rightarrow> 0)"
definition pi_pid :: "answer \<Rightarrow> int" where
  "pi_pid a = (case a_nums a of _ # p # _ \<Rightarrow> p | _ \<Rightarrow> 0)"

text \<open>Process ids are positive 31-bit numbers; \<open>waitpid\<close> for a process answers for it.\<close>

fun proc_pid_law :: "proc_call \<Rightarrow> answer \<Rightarrow> bool" where
  "proc_pid_law (Posix_spawn _ _ _) a = (a_ret a = 0 \<longrightarrow> 0 < a_num a \<and> a_num a < 2 ^ 31)"
| "proc_pid_law (Posix_spawnp _ _ _) a = (a_ret a = 0 \<longrightarrow> 0 < a_num a \<and> a_num a < 2 ^ 31)"
| "proc_pid_law (Waitpid p f) a =
     (0 < p \<longrightarrow> a_ret a = p \<or> a_ret a < 0 \<or> f \<noteq> 0 \<and> a_ret a = 0)"
| "proc_pid_law _ a = True"

fun wproc_pid_law :: "wproc_call \<Rightarrow> answer \<Rightarrow> bool" where
  "wproc_pid_law (W_CreateProcessW _ _ _ _) a =
     (a_ret a \<noteq> 0 \<longrightarrow> 0 \<le> pi_pid a \<and> pi_pid a < 2 ^ 31)"
| "wproc_pid_law _ a = True"

fun pid_law :: "call \<Rightarrow> answer \<Rightarrow> bool" where
  "pid_law (Proc c) a = proc_pid_law c a"
| "pid_law (WProc c) a = wproc_pid_law c a"
| "pid_law _ a = True"

fun wfile_counts_bytes :: "wfile_call \<Rightarrow> bool" where
  "wfile_counts_bytes (W_ReadFile _ _ _ _) = True"
| "wfile_counts_bytes (W_WriteFile _ _ _ _) = True"
| "wfile_counts_bytes _ = False"

fun wnet_counts_bytes :: "wnet_call \<Rightarrow> bool" where
  "wnet_counts_bytes (W_WSARecv _ _ _ _ _) = True"
| "wnet_counts_bytes (W_WSARecvFrom _ _ _ _ _ _ _) = True"
| "wnet_counts_bytes (W_WSASend _ _ _ _ _) = True"
| "wnet_counts_bytes (W_WSASendTo _ _ _ _ _ _ _) = True"
| "wnet_counts_bytes (W_ReadFileOv _ _ _ _ _) = True"
| "wnet_counts_bytes (W_WriteFileOv _ _ _ _ _) = True"
| "wnet_counts_bytes (W_GetOverlappedResult _ _) = True"
| "wnet_counts_bytes _ = False"

fun counts_bytes :: "call \<Rightarrow> bool" where
  "counts_bytes (WFile c) = wfile_counts_bytes c"
| "counts_bytes (WNet c) = wnet_counts_bytes c"
| "counts_bytes _ = False"

text \<open>
  The calls a cleanup makes: they set the error number, if at all, to a positive one.
\<close>

fun wfile_cleanup :: "wfile_call \<Rightarrow> bool" where
  "wfile_cleanup (W_CloseHandle _) = True"
| "wfile_cleanup (W_RemoveDirectoryW _) = True"
| "wfile_cleanup _ = False"

fun file_cleanup :: "file_call \<Rightarrow> bool" where
  "file_cleanup (Close _) = True"
| "file_cleanup _ = False"

fun wproc_cleanup :: "wproc_call \<Rightarrow> bool" where
  "wproc_cleanup W_DeleteProcThreadAttributeList = True"
| "wproc_cleanup _ = False"

fun wnet_cleanup :: "wnet_call \<Rightarrow> bool" where
  "wnet_cleanup (W_closesocket _) = True"
| "wnet_cleanup _ = False"

fun cleanup :: "call \<Rightarrow> bool" where
  "cleanup (WFile c) = wfile_cleanup c"
| "cleanup (File c) = file_cleanup c"
| "cleanup (Rt c) = True"
| "cleanup (WProc c) = wproc_cleanup c"
| "cleanup (WNet c) = wnet_cleanup c"
| "cleanup _ = False"

definition answer_law :: "call \<Rightarrow> answer \<Rightarrow> bool" where
  "answer_law c a \<longleftrightarrow>
     (call_fails c (a_ret a) \<longrightarrow> (\<exists>e>0. a_err a = Some e)) \<and>
     (\<forall>e. a_err a = Some e \<longrightarrow> 0 \<le> e) \<and>
     (cleanup c \<longrightarrow> (\<forall>e. a_err a = Some e \<longrightarrow> 0 < e)) \<and>
     (int_sized c \<longrightarrow> - (2 ^ 31) \<le> a_ret a \<and> a_ret a < 2 ^ 31) \<and>
     (counts_bytes c \<longrightarrow> 0 \<le> a_num a \<and> a_num a < 2 ^ 31) \<and>
     (returns_errno c \<longrightarrow> 0 \<le> a_ret a) \<and> pid_law c a"

definition os_law :: "'k kernel \<Rightarrow> bool" where
  "os_law K \<longleftrightarrow> (\<forall>c k. answer_law c (fst (K c k)))"

lemma os_law_errno [law_simps]:
  "os_law K \<Longrightarrow> call_fails c (a_ret (fst (sys K c w))) \<Longrightarrow> 0 < errno (snd (sys K c w))"
  unfolding os_law_def answer_law_def by (metis sys_errno_Some sys_fst)

lemma os_law_i32 [law_simps]:
  "os_law K \<Longrightarrow> int_sized c \<Longrightarrow> i32 (a_ret (fst (sys K c w))) = a_ret (fst (sys K c w))"
  unfolding os_law_def answer_law_def by (metis sys_fst i32_id)

lemma os_law_bytes [law_simps]:
  assumes "os_law K" "counts_bytes c"
  shows "i32 (a_num (fst (sys K c w))) = a_num (fst (sys K c w))"
    and "0 \<le> a_num (fst (sys K c w))"
proof -
  have "0 \<le> a_num (fst (sys K c w)) \<and> a_num (fst (sys K c w)) < 2 ^ 31"
    using assms unfolding os_law_def answer_law_def by (metis sys_fst)
  then show "i32 (a_num (fst (sys K c w))) = a_num (fst (sys K c w))"
    and "0 \<le> a_num (fst (sys K c w))"
    by (auto intro: i32_nonneg)
qed

lemma os_law_cleanup [law_simps]:
  assumes "os_law K" "cleanup c" "0 < errno w"
  shows "0 < errno (snd (sys K c w))" "0 < errno (sys_do K c w)"
proof -
  have *: "\<forall>e. a_err (fst (sys K c w)) = Some e \<longrightarrow> 0 < e"
    using assms(1,2) unfolding os_law_def answer_law_def by (metis sys_fst)
  show "0 < errno (snd (sys K c w))"
    using * assms(3) by (cases "a_err (fst (sys K c w))") (auto simp: world_simps)
  then show "0 < errno (sys_do K c w)" by (simp add: sys_do_def)
qed

lemma os_law_returns [law_simps]:
  "os_law K \<Longrightarrow> returns_errno c \<Longrightarrow> 0 \<le> a_ret (fst (sys K c w))"
  unfolding os_law_def answer_law_def by (metis sys_fst)

lemma os_law_pid: "os_law K \<Longrightarrow> pid_law c (fst (sys K c w))"
  unfolding os_law_def answer_law_def by (metis sys_fst)

lemma os_law_errno_nonneg [law_simps]:
  assumes "os_law K" "0 \<le> errno w"
  shows "0 \<le> errno (snd (sys K c w))"
proof -
  have *: "\<forall>e. a_err (fst (sys K c w)) = Some e \<longrightarrow> 0 \<le> e"
    using assms(1) unfolding os_law_def answer_law_def by (metis sys_fst)
  then show ?thesis
    using assms(2) by (cases "a_err (fst (sys K c w))") (auto simp: world_simps)
qed

text \<open>
  Kernels for the witnesses: \<open>scripted\<close> answers from a list, one answer per call;
  \<open>lawful\<close> replaces every answer that breaks the documented behaviour.
\<close>

definition scripted :: "answer list kernel" where
  "scripted c k = (case k of [] \<Rightarrow> (blank\<lparr>a_ret := 1\<rparr>, [])
                           | a # k' \<Rightarrow> (a, k'))"

definition ok :: "int \<Rightarrow> answer" where
  "ok r = blank\<lparr>a_ret := r\<rparr>"

definition fail :: "int \<Rightarrow> int \<Rightarrow> answer" where
  "fail r e = blank\<lparr>a_ret := r, a_err := Some e\<rparr>"

definition boot :: "'k \<Rightarrow> 'k world" where
  "boot k = \<lparr>kst = k, errno = 0, log = []\<rparr>"

lemmas script_simps = scripted_def blank_def ok_def fail_def boot_def sys_def sys_do_def

definition safe_answer :: "call \<Rightarrow> answer" where
  "safe_answer c =
     blank\<lparr>a_ret := (case c of Proc (Waitpid _ _) \<Rightarrow> -1 | _ \<Rightarrow> 0), a_err := Some 1, a_num := 1\<rparr>"

definition lawful :: "'k kernel \<Rightarrow> 'k kernel" where
  "lawful K c k = (case K c k of (a, k') \<Rightarrow> (if answer_law c a then a else safe_answer c, k'))"

lemma safe_answer_law: "answer_law c (safe_answer c)"
proof -
  have "pid_law c (safe_answer c)"
  proof (cases c)
    case (Proc p)
    then show ?thesis by (cases p) (auto simp: safe_answer_def blank_def)
  next
    case (WProc p)
    then show ?thesis by (cases p) (auto simp: safe_answer_def blank_def)
  qed auto
  moreover have "0 \<le> a_ret (safe_answer c)" if "returns_errno c"
  proof (cases c)
    case (Proc p)
    with that show ?thesis by (cases p) (auto simp: safe_answer_def blank_def)
  qed (use that in auto)
  moreover have "- (2 ^ 31) \<le> a_ret (safe_answer c) \<and> a_ret (safe_answer c) < 2 ^ 31"
    by (auto simp: safe_answer_def blank_def split: call.split proc_call.split)
  moreover have "a_err (safe_answer c) = Some 1" "a_num (safe_answer c) = 1"
    by (auto simp: safe_answer_def blank_def)
  ultimately show ?thesis by (simp add: answer_law_def)
qed

lemma os_law_lawful: "os_law (lawful K)"
  by (auto simp: os_law_def lawful_def safe_answer_law split: prod.splits)

section \<open>Reading the log\<close>

text \<open>The descriptors and handles a stretch of the log acquired and released, in order.\<close>

fun file_acquired :: "file_call \<Rightarrow> int \<Rightarrow> int list" where
  "file_acquired (Open _ _ _) r = (if i32 r < 0 then [] else [i32 r])"
| "file_acquired Kqueue r = (if r < 0 then [] else [r])"
| "file_acquired _ r = []"

fun proc_acquired :: "proc_call \<Rightarrow> int \<Rightarrow> int list" where
  "proc_acquired (Pidfd_open _) r = (if r < 0 then [] else [r])"
| "proc_acquired (Epoll_create1 _) r = (if r < 0 then [] else [r])"
| "proc_acquired _ r = []"

fun wfile_acquired :: "wfile_call \<Rightarrow> int \<Rightarrow> int list" where
  "wfile_acquired (W_CreateFileW _ _ _ _ _) r = (if r = INVALID_HANDLE_VALUE then [] else [r])"
| "wfile_acquired _ r = []"

fun wproc_acquired :: "wproc_call \<Rightarrow> int \<Rightarrow> int list" where
  "wproc_acquired W_CreateJobObject r = (if r = 0 then [] else [r])"
| "wproc_acquired (W_OpenProcess _ _) r = (if r = 0 then [] else [r])"
| "wproc_acquired _ r = []"

fun net_acquired :: "net_call \<Rightarrow> int \<Rightarrow> int list" where
  "net_acquired (Sock _ _) r = (if r < 0 then [] else [r])"
| "net_acquired (Inotify_init1 _) r = (if r < 0 then [] else [r])"
| "net_acquired _ r = []"

fun wnet_acquired :: "wnet_call \<Rightarrow> int \<Rightarrow> int list" where
  "wnet_acquired (W_WSASocket _ _ _) r = (if r = INVALID_HANDLE_VALUE then [] else [r])"
| "wnet_acquired _ r = []"

fun acquired :: "call \<times> int \<Rightarrow> int list" where
  "acquired (File c, r) = file_acquired c r"
| "acquired (Proc c, r) = proc_acquired c r"
| "acquired (Rt c, r) = []"
| "acquired (WFile c, r) = wfile_acquired c r"
| "acquired (WProc c, r) = wproc_acquired c r"
| "acquired (Net c, r) = net_acquired c r"
| "acquired (WNet c, r) = wnet_acquired c r"

fun file_released :: "file_call \<Rightarrow> int list" where
  "file_released (Close fd) = [fd]"
| "file_released _ = []"

fun wfile_released :: "wfile_call \<Rightarrow> int list" where
  "wfile_released (W_CloseHandle h) = [h]"
| "wfile_released _ = []"

fun wnet_released :: "wnet_call \<Rightarrow> int list" where
  "wnet_released (W_closesocket h) = [h]"
| "wnet_released _ = []"

fun released :: "call \<times> int \<Rightarrow> int list" where
  "released (File c, _) = file_released c"
| "released (WFile c, _) = wfile_released c"
| "released (WNet c, _) = wnet_released c"
| "released _ = []"

definition acquired_in :: "(call \<times> int) list \<Rightarrow> int list" where
  "acquired_in l = concat (map acquired l)"

definition released_in :: "(call \<times> int) list \<Rightarrow> int list" where
  "released_in l = concat (map released l)"

lemma acquired_in_simps [simp]:
  "acquired_in [] = []" "acquired_in (x # l) = acquired x @ acquired_in l"
  "acquired_in (l @ m) = acquired_in l @ acquired_in m"
  by (simp_all add: acquired_in_def)

lemma released_in_simps [simp]:
  "released_in [] = []" "released_in (x # l) = released x @ released_in l"
  "released_in (l @ m) = released_in l @ released_in m"
  by (simp_all add: released_in_def)

text \<open>The C heap blocks that were allocated and freed.\<close>

fun heap_got :: "call \<times> int \<Rightarrow> ptr list" where
  "heap_got (Rt (Malloc _), r) = [nat r]"
| "heap_got _ = []"

fun heap_freed :: "call \<times> int \<Rightarrow> ptr list" where
  "heap_freed (Rt (Free p), _) = [p]"
| "heap_freed _ = []"

definition heap_got_in :: "(call \<times> int) list \<Rightarrow> ptr list" where
  "heap_got_in l = concat (map heap_got l)"

definition heap_freed_in :: "(call \<times> int) list \<Rightarrow> ptr list" where
  "heap_freed_in l = concat (map heap_freed l)"

lemma heap_in_simps [simp]:
  "heap_got_in [] = []" "heap_got_in (x # l) = heap_got x @ heap_got_in l"
  "heap_got_in (l @ m) = heap_got_in l @ heap_got_in m"
  "heap_freed_in [] = []" "heap_freed_in (x # l) = heap_freed x @ heap_freed_in l"
  "heap_freed_in (l @ m) = heap_freed_in l @ heap_freed_in m"
  by (simp_all add: heap_got_in_def heap_freed_in_def)

text \<open>The MoonBit objects whose reference was dropped.\<close>

fun dropped :: "call \<times> int \<Rightarrow> ptr list" where
  "dropped (Rt (Decref p), _) = [p]"
| "dropped _ = []"

definition dropped_in :: "(call \<times> int) list \<Rightarrow> ptr list" where
  "dropped_in l = concat (map dropped l)"

lemma dropped_in_simps [simp]:
  "dropped_in [] = []" "dropped_in (x # l) = dropped x @ dropped_in l"
  "dropped_in (l @ m) = dropped_in l @ dropped_in m"
  by (simp_all add: dropped_in_def)

text \<open>The calls made between two worlds.\<close>

definition since :: "'k world \<Rightarrow> 'k world \<Rightarrow> (call \<times> int) list" where
  "since w w' = drop (length (log w)) (log w')"

lemma sinceI: "log w' = log w @ l \<Longrightarrow> since w w' = l"
  by (simp add: since_def)

definition calls :: "(call \<times> int) list \<Rightarrow> call list" where
  "calls l = map fst l"

lemma calls_append [simp]: "calls (l @ m) = calls l @ calls m"
  by (simp add: calls_def)

lemma calls_Nil [simp]: "calls [] = []"
  by (simp add: calls_def)

lemma calls_Cons [simp]: "calls ((c, r) # l) = c # calls l"
  by (simp add: calls_def)

lemma calls_sys [world_simps]: "calls (log (snd (sys K c w))) = calls (log w) @ [c]"
  by (simp add: world_simps)

lemma calls_sys_do [world_simps]: "calls (log (sys_do K c w)) = calls (log w) @ [c]"
  by (simp add: world_simps)

end
