(* ===== verification/Job_Core.thy ===== *)
theory Job_Core
  imports Os_Interface
begin

text \<open>
  The header every thread-pool job starts with (\<open>struct job\<close> of \<open>thread_pool.c\<close>), how a
  worker reports through it, and the contract between the workers and the event loop
  that reads the header back.
\<close>

section \<open>The job header\<close>

text \<open>
  The function pointers \<open>worker\<close>, \<open>free\<close> and \<open>cancel_handler\<close> are fixed by the kind of
  the job (\<open>MAKE_JOB\<close>), so they are not fields here. Each concrete job extends this
  record, as its C structure starts with \<open>struct job job\<close>.
\<close>

record job =
  ret :: int
  err :: int

text \<open>A field \<open>malloc\<close> leaves indeterminate is an option, \<open>None\<close> until it is written.\<close>

definition make_job :: "job" where
  "make_job = \<lparr>ret = 0, err = 0\<rparr>"

definition job_get_ret :: "'z job_scheme \<Rightarrow> int" where
  "job_get_ret j = ret j"

definition job_get_err :: "'z job_scheme \<Rightarrow> int" where
  "job_get_err j = err j"

text \<open>What \<open>worker_loop\<close> does to the header before it calls the worker.\<close>

definition reset_header :: "'z job_scheme \<Rightarrow> 'z job_scheme" where
  "reset_header j = j\<lparr>ret := 0, err := 0\<rparr>"

text \<open>\<open>job->ret = CALL; if (job->ret < 0) job->err = errno;\<close>\<close>

definition ret_or_errno ::
  "'k kernel \<Rightarrow> call \<Rightarrow> 'z job_scheme \<Rightarrow> 'k world \<Rightarrow> 'z job_scheme \<times> 'k world" where
  "ret_or_errno K c j w =
     (let (a, w) = sys K c w;
          j = j\<lparr>ret := i32 (a_ret a)\<rparr>
      in (if ret j < 0 then j\<lparr>err := errno w\<rparr> else j, w))"

text \<open>\<open>if (!CALL) job->err = GetLastError();\<close>\<close>

definition err_unless ::
  "'k kernel \<Rightarrow> call \<Rightarrow> 'z job_scheme \<Rightarrow> 'k world \<Rightarrow> 'z job_scheme \<times> 'k world" where
  "err_unless K c j w =
     (let (a, w) = sys K c w
      in (if a_ret a = 0 then j\<lparr>err := errno w\<rparr> else j, w))"

text \<open>The answer of a cancellation handler; the last is the negative value of a failed one.\<close>

datatype cancellation_status = RETRY_LATER | NEED_WAIT | CANCEL_FAILED

section \<open>What the event loop reads back\<close>

text \<open>
  \<open>perform_job_in_worker\<close> raises the error code when it is positive and returns
  \<open>ret\<close> otherwise.
\<close>

definition job_result :: "'z job_scheme \<Rightarrow> int + int" where
  "job_result j = (if 0 < err j then Inl (err j) else Inr (ret j))"

text \<open>The header is well reported: an error is positive, a success is not negative.\<close>

definition well_reported :: "'z job_scheme \<Rightarrow> bool" where
  "well_reported j \<longleftrightarrow> 0 \<le> err j \<and> (err j = 0 \<longrightarrow> 0 \<le> ret j)"

lemma well_reported_iff: "well_reported j \<longleftrightarrow> 0 < err j \<or> (err j = 0 \<and> 0 \<le> ret j)"
  by (auto simp: well_reported_def)

lemma well_reported_result:
  "well_reported j \<Longrightarrow> (case job_result j of Inl e \<Rightarrow> 0 < e | Inr r \<Rightarrow> 0 \<le> r)"
  by (auto simp: well_reported_def job_result_def)

lemma well_reported_simps [simp]:
  "well_reported (j\<lparr>ret := r, err := 0\<rparr>) \<longleftrightarrow> 0 \<le> r"
  "well_reported (reset_header j)"
  by (auto simp: well_reported_def reset_header_def)

text \<open>
  The contract of a worker, for any kernel that keeps the documented laws. \<open>None\<close> is
  a worker that does not return, or reads outside a table of its own. The parameter \<open>pre\<close>
  is what the worker needs of the fields its constructor was given.
\<close>

locale worker_contract =
  fixes run :: "platform \<Rightarrow> 'k kernel \<Rightarrow> 'z job_scheme \<Rightarrow> 'k world \<Rightarrow> ('z job_scheme \<times> 'k world) option"
    and pre :: "platform \<Rightarrow> 'z job_scheme \<Rightarrow> bool"
  assumes reports:
    "os_law K \<Longrightarrow> pre pf j \<Longrightarrow> run pf K (reset_header j) w = Some (j', w') \<Longrightarrow> well_reported j'"
begin

lemma result_sound:
  assumes "os_law K" "pre pf j" "run pf K (reset_header j) w = Some (j', w')"
  shows "case job_result j' of Inl e \<Rightarrow> 0 < e | Inr r \<Rightarrow> 0 \<le> r"
  using reports [OF assms] by (rule well_reported_result)

lemma error_iff:
  assumes "os_law K" "pre pf j" "run pf K (reset_header j) w = Some (j', w')"
  shows "0 < err j' \<longleftrightarrow> err j' \<noteq> 0"
  using reports [OF assms] by (auto simp: well_reported_def)

end

lemma ret_or_errno_reports:
  assumes "os_law K" "int_sized c" "\<And>r. r < 0 \<Longrightarrow> call_fails c r"
    and "ret_or_errno K c (reset_header j) w = (j', w')"
  shows "well_reported j'"
proof -
  define a where "a = fst (sys K c w)"
  have i: "i32 (a_ret a) = a_ret a"
    using assms(1,2) unfolding a_def by (rule os_law_i32)
  have e: "a_ret a < 0 \<Longrightarrow> 0 < errno (snd (sys K c w))"
    unfolding a_def using assms(1,3) by (intro os_law_errno)
  show ?thesis
    using assms(4) i e
    by (auto simp: ret_or_errno_def well_reported_def reset_header_def a_def split_beta Let_def
        split: if_splits)
qed

lemma err_unless_reports:
  assumes "os_law K" "call_fails c 0" "err_unless K c (reset_header j) w = (j', w')"
  shows "well_reported j'"
proof -
  have "a_ret (fst (sys K c w)) = 0 \<Longrightarrow> 0 < errno (snd (sys K c w))"
    using assms(1,2) by (intro os_law_errno) auto
  then show ?thesis
    using assms(3)
    by (auto simp: err_unless_def well_reported_def reset_header_def split_beta Let_def
        split: if_splits)
qed

end
