(* ===== verification/Jobs_Io.thy ===== *)
theory Jobs_Io
  imports Job_Core
begin

text \<open>
  The jobs of \<open>thread_pool.c\<close> that move data through descriptors: sleep, read, write and
  open, for Unix and Windows, with the retry loops of the blocking calls.
\<close>

section \<open>Sleep\<close>

record sleep_job = job +
  sl_duration :: int

definition free_sleep_job :: "'k kernel \<Rightarrow> sleep_job \<Rightarrow> 'k world \<Rightarrow> 'k world" where
  "free_sleep_job K j w = w"

text \<open>C division truncates, also for a negative duration.\<close>

definition sleep_job_worker ::
  "platform \<Rightarrow> 'k kernel \<Rightarrow> sleep_job \<Rightarrow> 'k world \<Rightarrow> (sleep_job \<times> 'k world) option" where
  "sleep_job_worker pf K j w =
     (let ms = sl_duration j; sec = ms sdiv 1000; nsec = (ms smod 1000) * 1000000 in
      if pf = Windows then Some (j, sys_do K (WFile (W_Sleep ms)) w)
      else if pf = MacOS then
        (let (a, w) = sys K (File Kqueue) w;
             w = sys_do K (File (Kevent_sleep (a_ret a) sec nsec)) w;
             w = sys_do K (File (Close (a_ret a))) w
         in Some (j, w))
      else Some (j, sys_do K (File (Nanosleep sec nsec)) w))"

definition make_sleep_job :: "int \<Rightarrow> sleep_job" where
  "make_sleep_job ms = \<lparr>ret = 0, err = 0, sl_duration = ms\<rparr>"

section \<open>Read and write\<close>

record rw_job = job +
  rw_fd :: int
  rw_buf :: ptr
  rw_offset :: int
  rw_len :: int
  rw_position :: int

text \<open>\<open>struct read_job\<close> and \<open>struct write_job\<close> have the same fields.\<close>

definition free_read_job :: "'k kernel \<Rightarrow> rw_job \<Rightarrow> 'k world \<Rightarrow> 'k world" where
  "free_read_job K j w = sys_do K (Rt (Decref (rw_buf j))) w"

definition free_write_job :: "'k kernel \<Rightarrow> rw_job \<Rightarrow> 'k world \<Rightarrow> 'k world" where
  "free_write_job K j w = sys_do K (Rt (Decref (rw_buf j))) w"

text \<open>
  \<open>overlapped.Offset = position & 0xffffffff; overlapped.OffsetHigh = position >> 32\<close>:
  the low and the high half of the 64-bit position.
\<close>

definition offset_low :: "int \<Rightarrow> 32 word" where
  "offset_low position = word_of_int (position AND 0xffffffff)"

definition offset_high :: "int \<Rightarrow> 32 word" where
  "offset_high position = word_of_int (drop_bit 32 position)"

definition rw_overlapped :: "rw_job \<Rightarrow> (32 word \<times> 32 word) option" where
  "rw_overlapped j =
     (if rw_position j < 0 then None
      else Some (offset_low (rw_position j), offset_high (rw_position j)))"

text \<open>
  The loop of a blocking call: retry after \<open>poll\<close> while the descriptor is not ready.
  It ends with the value of the last call; \<open>errno\<close> is that of the last call or of the
  failed \<open>poll\<close>. The result is \<open>None\<close> where the loop does not end.
\<close>

partial_function (option) retry_io ::
  "platform \<Rightarrow> 'k kernel \<Rightarrow> call \<Rightarrow> call \<Rightarrow> 'k world \<Rightarrow> (int \<times> 'k world) option" where
  "retry_io pf K c p w =
     (let (a, w1) = sys K c w;
          r = i32 (a_ret a)
      in if 0 \<le> r then Some (r, w1)
         else if errno w1 \<noteq> EAGAIN pf \<and> errno w1 \<noteq> EWOULDBLOCK pf then Some (r, w1)
         else let (b, w2) = sys K p w1
              in if a_ret b < 0 then Some (r, w2) else retry_io pf K c p w2)"

definition POLL_IN :: int where "POLL_IN = 1"
definition POLL_OUT :: int where "POLL_OUT = 2"

definition read_job_worker_win ::
  "'k kernel \<Rightarrow> rw_job \<Rightarrow> 'k world \<Rightarrow> rw_job \<times> 'k world" where
  "read_job_worker_win K j w =
     (let (a, w) = sys K (WFile (W_ReadFile (rw_fd j) (rw_buf j, rw_offset j) (rw_len j)
                     (rw_overlapped j))) w
      in if a_ret a \<noteq> 0 then (j\<lparr>ret := i32 (a_num a)\<rparr>, w)
         else let e = errno w
              in if e = ERROR_HANDLE_EOF \<or> e = ERROR_BROKEN_PIPE then (j\<lparr>ret := 0\<rparr>, w)
                 else (j\<lparr>err := e\<rparr>, w))"

definition read_transfer ::
  "platform \<Rightarrow> 'k kernel \<Rightarrow> rw_job \<Rightarrow> 'k world \<Rightarrow> (int \<times> 'k world) option" where
  "read_transfer pf K j w =
     (if rw_position j < 0
      then retry_io pf K (File (Read (rw_fd j) (rw_buf j, rw_offset j) (rw_len j)))
             (File (Poll (rw_fd j) POLL_IN (-1))) w
      else let (a, w) = sys K (File (Pread (rw_fd j) (rw_buf j, rw_offset j) (rw_len j)
                                 (rw_position j))) w
           in Some (i32 (a_ret a), w))"

definition read_job_worker ::
  "platform \<Rightarrow> 'k kernel \<Rightarrow> rw_job \<Rightarrow> 'k world \<Rightarrow> (rw_job \<times> 'k world) option" where
  "read_job_worker pf K j w =
     (if pf = Windows then Some (read_job_worker_win K j w)
      else
        (case read_transfer pf K j w of
           None \<Rightarrow> None
         | Some (r, w) \<Rightarrow>
             let j = j\<lparr>ret := r\<rparr>
             in Some (if ret j < 0 then j\<lparr>err := errno w\<rparr> else j, w)))"

definition make_read_job :: "int \<Rightarrow> ptr \<Rightarrow> int \<Rightarrow> int \<Rightarrow> int \<Rightarrow> rw_job" where
  "make_read_job fd buf offset len position =
     \<lparr>ret = 0, err = 0, rw_fd = fd, rw_buf = buf, rw_offset = offset, rw_len = len,
      rw_position = position\<rparr>"

definition write_job_worker_win ::
  "'k kernel \<Rightarrow> rw_job \<Rightarrow> 'k world \<Rightarrow> rw_job \<times> 'k world" where
  "write_job_worker_win K j w =
     (let (a, w) = sys K (WFile (W_WriteFile (rw_fd j) (rw_buf j, rw_offset j) (rw_len j)
                     (rw_overlapped j))) w
      in if a_ret a \<noteq> 0 then (j\<lparr>ret := i32 (a_num a)\<rparr>, w) else (j\<lparr>err := errno w\<rparr>, w))"

definition write_transfer ::
  "platform \<Rightarrow> 'k kernel \<Rightarrow> rw_job \<Rightarrow> 'k world \<Rightarrow> (int \<times> 'k world) option" where
  "write_transfer pf K j w =
     (if rw_position j < 0
      then retry_io pf K (File (Write (rw_fd j) (rw_buf j, rw_offset j) (rw_len j)))
             (File (Poll (rw_fd j) POLL_OUT (-1))) w
      else let (a, w) = sys K (File (Pwrite (rw_fd j) (rw_buf j, rw_offset j) (rw_len j)
                                 (rw_position j))) w
           in Some (i32 (a_ret a), w))"

definition write_job_worker ::
  "platform \<Rightarrow> 'k kernel \<Rightarrow> rw_job \<Rightarrow> 'k world \<Rightarrow> (rw_job \<times> 'k world) option" where
  "write_job_worker pf K j w =
     (if pf = Windows then Some (write_job_worker_win K j w)
      else
        (case write_transfer pf K j w of
           None \<Rightarrow> None
         | Some (r, w) \<Rightarrow>
             let j = j\<lparr>ret := r\<rparr>
             in Some (if ret j < 0 then j\<lparr>err := errno w\<rparr> else j, w)))"

definition make_write_job :: "int \<Rightarrow> ptr \<Rightarrow> int \<Rightarrow> int \<Rightarrow> int \<Rightarrow> rw_job" where
  "make_write_job fd buf offset len position =
     \<lparr>ret = 0, err = 0, rw_fd = fd, rw_buf = buf, rw_offset = offset, rw_len = len,
      rw_position = position\<rparr>"

section \<open>Open\<close>

text \<open>
  The fields \<open>result\<close> and \<open>stat\<close> are not initialised by \<open>make_open_job\<close>. The file record
  is a \<open>struct stat\<close> on Unix and a \<open>BY_HANDLE_FILE_INFORMATION\<close> on Windows.
\<close>

record open_job = job +
  op_filename :: ptr
  op_access :: int
  op_create_mode :: int
  op_append :: bool
  op_sync :: int
  op_mode :: int
  op_result :: "int option"
  op_stat :: "stat option"
  op_info :: "win_file_info option"

definition free_open_job :: "'k kernel \<Rightarrow> open_job \<Rightarrow> 'k world \<Rightarrow> 'k world" where
  "free_open_job K j w = sys_do K (Rt (Decref (op_filename j))) w"

definition O_RDONLY :: "32 word" where "O_RDONLY = 0"
definition O_WRONLY :: "32 word" where "O_WRONLY = 1"
definition O_RDWR :: "32 word" where "O_RDWR = 2"
definition O_CREAT :: "platform \<Rightarrow> 32 word" where
  "O_CREAT pf = (if pf = Linux then 0x40 else 0x200)"
definition O_EXCL :: "platform \<Rightarrow> 32 word" where
  "O_EXCL pf = (if pf = Linux then 0x80 else 0x800)"
definition O_TRUNC :: "platform \<Rightarrow> 32 word" where
  "O_TRUNC pf = (if pf = Linux then 0x200 else 0x400)"
definition O_APPEND :: "platform \<Rightarrow> 32 word" where
  "O_APPEND pf = (if pf = Linux then 0x400 else 0x8)"
definition O_DSYNC :: "platform \<Rightarrow> 32 word" where
  "O_DSYNC pf = (if pf = Linux then 0x1000 else if pf = MacOS then 0x400000 else 0x1000000)"
definition O_SYNC :: "platform \<Rightarrow> 32 word" where
  "O_SYNC pf = (if pf = Linux then 0x101000 else 0x80)"
definition O_CLOEXEC :: "platform \<Rightarrow> 32 word" where
  "O_CLOEXEC pf = (if pf = Linux then 0x80000 else if pf = MacOS then 0x1000000 else 0x100000)"

lemmas open_flag_defs = O_RDONLY_def O_WRONLY_def O_RDWR_def O_CREAT_def O_EXCL_def O_TRUNC_def
  O_APPEND_def O_DSYNC_def O_SYNC_def O_CLOEXEC_def

definition access_flags :: "platform \<Rightarrow> 32 word list" where
  "access_flags pf = [O_RDONLY, O_WRONLY, O_RDWR, O_RDONLY]"

definition create_modes :: "platform \<Rightarrow> 32 word list" where
  "create_modes pf = [0, O_TRUNC pf, O_CREAT pf, O_CREAT pf OR O_TRUNC pf, O_CREAT pf OR O_EXCL pf]"

definition sync_flags :: "platform \<Rightarrow> 32 word list" where
  "sync_flags pf = [0, O_DSYNC pf, O_SYNC pf]"

text \<open>The flags passed to \<open>open\<close>; \<open>None\<close> is a read outside one of the tables.\<close>

definition open_flags :: "platform \<Rightarrow> open_job \<Rightarrow> 32 word option" where
  "open_flags pf j =
     (case (tbl (access_flags pf) (op_access j), tbl (sync_flags pf) (op_sync j),
            tbl (create_modes pf) (op_create_mode j)) of
        (Some a, Some s, Some c) \<Rightarrow>
          let flags = a OR s OR c;
              flags = (if op_append j then flags OR O_APPEND pf else flags)
          in Some (flags OR O_CLOEXEC pf)
      | _ \<Rightarrow> None)"

definition open_job_worker_unix ::
  "platform \<Rightarrow> 'k kernel \<Rightarrow> open_job \<Rightarrow> 'k world \<Rightarrow> (open_job \<times> 'k world) option" where
  "open_job_worker_unix pf K j w =
     (case open_flags pf j of
        None \<Rightarrow> None
      | Some flags \<Rightarrow>
          let (a, w) = sys K (File (Open (op_filename j) flags (op_mode j))) w;
              fd = i32 (a_ret a);
              j = j\<lparr>op_result := Some fd\<rparr>
          in if fd < 0 then Some (j\<lparr>err := errno w\<rparr>, w)
             else let (b, w) = sys K (File (Fstat fd)) w
                  in if a_ret b < 0
                     then let j = j\<lparr>err := errno w\<rparr>
                          in Some (j, sys_do K (File (Close fd)) w)
                     else Some (j\<lparr>op_stat := Some (a_stat b)\<rparr>, w))"

definition GENERIC_READ :: "32 word" where "GENERIC_READ = 0x80000000"
definition GENERIC_WRITE :: "32 word" where "GENERIC_WRITE = 0x40000000"
definition FILE_LIST_DIRECTORY :: "32 word" where "FILE_LIST_DIRECTORY = 1"
definition FILE_APPEND_DATA :: "32 word" where "FILE_APPEND_DATA = 4"
definition FILE_SHARE_ALL :: "32 word" where "FILE_SHARE_ALL = 7"
definition FILE_FLAG_BACKUP_SEMANTICS :: "32 word" where "FILE_FLAG_BACKUP_SEMANTICS = 0x02000000"
definition FILE_FLAG_OPEN_REPARSE_POINT :: "32 word" where "FILE_FLAG_OPEN_REPARSE_POINT = 0x00200000"
definition FILE_FLAG_OVERLAPPED :: "32 word" where "FILE_FLAG_OVERLAPPED = 0x40000000"
definition FILE_FLAG_WRITE_THROUGH :: "32 word" where "FILE_FLAG_WRITE_THROUGH = 0x80000000"

definition OPEN_EXISTING :: int where "OPEN_EXISTING = 3"

definition access_flags_win :: "32 word list" where
  "access_flags_win = [GENERIC_READ, GENERIC_WRITE, GENERIC_READ OR GENERIC_WRITE, FILE_LIST_DIRECTORY]"

text \<open>\<open>OPEN_EXISTING, TRUNCATE_EXISTING, OPEN_ALWAYS, CREATE_ALWAYS, CREATE_NEW\<close>\<close>

definition create_modes_win :: "int list" where
  "create_modes_win = [OPEN_EXISTING, 5, 4, 2, 1]"

definition sync_flags_win :: "32 word list" where
  "sync_flags_win = [0, FILE_FLAG_WRITE_THROUGH, FILE_FLAG_WRITE_THROUGH]"

definition open_flags_win :: "open_job \<Rightarrow> (32 word \<times> 32 word \<times> int) option" where
  "open_flags_win j =
     (case (tbl sync_flags_win (op_sync j), tbl access_flags_win (op_access j),
            tbl create_modes_win (op_create_mode j)) of
        (Some s, Some access_flag, Some c) \<Rightarrow>
          let flags = FILE_ATTRIBUTE_NORMAL OR FILE_FLAG_BACKUP_SEMANTICS OR s;
              flags = (if op_access j = 3 then flags OR FILE_FLAG_OVERLAPPED else flags);
              access_flag = (if op_append j then (access_flag XOR GENERIC_WRITE) OR FILE_APPEND_DATA
                             else access_flag)
          in Some (access_flag, flags, c)
      | _ \<Rightarrow> None)"

text \<open>A busy named pipe is waited for. \<open>Inl\<close> is the error, \<open>Inr\<close> the handle.\<close>

partial_function (option) create_file_loop ::
  "'k kernel \<Rightarrow> call \<Rightarrow> ptr \<Rightarrow> 'k world \<Rightarrow> ((int + int) \<times> 'k world) option" where
  "create_file_loop K c name w =
     (let (a, w1) = sys K c w
      in if a_ret a \<noteq> INVALID_HANDLE_VALUE then Some (Inr (a_ret a), w1)
         else if errno w1 \<noteq> ERROR_PIPE_BUSY then Some (Inl (errno w1), w1)
         else let (b, w2) = sys K (WFile (W_WaitNamedPipeW name)) w1
              in if a_ret b = 0 then Some (Inl (errno w2), w2) else create_file_loop K c name w2)"

definition open_job_worker_win ::
  "'k kernel \<Rightarrow> open_job \<Rightarrow> 'k world \<Rightarrow> (open_job \<times> 'k world) option" where
  "open_job_worker_win K j w =
     (case open_flags_win j of
        None \<Rightarrow> None
      | Some (access_flag, flags, c) \<Rightarrow>
          (case create_file_loop K
                  (WFile (W_CreateFileW (op_filename j) access_flag FILE_SHARE_ALL c flags))
                  (op_filename j) w of
             None \<Rightarrow> None
           | Some (Inl e, w) \<Rightarrow> Some (j\<lparr>op_result := Some INVALID_HANDLE_VALUE, err := e\<rparr>, w)
           | Some (Inr h, w) \<Rightarrow>
               let j = j\<lparr>op_result := Some h\<rparr>;
                   (b, w) = sys K (WFile (W_GetFileInformationByHandle h)) w
               in if a_ret b = 0
                  then let j = j\<lparr>err := errno w\<rparr>
                       in Some (j, sys_do K (WFile (W_CloseHandle h)) w)
                  else Some (j\<lparr>op_info := Some (a_info b)\<rparr>, w)))"

definition open_job_worker ::
  "platform \<Rightarrow> 'k kernel \<Rightarrow> open_job \<Rightarrow> 'k world \<Rightarrow> (open_job \<times> 'k world) option" where
  "open_job_worker pf K j w =
     (if pf = Windows then open_job_worker_win K j w else open_job_worker_unix pf K j w)"

definition make_open_job :: "ptr \<Rightarrow> int \<Rightarrow> int \<Rightarrow> bool \<Rightarrow> int \<Rightarrow> int \<Rightarrow> open_job" where
  "make_open_job filename access create_mode app sync mode =
     \<lparr>ret = 0, err = 0, op_filename = filename, op_access = access, op_create_mode = create_mode,
      op_append = app, op_sync = sync, op_mode = mode, op_result = None, op_stat = None,
      op_info = None\<rparr>"

definition open_job_get_fd :: "open_job \<Rightarrow> int option" where
  "open_job_get_fd j = op_result j"

definition open_job_get_kind :: "platform \<Rightarrow> open_job \<Rightarrow> FileKind option" where
  "open_job_get_kind pf j =
     (if pf = Windows then map_option (\<lambda>s. kind_from_attr (dwFileAttributes s)) (op_info j)
      else map_option (\<lambda>s. file_kind_from_stat (st_mode s)) (op_stat j))"

definition open_job_get_dev_id :: "platform \<Rightarrow> open_job \<Rightarrow> 64 word option" where
  "open_job_get_dev_id pf j =
     (if pf = Windows then map_option (\<lambda>s. ucast (dwVolumeSerialNumber s)) (op_info j)
      else map_option st_dev (op_stat j))"

definition open_job_get_file_id :: "platform \<Rightarrow> open_job \<Rightarrow> 64 word option" where
  "open_job_get_file_id pf j =
     (if pf = Windows
      then map_option (\<lambda>s. push_bit 32 (ucast (nFileIndexHigh s)) OR ucast (nFileIndexLow s)) (op_info j)
      else map_option st_ino (op_stat j))"

section \<open>The retry loop\<close>

text \<open>Every call but the last is a call that failed or a \<open>poll\<close>: no data is dropped.\<close>

definition only_last_succeeds :: "call \<Rightarrow> call \<Rightarrow> (call \<times> int) list \<Rightarrow> bool" where
  "only_last_succeeds c p l \<longleftrightarrow>
     l \<noteq> [] \<and> set (map fst l) \<subseteq> {c, p} \<and> (\<forall>x \<in> set (butlast l). fst x = c \<longrightarrow> i32 (snd x) < 0)"

lemma only_last_succeeds_single: "only_last_succeeds c p [(c, x)]"
  by (simp add: only_last_succeeds_def)

lemma only_last_succeeds_poll:
  "i32 x < 0 \<Longrightarrow> c \<noteq> p \<Longrightarrow> only_last_succeeds c p [(c, x), (p, y)]"
  by (simp add: only_last_succeeds_def)

lemma only_last_succeeds_Cons:
  assumes "i32 x < 0" "c \<noteq> p" "only_last_succeeds c p l"
  shows "only_last_succeeds c p ((c, x) # (p, y) # l)"
  using assms by (auto simp: only_last_succeeds_def)

definition retry_post ::
  "'k kernel \<Rightarrow> platform \<Rightarrow> call \<Rightarrow> call \<Rightarrow> 'k world \<Rightarrow> int \<times> 'k world \<Rightarrow> bool" where
  "retry_post K pf c p w res \<longleftrightarrow>
     (case res of (r, w') \<Rightarrow>
       (\<exists>l. log w' = log w @ l \<and> only_last_succeeds c p l \<and>
            (0 \<le> r \<longrightarrow> fst (last l) = c) \<and> (fst (last l) = c \<longrightarrow> i32 (snd (last l)) = r) \<and>
            (r < 0 \<longrightarrow> fst (last l) = c \<longrightarrow> errno w' \<noteq> EAGAIN pf \<and> errno w' \<noteq> EWOULDBLOCK pf)) \<and>
       (os_law K \<longrightarrow> r < 0 \<longrightarrow> 0 < errno w'))"

definition retryable :: "call \<Rightarrow> call \<Rightarrow> bool" where
  "retryable c p \<longleftrightarrow> c \<noteq> p \<and> int_sized c \<and> (\<forall>r<0. call_fails c r) \<and> (\<forall>r<0. call_fails p r)"

lemma retry_io_step:
  fixes f :: "platform \<Rightarrow> 'a kernel \<Rightarrow> call \<Rightarrow> call \<Rightarrow> 'a world \<Rightarrow> (int \<times> 'a world) option"
  assumes IH: "\<And>w res. f pf K c p w = Some res \<Longrightarrow> retry_post K pf c p w res"
    and eq: "(let (a, w1) = sys K c w; r = i32 (a_ret a)
       in if 0 \<le> r then Some (r, w1)
          else if errno w1 \<noteq> EAGAIN pf \<and> errno w1 \<noteq> EWOULDBLOCK pf then Some (r, w1)
          else let (b, w2) = sys K p w1
               in if a_ret b < 0 then Some (r, w2) else f pf K c p w2) = Some res"
    and can: "retryable c p"
  shows "retry_post K pf c p w res"
proof -
  from can have ne: "c \<noteq> p" and int: "int_sized c" and cf: "\<And>r. r < 0 \<Longrightarrow> call_fails c r"
    and pfl: "\<And>r. r < 0 \<Longrightarrow> call_fails p r"
    by (auto simp: retryable_def)
  obtain a w1 where s1: "sys K c w = (a, w1)" by fastforce
  obtain b w2 where s2: "sys K p w1 = (b, w2)" by fastforce
  have l1: "log w1 = log w @ [(c, a_ret a)]"
    using sys_log [of K c w] s1 by simp
  have l2: "log w2 = log w1 @ [(p, a_ret b)]"
    using sys_log [of K p w1] s2 by simp
  have e1: "os_law K \<Longrightarrow> i32 (a_ret a) < 0 \<Longrightarrow> 0 < errno w1"
    using os_law_errno [of K c w] os_law_i32 [of K c w] s1 int cf by simp
  have e2: "os_law K \<Longrightarrow> a_ret b < 0 \<Longrightarrow> 0 < errno w2"
    using os_law_errno [of K p w1] s2 pfl by simp
  show ?thesis
  proof (cases "i32 (a_ret a) < 0 \<and> (errno w1 = EAGAIN pf \<or> errno w1 = EWOULDBLOCK pf)")
    case False
    with eq s1 have "res = (i32 (a_ret a), w1)"
      by (auto simp: Let_def split: if_splits)
    then show ?thesis
      using l1 e1 False only_last_succeeds_single by (auto simp: retry_post_def)
  next
    case again: True
    show ?thesis
    proof (cases "a_ret b < 0")
      case True
      with again eq s1 s2 have "res = (i32 (a_ret a), w2)"
        by (auto simp: Let_def split: if_splits)
      then show ?thesis
        using l1 l2 e2 True again ne only_last_succeeds_poll [OF _ ne] by (auto simp: retry_post_def)
    next
      case False
      with again eq s1 s2 have rec: "f pf K c p w2 = Some res"
        by (auto simp: Let_def split: if_splits)
      obtain r w' where res: "res = (r, w')" by fastforce
      from IH [OF rec] obtain l where l: "log w' = log w2 @ l" "only_last_succeeds c p l"
          "0 \<le> r \<longrightarrow> fst (last l) = c" "fst (last l) = c \<longrightarrow> i32 (snd (last l)) = r"
          "r < 0 \<longrightarrow> fst (last l) = c \<longrightarrow> errno w' \<noteq> EAGAIN pf \<and> errno w' \<noteq> EWOULDBLOCK pf"
        and e: "os_law K \<longrightarrow> r < 0 \<longrightarrow> 0 < errno w'"
        by (auto simp: retry_post_def res)
      have "only_last_succeeds c p ((c, a_ret a) # (p, a_ret b) # l)"
        using again ne l(2) by (simp add: only_last_succeeds_Cons)
      moreover have "l \<noteq> []" using l(2) by (simp add: only_last_succeeds_def)
      ultimately show ?thesis
        using l l1 l2 e unfolding retry_post_def res
        by (intro case_prodI conjI exI [of _ "(c, a_ret a) # (p, a_ret b) # l"]) auto
    qed
  qed
qed

lemma retry_io_post:
  assumes ret: "retry_io pf K c p w = Some (r, w')" and can: "retryable c p"
  shows "retry_post K pf c p w (r, w')"
proof -
  have "retryable c p \<longrightarrow> retry_post K pf c p w (r, w')"
    by (rule retry_io.raw_induct
        [where P = "\<lambda>pf K c p w res. retryable c p \<longrightarrow> retry_post K pf c p w res", OF _ ret])
      (blast intro: retry_io_step)
  with can show ?thesis by blast
qed

text \<open>
  The loop ends when the kernel cannot answer "not ready" for ever: some measure of its
  state goes down whenever a call is answered with \<open>EAGAIN\<close> or \<open>EWOULDBLOCK\<close> and the \<open>poll\<close>
  after it succeeds. Nothing is asked of a kernel that answers with another error, as often as it likes.
\<close>

definition progresses :: "platform \<Rightarrow> ('k \<Rightarrow> nat) \<Rightarrow> 'k kernel \<Rightarrow> call \<Rightarrow> call \<Rightarrow> bool" where
  "progresses pf m K c p \<longleftrightarrow>
     (\<forall>k. i32 (a_ret (fst (K c k))) < 0 \<longrightarrow>
        a_err (fst (K c k)) \<in> {Some (EAGAIN pf), Some (EWOULDBLOCK pf)} \<longrightarrow>
        0 \<le> a_ret (fst (K p (snd (K c k)))) \<longrightarrow>
        m (snd (K p (snd (K c k)))) < m k)"

lemma retry_io_returns:
  assumes "progresses pf m K c p" "os_law K" "retryable c p"
  shows "\<exists>r w'. retry_io pf K c p w = Some (r, w')"
proof (induction "m (kst w)" arbitrary: w rule: less_induct)
  case less
  obtain a w1 where s1: "sys K c w = (a, w1)" by fastforce
  obtain b w2 where s2: "sys K p w1 = (b, w2)" by fastforce
  have k1: "kst w1 = snd (K c (kst w))" "a = fst (K c (kst w))"
    using sys_kst [of K c w] sys_fst [of K c w] s1 by auto
  have k2: "kst w2 = snd (K p (kst w1))" "b = fst (K p (kst w1))"
    using sys_kst [of K p w1] sys_fst [of K p w1] s2 by auto
  have err: "a_err a = Some (errno w1)" if "i32 (a_ret a) < 0"
  proof -
    have "int_sized c" "\<And>r. r < 0 \<Longrightarrow> call_fails c r" using assms(3) by (auto simp: retryable_def)
    then have "call_fails c (a_ret a)" using os_law_i32 [OF assms(2), of c w] s1 that by simp
    then obtain e where "a_err a = Some e"
      using assms(2) k1(2) unfolding os_law_def answer_law_def by blast
    then show ?thesis using sys_errno_Some [of K c w e] s1 by simp
  qed
  show ?case
  proof (cases "i32 (a_ret a) < 0 \<and> (errno w1 = EAGAIN pf \<or> errno w1 = EWOULDBLOCK pf) \<and> 0 \<le> a_ret b")
    case True
    then have "m (kst w2) < m (kst w)"
      using assms(1) k1 k2 err by (auto simp: progresses_def)
    from less [OF this] True show ?thesis
      using s1 s2 by (subst retry_io.simps) (auto simp: Let_def)
  next
    case False
    then show ?thesis using s1 s2 by (subst retry_io.simps) (auto simp: Let_def)
  qed
qed

section \<open>The contract of the read, write and open workers\<close>

lemma retryable_io [simp]:
  "retryable (File (Read fd buf n)) (File (Poll fd' ev t))"
  "retryable (File (Write fd buf n)) (File (Poll fd' ev t))"
  by (auto simp: retryable_def)

lemma retry_io_errno:
  "os_law K \<Longrightarrow> retryable c p \<Longrightarrow> retry_io pf K c p w = Some (r, w') \<Longrightarrow> r < 0 \<Longrightarrow> 0 < errno w'"
  using retry_io_post [of pf K c p w r w'] by (auto simp: retry_post_def)

lemma direct_errno:
  assumes "os_law K" "int_sized c" "\<And>r. r < 0 \<Longrightarrow> call_fails c r"
  shows "i32 (a_ret (fst (sys K c w))) < 0 \<Longrightarrow> 0 < errno (snd (sys K c w))"
  using os_law_errno [of K c w] os_law_i32 [of K c w] assms by simp

lemma transfer_errno:
  assumes "os_law K" "retryable c p" "int_sized d" "\<And>r. r < 0 \<Longrightarrow> call_fails d r"
    and "(if b then retry_io pf K c p w else let (a, w) = sys K d w in Some (i32 (a_ret a), w)) =
      Some (r, w')"
    and "r < 0"
  shows "0 < errno w'"
  using assms retry_io_errno [OF assms(1,2)] direct_errno [OF assms(1,3,4), of w]
  by (auto simp: split_beta split: if_splits)

lemma read_job_worker_win_reports:
  assumes "os_law K" "read_job_worker_win K (reset_header j) w = (j', w')"
  shows "well_reported j'"
proof -
  let ?c = "WFile (W_ReadFile (rw_fd j) (rw_buf j, rw_offset j) (rw_len j) (rw_overlapped j))"
  have "rw_overlapped (reset_header j) = rw_overlapped j"
    by (simp add: rw_overlapped_def reset_header_def)
  then show ?thesis
    using assms os_law_bytes [of K ?c w] os_law_errno [of K ?c w]
    by (auto simp: read_job_worker_win_def reset_header_def well_reported_def split_beta Let_def
        split: if_splits)
qed

lemma write_job_worker_win_reports:
  assumes "os_law K" "write_job_worker_win K (reset_header j) w = (j', w')"
  shows "well_reported j'"
proof -
  let ?c = "WFile (W_WriteFile (rw_fd j) (rw_buf j, rw_offset j) (rw_len j) (rw_overlapped j))"
  have "rw_overlapped (reset_header j) = rw_overlapped j"
    by (simp add: rw_overlapped_def reset_header_def)
  then show ?thesis
    using assms os_law_bytes [of K ?c w] os_law_errno [of K ?c w]
    by (auto simp: write_job_worker_win_def reset_header_def well_reported_def split_beta Let_def
        split: if_splits)
qed

lemma read_job_worker_reports:
  assumes "os_law K" "read_job_worker pf K (reset_header j) w = Some (j', w')"
  shows "well_reported j'"
proof (cases "pf = Windows")
  case True
  with assms show ?thesis
    by (auto simp: read_job_worker_def intro: read_job_worker_win_reports)
next
  case False
  have eq: "read_transfer pf K (reset_header j) w = read_transfer pf K j w"
    by (simp add: read_transfer_def reset_header_def)
  obtain r w1 where X: "read_transfer pf K j w = Some (r, w1)"
    using assms(2) False by (auto simp: read_job_worker_def eq split: option.splits)
  have "r < 0 \<Longrightarrow> 0 < errno w1"
    by (rule transfer_errno [OF assms(1) _ _ _ X [unfolded read_transfer_def]]) auto
  then show ?thesis
    using assms(2) False X
    by (auto simp: read_job_worker_def eq [unfolded reset_header_def] reset_header_def
        well_reported_def Let_def split: if_splits)
qed

lemma write_job_worker_reports:
  assumes "os_law K" "write_job_worker pf K (reset_header j) w = Some (j', w')"
  shows "well_reported j'"
proof (cases "pf = Windows")
  case True
  with assms show ?thesis
    by (auto simp: write_job_worker_def intro: write_job_worker_win_reports)
next
  case False
  have eq: "write_transfer pf K (reset_header j) w = write_transfer pf K j w"
    by (simp add: write_transfer_def reset_header_def)
  obtain r w1 where X: "write_transfer pf K j w = Some (r, w1)"
    using assms(2) False by (auto simp: write_job_worker_def eq split: option.splits)
  have "r < 0 \<Longrightarrow> 0 < errno w1"
    by (rule transfer_errno [OF assms(1) _ _ _ X [unfolded write_transfer_def]]) auto
  then show ?thesis
    using assms(2) False X
    by (auto simp: write_job_worker_def eq [unfolded reset_header_def] reset_header_def
        well_reported_def Let_def split: if_splits)
qed

interpretation read_worker: worker_contract read_job_worker "\<lambda>_ _. True"
  by unfold_locales (rule read_job_worker_reports)

interpretation write_worker: worker_contract write_job_worker "\<lambda>_ _. True"
  by unfold_locales (rule write_job_worker_reports)

interpretation sleep_worker: worker_contract sleep_job_worker "\<lambda>_ _. True"
  by unfold_locales (auto simp: sleep_job_worker_def Let_def split_beta split: if_splits)

section \<open>Open: result and ownership of the handle\<close>

definition create_post :: "'k kernel \<Rightarrow> 'k world \<Rightarrow> (int + int) \<times> 'k world \<Rightarrow> bool" where
  "create_post K w res \<longleftrightarrow>
     (\<exists>l. log (snd res) = log w @ l \<and> released_in l = [] \<and>
        (case fst res of
           Inl e \<Rightarrow> acquired_in l = [] \<and> (os_law K \<longrightarrow> 0 < e)
         | Inr h \<Rightarrow> acquired_in l = [h] \<and> h \<noteq> INVALID_HANDLE_VALUE))"

lemma create_file_loop_step:
  fixes f :: "'a kernel \<Rightarrow> call \<Rightarrow> ptr \<Rightarrow> 'a world \<Rightarrow> ((int + int) \<times> 'a world) option"
  assumes IH: "\<And>w res. f K c name w = Some res \<Longrightarrow> create_post K w res"
    and eq: "(let (a, w1) = sys K c w
      in if a_ret a \<noteq> INVALID_HANDLE_VALUE then Some (Inr (a_ret a), w1)
         else if errno w1 \<noteq> ERROR_PIPE_BUSY then Some (Inl (errno w1), w1)
         else let (b, w2) = sys K (WFile (W_WaitNamedPipeW name)) w1
              in if a_ret b = 0 then Some (Inl (errno w2), w2) else f K c name w2) = Some res"
    and c: "c = WFile (W_CreateFileW n a s d fl)"
  shows "create_post K w res"
proof -
  obtain a w1 where s1: "sys K c w = (a, w1)" by fastforce
  obtain b w2 where s2: "sys K (WFile (W_WaitNamedPipeW name)) w1 = (b, w2)" by fastforce
  have l1: "log w1 = log w @ [(c, a_ret a)]" using sys_log [of K c w] s1 by simp
  have l2: "log w2 = log w1 @ [(WFile (W_WaitNamedPipeW name), a_ret b)]"
    using sys_log [of K "WFile (W_WaitNamedPipeW name)" w1] s2 by simp
  have e1: "os_law K \<Longrightarrow> a_ret a = INVALID_HANDLE_VALUE \<Longrightarrow> 0 < errno w1"
    using os_law_errno [of K c w] s1 c by simp
  have e2: "os_law K \<Longrightarrow> a_ret b = 0 \<Longrightarrow> 0 < errno w2"
    using os_law_errno [of K "WFile (W_WaitNamedPipeW name)" w1] s2 by simp
  show ?thesis
  proof (cases "a_ret a = INVALID_HANDLE_VALUE \<and> errno w1 = ERROR_PIPE_BUSY \<and> a_ret b \<noteq> 0")
    case True
    with eq s1 s2 have "f K c name w2 = Some res" by auto
    from IH [OF this] obtain l where "log (snd res) = log w2 @ l" "released_in l = []"
        "(case fst res of Inl e \<Rightarrow> acquired_in l = [] \<and> (os_law K \<longrightarrow> 0 < e)
         | Inr h \<Rightarrow> acquired_in l = [h] \<and> h \<noteq> INVALID_HANDLE_VALUE)"
      by (auto simp: create_post_def)
    then show ?thesis
      using True l1 l2 c unfolding create_post_def
      by (intro exI [of _ "(c, a_ret a) # (WFile (W_WaitNamedPipeW name), a_ret b) # l"])
        (auto split: sum.splits)
  next
    case False
    with eq s1 s2 have
      "(a_ret a \<noteq> INVALID_HANDLE_VALUE \<and> res = (Inr (a_ret a), w1)) \<or>
       (a_ret a = INVALID_HANDLE_VALUE \<and> res = (Inl (errno w1), w1)) \<or>
       (a_ret a = INVALID_HANDLE_VALUE \<and> a_ret b = 0 \<and> res = (Inl (errno w2), w2))"
      by (auto split: if_splits)
    then show ?thesis
      using l1 l2 c e1 e2 by (auto simp: create_post_def)
  qed
qed

lemma create_file_loop_post:
  assumes "create_file_loop K (WFile (W_CreateFileW n a s d fl)) name w = Some res"
  shows "create_post K w res"
proof -
  show ?thesis
    by (rule create_file_loop.raw_induct
        [where P = "\<lambda>K c name w res. (\<exists>n a s d fl. c = WFile (W_CreateFileW n a s d fl)) \<longrightarrow>
            create_post K w res", OF _ assms, THEN mp])
      (blast intro: create_file_loop_step)+
qed

text \<open>What the worker owes its caller, on either system.\<close>

definition open_post :: "platform \<Rightarrow> open_job \<Rightarrow> (call \<times> int) list \<Rightarrow> bool" where
  "open_post pf j l \<longleftrightarrow>
     (if err j = 0
      then (\<exists>fd. open_job_get_fd j = Some fd \<and> acquired_in l = [fd] \<and> released_in l = [] \<and>
             open_job_get_kind pf j \<noteq> None)
      else released_in l = acquired_in l)"

lemma open_unix_post:
  assumes "os_law K" "pf \<noteq> Windows" "open_job_worker_unix pf K (reset_header j) w = Some (j', w')"
  shows "open_post pf j' (since w w') \<and> well_reported j'"
proof -
  from assms(3) obtain flags where flags: "open_flags pf (reset_header j) = Some flags"
    by (auto simp: open_job_worker_unix_def split: option.splits)
  define c where "c = File (Open (op_filename j) flags (op_mode j))"
  obtain a w1 where s1: "sys K c w = (a, w1)" by fastforce
  let ?fd = "i32 (a_ret a)"
  obtain b w2 where s2: "sys K (File (Fstat ?fd)) w1 = (b, w2)" by fastforce
  have l1: "log w1 = log w @ [(c, a_ret a)]" using sys_log [of K c w] s1 by simp
  have l2: "log w2 = log w1 @ [(File (Fstat ?fd), a_ret b)]"
    using sys_log [of K "File (Fstat ?fd)" w1] s2 by simp
  have e1: "?fd < 0 \<Longrightarrow> 0 < errno w1"
    using direct_errno [of K c w] assms(1) s1 by (simp add: c_def)
  have e2: "a_ret b < 0 \<Longrightarrow> 0 < errno w2"
    using os_law_errno [of K "File (Fstat ?fd)" w1] assms(1) s2 by simp
  have run: "open_job_worker_unix pf K (reset_header j) w =
    (let j = (reset_header j)\<lparr>op_result := Some ?fd\<rparr>
     in if ?fd < 0 then Some (j\<lparr>err := errno w1\<rparr>, w1)
        else if a_ret b < 0
        then Some (j\<lparr>err := errno w2\<rparr>, sys_do K (File (Close ?fd)) w2)
        else Some (j\<lparr>op_stat := Some (a_stat b)\<rparr>, w2))"
    using s1 s2 flags
    by (simp add: open_job_worker_unix_def c_def reset_header_def Let_def)
  show ?thesis
    using assms(2,3) e1 e2 l1 l2 unfolding run
    by (auto simp: Let_def since_def open_post_def open_job_get_fd_def open_job_get_kind_def
        well_reported_def reset_header_def c_def world_simps split: if_splits)
qed

lemma open_win_post:
  assumes "os_law K" "open_job_worker_win K (reset_header j) w = Some (j', w')"
  shows "open_post Windows j' (since w w') \<and> well_reported j'"
proof -
  obtain acc fl c where flags: "open_flags_win (reset_header j) = Some (acc, fl, c)"
    using assms(2) by (auto simp: open_job_worker_win_def split: option.splits)
  let ?c = "WFile (W_CreateFileW (op_filename j) acc FILE_SHARE_ALL c fl)"
  obtain res w1 where loop: "create_file_loop K ?c (op_filename j) w = Some (res, w1)"
    using assms(2) flags
    by (auto simp: open_job_worker_win_def reset_header_def split: option.splits)
  obtain l where l: "log w1 = log w @ l" "released_in l = []"
      "case res of Inl e \<Rightarrow> acquired_in l = [] \<and> 0 < e
       | Inr h \<Rightarrow> acquired_in l = [h] \<and> h \<noteq> INVALID_HANDLE_VALUE"
    using create_file_loop_post [OF loop] assms(1)
    by (cases res) (auto simp: create_post_def)
  show ?thesis
  proof (cases res)
    case (Inl e)
    then show ?thesis
      using assms(2) flags loop l
      by (auto simp: open_job_worker_win_def reset_header_def well_reported_def open_post_def
          since_def)
  next
    case (Inr h)
    let ?i = "WFile (W_GetFileInformationByHandle h)"
    obtain b w2 where s2: "sys K ?i w1 = (b, w2)" by fastforce
    have l2: "log w2 = log w1 @ [(?i, a_ret b)]" using sys_log [of K ?i w1] s2 by simp
    have e2: "a_ret b = 0 \<Longrightarrow> 0 < errno w2"
      using os_law_errno [of K ?i w1] assms(1) s2 by simp
    show ?thesis
      using assms(2) flags loop l Inr s2 l2 e2
      by (auto simp: open_job_worker_win_def reset_header_def well_reported_def open_post_def
          since_def open_job_get_fd_def open_job_get_kind_def world_simps Let_def split: if_splits)
  qed
qed

lemma open_job_worker_post:
  assumes "os_law K" "open_job_worker pf K (reset_header j) w = Some (j', w')"
  shows "open_post pf j' (since w w') \<and> well_reported j'"
  using assms open_unix_post [of K pf j w j' w'] open_win_post [of K j w j' w']
  by (auto simp: open_job_worker_def split: if_splits)

interpretation open_worker: worker_contract open_job_worker "\<lambda>_ _. True"
  by unfold_locales (blast dest: open_job_worker_post)


section \<open>Properties\<close>

text \<open>The byte counts that the calls of a stretch of the log moved, one entry per call.\<close>

fun moved :: "call \<times> int \<Rightarrow> int list" where
  "moved (File (Read _ _ _), r) = (if i32 r < 0 then [] else [i32 r])"
| "moved (File (Pread _ _ _ _), r) = (if i32 r < 0 then [] else [i32 r])"
| "moved (File (Write _ _ _), r) = (if i32 r < 0 then [] else [i32 r])"
| "moved (File (Pwrite _ _ _ _), r) = (if i32 r < 0 then [] else [i32 r])"
| "moved _ = []"

definition moved_in :: "(call \<times> int) list \<Rightarrow> int list" where
  "moved_in l = concat (map moved l)"

lemma moved_in_simps [simp]:
  "moved_in [] = []" "moved_in (x # l) = moved x @ moved_in l"
  "moved_in (l @ m) = moved_in l @ moved_in m"
  by (simp_all add: moved_in_def)

definition moves :: "call \<Rightarrow> bool" where
  "moves c \<longleftrightarrow> (\<forall>r. moved (c, r) = (if i32 r < 0 then [] else [i32 r]))"

lemma moves_io [simp]:
  "moves (File (Read fd b n))" "moves (File (Pread fd b n pos))"
  "moves (File (Write fd b n))" "moves (File (Pwrite fd b n pos))"
  by (simp_all add: moves_def)

lemma only_last_moved:
  assumes "only_last_succeeds c p l" "moves c" "\<And>r. moved (p, r) = []"
  shows "moved_in l = moved (last l)"
proof -
  have none: "\<forall>x \<in> set (butlast l). moved x = []"
  proof
    fix x assume x: "x \<in> set (butlast l)"
    then have "fst x = c \<or> fst x = p"
      using assms(1) in_set_butlastD [OF x] by (auto simp: only_last_succeeds_def)
    then show "moved x = []"
      using assms x by (cases x) (auto simp: only_last_succeeds_def moves_def)
  qed
  then have "moved_in (butlast l) = []" by (simp add: moved_in_def)
  moreover have "l = butlast l @ [last l]"
    using assms(1) by (simp add: only_last_succeeds_def)
  ultimately show ?thesis
    by (metis append_Nil append_Nil2 moved_in_simps)
qed

lemma retry_io_moved:
  assumes ret: "retry_io pf K c p w = Some (r, w')"
    and can: "retryable c p" "moves c" "\<And>x. moved (p, x) = []"
  shows "moved_in (since w w') = (if 0 \<le> r then [r] else [])"
proof -
  obtain l where l: "log w' = log w @ l" "only_last_succeeds c p l"
      "0 \<le> r \<longrightarrow> fst (last l) = c" "fst (last l) = c \<longrightarrow> i32 (snd (last l)) = r"
    using retry_io_post [OF ret can(1)] by (auto simp: retry_post_def)
  have "fst (last l) = c \<or> fst (last l) = p"
    using l(2) last_in_set [of l] unfolding only_last_succeeds_def
    by (metis imageI insertE set_map singletonD subsetD)
  then have "moved (last l) = (if 0 \<le> r then [r] else [])"
    using l(3,4) can by (cases "last l") (auto simp: moves_def)
  then show ?thesis
    using only_last_moved [OF l(2) can(2,3)] sinceI [OF l(1)] by simp
qed

lemma transfer_moved:
  assumes "(if b then retry_io pf K c p w else let (a, w) = sys K d w in Some (i32 (a_ret a), w)) =
      Some (r, w')"
    and "retryable c p" "moves c" "moves d" "\<And>x. moved (p, x) = []"
  shows "moved_in (since w w') = (if 0 \<le> r then [r] else [])"
proof (cases b)
  case True
  then show ?thesis using assms retry_io_moved [of pf K c p w r w'] by simp
next
  case False
  have "since w (snd (sys K d w)) = [(d, a_ret (fst (sys K d w)))]"
    by (rule sinceI) (simp add: world_simps)
  then show ?thesis
    using assms(1,4) False by (auto simp: split_beta moves_def)
qed

text \<open>A kernel whose descriptor becomes ready after \<open>n\<close> polls, and then moves three bytes.\<close>

definition busy :: "platform \<Rightarrow> nat kernel" where
  "busy pf c n =
     (blank\<lparr>a_ret := (case c of File (Poll _ _ _) \<Rightarrow> 1 | Proc (Waitpid _ _) \<Rightarrow> -1
                       | _ \<Rightarrow> if n = 0 \<or> returns_errno c then 3 else -1),
            a_err := Some (EAGAIN pf)\<rparr>,
      case c of File (Poll _ _ _) \<Rightarrow> n - 1 | _ \<Rightarrow> n)"

lemma os_law_busy: "os_law (busy pf)"
proof -
  have "pid_law c (fst (busy pf c n))" for c n
  proof (cases c)
    case (Proc p)
    then show ?thesis by (cases p) (auto simp: busy_def blank_def)
  next
    case (WProc p)
    then show ?thesis by (cases p) (auto simp: busy_def blank_def pi_pid_def)
  qed auto
  moreover have "0 \<le> a_ret (fst (busy pf c n))" if "returns_errno c" for c n
  proof (cases c)
    case (Proc p)
    with that show ?thesis by (cases p) (auto simp: busy_def blank_def)
  qed (use that in auto)
  ultimately show ?thesis
    by (auto simp: os_law_def answer_law_def busy_def blank_def EAGAIN_def
        split: call.splits file_call.splits proc_call.splits)
qed

lemma progresses_busy:
  assumes "retryable c (File (Poll fd ev t))" "moves c"
  shows "progresses pf id (busy pf) c (File (Poll fd ev t))"
proof -
  have "(\<exists>a b d. c = File (Read a b d)) \<or> (\<exists>a b d. c = File (Write a b d)) \<or>
      (\<exists>a b d e. c = File (Pread a b d e)) \<or> (\<exists>a b d e. c = File (Pwrite a b d e))"
    using assms(2) moves_def [of c]
    by (cases c; simp; rename_tac f; case_tac f; force simp: i32_def dest: spec [of _ 0])
  then show ?thesis
    by (auto simp: progresses_def busy_def i32_def)
qed

text \<open>A kernel whose descriptor becomes ready after \<open>n\<close> polls, and then answers every transfer with the error \<open>e\<close>.\<close>

definition broken :: "platform \<Rightarrow> int \<Rightarrow> nat kernel" where
  "broken pf e c n =
     (let failed = (blank\<lparr>a_ret := -1, a_err := Some (if n = 0 then e else EAGAIN pf)\<rparr>, n)
      in case c of File (Read _ _ _) \<Rightarrow> failed | File (Write _ _ _) \<Rightarrow> failed | _ \<Rightarrow> busy pf c n)"

lemma os_law_broken:
  assumes "0 < e"
  shows "os_law (broken pf e)"
proof -
  have "answer_law c (fst (broken pf e c n))" for c n
  proof (cases "(\<exists>a b d. c = File (Read a b d)) \<or> (\<exists>a b d. c = File (Write a b d))")
    case True
    with assms show ?thesis
      by (auto simp: broken_def answer_law_def blank_def EAGAIN_def)
  next
    case False
    then have "broken pf e c n = busy pf c n"
      by (auto simp: broken_def Let_def split: call.splits file_call.splits)
    then show ?thesis using os_law_busy [of pf] by (simp add: os_law_def)
  qed
  then show ?thesis by (simp add: os_law_def)
qed

lemma progresses_broken:
  assumes "e \<noteq> EAGAIN pf" "e \<noteq> EWOULDBLOCK pf"
  shows "progresses pf id (broken pf e) (File (Read fd b k)) (File (Poll fd ev t))"
    "progresses pf id (broken pf e) (File (Write fd b k)) (File (Poll fd ev t))"
  using assms by (auto simp: progresses_def broken_def busy_def i32_def)

text \<open>
  What an error says after the calls \<open>l\<close>: it is positive, and when the last call is the transfer
  itself, it is not one that asks for another attempt.
\<close>

definition error_final :: "platform \<Rightarrow> call \<Rightarrow> (call \<times> int) list \<Rightarrow> int + int \<Rightarrow> bool" where
  "error_final pf c l res \<longleftrightarrow>
     (case res of
        Inr n \<Rightarrow> True
      | Inl e \<Rightarrow> 0 < e \<and> (fst (last l) = c \<longrightarrow> e \<noteq> EAGAIN pf \<and> e \<noteq> EWOULDBLOCK pf))"

lemma retry_io_final:
  assumes "os_law K" "retryable c p" "retry_io pf K c p w = Some (r, w')" "r < 0"
  shows "error_final pf c (since w w') (Inl (errno w'))"
proof -
  obtain l where l: "log w' = log w @ l"
    "fst (last l) = c \<longrightarrow> errno w' \<noteq> EAGAIN pf \<and> errno w' \<noteq> EWOULDBLOCK pf"
    using retry_io_post [OF assms(3,2)] assms(4) by (auto simp: retry_post_def)
  then show ?thesis
    using sinceI [OF l(1)] retry_io_errno [OF assms] by (simp add: error_final_def)
qed

text \<open>
  Claim C13 (functional). A Unix read job ends, on every descriptor that is not "not ready" (\<open>EAGAIN\<close>,
  \<open>EWOULDBLOCK\<close>) for ever, also on one that answers with another error each time. The calls
  it made moved bytes exactly once: the call whose count the job reports when it succeeds,
  none when it reports an error, which is then positive. A read without a position reports the error of the
  read itself only when that error does not ask for another attempt.
\<close>

theorem read_job_once:
  assumes "os_law K" "pf \<noteq> Windows"
    and "progresses pf m K (File (Read (rw_fd j) (rw_buf j, rw_offset j) (rw_len j)))
          (File (Poll (rw_fd j) POLL_IN (-1)))"
  shows "\<exists>j' w'. read_job_worker pf K (reset_header j) w = Some (j', w') \<and>
    moved_in (since w w') = (case job_result j' of Inl e \<Rightarrow> [] | Inr n \<Rightarrow> [n]) \<and>
    (rw_position j < 0 \<longrightarrow>
       error_final pf (File (Read (rw_fd j) (rw_buf j, rw_offset j) (rw_len j))) (since w w') (job_result j'))"
proof -
  let ?c = "File (Read (rw_fd j) (rw_buf j, rw_offset j) (rw_len j))" and ?p = "File (Poll (rw_fd j) POLL_IN (-1))"
  have can: "retryable ?c ?p" by simp
  have "\<exists>r w'. read_transfer pf K j w = Some (r, w')"
    using retry_io_returns [OF assms(3,1) can, of w] by (simp add: read_transfer_def split_beta)
  then obtain r w' where X: "read_transfer pf K j w = Some (r, w')" by blast
  have eq: "read_transfer pf K (reset_header j) w = read_transfer pf K j w"
    by (simp add: read_transfer_def reset_header_def)
  have m: "moved_in (since w w') = (if 0 \<le> r then [r] else [])"
    by (rule transfer_moved [OF X [unfolded read_transfer_def]]) auto
  have e: "r < 0 \<Longrightarrow> 0 < errno w'"
    by (rule transfer_errno [OF assms(1) _ _ _ X [unfolded read_transfer_def]]) auto
  have f: "rw_position j < 0 \<Longrightarrow> r < 0 \<Longrightarrow> error_final pf ?c (since w w') (Inl (errno w'))"
    using retry_io_final [OF assms(1) can, of pf w r w'] X by (simp add: read_transfer_def)
  show ?thesis
    using m e f X assms(2)
    by (simp add: read_job_worker_def eq) (auto simp: reset_header_def job_result_def Let_def error_final_def)
qed

theorem read_job_once_witness:
  "(\<exists>j' w'. read_job_worker Linux (busy Linux) (reset_header (make_read_job 4 900 0 16 (-1)))
      (boot 2) = Some (j', w') \<and>
    moved_in (since (boot 2) w') = (case job_result j' of Inl e \<Rightarrow> [] | Inr n \<Rightarrow> [n])) \<and>
   (\<exists>j' w'. read_job_worker Linux (broken Linux 5) (reset_header (make_read_job 4 900 0 16 (-1)))
      (boot 2) = Some (j', w') \<and>
    moved_in (since (boot 2) w') = (case job_result j' of Inl e \<Rightarrow> [] | Inr n \<Rightarrow> [n]))"
proof -
  let ?j = "make_read_job 4 900 0 16 (-1)"
  have p: "progresses Linux id K (File (Read (rw_fd ?j) (rw_buf ?j, rw_offset ?j) (rw_len ?j)))
      (File (Poll (rw_fd ?j) POLL_IN (-1)))" if "K = busy Linux \<or> K = broken Linux 5" for K
    using that by (auto simp: EAGAIN_def EWOULDBLOCK_def intro!: progresses_busy progresses_broken)
  have "os_law (broken Linux 5)" by (rule os_law_broken) simp
  have "\<exists>j' w'. read_job_worker Linux K (reset_header ?j) (boot 2) = Some (j', w') \<and>
      moved_in (since (boot 2) w') = (case job_result j' of Inl e \<Rightarrow> [] | Inr n \<Rightarrow> [n])"
    if "K = busy Linux \<or> K = broken Linux 5" "os_law K" for K
    using read_job_once [OF that(2) _ p [OF that(1)], of "boot 2"] by auto
  from this [OF _ os_law_busy] this [OF _ \<open>os_law (broken Linux 5)\<close>] show ?thesis by blast
qed

text \<open>
  Claim C14 (functional). A Unix write job ends, on every descriptor that is not "not ready" for
  ever, also on one that answers with another error each time. The data went out exactly once when the
  job reports a byte count and never when it reports an error, which is positive: the retry
  loop does not send it twice. A write without a position reports the error of the write itself only when that error does not
  ask for another attempt.
\<close>

theorem write_job_once:
  assumes "os_law K" "pf \<noteq> Windows"
    and "progresses pf m K (File (Write (rw_fd j) (rw_buf j, rw_offset j) (rw_len j)))
          (File (Poll (rw_fd j) POLL_OUT (-1)))"
  shows "\<exists>j' w'. write_job_worker pf K (reset_header j) w = Some (j', w') \<and>
    moved_in (since w w') = (case job_result j' of Inl e \<Rightarrow> [] | Inr n \<Rightarrow> [n]) \<and>
    (rw_position j < 0 \<longrightarrow>
       error_final pf (File (Write (rw_fd j) (rw_buf j, rw_offset j) (rw_len j))) (since w w') (job_result j'))"
proof -
  let ?c = "File (Write (rw_fd j) (rw_buf j, rw_offset j) (rw_len j))" and ?p = "File (Poll (rw_fd j) POLL_OUT (-1))"
  have can: "retryable ?c ?p" by simp
  have "\<exists>r w'. write_transfer pf K j w = Some (r, w')"
    using retry_io_returns [OF assms(3,1) can, of w] by (simp add: write_transfer_def split_beta)
  then obtain r w' where X: "write_transfer pf K j w = Some (r, w')" by blast
  have eq: "write_transfer pf K (reset_header j) w = write_transfer pf K j w"
    by (simp add: write_transfer_def reset_header_def)
  have m: "moved_in (since w w') = (if 0 \<le> r then [r] else [])"
    by (rule transfer_moved [OF X [unfolded write_transfer_def]]) auto
  have e: "r < 0 \<Longrightarrow> 0 < errno w'"
    by (rule transfer_errno [OF assms(1) _ _ _ X [unfolded write_transfer_def]]) auto
  have f: "rw_position j < 0 \<Longrightarrow> r < 0 \<Longrightarrow> error_final pf ?c (since w w') (Inl (errno w'))"
    using retry_io_final [OF assms(1) can, of pf w r w'] X by (simp add: write_transfer_def)
  show ?thesis
    using m e f X assms(2)
    by (simp add: write_job_worker_def eq) (auto simp: reset_header_def job_result_def Let_def error_final_def)
qed

theorem write_job_once_witness:
  "(\<exists>j' w'. write_job_worker MacOS (busy MacOS) (reset_header (make_write_job 4 900 0 16 (-1)))
      (boot 2) = Some (j', w') \<and>
    moved_in (since (boot 2) w') = (case job_result j' of Inl e \<Rightarrow> [] | Inr n \<Rightarrow> [n])) \<and>
   (\<exists>j' w'. write_job_worker MacOS (broken MacOS 5) (reset_header (make_write_job 4 900 0 16 (-1)))
      (boot 2) = Some (j', w') \<and>
    moved_in (since (boot 2) w') = (case job_result j' of Inl e \<Rightarrow> [] | Inr n \<Rightarrow> [n]))"
proof -
  let ?j = "make_write_job 4 900 0 16 (-1)"
  have p: "progresses MacOS id K (File (Write (rw_fd ?j) (rw_buf ?j, rw_offset ?j) (rw_len ?j)))
      (File (Poll (rw_fd ?j) POLL_OUT (-1)))" if "K = busy MacOS \<or> K = broken MacOS 5" for K
    using that by (auto simp: EAGAIN_def EWOULDBLOCK_def intro!: progresses_busy progresses_broken)
  have "os_law (broken MacOS 5)" by (rule os_law_broken) simp
  have "\<exists>j' w'. write_job_worker MacOS K (reset_header ?j) (boot 2) = Some (j', w') \<and>
      moved_in (since (boot 2) w') = (case job_result j' of Inl e \<Rightarrow> [] | Inr n \<Rightarrow> [n])"
    if "K = busy MacOS \<or> K = broken MacOS 5" "os_law K" for K
    using write_job_once [OF that(2) _ p [OF that(1)], of "boot 2"] by auto
  from this [OF _ os_law_busy] this [OF _ \<open>os_law (broken MacOS 5)\<close>] show ?thesis by blast
qed

text \<open>
  Claim C28 (safety). An open job owns what it reports: when it ends without an error it
  returns the one descriptor or handle it opened, still open, with the file record that its
  getters read; when it ends with an error, which is positive, whatever it opened has been
  closed again, on Unix and on Windows.
\<close>

theorem open_job_owns:
  assumes "os_law K" "open_job_worker pf K (reset_header j) w = Some (j', w')"
  shows "case job_result j' of
      Inl e \<Rightarrow> released_in (since w w') = acquired_in (since w w')
    | Inr r \<Rightarrow> \<exists>fd. open_job_get_fd j' = Some fd \<and> acquired_in (since w w') = [fd] \<and>
        released_in (since w w') = [] \<and> open_job_get_kind pf j' \<noteq> None"
  using open_job_worker_post [OF assms]
  by (auto simp: open_post_def job_result_def well_reported_def split: if_splits)

theorem open_job_owns_witness:
  "\<exists>j' w'. open_job_worker Linux (busy Linux) (reset_header (make_open_job 7 0 0 False 0 0)) (boot 0)
      = Some (j', w') \<and>
    (case job_result j' of
      Inl e \<Rightarrow> released_in (since (boot 0) w') = acquired_in (since (boot 0) w')
    | Inr r \<Rightarrow> \<exists>fd. open_job_get_fd j' = Some fd \<and> acquired_in (since (boot 0) w') = [fd] \<and>
        released_in (since (boot 0) w') = [] \<and> open_job_get_kind Linux j' \<noteq> None)"
proof -
  have "\<exists>j' w'. open_job_worker Linux (busy Linux) (reset_header (make_open_job 7 0 0 False 0 0)) (boot 0)
      = Some (j', w')"
    by (simp add: open_job_worker_def open_job_worker_unix_def open_flags_def make_open_job_def
        reset_header_def access_flags_def sync_flags_def create_modes_def tbl_def split_beta Let_def)
  then show ?thesis using open_job_owns [OF os_law_busy] by blast
qed

lemma or_nonzero: "(x OR y) AND b \<noteq> 0 \<longleftrightarrow> x AND b \<noteq> 0 \<or> y AND b \<noteq> (0 :: 'a :: len word)"
  by (simp add: bit.conj_disj_distrib2 or_eq_0_iff)

lemma access_bits:
  assumes "pf \<noteq> Windows" "tbl (access_flags pf) i = Some a"
  shows "a AND O_CREAT pf = 0" "a AND O_TRUNC pf = 0" "a AND O_EXCL pf = 0" "a AND O_APPEND pf = 0"
    "a AND 3 = (if i = 1 then O_WRONLY else if i = 2 then O_RDWR else O_RDONLY)"
proof -
  have "i \<in> {0, 1, 2, 3}"
    using assms(2) by (auto simp: tbl_def access_flags_def split: if_splits)
  then have "(i = 0 \<and> a = 0) \<or> (i = 1 \<and> a = 1) \<or> (i = 2 \<and> a = 2) \<or> (i = 3 \<and> a = 0)"
    using assms(2) by (auto simp: tbl_def access_flags_def open_flag_defs)
  then show "a AND O_CREAT pf = 0" "a AND O_TRUNC pf = 0" "a AND O_EXCL pf = 0"
      "a AND O_APPEND pf = 0"
      "a AND 3 = (if i = 1 then O_WRONLY else if i = 2 then O_RDWR else O_RDONLY)"
    using assms(1) by (auto simp: open_flag_defs)
qed

lemma sync_bits:
  assumes "pf \<noteq> Windows" "tbl (sync_flags pf) i = Some s"
  shows "s AND O_CREAT pf = 0" "s AND O_TRUNC pf = 0" "s AND O_EXCL pf = 0" "s AND O_APPEND pf = 0"
    "s AND 3 = 0"
proof -
  have "i \<in> {0, 1, 2}"
    using assms(2) by (auto simp: tbl_def sync_flags_def split: if_splits)
  then have "s = 0 \<or> s = O_DSYNC pf \<or> s = O_SYNC pf"
    using assms(2) by (auto simp: tbl_def sync_flags_def)
  then show "s AND O_CREAT pf = 0" "s AND O_TRUNC pf = 0" "s AND O_EXCL pf = 0"
      "s AND O_APPEND pf = 0" "s AND 3 = 0"
    using assms(1) by (cases pf; auto simp: open_flag_defs)+
qed

lemma create_bits:
  assumes "pf \<noteq> Windows" "tbl (create_modes pf) i = Some c"
  shows "c AND O_CREAT pf \<noteq> 0 \<longleftrightarrow> i \<ge> 2" "c AND O_TRUNC pf \<noteq> 0 \<longleftrightarrow> i \<in> {1, 3}"
    "c AND O_EXCL pf \<noteq> 0 \<longleftrightarrow> i = 4" "c AND O_APPEND pf = 0" "c AND 3 = 0"
proof -
  have "i \<in> {0, 1, 2, 3, 4}"
    using assms(2) by (auto simp: tbl_def create_modes_def split: if_splits)
  then have "(i = 0 \<and> c = 0) \<or> (i = 1 \<and> c = O_TRUNC pf) \<or> (i = 2 \<and> c = O_CREAT pf) \<or>
      (i = 3 \<and> c = O_CREAT pf OR O_TRUNC pf) \<or> (i = 4 \<and> c = O_CREAT pf OR O_EXCL pf)"
    using assms(2) by (auto simp: tbl_def create_modes_def)
  then show "c AND O_CREAT pf \<noteq> 0 \<longleftrightarrow> i \<ge> 2" "c AND O_TRUNC pf \<noteq> 0 \<longleftrightarrow> i \<in> {1, 3}"
      "c AND O_EXCL pf \<noteq> 0 \<longleftrightarrow> i = 4" "c AND O_APPEND pf = 0" "c AND 3 = 0"
    using assms(1) by (cases pf; auto simp: open_flag_defs)+
qed

lemma common_bits:
  assumes "pf \<noteq> Windows"
  shows "O_APPEND pf AND O_CREAT pf = 0" "O_APPEND pf AND O_TRUNC pf = 0" "O_APPEND pf AND O_EXCL pf = 0"
    "O_APPEND pf AND O_APPEND pf \<noteq> 0" "O_APPEND pf AND 3 = 0"
    "O_CLOEXEC pf AND O_CREAT pf = 0" "O_CLOEXEC pf AND O_TRUNC pf = 0" "O_CLOEXEC pf AND O_EXCL pf = 0"
    "O_CLOEXEC pf AND O_APPEND pf = 0" "O_CLOEXEC pf AND O_CLOEXEC pf \<noteq> 0" "O_CLOEXEC pf AND 3 = 0"
  using assms by (cases pf; simp add: open_flag_defs)+

text \<open>
  For every access mode, creation mode, synchronisation mode and
  append flag the library passes, the Unix open flags say what was asked for: no table is
  read out of range, the file is created, truncated, created exclusively or appended to in
  exactly the requested cases, and every descriptor is close-on-exec.
\<close>

lemma open_flags_meaning:
  assumes "pf \<noteq> Windows" "0 \<le> op_access j" "op_access j < 4" "0 \<le> op_sync j" "op_sync j < 3"
    "0 \<le> op_create_mode j" "op_create_mode j < 5"
  shows "\<exists>flags. open_flags pf j = Some flags \<and>
    (flags AND O_CREAT pf \<noteq> 0 \<longleftrightarrow> op_create_mode j \<ge> 2) \<and>
    (flags AND O_TRUNC pf \<noteq> 0 \<longleftrightarrow> op_create_mode j \<in> {1, 3}) \<and>
    (flags AND O_EXCL pf \<noteq> 0 \<longleftrightarrow> op_create_mode j = 4) \<and>
    (flags AND O_APPEND pf \<noteq> 0 \<longleftrightarrow> op_append j) \<and>
    flags AND O_CLOEXEC pf \<noteq> 0 \<and>
    flags AND 3 = (if op_access j = 1 then O_WRONLY else if op_access j = 2 then O_RDWR else O_RDONLY)"
proof -
  obtain a where a: "tbl (access_flags pf) (op_access j) = Some a"
    using assms by (auto intro: tbl_SomeE [of "op_access j" "access_flags pf"] simp: access_flags_def)
  obtain s where s: "tbl (sync_flags pf) (op_sync j) = Some s"
    using assms by (auto intro: tbl_SomeE [of "op_sync j" "sync_flags pf"] simp: sync_flags_def)
  obtain c where c: "tbl (create_modes pf) (op_create_mode j) = Some c"
    using assms by (auto intro: tbl_SomeE [of "op_create_mode j" "create_modes pf"] simp: create_modes_def)
  note t = a s c
  note bits = access_bits [OF assms(1) a] sync_bits [OF assms(1) s] create_bits [OF assms(1) c]
    common_bits [OF assms(1)]
  show ?thesis
    using bits t by (simp add: open_flags_def or_nonzero or_eq_0_iff bit.conj_disj_distrib2 Let_def)
qed

text \<open>
  The two halves of \<open>OVERLAPPED\<close> that a positioned Windows read or
  write is given hold the whole 64-bit position of the job.
\<close>

lemma rw_overlapped_position:
  assumes "0 \<le> rw_position j" "rw_position j < 2 ^ 63"
  shows "\<exists>low high. rw_overlapped j = Some (low, high) \<and>
    uint low + 2 ^ 32 * uint high = rw_position j"
proof -
  let ?p = "rw_position j"
  have "?p AND 0xffffffff = ?p mod 2 ^ 32"
    using take_bit_eq_mask [of 32 ?p] by (simp add: take_bit_eq_mod mask_eq_exp_minus_1)
  moreover have "drop_bit 32 ?p = ?p div 2 ^ 32" by (simp add: drop_bit_eq_div)
  moreover have "?p div 2 ^ 32 mod 2 ^ 32 = ?p div 2 ^ 32"
    using assms by (intro mod_pos_pos_trivial) (auto simp: pos_imp_zdiv_nonneg_iff)
  ultimately show ?thesis
    using assms
    by (simp add: rw_overlapped_def offset_low_def offset_high_def uint_word_of_int)
qed

end
