(* ===== verification/Jobs_File.thy ===== *)
theory Jobs_File
  imports Jobs_Io
begin

text \<open>
  The file jobs of \<open>thread_pool.c\<close> that make one call or hold one handle for it: kinds,
  sizes and times, permissions, locks, removal, directories and inotify watches.
\<close>

section \<open>Kind of a descriptor\<close>

definition FILE_TYPE_UNKNOWN :: int where "FILE_TYPE_UNKNOWN = 0"
definition FILE_TYPE_DISK :: int where "FILE_TYPE_DISK = 1"
definition FILE_TYPE_CHAR :: int where "FILE_TYPE_CHAR = 2"
definition FILE_TYPE_PIPE :: int where "FILE_TYPE_PIPE = 3"

lemmas file_type_defs = FILE_TYPE_UNKNOWN_def FILE_TYPE_DISK_def FILE_TYPE_CHAR_def FILE_TYPE_PIPE_def

definition FileBasicInfo :: int where "FileBasicInfo = 0"
definition sizeof_FILE_BASIC_INFO :: int where "sizeof_FILE_BASIC_INFO = 40"

definition handle_is_socket :: "'k kernel \<Rightarrow> int \<Rightarrow> 'k world \<Rightarrow> bool \<times> 'k world" where
  "handle_is_socket K handle w =
     (let (a, w) = sys K (WFile (W_getsockopt_type handle)) w in (a_ret a = 0, w))"

text \<open>The output structure is a local variable: pointer \<open>0\<close> stands for its address.\<close>

definition kind_of_fd_win :: "'k kernel \<Rightarrow> int \<Rightarrow> 'k world \<Rightarrow> int \<times> 'k world" where
  "kind_of_fd_win K handle w =
     (let w = set_errno 0 w;
          (a, w) = sys K (WFile (W_GetFileType handle)) w;
          kind = a_ret a
      in if kind = FILE_TYPE_DISK then
           let (b, w) = sys K (WFile (W_GetFileInformationByHandleEx handle FileBasicInfo 0
                          sizeof_FILE_BASIC_INFO)) w
           in if a_ret b = 0 then (-1, w)
              else (file_kind_code (kind_from_attr (dwFileAttributes (a_info b))), w)
         else if kind = FILE_TYPE_CHAR then (file_kind_code CharDevice, w)
         else if kind = FILE_TYPE_PIPE then
           let (sock, w) = handle_is_socket K handle w
           in (file_kind_code (if sock then Socket else Pipe), w)
         else if kind = FILE_TYPE_UNKNOWN then
           let get_file_type_err = errno w;
               (sock, w) = handle_is_socket K handle w
           in if sock then (file_kind_code Socket, w)
              else if get_file_type_err = 0 then (file_kind_code UnknownFileKind, w)
              else (-1, set_errno get_file_type_err w)
         else (file_kind_code UnknownFileKind, w))"

definition kind_of_fd_unix :: "'k kernel \<Rightarrow> int \<Rightarrow> 'k world \<Rightarrow> int \<times> 'k world" where
  "kind_of_fd_unix K fd w =
     (let (a, w) = sys K (File (Fstat fd)) w
      in if a_ret a < 0 then (-1, w)
         else (file_kind_code (file_kind_from_stat (st_mode (a_stat a))), w))"

definition kind_of_fd :: "platform \<Rightarrow> 'k kernel \<Rightarrow> int \<Rightarrow> 'k world \<Rightarrow> int \<times> 'k world" where
  "kind_of_fd pf K fd w = (if pf = Windows then kind_of_fd_win K fd w else kind_of_fd_unix K fd w)"

record kind_of_fd_job = job +
  kf_fd :: int

definition free_kind_of_fd_job :: "'k kernel \<Rightarrow> kind_of_fd_job \<Rightarrow> 'k world \<Rightarrow> 'k world" where
  "free_kind_of_fd_job K j w = w"

definition kind_of_fd_job_worker ::
  "platform \<Rightarrow> 'k kernel \<Rightarrow> kind_of_fd_job \<Rightarrow> 'k world \<Rightarrow> (kind_of_fd_job \<times> 'k world) option" where
  "kind_of_fd_job_worker pf K j w =
     (let (r, w) = kind_of_fd pf K (kf_fd j) w;
          j = j\<lparr>ret := r\<rparr>
      in Some (if ret j < 0 then j\<lparr>err := errno w\<rparr> else j, w))"

definition make_kind_of_fd_job :: "int \<Rightarrow> kind_of_fd_job" where
  "make_kind_of_fd_job fd = \<lparr>ret = 0, err = 0, kf_fd = fd\<rparr>"

section \<open>Kind of a path\<close>

definition AT_FDCWD :: "platform \<Rightarrow> int" where
  "AT_FDCWD pf = (if pf = MacOS then -2 else -100)"
definition AT_SYMLINK_NOFOLLOW :: "platform \<Rightarrow> int" where
  "AT_SYMLINK_NOFOLLOW pf = (if pf = Linux then 0x100 else if pf = MacOS then 0x20 else 0x200)"
definition FILE_READ_ATTRIBUTES :: "32 word" where "FILE_READ_ATTRIBUTES = 0x80"

definition path_flags_win :: "bool \<Rightarrow> 32 word" where
  "path_flags_win follow_symlink =
     (let flags = FILE_ATTRIBUTE_NORMAL OR FILE_FLAG_BACKUP_SEMANTICS
      in if \<not> follow_symlink then flags OR FILE_FLAG_OPEN_REPARSE_POINT else flags)"

record file_kind_by_path_job = job +
  fk_parent :: int
  fk_path :: ptr
  fk_follow :: bool

definition free_file_kind_by_path_job ::
  "'k kernel \<Rightarrow> file_kind_by_path_job \<Rightarrow> 'k world \<Rightarrow> 'k world" where
  "free_file_kind_by_path_job K j w = sys_do K (Rt (Decref (fk_path j))) w"

definition file_kind_by_path_job_win ::
  "'k kernel \<Rightarrow> file_kind_by_path_job \<Rightarrow> 'k world \<Rightarrow> file_kind_by_path_job \<times> 'k world" where
  "file_kind_by_path_job_win K j w =
     (let (a, w) = sys K (WFile (W_CreateFileW (fk_path j) FILE_READ_ATTRIBUTES FILE_SHARE_ALL
                     OPEN_EXISTING (path_flags_win (fk_follow j)))) w;
          handle = a_ret a
      in if handle = INVALID_HANDLE_VALUE then (j\<lparr>err := errno w\<rparr>, w)
         else let (r, w) = kind_of_fd Windows K handle w;
                  j = j\<lparr>ret := r\<rparr>;
                  j = (if ret j < 0 then j\<lparr>err := errno w\<rparr> else j)
              in (j, sys_do K (WFile (W_CloseHandle handle)) w))"

definition file_kind_by_path_job_unix ::
  "platform \<Rightarrow> 'k kernel \<Rightarrow> file_kind_by_path_job \<Rightarrow> 'k world \<Rightarrow> file_kind_by_path_job \<times> 'k world" where
  "file_kind_by_path_job_unix pf K j w =
     (let (a, w) = sys K (File (Fstatat (if fk_parent j < 0 then AT_FDCWD pf else fk_parent j)
                     (fk_path j) (if fk_follow j then 0 else AT_SYMLINK_NOFOLLOW pf))) w
      in if a_ret a < 0 then (j\<lparr>err := errno w\<rparr>, w)
         else (j\<lparr>ret := file_kind_code (file_kind_from_stat (st_mode (a_stat a)))\<rparr>, w))"

definition file_kind_by_path_job_worker ::
  "platform \<Rightarrow> 'k kernel \<Rightarrow> file_kind_by_path_job \<Rightarrow> 'k world \<Rightarrow> (file_kind_by_path_job \<times> 'k world) option" where
  "file_kind_by_path_job_worker pf K j w =
     Some (if pf = Windows then file_kind_by_path_job_win K j w
           else file_kind_by_path_job_unix pf K j w)"

definition make_file_kind_by_path_job :: "int \<Rightarrow> ptr \<Rightarrow> bool \<Rightarrow> file_kind_by_path_job" where
  "make_file_kind_by_path_job parent path follow =
     \<lparr>ret = 0, err = 0, fk_parent = parent, fk_path = path, fk_follow = follow\<rparr>"

section \<open>Size and times\<close>

record file_size_job = job +
  fz_fd :: int
  fz_result :: "int option"

definition free_file_size_job :: "'k kernel \<Rightarrow> file_size_job \<Rightarrow> 'k world \<Rightarrow> 'k world" where
  "free_file_size_job K j w = w"

definition file_size_job_worker ::
  "platform \<Rightarrow> 'k kernel \<Rightarrow> file_size_job \<Rightarrow> 'k world \<Rightarrow> (file_size_job \<times> 'k world) option" where
  "file_size_job_worker pf K j w =
     Some (if pf = Windows
       then let (a, w) = sys K (WFile (W_GetFileSizeEx (fz_fd j))) w
            in if a_ret a = 0 then (j\<lparr>err := errno w\<rparr>, w)
               else (j\<lparr>fz_result := Some (a_num a)\<rparr>, w)
       else let (a, w) = sys K (File (Fstat (fz_fd j))) w;
                j = j\<lparr>ret := i32 (a_ret a)\<rparr>
            in if ret j < 0 then (j\<lparr>err := errno w\<rparr>, w)
               else (j\<lparr>fz_result := Some (st_size (a_stat a))\<rparr>, w))"

definition make_file_size_job :: "int \<Rightarrow> file_size_job" where
  "make_file_size_job fd = \<lparr>ret = 0, err = 0, fz_fd = fd, fz_result = None\<rparr>"

definition get_file_size_result :: "file_size_job \<Rightarrow> int option" where
  "get_file_size_result j = fz_result j"

record file_time_job = job +
  ft_fd :: int
  ft_out :: ptr

definition free_file_time_job :: "'k kernel \<Rightarrow> file_time_job \<Rightarrow> 'k world \<Rightarrow> 'k world" where
  "free_file_time_job K j w = sys_do K (Rt (Decref (ft_out j))) w"

definition file_time_job_worker ::
  "platform \<Rightarrow> 'k kernel \<Rightarrow> file_time_job \<Rightarrow> 'k world \<Rightarrow> (file_time_job \<times> 'k world) option" where
  "file_time_job_worker pf K j w =
     Some (if pf = Windows
       then err_unless K (WFile (W_GetFileInformationByHandleEx (ft_fd j) FileBasicInfo (ft_out j)
              sizeof_FILE_BASIC_INFO)) j w
       else ret_or_errno K (File (Fstat_to (ft_fd j) (ft_out j))) j w)"

definition make_file_time_job :: "int \<Rightarrow> ptr \<Rightarrow> file_time_job" where
  "make_file_time_job fd out = \<lparr>ret = 0, err = 0, ft_fd = fd, ft_out = out\<rparr>"

record file_time_by_path_job = job +
  ftp_path :: ptr
  ftp_out :: ptr
  ftp_follow :: bool

definition free_file_time_by_path_job ::
  "'k kernel \<Rightarrow> file_time_by_path_job \<Rightarrow> 'k world \<Rightarrow> 'k world" where
  "free_file_time_by_path_job K j w =
     sys_do K (Rt (Decref (ftp_out j))) (sys_do K (Rt (Decref (ftp_path j))) w)"

definition file_time_by_path_job_win ::
  "'k kernel \<Rightarrow> file_time_by_path_job \<Rightarrow> 'k world \<Rightarrow> file_time_by_path_job \<times> 'k world" where
  "file_time_by_path_job_win K j w =
     (let (a, w) = sys K (WFile (W_CreateFileW (ftp_path j) FILE_READ_ATTRIBUTES FILE_SHARE_ALL
                     OPEN_EXISTING (path_flags_win (ftp_follow j)))) w;
          handle = a_ret a
      in if handle = INVALID_HANDLE_VALUE then (j\<lparr>err := errno w\<rparr>, w)
         else let (j, w) = err_unless K (WFile (W_GetFileInformationByHandleEx handle FileBasicInfo
                             (ftp_out j) sizeof_FILE_BASIC_INFO)) j w
              in (j, sys_do K (WFile (W_CloseHandle handle)) w))"

definition file_time_by_path_job_worker ::
  "platform \<Rightarrow> 'k kernel \<Rightarrow> file_time_by_path_job \<Rightarrow> 'k world \<Rightarrow> (file_time_by_path_job \<times> 'k world) option" where
  "file_time_by_path_job_worker pf K j w =
     Some (if pf = Windows then file_time_by_path_job_win K j w
           else ret_or_errno K (File (if ftp_follow j then Stat (ftp_path j) (ftp_out j)
                                      else Lstat (ftp_path j) (ftp_out j))) j w)"

definition make_file_time_by_path_job :: "ptr \<Rightarrow> ptr \<Rightarrow> bool \<Rightarrow> file_time_by_path_job" where
  "make_file_time_by_path_job path out follow =
     \<lparr>ret = 0, err = 0, ftp_path = path, ftp_out = out, ftp_follow = follow\<rparr>"

section \<open>chmod, fsync, flock\<close>

record chmod_job = job +
  cm_path :: ptr
  cm_mode :: int

definition free_chmod_job :: "'k kernel \<Rightarrow> chmod_job \<Rightarrow> 'k world \<Rightarrow> 'k world" where
  "free_chmod_job K j w = sys_do K (Rt (Decref (cm_path j))) w"

definition chmod_job_worker ::
  "platform \<Rightarrow> 'k kernel \<Rightarrow> chmod_job \<Rightarrow> 'k world \<Rightarrow> (chmod_job \<times> 'k world) option" where
  "chmod_job_worker pf K j w =
     Some (if pf = Windows then (j\<lparr>err := ERROR_NOT_SUPPORTED\<rparr>, w)
           else ret_or_errno K (File (Chmod (cm_path j) (cm_mode j))) j w)"

definition make_chmod_job :: "ptr \<Rightarrow> int \<Rightarrow> chmod_job" where
  "make_chmod_job path mode = \<lparr>ret = 0, err = 0, cm_path = path, cm_mode = mode\<rparr>"

record fsync_job = job +
  fs_fd :: int
  fs_only_data :: bool

definition free_fsync_job :: "'k kernel \<Rightarrow> fsync_job \<Rightarrow> 'k world \<Rightarrow> 'k world" where
  "free_fsync_job K j w = w"

definition fsync_job_worker ::
  "platform \<Rightarrow> 'k kernel \<Rightarrow> fsync_job \<Rightarrow> 'k world \<Rightarrow> (fsync_job \<times> 'k world) option" where
  "fsync_job_worker pf K j w =
     (let (j, w) =
        (if pf = Windows then err_unless K (WFile (W_FlushFileBuffers (fs_fd j))) j w
         else if pf = MacOS then
           let (a, w) = sys K (File (Fsync (fs_fd j))) w in (j\<lparr>ret := i32 (a_ret a)\<rparr>, w)
         else if fs_only_data j then
           let (a, w) = sys K (File (Fdatasync (fs_fd j))) w in (j\<lparr>ret := i32 (a_ret a)\<rparr>, w)
         else
           let (a, w) = sys K (File (Fsync (fs_fd j))) w in (j\<lparr>ret := i32 (a_ret a)\<rparr>, w))
      in Some (if ret j < 0 then j\<lparr>err := errno w\<rparr> else j, w))"

definition make_fsync_job :: "int \<Rightarrow> bool \<Rightarrow> fsync_job" where
  "make_fsync_job fd only_data = \<lparr>ret = 0, err = 0, fs_fd = fd, fs_only_data = only_data\<rparr>"

record flock_job = job +
  fl_fd :: int
  fl_exclusive :: bool

definition free_flock_job :: "'k kernel \<Rightarrow> flock_job \<Rightarrow> 'k world \<Rightarrow> 'k world" where
  "free_flock_job K j w = w"

definition LOCKFILE_EXCLUSIVE_LOCK :: "32 word" where "LOCKFILE_EXCLUSIVE_LOCK = 2"
definition LOCK_SH :: int where "LOCK_SH = 1"
definition LOCK_EX :: int where "LOCK_EX = 2"

text \<open>Windows locks the last byte but one of the address space, which plain I/O never touches.\<close>

definition flock_job_worker ::
  "platform \<Rightarrow> 'k kernel \<Rightarrow> flock_job \<Rightarrow> 'k world \<Rightarrow> (flock_job \<times> 'k world) option" where
  "flock_job_worker pf K j w =
     Some (if pf = Windows
       then err_unless K (WFile (W_LockFileEx (fl_fd j)
              (if fl_exclusive j then LOCKFILE_EXCLUSIVE_LOCK else 0) 0xfffffffe 0xffffffff)) j w
       else let (a, w) = sys K (File (Flock (fl_fd j) (if fl_exclusive j then LOCK_EX else LOCK_SH))) w
            in (if a_ret a < 0 then j\<lparr>err := errno w\<rparr> else j, w))"

definition make_flock_job :: "int \<Rightarrow> bool \<Rightarrow> flock_job" where
  "make_flock_job fd exclusive = \<lparr>ret = 0, err = 0, fl_fd = fd, fl_exclusive = exclusive\<rparr>"

section \<open>remove and access\<close>

record remove_job = job +
  rm_path :: ptr

definition free_remove_job :: "'k kernel \<Rightarrow> remove_job \<Rightarrow> 'k world \<Rightarrow> 'k world" where
  "free_remove_job K j w = sys_do K (Rt (Decref (rm_path j))) w"

definition remove_job_win :: "'k kernel \<Rightarrow> remove_job \<Rightarrow> 'k world \<Rightarrow> remove_job \<times> 'k world" where
  "remove_job_win K j w =
     (let (a, w) = sys K (WFile (W_GetFileAttributesW (rm_path j))) w
      in if a_ret a = INVALID_FILE_ATTRIBUTES then (j\<lparr>err := errno w\<rparr>, w)
         else let attrs = word_of_int (a_ret a)
              in if attrs AND FILE_ATTRIBUTE_DIRECTORY \<noteq> 0 \<and> attrs AND FILE_ATTRIBUTE_REPARSE_POINT \<noteq> 0
                 then err_unless K (WFile (W_RemoveDirectoryW (rm_path j))) j w
                 else err_unless K (WFile (W_DeleteFileW (rm_path j))) j w)"

definition remove_job_worker ::
  "platform \<Rightarrow> 'k kernel \<Rightarrow> remove_job \<Rightarrow> 'k world \<Rightarrow> (remove_job \<times> 'k world) option" where
  "remove_job_worker pf K j w =
     Some (if pf = Windows then remove_job_win K j w
           else ret_or_errno K (File (Remove (rm_path j))) j w)"

definition make_remove_job :: "ptr \<Rightarrow> remove_job" where
  "make_remove_job path = \<lparr>ret = 0, err = 0, rm_path = path\<rparr>"

record access_job = job +
  ac_path :: ptr
  ac_amode :: int

definition free_access_job :: "'k kernel \<Rightarrow> access_job \<Rightarrow> 'k world \<Rightarrow> 'k world" where
  "free_access_job K j w = sys_do K (Rt (Decref (ac_path j))) w"

definition FILE_EXECUTE :: "32 word" where "FILE_EXECUTE = 0x20"

definition access_modes_win :: "32 word list" where
  "access_modes_win = [0, GENERIC_READ, GENERIC_WRITE, FILE_EXECUTE]"

text \<open>\<open>F_OK, R_OK, W_OK, X_OK\<close>\<close>

definition access_modes :: "int list" where "access_modes = [0, 4, 2, 1]"

definition access_job_worker ::
  "platform \<Rightarrow> 'k kernel \<Rightarrow> access_job \<Rightarrow> 'k world \<Rightarrow> (access_job \<times> 'k world) option" where
  "access_job_worker pf K j w =
     (if pf = Windows then
        (case tbl access_modes_win (ac_amode j) of
           None \<Rightarrow> None
         | Some acc \<Rightarrow>
             let (a, w) = sys K (WFile (W_CreateFileW (ac_path j) acc FILE_SHARE_ALL OPEN_EXISTING
                            (FILE_ATTRIBUTE_NORMAL OR FILE_FLAG_BACKUP_SEMANTICS))) w
             in Some (if a_ret a = INVALID_HANDLE_VALUE then (j\<lparr>err := errno w\<rparr>, w)
                      else (j, sys_do K (WFile (W_CloseHandle (a_ret a))) w)))
      else
        (case tbl access_modes (ac_amode j) of
           None \<Rightarrow> None
         | Some m \<Rightarrow> Some (ret_or_errno K (File (Access (ac_path j) m)) j w)))"

definition make_access_job :: "ptr \<Rightarrow> int \<Rightarrow> access_job" where
  "make_access_job path amode = \<lparr>ret = 0, err = 0, ac_path = path, ac_amode = amode\<rparr>"

section \<open>mkdir and rmdir\<close>

record mkdir_job = job +
  mk_path :: ptr
  mk_mode :: int

definition free_mkdir_job :: "'k kernel \<Rightarrow> mkdir_job \<Rightarrow> 'k world \<Rightarrow> 'k world" where
  "free_mkdir_job K j w = sys_do K (Rt (Decref (mk_path j))) w"

definition mkdir_job_worker ::
  "platform \<Rightarrow> 'k kernel \<Rightarrow> mkdir_job \<Rightarrow> 'k world \<Rightarrow> (mkdir_job \<times> 'k world) option" where
  "mkdir_job_worker pf K j w =
     Some (if pf = Windows then err_unless K (WFile (W_CreateDirectoryW (mk_path j))) j w
           else ret_or_errno K (File (Mkdir (mk_path j) (mk_mode j))) j w)"

definition make_mkdir_job :: "ptr \<Rightarrow> int \<Rightarrow> mkdir_job" where
  "make_mkdir_job path mode = \<lparr>ret = 0, err = 0, mk_path = path, mk_mode = mode\<rparr>"

record rmdir_job = job +
  rd_path :: ptr

definition free_rmdir_job :: "'k kernel \<Rightarrow> rmdir_job \<Rightarrow> 'k world \<Rightarrow> 'k world" where
  "free_rmdir_job K j w = sys_do K (Rt (Decref (rd_path j))) w"

definition rmdir_job_worker ::
  "platform \<Rightarrow> 'k kernel \<Rightarrow> rmdir_job \<Rightarrow> 'k world \<Rightarrow> (rmdir_job \<times> 'k world) option" where
  "rmdir_job_worker pf K j w =
     Some (if pf = Windows then err_unless K (WFile (W_RemoveDirectoryW (rd_path j))) j w
           else ret_or_errno K (File (Rmdir (rd_path j))) j w)"

definition make_rmdir_job :: "ptr \<Rightarrow> rmdir_job" where
  "make_rmdir_job path = \<lparr>ret = 0, err = 0, rd_path = path\<rparr>"

section \<open>Readdir\<close>

record readdir_job = job +
  dr_dir :: int
  dr_out :: ptr
  dr_len :: int
  dr_restart :: bool

definition free_readdir_job :: "'k kernel \<Rightarrow> readdir_job \<Rightarrow> 'k world \<Rightarrow> 'k world" where
  "free_readdir_job K j w = w"

definition FileIdBothDirectoryInfo :: int where "FileIdBothDirectoryInfo = 10"
definition FileIdBothDirectoryRestartInfo :: int where "FileIdBothDirectoryRestartInfo = 11"

text \<open>A directory read returns the bytes it filled; Windows does not know them and returns the
  size of the buffer. On the other systems only \<open>errno\<close> is set, and the job reports success.\<close>

definition readdir_job_win :: "'k kernel \<Rightarrow> readdir_job \<Rightarrow> 'k world \<Rightarrow> readdir_job \<times> 'k world" where
  "readdir_job_win K j w =
     (let (a, w) = sys K (WFile (W_GetFileInformationByHandleEx (dr_dir j)
                     (if dr_restart j then FileIdBothDirectoryRestartInfo else FileIdBothDirectoryInfo)
                     (dr_out j) (dr_len j))) w
      in if a_ret a = 0
         then (if errno w = ERROR_NO_MORE_FILES then (j\<lparr>ret := 0\<rparr>, w) else (j\<lparr>err := errno w\<rparr>, w))
         else (j\<lparr>ret := dr_len j\<rparr>, w))"

definition readdir_from_start ::
  "'k kernel \<Rightarrow> readdir_job \<Rightarrow> file_call \<Rightarrow> 'k world \<Rightarrow> readdir_job \<times> 'k world" where
  "readdir_from_start K j c w =
     (if dr_restart j
      then let (a, w) = sys K (File (Lseek_start (dr_dir j))) w
           in if a_ret a < 0 then (j\<lparr>err := errno w\<rparr>, w) else ret_or_errno K (File c) j w
      else ret_or_errno K (File c) j w)"

definition readdir_job_worker ::
  "platform \<Rightarrow> 'k kernel \<Rightarrow> readdir_job \<Rightarrow> 'k world \<Rightarrow> (readdir_job \<times> 'k world) option" where
  "readdir_job_worker pf K j w =
     Some (if pf = Windows then readdir_job_win K j w
           else if pf = Linux then readdir_from_start K j (Getdents64 (dr_dir j) (dr_out j) (dr_len j)) w
           else if pf = MacOS
           then readdir_from_start K j (Getattrlistbulk (dr_dir j) (dr_out j) (dr_len j)) w
           else (j, set_errno (ENOSYS pf) w))"

definition make_readdir_job :: "int \<Rightarrow> ptr \<Rightarrow> int \<Rightarrow> bool \<Rightarrow> readdir_job" where
  "make_readdir_job dir out len restart =
     \<lparr>ret = 0, err = 0, dr_dir = dir, dr_out = out, dr_len = len, dr_restart = restart\<rparr>"

section \<open>Inotify watches\<close>

record inotify_add_watch_job = job +
  iw_inotify :: int
  iw_path :: ptr
  iw_is_dir :: bool

definition free_inotify_add_watch_job ::
  "'k kernel \<Rightarrow> inotify_add_watch_job \<Rightarrow> 'k world \<Rightarrow> 'k world" where
  "free_inotify_add_watch_job K j w = sys_do K (Rt (Decref (iw_path j))) w"


definition inotify_add_watch_job_worker ::
  "platform \<Rightarrow> 'k kernel \<Rightarrow> inotify_add_watch_job \<Rightarrow> 'k world \<Rightarrow>
     (inotify_add_watch_job \<times> 'k world) option" where
  "inotify_add_watch_job_worker pf K j w =
     Some (if pf = Linux
       then let flags = (if iw_is_dir j
              then IN_CREATE OR IN_MOVED_FROM OR IN_MOVED_TO OR IN_DELETE else IN_MODIFY)
            in ret_or_errno K (File (Inotify_add_watch (iw_inotify j) (iw_path j) flags)) j w
       else (j\<lparr>err := ENOSYS pf\<rparr>, w))"

definition make_inotify_add_watch_job :: "int \<Rightarrow> ptr \<Rightarrow> bool \<Rightarrow> inotify_add_watch_job" where
  "make_inotify_add_watch_job inotify path is_dir =
     \<lparr>ret = 0, err = 0, iw_inotify = inotify, iw_path = path, iw_is_dir = is_dir\<rparr>"

section \<open>The contract of the file workers\<close>

lemmas report_simps = well_reported_iff reset_header_def ret_or_errno_def err_unless_def
  split_beta Let_def set_errno_simps

interpretation file_size_worker: worker_contract file_size_job_worker "\<lambda>_ _. True"
  by unfold_locales
    (auto simp: file_size_job_worker_def report_simps law_simps split: if_splits)

interpretation file_time_worker: worker_contract file_time_job_worker "\<lambda>_ _. True"
  by unfold_locales
    (auto simp: file_time_job_worker_def report_simps law_simps split: if_splits)

interpretation file_time_by_path_worker: worker_contract file_time_by_path_job_worker "\<lambda>_ _. True"
  by unfold_locales
    (auto simp: file_time_by_path_job_worker_def file_time_by_path_job_win_def report_simps law_simps
      split: if_splits)

interpretation chmod_worker: worker_contract chmod_job_worker "\<lambda>_ _. True"
  by unfold_locales
    (auto simp: chmod_job_worker_def report_simps law_simps win_errnos split: if_splits)

interpretation fsync_worker: worker_contract fsync_job_worker "\<lambda>_ _. True"
  by unfold_locales
    (auto simp: fsync_job_worker_def report_simps law_simps split: if_splits)

interpretation flock_worker: worker_contract flock_job_worker "\<lambda>_ _. True"
  by unfold_locales
    (auto simp: flock_job_worker_def report_simps law_simps split: if_splits)

interpretation remove_worker: worker_contract remove_job_worker "\<lambda>_ _. True"
  by unfold_locales
    (auto simp: remove_job_worker_def remove_job_win_def report_simps law_simps split: if_splits)

interpretation access_worker: worker_contract access_job_worker "\<lambda>_ _. True"
  by unfold_locales
    (auto simp: access_job_worker_def report_simps law_simps split: if_splits option.splits)

interpretation mkdir_worker: worker_contract mkdir_job_worker "\<lambda>_ _. True"
  by unfold_locales
    (auto simp: mkdir_job_worker_def report_simps law_simps split: if_splits)

interpretation rmdir_worker: worker_contract rmdir_job_worker "\<lambda>_ _. True"
  by unfold_locales
    (auto simp: rmdir_job_worker_def report_simps law_simps split: if_splits)

interpretation inotify_worker: worker_contract inotify_add_watch_job_worker "\<lambda>_ _. True"
  by unfold_locales
    (auto simp: inotify_add_watch_job_worker_def report_simps law_simps ENOSYS_def split: if_splits)

interpretation readdir_worker: worker_contract readdir_job_worker "\<lambda>_ j. 0 \<le> dr_len j"
  by unfold_locales
    (auto simp: readdir_job_worker_def readdir_job_win_def readdir_from_start_def report_simps
      law_simps split: if_splits)

lemma kind_of_fd_reports:
  assumes "os_law K"
  shows "(0 \<le> fst (kind_of_fd pf K fd w)) \<or> (0 < errno (snd (kind_of_fd pf K fd w)))"
proof -
  have nn: "0 < errno (snd (sys K c (set_errno 0 w)))"
    if "errno (snd (sys K c (set_errno 0 w))) \<noteq> 0" for c
    using os_law_errno_nonneg [OF assms, of "set_errno 0 w" c] that by simp
  show ?thesis
    using assms nn [of "WFile (W_GetFileType fd)"]
    by (auto simp: kind_of_fd_def kind_of_fd_win_def kind_of_fd_unix_def handle_is_socket_def
        split_beta Let_def law_simps)
qed

interpretation kind_of_fd_worker: worker_contract kind_of_fd_job_worker "\<lambda>_ _. True"
proof unfold_locales
  fix K :: "'a kernel" and pf j w j' w'
  assume "os_law K" "kind_of_fd_job_worker pf K (reset_header j) w = Some (j', w')"
  then show "well_reported j'"
    using kind_of_fd_reports [of K pf "kf_fd j" w]
    by (auto simp: kind_of_fd_job_worker_def report_simps split: if_splits)
qed

interpretation file_kind_worker: worker_contract file_kind_by_path_job_worker "\<lambda>_ _. True"
proof unfold_locales
  fix K :: "'a kernel" and pf j w j' w'
  assume "os_law K" "file_kind_by_path_job_worker pf K (reset_header j) w = Some (j', w')"
  then show "well_reported j'"
    using kind_of_fd_reports [of K Windows]
    by (force simp: file_kind_by_path_job_worker_def file_kind_by_path_job_win_def
        file_kind_by_path_job_unix_def report_simps law_simps split: if_splits)
qed

end
