(* ===== verification/Jobs_Path.thy ===== *)
theory Jobs_Path
  imports Jobs_File "HOL-Library.Monad_Syntax"
begin

text \<open>
  The jobs of \<open>thread_pool.c\<close> that build or read path structures: rename, symlink (with the
  NTFS junction buffer of the Windows branch) and realpath. A Windows structure is the list
  of its 16-bit words, as the code addresses it; a fresh heap block has arbitrary contents.
\<close>

section \<open>Wide strings and heap blocks\<close>

type_synonym wchar = "16 word"

definition hd0 :: "wchar list \<Rightarrow> wchar" where
  "hd0 s = (case s of [] \<Rightarrow> 0 | c # _ \<Rightarrow> c)"

text \<open>\<open>wcsncmp(a, b, n) == 0\<close>; a string ends at its terminator, which the list leaves out.\<close>

fun wcsncmp_eq :: "wchar list \<Rightarrow> wchar list \<Rightarrow> nat \<Rightarrow> bool" where
  "wcsncmp_eq a b 0 = True"
| "wcsncmp_eq a b (Suc n) = (hd0 a = hd0 b \<and> (hd0 a = 0 \<or> wcsncmp_eq (tl a) (tl b) n))"

lemma hd0_simps [simp]: "hd0 [] = 0" "hd0 (c # s) = c"
  by (simp_all add: hd0_def)

lemma wcsncmp_numeral [simp]:
  "wcsncmp_eq a b (numeral v) =
    (hd0 a = hd0 b \<and> (hd0 a = 0 \<or> wcsncmp_eq (tl a) (tl b) (pred_numeral v)))"
  by (simp add: numeral_eq_Suc)

definition dword :: "nat \<Rightarrow> wchar list" where
  "dword v = [word_of_nat v, word_of_nat (v div 65536)]"

text \<open>The \<open>n\<close> words of a block that \<open>malloc\<close> has just answered.\<close>

definition fresh :: "nat \<Rightarrow> answer \<Rightarrow> wchar list" where
  "fresh n a = map word_of_int (take n (a_nums a @ replicate n 0))"

lemma length_fresh [simp]: "length (fresh n a) = n"
  by (simp add: fresh_def)

definition block :: "answer \<Rightarrow> ptr" where
  "block a = nat (a_ret a)"

section \<open>Rename\<close>

record rename_job = job +
  rn_old :: ptr
  rn_new :: ptr
  rn_new_chars :: "wchar list"
  rn_replace :: bool

definition free_rename_job :: "'k kernel \<Rightarrow> rename_job \<Rightarrow> 'k world \<Rightarrow> 'k world" where
  "free_rename_job K j w = sys_do K (Rt (Decref (rn_new j))) (sys_do K (Rt (Decref (rn_old j))) w)"

text \<open>
  \<open>FILE_RENAME_INFO\<close>: the flags at byte 0, \<open>RootDirectory\<close> at 8, \<open>FileNameLength\<close> at 16,
  \<open>FileName\<close> at 20; the structure has 24 bytes, the block 24 + 2n + 2.
\<close>

definition rename_info :: "wchar list \<Rightarrow> wchar list \<Rightarrow> bool \<Rightarrow> wchar list option" where
  "rename_info g path replace = do {
     b \<leftarrow> poke g 0 (dword (if replace then 3 else 0));
     b \<leftarrow> poke b 4 (replicate 4 0);
     b \<leftarrow> poke b 8 (dword (2 * length path));
     b \<leftarrow> poke b 10 path;
     poke b (10 + length path) [0]
   }"

definition FILE_DELETE_ACCESS :: "32 word" where "FILE_DELETE_ACCESS = 0x10000"
definition FileRenameInfoEx :: int where "FileRenameInfoEx = 22"
definition RENAME_EXCL :: int where "RENAME_EXCL = 4"
definition RENAME_NOREPLACE :: int where "RENAME_NOREPLACE = 1"

definition rename_job_win :: "'k kernel \<Rightarrow> rename_job \<Rightarrow> 'k world \<Rightarrow> (rename_job \<times> 'k world) option" where
  "rename_job_win K j w =
     (let (a, w) = sys K (WFile (W_CreateFileW (rn_old j) FILE_DELETE_ACCESS FILE_SHARE_ALL
                     OPEN_EXISTING (FILE_ATTRIBUTE_NORMAL OR FILE_FLAG_BACKUP_SEMANTICS))) w;
          handle = a_ret a
      in if handle = INVALID_HANDLE_VALUE then Some (j\<lparr>err := errno w\<rparr>, w)
         else let new_path_len = length (rn_new_chars j);
                  buffer_size = 24 + 2 * new_path_len + 2;
                  (m, w) = sys K (Rt (Malloc (int buffer_size))) w
              in (case rename_info (fresh (buffer_size div 2) m) (rn_new_chars j) (rn_replace j) of
                    None \<Rightarrow> None
                  | Some info \<Rightarrow>
                      let (r, w) = sys K (WFile (W_SetFileInformationByHandle handle
                                     FileRenameInfoEx info)) w;
                          w = sys_do K (WFile (W_CloseHandle handle)) w;
                          w = sys_do K (Rt (Free (block m))) w
                      in if a_ret r \<noteq> 0 then Some (j, w)
                         else if errno w \<noteq> ERROR_INVALID_PARAMETER
                         then Some (j\<lparr>err := errno w\<rparr>, w)
                         else Some (err_unless K (WFile (W_MoveFileExW (rn_old j) (rn_new j)
                                (if rn_replace j then 3 else 2))) j w)))"

definition rename_job_worker ::
  "platform \<Rightarrow> 'k kernel \<Rightarrow> rename_job \<Rightarrow> 'k world \<Rightarrow> (rename_job \<times> 'k world) option" where
  "rename_job_worker pf K j w =
     (if pf = Windows then rename_job_win K j w
      else if pf = MacOS
      then Some (ret_or_errno K (File (Renameatx (rn_old j) (rn_new j)
             (if rn_replace j then 0 else RENAME_EXCL))) j w)
      else if pf = Linux
      then Some (ret_or_errno K (File (Renameat2 (rn_old j) (rn_new j)
             (if rn_replace j then 0 else RENAME_NOREPLACE))) j w)
      else Some (j\<lparr>err := ENOSYS pf\<rparr>, w))"

definition make_rename_job :: "ptr \<Rightarrow> ptr \<Rightarrow> wchar list \<Rightarrow> bool \<Rightarrow> rename_job" where
  "make_rename_job old_path new_path chars replace =
     \<lparr>ret = 0, err = 0, rn_old = old_path, rn_new = new_path, rn_new_chars = chars,
      rn_replace = replace\<rparr>"

section \<open>Symlink\<close>

record symlink_job = job +
  sy_target :: ptr
  sy_target_chars :: "wchar list"
  sy_path :: ptr
  sy_force :: bool

definition free_symlink_job :: "'k kernel \<Rightarrow> symlink_job \<Rightarrow> 'k world \<Rightarrow> 'k world" where
  "free_symlink_job K j w = sys_do K (Rt (Decref (sy_path j))) (sys_do K (Rt (Decref (sy_target j))) w)"

text \<open>The prefixes \<open>\??\\<close> and \<open>\\?\\<close>, the colon, slash and backslash.\<close>

definition NT_PREFIX :: "wchar list" where "NT_PREFIX = [92, 63, 63, 92]"
definition VERBATIM_PREFIX :: "wchar list" where "VERBATIM_PREFIX = [92, 92, 63, 92]"

definition junction_target :: "wchar list \<Rightarrow> wchar list" where
  "junction_target t =
     (if wcsncmp_eq t NT_PREFIX 4 \<or> wcsncmp_eq t VERBATIM_PREFIX 4 then drop 4 t else t)"

definition is_letter :: "wchar \<Rightarrow> bool" where
  "is_letter c \<longleftrightarrow> (97 \<le> c \<and> c \<le> 122) \<or> (65 \<le> c \<and> c \<le> 90)"

definition is_drive_path :: "wchar list \<Rightarrow> bool" where
  "is_drive_path t \<longleftrightarrow>
     3 \<le> length t \<and> is_letter (t ! 0) \<and> t ! 1 = 58 \<and> (t ! 2 = 92 \<or> t ! 2 = 47)"

text \<open>The loop that turns slashes into backslashes, up to the terminator.\<close>

fun fix_slashes :: "wchar list \<Rightarrow> wchar list option" where
  "fix_slashes [] = None"
| "fix_slashes (c # cs) =
     (if c = 0 then Some (c # cs)
      else map_option (\<lambda>r. (if c = 47 then 92 else c) # r) (fix_slashes cs))"

definition fix_slash :: "wchar \<Rightarrow> wchar" where
  "fix_slash c = (if c = 47 then 92 else c)"

definition IO_REPARSE_TAG_MOUNT_POINT :: nat where "IO_REPARSE_TAG_MOUNT_POINT = 0xA0000003"

text \<open>
  \<open>REPARSE_DATA_BUFFER\<close>: tag (words 0 and 1), \<open>ReparseDataLength\<close> (2), \<open>Reserved\<close> (3),
  the offset and length of the substitute name (4, 5) and of the print name (6, 7), in
  bytes from the start of \<open>PathBuffer\<close>, which is at word 8.
\<close>

definition junction_buffer :: "wchar list \<Rightarrow> wchar list \<Rightarrow> wchar list option" where
  "junction_buffer g target =
     (let n = length target;
          substitute_name_len = 2 * n + 8;
          print_name_len = 2 * n;
          path_buffer_length = substitute_name_len + print_name_len + 4;
          reparse_buffer_length = 8 + path_buffer_length
      in do {
        b \<leftarrow> poke g 0 (dword IO_REPARSE_TAG_MOUNT_POINT);
        b \<leftarrow> poke b 2 [word_of_nat reparse_buffer_length];
        b \<leftarrow> poke b 3 [0];
        b \<leftarrow> poke b 4 [0];
        b \<leftarrow> poke b 5 [word_of_nat substitute_name_len];
        b \<leftarrow> poke b 8 NT_PREFIX;
        b \<leftarrow> poke b (8 + 4) (target @ [0]);
        s \<leftarrow> fix_slashes (drop (8 + 4) b);
        b \<leftarrow> poke b (8 + 4) s;
        b \<leftarrow> poke b 6 [word_of_nat (substitute_name_len + 2)];
        b \<leftarrow> poke b 7 [word_of_nat print_name_len];
        memcpy b (8 + 5 + n) b (8 + 4) (n + 1)
      })"

definition junction_buffer_size :: "wchar list \<Rightarrow> nat" where
  "junction_buffer_size target =
     (let substitute_name_len = 2 * length target + 8; print_name_len = 2 * length target
      in 8 + (8 + (substitute_name_len + print_name_len + 4)))"

definition symlink_fallback ::
  "'k kernel \<Rightarrow> symlink_job \<Rightarrow> bool \<Rightarrow> 'k world \<Rightarrow> symlink_job \<times> 'k world" where
  "symlink_fallback K j is_dir w =
     err_unless K (WFile (W_CreateSymbolicLinkW (sy_path j) (sy_target j) (if is_dir then 1 else 0))) j w"

definition create_junction ::
  "'k kernel \<Rightarrow> symlink_job \<Rightarrow> wchar list \<Rightarrow> 'k world \<Rightarrow> (symlink_job \<times> 'k world) option" where
  "create_junction K j target w =
     (let (b, w) = sys K (WFile (W_CreateDirectoryW (sy_path j))) w
      in if a_ret b = 0 then Some (j\<lparr>err := errno w\<rparr>, w)
         else let (c, w) = sys K (WFile (W_CreateFileW (sy_path j) GENERIC_WRITE 0 OPEN_EXISTING
                             (FILE_FLAG_OPEN_REPARSE_POINT OR FILE_FLAG_BACKUP_SEMANTICS))) w;
                  link = a_ret c
              in if link = INVALID_HANDLE_VALUE
                 then let j = j\<lparr>err := errno w\<rparr>
                      in Some (j, sys_do K (WFile (W_RemoveDirectoryW (sy_path j))) w)
                 else let buffer_size = junction_buffer_size target;
                          (m, w) = sys K (Rt (Malloc (int buffer_size))) w
                      in (case junction_buffer (fresh (buffer_size div 2) m) target of
                            None \<Rightarrow> None
                          | Some buf \<Rightarrow>
                              let (ok, w) = sys K (WFile (W_DeviceIoControl link buf)) w;
                                  e = errno w;
                                  w = sys_do K (Rt (Free (block m))) w;
                                  w = sys_do K (WFile (W_CloseHandle link)) w
                              in if a_ret ok = 0
                                 then let w = sys_do K (WFile (W_RemoveDirectoryW (sy_path j))) w
                                      in if e = ERROR_INVALID_PARAMETER
                                         then Some (symlink_fallback K j True w)
                                         else Some (j\<lparr>err := e\<rparr>, w)
                                 else Some (j, w)))"

definition symlink_job_win ::
  "'k kernel \<Rightarrow> symlink_job \<Rightarrow> 'k world \<Rightarrow> (symlink_job \<times> 'k world) option" where
  "symlink_job_win K j w =
     (let (a, w) = sys K (WFile (W_GetFileAttributesW (sy_target j))) w;
          is_dir = (a_ret a \<noteq> INVALID_FILE_ATTRIBUTES \<and>
                    word_of_int (a_ret a) AND FILE_ATTRIBUTE_DIRECTORY \<noteq> 0);
          target = junction_target (sy_target_chars j)
      in if sy_force j then Some (symlink_fallback K j is_dir w)
         else if \<not> is_dir then Some (symlink_fallback K j is_dir w)
         else if is_drive_path target then create_junction K j target w
         else Some (symlink_fallback K j is_dir w))"

definition symlink_job_worker ::
  "platform \<Rightarrow> 'k kernel \<Rightarrow> symlink_job \<Rightarrow> 'k world \<Rightarrow> (symlink_job \<times> 'k world) option" where
  "symlink_job_worker pf K j w =
     (if pf = Windows then symlink_job_win K j w
      else Some (ret_or_errno K (File (Symlink (sy_target j) (sy_path j))) j w))"

definition make_symlink_job :: "ptr \<Rightarrow> wchar list \<Rightarrow> ptr \<Rightarrow> bool \<Rightarrow> symlink_job" where
  "make_symlink_job target chars path force =
     \<lparr>ret = 0, err = 0, sy_target = target, sy_target_chars = chars, sy_path = path,
      sy_force = force\<rparr>"

section \<open>Realpath\<close>

text \<open>Where \<open>result\<close> points: nowhere, into the job, to a heap block, to the C string of Unix.\<close>

datatype realpath_result =
    NoResult
  | InJob "wchar list"
  | OnHeap ptr "wchar list"
  | UnixPath ptr

record realpath_job = job +
  rp_path :: ptr
  rp_result :: realpath_result

definition REALPATH_JOB_BUFFER_LENGTH :: int where "REALPATH_JOB_BUFFER_LENGTH = 1024"

definition free_realpath_job :: "platform \<Rightarrow> 'k kernel \<Rightarrow> realpath_job \<Rightarrow> 'k world \<Rightarrow> 'k world" where
  "free_realpath_job pf K j w =
     (let w = sys_do K (Rt (Decref (rp_path j))) w
      in case rp_result j of
           NoResult \<Rightarrow> w
         | InJob _ \<Rightarrow> w
         | OnHeap p _ \<Rightarrow> sys_do K (Rt (Free p)) w
         | UnixPath p \<Rightarrow> if p = 0 then w else sys_do K (Rt (Free p)) w)"

definition path_chars :: "answer \<Rightarrow> wchar list" where
  "path_chars a = map word_of_int (a_nums a)"

definition realpath_job_win ::
  "'k kernel \<Rightarrow> realpath_job \<Rightarrow> 'k world \<Rightarrow> realpath_job \<times> 'k world" where
  "realpath_job_win K j w =
     (let (a, w) = sys K (WFile (W_CreateFileW (rp_path j) 0 FILE_SHARE_ALL OPEN_EXISTING
                     (FILE_ATTRIBUTE_NORMAL OR FILE_FLAG_BACKUP_SEMANTICS))) w;
          file = a_ret a
      in if file = INVALID_HANDLE_VALUE then (j\<lparr>err := errno w\<rparr>, w)
         else let (b, w) = sys K (WFile (W_GetFinalPathNameByHandleW file
                             REALPATH_JOB_BUFFER_LENGTH)) w;
                  len = a_ret b;
                  (j, w) =
                    (if len = 0 then (j\<lparr>err := errno w\<rparr>, w)
                     else if len < REALPATH_JOB_BUFFER_LENGTH
                     then (j\<lparr>rp_result := InJob (path_chars b)\<rparr>, w)
                     else let (m, w) = sys K (Rt (Malloc ((len + 1) * 2))) w;
                              (c, w) = sys K (WFile (W_GetFinalPathNameByHandleW file len)) w;
                              j = j\<lparr>rp_result := OnHeap (block m) (path_chars c)\<rparr>
                          in if a_ret c = 0 then (j\<lparr>err := errno w\<rparr>, w) else (j, w))
              in (j, sys_do K (WFile (W_CloseHandle file)) w))"

definition realpath_job_unix ::
  "'k kernel \<Rightarrow> realpath_job \<Rightarrow> 'k world \<Rightarrow> realpath_job \<times> 'k world" where
  "realpath_job_unix K j w =
     (let (a, w) = sys K (File (Realpath (rp_path j))) w;
          j = j\<lparr>rp_result := UnixPath (nat (a_ret a))\<rparr>
      in if a_ret a = 0 then (j\<lparr>ret := -1, err := errno w\<rparr>, w) else (j, w))"

definition realpath_job_worker ::
  "platform \<Rightarrow> 'k kernel \<Rightarrow> realpath_job \<Rightarrow> 'k world \<Rightarrow> (realpath_job \<times> 'k world) option" where
  "realpath_job_worker pf K j w =
     Some (if pf = Windows then realpath_job_win K j w else realpath_job_unix K j w)"

definition make_realpath_job :: "ptr \<Rightarrow> realpath_job" where
  "make_realpath_job path = \<lparr>ret = 0, err = 0, rp_path = path, rp_result = NoResult\<rparr>"

definition UNC_PREFIX :: "wchar list" where "UNC_PREFIX = [92, 92, 63, 92, 85, 78, 67, 92]"

text \<open>
  The pointer handed out, as the characters from it on, and the job with the character the
  UNC branch overwrites. \<open>None\<close> is a pointer beyond the string.
\<close>

definition strip_verbatim :: "wchar list \<Rightarrow> (wchar list \<times> wchar list) option" where
  "strip_verbatim s =
     (if wcsncmp_eq s UNC_PREFIX 8 then let s = s[6 := 92] in Some (drop 6 s, s)
      else if wcsncmp_eq s VERBATIM_PREFIX 4 then Some (drop 4 s, s)
      else if 4 \<le> length s then Some (drop 4 s, s) else None)"

definition get_realpath_result :: "realpath_job \<Rightarrow> (wchar list \<times> realpath_job) option" where
  "get_realpath_result j =
     (case rp_result j of
        InJob s \<Rightarrow> map_option (\<lambda>(r, s). (r, j\<lparr>rp_result := InJob s\<rparr>)) (strip_verbatim s)
      | OnHeap p s \<Rightarrow> map_option (\<lambda>(r, s). (r, j\<lparr>rp_result := OnHeap p s\<rparr>)) (strip_verbatim s)
      | _ \<Rightarrow> None)"

definition get_realpath_result_unix :: "realpath_job \<Rightarrow> ptr option" where
  "get_realpath_result_unix j =
     (case rp_result j of UnixPath p \<Rightarrow> Some p | NoResult \<Rightarrow> Some 0 | _ \<Rightarrow> None)"

section \<open>The Windows buffers\<close>

lemma poke_at:
  "length xs = off \<Longrightarrow> length ys = length zs \<Longrightarrow> poke (xs @ ys @ vs) off zs = Some (xs @ zs @ vs)"
  by (auto simp: poke_def blit_def)

lemma poke_last: "length xs = off \<Longrightarrow> length ys = length zs \<Longrightarrow> poke (xs @ ys) off zs = Some (xs @ zs)"
  using poke_at [of xs off ys zs "[]"] by simp

text \<open>A block as the concatenation of the fields of its structure.\<close>

lemma fields:
  "length g = sum_list ns \<Longrightarrow> \<exists>fs. g = concat fs \<and> map length fs = ns"
proof (induction ns arbitrary: g)
  case (Cons n ns)
  then have "length (drop n g) = sum_list ns" by simp
  from Cons.IH [OF this] obtain fs where "drop n g = concat fs" "map length fs = ns" by blast
  then show ?case
    using Cons.prems by (intro exI [of _ "take n g # fs"]) (simp, metis append_take_drop_id)
qed simp

lemma length_dword [simp]: "length (dword v) = 2"
  by (simp add: dword_def)

lemma rename_info_layout:
  assumes "length g = 13 + length path"
  shows "\<exists>pad junk. length pad = 2 \<and> length junk = 2 \<and> rename_info g path replace =
    Some (dword (if replace then 3 else 0) @ pad @ replicate 4 0 @ dword (2 * length path) @
      path @ [0] @ junk)"
proof -
  obtain A P R L N Z Q where g: "g = A @ P @ R @ L @ N @ Z @ Q"
      "length A = 2" "length P = 2" "length R = 4" "length L = 2" "length N = length path"
      "length Z = 1" "length Q = 2"
    using fields [of g "[2, 2, 4, 2, length path, 1, 2]"] assms
    by (auto simp: map_eq_Cons_conv)
  let ?D = "dword (if replace then 3 else 0)" and ?L = "dword (2 * length path)"
  have "poke g 0 ?D = Some ((?D @ P) @ R @ L @ N @ Z @ Q)"
    using poke_at [of "[]" 0 A ?D] g by simp
  moreover have "poke ((?D @ P) @ R @ L @ N @ Z @ Q) 4 (replicate 4 0) =
      Some ((?D @ P @ replicate 4 0) @ L @ N @ Z @ Q)"
    using poke_at [of "?D @ P" 4 R "replicate 4 0"] g by simp
  moreover have "poke ((?D @ P @ replicate 4 0) @ L @ N @ Z @ Q) 8 ?L =
      Some ((?D @ P @ replicate 4 0 @ ?L) @ N @ Z @ Q)"
    using poke_at [of "?D @ P @ replicate 4 0" 8 L ?L] g by simp
  moreover have "poke ((?D @ P @ replicate 4 0 @ ?L) @ N @ Z @ Q) 10 path =
      Some ((?D @ P @ replicate 4 0 @ ?L @ path) @ Z @ Q)"
    using poke_at [of "?D @ P @ replicate 4 0 @ ?L" 10 N path] g by simp
  moreover have "poke ((?D @ P @ replicate 4 0 @ ?L @ path) @ Z @ Q) (10 + length path) [0] =
      Some ((?D @ P @ replicate 4 0 @ ?L @ path) @ [0] @ Q)"
    using poke_at [of "?D @ P @ replicate 4 0 @ ?L @ path" "10 + length path" Z "[0]"] g by simp
  ultimately have "rename_info g path replace =
      Some (?D @ P @ replicate 4 0 @ ?L @ path @ [0] @ Q)"
    unfolding rename_info_def by simp
  then show ?thesis using g by blast
qed

lemma fix_slashes_app:
  "0 \<notin> set t \<Longrightarrow> fix_slashes (t @ 0 # r) = Some (map fix_slash t @ 0 # r)"
  by (induction t) (auto simp: fix_slash_def)

lemma junction_buffer_layout:
  assumes "length g = 2 * length t + 14" "0 \<notin> set t"
  shows "junction_buffer g t = Some (
    dword IO_REPARSE_TAG_MOUNT_POINT @
    [word_of_nat (4 * length t + 20)] @ [0] @ [0] @ [word_of_nat (2 * length t + 8)] @
    [word_of_nat (2 * length t + 10)] @ [word_of_nat (2 * length t)] @
    NT_PREFIX @ (map fix_slash t @ [0]) @ (map fix_slash t @ [0]))"
proof -
  let ?n = "length t" and ?D = "dword IO_REPARSE_TAG_MOUNT_POINT" and ?t = "map fix_slash t @ [0]"
  let ?rl = "word_of_nat (4 * ?n + 20) :: wchar" and ?sl = "word_of_nat (2 * ?n + 8) :: wchar"
    and ?po = "word_of_nat (2 * ?n + 10) :: wchar" and ?pl = "word_of_nat (2 * ?n) :: wchar"
  have arith: "8 + (2 * ?n + 8 + 2 * ?n + 4) = 4 * ?n + 20" "2 * ?n + 8 + 2 = 2 * ?n + 10"
    "8 + 4 = (12::nat)" "8 + 5 + ?n = 13 + ?n"
    by simp_all
  obtain A B C E F G H P U V where g: "g = A @ B @ C @ E @ F @ G @ H @ P @ U @ V"
      "length A = 2" "length B = 1" "length C = 1" "length E = 1" "length F = 1" "length G = 1"
      "length H = 1" "length P = 4" "length U = ?n + 1" "length V = ?n + 1"
    using fields [of g "[2, 1, 1, 1, 1, 1, 1, 4, ?n + 1, ?n + 1]"] assms
    by (auto simp: map_eq_Cons_conv)
  have NT: "length NT_PREFIX = 4" by (simp add: NT_PREFIX_def)
  have s1: "poke g 0 ?D = Some (?D @ B @ C @ E @ F @ G @ H @ P @ U @ V)"
    using poke_at [of "[]" 0 A ?D] g by simp
  have s2: "poke (?D @ B @ C @ E @ F @ G @ H @ P @ U @ V) 2 [?rl] =
      Some (?D @ [?rl] @ C @ E @ F @ G @ H @ P @ U @ V)"
    using poke_at [of ?D 2 B "[?rl]"] g by simp
  have s3: "poke (?D @ [?rl] @ C @ E @ F @ G @ H @ P @ U @ V) 3 [0] =
      Some (?D @ [?rl] @ [0] @ E @ F @ G @ H @ P @ U @ V)"
    using poke_at [of "?D @ [?rl]" 3 C "[0]"] g by simp
  have s4: "poke (?D @ [?rl] @ [0] @ E @ F @ G @ H @ P @ U @ V) 4 [0] =
      Some (?D @ [?rl] @ [0] @ [0] @ F @ G @ H @ P @ U @ V)"
    using poke_at [of "?D @ [?rl] @ [0]" 4 E "[0]"] g by simp
  have s5: "poke (?D @ [?rl] @ [0] @ [0] @ F @ G @ H @ P @ U @ V) 5 [?sl] =
      Some (?D @ [?rl] @ [0] @ [0] @ [?sl] @ G @ H @ P @ U @ V)"
    using poke_at [of "?D @ [?rl] @ [0] @ [0]" 5 F "[?sl]"] g by simp
  have s6: "poke (?D @ [?rl] @ [0] @ [0] @ [?sl] @ G @ H @ P @ U @ V) 8 NT_PREFIX =
      Some (?D @ [?rl] @ [0] @ [0] @ [?sl] @ G @ H @ NT_PREFIX @ U @ V)"
    using poke_at [of "?D @ [?rl] @ [0] @ [0] @ [?sl] @ G @ H" 8 P NT_PREFIX] g NT by simp
  have s7: "poke (?D @ [?rl] @ [0] @ [0] @ [?sl] @ G @ H @ NT_PREFIX @ U @ V) 12 (t @ [0]) =
      Some (?D @ [?rl] @ [0] @ [0] @ [?sl] @ G @ H @ NT_PREFIX @ (t @ [0]) @ V)"
    using poke_at [of "?D @ [?rl] @ [0] @ [0] @ [?sl] @ G @ H @ NT_PREFIX" 12 U "t @ [0]"] g NT by simp
  let ?h = "?D @ [?rl] @ [0] @ [0] @ [?sl] @ G @ H @ NT_PREFIX"
  have len_h: "length ?h = 12" using g NT by simp
  have s8: "fix_slashes (drop 12 (?D @ [?rl] @ [0] @ [0] @ [?sl] @ G @ H @ NT_PREFIX @ (t @ [0]) @ V)) =
      Some (?t @ V)"
  proof -
    have "drop 12 (?h @ (t @ [0]) @ V) = (t @ [0]) @ V" using len_h by (metis append_eq_conv_conj)
    then show ?thesis using fix_slashes_app [OF assms(2), of V] by simp
  qed
  have s9: "poke (?D @ [?rl] @ [0] @ [0] @ [?sl] @ G @ H @ NT_PREFIX @ (t @ [0]) @ V) 12 (?t @ V) =
      Some (?D @ [?rl] @ [0] @ [0] @ [?sl] @ G @ H @ NT_PREFIX @ ?t @ V)"
    using poke_last [of ?h 12 "(t @ [0]) @ V" "?t @ V"] len_h by simp
  have s10: "poke (?D @ [?rl] @ [0] @ [0] @ [?sl] @ G @ H @ NT_PREFIX @ ?t @ V) 6 [?po] =
      Some (?D @ [?rl] @ [0] @ [0] @ [?sl] @ [?po] @ H @ NT_PREFIX @ ?t @ V)"
    using poke_at [of "?D @ [?rl] @ [0] @ [0] @ [?sl]" 6 G "[?po]"] g by simp
  have s11: "poke (?D @ [?rl] @ [0] @ [0] @ [?sl] @ [?po] @ H @ NT_PREFIX @ ?t @ V) 7 [?pl] =
      Some (?D @ [?rl] @ [0] @ [0] @ [?sl] @ [?po] @ [?pl] @ NT_PREFIX @ ?t @ V)"
    using poke_at [of "?D @ [?rl] @ [0] @ [0] @ [?sl] @ [?po]" 7 H "[?pl]"] g by simp
  let ?k = "?D @ [?rl] @ [0] @ [0] @ [?sl] @ [?po] @ [?pl] @ NT_PREFIX"
  have len_k: "length ?k = 12" using NT by simp
  have src: "slice (?k @ ?t @ V) 12 (?n + 1) = ?t"
    using slice_append_exact [of ?k ?t V] len_k by simp
  have s12: "memcpy (?D @ [?rl] @ [0] @ [0] @ [?sl] @ [?po] @ [?pl] @ NT_PREFIX @ ?t @ V) (13 + ?n)
      (?D @ [?rl] @ [0] @ [0] @ [?sl] @ [?po] @ [?pl] @ NT_PREFIX @ ?t @ V) 12 (?n + 1) =
      Some (?D @ [?rl] @ [0] @ [0] @ [?sl] @ [?po] @ [?pl] @ NT_PREFIX @ ?t @ ?t)"
    using poke_last [of "?k @ ?t" "13 + ?n" V ?t] src g len_k
    by (simp add: memcpy_def poke_def)
  show ?thesis
    unfolding junction_buffer_def Let_def arith
    by (simp only: s1 s2 s3 s4 s5 s6 s7 s8 s9 s10 s11 s12 bind.bind_lunit)
qed

lemma fix_slashes_total: "0 \<in> set s \<Longrightarrow> \<exists>s'. fix_slashes s = Some s' \<and> length s' = length s"
  by (induction s) auto

lemma poke_Some:
  "off + length src \<le> length dst \<Longrightarrow> \<exists>b. poke dst off src = Some b \<and> length b = length dst"
  by (simp add: poke_def)

text \<open>The buffer is filled for any target, also one with a terminator inside.\<close>

lemma junction_buffer_total:
  assumes "length g = 2 * length t + 14"
  shows "\<exists>b. junction_buffer g t = Some b"
proof -
  let ?n = "length t"
  have steps: "\<exists>b7. do {
        b \<leftarrow> poke g 0 (dword IO_REPARSE_TAG_MOUNT_POINT);
        b \<leftarrow> poke b 2 [word_of_nat (8 + (2 * ?n + 8 + 2 * ?n + 4))];
        b \<leftarrow> poke b 3 [0];
        b \<leftarrow> poke b 4 [0];
        b \<leftarrow> poke b 5 [word_of_nat (2 * ?n + 8)];
        b \<leftarrow> poke b 8 NT_PREFIX;
        poke b (8 + 4) (t @ [0]) } = Some b7 \<and> length b7 = length g \<and> 0 \<in> set (drop 12 b7)"
    using assms
    by (simp add: poke_def NT_PREFIX_def blit_def)
  then obtain b7 where b7: "do {
        b \<leftarrow> poke g 0 (dword IO_REPARSE_TAG_MOUNT_POINT);
        b \<leftarrow> poke b 2 [word_of_nat (8 + (2 * ?n + 8 + 2 * ?n + 4))];
        b \<leftarrow> poke b 3 [0];
        b \<leftarrow> poke b 4 [0];
        b \<leftarrow> poke b 5 [word_of_nat (2 * ?n + 8)];
        b \<leftarrow> poke b 8 NT_PREFIX;
        poke b (8 + 4) (t @ [0]) } = Some b7" "length b7 = length g" "0 \<in> set (drop 12 b7)"
    by blast
  obtain s where s: "fix_slashes (drop 12 b7) = Some s" "length s = length b7 - 12"
    using fix_slashes_total [OF b7(3)] by auto
  have "junction_buffer g t =
      Option.bind (Some b7) (\<lambda>b. do {
        s \<leftarrow> fix_slashes (drop (8 + 4) b);
        b \<leftarrow> poke b (8 + 4) s;
        b \<leftarrow> poke b 6 [word_of_nat (2 * ?n + 8 + 2)];
        b \<leftarrow> poke b 7 [word_of_nat (2 * ?n)];
        memcpy b (8 + 5 + ?n) b (8 + 4) (?n + 1) })"
    unfolding b7(1) [symmetric] by (simp add: junction_buffer_def Let_def)
  also have "\<dots> \<noteq> None"
    using s b7(2) assms by (simp add: poke_def memcpy_def)
  finally show ?thesis by auto
qed

lemma rename_info_total: "length g = 13 + length path \<Longrightarrow> \<exists>b. rename_info g path replace = Some b"
  using rename_info_layout [of g path replace] by blast

section \<open>The contract of the path workers\<close>

interpretation rename_worker: worker_contract rename_job_worker "\<lambda>_ _. True"
  by unfold_locales
    (auto simp: rename_job_worker_def rename_job_win_def report_simps law_simps ENOSYS_def
      split: if_splits option.splits)

interpretation symlink_worker: worker_contract symlink_job_worker "\<lambda>_ _. True"
  by unfold_locales
    (auto simp: symlink_job_worker_def symlink_job_win_def create_junction_def symlink_fallback_def
      report_simps law_simps split: if_splits option.splits)

interpretation realpath_worker: worker_contract realpath_job_worker "\<lambda>_ _. True"
  by unfold_locales
    (auto simp: realpath_job_worker_def realpath_job_win_def realpath_job_unix_def
      report_simps law_simps split: if_splits)

section \<open>Handles, blocks and directories of the path workers\<close>

text \<open>The handles a stretch of the log opened are closed, the blocks it allocated freed.\<close>

definition clean :: "(call \<times> int) list \<Rightarrow> bool" where
  "clean l \<longleftrightarrow> released_in l = acquired_in l \<and> heap_freed_in l = heap_got_in l"

text \<open>The directories created and removed, and the reparse points set.\<close>

fun made_dir :: "call \<times> int \<Rightarrow> ptr list" where
  "made_dir (WFile (W_CreateDirectoryW p), r) = (if r = 0 then [] else [p])"
| "made_dir _ = []"

fun removed_dir :: "call \<times> int \<Rightarrow> ptr list" where
  "removed_dir (WFile (W_RemoveDirectoryW p), r) = [p]"
| "removed_dir _ = []"

fun set_reparse :: "call \<times> int \<Rightarrow> bool" where
  "set_reparse (WFile (W_DeviceIoControl _ _), r) = (r \<noteq> 0)"
| "set_reparse _ = False"

definition no_stray_dir :: "(call \<times> int) list \<Rightarrow> bool" where
  "no_stray_dir l \<longleftrightarrow>
     concat (map made_dir l) = concat (map removed_dir l) \<or> (\<exists>x \<in> set l. set_reparse x)"

lemmas clean_simps = clean_def no_stray_dir_def since_def world_simps block_def split_beta Let_def

lemma rename_clean:
  "rename_job_worker pf K j w = Some (j', w') \<Longrightarrow> clean (since w w')"
  by (auto simp: rename_job_worker_def rename_job_win_def ret_or_errno_def err_unless_def clean_simps
      split: if_splits option.splits)

lemma symlink_clean:
  "symlink_job_worker pf K j w = Some (j', w') \<Longrightarrow> clean (since w w') \<and> no_stray_dir (since w w')"
  by (auto simp: symlink_job_worker_def symlink_job_win_def create_junction_def symlink_fallback_def
      ret_or_errno_def err_unless_def clean_simps split: if_splits option.splits)

lemma realpath_closes:
  "realpath_job_worker pf K j w = Some (j', w') \<Longrightarrow>
    released_in (since w w') = acquired_in (since w w')"
  by (auto simp: realpath_job_worker_def realpath_job_win_def realpath_job_unix_def clean_simps
      split: if_splits)

lemma returnsI: "x \<noteq> None \<Longrightarrow> \<exists>j w. x = Some (j, w)"
  by auto

lemma rename_returns: "\<exists>j' w'. rename_job_worker pf K j w = Some (j', w')"
proof (rule returnsI)
  have some: "rename_info (fresh (13 + length p) a) p r \<noteq> None" for a p r
    using rename_info_total [of "fresh (13 + length p) a" p r] by auto
  show "rename_job_worker pf K j w \<noteq> None"
    by (simp add: some rename_job_worker_def rename_job_win_def split_beta Let_def split: option.split)
qed

lemma create_junction_returns: "\<exists>j' w'. create_junction K j t w = Some (j', w')"
proof (rule returnsI)
  have some: "junction_buffer (fresh (junction_buffer_size t div 2) a) t \<noteq> None" for a
    using junction_buffer_total [of "fresh (junction_buffer_size t div 2) a" t]
    by (auto simp: junction_buffer_size_def)
  show "create_junction K j t w \<noteq> None"
    by (simp add: some create_junction_def split_beta Let_def split: option.split)
qed

lemma symlink_returns: "\<exists>j' w'. symlink_job_worker pf K j w = Some (j', w')"
  using create_junction_returns
  by (auto simp: symlink_job_worker_def symlink_job_win_def split_beta Let_def)

section \<open>Properties\<close>

text \<open>
  The reader of a reparse buffer: the two names its offsets and lengths delimit, when they
  and the declared length fit the buffer.
\<close>

definition junction_names :: "wchar list \<Rightarrow> (wchar list \<times> wchar list) option" where
  "junction_names b =
     (let p = drop 8 b; name = (\<lambda>off len. rd p (unat off div 2) (unat len div 2))
      in if length b < 8 \<or> unat (b ! 2) + 8 \<noteq> 2 * length b then None
         else case (name (b ! 4) (b ! 5), name (b ! 6) (b ! 7)) of
                (Some s, Some q) \<Rightarrow> Some (s, q) | _ \<Rightarrow> None)"

lemma unat_word16: "n < 65536 \<Longrightarrow> unat (word_of_nat n :: wchar) = n"
  by (simp add: unat_of_nat)

lemma junction_buffer_names:
  assumes "length g = 2 * length t + 14" "0 \<notin> set t" "4 * length t + 20 < 65536"
    and "junction_buffer g t = Some b"
  shows "junction_names b = Some (NT_PREFIX @ map fix_slash t, map fix_slash t)"
proof -
  let ?n = "length t" and ?t = "map fix_slash t"
  have b: "b = [word_of_nat IO_REPARSE_TAG_MOUNT_POINT, word_of_nat (IO_REPARSE_TAG_MOUNT_POINT div 65536),
      word_of_nat (4 * ?n + 20), 0, 0, word_of_nat (2 * ?n + 8), word_of_nat (2 * ?n + 10),
      word_of_nat (2 * ?n)] @ (NT_PREFIX @ ?t @ [0]) @ (?t @ [0])"
    using junction_buffer_layout [OF assms(1,2)] assms(4) by (simp add: dword_def)
  have u: "unat (word_of_nat (4 * ?n + 20) :: wchar) = 4 * ?n + 20"
    "unat (word_of_nat (2 * ?n + 8) :: wchar) = 2 * ?n + 8"
    "unat (word_of_nat (2 * ?n + 10) :: wchar) = 2 * ?n + 10"
    "unat (word_of_nat (2 * ?n) :: wchar) = 2 * ?n"
    using assms(3) by (intro unat_word16; simp)+
  have len: "length NT_PREFIX = 4" by (simp add: NT_PREFIX_def)
  let ?p = "(NT_PREFIX @ ?t @ [0]) @ (?t @ [0])"
  have p: "drop 8 b = ?p" by (simp add: b)
  have sub: "rd ?p 0 (?n + 4) = Some (NT_PREFIX @ ?t)"
    using len by (simp add: rd_def slice_def)
  have print: "rd ?p (?n + 5) ?n = Some ?t"
  proof -
    have "drop (length A) (A @ B) = B" for A B :: "wchar list" by simp
    from this [of "NT_PREFIX @ ?t @ [0]" "?t @ [0]"] have "drop (?n + 5) ?p = ?t @ [0]"
      using len by (simp add: add.commute)
    then show ?thesis using len by (simp add: rd_def slice_def)
  qed
  have nth: "b ! 2 = word_of_nat (4 * ?n + 20)" "b ! 4 = 0" "b ! 5 = word_of_nat (2 * ?n + 8)"
    "b ! 6 = word_of_nat (2 * ?n + 10)" "b ! 7 = word_of_nat (2 * ?n)"
    by (simp_all add: b)
  have lb: "length b = 2 * ?n + 14" using len by (simp add: b)
  have div: "(2 * ?n + 8) div 2 = ?n + 4" "(2 * ?n + 10) div 2 = ?n + 5" by simp_all
  show ?thesis
    unfolding junction_names_def Let_def p nth u lb
    using sub print div by simp
qed



text \<open>A rename block as the system reads it.\<close>

definition rename_block_ok :: "bool \<Rightarrow> wchar list \<Rightarrow> wchar list \<Rightarrow> bool" where
  "rename_block_ok replace path buf \<longleftrightarrow>
     length buf = 13 + length path \<and> take 2 buf = dword (if replace then 3 else 0) \<and>
     slice buf 4 4 = [0, 0, 0, 0] \<and> slice buf 8 2 = dword (2 * length path) \<and>
     slice buf 10 (length path + 1) = path @ [0]"

lemma length_2: "length xs = 2 \<Longrightarrow> \<exists>a b. xs = [a, b]"
  by (auto simp: numeral_2_eq_2 length_Suc_conv)

lemma rename_info_ok:
  assumes "rename_info (fresh (13 + length path) a) path replace = Some buf"
  shows "rename_block_ok replace path buf"
proof -
  obtain pad junk where "length pad = 2" "length junk = 2"
      and buf: "buf = dword (if replace then 3 else 0) @ pad @ replicate 4 0 @ dword (2 * length path) @
        path @ [0] @ junk"
    using rename_info_layout [of "fresh (13 + length path) a" path replace] assms by auto
  then obtain p1 p2 q1 q2 where pad: "pad = [p1, p2]" "junk = [q1, q2]"
    by (blast dest: length_2)
  obtain x y u v where d: "dword (if replace then 3 else 0) = [x, y]" "dword (2 * length path) = [u, v]"
    using length_2 [OF length_dword [of "if replace then 3 else 0"]]
      length_2 [OF length_dword [of "2 * length path"]] by blast
  have "replicate 4 0 = [0, 0, 0, 0 :: wchar]" by (simp add: numeral_eq_Suc)
  then show ?thesis
    unfolding rename_block_ok_def d buf pad by (simp add: slice_def)
qed

text \<open>
  A rename job ends, and on Windows closes the handle and frees the
  block it used; every rename block it passes has the declared name length, the flags that
  the \<open>replace\<close> argument asks for, a null root directory and the new path, terminated.
\<close>

lemma rename_job_block:
  "\<exists>j' w'. rename_job_worker pf K j w = Some (j', w') \<and> clean (since w w') \<and>
    {buf. \<exists>h c. WFile (W_SetFileInformationByHandle h c buf) \<in> set (calls (since w w'))} \<subseteq>
      {buf. rename_block_ok (rn_replace j) (rn_new_chars j) buf}"
proof -
  obtain j' w' where run: "rename_job_worker pf K j w = Some (j', w')"
    using rename_returns by blast
  have "rename_block_ok (rn_replace j) (rn_new_chars j) buf"
    if "WFile (W_SetFileInformationByHandle h c buf) \<in> set (calls (since w w'))" for h c buf
    using run that rename_info_ok [of "rn_new_chars j" _ "rn_replace j" buf]
    by (auto simp: rename_job_worker_def rename_job_win_def err_unless_def
        ret_or_errno_def since_def world_simps split_beta Let_def split: if_splits option.splits)
  then show ?thesis using run rename_clean [OF run] by blast
qed

text \<open>
  The result of a Windows realpath job, inline or on the heap, is the
  plain path: the verbatim prefix is cut, and a network path keeps its two leading
  backslashes.
\<close>

lemma realpath_plain:
  assumes "rp_result j \<in> {InJob s, OnHeap p s}"
    and "s = UNC_PREFIX @ path \<or> (s = VERBATIM_PREFIX @ path \<and> \<not> wcsncmp_eq path [85, 78, 67, 92] 4)"
  shows "\<exists>j'. get_realpath_result j =
    Some (if s = UNC_PREFIX @ path then [92, 92] @ path else path, j')"
proof -
  have "\<exists>s'. strip_verbatim s = Some (if s = UNC_PREFIX @ path then [92, 92] @ path else path, s')"
    using assms(2)
    by (auto simp: strip_verbatim_def UNC_PREFIX_def VERBATIM_PREFIX_def)
  then show ?thesis
    using assms(1) by (auto simp: get_realpath_result_def)
qed

end
