(* ===== verification/Jobs_Process.thy ===== *)
theory Jobs_Process
  imports Jobs_Path
begin

text \<open>
  The jobs of \<open>thread_pool.c\<close> that start and await processes, bind sockets, resolve host
  names and wait for signals. The attribute and file-action objects of \<open>posix_spawn\<close> are
  local to the worker and are left out; the masks and actions they hold are fixed. The
  Android branch without \<open>posix_spawn\<close> is not modelled.
\<close>

section \<open>Spawn, Unix\<close>

record unix_spawn_job = job +
  us_path :: ptr
  us_path_chars :: "byte list"
  us_args :: "ptr list"
  us_args_block :: ptr
  us_envp :: "ptr list"
  us_envp_block :: ptr
  us_inherited :: nat
  us_stdio :: "int list"
  us_cwd :: "ptr option"
  us_pidfd :: int

fun free_all :: "'k kernel \<Rightarrow> ptr list \<Rightarrow> 'k world \<Rightarrow> 'k world" where
  "free_all K [] w = w"
| "free_all K (p # ps) w = free_all K ps (sys_do K (Rt (Free p)) w)"

text \<open>The environment entries before \<open>inherited_env_entry_count\<close> belong to the process.\<close>

definition free_unix_spawn_job :: "'k kernel \<Rightarrow> unix_spawn_job \<Rightarrow> 'k world \<Rightarrow> 'k world" where
  "free_unix_spawn_job K j w =
     (let w = sys_do K (Rt (Decref (us_path j))) w;
          w = free_all K (us_args j) w;
          w = sys_do K (Rt (Free (us_args_block j))) w;
          w = free_all K (drop (us_inherited j) (us_envp j)) w;
          w = sys_do K (Rt (Free (us_envp_block j))) w;
          w = (case us_cwd j of None \<Rightarrow> w | Some c \<Rightarrow> sys_do K (Rt (Decref c)) w)
      in if us_pidfd j \<ge> 0 then sys_do K (File (Close (us_pidfd j))) w else w)"

text \<open>The file actions of the standard streams, stopping at the first that fails.\<close>

fun add_stdio :: "'k kernel \<Rightarrow> nat \<Rightarrow> int list \<Rightarrow> 'k world \<Rightarrow> int \<times> 'k world" where
  "add_stdio K i [] w = (0, w)"
| "add_stdio K i (fd # fds) w =
     (if fd \<ge> 0
      then let (a, w) = sys K (Proc (Spawn_adddup2 fd (int i))) w
           in if a_ret a \<noteq> 0 then (a_ret a, w) else add_stdio K (Suc i) fds w
      else add_stdio K (Suc i) fds w)"

definition spawn_call :: "unix_spawn_job \<Rightarrow> proc_call" where
  "spawn_call j =
     (if 47 \<in> set (us_path_chars j) then Posix_spawn (us_path j) (us_args j) (us_envp j)
      else Posix_spawnp (us_path j) (us_args j) (us_envp j))"

text \<open>\<open>has_pidfd\<close> is the compile-time test for \<open>pidfd_open\<close> (Linux 5.4).\<close>

definition spawn_process ::
  "bool \<Rightarrow> platform \<Rightarrow> 'k kernel \<Rightarrow> unix_spawn_job \<Rightarrow> 'k world \<Rightarrow> unix_spawn_job \<times> 'k world" where
  "spawn_process has_pidfd pf K j w =
     (let (a, w) = sys K (Proc (spawn_call j)) w;
          j = j\<lparr>err := i32 (a_ret a), ret := i32 (a_num a)\<rparr>
      in if pf = Linux \<and> has_pidfd \<and> err j = 0
         then let (b, w) = sys K (Proc (Pidfd_open (ret j))) w;
                  j = j\<lparr>us_pidfd := i32 (a_ret b)\<rparr>
              in if us_pidfd j < 0 \<and> errno w \<noteq> ENOSYS pf \<and> errno w \<noteq> EPERM
                 then (j\<lparr>err := errno w\<rparr>, w) else (j, w)
         else (j, w))"

definition unix_spawn_job_worker ::
  "bool \<Rightarrow> platform \<Rightarrow> 'k kernel \<Rightarrow> unix_spawn_job \<Rightarrow> 'k world \<Rightarrow> (unix_spawn_job \<times> 'k world) option" where
  "unix_spawn_job_worker has_pidfd pf K j w =
     Some (let (e, w) = add_stdio K 0 (us_stdio j) w;
               j = j\<lparr>err := i32 e\<rparr>
           in if err j \<noteq> 0 then (j, w)
              else case us_cwd j of
                     None \<Rightarrow> spawn_process has_pidfd pf K j w
                   | Some cwd \<Rightarrow>
                       let (b, w) = sys K (Proc (Spawn_addchdir cwd)) w;
                           j = j\<lparr>err := i32 (a_ret b)\<rparr>
                       in if err j \<noteq> 0 then (j, w) else spawn_process has_pidfd pf K j w)"

definition get_unix_spawn_job_result_handle :: "unix_spawn_job \<Rightarrow> int \<times> unix_spawn_job" where
  "get_unix_spawn_job_result_handle j = (us_pidfd j, j\<lparr>us_pidfd := -1\<rparr>)"

definition make_unix_spawn_job ::
  "ptr \<Rightarrow> byte list \<Rightarrow> ptr list \<Rightarrow> ptr \<Rightarrow> ptr list \<Rightarrow> ptr \<Rightarrow> nat \<Rightarrow> int \<Rightarrow> int \<Rightarrow> int \<Rightarrow> ptr \<Rightarrow> bool \<Rightarrow>
     unix_spawn_job" where
  "make_unix_spawn_job path chars args args_block envp envp_block inherited fd0 fd1 fd2 cwd has_cwd =
     \<lparr>ret = 0, err = 0, us_path = path, us_path_chars = chars, us_args = args,
      us_args_block = args_block, us_envp = envp, us_envp_block = envp_block,
      us_inherited = inherited, us_stdio = [fd0, fd1, fd2],
      us_cwd = (if has_cwd then Some cwd else None), us_pidfd = -1\<rparr>"

section \<open>Wait for a process, Unix\<close>

record unix_wait_job = job +
  uw_pid :: int

definition WEXITSTATUS :: "int \<Rightarrow> int" where
  "WEXITSTATUS status = (status div 256) mod 256"

definition unix_wait_for_process_job_worker ::
  "platform \<Rightarrow> 'k kernel \<Rightarrow> unix_wait_job \<Rightarrow> 'k world \<Rightarrow> (unix_wait_job \<times> 'k world) option" where
  "unix_wait_for_process_job_worker pf K j w =
     (let (a, w) = sys K (Proc (Waitpid (uw_pid j) 0)) w
      in Some (if a_ret a = uw_pid j then j\<lparr>ret := WEXITSTATUS (a_num a)\<rparr>
               else j\<lparr>err := errno w\<rparr>, w))"

definition make_unix_wait_for_process_job :: "int \<Rightarrow> int \<Rightarrow> unix_wait_job" where
  "make_unix_wait_for_process_job handle pid = \<lparr>ret = 0, err = 0, uw_pid = pid\<rparr>"

section \<open>Spawn, Windows\<close>

text \<open>The global job object kills the children of a process that dies.\<close>

definition init_global_job_object :: "'k kernel \<Rightarrow> 'k world \<Rightarrow> int option \<times> 'k world" where
  "init_global_job_object K w =
     (let (a, w) = sys K (WProc W_CreateJobObject) w;
          jb = a_ret a
      in if jb = 0 then (None, w)
         else let (b, w) = sys K (WProc (W_SetInformationJobObject jb)) w
              in if a_ret b = 0 then (None, sys_do K (WFile (W_CloseHandle jb)) w)
                 else let (p, w) = sys K (WProc W_GetCurrentProcess) w;
                          (c, w) = sys K (WProc (W_AssignProcessToJobObject jb (a_ret p))) w
                      in if a_ret c = 0
                         then let w = (if errno w = ERROR_ACCESS_DENIED then set_errno 0 w else w)
                              in (None, sys_do K (WFile (W_CloseHandle jb)) w)
                         else (Some jb, w))"

record win_spawn_job = job +
  ws_command_line :: ptr
  ws_environment :: ptr
  ws_stdio :: "int list"
  ws_cwd :: "ptr option"
  ws_no_console :: bool
  ws_is_orphan :: bool
  ws_result :: int

definition free_win_spawn_job :: "'k kernel \<Rightarrow> win_spawn_job \<Rightarrow> 'k world \<Rightarrow> 'k world" where
  "free_win_spawn_job K j w =
     (let w = sys_do K (Rt (Decref (ws_command_line j))) w;
          w = sys_do K (Rt (Free (ws_environment j))) w;
          w = (case ws_cwd j of None \<Rightarrow> w | Some c \<Rightarrow> sys_do K (Rt (Decref c)) w)
      in if ws_result j \<noteq> INVALID_HANDLE_VALUE then sys_do K (WFile (W_CloseHandle (ws_result j))) w
         else w)"

text \<open>\<open>STD_INPUT_HANDLE, STD_OUTPUT_HANDLE, STD_ERROR_HANDLE\<close>\<close>

definition std_handle_values :: "int list" where "std_handle_values = [-10, -11, -12]"

text \<open>
  The loop over the standard streams: \<open>done\<close> are the handles already resolved, \<open>inh\<close>
  those made inheritable. The result is the error, if any, the streams and the handles to
  inherit.
\<close>

fun inherit_stdio ::
  "'k kernel \<Rightarrow> int list \<Rightarrow> int list \<Rightarrow> int list \<Rightarrow> int list \<Rightarrow> 'k world \<Rightarrow>
     int option \<times> int list \<times> int list \<times> 'k world" where
  "inherit_stdio K (v # vs) (h # hs) done_hs inh w =
     (let (h, w) = (if h = INVALID_HANDLE_VALUE
                    then let (a, w) = sys K (WProc (W_GetStdHandle v)) w in (a_ret a, w)
                    else (h, w))
      in if h = INVALID_HANDLE_VALUE then (Some (errno w), done_hs @ h # hs, inh, w)
         else if h \<in> set inh then inherit_stdio K vs hs (done_hs @ [h]) inh w
         else let (b, w) = sys K (WProc (W_SetHandleInformation h)) w
              in if a_ret b = 0 then (Some (errno w), done_hs @ h # hs, inh @ [h], w)
                 else inherit_stdio K vs hs (done_hs @ [h]) (inh @ [h]) w)"
| "inherit_stdio K _ hs done_hs inh w = (None, done_hs @ hs, inh, w)"

definition CREATE_SUSPENDED :: "32 word" where "CREATE_SUSPENDED = 0x4"
definition CREATE_NEW_PROCESS_GROUP :: "32 word" where "CREATE_NEW_PROCESS_GROUP = 0x200"
definition CREATE_UNICODE_ENVIRONMENT :: "32 word" where "CREATE_UNICODE_ENVIRONMENT = 0x400"
definition EXTENDED_STARTUPINFO_PRESENT :: "32 word" where "EXTENDED_STARTUPINFO_PRESENT = 0x80000"
definition CREATE_NO_WINDOW :: "32 word" where "CREATE_NO_WINDOW = 0x8000000"

lemmas create_flag_defs = CREATE_SUSPENDED_def CREATE_NEW_PROCESS_GROUP_def
  CREATE_UNICODE_ENVIRONMENT_def EXTENDED_STARTUPINFO_PRESENT_def CREATE_NO_WINDOW_def

text \<open>\<open>has_job_list\<close> is the compile-time test for \<open>PROC_THREAD_ATTRIBUTE_JOB_LIST\<close>.\<close>

definition create_flags :: "bool \<Rightarrow> int \<Rightarrow> win_spawn_job \<Rightarrow> 32 word" where
  "create_flags has_job_list job_object j =
     (let f = CREATE_NEW_PROCESS_GROUP OR CREATE_UNICODE_ENVIRONMENT OR EXTENDED_STARTUPINFO_PRESENT;
          f = (if ws_no_console j then f OR CREATE_NO_WINDOW else f)
      in if \<not> has_job_list \<and> \<not> ws_is_orphan j \<and> job_object \<noteq> INVALID_HANDLE_VALUE
         then f OR CREATE_SUSPENDED else f)"

text \<open>
  The attribute list: a block whose size the first call asks for. \<open>Inl\<close> is an error, after
  which the list is deleted and freed.
\<close>

definition drop_attributes :: "'k kernel \<Rightarrow> answer \<Rightarrow> 'k world \<Rightarrow> 'k world" where
  "drop_attributes K m w =
     sys_do K (Rt (Free (block m))) (sys_do K (WProc W_DeleteProcThreadAttributeList) w)"

definition make_attributes ::
  "bool \<Rightarrow> int \<Rightarrow> 'k kernel \<Rightarrow> win_spawn_job \<Rightarrow> int list \<Rightarrow> 'k world \<Rightarrow> (int + answer) \<times> 'k world" where
  "make_attributes has_job_list job_object K j inh w =
     (let (s, w) = sys K (WProc (W_InitializeProcThreadAttributeList True)) w;
          (m, w) = sys K (Rt (Malloc (a_num s))) w;
          (a, w) = sys K (WProc (W_InitializeProcThreadAttributeList False)) w
      in if a_ret a = 0 then (Inl (errno w), drop_attributes K m w)
         else let (b, w) = sys K (WProc (W_UpdateAttributeHandleList inh)) w
              in if a_ret b = 0 then (Inl (errno w), drop_attributes K m w)
                 else if has_job_list \<and> \<not> ws_is_orphan j
                 then let (c, w) = sys K (WProc (W_UpdateAttributeJobList job_object)) w
                      in if a_ret c = 0 then (Inl (errno w), drop_attributes K m w) else (Inr m, w)
                 else (Inr m, w))"

definition win_create_process ::
  "bool \<Rightarrow> int \<Rightarrow> 'k kernel \<Rightarrow> win_spawn_job \<Rightarrow> answer \<Rightarrow> 'k world \<Rightarrow> win_spawn_job \<times> 'k world" where
  "win_create_process has_job_list job_object K j m w =
     (let flags = create_flags has_job_list job_object j;
          (p, w) = sys K (WProc (W_CreateProcessW (ws_command_line j) (ws_environment j) flags
                     (ws_stdio j))) w;
          w = (if block m \<noteq> 0 then drop_attributes K m w else w)
      in if a_ret p = 0 then (j\<lparr>err := errno w\<rparr>, w)
         else let done_job = (\<lambda>w. (j\<lparr>ws_result := pi_process p, ret := i32 (pi_pid p)\<rparr>,
                      sys_do K (WFile (W_CloseHandle (pi_thread p))) w))
              in if flags AND CREATE_SUSPENDED \<noteq> 0
                 then let (b, w) = sys K (WProc (W_AssignProcessToJobObject job_object (pi_process p))) w
                      in if a_ret b = 0
                         then (j\<lparr>err := errno w\<rparr>, sys_do K (WProc (W_TerminateProcess (pi_process p))) w)
                         else done_job (sys_do K (WProc W_ResumeThread) w)
                 else done_job w)"

definition win_spawn_job_worker ::
  "bool \<Rightarrow> int \<Rightarrow> platform \<Rightarrow> 'k kernel \<Rightarrow> win_spawn_job \<Rightarrow> 'k world \<Rightarrow> (win_spawn_job \<times> 'k world) option" where
  "win_spawn_job_worker has_job_list job_object pf K j w =
     Some (if err j \<noteq> 0 then (j, w)
       else case inherit_stdio K std_handle_values (ws_stdio j) [] [] w of
              (Some e, hs, inh, w) \<Rightarrow> (j\<lparr>ws_stdio := hs, err := e\<rparr>, w)
            | (None, hs, inh, w) \<Rightarrow>
                let j = j\<lparr>ws_stdio := hs\<rparr>
                in case make_attributes has_job_list job_object K j inh w of
                     (Inl e, w) \<Rightarrow> (j\<lparr>err := e\<rparr>, w)
                   | (Inr m, w) \<Rightarrow> win_create_process has_job_list job_object K j m w)"

text \<open>
  The constructor sets up the global job object once; its failure is left in the header,
  as the C library's \<open>errno\<close> (\<open>crt_errno\<close>), which is not \<open>GetLastError\<close>.
\<close>

definition make_win_spawn_job ::
  "'k kernel \<Rightarrow> int \<Rightarrow> int \<Rightarrow> ptr \<Rightarrow> ptr \<Rightarrow> int \<Rightarrow> int \<Rightarrow> int \<Rightarrow> ptr \<Rightarrow> bool \<Rightarrow> bool \<Rightarrow> bool \<Rightarrow> 'k world \<Rightarrow>
     win_spawn_job \<times> int \<times> 'k world" where
  "make_win_spawn_job K crt_errno job_object cmd env h0 h1 h2 cwd has_cwd no_console orphan w =
     (let j = \<lparr>ret = 0, err = 0, ws_command_line = cmd, ws_environment = env,
               ws_stdio = [h0, h1, h2], ws_cwd = (if has_cwd then Some cwd else None),
               ws_no_console = no_console, ws_is_orphan = orphan,
               ws_result = INVALID_HANDLE_VALUE\<rparr>
      in if job_object = INVALID_HANDLE_VALUE
         then case init_global_job_object K w of
                (None, w) \<Rightarrow> (j\<lparr>err := crt_errno\<rparr>, job_object, w)
              | (Some h, w) \<Rightarrow> (j, h, w)
         else (j, job_object, w))"

definition get_win_spawn_job_result_handle :: "win_spawn_job \<Rightarrow> int \<times> win_spawn_job" where
  "get_win_spawn_job_result_handle j = (ws_result j, j\<lparr>ws_result := INVALID_HANDLE_VALUE\<rparr>)"

section \<open>Wait for a process, Windows\<close>

record win_wait_job = job +
  ww_process :: int
  ww_cancel :: int

definition free_win_wait_for_process_job :: "'k kernel \<Rightarrow> win_wait_job \<Rightarrow> 'k world \<Rightarrow> 'k world" where
  "free_win_wait_for_process_job K j w = sys_do K (WFile (W_CloseHandle (ww_cancel j))) w"

definition cancel_wait_for_process_job ::
  "'k kernel \<Rightarrow> win_wait_job \<Rightarrow> 'k world \<Rightarrow> cancellation_status \<times> 'k world" where
  "cancel_wait_for_process_job K j w = (NEED_WAIT, sys_do K (WProc (W_SetEvent (ww_cancel j))) w)"

definition win_wait_for_process_job_worker ::
  "platform \<Rightarrow> 'k kernel \<Rightarrow> win_wait_job \<Rightarrow> 'k world \<Rightarrow> (win_wait_job \<times> 'k world) option" where
  "win_wait_for_process_job_worker pf K j w =
     (let (a, w) = sys K (WProc (W_WaitForMultipleObjects [ww_process j, ww_cancel j])) w
      in Some (if a_ret a = WAIT_FAILED then j\<lparr>err := errno w\<rparr>
               else if a_ret a = 1 then j\<lparr>err := ERROR_OPERATION_ABORTED\<rparr>
               else j, w))"

definition make_win_wait_for_process_job ::
  "'k kernel \<Rightarrow> int \<Rightarrow> int \<Rightarrow> 'k world \<Rightarrow> win_wait_job \<times> 'k world" where
  "make_win_wait_for_process_job K process pid w =
     (let (a, w) = sys K (WProc W_CreateEvent) w
      in (\<lparr>ret = 0, err = 0, ww_process = process, ww_cancel = a_ret a\<rparr>, w))"

section \<open>Bind\<close>

record bind_job = job +
  bi_socket :: int
  bi_addr :: ptr
  bi_addr_len :: int

definition free_bind_job :: "'k kernel \<Rightarrow> bind_job \<Rightarrow> 'k world \<Rightarrow> 'k world" where
  "free_bind_job K j w = sys_do K (Rt (Decref (bi_addr j))) w"

definition bind_job_worker ::
  "platform \<Rightarrow> 'k kernel \<Rightarrow> bind_job \<Rightarrow> 'k world \<Rightarrow> (bind_job \<times> 'k world) option" where
  "bind_job_worker pf K j w =
     Some (ret_or_errno K (Proc (Bind (bi_socket j) (bi_addr j) (bi_addr_len j))) j w)"

definition make_bind_job :: "int \<Rightarrow> ptr \<Rightarrow> int \<Rightarrow> bind_job" where
  "make_bind_job socket addr len =
     \<lparr>ret = 0, err = 0, bi_socket = socket, bi_addr = addr, bi_addr_len = len\<rparr>"

section \<open>Getaddrinfo\<close>

record getaddrinfo_job = job +
  ga_hostname :: ptr
  ga_result :: ptr
  ga_fetched :: bool

definition free_getaddrinfo_job :: "'k kernel \<Rightarrow> getaddrinfo_job \<Rightarrow> 'k world \<Rightarrow> 'k world" where
  "free_getaddrinfo_job K j w =
     (let w = sys_do K (Rt (Decref (ga_hostname j))) w
      in if ga_result j \<noteq> 0 \<and> \<not> ga_fetched j then sys_do K (Proc (Freeaddrinfo (ga_result j))) w
         else w)"

definition EAI_SYSTEM :: "platform \<Rightarrow> int" where
  "EAI_SYSTEM pf = (if pf = Linux then -11 else 11)"

text \<open>
  \<open>WSATRY_AGAIN, WSANO_RECOVERY, WSAEAFNOSUPPORT, WSAHOST_NOT_FOUND, WSATYPE_NOT_FOUND,
  WSAESOCKTNOSUPPORT\<close>: the resolver's own codes, reported through \<open>ret\<close>.
\<close>

definition win_resolver_codes :: "int list" where
  "win_resolver_codes = [11002, 11003, 10047, 11001, 10109, 10044]"

text \<open>The result list is written only when the call succeeds.\<close>

definition getaddrinfo_job_worker ::
  "platform \<Rightarrow> 'k kernel \<Rightarrow> getaddrinfo_job \<Rightarrow> 'k world \<Rightarrow> (getaddrinfo_job \<times> 'k world) option" where
  "getaddrinfo_job_worker pf K j w =
     (let (a, w) = sys K (Proc (Getaddrinfo (ga_hostname j))) w;
          code = i32 (a_ret a);
          j = (if code = 0 then j\<lparr>ga_result := nat (a_num a)\<rparr> else j)
      in Some (if pf = Windows
               then (if code \<in> set win_resolver_codes then j\<lparr>ret := code\<rparr> else j\<lparr>err := code\<rparr>, w)
               else let j = j\<lparr>ret := code\<rparr>
                    in (if code = EAI_SYSTEM pf then j\<lparr>err := errno w\<rparr> else j, w)))"

definition make_getaddrinfo_job :: "ptr \<Rightarrow> getaddrinfo_job" where
  "make_getaddrinfo_job hostname =
     \<lparr>ret = 0, err = 0, ga_hostname = hostname, ga_result = 0, ga_fetched = False\<rparr>"

definition get_getaddrinfo_result :: "getaddrinfo_job \<Rightarrow> ptr \<times> getaddrinfo_job" where
  "get_getaddrinfo_result j = (ga_result j, j\<lparr>ga_fetched := True\<rparr>)"

section \<open>Sigwait\<close>

record sigwait_job = job +
  sw_signals :: "int list"


text \<open>A signal is told from a job number by the top bit: \<open>sig |= 1 << 31\<close>.\<close>

definition notify_signal :: "int \<Rightarrow> int" where
  "notify_signal sig = i32 (sig OR 2 ^ 31)"

text \<open>\<open>do { if (write(...) > 0) goto cleanup; } while (errno == EINTR)\<close>: was it written?\<close>

partial_function (option) write_signal ::
  "'k kernel \<Rightarrow> int \<Rightarrow> int \<Rightarrow> 'k world \<Rightarrow> (bool \<times> 'k world) option" where
  "write_signal K send v w =
     (let (a, w1) = sys K (Proc (Write_int send v)) w
      in if 0 < a_ret a then Some (True, w1)
         else if errno w1 = EINTR then write_signal K send v w1
         else Some (False, w1))"

text \<open>The outer loop; its value is the error of the job, 0 for none.\<close>

partial_function (option) sigwait_loop ::
  "platform \<Rightarrow> 'k kernel \<Rightarrow> int \<Rightarrow> int list \<Rightarrow> 'k world \<Rightarrow> (int \<times> 'k world) option" where
  "sigwait_loop pf K send signals w =
     (let (a, w1) = sys K (Proc (Sigwait signals)) (set_errno 0 w);
          e = a_ret a; sig = a_num a
      in if 0 < e then Some (e, w1)
         else if sig = SIGUSR2 pf then Some (0, w1)
         else if sig = 0
         then (if errno w1 = EINTR \<or> errno w1 = 0 then sigwait_loop pf K send signals w1
               else Some (errno w1, w1))
         else (case write_signal K send (notify_signal sig) w1 of
                 None \<Rightarrow> None
               | Some (written, w2) \<Rightarrow>
                   if written then Some (0, w2) else sigwait_loop pf K send signals w2))"

definition sigwait_job_worker ::
  "int \<Rightarrow> platform \<Rightarrow> 'k kernel \<Rightarrow> sigwait_job \<Rightarrow> 'k world \<Rightarrow> (sigwait_job \<times> 'k world) option" where
  "sigwait_job_worker notify_send pf K j w =
     (case sigwait_loop pf K notify_send (sw_signals j) (sys_do K (Proc Sigmask_block_all) w) of
        None \<Rightarrow> None
      | Some (e, w) \<Rightarrow>
          Some (if e \<noteq> 0 then j\<lparr>err := e\<rparr> else j, sys_do K (Proc Sigmask_restore) w))"

definition make_sigwait_job :: "platform \<Rightarrow> int list \<Rightarrow> sigwait_job" where
  "make_sigwait_job pf signals = \<lparr>ret = 0, err = 0, sw_signals = signals @ [SIGUSR2 pf]\<rparr>"

section \<open>The contracts\<close>

interpretation bind_worker: worker_contract bind_job_worker "\<lambda>_ _. True"
  by unfold_locales
    (auto simp: bind_job_worker_def report_simps law_simps split: if_splits)

interpretation win_wait_worker: worker_contract win_wait_for_process_job_worker "\<lambda>_ _. True"
  by unfold_locales
    (auto simp: win_wait_for_process_job_worker_def report_simps law_simps win_errnos split: if_splits)

lemma unix_wait_reports:
  assumes "os_law K" "0 < uw_pid j"
    and "unix_wait_for_process_job_worker pf K (reset_header j) w = Some (j', w')"
  shows "well_reported j'"
proof -
  let ?c = "Proc (Waitpid (uw_pid j) 0)"
  have "a_ret (fst (sys K ?c w)) = uw_pid j \<or> a_ret (fst (sys K ?c w)) < 0"
    using os_law_pid [OF assms(1), of ?c w] assms(2) by simp
  then show ?thesis
    using assms
    by (auto simp: unix_wait_for_process_job_worker_def report_simps WEXITSTATUS_def law_simps
        split: if_splits)
qed

interpretation unix_wait_worker: worker_contract unix_wait_for_process_job_worker "\<lambda>_ j. 0 < uw_pid j"
  by unfold_locales (rule unix_wait_reports)

lemma add_stdio_nonneg: "os_law K \<Longrightarrow> 0 \<le> fst (add_stdio K i fds w) \<and> fst (add_stdio K i fds w) < 2 ^ 31"
proof (induction K i fds w rule: add_stdio.induct)
  case (2 K i fd fds w)
  have "i32 (a_ret (fst (sys K (Proc (Spawn_adddup2 fd (int i))) w))) =
      a_ret (fst (sys K (Proc (Spawn_adddup2 fd (int i))) w))"
    using os_law_i32 [OF "2.prems", of "Proc (Spawn_adddup2 fd (int i))" w] by simp
  then have "a_ret (fst (sys K (Proc (Spawn_adddup2 fd (int i))) w)) < 2 ^ 31"
    using i32_range by metis
  then show ?case
    using 2 os_law_returns [OF "2.prems", of "Proc (Spawn_adddup2 fd (int i))" w]
    by (auto simp: split_beta Let_def prod_eq_iff)
qed simp

lemma spawn_call_laws [simp]:
  "proc_returns_errno (spawn_call j)"
  by (simp add: spawn_call_def)

lemma spawn_call_pid:
  assumes "os_law K" "a_ret (fst (sys K (Proc (spawn_call j)) w)) = 0"
  shows "i32 (a_num (fst (sys K (Proc (spawn_call j)) w))) = a_num (fst (sys K (Proc (spawn_call j)) w))"
    and "0 < a_num (fst (sys K (Proc (spawn_call j)) w))"
proof -
  have "0 < a_num (fst (sys K (Proc (spawn_call j)) w)) \<and>
      a_num (fst (sys K (Proc (spawn_call j)) w)) < 2 ^ 31"
    using os_law_pid [OF assms(1), of "Proc (spawn_call j)" w] assms(2)
    by (auto simp: spawn_call_def split: if_splits)
  then show "i32 (a_num (fst (sys K (Proc (spawn_call j)) w))) = a_num (fst (sys K (Proc (spawn_call j)) w))"
    and "0 < a_num (fst (sys K (Proc (spawn_call j)) w))"
    by (auto intro: i32_nonneg)
qed

text \<open>The file actions the streams ask for, in order.\<close>

definition stdio_actions :: "nat \<Rightarrow> int list \<Rightarrow> call list" where
  "stdio_actions i fds =
     map (\<lambda>(k, fd). Proc (Spawn_adddup2 fd (int k))) (filter (\<lambda>(k, fd). 0 \<le> fd) (enumerate i fds))"

lemma stdio_actions_simps [simp]:
  "stdio_actions i [] = []"
  "stdio_actions i (fd # fds) =
    (if 0 \<le> fd then Proc (Spawn_adddup2 fd (int i)) # stdio_actions (Suc i) fds
     else stdio_actions (Suc i) fds)"
  by (simp_all add: stdio_actions_def)

lemma add_stdio_log:
  "add_stdio K i fds w = (e, w') \<Longrightarrow>
    \<exists>l. log w' = log w @ l \<and> acquired_in l = [] \<and> released_in l = [] \<and>
      (e = 0 \<longrightarrow> calls l = stdio_actions i fds)"
proof (induction K i fds w rule: add_stdio.induct)
  case (2 K i fd fds w)
  let ?c = "Proc (Spawn_adddup2 fd (int i))"
  obtain a w1 where s: "sys K ?c w = (a, w1)" by fastforce
  have l1: "log w1 = log w @ [(?c, a_ret a)]" using sys_log [of K ?c w] s by simp
  show ?case
  proof (cases "0 \<le> fd")
    case True
    show ?thesis
    proof (cases "a_ret a = 0")
      case zero: True
      then have "add_stdio K (Suc i) fds w1 = (e, w')" using "2.prems" True s by simp
      from "2.IH"(1) [OF True s [symmetric] refl, simplified, OF _ this] zero
      obtain l where l: "log w' = log w1 @ l" "acquired_in l = []" "released_in l = []"
          "e = 0 \<longrightarrow> calls l = stdio_actions (Suc i) fds"
        by auto
      then show ?thesis using True l1 by (intro exI [of _ "(?c, a_ret a) # l"]) auto
    next
      case False
      then show ?thesis using "2.prems" True s l1 by (intro exI [of _ "[(?c, a_ret a)]"]) auto
    qed
  next
    case False
    with 2 show ?thesis by auto
  qed
qed (auto intro: exI [of _ "[]"])

definition spawn_ok :: "bool \<Rightarrow> platform \<Rightarrow> unix_spawn_job \<Rightarrow> (call \<times> int) list \<Rightarrow> bool" where
  "spawn_ok has_pidfd pf j l \<longleftrightarrow>
     calls l = [Proc (spawn_call j)] @
       (if pf = Linux \<and> has_pidfd then [Proc (Pidfd_open (ret j))] else []) \<and>
     0 < ret j \<and> acquired_in l = (if 0 \<le> us_pidfd j then [us_pidfd j] else [])"

definition spawn_failed :: "unix_spawn_job \<Rightarrow> (call \<times> int) list \<Rightarrow> bool" where
  "spawn_failed j l \<longleftrightarrow> 0 < err j \<and> acquired_in l = [] \<and> us_pidfd j < 0"

lemma acquired_spawn_call [simp]:
  "proc_acquired (spawn_call j) r = []"
  by (simp add: spawn_call_def)

lemma spawn_call_fields [simp]: "spawn_call (j\<lparr>err := e, ret := r\<rparr>) = spawn_call j"
  "spawn_call (j\<lparr>us_pidfd := p\<rparr>) = spawn_call j"
  "spawn_call (j\<lparr>err := e\<rparr>) = spawn_call j"
  by (simp_all add: spawn_call_def)

lemma spawn_process_post:
  assumes "os_law K" "us_pidfd j < 0" "spawn_process has_pidfd pf K j w = (j', w')"
  shows "\<exists>l. log w' = log w @ l \<and> released_in l = [] \<and>
    (if err j' = 0 then spawn_ok has_pidfd pf j' l \<and> spawn_call j' = spawn_call j else spawn_failed j' l)"
proof -
  let ?c = "Proc (spawn_call j)"
  obtain a w1 where s1: "sys K ?c w = (a, w1)" by fastforce
  let ?p = "Proc (Pidfd_open (i32 (a_num a)))"
  obtain b w2 where s2: "sys K ?p w1 = (b, w2)" by fastforce
  have l1: "log w1 = log w @ [(?c, a_ret a)]" using sys_log [of K ?c w] s1 by simp
  have l2: "log w2 = log w1 @ [(?p, a_ret b)]" using sys_log [of K ?p w1] s2 by simp
  have e: "i32 (a_ret a) = a_ret a" "0 \<le> a_ret a"
    using os_law_i32 [OF assms(1), of ?c w] os_law_returns [OF assms(1), of ?c w] s1 by simp_all
  have pid: "a_ret a = 0 \<Longrightarrow> 0 < i32 (a_num a)"
    using spawn_call_pid [OF assms(1), of j w] s1 by simp
  have b: "i32 (a_ret b) = a_ret b" "a_ret b < 0 \<Longrightarrow> 0 < errno w2"
    using os_law_i32 [OF assms(1), of ?p w1] os_law_errno [OF assms(1), of ?p w1] s2 by simp_all
  show ?thesis
  proof (cases "pf = Linux \<and> has_pidfd \<and> a_ret a = 0")
    case True
    show ?thesis
      using assms(2,3) True s1 s2 l1 l2 e b pid
      by (intro exI [of _ "[(?c, a_ret a), (?p, a_ret b)]"])
        (auto simp: spawn_process_def spawn_ok_def spawn_failed_def Let_def split: if_splits)
  next
    case False
    then show ?thesis
      using assms(2,3) s1 l1 e pid
      by (intro exI [of _ "[(?c, a_ret a)]"])
        (auto simp: spawn_process_def spawn_ok_def spawn_failed_def Let_def split: if_splits)
  qed
qed

text \<open>The calls a successful spawn makes, in order.\<close>

definition spawn_script :: "bool \<Rightarrow> platform \<Rightarrow> unix_spawn_job \<Rightarrow> int \<Rightarrow> call list" where
  "spawn_script has_pidfd pf j pid =
     stdio_actions 0 (us_stdio j) @
     (case us_cwd j of None \<Rightarrow> [] | Some c \<Rightarrow> [Proc (Spawn_addchdir c)]) @
     [Proc (spawn_call j)] @ (if pf = Linux \<and> has_pidfd then [Proc (Pidfd_open pid)] else [])"

definition unix_spawn_post ::
  "bool \<Rightarrow> platform \<Rightarrow> unix_spawn_job \<Rightarrow> unix_spawn_job \<Rightarrow> (call \<times> int) list \<Rightarrow> bool" where
  "unix_spawn_post has_pidfd pf j j' l \<longleftrightarrow>
     released_in l = [] \<and>
     (case job_result j' of
        Inl e \<Rightarrow> acquired_in l = [] \<and> us_pidfd j' < 0
      | Inr pid \<Rightarrow> 0 < pid \<and> calls l = spawn_script has_pidfd pf j pid \<and>
          acquired_in l = (if 0 \<le> us_pidfd j' then [us_pidfd j'] else []))"

lemma spawn_rest_post:
  assumes "os_law K" "us_pidfd j0 < 0" "us_pidfd j = us_pidfd j0" "spawn_call j = spawn_call j0"
    and "log w = log w0 @ l" "released_in l = []" "acquired_in l = []"
    and "calls l = stdio_actions 0 (us_stdio j0) @
      (case us_cwd j0 of None \<Rightarrow> [] | Some c \<Rightarrow> [Proc (Spawn_addchdir c)])"
    and "spawn_process has_pidfd pf K j w = (j', w')"
  shows "unix_spawn_post has_pidfd pf j0 j' (since w0 w') \<and> well_reported j'"
proof -
  obtain m where m: "log w' = log w @ m" "released_in m = []"
      "if err j' = 0 then spawn_ok has_pidfd pf j' m \<and> spawn_call j' = spawn_call j
       else spawn_failed j' m"
    using spawn_process_post [OF assms(1) _ assms(9)] assms(2,3) by auto
  have "since w0 w' = l @ m" using m(1) assms(5) by (simp add: since_def)
  then show ?thesis
    using m assms
    by (auto simp: unix_spawn_post_def job_result_def well_reported_iff spawn_ok_def spawn_failed_def
        spawn_script_def split: if_splits)
qed

lemma unix_spawn_job_post:
  assumes "os_law K" "us_pidfd j < 0"
    and "unix_spawn_job_worker has_pidfd pf K (reset_header j) w = Some (j', w')"
  shows "unix_spawn_post has_pidfd pf j j' (since w w') \<and> well_reported j'"
proof -
  let ?j = "reset_header j"
  have fields: "us_stdio ?j = us_stdio j" "us_cwd ?j = us_cwd j" "us_pidfd ?j = us_pidfd j"
    by (simp_all add: reset_header_def)
  have call: "spawn_call (?j\<lparr>err := e\<rparr>) = spawn_call j" for e
    by (simp add: spawn_call_def reset_header_def)
  have pidfd: "us_pidfd (?j\<lparr>err := e\<rparr>) = us_pidfd j" for e by (simp add: reset_header_def)
  obtain e w1 where s1: "add_stdio K 0 (us_stdio j) w = (e, w1)" by fastforce
  obtain l where l: "log w1 = log w @ l" "acquired_in l = []" "released_in l = []"
      "e = 0 \<longrightarrow> calls l = stdio_actions 0 (us_stdio j)"
    using add_stdio_log [OF s1] by blast
  have e: "i32 e = e" "0 \<le> e"
    using add_stdio_nonneg [OF assms(1), of 0 "us_stdio j" w] s1 by (auto intro: i32_nonneg)
  have failed: "unix_spawn_post has_pidfd pf j (?j\<lparr>err := x\<rparr>) m \<and> well_reported (?j\<lparr>err := x\<rparr>)"
    if "0 < x" "acquired_in m = []" "released_in m = []" for x m
    using that assms(2)
    by (simp add: unix_spawn_post_def job_result_def well_reported_iff reset_header_def)
  show ?thesis
  proof (cases "e = 0")
    case False
    then have "j' = ?j\<lparr>err := e\<rparr>" "w' = w1"
      using assms(3) s1 e by (auto simp: unix_spawn_job_worker_def fields)
    then show ?thesis
      using failed [of e l] l e False sinceI [OF l(1)] by simp
  next
    case zero: True
    show ?thesis
    proof (cases "us_cwd j")
      case None
      then have go: "spawn_process has_pidfd pf K (?j\<lparr>err := 0\<rparr>) w1 = (j', w')"
        using assms(3) s1 zero by (simp add: unix_spawn_job_worker_def fields i32_def)
      have "calls l = stdio_actions 0 (us_stdio j) @
          (case us_cwd j of None \<Rightarrow> [] | Some c \<Rightarrow> [Proc (Spawn_addchdir c)])"
        using None zero l(4) by simp
      from spawn_rest_post [OF assms(1,2) pidfd call l(1,3,2) this go] show ?thesis .
    next
      case (Some c)
      let ?c = "Proc (Spawn_addchdir c)"
      obtain b w2 where s2: "sys K ?c w1 = (b, w2)" by fastforce
      have l2: "log w2 = log w @ (l @ [(?c, a_ret b)])" using sys_log [of K ?c w1] s2 l(1) by simp
      have b: "i32 (a_ret b) = a_ret b" "0 \<le> a_ret b"
        using os_law_i32 [OF assms(1), of ?c w1] os_law_returns [OF assms(1), of ?c w1] s2
        by simp_all
      show ?thesis
      proof (cases "a_ret b = 0")
        case False
        then have "j' = ?j\<lparr>err := a_ret b\<rparr>" "w' = w2"
          using assms(3) s1 s2 b zero Some by (auto simp: unix_spawn_job_worker_def fields i32_def)
        then show ?thesis
          using failed [of "a_ret b" "l @ [(?c, a_ret b)]"] l b False sinceI [OF l2] by simp
      next
        case True
        then have go: "spawn_process has_pidfd pf K (?j\<lparr>err := 0\<rparr>) w2 = (j', w')"
          using assms(3) s1 s2 zero Some by (simp add: unix_spawn_job_worker_def fields i32_def)
        have "calls (l @ [(?c, a_ret b)]) = stdio_actions 0 (us_stdio j) @
            (case us_cwd j of None \<Rightarrow> [] | Some c \<Rightarrow> [Proc (Spawn_addchdir c)])"
          using Some zero l(4) by simp
        from spawn_rest_post [OF assms(1,2) pidfd call l2 _ _ this go] l(2,3) show ?thesis by simp
      qed
    qed
  qed
qed

interpretation unix_spawn_worker:
  worker_contract "unix_spawn_job_worker has_pidfd" "\<lambda>_ j. us_pidfd j < 0" for has_pidfd
  by unfold_locales (blast dest: unix_spawn_job_post)

text \<open>
  Claim C19 (functional). A Unix spawn job ends. When it succeeds it made exactly the calls
  asked for, in order: the duplications of the streams that were given, the change of
  directory if any, one \<open>posix_spawn\<close> or \<open>posix_spawnp\<close>, and the process descriptor
  on Linux; it returns a positive process id and owns the descriptor, if there is one. When it
  fails it reports a positive error and leaves no descriptor open.
\<close>

theorem unix_spawn_job_ok:
  assumes "os_law K"
    and "j = make_unix_spawn_job path chars args ab envp eb inherited fd0 fd1 fd2 cwd has_cwd"
  shows "\<exists>j' w'. unix_spawn_job_worker has_pidfd pf K (reset_header j) w = Some (j', w') \<and>
    released_in (since w w') = [] \<and>
    (case job_result j' of
       Inl e \<Rightarrow> acquired_in (since w w') = [] \<and> us_pidfd j' < 0
     | Inr pid \<Rightarrow> 0 < pid \<and> calls (since w w') = spawn_script has_pidfd pf j pid \<and>
         acquired_in (since w w') = (if 0 \<le> us_pidfd j' then [us_pidfd j'] else []))"
proof -
  obtain j' w' where run: "unix_spawn_job_worker has_pidfd pf K (reset_header j) w = Some (j', w')"
    using returnsI [of "unix_spawn_job_worker has_pidfd pf K (reset_header j) w"]
    unfolding unix_spawn_job_worker_def by blast
  have "us_pidfd j < 0" using assms(2) by (simp add: make_unix_spawn_job_def)
  from unix_spawn_job_post [OF assms(1) this run] run show ?thesis
    by (auto simp: unix_spawn_post_def)
qed

theorem unix_spawn_job_ok_witness:
  "\<exists>j' w'. unix_spawn_job_worker True Linux (lawful scripted)
      (reset_header (make_unix_spawn_job 1 [108, 115] [2] 3 [4] 5 0 0 (-1) 7 9 True))
      (boot []) = Some (j', w') \<and> released_in (since (boot []) w') = []"
  using unix_spawn_job_ok [OF os_law_lawful refl, of True Linux scripted 1 "[108, 115]" "[2]" 3 "[4]" 5 0
      0 "-1" 7 9 True "boot []"]
  by blast

section \<open>Windows spawn: streams, attribute list and report\<close>

lemma inherit_stdio_ok:
  assumes "inherit_stdio K vs hs done_hs inh w = (None, hs', inh', w')" "length vs = length hs"
    and "INVALID_HANDLE_VALUE \<notin> set inh" "distinct inh"
  shows "\<exists>rs. hs' = done_hs @ rs \<and> length rs = length hs \<and> INVALID_HANDLE_VALUE \<notin> set rs \<and>
    list_all2 (\<lambda>h r. h \<noteq> INVALID_HANDLE_VALUE \<longrightarrow> r = h) hs rs \<and>
    distinct inh' \<and> set inh' = set inh \<union> set rs"
  using assms
proof (induction K vs hs done_hs inh w rule: inherit_stdio.induct)
  case (1 K v vs h hs done_hs inh w)
  obtain r w1 where s: "(if h = INVALID_HANDLE_VALUE
      then let (a, w) = sys K (WProc (W_GetStdHandle v)) w in (a_ret a, w) else (h, w)) = (r, w1)"
    by fastforce
  have r: "h \<noteq> INVALID_HANDLE_VALUE \<longrightarrow> r = h" using s by auto
  have ok: "r \<noteq> INVALID_HANDLE_VALUE" using "1.prems"(1) s by auto
  show ?case
  proof (cases "r \<in> set inh")
    case True
    then have "inherit_stdio K vs hs (done_hs @ [r]) inh w1 = (None, hs', inh', w')"
      using "1.prems"(1) s ok by auto
    from "1.IH"(1) [OF s [symmetric] refl ok True this] "1.prems"
    obtain rs where "hs' = (done_hs @ [r]) @ rs" "length rs = length hs"
        "INVALID_HANDLE_VALUE \<notin> set rs" "distinct inh'" "set inh' = set inh \<union> set rs"
        "list_all2 (\<lambda>h r. h \<noteq> INVALID_HANDLE_VALUE \<longrightarrow> r = h) hs rs"
      by auto
    then show ?thesis using True r ok by (intro exI [of _ "r # rs"]) auto
  next
    case False
    obtain b w2 where s2: "sys K (WProc (W_SetHandleInformation r)) w1 = (b, w2)" by fastforce
    have b: "a_ret b \<noteq> 0" using "1.prems"(1) s s2 ok False by auto
    then have "inherit_stdio K vs hs (done_hs @ [r]) (inh @ [r]) w2 = (None, hs', inh', w')"
      using "1.prems"(1) s s2 ok False by auto
    from "1.IH"(2) [OF s [symmetric] refl ok False s2 [symmetric] refl b this] "1.prems" False ok
    obtain rs where "hs' = (done_hs @ [r]) @ rs" "length rs = length hs"
        "INVALID_HANDLE_VALUE \<notin> set rs" "distinct inh'" "set inh' = set (inh @ [r]) \<union> set rs"
        "list_all2 (\<lambda>h r. h \<noteq> INVALID_HANDLE_VALUE \<longrightarrow> r = h) hs rs"
      by auto
    then show ?thesis using r ok by (intro exI [of _ "r # rs"]) auto
  qed
qed auto

lemma inherit_stdio_errno:
  assumes "inherit_stdio K vs hs done_hs inh w = (Some e, hs', inh', w')" "os_law K"
  shows "0 < e"
  using assms
proof (induction K vs hs done_hs inh w rule: inherit_stdio.induct)
  case (1 K v vs h hs done_hs inh w)
  obtain r w1 where s: "(if h = INVALID_HANDLE_VALUE
      then let (a, w) = sys K (WProc (W_GetStdHandle v)) w in (a_ret a, w) else (h, w)) = (r, w1)"
    by fastforce
  obtain b w2 where s2: "sys K (WProc (W_SetHandleInformation r)) w1 = (b, w2)" by fastforce
  have e1: "0 < errno w1" if "r = INVALID_HANDLE_VALUE"
    using s that os_law_errno [OF "1.prems"(2), of "WProc (W_GetStdHandle v)" w]
    by (auto simp: split_beta Let_def split: if_splits)
  have e2: "0 < errno w2" if "a_ret b = 0"
    using s2 that os_law_errno [OF "1.prems"(2), of "WProc (W_SetHandleInformation r)" w1] by simp
  show ?case
    using "1.prems" "1.IH"(1) [OF s [symmetric] refl] "1.IH"(2) [OF s [symmetric] refl _ _ s2 [symmetric] refl]
      s s2 e1 e2
    by (auto split: if_splits)
qed auto

lemma make_attributes_errno:
  assumes "os_law K" "make_attributes has_job_list jb K j inh w = (Inl e, w')"
  shows "0 < e"
  using assms by (auto simp: make_attributes_def split_beta Let_def law_simps split: if_splits)

lemma create_process_pid:
  assumes "os_law K" "a_ret (fst (sys K (WProc (W_CreateProcessW a b c d)) w)) \<noteq> 0"
  shows "0 \<le> i32 (pi_pid (fst (sys K (WProc (W_CreateProcessW a b c d)) w)))"
proof -
  have "0 \<le> pi_pid (fst (sys K (WProc (W_CreateProcessW a b c d)) w)) \<and>
      pi_pid (fst (sys K (WProc (W_CreateProcessW a b c d)) w)) < 2 ^ 31"
    using os_law_pid [OF assms(1), of "WProc (W_CreateProcessW a b c d)" w] assms(2) by simp
  then show ?thesis using i32_nonneg by metis
qed

lemma win_create_process_reports:
  assumes "os_law K" "err j = 0" "win_create_process has_job_list jb K j m w = (j', w')"
  shows "well_reported j'"
  using assms
  by (auto simp: win_create_process_def drop_attributes_def report_simps law_simps create_process_pid
      split: if_splits)

lemma win_spawn_job_reports:
  assumes "os_law K" "win_spawn_job_worker has_job_list jb pf K (reset_header j) w = Some (j', w')"
  shows "well_reported j'"
proof -
  obtain e hs inh w1 where s1: "inherit_stdio K std_handle_values (ws_stdio j) [] [] w = (e, hs, inh, w1)"
    by (metis surj_pair)
  let ?j = "(reset_header j)\<lparr>ws_stdio := hs\<rparr>"
  obtain r w2 where s2: "make_attributes has_job_list jb K ?j inh w1 = (r, w2)" by fastforce
  have fields: "err (reset_header j) = 0" "ws_stdio (reset_header j) = ws_stdio j"
    by (simp_all add: reset_header_def)
  show ?thesis
  proof (cases e)
    case (Some x)
    then have "j' = ?j\<lparr>err := x\<rparr>"
      using assms(2) s1 fields by (simp add: win_spawn_job_worker_def)
    then show ?thesis using inherit_stdio_errno [OF s1 [unfolded Some] assms(1)] by (simp add: report_simps)
  next
    case None
    show ?thesis
    proof (cases r)
      case (Inl x)
      then have "j' = ?j\<lparr>err := x\<rparr>"
        using assms(2) s1 s2 None fields by (simp add: win_spawn_job_worker_def Let_def)
      then show ?thesis
        using make_attributes_errno [OF assms(1) s2 [unfolded Inl]] by (simp add: report_simps)
    next
      case (Inr m)
      then have "win_create_process has_job_list jb K ?j m w2 = (j', w')"
        using assms(2) s1 s2 None fields by (simp add: win_spawn_job_worker_def Let_def)
      then show ?thesis
        by (rule win_create_process_reports [OF assms(1), rotated]) (simp add: reset_header_def)
    qed
  qed
qed

interpretation win_spawn_worker:
  worker_contract "win_spawn_job_worker has_job_list jb" "\<lambda>_ _. True" for has_job_list jb
  by unfold_locales (rule win_spawn_job_reports)

section \<open>Sigwait\<close>

text \<open>The values a stretch of the log wrote to a descriptor, as far as the writes succeeded.\<close>

fun notified :: "call \<times> int \<Rightarrow> int list" where
  "notified (Proc (Write_int _ v), r) = (if 0 < r then [v] else [])"
| "notified _ = []"

definition notified_in :: "(call \<times> int) list \<Rightarrow> int list" where
  "notified_in l = concat (map notified l)"

lemma notified_in_simps [simp]:
  "notified_in [] = []" "notified_in (x # l) = notified x @ notified_in l"
  "notified_in (l @ m) = notified_in l @ notified_in m"
  by (simp_all add: notified_in_def)

lemma write_signal_step:
  assumes IH: "\<And>w res. f K send v w = Some res \<Longrightarrow>
      \<exists>l. log (snd res) = log w @ l \<and> notified_in l = (if fst res then [v] else [])"
    and eq: "(let (a, w1) = sys K (Proc (Write_int send v)) w
      in if 0 < a_ret a then Some (True, w1)
         else if errno w1 = EINTR then f K send v w1 else Some (False, w1)) = Some res"
  shows "\<exists>l. log (snd res) = log w @ l \<and> notified_in l = (if fst res then [v] else [])"
proof -
  let ?c = "Proc (Write_int send v)"
  obtain a w1 where s: "sys K ?c w = (a, w1)" by fastforce
  have l1: "log w1 = log w @ [(?c, a_ret a)]" using sys_log [of K ?c w] s by simp
  show ?thesis
  proof (cases "0 < a_ret a \<or> errno w1 \<noteq> EINTR")
    case True
    then show ?thesis using eq s l1 by (intro exI [of _ "[(?c, a_ret a)]"]) (auto split: if_splits)
  next
    case False
    then have "f K send v w1 = Some res" using eq s by auto
    from IH [OF this] obtain l where "log (snd res) = log w1 @ l"
        "notified_in l = (if fst res then [v] else [])" by blast
    then show ?thesis using l1 False by (intro exI [of _ "(?c, a_ret a) # l"]) auto
  qed
qed

lemma write_signal_log:
  assumes "write_signal K send v w = Some res"
  shows "\<exists>l. log (snd res) = log w @ l \<and> notified_in l = (if fst res then [v] else [])"
  by (rule write_signal.raw_induct [where P = "\<lambda>K send v w res. \<exists>l. log (snd res) = log w @ l \<and>
        notified_in l = (if fst res then [v] else [])", OF _ assms])
    (rule write_signal_step)

text \<open>What the event loop reads when a signal was announced: the number less \<open>2 ^ 31\<close>.\<close>

lemma notify_signal_value:
  assumes "0 \<le> sig" "sig < 2 ^ 31"
  shows "notify_signal sig = sig - 2 ^ 31"
proof -
  have b: "bit ((2::int) ^ 31) n \<longleftrightarrow> n = 31" for n
    by (simp only: bit_exp_iff) simp
  have "\<not> bit sig 31" using assms by (simp add: bit_iff_odd)
  then have "sig AND 2 ^ 31 = 0"
    by (intro bit_eqI) (auto simp only: bit_and_iff b bit_0_eq bot_apply bot_bool_def)
  then have o: "sig OR 2 ^ 31 = sig + 2 ^ 31"
    using plus_and_or [of sig "2 ^ 31"] by simp
  have "signed_take_bit 31 (sig + 2 ^ 31) = signed_take_bit 31 (sig - 2 ^ 31)"
    by (rule iffD2 [OF signed_take_bit_eq_iff_take_bit_eq]) (simp add: take_bit_eq_mod mod_eq_dvd_iff)
  also have "\<dots> = sig - 2 ^ 31"
    using assms by (intro signed_take_bit_int_eq_self) auto
  finally show ?thesis by (simp only: notify_signal_def i32_def o)
qed

text \<open>\<open>sigwait\<close> on the set \<open>signals\<close> can answer the signal \<open>sig\<close>.\<close>

definition can_take :: "'k kernel \<Rightarrow> int list \<Rightarrow> int \<Rightarrow> bool" where
  "can_take K signals sig \<longleftrightarrow>
     (\<exists>k. a_ret (fst (K (Proc (Sigwait signals)) k)) \<le> 0 \<and> a_num (fst (K (Proc (Sigwait signals)) k)) = sig)"

text \<open>
  At most one signal is announced: one that \<open>sigwait\<close> took and that is not the cancellation
  signal; none when the job reports an error. A job that neither announces nor fails has taken
  the cancellation signal.
\<close>

definition told :: "platform \<Rightarrow> 'k kernel \<Rightarrow> int list \<Rightarrow> int \<Rightarrow> (call \<times> int) list \<Rightarrow> bool" where
  "told pf K signals e l \<longleftrightarrow>
     notified_in l = [] \<and> (e = 0 \<longrightarrow> can_take K signals (SIGUSR2 pf)) \<or>
     (\<exists>sig. notified_in l = [notify_signal sig] \<and> e = 0 \<and> sig \<noteq> 0 \<and> sig \<noteq> SIGUSR2 pf \<and>
        can_take K signals sig)"

lemma told_append: "notified_in l1 = [] \<Longrightarrow> told pf K signals e (l1 @ l2) = told pf K signals e l2"
  by (simp add: told_def)

definition sigwait_post ::
  "platform \<Rightarrow> 'k kernel \<Rightarrow> int list \<Rightarrow> 'k world \<Rightarrow> int \<times> 'k world \<Rightarrow> bool" where
  "sigwait_post pf K signals w res \<longleftrightarrow>
     (\<exists>l. log (snd res) = log w @ l \<and> told pf K signals (fst res) l) \<and>
     (os_law K \<longrightarrow> 0 \<le> fst res)"

lemma sigwait_loop_step:
  assumes IH: "\<And>w res. f pf K send signals w = Some res \<Longrightarrow> sigwait_post pf K signals w res"
    and eq: "(let (a, w1) = sys K (Proc (Sigwait signals)) (set_errno 0 w); e = a_ret a; sig = a_num a
      in if 0 < e then Some (e, w1)
         else if sig = SIGUSR2 pf then Some (0, w1)
         else if sig = 0
         then (if errno w1 = EINTR \<or> errno w1 = 0 then f pf K send signals w1
               else Some (errno w1, w1))
         else (case write_signal K send (notify_signal sig) w1 of
                 None \<Rightarrow> None
               | Some (written, w2) \<Rightarrow>
                   if written then Some (0, w2) else f pf K send signals w2)) = Some res"
  shows "sigwait_post pf K signals w res"
proof -
  let ?c = "Proc (Sigwait signals)"
  obtain a w1 where s: "sys K ?c (set_errno 0 w) = (a, w1)" by fastforce
  have l1: "log w1 = log w @ [(?c, a_ret a)]" using sys_log [of K ?c "set_errno 0 w"] s by simp
  have nn: "os_law K \<Longrightarrow> 0 \<le> errno w1"
    using os_law_errno_nonneg [of K "set_errno 0 w" ?c] s by simp
  have again: "sigwait_post pf K signals w res"
    if "f pf K send signals w2 = Some res" "log w2 = log w1 @ l2" "notified_in l2 = []" for w2 l2
  proof -
    from IH [OF that(1)] obtain l where "log (snd res) = log w2 @ l"
        "told pf K signals (fst res) l" "os_law K \<longrightarrow> 0 \<le> fst res"
      by (auto simp: sigwait_post_def)
    then show ?thesis
      using l1 that(2,3) told_append [of "(?c, a_ret a) # l2" pf K signals "fst res" l]
      unfolding sigwait_post_def by (intro conjI exI [of _ "(?c, a_ret a) # l2 @ l"]) auto
  qed
  have took: "can_take K signals (a_num a)" if "a_ret a \<le> 0"
    using s that sys_fst [of K ?c "set_errno 0 w"] by (auto simp: can_take_def)
  have stop: "sigwait_post pf K signals w (e, w1)"
    if "os_law K \<Longrightarrow> 0 \<le> e" "e = 0 \<Longrightarrow> can_take K signals (SIGUSR2 pf)" for e
    using l1 that unfolding sigwait_post_def told_def
    by (intro conjI exI [of _ "[(?c, a_ret a)]"]) auto
  show ?thesis
  proof (cases "0 < a_ret a \<or> a_num a = SIGUSR2 pf")
    case True
    then have "res = (if 0 < a_ret a then a_ret a else 0, w1)"
      using eq s by (auto simp: Let_def split: if_splits)
    then show ?thesis using True stop took by auto
  next
    case go: False
    show ?thesis
    proof (cases "a_num a = 0")
      case True
      then have "if errno w1 = EINTR \<or> errno w1 = 0 then f pf K send signals w1 = Some res
          else res = (errno w1, w1)"
        using eq s go by (auto simp: Let_def split: if_splits)
      then show ?thesis using stop nn again [of w1 "[]"] by (auto split: if_splits)
    next
      case False
      obtain written w2 where sent: "write_signal K send (notify_signal (a_num a)) w1 = Some (written, w2)"
        using eq s go False by (auto simp: Let_def split: option.splits)
      obtain l2 where l2: "log w2 = log w1 @ l2"
          "notified_in l2 = (if written then [notify_signal (a_num a)] else [])"
        using write_signal_log [OF sent] by auto
      show ?thesis
      proof (cases written)
        case True
        then have "res = (0, w2)" using eq s go False sent by (simp add: Let_def)
        then show ?thesis
          using True go False l1 l2 took unfolding sigwait_post_def told_def
          by (intro conjI exI [of _ "(?c, a_ret a) # l2"]) auto
      next
        case not_written: False
        then have "f pf K send signals w2 = Some res" using eq s go False sent by (simp add: Let_def)
        then show ?thesis using l2 again not_written by simp
      qed
    qed
  qed
qed

lemma sigwait_loop_post:
  assumes "sigwait_loop pf K send signals w = Some res"
  shows "sigwait_post pf K signals w res"
  by (rule sigwait_loop.raw_induct
      [where P = "\<lambda>pf K send signals w res. sigwait_post pf K signals w res", OF _ assms])
    (rule sigwait_loop_step)

lemma sigwait_job_post:
  assumes "os_law K" "sigwait_job_worker send pf K (reset_header j) w = Some (j', w')"
  shows "well_reported j' \<and> (\<exists>m. calls (since w w') =
      [Proc Sigmask_block_all] @ m @ [Proc Sigmask_restore]) \<and>
    told pf K (sw_signals j) (err j') (since w w')"
proof -
  let ?w1 = "sys_do K (Proc Sigmask_block_all) w"
  obtain e w2 where loop: "sigwait_loop pf K send (sw_signals j) ?w1 = Some (e, w2)"
    using assms(2) by (auto simp: sigwait_job_worker_def reset_header_def split: option.splits)
  obtain l where l: "log w2 = log ?w1 @ l" "0 \<le> e"
      "told pf K (sw_signals j) e l"
    using sigwait_loop_post [OF loop] assms(1) by (auto simp: sigwait_post_def)
  have j': "j' = (if e \<noteq> 0 then (reset_header j)\<lparr>err := e\<rparr> else reset_header j)"
    and w': "w' = sys_do K (Proc Sigmask_restore) w2"
    using assms(2) loop by (auto simp: sigwait_job_worker_def reset_header_def)
  have "since w w' = [(Proc Sigmask_block_all, a_ret (fst (sys K (Proc Sigmask_block_all) w)))] @ l @
      [(Proc Sigmask_restore, a_ret (fst (sys K (Proc Sigmask_restore) w2)))]"
    by (rule sinceI) (simp add: w' l(1) world_simps)
  then show ?thesis
    using l by (auto simp: j' report_simps told_def)
qed

interpretation sigwait_worker: worker_contract "sigwait_job_worker send" "\<lambda>_ _. True" for send
  by unfold_locales (blast dest: sigwait_job_post)

text \<open>
  Signals arrive: a kernel cannot go on answering \<open>sigwait\<close> without a signal, or refusing
  the notification, for ever.
\<close>

definition signals_arrive :: "('k \<Rightarrow> nat) \<Rightarrow> 'k kernel \<Rightarrow> int \<Rightarrow> int list \<Rightarrow> bool" where
  "signals_arrive m K send signals \<longleftrightarrow>
     (\<forall>k. m (snd (K (Proc (Sigwait signals)) k)) \<le> m k \<and>
          (a_num (fst (K (Proc (Sigwait signals)) k)) = 0 \<and> a_ret (fst (K (Proc (Sigwait signals)) k)) \<le> 0 \<longrightarrow>
             m (snd (K (Proc (Sigwait signals)) k)) < m k)) \<and>
     (\<forall>k v. a_ret (fst (K (Proc (Write_int send v)) k)) \<le> 0 \<longrightarrow>
            m (snd (K (Proc (Write_int send v)) k)) < m k)"

lemma write_signal_returns:
  assumes "signals_arrive m K send signals"
  shows "\<exists>b w'. write_signal K send v w = Some (b, w') \<and> (\<not> b \<longrightarrow> m (kst w') < m (kst w))"
proof (induction "m (kst w)" arbitrary: w rule: less_induct)
  case less
  let ?c = "Proc (Write_int send v)"
  obtain a w1 where s: "sys K ?c w = (a, w1)" by fastforce
  have k: "kst w1 = snd (K ?c (kst w))" "a = fst (K ?c (kst w))"
    using sys_kst [of K ?c w] sys_fst [of K ?c w] s by auto
  show ?case
  proof (cases "0 < a_ret a")
    case True
    then show ?thesis using s by (subst write_signal.simps) (auto simp: Let_def)
  next
    case False
    then have m: "m (kst w1) < m (kst w)"
      using assms k by (auto simp: signals_arrive_def)
    show ?thesis
    proof (cases "errno w1 = EINTR")
      case True
      have "write_signal K send v w = write_signal K send v w1"
        using s False True by (subst write_signal.simps) (simp add: Let_def)
      then show ?thesis using less [OF m] m by auto
    next
      case not_intr: False
      then show ?thesis using s False m by (subst write_signal.simps) (auto simp: Let_def)
    qed
  qed
qed

lemma sigwait_loop_returns:
  assumes "signals_arrive m K send signals"
  shows "\<exists>e w'. sigwait_loop pf K send signals w = Some (e, w')"
proof (induction "m (kst w)" arbitrary: w rule: less_induct)
  case less
  let ?c = "Proc (Sigwait signals)"
  obtain a w1 where s: "sys K ?c (set_errno 0 w) = (a, w1)" by fastforce
  have k: "kst w1 = snd (K ?c (kst w))" "a = fst (K ?c (kst w))"
    using sys_kst [of K ?c "set_errno 0 w"] sys_fst [of K ?c "set_errno 0 w"] s by auto
  have le: "m (kst w1) \<le> m (kst w)"
    and lt: "a_num a = 0 \<Longrightarrow> a_ret a \<le> 0 \<Longrightarrow> m (kst w1) < m (kst w)"
    using assms k by (auto simp: signals_arrive_def)
  obtain b w2 where wr: "write_signal K send (notify_signal (a_num a)) w1 = Some (b, w2)"
      "\<not> b \<longrightarrow> m (kst w2) < m (kst w1)"
    using write_signal_returns [OF assms] by blast
  show ?case
    using s wr le lt less [of w1] less [of w2]
    by (subst sigwait_loop.simps) (auto simp: Let_def)
qed

lemma signals_arrive_scripted: "signals_arrive length (lawful scripted) send signals"
  by (auto simp: signals_arrive_def lawful_def scripted_def answer_law_def blank_def split: list.splits)

text \<open>
  What POSIX says of \<open>sigwait\<close>: a signal it answers is of the set it was given (0 is no
  signal).
\<close>

definition takes_from_set :: "'k kernel \<Rightarrow> int list \<Rightarrow> bool" where
  "takes_from_set K signals \<longleftrightarrow> (\<forall>sig. can_take K signals sig \<longrightarrow> sig = 0 \<or> sig \<in> set signals)"

text \<open>A kernel for the witness: it answers as scripted, but only signals of the set.\<close>

definition delivering :: "answer list kernel" where
  "delivering c k =
     (case c of
        Proc (Sigwait signals) \<Rightarrow>
          (let (a, k') = scripted c k in (if a_num a \<in> set signals then a else a\<lparr>a_num := 0\<rparr>, k'))
      | _ \<Rightarrow> scripted c k)"

lemma signals_arrive_delivering: "signals_arrive length (lawful delivering) send signals"
  by (auto simp: signals_arrive_def lawful_def delivering_def scripted_def answer_law_def blank_def
      split: list.splits)

lemmas sigwait_code [code] = write_signal.simps sigwait_loop.simps

lemma answer_law_code [code]:
  "answer_law c a \<longleftrightarrow>
     (case a_err a of
        None \<Rightarrow> \<not> call_fails c (a_ret a)
      | Some e \<Rightarrow> 0 \<le> e \<and> (call_fails c (a_ret a) \<or> cleanup c \<longrightarrow> 0 < e)) \<and>
     (int_sized c \<longrightarrow> - (2 ^ 31) \<le> a_ret a \<and> a_ret a < 2 ^ 31) \<and>
     (counts_bytes c \<longrightarrow> 0 \<le> a_num a \<and> a_num a < 2 ^ 31) \<and>
     (returns_errno c \<longrightarrow> 0 \<le> a_ret a) \<and> pid_law c a"
  unfolding answer_law_def by (cases "a_err a") auto

lemma takes_from_set_delivering:
  assumes "1 \<in> set signals"
  shows "takes_from_set (lawful delivering) signals"
proof -
  have "a_num (fst (delivering (Proc (Sigwait signals)) k)) \<in> insert 0 (set signals)" for k
    by (auto simp: delivering_def split: prod.splits)
  moreover have "a_num (safe_answer c) = 1" for c by (simp add: safe_answer_def)
  ultimately have "a_num (fst (lawful delivering (Proc (Sigwait signals)) k)) \<in> insert 0 (set signals)" for k
    using assms by (simp add: lawful_def split_beta)
  then show ?thesis unfolding takes_from_set_def can_take_def by blast
qed

text \<open>
  Claim C37 (functional). A job that waits for a set of signals, whose numbers are positive C
  integers, on a kernel that answers signals of the set and does not go on for ever answering
  none or refusing the notification, ends; it has blocked all signals first and restored the
  mask of the worker last, on every path. It announces at most one signal to the event loop: a
  signal of the set that it took and that is not the cancellation signal, as its number less
  2^31, so that the cancellation signal is never announced; none when it reports an error; and
  when it neither reports an error nor announces, it took the cancellation signal.
\<close>

theorem sigwait_job_announces:
  assumes "os_law K" "signals_arrive m K send (signals @ [SIGUSR2 pf])"
    and "takes_from_set K (signals @ [SIGUSR2 pf])" "\<forall>sig\<in>set signals. 0 < sig \<and> sig < 2 ^ 31"
  shows "\<exists>j' w' mid. sigwait_job_worker send pf K (reset_header (make_sigwait_job pf signals)) w = Some (j', w') \<and>
    calls (since w w') = [Proc Sigmask_block_all] @ mid @ [Proc Sigmask_restore] \<and>
    (case job_result j' of
       Inl e \<Rightarrow> 0 < e \<and> notified_in (since w w') = []
     | Inr r \<Rightarrow> r = 0 \<and>
         (notified_in (since w w') = [] \<and> can_take K (signals @ [SIGUSR2 pf]) (SIGUSR2 pf) \<or>
          (\<exists>sig\<in>set signals. notified_in (since w w') = [sig - 2 ^ 31] \<and> sig \<noteq> SIGUSR2 pf \<and>
             can_take K (signals @ [SIGUSR2 pf]) sig))) \<and>
    SIGUSR2 pf - 2 ^ 31 \<notin> set (notified_in (since w w'))"
proof -
  let ?j = "make_sigwait_job pf signals"
  have j: "sw_signals ?j = signals @ [SIGUSR2 pf]" by (simp add: make_sigwait_job_def)
  have "\<exists>e w'. sigwait_loop pf K send (sw_signals ?j) (sys_do K (Proc Sigmask_block_all) w) = Some (e, w')"
    unfolding j by (rule sigwait_loop_returns [OF assms(2)])
  then obtain j' w' where run: "sigwait_job_worker send pf K (reset_header ?j) w = Some (j', w')"
      and r: "ret j' = 0"
    by (auto simp: sigwait_job_worker_def reset_header_def)
  obtain mid where rep: "well_reported j'"
      "calls (since w w') = [Proc Sigmask_block_all] @ mid @ [Proc Sigmask_restore]"
    and t: "told pf K (signals @ [SIGUSR2 pf]) (err j') (since w w')"
    using sigwait_job_post [OF assms(1) run] by (auto simp: j)
  have "notified_in (since w w') = [] \<and> (err j' = 0 \<longrightarrow> can_take K (signals @ [SIGUSR2 pf]) (SIGUSR2 pf)) \<or>
      (\<exists>sig\<in>set signals. notified_in (since w w') = [sig - 2 ^ 31] \<and> err j' = 0 \<and> sig \<noteq> SIGUSR2 pf \<and>
        can_take K (signals @ [SIGUSR2 pf]) sig)"
    using t assms(3,4) notify_signal_value unfolding told_def takes_from_set_def
    by (metis Un_iff empty_iff less_imp_le list.set(1,2) insert_iff set_append)
  then show ?thesis
    using run rep r by (auto simp: job_result_def well_reported_def)
qed

theorem sigwait_job_announces_witness:
  "(\<exists>j' w' mid. sigwait_job_worker 8 Linux (lawful delivering) (reset_header (make_sigwait_job Linux [1, 2]))
      (boot [blank, blank, ok 0\<lparr>a_num := 2\<rparr>, ok 4]) = Some (j', w') \<and>
    calls (since (boot [blank, blank, ok 0\<lparr>a_num := 2\<rparr>, ok 4]) w') =
      [Proc Sigmask_block_all] @ mid @ [Proc Sigmask_restore]) \<and>
   map_option (\<lambda>(j, w). (job_result j, notified_in (log w)))
     (sigwait_job_worker 8 Linux (lawful delivering) (reset_header (make_sigwait_job Linux [1, 2]))
       (boot [blank, blank, ok 0\<lparr>a_num := 2\<rparr>, ok 4])) = Some (Inr 0, [2 - 2 ^ 31])"
proof (rule conjI)
  have l: "\<forall>sig\<in>set [1, 2 :: int]. 0 < sig \<and> sig < 2 ^ 31" by simp
  show "\<exists>j' w' mid. sigwait_job_worker 8 Linux (lawful delivering) (reset_header (make_sigwait_job Linux [1, 2]))
      (boot [blank, blank, ok 0\<lparr>a_num := 2\<rparr>, ok 4]) = Some (j', w') \<and>
    calls (since (boot [blank, blank, ok 0\<lparr>a_num := 2\<rparr>, ok 4]) w') =
      [Proc Sigmask_block_all] @ mid @ [Proc Sigmask_restore]"
    using sigwait_job_announces [OF os_law_lawful signals_arrive_delivering takes_from_set_delivering l,
        where send = 8 and pf = Linux and w = "boot [blank, blank, ok 0\<lparr>a_num := 2\<rparr>, ok 4]"]
    by auto
qed code_simp

section \<open>Windows spawn: what the child gets\<close>

text \<open>Calls that start a child; a stretch of the log that starts none.\<close>

fun starts_child :: "call \<Rightarrow> bool" where
  "starts_child (WProc (W_CreateProcessW _ _ _ _)) = True"
| "starts_child _ = False"

definition no_child :: "(call \<times> int) list \<Rightarrow> bool" where
  "no_child l \<longleftrightarrow> (\<forall>c\<in>set (calls l). \<not> starts_child c)"

lemma no_child_simps [simp]:
  "no_child []" "no_child ((c, r) # l) \<longleftrightarrow> \<not> starts_child c \<and> no_child l"
  "no_child (l @ m) \<longleftrightarrow> no_child l \<and> no_child m"
  by (auto simp: no_child_def)

text \<open>
  Where the streams come from: a stream that was given is used, one that was not is what the
  system answered for the standard handle of that number.
\<close>

definition stream_of :: "(call \<times> int) list \<Rightarrow> int \<Rightarrow> int \<Rightarrow> int \<Rightarrow> bool" where
  "stream_of l v h r \<longleftrightarrow>
     (if h = INVALID_HANDLE_VALUE then (WProc (W_GetStdHandle v), r) \<in> set l else r = h)"

lemma stream_of_mono: "stream_of l v h r \<Longrightarrow> set l \<subseteq> set m \<Longrightarrow> stream_of m v h r"
  by (auto simp: stream_of_def split: if_splits)

fun streams_of :: "(call \<times> int) list \<Rightarrow> int list \<Rightarrow> int list \<Rightarrow> int list \<Rightarrow> bool" where
  "streams_of l (v # vs) (h # hs) (r # rs) \<longleftrightarrow> stream_of l v h r \<and> streams_of l vs hs rs"
| "streams_of l [] [] [] = True"
| "streams_of l _ _ _ = False"

lemma streams_of_mono: "streams_of l vs hs rs \<Longrightarrow> set l \<subseteq> set m \<Longrightarrow> streams_of m vs hs rs"
  by (induction l vs hs rs rule: streams_of.induct) (auto intro: stream_of_mono)

lemma inherit_stdio_log:
  "\<exists>l. log (snd (snd (snd (inherit_stdio K vs hs done_hs inh w)))) = log w @ l \<and>
    heap_got_in l = [] \<and> heap_freed_in l = [] \<and> no_child l \<and>
    (fst (inherit_stdio K vs hs done_hs inh w) = None \<and> length vs = length hs \<longrightarrow>
       (\<exists>rs. fst (snd (inherit_stdio K vs hs done_hs inh w)) = done_hs @ rs \<and> streams_of l vs hs rs))"
proof (induction K vs hs done_hs inh w rule: inherit_stdio.induct)
  case (1 K v vs h hs done_hs inh w)
  obtain r w1 where s: "(if h = INVALID_HANDLE_VALUE
      then let (a, w) = sys K (WProc (W_GetStdHandle v)) w in (a_ret a, w) else (h, w)) = (r, w1)"
    by fastforce
  obtain l1 where l1: "log w1 = log w @ l1" "heap_got_in l1 = []" "heap_freed_in l1 = []"
      "no_child l1" "stream_of l1 v h r"
  proof (cases "h = INVALID_HANDLE_VALUE")
    case True
    then show ?thesis
      using s that [of "[(WProc (W_GetStdHandle v), r)]"] sys_log [of K "WProc (W_GetStdHandle v)" w]
      by (auto simp: split_beta Let_def stream_of_def)
  next
    case False
    then show ?thesis using s that [of "[]"] by (simp add: stream_of_def)
  qed
  obtain b w2 where s2: "sys K (WProc (W_SetHandleInformation r)) w1 = (b, w2)" by fastforce
  have l2: "log w2 = log w1 @ [(WProc (W_SetHandleInformation r), a_ret b)]"
    using sys_log [of K "WProc (W_SetHandleInformation r)" w1] s2 by simp
  consider "r = INVALID_HANDLE_VALUE" | "r \<noteq> INVALID_HANDLE_VALUE" "r \<in> set inh"
    | "r \<noteq> INVALID_HANDLE_VALUE" "r \<notin> set inh" "a_ret b = 0"
    | "r \<noteq> INVALID_HANDLE_VALUE" "r \<notin> set inh" "a_ret b \<noteq> 0"
    by blast
  then show ?case
  proof cases
    case 2
    from "1.IH"(1) [OF s [symmetric] refl 2] obtain l where
      "log (snd (snd (snd (inherit_stdio K vs hs (done_hs @ [r]) inh w1)))) = log w1 @ l"
      "heap_got_in l = []" "heap_freed_in l = []" "no_child l"
      "fst (inherit_stdio K vs hs (done_hs @ [r]) inh w1) = None \<and> length vs = length hs \<longrightarrow>
         (\<exists>rs. fst (snd (inherit_stdio K vs hs (done_hs @ [r]) inh w1)) = (done_hs @ [r]) @ rs \<and>
           streams_of l vs hs rs)"
      by blast
    moreover have "stream_of (l1 @ l) v h r" using l1(5) by (rule stream_of_mono) auto
    moreover have "streams_of (l1 @ l) vs hs rs" if "streams_of l vs hs rs" for rs
      using that by (rule streams_of_mono) auto
    ultimately show ?thesis using 2 s l1
      by (intro exI [of _ "l1 @ l"]) (auto intro: exI [of _ "r # rs" for rs])
  next
    case 4
    from "1.IH"(2) [OF s [symmetric] refl 4(1,2) s2 [symmetric] refl 4(3)] obtain l where
      "log (snd (snd (snd (inherit_stdio K vs hs (done_hs @ [r]) (inh @ [r]) w2)))) = log w2 @ l"
      "heap_got_in l = []" "heap_freed_in l = []" "no_child l"
      "fst (inherit_stdio K vs hs (done_hs @ [r]) (inh @ [r]) w2) = None \<and> length vs = length hs \<longrightarrow>
         (\<exists>rs. fst (snd (inherit_stdio K vs hs (done_hs @ [r]) (inh @ [r]) w2)) = (done_hs @ [r]) @ rs \<and>
           streams_of l vs hs rs)"
      by blast
    moreover let ?l = "l1 @ [(WProc (W_SetHandleInformation r), a_ret b)] @ l"
    have "stream_of ?l v h r" using l1(5) by (rule stream_of_mono) auto
    moreover have "streams_of ?l vs hs rs" if "streams_of l vs hs rs" for rs
      using that by (rule streams_of_mono) auto
    ultimately show ?thesis
      using 4 s s2 l1 l2
      by (intro exI [of _ ?l]) (auto intro: exI [of _ "r # rs" for rs])
  qed (use s s2 l1 l2 in \<open>auto intro: exI [of _ l1]
      exI [of _ "l1 @ [(WProc (W_SetHandleInformation r), a_ret b)]"]\<close>)
qed (auto intro!: exI [of _ "[]"])

lemma make_attributes_log:
  assumes "make_attributes has_job_list jb K j inh w = (r, w')"
  shows "\<exists>l. log w' = log w @ l \<and>
    no_child l \<and>
    (case r of Inl _ \<Rightarrow> heap_freed_in l = heap_got_in l
     | Inr m \<Rightarrow> heap_got_in l = [block m] \<and> heap_freed_in l = [] \<and>
         WProc (W_UpdateAttributeHandleList inh) \<in> set (calls l) \<and>
         (has_job_list \<and> \<not> ws_is_orphan j \<longrightarrow> WProc (W_UpdateAttributeJobList jb) \<in> set (calls l)))"
  using assms
  by (auto simp: make_attributes_def drop_attributes_def world_simps split_beta Let_def block_def
      split: if_splits)

text \<open>
  The flags in numbers: a process group of its own, a Unicode environment and the extended
  start-up information; no console window where asked; suspended where the child has to be put
  into the job object by hand.
\<close>

definition joined_by_hand :: "bool \<Rightarrow> int \<Rightarrow> win_spawn_job \<Rightarrow> bool" where
  "joined_by_hand has_job_list jb j \<longleftrightarrow>
     \<not> has_job_list \<and> \<not> ws_is_orphan j \<and> jb \<noteq> INVALID_HANDLE_VALUE"

lemma create_flags_value:
  "create_flags has_job_list jb j =
     0x80600 + (if ws_no_console j then 0x8000000 else 0) +
     (if joined_by_hand has_job_list jb j then 4 else 0)"
  by (simp add: create_flags_def joined_by_hand_def create_flag_defs)

lemma create_flags_suspended:
  "create_flags has_job_list jb j AND CREATE_SUSPENDED \<noteq> 0 \<longleftrightarrow> joined_by_hand has_job_list jb j"
  by (simp add: create_flags_def joined_by_hand_def create_flag_defs)

text \<open>
  The log of the creation: the one call that starts a child; the attribute list dropped; then,
  for a child that joins the job object by hand, the assignment of the process, whose failure
  ends it, and only then its main thread is resumed.
\<close>

definition creation_log ::
  "bool \<Rightarrow> int \<Rightarrow> win_spawn_job \<Rightarrow> answer \<Rightarrow> int \<Rightarrow> int \<Rightarrow> int \<Rightarrow> int \<Rightarrow> call list" where
  "creation_log has_job_list jb j m created e process thread =
     [WProc (W_CreateProcessW (ws_command_line j) (ws_environment j) (create_flags has_job_list jb j)
        (ws_stdio j))] @
     (if block m = 0 then [] else [WProc W_DeleteProcThreadAttributeList, Rt (Free (block m))]) @
     (if created = 0 then []
      else if joined_by_hand has_job_list jb j
      then WProc (W_AssignProcessToJobObject jb process) #
           (if e = 0 then [WProc W_ResumeThread, WFile (W_CloseHandle thread)]
            else [WProc (W_TerminateProcess process)])
      else [WFile (W_CloseHandle thread)])"

lemma creation_log_header:
  "creation_log has_job_list jb ((reset_header j)\<lparr>ws_stdio := hs\<rparr>) =
   creation_log has_job_list jb (j\<lparr>ws_stdio := hs\<rparr>)"
  by (simp add: creation_log_def reset_header_def create_flags_def joined_by_hand_def fun_eq_iff)

lemma creation_log_parts:
  assumes "created \<noteq> 0"
  shows "WProc (W_CreateProcessW (ws_command_line j) (ws_environment j) (create_flags has_job_list jb j)
      (ws_stdio j)) \<in> set (creation_log has_job_list jb j m created 0 process thread)"
    and "joined_by_hand has_job_list jb j \<longrightarrow>
      (\<exists>pre. creation_log has_job_list jb j m created 0 process thread = pre @
        [WProc (W_AssignProcessToJobObject jb process), WProc W_ResumeThread, WFile (W_CloseHandle thread)])"
  using assms by (auto simp: creation_log_def)

lemma win_create_process_log:
  assumes "os_law K" "win_create_process has_job_list jb K j m w = (j', w')" "err j = 0"
  shows "\<exists>l created process thread. log w' = log w @ l \<and> heap_got_in l = [] \<and>
    heap_freed_in l = (if block m \<noteq> 0 then [block m] else []) \<and>
    calls l = creation_log has_job_list jb j m created (err j') process thread \<and>
    snd (hd l) = created \<and> (err j' = 0 \<longrightarrow> created \<noteq> 0 \<and> ws_result j' = process)"
proof -
  let ?c = "WProc (W_CreateProcessW (ws_command_line j) (ws_environment j) (create_flags has_job_list jb j)
      (ws_stdio j))"
  obtain p w1 where s1: "sys K ?c w = (p, w1)" by fastforce
  have l1: "log w1 = log w @ [(?c, a_ret p)]" using sys_log [of K ?c w] s1 by simp
  obtain w2 where w2: "(if 0 < block m then drop_attributes K m w1 else w1) = w2" by blast
  obtain l2 where l2: "log w2 = log w1 @ l2" "heap_got_in l2 = []"
      "heap_freed_in l2 = (if block m \<noteq> 0 then [block m] else [])"
      "calls l2 = (if block m = 0 then [] else [WProc W_DeleteProcThreadAttributeList, Rt (Free (block m))])"
    by (cases "block m = 0") (auto simp: w2 [symmetric] drop_attributes_def world_simps)
  have e1: "0 < errno w2" if "a_ret p = 0"
    using assms(1) s1 that os_law_errno [OF assms(1), of ?c w]
    by (auto simp: w2 [symmetric] drop_attributes_def law_simps)
  show ?thesis
  proof (cases "a_ret p = 0")
    case True
    then have "j' = j\<lparr>err := errno w2\<rparr>" "w' = w2"
      using assms(2) s1 by (auto simp: win_create_process_def w2 Let_def)
    then show ?thesis
      using True e1 l1 l2
      by (intro exI [of _ "(?c, a_ret p) # l2"] exI [of _ 0]) (auto simp: creation_log_def)
  next
    case created: False
    let ?a = "WProc (W_AssignProcessToJobObject jb (pi_process p))"
    obtain b w3 where s3: "sys K ?a w2 = (b, w3)" by fastforce
    have l3: "log w3 = log w2 @ [(?a, a_ret b)]" using sys_log [of K ?a w2] s3 by simp
    have e3: "0 < errno w3" if "a_ret b = 0"
      using s3 that os_law_errno [OF assms(1), of ?a w2] by simp
    have run: "(j', w') = (if joined_by_hand has_job_list jb j then
        if a_ret b = 0 then (j\<lparr>err := errno w3\<rparr>, sys_do K (WProc (W_TerminateProcess (pi_process p))) w3)
        else (j\<lparr>ws_result := pi_process p, ret := i32 (pi_pid p)\<rparr>,
          sys_do K (WFile (W_CloseHandle (pi_thread p))) (sys_do K (WProc W_ResumeThread) w3))
      else (j\<lparr>ws_result := pi_process p, ret := i32 (pi_pid p)\<rparr>,
          sys_do K (WFile (W_CloseHandle (pi_thread p))) w2))"
      using assms(2) s1 s3 created w2
      by (auto simp: win_create_process_def Let_def create_flags_suspended)
    have "\<exists>l3. log w' = log w2 @ l3 \<and> heap_got_in l3 = [] \<and> heap_freed_in l3 = [] \<and>
        calls l3 = (if joined_by_hand has_job_list jb j
          then ?a # (if err j' = 0 then [WProc W_ResumeThread, WFile (W_CloseHandle (pi_thread p))]
            else [WProc (W_TerminateProcess (pi_process p))])
          else [WFile (W_CloseHandle (pi_thread p))]) \<and>
        (err j' = 0 \<longrightarrow> ws_result j' = pi_process p)"
      using run e3 l3 assms(3) by (auto simp: world_simps split: if_splits)
    then obtain l3 where "log w' = log w2 @ l3" "heap_got_in l3 = []" "heap_freed_in l3 = []"
        "calls l3 = (if joined_by_hand has_job_list jb j
          then ?a # (if err j' = 0 then [WProc W_ResumeThread, WFile (W_CloseHandle (pi_thread p))]
            else [WProc (W_TerminateProcess (pi_process p))])
          else [WFile (W_CloseHandle (pi_thread p))])"
        "err j' = 0 \<longrightarrow> ws_result j' = pi_process p"
      by blast
    then show ?thesis
      using created l1 l2
      by (intro exI [of _ "(?c, a_ret p) # l2 @ l3"] exI [of _ "a_ret p"] exI [of _ "pi_process p"]
          exI [of _ "pi_thread p"]) (simp add: creation_log_def)
  qed
qed



end
