(* ===== verification/Worker_Pool.thy ===== *)
theory Worker_Pool
  imports Job_Core
begin

text \<open>
  The thread pool: the worker loop and the functions that start, wake, idle and free a
  worker (\<open>thread_pool.c\<close>), driven by the event loop as \<open>event_loop.mbt\<close> does
  (\<open>perform_job_in_worker\<close>, \<open>handle_completed_job\<close>, the freeing of idle workers in
  \<open>cleanup\<close>). The main thread and the workers interleave: a worker step is one of the
  stages of its loop, a wake-up is one store or one system call. Executing the worker
  function of a job is one step; what it does is the subject of the job theories.
\<close>

section \<open>State\<close>

text \<open>How a platform wakes a worker: an auto-reset event, a blocked signal, a condition variable.\<close>

datatype wakeup = By_event | By_signal | By_cond_var

definition wakeup_of :: "platform \<Rightarrow> wakeup" where
  "wakeup_of pf = (if pf = Windows then By_event else if pf = MacOS then By_cond_var else By_signal)"

text \<open>
  The stages of \<open>worker_loop\<close>: before \<open>job->worker(job)\<close>; after it; after
  \<open>waiting = 1\<close>; after the notification, in the wait; returned.
\<close>

datatype pc = Running | Ran | Flagged | Waiting | Exited

text \<open>
  A worker: its local \<open>job_id\<close> and \<open>job\<close>, the fields it shares with the main thread, and
  whether its event is set or its wake-up signal pending (not used by the condition variable).
\<close>

record 'j thread =
  pc :: pc
  cur_id :: nat
  cur_job :: "'j option"
  sh_id :: nat
  sh_job :: "'j option"
  waiting :: bool
  token :: bool

text \<open>
  Where the main thread is: in its own code, before one of the stores of \<open>wake_worker\<close>
  (job number, job, flag, signal), or in the join of \<open>free_worker\<close>.
\<close>

datatype 'j main =
    M_idle
  | Wake_id nat nat "'j option"
  | Wake_job nat "'j option"
  | Wake_flag nat
  | Wake_signal nat
  | Joining nat

text \<open>
  The pool. \<open>running\<close>, \<open>idle\<close> and \<open>jobq\<close> are the containers of the event loop, \<open>pipe\<close>
  the notifications under way. \<open>freeing\<close> says that the wake-up in progress is that of
  \<open>free_worker\<close>. The last three fields are history: jobs submitted, jobs executed by a
  worker, job numbers whose completion the event loop has handled.
\<close>

record 'j pool =
  threads :: "'j thread list"
  running :: "nat \<Rightarrow> nat option"
  idle :: "nat list"
  jobq :: "(nat \<times> 'j) list"
  next_id :: nat
  pipe :: "nat list"
  main :: "'j main"
  freeing :: bool
  submitted :: "(nat \<times> 'j) list"
  executed :: "(nat \<times> 'j) list"
  completed :: "nat list"

definition empty_pool :: "'j pool" where
  "empty_pool = \<lparr>threads = [], running = (\<lambda>_. None), idle = [], jobq = [], next_id = 0, pipe = [],
     main = M_idle, freeing = False, submitted = [], executed = [], completed = []\<rparr>"

section \<open>Operations\<close>

definition set_thread :: "nat \<Rightarrow> 'j thread \<Rightarrow> 'j pool \<Rightarrow> 'j pool" where
  "set_thread w t s = s\<lparr>threads := (threads s)[w := t]\<rparr>"

definition woken :: "wakeup \<Rightarrow> 'j thread \<Rightarrow> bool" where
  "woken m t = (case m of By_cond_var \<Rightarrow> \<not> waiting t | _ \<Rightarrow> token t)"

text \<open>
  One stage of \<open>worker_loop\<close> in worker \<open>w\<close>; \<open>None\<close> when it is blocked or has returned. The
  notification arrives: its \<open>write\<close> is tried again after a signal and blocks while the pipe is
  full, and a pipe that is broken for good, on which the code gives up without a word, is
  outside this model.
\<close>

definition worker_step :: "wakeup \<Rightarrow> nat \<Rightarrow> 'j pool \<Rightarrow> 'j pool option" where
  "worker_step m w s =
     (if w < length (threads s) then
        let t = threads s ! w in
        (case pc t of
           Running \<Rightarrow>
             (case cur_job t of
                None \<Rightarrow> None
              | Some j \<Rightarrow> Some ((set_thread w (t\<lparr>pc := Ran\<rparr>) s)\<lparr>executed := executed s @ [(cur_id t, j)]\<rparr>))
         | Ran \<Rightarrow> Some (set_thread w (t\<lparr>pc := Flagged, waiting := True\<rparr>) s)
         | Flagged \<Rightarrow> Some ((set_thread w (t\<lparr>pc := Waiting\<rparr>) s)\<lparr>pipe := pipe s @ [cur_id t]\<rparr>)
         | Waiting \<Rightarrow>
             if woken m t
             then Some (set_thread w (t\<lparr>pc := (case sh_job t of None \<Rightarrow> Exited | Some _ \<Rightarrow> Running),
                          cur_id := sh_id t, cur_job := sh_job t, token := False\<rparr>) s)
             else None
         | Exited \<Rightarrow> None)
      else None)"

text \<open>
  \<open>wake_worker\<close>, one store at a time. With the condition variable the flag is cleared and
  the worker signalled under the mutex, in one step. After the wake-up of \<open>free_worker\<close>
  the main thread joins the worker.
\<close>

definition after_wake :: "nat \<Rightarrow> 'j pool \<Rightarrow> 'j pool" where
  "after_wake w s = s\<lparr>main := (if freeing s then Joining w else M_idle), freeing := False\<rparr>"

definition main_step :: "wakeup \<Rightarrow> 'j pool \<Rightarrow> 'j pool option" where
  "main_step m s =
     (case main s of
        M_idle \<Rightarrow> None
      | Wake_id w i j \<Rightarrow>
          Some ((set_thread w ((threads s ! w)\<lparr>sh_id := i\<rparr>) s)\<lparr>main := Wake_job w j\<rparr>)
      | Wake_job w j \<Rightarrow>
          Some ((set_thread w ((threads s ! w)\<lparr>sh_job := j\<rparr>) s)\<lparr>main := Wake_flag w\<rparr>)
      | Wake_flag w \<Rightarrow>
          let s' = set_thread w ((threads s ! w)\<lparr>waiting := False\<rparr>) s
          in Some (if m = By_cond_var then after_wake w s' else s'\<lparr>main := Wake_signal w\<rparr>)
      | Wake_signal w \<Rightarrow>
          Some (after_wake w (set_thread w ((threads s ! w)\<lparr>token := True\<rparr>) s))
      | Joining w \<Rightarrow> if pc (threads s ! w) = Exited then Some (s\<lparr>main := M_idle\<rparr>) else None)"

text \<open>\<open>moonbitlang_async_spawn_worker\<close>: a new thread that starts with the given job.\<close>

definition spawn_worker :: "nat \<Rightarrow> 'j \<Rightarrow> 'j pool \<Rightarrow> 'j pool" where
  "spawn_worker i j s =
     s\<lparr>threads := threads s @ [\<lparr>pc = Running, cur_id = i, cur_job = Some j, sh_id = i,
        sh_job = Some j, waiting = False, token = False\<rparr>]\<rparr>"

definition wake_worker :: "nat \<Rightarrow> nat \<Rightarrow> 'j option \<Rightarrow> 'j pool \<Rightarrow> 'j pool" where
  "wake_worker w i j s = s\<lparr>main := Wake_id w i j\<rparr>"

definition worker_enter_idle :: "nat \<Rightarrow> 'j pool \<Rightarrow> 'j pool" where
  "worker_enter_idle w s = set_thread w ((threads s ! w)\<lparr>sh_job := None\<rparr>) s"

text \<open>The size of the map of running workers; job numbers are below \<open>next_id\<close>.\<close>

definition running_count :: "'j pool \<Rightarrow> nat" where
  "running_count s = length (filter (\<lambda>i. running s i \<noteq> None) [0..<next_id s])"

text \<open>\<open>perform_job_in_worker\<close>, up to the wait. Job numbers stay below the signal bit.\<close>

definition submit :: "nat \<Rightarrow> 'j \<Rightarrow> 'j pool \<Rightarrow> 'j pool option" where
  "submit max_worker_count j s =
     (if main s = M_idle \<and> next_id s < 2 ^ 31 then
        let i = next_id s;
            n = running_count s;
            s = s\<lparr>next_id := Suc i, submitted := submitted s @ [(i, j)]\<rparr>
        in case idle s of
             [] \<Rightarrow>
               if max_worker_count \<le> n then Some (s\<lparr>jobq := jobq s @ [(i, j)]\<rparr>)
               else Some (spawn_worker i j (s\<lparr>running := (running s)(i \<mapsto> length (threads s))\<rparr>))
           | w # ws \<Rightarrow>
               Some (wake_worker w i (Some j) (s\<lparr>idle := ws, running := (running s)(i \<mapsto> w)\<rparr>))
      else None)"

text \<open>
  \<open>handle_completed_job\<close> for the next notification of a job, as far as it concerns the pool; the
  guard fails as \<open>None\<close>. The test for a signal before it and the wake-up of the waiting
  coroutine after it are in \<open>handle_completion\<close> of \<open>Event_Loop\<close>, which calls it.
\<close>

definition handle_completed_job :: "'j pool \<Rightarrow> 'j pool option" where
  "handle_completed_job s =
     (if main s = M_idle then
        (case pipe s of
           [] \<Rightarrow> None
         | i # rest \<Rightarrow>
             (case running s i of
                None \<Rightarrow> None
              | Some w \<Rightarrow>
                  let s = s\<lparr>pipe := rest, running := (running s)(i := None),
                            completed := completed s @ [i]\<rparr>
                  in case jobq s of
                       [] \<Rightarrow> Some (worker_enter_idle w (s\<lparr>idle := idle s @ [w]\<rparr>))
                     | (i', j') # q \<Rightarrow>
                         Some (wake_worker w i' (Some j')
                           (s\<lparr>jobq := q, running := (running s)(i' \<mapsto> w)\<rparr>))))
      else None)"

text \<open>\<open>free_worker\<close> on the next idle worker, up to the join.\<close>

definition free_idle_worker :: "'j pool \<Rightarrow> 'j pool option" where
  "free_idle_worker s =
     (if main s = M_idle then
        (case idle s of
           [] \<Rightarrow> None
         | w # ws \<Rightarrow> Some (wake_worker w 0 None (s\<lparr>idle := ws, freeing := True\<rparr>)))
      else None)"

text \<open>
  \<open>cancel_worker\<close>: 1 for a worker that has finished, the handler of the job if it has one
  (its status is \<open>handler j\<close>), and the default: on Windows \<open>CancelSynchronousIo\<close>, with its
  outcome and last error, elsewhere a signal. \<open>None\<close> is the use of a null job.
\<close>

fun status_code :: "cancellation_status \<Rightarrow> int" where
  "status_code RETRY_LATER = 0"
| "status_code NEED_WAIT = 1"
| "status_code CANCEL_FAILED = -1"

definition cancel_worker ::
  "platform \<Rightarrow> ('j \<Rightarrow> cancellation_status option) \<Rightarrow> bool \<times> int \<Rightarrow> 'j thread \<Rightarrow> cancellation_status option" where
  "cancel_worker pf handler cancel_io t =
     (if waiting t then Some NEED_WAIT
      else case sh_job t of
             None \<Rightarrow> None
           | Some j \<Rightarrow>
               (case handler j of
                  Some st \<Rightarrow> Some st
                | None \<Rightarrow>
                    if pf = Windows
                    then Some (if fst cancel_io then NEED_WAIT
                               else if snd cancel_io = ERROR_NOT_FOUND then RETRY_LATER
                               else CANCEL_FAILED)
                    else Some RETRY_LATER))"

section \<open>Steps\<close>

text \<open>Steps that finish work already submitted, and steps that bring or end work.\<close>

inductive progress :: "wakeup \<Rightarrow> 'j pool \<Rightarrow> 'j pool \<Rightarrow> bool" for m where
  worker: "worker_step m w s = Some s' \<Longrightarrow> progress m s s'"
| main: "main_step m s = Some s' \<Longrightarrow> progress m s s'"
| handle: "handle_completed_job s = Some s' \<Longrightarrow> progress m s s'"

inductive step :: "wakeup \<Rightarrow> nat \<Rightarrow> 'j pool \<Rightarrow> 'j pool \<Rightarrow> bool" for m max_worker_count where
  progress: "progress m s s' \<Longrightarrow> step m max_worker_count s s'"
| submit: "submit max_worker_count j s = Some s' \<Longrightarrow> step m max_worker_count s s'"
| free: "free_idle_worker s = Some s' \<Longrightarrow> step m max_worker_count s s'"

inductive reachable :: "wakeup \<Rightarrow> nat \<Rightarrow> 'j pool \<Rightarrow> bool" for m max_worker_count where
  start: "reachable m max_worker_count empty_pool"
| more: "reachable m max_worker_count s \<Longrightarrow> step m max_worker_count s s' \<Longrightarrow>
    reachable m max_worker_count s'"

inductive_cases stepE: "step m n s s'"
inductive_cases progressE: "progress m s s'"

end
