(* ===== verification/Pool_Invariant.thy ===== *)
theory Pool_Invariant
  imports Worker_Pool
begin

text \<open>
  The invariant of the thread pool and what follows from it: every worker is idle, has one
  job, or is being freed; its stage, its shared fields and the notification pipe agree.
\<close>

section \<open>The invariant\<close>

fun main_target :: "'j main \<Rightarrow> nat option" where
  "main_target M_idle = None"
| "main_target (Wake_id w _ _) = Some w"
| "main_target (Wake_job w _) = Some w"
| "main_target (Wake_flag w) = Some w"
| "main_target (Wake_signal w) = Some w"
| "main_target (Joining w) = Some w"

definition view :: "'j pool \<Rightarrow> nat \<Rightarrow> 'j main" where
  "view s w = (if main_target (main s) = Some w then main s else M_idle)"

definition asleep :: "'j thread \<Rightarrow> bool" where
  "asleep t \<longleftrightarrow> pc t = Waiting \<and> waiting t \<and> \<not> token t"

definition alerted :: "wakeup \<Rightarrow> 'j thread \<Rightarrow> bool" where
  "alerted m t \<longleftrightarrow> pc t = Waiting \<and> \<not> waiting t \<and> token t = (m \<noteq> By_cond_var)"

text \<open>The stages of a worker that has job \<open>(i, j)\<close>: \<open>e\<close> is "executed", \<open>p\<close> "notified".\<close>

definition before_run :: "wakeup \<Rightarrow> 'j thread \<Rightarrow> 'j main \<Rightarrow> nat \<Rightarrow> 'j \<Rightarrow> bool" where
  "before_run m t v i j \<longleftrightarrow>
     (case v of
        M_idle \<Rightarrow>
          (pc t = Running \<and> cur_id t = i \<and> cur_job t = Some j \<and> sh_job t = Some j \<and>
             \<not> waiting t \<and> \<not> token t) \<or>
          (alerted m t \<and> sh_id t = i \<and> sh_job t = Some j)
      | Wake_id _ k x \<Rightarrow> asleep t \<and> k = i \<and> x = Some j
      | Wake_job _ x \<Rightarrow> asleep t \<and> sh_id t = i \<and> x = Some j
      | Wake_flag _ \<Rightarrow> asleep t \<and> sh_id t = i \<and> sh_job t = Some j
      | Wake_signal _ \<Rightarrow> m \<noteq> By_cond_var \<and> pc t = Waiting \<and> \<not> waiting t \<and> \<not> token t \<and>
          sh_id t = i \<and> sh_job t = Some j
      | Joining _ \<Rightarrow> False)"

definition after_run :: "'j thread \<Rightarrow> 'j main \<Rightarrow> nat \<Rightarrow> 'j \<Rightarrow> bool \<Rightarrow> bool" where
  "after_run t v i j p \<longleftrightarrow> v = M_idle \<and>
     (if p then asleep t
      else cur_id t = i \<and> sh_job t = Some j \<and> \<not> token t \<and>
           ((pc t = Ran \<and> \<not> waiting t) \<or> (pc t = Flagged \<and> waiting t)))"

definition job_phase ::
  "wakeup \<Rightarrow> 'j thread \<Rightarrow> 'j main \<Rightarrow> nat \<Rightarrow> 'j \<Rightarrow> bool \<Rightarrow> bool \<Rightarrow> bool" where
  "job_phase m t v i j p e \<longleftrightarrow>
     (if e then after_run t v i j p else before_run m t v i j \<and> \<not> p)"

text \<open>The stages of a worker that is being freed, or has been.\<close>

definition freed_phase :: "wakeup \<Rightarrow> 'j thread \<Rightarrow> 'j main \<Rightarrow> bool" where
  "freed_phase m t v \<longleftrightarrow>
     (case v of
        M_idle \<Rightarrow> pc t = Exited
      | Wake_id _ _ x \<Rightarrow> asleep t \<and> x = None
      | Wake_job _ x \<Rightarrow> asleep t \<and> x = None
      | Wake_flag _ \<Rightarrow> asleep t \<and> sh_job t = None
      | Wake_signal _ \<Rightarrow> m \<noteq> By_cond_var \<and> pc t = Waiting \<and> \<not> waiting t \<and> \<not> token t \<and> sh_job t = None
      | Joining _ \<Rightarrow> pc t = Exited \<or> (alerted m t \<and> sh_job t = None))"

fun is_wake :: "'j main \<Rightarrow> bool" where
  "is_wake M_idle = False"
| "is_wake (Joining _) = False"
| "is_wake _ = True"

definition ids :: "(nat \<times> 'j) list \<Rightarrow> nat set" where
  "ids l = fst ` set l"

lemma ids_simps [simp]: "ids [] = {}" "ids (x # l) = insert (fst x) (ids l)" "ids (l @ k) = ids l \<union> ids k"
  by (auto simp: ids_def)

lemma ids_I: "(i, j) \<in> set l \<Longrightarrow> i \<in> ids l"
  by (force simp: ids_def)

definition worker_ok :: "wakeup \<Rightarrow> 'j pool \<Rightarrow> nat \<Rightarrow> bool" where
  "worker_ok m s w \<longleftrightarrow>
     (\<forall>i. running s i = Some w \<longrightarrow>
        (\<exists>j. (i, j) \<in> set (submitted s) \<and>
           job_phase m (threads s ! w) (view s w) i j (i \<in> set (pipe s)) (i \<in> ids (executed s))) \<and>
        (is_wake (view s w) \<longrightarrow> \<not> freeing s)) \<and>
     (w \<in> set (idle s) \<longrightarrow> view s w = M_idle \<and> asleep (threads s ! w)) \<and>
     (w \<notin> set (idle s) \<and> (\<forall>i. running s i \<noteq> Some w) \<longrightarrow>
        freed_phase m (threads s ! w) (view s w) \<and> (is_wake (view s w) \<longrightarrow> freeing s))"

definition lists_ok :: "'j pool \<Rightarrow> bool" where
  "lists_ok s \<longleftrightarrow>
     distinct (idle s) \<and> (\<forall>w \<in> set (idle s). w < length (threads s)) \<and>
     distinct (pipe s) \<and> (\<forall>i \<in> set (pipe s). running s i \<noteq> None) \<and>
     (\<forall>w. main_target (main s) = Some w \<longrightarrow> w < length (threads s)) \<and>
     (freeing s \<longrightarrow> is_wake (main s))"

definition running_ok :: "'j pool \<Rightarrow> bool" where
  "running_ok s \<longleftrightarrow>
     (\<forall>i w. running s i = Some w \<longrightarrow> w < length (threads s) \<and> i < next_id s \<and> w \<notin> set (idle s) \<and>
        i \<notin> ids (jobq s) \<and> i \<notin> set (completed s)) \<and>
     (\<forall>i k w. running s i = Some w \<longrightarrow> running s k = Some w \<longrightarrow> i = k)"

definition jobs_ok :: "'j pool \<Rightarrow> bool" where
  "jobs_ok s \<longleftrightarrow>
     map fst (submitted s) = [0..<next_id s] \<and>
     distinct (map fst (jobq s)) \<and> set (jobq s) \<subseteq> set (submitted s) \<and>
     ids (jobq s) \<inter> ids (executed s) = {} \<and>
     set (executed s) \<subseteq> set (submitted s) \<and> distinct (map fst (executed s)) \<and>
     distinct (completed s) \<and> set (completed s) \<subseteq> ids (executed s) \<and>
     (\<forall>i < next_id s. i \<in> set (completed s) \<or> i \<in> ids (jobq s) \<or> running s i \<noteq> None) \<and>
     (jobq s \<noteq> [] \<longrightarrow> (\<exists>i. running s i \<noteq> None))"

definition pool_inv :: "wakeup \<Rightarrow> 'j pool \<Rightarrow> bool" where
  "pool_inv m s \<longleftrightarrow> lists_ok s \<and> running_ok s \<and> jobs_ok s \<and> (\<forall>w < length (threads s). worker_ok m s w)"

section \<open>Preservation\<close>

lemma pool_inv_empty: "pool_inv m empty_pool"
  by (simp add: pool_inv_def lists_ok_def running_ok_def jobs_ok_def empty_pool_def)

text \<open>A worker is untouched by a step that leaves its own part of the state as it was.\<close>

lemma worker_ok_frame:
  assumes "worker_ok m s w" "threads s' ! w = threads s ! w" "view s' w = view s w"
    and "is_wake (view s w) \<longrightarrow> freeing s' = freeing s"
    and "\<forall>i. running s' i = Some w \<longleftrightarrow> running s i = Some w"
    and "w \<in> set (idle s') \<longleftrightarrow> w \<in> set (idle s)"
    and "\<forall>i. running s i = Some w \<longrightarrow> (i \<in> set (pipe s') \<longleftrightarrow> i \<in> set (pipe s)) \<and>
      (i \<in> ids (executed s') \<longleftrightarrow> i \<in> ids (executed s))"
    and "set (submitted s) \<subseteq> set (submitted s')"
  shows "worker_ok m s' w"
proof -
  have run: "running s' i = Some w \<longleftrightarrow> running s i = Some w" for i using assms(5) by blast
  note ok = assms(1) [unfolded worker_ok_def]
  show ?thesis
    unfolding worker_ok_def assms(2,3) run
  proof (intro conjI allI impI)
    fix i assume i: "running s i = Some w"
    with ok obtain j where j: "(i, j) \<in> set (submitted s)"
        "job_phase m (threads s ! w) (view s w) i j (i \<in> set (pipe s)) (i \<in> ids (executed s))"
      by blast
    have eq: "(i \<in> set (pipe s')) = (i \<in> set (pipe s))" "(i \<in> ids (executed s')) = (i \<in> ids (executed s))"
      using assms(7) i by blast+
    show "\<exists>j. (i, j) \<in> set (submitted s') \<and>
        job_phase m (threads s ! w) (view s w) i j (i \<in> set (pipe s')) (i \<in> ids (executed s'))"
      unfolding eq using j assms(8) by blast
    show "is_wake (view s w) \<Longrightarrow> \<not> freeing s'" using ok i assms(4) by blast
  next
    assume "w \<in> set (idle s')"
    then have "w \<in> set (idle s)" using assms(6) by blast
    then show "view s w = M_idle" "asleep (threads s ! w)" using ok by blast+
  next
    assume "w \<notin> set (idle s') \<and> (\<forall>i. running s i \<noteq> Some w)"
    then have "freed_phase m (threads s ! w) (view s w) \<and> (is_wake (view s w) \<longrightarrow> freeing s)"
      using ok assms(6) by blast
    then show "freed_phase m (threads s ! w) (view s w)" "is_wake (view s w) \<Longrightarrow> freeing s'"
      using assms(4) by blast+
  qed
qed

lemma set_thread_simps [simp]:
  "length (threads (set_thread w t s)) = length (threads s)"
  "w < length (threads s) \<Longrightarrow> threads (set_thread w t s) ! w = t"
  "v \<noteq> w \<Longrightarrow> threads (set_thread w t s) ! v = threads s ! v"
  "running (set_thread w t s) = running s" "idle (set_thread w t s) = idle s"
  "jobq (set_thread w t s) = jobq s" "next_id (set_thread w t s) = next_id s"
  "pipe (set_thread w t s) = pipe s" "main (set_thread w t s) = main s"
  "freeing (set_thread w t s) = freeing s" "submitted (set_thread w t s) = submitted s"
  "executed (set_thread w t s) = executed s" "completed (set_thread w t s) = completed s"
  by (simp_all add: set_thread_def)

lemma pool_invI:
  assumes "lists_ok s" "running_ok s" "jobs_ok s"
    and "\<And>w. w < length (threads s) \<Longrightarrow> worker_ok m s w"
  shows "pool_inv m s"
  using assms by (simp add: pool_inv_def)

lemma pool_invD:
  assumes "pool_inv m s"
  shows "lists_ok s" "running_ok s" "jobs_ok s" "\<And>w. w < length (threads s) \<Longrightarrow> worker_ok m s w"
  using assms by (simp_all add: pool_inv_def)

lemma worker_okD:
  assumes "worker_ok m s w" "running s i = Some w"
  obtains j where "(i, j) \<in> set (submitted s)"
    "job_phase m (threads s ! w) (view s w) i j (i \<in> set (pipe s)) (i \<in> ids (executed s))"
    "is_wake (view s w) \<longrightarrow> \<not> freeing s"
  using assms unfolding worker_ok_def by blast

text \<open>Stages that no idle or freed worker is in.\<close>

lemma busy_running:
  assumes "worker_ok m s w" "pc (threads s ! w) \<in> {Running, Ran, Flagged}"
  shows "\<exists>i j. running s i = Some w \<and> (i, j) \<in> set (submitted s) \<and> view s w = M_idle \<and>
    cur_id (threads s ! w) = i \<and> i \<notin> set (pipe s) \<and> sh_job (threads s ! w) = Some j \<and>
    \<not> token (threads s ! w) \<and> waiting (threads s ! w) = (pc (threads s ! w) = Flagged) \<and>
    (i \<in> ids (executed s) \<longleftrightarrow> pc (threads s ! w) \<noteq> Running) \<and>
    (pc (threads s ! w) = Running \<longrightarrow> cur_job (threads s ! w) = Some j)"
proof -
  let ?t = "threads s ! w"
  have "w \<notin> set (idle s)" and "\<not> freed_phase m ?t (view s w)"
    using assms by (auto simp: worker_ok_def asleep_def freed_phase_def alerted_def split: main.splits)
  then obtain i where i: "running s i = Some w"
    using assms(1) by (auto simp: worker_ok_def)
  then obtain j where j: "(i, j) \<in> set (submitted s)"
      "job_phase m ?t (view s w) i j (i \<in> set (pipe s)) (i \<in> ids (executed s))"
    using assms(1) by (auto simp: worker_ok_def)
  then show ?thesis
    using assms(2) i
    by (intro exI [of _ i] exI [of _ j])
      (auto simp: job_phase_def before_run_def after_run_def asleep_def alerted_def
        split: main.splits if_splits)
qed

lemma executed_fresh:
  "jobs_ok s \<Longrightarrow> (i, j) \<in> set (submitted s) \<Longrightarrow> i \<notin> ids (executed s) \<Longrightarrow> i \<notin> ids (jobq s) \<Longrightarrow>
    jobs_ok (s\<lparr>executed := executed s @ [(i, j)]\<rparr>)"
  by (auto simp: jobs_ok_def ids_def)

lemma view_set_thread [simp]: "view (set_thread w t s) v = view s v"
  by (simp add: view_def)

lemma view_upd [simp]:
  "view (s\<lparr>executed := x\<rparr>) v = view s v" "view (s\<lparr>pipe := p\<rparr>) v = view s v"
  by (simp_all add: view_def)

lemma lists_ok_set_thread: "lists_ok s \<Longrightarrow> lists_ok (set_thread w t s)"
  by (simp add: lists_ok_def)

lemma running_ok_set_thread: "running_ok s \<Longrightarrow> running_ok (set_thread w t s)"
  by (simp add: running_ok_def)

lemma jobs_ok_set_thread: "jobs_ok s \<Longrightarrow> jobs_ok (set_thread w t s)"
  by (simp add: jobs_ok_def)

text \<open>A worker with its one job.\<close>

lemma worker_okI:
  assumes "running s i = Some w" "running_ok s" "(i, j) \<in> set (submitted s)"
    and "job_phase m (threads s ! w) (view s w) i j (i \<in> set (pipe s)) (i \<in> ids (executed s))"
    and "is_wake (view s w) \<longrightarrow> \<not> freeing s"
  shows "worker_ok m s w"
proof -
  have "w \<notin> set (idle s)" "\<forall>k. running s k = Some w \<longrightarrow> k = i"
    using assms(1,2) by (auto simp: running_ok_def)
  then show ?thesis
    using assms unfolding worker_ok_def by metis
qed

lemma running_other:
  "running_ok s \<Longrightarrow> running s i = Some w \<Longrightarrow> running s k = Some v \<Longrightarrow> v \<noteq> w \<Longrightarrow> k \<noteq> i"
  by auto

lemma run_inv:
  assumes inv: "pool_inv m s" and w: "w < length (threads s)" and pc: "pc (threads s ! w) = Running"
    and s': "s' = (set_thread w ((threads s ! w)\<lparr>pc := Ran\<rparr>) s)
      \<lparr>executed := executed s @ [(cur_id (threads s ! w), j')]\<rparr>"
    and j': "cur_job (threads s ! w) = Some j'"
  shows "pool_inv m s'"
proof (rule pool_invI)
  note ok = pool_invD [OF inv]
  obtain i where i: "running s i = Some w" "(i, j') \<in> set (submitted s)" "view s w = M_idle"
      "cur_id (threads s ! w) = i" "i \<notin> set (pipe s)" "sh_job (threads s ! w) = Some j'"
      "\<not> token (threads s ! w)" "\<not> waiting (threads s ! w)" "i \<notin> ids (executed s)"
    using busy_running [OF ok(4) [OF w]] pc j' by auto
  have q: "i \<notin> ids (jobq s)" using ok(2) i(1) by (auto simp: running_ok_def)
  show "lists_ok s'" using ok(1) by (simp add: s' lists_ok_def)
  show r: "running_ok s'" using ok(2) by (simp add: s' running_ok_def)
  show "jobs_ok s'"
    using executed_fresh [OF ok(3) i(2,9) q] unfolding s' i(4) by (simp add: jobs_ok_def)
  fix v assume v: "v < length (threads s')"
  show "worker_ok m s' v"
  proof (cases "v = w")
    case True
    show ?thesis
      unfolding True
      by (rule worker_okI [OF _ r, of i w j'])
        (use i w in \<open>auto simp: s' job_phase_def after_run_def\<close>)
  next
    case False
    show ?thesis
      by (rule worker_ok_frame [of m s v])
        (use ok(4) [of v] v False i running_other [OF ok(2) i(1)] in \<open>auto simp: s'\<close>)
  qed
qed

lemma flag_inv:
  assumes inv: "pool_inv m s" and w: "w < length (threads s)" and pc: "pc (threads s ! w) = Ran"
    and s': "s' = set_thread w ((threads s ! w)\<lparr>pc := Flagged, waiting := True\<rparr>) s"
  shows "pool_inv m s'"
proof (rule pool_invI)
  note ok = pool_invD [OF inv]
  obtain i j where i: "running s i = Some w" "(i, j) \<in> set (submitted s)" "view s w = M_idle"
      "cur_id (threads s ! w) = i" "i \<notin> set (pipe s)" "sh_job (threads s ! w) = Some j"
      "\<not> token (threads s ! w)" "i \<in> ids (executed s)"
    using busy_running [OF ok(4) [OF w]] pc by auto
  show "lists_ok s'" "jobs_ok s'" and r: "running_ok s'"
    using ok by (simp_all add: s' lists_ok_set_thread jobs_ok_set_thread running_ok_set_thread)
  fix v assume v: "v < length (threads s')"
  show "worker_ok m s' v"
  proof (cases "v = w")
    case True
    show ?thesis
      unfolding True
      by (rule worker_okI [OF _ r, of i w j])
        (use i w in \<open>auto simp: s' job_phase_def after_run_def\<close>)
  next
    case False
    show ?thesis
      by (rule worker_ok_frame [of m s v]) (use ok(4) [of v] v False in \<open>auto simp: s'\<close>)
  qed
qed

lemma notify_inv:
  assumes inv: "pool_inv m s" and w: "w < length (threads s)" and pc: "pc (threads s ! w) = Flagged"
    and s': "s' = (set_thread w ((threads s ! w)\<lparr>pc := Waiting\<rparr>) s)
      \<lparr>pipe := pipe s @ [cur_id (threads s ! w)]\<rparr>"
  shows "pool_inv m s'"
proof (rule pool_invI)
  note ok = pool_invD [OF inv]
  obtain i j where i: "running s i = Some w" "(i, j) \<in> set (submitted s)" "view s w = M_idle"
      "cur_id (threads s ! w) = i" "i \<notin> set (pipe s)" "waiting (threads s ! w)"
      "\<not> token (threads s ! w)" "i \<in> ids (executed s)"
    using busy_running [OF ok(4) [OF w]] pc by auto
  show "lists_ok s'" using ok(1) i by (auto simp: s' lists_ok_def)
  show r: "running_ok s'" using ok(2) by (simp add: s' running_ok_def)
  show "jobs_ok s'" using ok(3) by (simp add: s' jobs_ok_def)
  fix v assume v: "v < length (threads s')"
  show "worker_ok m s' v"
  proof (cases "v = w")
    case True
    show ?thesis
      unfolding True
      by (rule worker_okI [OF _ r, of i w j])
        (use i w in \<open>auto simp: s' job_phase_def after_run_def asleep_def\<close>)
  next
    case False
    show ?thesis
      by (rule worker_ok_frame [of m s v])
        (use ok(4) [of v] v False i running_other [OF ok(2) i(1)] in \<open>auto simp: s'\<close>)
  qed
qed

text \<open>The worker comes out of its wait only when it was woken for a job, or to be freed.\<close>

lemma woken_worker:
  assumes "worker_ok m s w" "pc (threads s ! w) = Waiting" "woken m (threads s ! w)"
    and "lists_ok s"
  shows "alerted m (threads s ! w) \<and>
    ((\<exists>i j. running s i = Some w \<and> (i, j) \<in> set (submitted s) \<and> view s w = M_idle \<and>
        sh_id (threads s ! w) = i \<and> sh_job (threads s ! w) = Some j \<and>
        i \<notin> set (pipe s) \<and> i \<notin> ids (executed s)) \<or>
     ((\<forall>i. running s i \<noteq> Some w) \<and> w \<notin> set (idle s) \<and> view s w = Joining w \<and>
        sh_job (threads s ! w) = None))"
proof -
  let ?t = "threads s ! w"
  have na: "\<not> asleep ?t" using assms(3) by (auto simp: woken_def asleep_def split: wakeup.splits)
  then have idle: "w \<notin> set (idle s)" using assms(1) by (auto simp: worker_ok_def)
  show ?thesis
  proof (cases "\<exists>i. running s i = Some w")
    case True
    then obtain i where i0: "running s i = Some w" by blast
    obtain j where i: "(i, j) \<in> set (submitted s)"
        "job_phase m ?t (view s w) i j (i \<in> set (pipe s)) (i \<in> ids (executed s))"
      using worker_okD [OF assms(1) i0] by blast
    from i0 i show ?thesis
      using na assms(2,3)
      by (auto simp: job_phase_def before_run_def after_run_def alerted_def woken_def
          split: main.splits if_splits wakeup.splits)
  next
    case False
    then have f: "freed_phase m ?t (view s w)"
      using assms(1) idle by (auto simp: worker_ok_def)
    have "view s w = Joining w \<and> alerted m ?t \<and> sh_job ?t = None"
      using f na assms(2,3)
      by (auto simp: freed_phase_def alerted_def woken_def view_def
          split: main.splits if_splits wakeup.splits)
    then show ?thesis using False idle by auto
  qed
qed

lemma wake_up_inv:
  assumes inv: "pool_inv m s" and w: "w < length (threads s)" and pc: "pc (threads s ! w) = Waiting"
    and wk: "woken m (threads s ! w)"
    and s': "s' = set_thread w ((threads s ! w)\<lparr>pc := (case sh_job (threads s ! w) of None \<Rightarrow> Exited | Some _ \<Rightarrow> Running),
        cur_id := sh_id (threads s ! w), cur_job := sh_job (threads s ! w), token := False\<rparr>) s"
  shows "pool_inv m s'"
proof (rule pool_invI)
  note ok = pool_invD [OF inv]
  note cases = woken_worker [OF ok(4) [OF w] pc wk ok(1)]
  show "lists_ok s'" "jobs_ok s'" and r: "running_ok s'"
    using ok by (simp_all add: s' lists_ok_set_thread jobs_ok_set_thread running_ok_set_thread)
  fix v assume v: "v < length (threads s')"
  show "worker_ok m s' v"
  proof (cases "v = w")
    case True
    from cases show ?thesis
    proof (elim conjE disjE exE)
      fix i j assume job: "running s i = Some w" "(i, j) \<in> set (submitted s)" "view s w = M_idle"
        "sh_id (threads s ! w) = i" "sh_job (threads s ! w) = Some j"
        "i \<notin> set (pipe s)" "i \<notin> ids (executed s)" "alerted m (threads s ! w)"
      show ?thesis
        unfolding True
        by (rule worker_okI [OF _ r, of i w j])
          (use job w in \<open>auto simp: s' job_phase_def before_run_def alerted_def\<close>)
    next
      assume "\<forall>i. running s i \<noteq> Some w" "w \<notin> set (idle s)" "view s w = Joining w"
        "sh_job (threads s ! w) = None"
      then show ?thesis
        unfolding True using w by (auto simp: s' worker_ok_def freed_phase_def)
    qed
  next
    case False
    show ?thesis
      by (rule worker_ok_frame [of m s v]) (use ok(4) [of v] v False in \<open>auto simp: s'\<close>)
  qed
qed

lemma worker_step_inv:
  assumes inv: "pool_inv m s" and st: "worker_step m w s = Some s'"
  shows "pool_inv m s'"
proof -
  have w: "w < length (threads s)" using st by (auto simp: worker_step_def split: if_splits)
  show ?thesis
  proof (cases "pc (threads s ! w)")
    case Running
    then show ?thesis
      using st w run_inv [OF inv w Running] by (auto simp: worker_step_def Let_def split: option.splits)
  next
    case Ran
    then show ?thesis using st w flag_inv [OF inv w Ran] by (auto simp: worker_step_def Let_def)
  next
    case Flagged
    then show ?thesis using st w notify_inv [OF inv w Flagged] by (auto simp: worker_step_def Let_def)
  next
    case Waiting
    then have "woken m (threads s ! w)" using st w by (auto simp: worker_step_def Let_def split: if_splits)
    then show ?thesis
      using st w wake_up_inv [OF inv w Waiting] Waiting by (auto simp: worker_step_def Let_def)
  next
    case Exited
    then show ?thesis using st w by (simp add: worker_step_def Let_def)
  qed
qed

text \<open>
  A step of the main thread that is waking worker \<open>w\<close>. It changes the shared fields of
  that worker only.
\<close>

lemma main_waking:
  assumes "pool_inv m s" "main_target (main s) = Some w"
  shows "w < length (threads s)" "view s w = main s" "\<And>v. v \<noteq> w \<Longrightarrow> view s v = M_idle"
  using assms by (auto simp: pool_inv_def lists_ok_def view_def)

lemma waking_worker:
  assumes inv: "pool_inv m s" and w: "main_target (main s) = Some w" and wk: "is_wake (main s)"
  shows "(\<not> freeing s \<and> (\<exists>i j. running s i = Some w \<and> (i, j) \<in> set (submitted s) \<and>
      i \<notin> set (pipe s) \<and> i \<notin> ids (executed s) \<and> before_run m (threads s ! w) (main s) i j)) \<or>
    (freeing s \<and> (\<forall>i. running s i \<noteq> Some w) \<and> w \<notin> set (idle s) \<and>
      freed_phase m (threads s ! w) (main s))"
proof -
  note ok = pool_invD [OF inv]
  have wl: "w < length (threads s)" and vw: "view s w = main s"
    using main_waking [OF inv w] by auto
  have okw: "worker_ok m s w" by (rule ok(4) [OF wl])
  have idle: "w \<notin> set (idle s)"
    using okw wk vw unfolding worker_ok_def by (metis is_wake.simps(1))
  show ?thesis
  proof (cases "\<exists>i. running s i = Some w")
    case True
    then obtain i where i: "running s i = Some w" by blast
    obtain j where j: "(i, j) \<in> set (submitted s)"
        "job_phase m (threads s ! w) (main s) i j (i \<in> set (pipe s)) (i \<in> ids (executed s))"
        "\<not> freeing s"
      using worker_okD [OF okw i] wk by (auto simp: vw)
    have "main s \<noteq> M_idle" using wk by auto
    then show ?thesis using i j by (auto simp: job_phase_def after_run_def split: if_splits)
  next
    case False
    then show ?thesis using okw idle wk vw unfolding worker_ok_def by metis
  qed
qed

lemma main_update_inv:
  assumes inv: "pool_inv m s" and w: "main_target (main s) = Some w" and wk: "is_wake (main s)"
    and s': "s' = (set_thread w t s)\<lparr>main := mv, freeing := fr\<rparr>"
    and tgt: "main_target mv = Some w \<or> mv = M_idle"
    and fr: "if is_wake mv then fr = freeing s else \<not> fr"
    and job: "\<And>i j. \<not> freeing s \<Longrightarrow> before_run m (threads s ! w) (main s) i j \<Longrightarrow>
      before_run m t mv i j"
    and freed: "freeing s \<Longrightarrow> freed_phase m (threads s ! w) (main s) \<Longrightarrow> freed_phase m t mv"
  shows "pool_inv m s'"
proof (rule pool_invI)
  note ok = pool_invD [OF inv]
  note mw = main_waking [OF inv w]
  have fields: "running s' = running s" "submitted s' = submitted s" "pipe s' = pipe s"
    "executed s' = executed s" "freeing s' = fr" "idle s' = idle s"
    by (simp_all add: s')
  have vw: "view s' w = mv" and vo: "\<And>v. v \<noteq> w \<Longrightarrow> view s' v = M_idle"
    using tgt by (auto simp: s' view_def)
  show "lists_ok s'" using ok(1) fr tgt mw(1) by (auto simp: s' lists_ok_def split: if_splits)
  show r: "running_ok s'" using ok(2) by (simp add: s' running_ok_def)
  show "jobs_ok s'" using ok(3) by (simp add: s' jobs_ok_def)
  fix v assume v: "v < length (threads s')"
  show "worker_ok m s' v"
  proof (cases "v = w")
    case True
    have tw: "threads s' ! w = t" using mw(1) by (simp add: s')
    from waking_worker [OF inv w wk] show ?thesis
    proof (elim disjE conjE exE)
      fix i j assume i: "\<not> freeing s" "running s i = Some w" "(i, j) \<in> set (submitted s)"
        "i \<notin> set (pipe s)" "i \<notin> ids (executed s)" "before_run m (threads s ! w) (main s) i j"
      show ?thesis
        unfolding True
        by (rule worker_okI [OF _ r, of i w j])
          (use i fr job [OF i(1,6)] in \<open>auto simp: vw tw fields job_phase_def split: if_splits\<close>)
    next
      assume f: "freeing s" "\<forall>i. running s i \<noteq> Some w" "w \<notin> set (idle s)"
        "freed_phase m (threads s ! w) (main s)"
      have "freed_phase m t mv" by (rule freed [OF f(1,4)])
      then show ?thesis
        using f fr unfolding True worker_ok_def vw tw fields by (auto split: if_splits)
    qed
  next
    case False
    show ?thesis
      by (rule worker_ok_frame [of m s v])
        (use ok(4) [of v] v False mw(3) [OF False] vo [OF False] in \<open>auto simp: s'\<close>)
  qed
qed

lemma main_step_inv:
  assumes inv: "pool_inv m s" and st: "main_step m s = Some s'"
  shows "pool_inv m s'"
proof (cases "main s")
  case M_idle
  then show ?thesis using st by (simp add: main_step_def)
next
  case (Wake_id w i j)
  have "s' = (set_thread w ((threads s ! w)\<lparr>sh_id := i\<rparr>) s)\<lparr>main := Wake_job w j, freeing := freeing s\<rparr>"
    using st Wake_id by (cases s) (auto simp: main_step_def set_thread_def)
  then show ?thesis
    by (rule main_update_inv [OF inv, rotated 2])
      (use Wake_id in \<open>auto simp: before_run_def freed_phase_def asleep_def\<close>)
next
  case (Wake_job w j)
  have "s' = (set_thread w ((threads s ! w)\<lparr>sh_job := j\<rparr>) s)\<lparr>main := Wake_flag w, freeing := freeing s\<rparr>"
    using st Wake_job by (cases s) (auto simp: main_step_def set_thread_def)
  then show ?thesis
    by (rule main_update_inv [OF inv, rotated 2])
      (use Wake_job in \<open>auto simp: before_run_def freed_phase_def asleep_def\<close>)
next
  case (Wake_flag w)
  show ?thesis
  proof (cases "m = By_cond_var")
    case True
    have "s' = (set_thread w ((threads s ! w)\<lparr>waiting := False\<rparr>) s)
        \<lparr>main := (if freeing s then Joining w else M_idle), freeing := False\<rparr>"
      using st Wake_flag True by (simp add: main_step_def after_wake_def set_thread_def)
    then show ?thesis
      by (rule main_update_inv [OF inv, rotated 2])
        (use Wake_flag True in \<open>auto simp: before_run_def freed_phase_def asleep_def alerted_def\<close>)
  next
    case False
    have "s' = (set_thread w ((threads s ! w)\<lparr>waiting := False\<rparr>) s)
        \<lparr>main := Wake_signal w, freeing := freeing s\<rparr>"
      using st Wake_flag False by (cases s) (auto simp: main_step_def set_thread_def)
    then show ?thesis
      by (rule main_update_inv [OF inv, rotated 2])
        (use Wake_flag False in \<open>auto simp: before_run_def freed_phase_def asleep_def\<close>)
  qed
next
  case (Wake_signal w)
  have "s' = (set_thread w ((threads s ! w)\<lparr>token := True\<rparr>) s)
      \<lparr>main := (if freeing s then Joining w else M_idle), freeing := False\<rparr>"
    using st Wake_signal by (simp add: main_step_def after_wake_def set_thread_def)
  then show ?thesis
    by (rule main_update_inv [OF inv, rotated 2])
      (use Wake_signal in \<open>auto simp: before_run_def freed_phase_def alerted_def\<close>)
next
  case (Joining w)
  then have ex: "pc (threads s ! w) = Exited" and s': "s' = s\<lparr>main := M_idle\<rparr>"
    using st by (auto simp: main_step_def split: if_splits)
  note ok = pool_invD [OF inv]
  have mw: "w < length (threads s)" "view s w = Joining w" "\<And>v. v \<noteq> w \<Longrightarrow> view s v = M_idle"
    using main_waking [OF inv, of w] Joining by auto
  have nf: "\<not> freeing s" using ok(1) Joining by (auto simp: lists_ok_def)
  show ?thesis
  proof (rule pool_invI)
    show "lists_ok s'" using ok(1) nf by (simp add: s' lists_ok_def)
    show "running_ok s'" using ok(2) by (simp add: s' running_ok_def)
    show "jobs_ok s'" using ok(3) by (simp add: s' jobs_ok_def)
    fix v assume v: "v < length (threads s')"
    have view: "view s' v = M_idle" by (simp add: s' view_def)
    show "worker_ok m s' v"
    proof (cases "v = w")
      case True
      have "\<forall>i. running s i \<noteq> Some w"
      proof
        fix i show "running s i \<noteq> Some w"
        proof
          assume i: "running s i = Some w"
          from worker_okD [OF ok(4) [OF mw(1)] i] obtain j where
            "job_phase m (threads s ! w) (Joining w) i j (i \<in> set (pipe s)) (i \<in> ids (executed s))"
            unfolding mw(2) by blast
          then show False by (simp add: job_phase_def before_run_def after_run_def split: if_splits)
        qed
      qed
      moreover have "w \<notin> set (idle s)"
        using ok(4) [OF mw(1)] mw(2) unfolding worker_ok_def by (metis main.distinct(9))
      ultimately show ?thesis
        using ex view unfolding worker_ok_def True by (simp add: s' freed_phase_def)
    next
      case False
      show ?thesis
        by (rule worker_ok_frame [of m s v])
          (use ok(4) [of v] v mw(3) [OF False] view in \<open>auto simp: s'\<close>)
    qed
  qed
qed

lemma view_idle: "main s = M_idle \<Longrightarrow> view s v = M_idle"
  by (simp add: view_def)

lemma notified_worker:
  assumes inv: "pool_inv m s" and p: "i \<in> set (pipe s)" "running s i = Some w"
  shows "w < length (threads s)" "asleep (threads s ! w)" "i \<in> ids (executed s)"
proof -
  note ok = pool_invD [OF inv]
  show w: "w < length (threads s)" using ok(2) p(2) by (auto simp: running_ok_def)
  obtain j where "job_phase m (threads s ! w) (view s w) i j True (i \<in> ids (executed s))"
    using worker_okD [OF ok(4) [OF w] p(2)] p(1) by auto
  then show "asleep (threads s ! w)" "i \<in> ids (executed s)"
    by (auto simp: job_phase_def after_run_def split: if_splits)
qed

lemma handle_idle_inv:
  assumes inv: "pool_inv m s" and mi: "main s = M_idle" and p: "pipe s = i # rest"
    and w: "running s i = Some w" and q: "jobq s = []"
    and s': "s' = worker_enter_idle w (s\<lparr>pipe := rest, running := (running s)(i := None),
      completed := completed s @ [i], idle := idle s @ [w]\<rparr>)"
  shows "pool_inv m s'"
proof (rule pool_invI)
  note ok = pool_invD [OF inv]
  have nw: "w < length (threads s)" "asleep (threads s ! w)" "i \<in> ids (executed s)"
    using notified_worker [OF inv _ w] p by auto
  have nidle: "w \<notin> set (idle s)" and nc: "i \<notin> set (completed s)"
    and only: "\<And>k v. running s k = Some v \<Longrightarrow> v = w \<Longrightarrow> k = i"
    using ok(2) w by (auto simp: running_ok_def)
  have fields: "running s' = (running s)(i := None)" "submitted s' = submitted s" "pipe s' = rest"
    "executed s' = executed s" "freeing s' = freeing s" "idle s' = idle s @ [w]" "main s' = M_idle"
    "completed s' = completed s @ [i]" "jobq s' = []" "next_id s' = next_id s"
    "length (threads s') = length (threads s)"
    "threads s' ! w = (threads s ! w)\<lparr>sh_job := None\<rparr>"
    using nw mi q by (simp_all add: s' worker_enter_idle_def)
  have other: "threads s' ! v = threads s ! v" if "v \<noteq> w" for v
    using that by (simp add: s' worker_enter_idle_def)
  show "lists_ok s'"
    using ok(1) p nidle nw mi by (auto simp: lists_ok_def fields)
  show "running_ok s'"
    using ok(2) nidle only q unfolding running_ok_def fields by (auto split: if_splits)
  show "jobs_ok s'"
    using ok(3) nw(3) nc q unfolding jobs_ok_def fields by auto
  fix v assume v: "v < length (threads s')"
  have views: "view s' u = M_idle" "view s u = M_idle" for u by (simp_all add: view_idle fields mi)
  show "worker_ok m s' v"
  proof (cases "v = w")
    case True
    have "asleep (threads s' ! w)" using nw(2) by (simp add: fields asleep_def)
    then show ?thesis
      using only nidle unfolding worker_ok_def views True by (auto simp: fields split: if_splits)
  next
    case False
    show ?thesis
      by (rule worker_ok_frame [of m s v])
        (use ok(4) [of v] v False p w in \<open>auto simp: fields views other\<close>)
  qed
qed

lemma handle_next_inv:
  assumes inv: "pool_inv m s" and mi: "main s = M_idle" and p: "pipe s = i # rest"
    and w: "running s i = Some w" and q: "jobq s = (i', j') # q"
    and s': "s' = wake_worker w i' (Some j') (s\<lparr>pipe := rest, completed := completed s @ [i], jobq := q,
      running := (running s)(i := None, i' \<mapsto> w)\<rparr>)"
  shows "pool_inv m s'"
proof (rule pool_invI)
  note ok = pool_invD [OF inv]
  have nw: "w < length (threads s)" "asleep (threads s ! w)" "i \<in> ids (executed s)"
    using notified_worker [OF inv _ w] p by auto
  have nidle: "w \<notin> set (idle s)" and nc: "i \<notin> set (completed s)" and niq: "i \<notin> ids (jobq s)"
    and only: "\<And>k v. running s k = Some v \<Longrightarrow> v = w \<Longrightarrow> k = i"
    and rq: "\<And>k v. running s k = Some v \<Longrightarrow> k \<notin> ids (jobq s)"
    using ok(2) w by (auto simp: running_ok_def)
  have i': "i' \<notin> ids (executed s)" "i' \<noteq> i" "running s i' = None" "(i', j') \<in> set (submitted s)"
    "i' < next_id s" "i' \<notin> ids q" "i' \<notin> set (completed s)"
  proof -
    show e: "i' \<notin> ids (executed s)" using ok(3) q by (auto simp: jobs_ok_def)
    then show "i' \<noteq> i" using nw by auto
    show "running s i' = None" using rq [of i'] q by (cases "running s i'") auto
    show sub: "(i', j') \<in> set (submitted s)" using ok(3) q by (auto simp: jobs_ok_def)
    have "i' \<in> set (map fst (submitted s))" using sub by force
    then show "i' < next_id s" using ok(3) unfolding jobs_ok_def by simp
    show "i' \<notin> ids q" using ok(3) q by (auto simp: jobs_ok_def ids_def)
    show "i' \<notin> set (completed s)" using ok(3) e by (auto simp: jobs_ok_def)
  qed
  have np: "i' \<notin> set (pipe s)" using ok(1) i'(3) by (auto simp: lists_ok_def)
  have nf: "\<not> freeing s" using ok(1) mi by (auto simp: lists_ok_def)
  have fields: "running s' = (running s)(i := None, i' \<mapsto> w)" "submitted s' = submitted s"
    "pipe s' = rest" "executed s' = executed s" "freeing s' = freeing s" "idle s' = idle s"
    "main s' = Wake_id w i' (Some j')" "completed s' = completed s @ [i]" "jobq s' = q"
    "next_id s' = next_id s" "threads s' = threads s"
    by (simp_all add: s' wake_worker_def)
  show "lists_ok s'"
    using ok(1) p nw i' nf by (auto simp: lists_ok_def fields)
  show r: "running_ok s'"
    using ok(2) nidle only q i' nw unfolding running_ok_def fields by (auto split: if_splits)
  show "jobs_ok s'"
    using ok(3) nw(3) nc q i' unfolding jobs_ok_def fields by auto
  fix v assume v: "v < length (threads s')"
  show "worker_ok m s' v"
  proof (cases "v = w")
    case True
    have "view s' w = Wake_id w i' (Some j')" by (simp add: view_def fields)
    then show ?thesis
      unfolding True
      by (intro worker_okI [OF _ r, of i' w j'])
        (use i' np nf nw p in \<open>auto simp: fields job_phase_def before_run_def\<close>)
  next
    case False
    then have views: "view s' v = M_idle" "view s v = M_idle" by (simp_all add: view_def fields mi)
    show ?thesis
      by (rule worker_ok_frame [of m s v])
        (use ok(4) [of v] v False p w i' in \<open>auto simp: fields views\<close>)
  qed
qed

lemma handle_inv:
  assumes inv: "pool_inv m s" and st: "handle_completed_job s = Some s'"
  shows "pool_inv m s'"
proof -
  obtain i rest w where h: "main s = M_idle" "pipe s = i # rest" "running s i = Some w"
    using st by (auto simp: handle_completed_job_def split: if_splits list.splits option.splits)
  show ?thesis
  proof (cases "jobq s")
    case Nil
    then show ?thesis
      using st h by (intro handle_idle_inv [OF inv h Nil]) (simp add: handle_completed_job_def Let_def)
  next
    case (Cons x q)
    obtain i' j' where x: "x = (i', j')" by fastforce
    show ?thesis
      using st h Cons x
      by (intro handle_next_inv [OF inv h Cons [unfolded x]]) (simp add: handle_completed_job_def Let_def)
  qed
qed

lemma free_inv:
  assumes inv: "pool_inv m s" and st: "free_idle_worker s = Some s'"
  shows "pool_inv m s'"
proof (rule pool_invI)
  note ok = pool_invD [OF inv]
  obtain w ws where h: "main s = M_idle" "idle s = w # ws"
      and s': "s' = wake_worker w 0 None (s\<lparr>idle := ws, freeing := True\<rparr>)"
    using st by (auto simp: free_idle_worker_def split: if_splits list.splits)
  have w: "w < length (threads s)" "w \<notin> set ws" "\<forall>i. running s i \<noteq> Some w"
    using ok(1,2) h by (auto simp: lists_ok_def running_ok_def)
  have as: "asleep (threads s ! w)" using ok(4) [OF w(1)] h by (auto simp: worker_ok_def)
  have fields: "running s' = running s" "submitted s' = submitted s" "pipe s' = pipe s"
    "executed s' = executed s" "freeing s' = True" "idle s' = ws" "main s' = Wake_id w 0 None"
    "completed s' = completed s" "jobq s' = jobq s" "next_id s' = next_id s" "threads s' = threads s"
    by (simp_all add: s' wake_worker_def)
  show "lists_ok s'" using ok(1) h w by (auto simp: lists_ok_def fields)
  show "running_ok s'" using ok(2) h unfolding running_ok_def fields by auto
  show "jobs_ok s'" using ok(3) unfolding jobs_ok_def fields .
  fix v assume v: "v < length (threads s')"
  show "worker_ok m s' v"
  proof (cases "v = w")
    case True
    have "view s' w = Wake_id w 0 None" by (simp add: view_def fields)
    then show ?thesis
      using w as unfolding True worker_ok_def by (simp add: fields freed_phase_def)
  next
    case False
    then have views: "view s' v = M_idle" "view s v = M_idle" by (simp_all add: view_def fields h)
    show ?thesis
      by (rule worker_ok_frame [of m s v])
        (use ok(4) [of v] v False h in \<open>auto simp: fields views\<close>)
  qed
qed

text \<open>The next job number is new everywhere.\<close>

lemma next_id_fresh:
  assumes "pool_inv m s"
  shows "running s (next_id s) = None" "next_id s \<notin> ids (jobq s)" "next_id s \<notin> ids (executed s)"
    "next_id s \<notin> set (completed s)" "next_id s \<notin> set (pipe s)"
    "\<And>i j. (i, j) \<in> set (submitted s) \<Longrightarrow> i < next_id s"
proof -
  note ok = pool_invD [OF assms]
  have sub: "i < next_id s" if "(i, j) \<in> set (submitted s)" for i j
  proof -
    have "i \<in> set (map fst (submitted s))" using that by force
    then show ?thesis using ok(3) unfolding jobs_ok_def by simp
  qed
  then show "\<And>i j. (i, j) \<in> set (submitted s) \<Longrightarrow> i < next_id s" .
  show run: "running s (next_id s) = None"
    using ok(2) by (cases "running s (next_id s)") (auto simp: running_ok_def)
  show "next_id s \<notin> set (pipe s)" using ok(1) run by (auto simp: lists_ok_def)
  show "next_id s \<notin> ids (jobq s)" "next_id s \<notin> ids (executed s)"
    using ok(3) sub by (fastforce simp: jobs_ok_def ids_def)+
  then show "next_id s \<notin> set (completed s)" using ok(3) by (auto simp: jobs_ok_def)
qed

lemma submitted_new:
  assumes "jobs_ok s" "next_id s' = Suc (next_id s)" "submitted s' = submitted s @ [(next_id s, j)]"
  shows "map fst (submitted s') = [0..<next_id s']"
  using assms by (simp add: jobs_ok_def)

lemma submit_queue_inv:
  assumes inv: "pool_inv m s" and mi: "main s = M_idle" and some: "\<exists>i. running s i \<noteq> None"
    and s': "s' = s\<lparr>next_id := Suc (next_id s), submitted := submitted s @ [(next_id s, j)],
      jobq := jobq s @ [(next_id s, j)]\<rparr>"
  shows "pool_inv m s'"
proof (rule pool_invI)
  note ok = pool_invD [OF inv] and new = next_id_fresh [OF inv]
  have fields: "running s' = running s" "submitted s' = submitted s @ [(next_id s, j)]"
    "pipe s' = pipe s" "executed s' = executed s" "freeing s' = freeing s" "idle s' = idle s"
    "main s' = main s" "completed s' = completed s" "jobq s' = jobq s @ [(next_id s, j)]"
    "next_id s' = Suc (next_id s)" "threads s' = threads s"
    by (simp_all add: s')
  show "lists_ok s'" using ok(1) by (simp add: lists_ok_def fields)
  show "running_ok s'" using ok(2) new(1) unfolding running_ok_def fields by (auto simp: less_Suc_eq)
  show "jobs_ok s'"
    using ok(3) new(2-4) some unfolding jobs_ok_def fields
    by (auto simp: less_Suc_eq ids_def)
  fix v assume v: "v < length (threads s')"
  have view: "view s' v = view s v" by (simp add: view_def fields)
  show "worker_ok m s' v"
    by (rule worker_ok_frame [of m s v]) (use ok(4) [of v] v in \<open>auto simp: fields view_def\<close>)
qed

lemma submit_spawn_inv:
  assumes inv: "pool_inv m s" and mi: "main s = M_idle"
    and s': "s' = spawn_worker (next_id s) j (s\<lparr>next_id := Suc (next_id s),
      submitted := submitted s @ [(next_id s, j)],
      running := (running s)(next_id s \<mapsto> length (threads s))\<rparr>)"
  shows "pool_inv m s'"
proof (rule pool_invI)
  note ok = pool_invD [OF inv] and new = next_id_fresh [OF inv]
  let ?w = "length (threads s)"
  let ?t = "\<lparr>pc = Running, cur_id = next_id s, cur_job = Some j, sh_id = next_id s, sh_job = Some j,
    waiting = False, token = False\<rparr>"
  have fields: "running s' = (running s)(next_id s \<mapsto> ?w)" "submitted s' = submitted s @ [(next_id s, j)]"
    "pipe s' = pipe s" "executed s' = executed s" "freeing s' = freeing s" "idle s' = idle s"
    "main s' = M_idle" "completed s' = completed s" "jobq s' = jobq s"
    "next_id s' = Suc (next_id s)" "threads s' = threads s @ [?t]"
    by (simp_all add: s' spawn_worker_def mi)
  have nf: "\<not> freeing s" using ok(1) mi by (auto simp: lists_ok_def)
  have old: "\<And>i w. running s i = Some w \<Longrightarrow> w < ?w" "\<And>w. w \<in> set (idle s) \<Longrightarrow> w < ?w"
    using ok(1,2) by (auto simp: lists_ok_def running_ok_def)
  have none: "running s i \<noteq> Some ?w" "?w \<notin> set (idle s)" for i using old by blast+
  show "lists_ok s'" using ok(1) nf by (auto simp: lists_ok_def fields less_Suc_eq)
  show r: "running_ok s'"
    using ok(2) new old none unfolding running_ok_def fields
    by (auto simp: less_Suc_eq split: if_splits)
  show "jobs_ok s'"
    using ok(3) new(2-4) unfolding jobs_ok_def fields by (auto simp: less_Suc_eq)
  fix v assume v: "v < length (threads s')"
  have views: "view s' u = M_idle" "view s u = M_idle" for u by (simp_all add: view_idle fields mi)
  show "worker_ok m s' v"
  proof (cases "v = ?w")
    case True
    show ?thesis
      unfolding True
      by (rule worker_okI [OF _ r, of "next_id s" ?w j])
        (use new in \<open>auto simp: fields views job_phase_def before_run_def\<close>)
  next
    case False
    show ?thesis
      by (rule worker_ok_frame [of m s v])
        (use ok(4) [of v] v False new in \<open>auto simp: fields views nth_append\<close>)
  qed
qed

lemma submit_wake_inv:
  assumes inv: "pool_inv m s" and mi: "main s = M_idle" and idle: "idle s = w # ws"
    and s': "s' = wake_worker w (next_id s) (Some j) (s\<lparr>next_id := Suc (next_id s),
      submitted := submitted s @ [(next_id s, j)], idle := ws,
      running := (running s)(next_id s \<mapsto> w)\<rparr>)"
  shows "pool_inv m s'"
proof (rule pool_invI)
  note ok = pool_invD [OF inv] and new = next_id_fresh [OF inv]
  have fields: "running s' = (running s)(next_id s \<mapsto> w)" "submitted s' = submitted s @ [(next_id s, j)]"
    "pipe s' = pipe s" "executed s' = executed s" "freeing s' = freeing s" "idle s' = ws"
    "main s' = Wake_id w (next_id s) (Some j)" "completed s' = completed s" "jobq s' = jobq s"
    "next_id s' = Suc (next_id s)" "threads s' = threads s"
    by (simp_all add: s' wake_worker_def)
  have nf: "\<not> freeing s" using ok(1) mi by (auto simp: lists_ok_def)
  have w: "w < length (threads s)" "w \<notin> set ws" "\<And>i. running s i \<noteq> Some w"
    using ok(1,2) idle by (auto simp: lists_ok_def running_ok_def)
  have as: "asleep (threads s ! w)" using ok(4) [OF w(1)] idle by (auto simp: worker_ok_def)
  show "lists_ok s'" using ok(1) nf w idle by (auto simp: lists_ok_def fields)
  show r: "running_ok s'"
    using ok(2) new w idle unfolding running_ok_def fields
    by (auto simp: less_Suc_eq split: if_splits)
  show "jobs_ok s'"
    using ok(3) new(2-4) unfolding jobs_ok_def fields by (auto simp: less_Suc_eq)
  fix v assume v: "v < length (threads s')"
  show "worker_ok m s' v"
  proof (cases "v = w")
    case True
    have "view s' w = Wake_id w (next_id s) (Some j)" by (simp add: view_def fields)
    then show ?thesis
      unfolding True
      by (intro worker_okI [OF _ r, of "next_id s" w j])
        (use new nf as in \<open>auto simp: fields job_phase_def before_run_def\<close>)
  next
    case False
    then have views: "view s' v = M_idle" "view s v = M_idle" by (simp_all add: view_def fields mi)
    show ?thesis
      by (rule worker_ok_frame [of m s v])
        (use ok(4) [of v] v False new idle in \<open>auto simp: fields views\<close>)
  qed
qed

lemma submit_inv:
  assumes inv: "pool_inv m s" and mx: "0 < n" and st: "submit n j s = Some s'"
  shows "pool_inv m s'"
proof -
  have mi: "main s = M_idle" using st by (auto simp: submit_def split: if_splits)
  show ?thesis
  proof (cases "idle s")
    case (Cons w ws)
    then show ?thesis
      using st by (intro submit_wake_inv [OF inv mi Cons]) (auto simp: submit_def Let_def split: if_splits)
  next
    case Nil
    show ?thesis
    proof (cases "n \<le> running_count s")
      case True
      have "\<exists>i. running s i \<noteq> None"
      proof (rule ccontr)
        assume "\<not> ?thesis"
        then have "running_count s = 0" by (simp add: running_count_def)
        then show False using mx True by simp
      qed
      then show ?thesis
        using st Nil True
        by (intro submit_queue_inv [OF inv mi, of s' j]) (auto simp: submit_def Let_def split: if_splits)
    next
      case False
      then show ?thesis
        using st Nil
        by (intro submit_spawn_inv [OF inv mi]) (auto simp: submit_def Let_def split: if_splits)
    qed
  qed
qed

lemma progress_inv: "pool_inv m s \<Longrightarrow> progress m s s' \<Longrightarrow> pool_inv m s'"
  by (elim progressE) (blast intro: worker_step_inv main_step_inv handle_inv)+

lemma step_inv: "pool_inv m s \<Longrightarrow> 0 < n \<Longrightarrow> step m n s s' \<Longrightarrow> pool_inv m s'"
  by (elim stepE) (blast intro: progress_inv submit_inv free_inv)+

lemma reachable_inv: "reachable m n s \<Longrightarrow> 0 < n \<Longrightarrow> pool_inv m s"
  by (induction rule: reachable.induct) (blast intro: pool_inv_empty step_inv)+

end
