(* ===== verification/Pool_Theorems.thy ===== *)
theory Pool_Theorems
  imports Pool_Invariant
begin

text \<open>
  What the thread pool promises: every submitted job is executed exactly once and its
  completion handled exactly once, in every interleaving; no wake-up or notification is
  lost, so that the pool always drains; the number of live workers is bounded; and
  cancelling a running job never meets a null job. The pool refines a plain job server.
\<close>

section \<open>Work left\<close>

definition thread_rank :: "'j thread \<Rightarrow> nat" where
  "thread_rank t =
     (case pc t of Running \<Rightarrow> 4 | Ran \<Rightarrow> 3 | Flagged \<Rightarrow> 2
                 | Waiting \<Rightarrow> (if waiting t then 0 else 5) | Exited \<Rightarrow> 0)"

fun main_rank :: "'j main \<Rightarrow> nat" where
  "main_rank M_idle = 0"
| "main_rank (Joining _) = 1"
| "main_rank (Wake_signal _) = 2"
| "main_rank (Wake_flag _) = 8"
| "main_rank (Wake_job _ _) = 9"
| "main_rank (Wake_id _ _ _) = 10"

definition work :: "'j pool \<Rightarrow> nat" where
  "work s = sum_list (map thread_rank (threads s)) + length (pipe s) + 10 * length (jobq s) +
     main_rank (main s)"

lemma thread_rank_fields [simp]:
  "thread_rank (t\<lparr>sh_id := i\<rparr>) = thread_rank t" "thread_rank (t\<lparr>sh_job := x\<rparr>) = thread_rank t"
  "thread_rank (t\<lparr>token := b\<rparr>) = thread_rank t"
  by (simp_all add: thread_rank_def split: pc.split)

lemma sum_list_update_nat:
  "w < length xs \<Longrightarrow> sum_list (map f (xs[w := t])) + f (xs ! w) = sum_list (map f xs) + (f t :: nat)"
  by (induction xs arbitrary: w) (auto split: nat.splits)

lemma rank_set_thread:
  assumes "w < length (threads s)"
  shows "sum_list (map thread_rank (threads (set_thread w t s))) + thread_rank (threads s ! w) =
    sum_list (map thread_rank (threads s)) + thread_rank t"
  using sum_list_update_nat [OF assms, of thread_rank t] by (simp add: set_thread_def)

lemma worker_step_work:
  assumes inv: "pool_inv m s" and st: "worker_step m w s = Some s'"
  shows "work s' < work s"
proof -
  note ok = pool_invD [OF inv]
  have w: "w < length (threads s)" using st by (auto simp: worker_step_def split: if_splits)
  let ?t = "threads s ! w"
  show ?thesis
  proof (cases "pc ?t")
    case Running
    obtain j where "s' = (set_thread w (?t\<lparr>pc := Ran\<rparr>) s)\<lparr>executed := executed s @ [(cur_id ?t, j)]\<rparr>"
      using st w Running by (auto simp: worker_step_def Let_def split: option.splits)
    then show ?thesis
      using rank_set_thread [OF w, of "?t\<lparr>pc := Ran\<rparr>"] Running by (simp add: work_def thread_rank_def)
  next
    case Ran
    then have "s' = set_thread w (?t\<lparr>pc := Flagged, waiting := True\<rparr>) s"
      using st w by (auto simp: worker_step_def Let_def)
    then show ?thesis
      using rank_set_thread [OF w, of "?t\<lparr>pc := Flagged, waiting := True\<rparr>"] Ran
      by (simp add: work_def thread_rank_def)
  next
    case Flagged
    then have "s' = (set_thread w (?t\<lparr>pc := Waiting\<rparr>) s)\<lparr>pipe := pipe s @ [cur_id ?t]\<rparr>"
      using st w by (auto simp: worker_step_def Let_def)
    moreover have "waiting ?t" using busy_running [OF ok(4) [OF w]] Flagged by auto
    ultimately show ?thesis
      using rank_set_thread [OF w, of "?t\<lparr>pc := Waiting\<rparr>"] Flagged by (simp add: work_def thread_rank_def)
  next
    case Waiting
    then have wk: "woken m ?t" using st w by (auto simp: worker_step_def Let_def split: if_splits)
    let ?u = "?t\<lparr>pc := (case sh_job ?t of None \<Rightarrow> Exited | Some _ \<Rightarrow> Running), cur_id := sh_id ?t,
      cur_job := sh_job ?t, token := False\<rparr>"
    have "s' = set_thread w ?u s" using st w Waiting wk by (auto simp: worker_step_def Let_def)
    moreover have "\<not> waiting ?t"
      using woken_worker [OF ok(4) [OF w] Waiting wk ok(1)] by (simp add: alerted_def)
    ultimately show ?thesis
      using rank_set_thread [OF w, of ?u] Waiting
      by (auto simp: work_def thread_rank_def split: option.splits)
  next
    case Exited
    then show ?thesis using st w by (simp add: worker_step_def Let_def)
  qed
qed

lemma main_step_work:
  assumes inv: "pool_inv m s" and st: "main_step m s = Some s'"
  shows "work s' < work s"
proof -
  have len: "w < length (threads s)" if "main_target (main s) = Some w" for w
    using inv that by (auto simp: pool_inv_def lists_ok_def)
  show ?thesis
  proof (cases "main s")
    case (Wake_id w i j)
    then show ?thesis
      using st rank_set_thread [OF len, of w "(threads s ! w)\<lparr>sh_id := i\<rparr>"]
      by (auto simp: main_step_def work_def)
  next
    case (Wake_job w j)
    then show ?thesis
      using st rank_set_thread [OF len, of w "(threads s ! w)\<lparr>sh_job := j\<rparr>"]
      by (auto simp: main_step_def work_def)
  next
    case (Wake_flag w)
    have "thread_rank ((threads s ! w)\<lparr>waiting := False\<rparr>) \<le> 5"
      by (simp add: thread_rank_def split: pc.split)
    then show ?thesis
      using st Wake_flag rank_set_thread [OF len, of w "(threads s ! w)\<lparr>waiting := False\<rparr>"]
      by (auto simp: main_step_def work_def after_wake_def Let_def split: if_splits)
  next
    case (Wake_signal w)
    have "thread_rank ((threads s ! w)\<lparr>token := True\<rparr>) = thread_rank (threads s ! w)"
      by (simp add: thread_rank_def)
    then show ?thesis
      using st Wake_signal rank_set_thread [OF len, of w "(threads s ! w)\<lparr>token := True\<rparr>"]
      by (auto simp: main_step_def work_def after_wake_def)
  next
    case (Joining w)
    then show ?thesis using st by (auto simp: main_step_def work_def split: if_splits)
  next
    case M_idle
    then show ?thesis using st by (simp add: main_step_def)
  qed
qed

lemma handle_work:
  assumes inv: "pool_inv m s" and st: "handle_completed_job s = Some s'"
  shows "work s' < work s"
proof -
  obtain i rest w where h: "main s = M_idle" "pipe s = i # rest" "running s i = Some w"
    using st by (auto simp: handle_completed_job_def split: if_splits list.splits option.splits)
  have w: "w < length (threads s)" using inv h(3) by (auto simp: pool_inv_def running_ok_def)
  let ?t = "(threads s ! w)\<lparr>sh_job := None\<rparr>"
  have "thread_rank ?t = thread_rank (threads s ! w)" by (simp add: thread_rank_def)
  then have "sum_list (map thread_rank ((threads s)[w := ?t])) = sum_list (map thread_rank (threads s))"
    using sum_list_update_nat [OF w, of thread_rank ?t] by simp
  then show ?thesis
    using st h
    by (auto simp: handle_completed_job_def work_def worker_enter_idle_def wake_worker_def
        set_thread_def Let_def split: list.splits)
qed

lemma progress_work: "pool_inv m s \<Longrightarrow> progress m s s' \<Longrightarrow> work s' < work s"
  by (elim progressE) (blast intro: worker_step_work main_step_work handle_work)+

lemma progress_keeps:
  assumes "progress m s s'"
  shows "submitted s' = submitted s" "next_id s' = next_id s"
proof -
  have "submitted s' = submitted s \<and> next_id s' = next_id s"
    using assms
  proof (rule progressE)
    fix w assume "worker_step m w s = Some s'"
    then show ?thesis by (auto simp: worker_step_def Let_def split: if_splits pc.splits option.splits)
  next
    assume "main_step m s = Some s'"
    then show ?thesis
      by (auto simp: main_step_def after_wake_def Let_def split: main.splits if_splits)
  next
    assume "handle_completed_job s = Some s'"
    then show ?thesis
      by (auto simp: handle_completed_job_def worker_enter_idle_def wake_worker_def Let_def
          split: if_splits list.splits option.splits)
  qed
  then show "submitted s' = submitted s" "next_id s' = next_id s" by auto
qed

section \<open>The pool is never stuck\<close>

lemma main_can_step:
  assumes inv: "pool_inv m s" and busy: "main s \<noteq> M_idle"
  shows "\<exists>s'. progress m s s'"
proof (cases "\<exists>w. main s = Joining w \<and> pc (threads s ! w) \<noteq> Exited")
  case True
  then obtain w where w: "main s = Joining w" "pc (threads s ! w) \<noteq> Exited" by blast
  note ok = pool_invD [OF inv]
  have mw: "w < length (threads s)" "view s w = Joining w"
    using main_waking [OF inv, of w] w by auto
  have "\<forall>i. running s i \<noteq> Some w"
  proof
    fix i show "running s i \<noteq> Some w"
    proof
      assume i: "running s i = Some w"
      from worker_okD [OF ok(4) [OF mw(1)] i] obtain j where
        "job_phase m (threads s ! w) (Joining w) i j (i \<in> set (pipe s)) (i \<in> ids (executed s))"
        unfolding mw(2) by blast
      then show False by (simp add: job_phase_def before_run_def after_run_def split: if_splits)
    qed
  qed
  moreover have "w \<notin> set (idle s)"
    using ok(4) [OF mw(1)] mw(2) unfolding worker_ok_def by (metis main.distinct(9))
  ultimately have "freed_phase m (threads s ! w) (Joining w)"
    using ok(4) [OF mw(1)] unfolding worker_ok_def mw(2) by blast
  then have "alerted m (threads s ! w)" using w(2) by (auto simp: freed_phase_def)
  then have "worker_step m w s \<noteq> None"
    using mw(1) by (cases m) (auto simp: worker_step_def alerted_def woken_def Let_def)
  then show ?thesis by (blast intro: progress.worker)
next
  case False
  then have "main_step m s \<noteq> None"
    using busy by (auto simp: main_step_def Let_def split: main.splits)
  then show ?thesis by (blast intro: progress.main)
qed

lemma pool_can_step:
  assumes inv: "pool_inv m s" and i: "i < next_id s" "i \<notin> set (completed s)"
  shows "\<exists>s'. progress m s s'"
proof (cases "main s = M_idle")
  case False
  then show ?thesis by (rule main_can_step [OF inv])
next
  case mi: True
  note ok = pool_invD [OF inv]
  have "\<exists>k. running s k \<noteq> None"
    using ok(3) i unfolding jobs_ok_def by (metis empty_iff empty_set ids_simps(1))
  then obtain k w where k: "running s k = Some w" by auto
  have w: "w < length (threads s)" using ok(2) k by (auto simp: running_ok_def)
  let ?t = "threads s ! w"
  obtain j where ph: "job_phase m ?t M_idle k j (k \<in> set (pipe s)) (k \<in> ids (executed s))"
    using worker_okD [OF ok(4) [OF w] k] unfolding view_idle [OF mi] by blast
  show ?thesis
  proof (cases "k \<in> set (pipe s)")
    case True
    then obtain h rest where p: "pipe s = h # rest" by (cases "pipe s") auto
    then have "running s h \<noteq> None" using ok(1) by (auto simp: lists_ok_def)
    then have "handle_completed_job s \<noteq> None"
      using mi p by (auto simp: handle_completed_job_def Let_def split: list.splits)
    then show ?thesis by (blast intro: progress.handle)
  next
    case False
    then have "worker_step m w s \<noteq> None"
      using ph w
      by (cases m) (auto simp: job_phase_def before_run_def after_run_def worker_step_def alerted_def
          woken_def Let_def split: if_splits)
    then show ?thesis by (blast intro: progress.worker)
  qed
qed

section \<open>Draining\<close>

lemma progress_run:
  "(progress m ^^ k) s s' \<Longrightarrow> pool_inv m s \<Longrightarrow>
    pool_inv m s' \<and> submitted s' = submitted s \<and> next_id s' = next_id s \<and> k + work s' \<le> work s"
proof (induction k arbitrary: s')
  case 0
  then show ?case by simp
next
  case (Suc k)
  then obtain t where t: "(progress m ^^ k) s t" "progress m t s'" by (auto elim: relpowp_Suc_E)
  have IH: "pool_inv m t" "submitted t = submitted s" "next_id t = next_id s" "k + work t \<le> work s"
    using Suc.IH [OF t(1) Suc.prems(2)] by auto
  then show ?case
    using progress_inv [OF IH(1) t(2)] progress_keeps [OF t(2)] progress_work [OF IH(1) t(2)] by simp
qed

lemma all_completed:
  assumes inv: "pool_inv m s" and stuck: "\<not> (\<exists>t. progress m s t)"
  shows "set (completed s) = {..<next_id s}"
proof
  have "set (completed s) \<subseteq> ids (executed s)" "set (executed s) \<subseteq> set (submitted s)"
    using pool_invD(3) [OF inv] by (auto simp: jobs_ok_def)
  then show "set (completed s) \<subseteq> {..<next_id s}"
    using next_id_fresh(6) [OF inv] by (force simp: ids_def)
  show "{..<next_id s} \<subseteq> set (completed s)"
    using pool_can_step [OF inv] stuck by blast
qed

lemma pool_drains_inv:
  assumes "pool_inv m s"
  shows "\<exists>k t. (progress m ^^ k) s t \<and> \<not> (\<exists>u. progress m t u)"
  using assms
proof (induction "work s" arbitrary: s rule: less_induct)
  case less
  show ?case
  proof (cases "\<exists>u. progress m s u")
    case False
    then show ?thesis by (intro exI [of _ 0] exI [of _ s]) simp
  next
    case True
    then obtain u where u: "progress m s u" by blast
    from less(1) [OF progress_work [OF less(2) u] progress_inv [OF less(2) u]]
    obtain k t where "(progress m ^^ k) u t" "\<not> (\<exists>u. progress m t u)" by blast
    then show ?thesis using relpowp_Suc_I2 [of "progress m" s u] u by blast
  qed
qed

section \<open>Properties\<close>

text \<open>One job submitted to a pool of one worker.\<close>

definition one_job :: "nat pool" where
  "one_job = the (submit 1 7 empty_pool)"

lemma reachable_one_job: "reachable m 1 one_job"
proof -
  have "submit 1 7 (empty_pool :: nat pool) = Some one_job"
    by (simp add: one_job_def submit_def empty_pool_def running_count_def Let_def)
  then show ?thesis by (blast intro: reachable.intros step.intros)
qed

text \<open>
  Claim C1 (safety). In every interleaving of the workers with the event loop, on all three
  wake-up mechanisms: no job is executed twice, and only with the job data it was submitted
  with; no completion is handled twice, and none before its job was executed; and every
  notification in the pipe is for a worker that the event loop has on record, so that the
  guard of \<open>handle_completed_job\<close> never fails.
\<close>

theorem jobs_executed_once:
  assumes "reachable m n s" "0 < n"
  shows "distinct (map fst (executed s)) \<and> set (executed s) \<subseteq> set (submitted s) \<and>
    distinct (map fst (submitted s)) \<and>
    distinct (completed s) \<and> set (completed s) \<subseteq> fst ` set (executed s) \<and>
    (main s = M_idle \<and> pipe s \<noteq> [] \<longrightarrow> handle_completed_job s \<noteq> None)"
proof -
  note ok = pool_invD [OF reachable_inv [OF assms]]
  have "handle_completed_job s \<noteq> None" if h: "main s = M_idle" "pipe s \<noteq> []"
  proof -
    obtain i rest where p: "pipe s = i # rest" using h(2) by (cases "pipe s") auto
    then have "running s i \<noteq> None" using ok(1) by (auto simp: lists_ok_def)
    then show ?thesis using h(1) p by (auto simp: handle_completed_job_def Let_def split: list.splits)
  qed
  moreover have "distinct (map fst (submitted s))"
    using ok(3) unfolding jobs_ok_def by (metis distinct_upt)
  ultimately show ?thesis using ok(3) by (auto simp: jobs_ok_def ids_def)
qed

theorem jobs_executed_once_witness:
  "distinct (map fst (executed one_job)) \<and> set (executed one_job) \<subseteq> set (submitted one_job)"
  using jobs_executed_once [OF reachable_one_job [of By_signal]] by simp

text \<open>
  Claim C2 (liveness). No wake-up and no notification is lost: from every reachable state,
  whatever the schedule, the steps of the workers and of the event loop come to an end, and
  when they do every job submitted so far has been executed and its completion handled.
\<close>

theorem pool_drains:
  assumes "reachable m n s" "0 < n"
  shows "(\<exists>k t. (progress m ^^ k) s t \<and> \<not> (\<exists>u. progress m t u)) \<and>
    (\<forall>k t. (progress m ^^ k) s t \<longrightarrow> k \<le> work s \<and>
      (\<not> (\<exists>u. progress m t u) \<longrightarrow>
         fst ` set (submitted s) = set (completed t) \<and> set (executed t) = set (submitted s)))"
proof -
  note inv = reachable_inv [OF assms]
  have sub: "fst ` set (submitted u) = {..<next_id u}" if "pool_inv m u" for u :: "'a pool"
    using pool_invD(3) [OF that] unfolding jobs_ok_def
    by (metis atLeast_upt image_set)
  have "k \<le> work s \<and> (\<not> (\<exists>u. progress m t u) \<longrightarrow>
      fst ` set (submitted s) = set (completed t) \<and> set (executed t) = set (submitted s))"
    if run: "(progress m ^^ k) s t" for k t
  proof -
    have t: "pool_inv m t" "submitted t = submitted s" "next_id t = next_id s" "k + work t \<le> work s"
      using progress_run [OF run inv] by auto
    have "fst ` set (submitted s) = set (completed t) \<and> set (executed t) = set (submitted s)"
      if stuck: "\<not> (\<exists>u. progress m t u)"
    proof
      have c: "set (completed t) = {..<next_id t}" by (rule all_completed [OF t(1) stuck])
      then show "fst ` set (submitted s) = set (completed t)" using sub [OF t(1)] t(2) by simp
      have ex: "set (completed t) \<subseteq> ids (executed t)" "set (executed t) \<subseteq> set (submitted t)"
        using pool_invD(3) [OF t(1)] by (auto simp: jobs_ok_def)
      have "x \<in> set (executed t)" if x: "x \<in> set (submitted t)" for x
      proof -
        have "fst x \<in> ids (executed t)" using x c ex(1) sub [OF t(1)] by auto
        then obtain y where y: "y \<in> set (executed t)" "fst y = fst x" by (auto simp: ids_def)
        have "distinct (map fst (submitted t))"
          using pool_invD(3) [OF t(1)] unfolding jobs_ok_def by (metis distinct_upt)
        then have "y = x" using x y ex(2) by (auto simp: distinct_map inj_on_def)
        then show ?thesis using y by simp
      qed
      then show "set (executed t) = set (submitted s)" using ex(2) t(2) by auto
    qed
    then show ?thesis using t(4) by auto
  qed
  then show ?thesis using pool_drains_inv [OF inv] by blast
qed

theorem pool_drains_witness:
  "(\<exists>k t. (progress By_cond_var ^^ k) one_job t \<and> \<not> (\<exists>u. progress By_cond_var t u))"
  using pool_drains [OF reachable_one_job [of By_cond_var]] by simp

text \<open>
  Claim C38 (safety). Cancelling a job whose worker is on record never meets a null job, also
  while the worker is between finishing and being told what to do next; and a worker that is
  found to be waiting has executed its job.
\<close>

theorem cancel_worker_safe:
  assumes "reachable m n s" "0 < n" "main s = M_idle" "running s i = Some w"
  shows "cancel_worker pf handler cancel_io (threads s ! w) \<noteq> None \<and>
    (waiting (threads s ! w) \<longrightarrow> i \<in> fst ` set (executed s))"
proof -
  note ok = pool_invD [OF reachable_inv [OF assms(1,2)]]
  have w: "w < length (threads s)" using ok(2) assms(4) by (auto simp: running_ok_def)
  obtain j where "job_phase m (threads s ! w) M_idle i j (i \<in> set (pipe s)) (i \<in> ids (executed s))"
    using worker_okD [OF ok(4) [OF w] assms(4)] unfolding view_idle [OF assms(3)] by blast
  then show ?thesis
    by (auto simp: cancel_worker_def job_phase_def before_run_def after_run_def alerted_def asleep_def
        ids_def split: if_splits option.splits)
qed

theorem cancel_worker_safe_witness:
  "cancel_worker Windows (\<lambda>_. None) (False, 5) (threads one_job ! 0) \<noteq> None"
proof -
  have "main one_job = M_idle" "running one_job 0 = Some 0"
    by (simp_all add: one_job_def submit_def empty_pool_def running_count_def spawn_worker_def Let_def)
  with cancel_worker_safe [OF reachable_one_job [of By_event]] show ?thesis by simp
qed

section \<open>The number of live workers\<close>

lemma running_count_card:
  assumes "running_ok s"
  shows "running_count s = card (dom (running s))" "finite (dom (running s))"
proof -
  have eq: "dom (running s) = {i. i < next_id s \<and> running s i \<noteq> None}"
    using assms by (auto simp: running_ok_def)
  then show "finite (dom (running s))" by simp
  have "running_count s = card (set (filter (\<lambda>i. running s i \<noteq> None) [0..<next_id s]))"
    unfolding running_count_def by (rule distinct_card [symmetric]) simp
  then show "running_count s = card (dom (running s))" unfolding eq by simp
qed

definition in_free :: "'j pool \<Rightarrow> nat" where
  "in_free s = (case main s of Joining _ \<Rightarrow> 1 | _ \<Rightarrow> if freeing s then 1 else 0)"

definition count_ok :: "nat \<Rightarrow> 'j pool \<Rightarrow> bool" where
  "count_ok n s \<longleftrightarrow> card (dom (running s)) + length (idle s) + in_free s \<le> n"

lemma worker_step_count:
  assumes "worker_step m w s = Some s'"
  shows "running s' = running s" "idle s' = idle s" "in_free s' = in_free s"
  using assms
  by (auto simp: worker_step_def in_free_def Let_def split: if_splits pc.splits option.splits)

lemma main_step_count:
  assumes "pool_inv m s" "main_step m s = Some s'"
  shows "running s' = running s" "idle s' = idle s" "in_free s' \<le> in_free s"
  using assms
  by (auto simp: main_step_def in_free_def after_wake_def Let_def split: main.splits if_splits)

lemma handle_count:
  assumes "pool_inv m s" "handle_completed_job s = Some s'" "count_ok n s"
  shows "count_ok n s'"
proof -
  obtain i rest w where h: "main s = M_idle" "pipe s = i # rest" "running s i = Some w"
    using assms(2) by (auto simp: handle_completed_job_def split: if_splits list.splits option.splits)
  have fin: "finite (dom (running s))" using running_count_card assms(1) by (auto simp: pool_inv_def)
  have nf: "\<not> freeing s" using assms(1) h(1) by (auto simp: pool_inv_def lists_ok_def)
  have i: "card (dom (running s)) = Suc (card (dom (running s) - {i}))"
    using h(3) fin by (metis card_Suc_Diff1 domI)
  show ?thesis
  proof (cases "jobq s")
    case Nil
    then have "running s' = (running s)(i := None)" "idle s' = idle s @ [w]" "in_free s' = 0"
      using assms(2) h nf
      by (auto simp: handle_completed_job_def worker_enter_idle_def in_free_def Let_def)
    then show ?thesis using assms(3) i by (simp add: count_ok_def in_free_def h nf)
  next
    case (Cons x q)
    then have "running s' = (running s)(i := None, fst x \<mapsto> w)" "idle s' = idle s" "in_free s' = 0"
      using assms(2) h nf
      by (auto simp: handle_completed_job_def wake_worker_def in_free_def Let_def split: prod.splits)
    moreover have "card (dom ((running s)(i := None, fst x \<mapsto> w))) \<le> Suc (card (dom (running s) - {i}))"
      using fin by (simp add: card_insert_le_m1 card_insert_if)
    ultimately show ?thesis using assms(3) i by (simp add: count_ok_def in_free_def h nf)
  qed
qed

lemma submit_count:
  assumes "pool_inv m s" "submit n j s = Some s'" "count_ok n s"
  shows "count_ok n s'"
proof -
  note ok = pool_invD [OF assms(1)]
  have mi: "main s = M_idle" using assms(2) by (auto simp: submit_def split: if_splits)
  have nf: "\<not> freeing s" using ok(1) mi by (auto simp: lists_ok_def)
  have fin: "finite (dom (running s))" and cnt: "running_count s = card (dom (running s))"
    using running_count_card [OF ok(2)] by auto
  have new: "running s (next_id s) = None" using next_id_fresh(1) [OF assms(1)] .
  have ins: "card (insert (next_id s) (dom (running s))) = Suc (card (dom (running s)))"
    using fin new by (intro card_insert_disjoint) auto
  show ?thesis
    using assms(2,3) mi nf cnt ins
    by (cases "idle s")
      (auto simp: submit_def Let_def count_ok_def in_free_def spawn_worker_def wake_worker_def
        split: if_splits)
qed

lemma free_count:
  assumes "free_idle_worker s = Some s'" "count_ok n s"
  shows "count_ok n s'"
  using assms
  by (auto simp: free_idle_worker_def count_ok_def in_free_def wake_worker_def
      split: if_splits list.splits)

lemma count_ok_mono:
  "count_ok n s \<Longrightarrow> running s' = running s \<Longrightarrow> idle s' = idle s \<Longrightarrow> in_free s' \<le> in_free s \<Longrightarrow>
    count_ok n s'"
  by (simp add: count_ok_def)

lemma progress_count:
  assumes "progress m s s'" "pool_inv m s" "count_ok n s"
  shows "count_ok n s'"
  using assms(1)
proof (rule progressE)
  fix w assume "worker_step m w s = Some s'"
  from worker_step_count [OF this] show ?thesis by (intro count_ok_mono [OF assms(3)]) auto
next
  assume "main_step m s = Some s'"
  from main_step_count [OF assms(2) this] show ?thesis by (intro count_ok_mono [OF assms(3)]) auto
next
  assume "handle_completed_job s = Some s'"
  from handle_count [OF assms(2) this assms(3)] show ?thesis .
qed

lemma step_count:
  assumes "step m n s s'" "pool_inv m s" "count_ok n s"
  shows "count_ok n s'"
  using assms(1)
proof (rule stepE)
  assume "progress m s s'"
  from progress_count [OF this assms(2,3)] show ?thesis .
next
  fix j assume "submit n j s = Some s'"
  from submit_count [OF assms(2) this assms(3)] show ?thesis .
next
  assume "free_idle_worker s = Some s'"
  from free_count [OF this assms(3)] show ?thesis .
qed

lemma reachable_count:
  assumes "reachable m n s" "0 < n"
  shows "count_ok n s"
  using assms(1)
proof (induction rule: reachable.induct)
  case start
  show ?case by (simp add: count_ok_def in_free_def empty_pool_def)
next
  case (more s s')
  then show ?case using step_count reachable_inv [OF more(1) assms(2)] by blast
qed

text \<open>
  Claim C39 (bounds). At no time are there more worker threads that have not returned than
  \<open>max_worker_count\<close>, counting those that run a job, those that are idle and one that is
  being freed.
\<close>

theorem workers_bounded:
  assumes "reachable m n s" "0 < n"
  shows "card {w. w < length (threads s) \<and> pc (threads s ! w) \<noteq> Exited} \<le> n"
proof -
  note inv = reachable_inv [OF assms]
  note ok = pool_invD [OF inv]
  have fin: "finite (dom (running s))" using running_count_card [OF ok(2)] by auto
  let ?F = "{w. main_target (main s) = Some w \<and> in_free s = 1}"
  have F: "finite ?F" "card ?F \<le> in_free s"
    by (cases "main s"; simp add: in_free_def)+
  have "{w. w < length (threads s) \<and> pc (threads s ! w) \<noteq> Exited} \<subseteq> ran (running s) \<union> set (idle s) \<union> ?F"
  proof
    fix w assume "w \<in> {w. w < length (threads s) \<and> pc (threads s ! w) \<noteq> Exited}"
    then have w: "w < length (threads s)" "pc (threads s ! w) \<noteq> Exited" by auto
    show "w \<in> ran (running s) \<union> set (idle s) \<union> ?F"
    proof (rule ccontr)
      assume out: "w \<notin> ran (running s) \<union> set (idle s) \<union> ?F"
      then have "freed_phase m (threads s ! w) (view s w) \<and> (is_wake (view s w) \<longrightarrow> freeing s)"
        using ok(4) [OF w(1)] unfolding worker_ok_def ran_def by blast
      then show False
        using w(2) out
        by (cases "main s") (auto simp: freed_phase_def view_def in_free_def split: if_splits)
    qed
  qed
  then have "card {w. w < length (threads s) \<and> pc (threads s ! w) \<noteq> Exited} \<le>
      card (ran (running s) \<union> set (idle s) \<union> ?F)"
    using fin F(1) by (intro card_mono) (auto simp: finite_ran)
  also have "\<dots> \<le> card (ran (running s)) + card (set (idle s)) + card ?F"
    by (meson add_le_mono1 card_Un_le order_trans)
  also have "\<dots> \<le> card (dom (running s)) + length (idle s) + in_free s"
  proof -
    have "ran (running s) = (\<lambda>i. the (running s i)) ` dom (running s)"
      by (force simp: ran_def dom_def image_def)
    then have "card (ran (running s)) \<le> card (dom (running s))"
      using fin card_image_le by metis
    then show ?thesis using F(2) card_length [of "idle s"] by linarith
  qed
  also have "\<dots> \<le> n" using reachable_count [OF assms] by (simp add: count_ok_def)
  finally show ?thesis .
qed

theorem workers_bounded_witness:
  "card {w. w < length (threads one_job) \<and> pc (threads one_job ! w) \<noteq> Exited} \<le> 1"
  using workers_bounded [OF reachable_one_job [of By_event]] by simp

section \<open>Refinement of a job server\<close>

text \<open>
  The specification: a set of jobs to do, of which any may be executed next, the jobs
  executed, and the jobs reported.
\<close>

record 'j server =
  todo :: "(nat \<times> 'j) set"
  ran_jobs :: "(nat \<times> 'j) list"
  reported :: "nat list"

inductive serve :: "'j server \<Rightarrow> 'j server \<Rightarrow> bool" where
  accept: "i \<notin> fst ` todo a \<Longrightarrow> i \<notin> fst ` set (ran_jobs a) \<Longrightarrow>
    serve a (a\<lparr>todo := insert (i, j) (todo a)\<rparr>)"
| execute: "(i, j) \<in> todo a \<Longrightarrow>
    serve a (a\<lparr>todo := todo a - {(i, j)}, ran_jobs := ran_jobs a @ [(i, j)]\<rparr>)"
| report: "i \<in> fst ` set (ran_jobs a) \<Longrightarrow> i \<notin> set (reported a) \<Longrightarrow>
    serve a (a\<lparr>reported := reported a @ [i]\<rparr>)"

definition abs_pool :: "'j pool \<Rightarrow> 'j server" where
  "abs_pool s = \<lparr>todo = set (submitted s) - set (executed s), ran_jobs = executed s,
     reported = completed s\<rparr>"

lemma worker_step_refines:
  assumes inv: "pool_inv m s" and st: "worker_step m w s = Some s'"
  shows "abs_pool s' = abs_pool s \<or> serve (abs_pool s) (abs_pool s')"
proof (cases "w < length (threads s) \<and> pc (threads s ! w) = Running")
  case True
  then have okw: "worker_ok m s w" using inv by (auto simp: pool_inv_def)
  obtain i j where i: "(i, j) \<in> set (submitted s)" "cur_id (threads s ! w) = i"
      "i \<notin> ids (executed s)" "cur_job (threads s ! w) = Some j"
    using busy_running [OF okw] True by auto
  then have "submitted s' = submitted s" "executed s' = executed s @ [(i, j)]" "completed s' = completed s"
    using st True by (auto simp: worker_step_def Let_def)
  moreover have "(i, j) \<in> todo (abs_pool s)" using i by (auto simp: abs_pool_def dest: ids_I)
  ultimately have "abs_pool s' = (abs_pool s)\<lparr>todo := todo (abs_pool s) - {(i, j)},
      ran_jobs := ran_jobs (abs_pool s) @ [(i, j)]\<rparr>"
    by (auto simp: abs_pool_def)
  then show ?thesis using serve.execute \<open>(i, j) \<in> todo (abs_pool s)\<close> by metis
next
  case False
  then have "submitted s' = submitted s" "executed s' = executed s" "completed s' = completed s"
    using st by (auto simp: worker_step_def Let_def split: if_splits pc.splits option.splits)
  then show ?thesis by (simp add: abs_pool_def)
qed

lemma handle_refines:
  assumes inv: "pool_inv m s" and st: "handle_completed_job s = Some s'"
  shows "serve (abs_pool s) (abs_pool s')"
proof -
  obtain i rest w where h: "main s = M_idle" "pipe s = i # rest" "running s i = Some w"
    using st by (auto simp: handle_completed_job_def split: if_splits list.splits option.splits)
  have "i \<in> ids (executed s)" using notified_worker(3) [OF inv _ h(3)] h(2) by simp
  moreover have "i \<notin> set (completed s)" using inv h(3) by (auto simp: pool_inv_def running_ok_def)
  moreover have "submitted s' = submitted s" "executed s' = executed s" "completed s' = completed s @ [i]"
    using st h
    by (auto simp: handle_completed_job_def worker_enter_idle_def wake_worker_def Let_def
        split: list.splits)
  ultimately show ?thesis
    using serve.report [of i "abs_pool s"] by (simp add: abs_pool_def ids_def)
qed

lemma submit_refines:
  assumes inv: "pool_inv m s" and st: "submit n j s = Some s'"
  shows "serve (abs_pool s) (abs_pool s')"
proof -
  note new = next_id_fresh [OF inv]
  have f: "submitted s' = submitted s @ [(next_id s, j)]" "executed s' = executed s"
      "completed s' = completed s"
    using st
    by (auto simp: submit_def spawn_worker_def wake_worker_def Let_def split: if_splits list.splits)
  have "next_id s \<notin> fst ` todo (abs_pool s)"
    using new(6) less_irrefl by (fastforce simp: abs_pool_def)
  moreover have "next_id s \<notin> fst ` set (ran_jobs (abs_pool s))"
    using new(3) by (simp add: abs_pool_def ids_def)
  moreover have "abs_pool s' = (abs_pool s)\<lparr>todo := insert (next_id s, j) (todo (abs_pool s))\<rparr>"
    using f new(3) by (auto simp: abs_pool_def dest: ids_I)
  ultimately show ?thesis using serve.accept by metis
qed

text \<open>
  Claim C3 (refinement). The thread pool refines the job server: in every reachable state,
  each step of a worker, of a wake-up, of the handling of a completion, of a submission or of
  the freeing of a worker is either invisible or the acceptance, execution or report of one
  job by the server.
\<close>

theorem pool_refines_server:
  assumes "reachable m n s" "0 < n" "step m n s s'"
  shows "abs_pool s' = abs_pool s \<or> serve (abs_pool s) (abs_pool s')"
proof -
  note inv = reachable_inv [OF assms(1,2)]
  have mainstep: "abs_pool s' = abs_pool s" if "main_step m s = Some s'"
    using that by (auto simp: main_step_def abs_pool_def after_wake_def Let_def split: main.splits if_splits)
  have free: "abs_pool s' = abs_pool s" if "free_idle_worker s = Some s'"
    using that by (auto simp: free_idle_worker_def abs_pool_def wake_worker_def split: if_splits list.splits)
  from assms(3) show ?thesis
    using worker_step_refines [OF inv] handle_refines [OF inv] submit_refines [OF inv] mainstep free
    by (elim stepE progressE) blast+
qed

theorem pool_refines_server_witness:
  "\<exists>s'. worker_step By_event 0 one_job = Some s' \<and>
    (abs_pool s' = abs_pool one_job \<or> serve (abs_pool one_job) (abs_pool s'))"
proof -
  obtain s' where st: "worker_step By_event 0 one_job = Some s'"
    by (simp add: one_job_def submit_def empty_pool_def running_count_def spawn_worker_def
        worker_step_def Let_def)
  have "step By_event 1 one_job s'" by (blast intro: step.progress progress.worker st)
  from pool_refines_server [OF reachable_one_job _ this] st show ?thesis by simp
qed

end
