(* ===== verification/Byte_Fields.thy ===== *)
theory Byte_Fields
  imports Prelude
begin

text \<open>
  Fields of C structures laid out in a byte buffer: a field is read at an offset, and is
  \<open>None\<close> where the code would read outside the buffer. The machines the runtime supports
  are little endian; network order is the reverse. The rules of the collection \<open>layout\<close>
  compute a field of a buffer that is written as a concatenation of fields.
\<close>

definition le_at :: "byte list \<Rightarrow> nat \<Rightarrow> nat \<Rightarrow> nat option" where
  "le_at buf off n = map_option le_val (rd buf off n)"

definition byte_at :: "byte list \<Rightarrow> nat \<Rightarrow> byte option" where
  "byte_at buf off = (if off < length buf then Some (buf ! off) else None)"

text \<open>\<open>strlen\<close>: the bytes before the first NUL.\<close>

definition c_strlen :: "byte list \<Rightarrow> nat option" where
  "c_strlen bs = (if 0 \<in> set bs then Some (length (takeWhile (\<lambda>b. b \<noteq> 0) bs)) else None)"

definition be_bytes :: "nat \<Rightarrow> nat \<Rightarrow> byte list" where
  "be_bytes n v = rev (le_bytes n v)"

definition be_val :: "byte list \<Rightarrow> nat" where
  "be_val bs = le_val (rev bs)"

lemma length_be_bytes [simp]: "length (be_bytes n v) = n"
  by (simp add: be_bytes_def)

lemma be_val_be_bytes: "be_val (be_bytes n v) = v mod 256 ^ n"
  by (simp add: be_val_def be_bytes_def le_val_le_bytes)

section \<open>Reading a field of a concatenation\<close>

lemma rd_skip [layout]: "length xs \<le> k \<Longrightarrow> rd (xs @ ys) k n = rd ys (k - length xs) n"
  by (auto simp: rd_def slice_def)

lemma rd_here [layout]: "length xs = n \<Longrightarrow> rd (xs @ ys) 0 n = Some xs"
  by (auto simp: rd_def slice_def)

lemma rd_all [layout]: "length xs = n \<Longrightarrow> rd xs 0 n = Some xs"
  by (auto simp: rd_def slice_def)

lemma le_at_skip [layout]: "length xs \<le> k \<Longrightarrow> le_at (xs @ ys) k n = le_at ys (k - length xs) n"
  by (simp add: le_at_def rd_skip)

lemma le_at_here [layout]: "le_at (le_bytes n v @ ys) 0 n = Some (v mod 256 ^ n)"
  by (simp add: le_at_def rd_here le_val_le_bytes)

lemma le_at_end [layout]: "le_at (le_bytes n v) 0 n = Some (v mod 256 ^ n)"
  by (simp add: le_at_def rd_all le_val_le_bytes)

lemma rd_Cons [layout]: "rd (b # bs) (Suc k) n = rd bs k n"
  by (simp add: rd_def slice_def)

lemma le_at_Cons [layout]:
  "le_at (b # bs) (Suc k) n = le_at bs k n"
  "le_at (b # bs) 0 (Suc 0) = Some (unat b)"
  by (simp_all add: le_at_def rd_Cons) (simp add: rd_def slice_def)

lemma byte_at_skip [layout]: "length xs \<le> k \<Longrightarrow> byte_at (xs @ ys) k = byte_at ys (k - length xs)"
  by (auto simp: byte_at_def nth_append)

lemma byte_at_Cons [layout]: "byte_at (b # bs) 0 = Some b"
  by (simp add: byte_at_def)

lemma byte_at_append: "bs \<noteq> [] \<Longrightarrow> byte_at (bs @ cs) 0 = Some (hd bs)"
  by (cases bs) (simp_all add: byte_at_def)

text \<open>A buffer is read in the middle: what precedes the structure only shifts the offset.\<close>

lemma rd_shift0: "rd (pre @ ys) (length pre + k) n = rd ys k n"
  by (simp add: rd_skip)

lemma le_at_shift: "le_at (pre @ ys) (length pre + k) n = le_at ys k n"
  by (simp add: le_at_skip)

lemma byte_at_shift: "byte_at (pre @ ys) (length pre + k) = byte_at ys k"
  by (simp add: byte_at_skip)

lemma takeWhile_nonzero: "0 \<notin> set s \<Longrightarrow> takeWhile (\<lambda>b. b \<noteq> (0::byte)) s = s"
  by (induction s) auto

lemma c_strlen_append: "0 \<notin> set s \<Longrightarrow> c_strlen (s @ 0 # rest) = Some (length s)"
  by (simp add: c_strlen_def takeWhile_tail takeWhile_nonzero)

lemma c_strlen_bound: "c_strlen bs = Some n \<Longrightarrow> n < length bs"
proof -
  have "0 \<in> set bs \<Longrightarrow> length (takeWhile (\<lambda>b. b \<noteq> (0::byte)) bs) < length bs"
    by (induction bs) auto
  then show "c_strlen bs = Some n \<Longrightarrow> n < length bs"
    by (auto simp: c_strlen_def split: if_splits)
qed

text \<open>A field of \<open>n\<close> bytes is below \<open>256 ^ n\<close>.\<close>

lemma le_at_bound: "le_at buf off n = Some v \<Longrightarrow> v < 256 ^ n"
proof -
  assume "le_at buf off n = Some v"
  then obtain bs where "rd buf off n = Some bs" "v = le_val bs"
    by (auto simp: le_at_def)
  moreover from this(1) have "length bs = n"
    by (auto simp: rd_def split: if_splits)
  ultimately show ?thesis using le_val_bound [of bs] by simp
qed

end
