(* ===== verification/Dir_Entries.thy ===== *)
theory Dir_Entries
  imports Platform Byte_Fields
begin

text \<open>
  Reading a directory: the accessors of \<open>fs/dir.c\<close> over the buffer a \<open>readdir\<close> job fills,
  and \<open>Directory::next\<close> of \<open>fs/dir.mbt\<close>, which walks it. The buffer is a list of bytes;
  an access outside it is \<open>None\<close>. The structures are \<open>linux_dirent64\<close>, the packed
  record of \<open>getattrlistbulk\<close> and \<open>FILE_ID_BOTH_DIR_INFO\<close>; their encoders below follow the
  system documentation and are what the theorems assume of the buffers.
\<close>

section \<open>The accessors of dir.c\<close>

definition NAME_MAX :: nat where "NAME_MAX = 255"
definition MAX_PATH :: nat where "MAX_PATH = 260"
definition DT_UNKNOWN :: nat where "DT_UNKNOWN = 0"
definition DT_DIR :: nat where "DT_DIR = 4"
definition VNON :: nat where "VNON = 0"
definition VDIR :: nat where "VDIR = 2"
definition ATTR_CMN_OBJTYPE :: "32 word" where "ATTR_CMN_OBJTYPE = 8"

text \<open>\<open>None\<close>: the file does not compile (\<open>#error\<close>).\<close>

fun sizeof_dirent :: "platform \<Rightarrow> nat option" where
  "sizeof_dirent Windows = Some 112"
| "sizeof_dirent MacOS = Some 44"
| "sizeof_dirent Linux = Some 24"
| "sizeof_dirent OtherUnix = None"

definition dir_buffer_min_size :: "platform \<Rightarrow> nat option" where
  "dir_buffer_min_size pf =
     (case sizeof_dirent pf of
        None \<Rightarrow> None
      | Some n \<Rightarrow> Some (if pf = Windows then n + MAX_PATH * 2 else n + NAME_MAX))"

text \<open>A field of \<open>n\<close> bytes at byte \<open>k\<close> of the structure at \<open>buf + offset\<close>.\<close>

definition field :: "byte list \<Rightarrow> int \<Rightarrow> nat \<Rightarrow> nat \<Rightarrow> nat option" where
  "field buf offset k n = (if 0 \<le> offset then le_at buf (nat offset + k) n else None)"

definition as_i32 :: "nat option \<Rightarrow> int option" where
  "as_i32 = map_option (\<lambda>v. i32 (int v))"

fun dir_entry_length :: "platform \<Rightarrow> byte list \<Rightarrow> int \<Rightarrow> int option" where
  "dir_entry_length Windows buf offset = as_i32 (field buf offset 0 4)"
| "dir_entry_length MacOS buf offset = as_i32 (field buf offset 0 4)"
| "dir_entry_length Linux buf offset = as_i32 (field buf offset 16 2)"
| "dir_entry_length OtherUnix buf offset = None"

fun dir_entry_get_name_len :: "platform \<Rightarrow> byte list \<Rightarrow> int \<Rightarrow> int option" where
  "dir_entry_get_name_len Windows buf offset = as_i32 (field buf offset 60 4)"
| "dir_entry_get_name_len MacOS buf offset =
     map_option (\<lambda>v. i32 (int v - 1)) (field buf offset 28 4)"
| "dir_entry_get_name_len Linux buf offset =
     (if 0 \<le> offset then map_option int (c_strlen (drop (nat offset + 19) buf)) else None)"
| "dir_entry_get_name_len OtherUnix buf offset = None"

fun dir_entry_get_name_offset :: "platform \<Rightarrow> byte list \<Rightarrow> int \<Rightarrow> int option" where
  "dir_entry_get_name_offset Windows buf offset = Some 104"
| "dir_entry_get_name_offset MacOS buf offset =
     map_option (\<lambda>v. 24 + i32 (int v)) (field buf offset 24 4)"
| "dir_entry_get_name_offset Linux buf offset = Some 19"
| "dir_entry_get_name_offset OtherUnix buf offset = None"

text \<open>1 is a directory, 0 is not, -1 is unknown.\<close>

fun dir_entry_is_dir :: "platform \<Rightarrow> byte list \<Rightarrow> int \<Rightarrow> int option" where
  "dir_entry_is_dir Windows buf offset =
     (case field buf offset 56 4 of
        None \<Rightarrow> None
      | Some v \<Rightarrow> let attrs = word_of_nat v :: 32 word
                  in Some (if attrs AND FILE_ATTRIBUTE_REPARSE_POINT = 0 \<and>
                              attrs AND FILE_ATTRIBUTE_DIRECTORY \<noteq> 0 then 1 else 0))"
| "dir_entry_is_dir MacOS buf offset =
     (case (field buf offset 4 4, field buf offset 32 4) of
        (Some common, Some type) \<Rightarrow>
          Some (if (word_of_nat common :: 32 word) AND ATTR_CMN_OBJTYPE = 0 then -1
                else if type = VNON then -1
                else if type = VDIR then 1
                else 0)
      | _ \<Rightarrow> None)"
| "dir_entry_is_dir Linux buf offset =
     (case field buf offset 18 1 of
        None \<Rightarrow> None
      | Some type \<Rightarrow> Some (if type = DT_UNKNOWN then -1 else if type = DT_DIR then 1 else 0))"
| "dir_entry_is_dir OtherUnix buf offset = None"

fun dir_entry_is_hidden :: "platform \<Rightarrow> byte list \<Rightarrow> int \<Rightarrow> bool option" where
  "dir_entry_is_hidden Windows buf offset =
     map_option (\<lambda>v. (word_of_nat v :: 32 word) AND FILE_ATTRIBUTE_HIDDEN \<noteq> 0)
       (field buf offset 56 4)"
| "dir_entry_is_hidden MacOS buf offset =
     (case field buf offset 24 4 of
        None \<Rightarrow> None
      | Some v \<Rightarrow> map_option (\<lambda>c. c = 46) (field buf (offset + 24 + i32 (int v)) 0 1))"
| "dir_entry_is_hidden Linux buf offset = map_option (\<lambda>c. c = 46) (field buf offset 19 1)"
| "dir_entry_is_hidden OtherUnix buf offset = None"

fun dir_entry_get_file_id :: "platform \<Rightarrow> byte list \<Rightarrow> int \<Rightarrow> nat option" where
  "dir_entry_get_file_id Windows buf offset = field buf offset 96 8"
| "dir_entry_get_file_id MacOS buf offset = field buf offset 36 8"
| "dir_entry_get_file_id Linux buf offset = field buf offset 0 8"
| "dir_entry_get_file_id OtherUnix buf offset = None"

section \<open>Directory::next\<close>

datatype directory_state = NoMoreEntry | NeedMoreEntry | HasBufferedEntry

text \<open>
  \<open>d_reads\<close> is what the coming \<open>readdir\<close> jobs return, each with the buffer it leaves;
  after the last one they return zero. The file descriptor and the buffer's length are only
  passed on to the job.
\<close>

record directory =
  d_buf :: "byte list"
  d_offset :: int
  d_count :: int
  d_job_ret :: int
  d_state :: directory_state
  d_reads :: "(int \<times> byte list) list"

record dir_entry =
  e_name :: "byte list"
  e_is_dir :: bool
  e_file_id :: nat

definition from_io_handle :: "(int \<times> byte list) list \<Rightarrow> directory" where
  "from_io_handle reads =
     \<lparr>d_buf = [], d_offset = 0, d_count = 0, d_job_ret = 0, d_state = NeedMoreEntry,
      d_reads = reads\<rparr>"

definition dir_buf_len :: "platform \<Rightarrow> nat option" where
  "dir_buf_len pf = map_option (max 1024) (dir_buffer_min_size pf)"

definition readdir :: "directory \<Rightarrow> directory" where
  "readdir d =
     (case d_reads d of
        [] \<Rightarrow> d\<lparr>d_job_ret := 0\<rparr>
      | (n, bytes) # rest \<Rightarrow> d\<lparr>d_job_ret := n, d_buf := bytes, d_reads := rest\<rparr>)"

definition refill :: "directory \<Rightarrow> directory" where
  "refill d =
     (case d_state d of
        NeedMoreEntry \<Rightarrow>
          (let d = readdir (d\<lparr>d_offset := 0, d_count := 0\<rparr>)
           in d\<lparr>d_state := (if d_job_ret d = 0 then NoMoreEntry else HasBufferedEntry)\<rparr>)
      | _ \<Rightarrow> d)"

fun need_more_entry :: "platform \<Rightarrow> int \<Rightarrow> directory \<Rightarrow> bool" where
  "need_more_entry Linux entry_len d = (d_offset d \<ge> d_job_ret d)"
| "need_more_entry MacOS entry_len d = (d_count d \<ge> d_job_ret d)"
| "need_more_entry Windows entry_len d = (entry_len = 0)"
| "need_more_entry OtherUnix entry_len d = False"

text \<open>The name, before it is decoded: the bytes of the buffer it occupies.\<close>

definition entry_name :: "platform \<Rightarrow> byte list \<Rightarrow> int \<Rightarrow> byte list option" where
  "entry_name pf buf offset =
     (case (dir_entry_get_name_offset pf buf offset, dir_entry_get_name_len pf buf offset) of
        (Some o', Some n) \<Rightarrow>
          if 0 \<le> offset + o' \<and> 0 \<le> n then rd buf (nat (offset + o')) (nat n) else None
      | _ \<Rightarrow> None)"

text \<open>The names \<open>.\<close> and \<open>..\<close>, in UTF-8 and in UTF-16.\<close>

definition special_names :: "platform \<Rightarrow> byte list list" where
  "special_names pf = (if pf = Windows then [[46, 0], [46, 0, 46, 0]] else [[46], [46, 46]])"

text \<open>
  One iteration of \<open>next_aux\<close>: no more entry, an entry that is skipped (the function calls
  itself again) or one that is returned. \<open>by_path\<close> is the answer of
  \<open>file_kind_by_path\<close> where the system did not say.
\<close>

datatype next_result = Finished | Skipped | Found dir_entry

definition advance :: "platform \<Rightarrow> int \<Rightarrow> directory \<Rightarrow> directory" where
  "advance pf entry_len d =
     (let d = d\<lparr>d_offset := d_offset d + entry_len, d_count := d_count d + 1\<rparr>
      in if need_more_entry pf entry_len d then d\<lparr>d_state := NeedMoreEntry\<rparr> else d)"

definition report_entry ::
  "platform \<Rightarrow> (byte list \<Rightarrow> bool) \<Rightarrow> bool \<Rightarrow> bool \<Rightarrow> byte list \<Rightarrow> int \<Rightarrow> next_result option" where
  "report_entry pf by_path include_hidden include_special buf offset =
     (case (if include_hidden then Some False else dir_entry_is_hidden pf buf offset) of
        None \<Rightarrow> None
      | Some True \<Rightarrow> Some Skipped
      | Some False \<Rightarrow>
          (case entry_name pf buf offset of
             None \<Rightarrow> None
           | Some name \<Rightarrow>
               if \<not> include_special \<and> name \<in> set (special_names pf) then Some Skipped
               else
                 (case (dir_entry_is_dir pf buf offset, dir_entry_get_file_id pf buf offset) of
                    (Some is_dir, Some file_id) \<Rightarrow>
                      Some (Found \<lparr>e_name = name,
                              e_is_dir = (if is_dir = 0 then False
                                          else if 1 \<le> is_dir then True
                                          else by_path name),
                              e_file_id = file_id\<rparr>)
                  | _ \<Rightarrow> None)))"

definition next_step ::
  "platform \<Rightarrow> (byte list \<Rightarrow> bool) \<Rightarrow> bool \<Rightarrow> bool \<Rightarrow> directory \<Rightarrow> (next_result \<times> directory) option" where
  "next_step pf by_path include_hidden include_special d =
     (let d = refill d in
      if d_state d = NoMoreEntry then Some (Finished, d)
      else
        case dir_entry_length pf (d_buf d) (d_offset d) of
          None \<Rightarrow> None
        | Some entry_len \<Rightarrow>
            (case report_entry pf by_path include_hidden include_special (d_buf d) (d_offset d) of
               None \<Rightarrow> None
             | Some r \<Rightarrow> Some (r, advance pf entry_len d)))"

text \<open>\<open>None\<close> is a function that does not return, or reads outside the buffer.\<close>

partial_function (option) next_aux ::
  "platform \<Rightarrow> (byte list \<Rightarrow> bool) \<Rightarrow> bool \<Rightarrow> bool \<Rightarrow> directory \<Rightarrow>
   (dir_entry option \<times> directory) option" where
  "next_aux pf by_path hid spec d =
     (case next_step pf by_path hid spec d of
        None \<Rightarrow> None
      | Some (r, d') \<Rightarrow>
          (case r of
             Finished \<Rightarrow> Some (None, d')
           | Found e \<Rightarrow> Some (Some e, d')
           | Skipped \<Rightarrow> next_aux pf by_path hid spec d'))"

text \<open>\<open>Directory::read_all\<close>, with the entries kept whole.\<close>

partial_function (option) read_all ::
  "platform \<Rightarrow> (byte list \<Rightarrow> bool) \<Rightarrow> bool \<Rightarrow> bool \<Rightarrow> directory \<Rightarrow> dir_entry list \<Rightarrow>
   (dir_entry list \<times> directory) option" where
  "read_all pf by_path hid spec d result =
     (case next_aux pf by_path hid spec d of
        None \<Rightarrow> None
      | Some (None, d') \<Rightarrow> Some (result, d')
      | Some (Some e, d') \<Rightarrow> read_all pf by_path hid spec d' (result @ [e]))"

section \<open>What the system writes\<close>

text \<open>
  An entry as the documentation describes it: the name in the platform's encoding, its kind,
  whether it is hidden, its identifier, the contents of the fields nobody reads and the
  padding after the name.
\<close>

datatype entry_kind = Folder | Link bool | Plain | Unsure

record dirent =
  n_name :: "byte list"
  n_kind :: entry_kind
  n_hidden :: bool
  n_id :: nat
  n_misc :: "byte list"
  n_pad :: nat

fun kind_code :: "platform \<Rightarrow> entry_kind \<Rightarrow> nat" where
  "kind_code Windows Folder = 0x10"
| "kind_code Windows (Link to_dir) = (if to_dir then 0x410 else 0x400)"
| "kind_code Windows Plain = 0x20"
| "kind_code Windows Unsure = 0"
| "kind_code MacOS Folder = 2"
| "kind_code MacOS (Link _) = 5"
| "kind_code MacOS Plain = 1"
| "kind_code MacOS Unsure = 0"
| "kind_code _ Folder = 4"
| "kind_code _ (Link _) = 10"
| "kind_code _ Plain = 8"
| "kind_code _ Unsure = 0"

fun record_len :: "platform \<Rightarrow> dirent \<Rightarrow> nat" where
  "record_len Windows e = 104 + length (n_name e) + n_pad e"
| "record_len MacOS e = 45 + length (n_name e) + n_pad e"
| "record_len _ e = 20 + length (n_name e) + n_pad e"

fun write_entry :: "platform \<Rightarrow> bool \<Rightarrow> dirent \<Rightarrow> byte list" where
  "write_entry Windows fin e =
     le_bytes 4 (if fin then 0 else record_len Windows e) @ take 52 (n_misc e) @
     le_bytes 4 (kind_code Windows (n_kind e) + (if n_hidden e then 2 else 0)) @
     le_bytes 4 (length (n_name e)) @ drop 52 (n_misc e) @ le_bytes 8 (n_id e) @
     n_name e @ replicate (n_pad e) 0"
| "write_entry MacOS fin e =
     le_bytes 4 (record_len MacOS e) @ le_bytes 4 0x8200000D @ take 16 (n_misc e) @
     le_bytes 4 20 @ le_bytes 4 (length (n_name e) + 1) @
     le_bytes 4 (kind_code MacOS (n_kind e)) @ le_bytes 8 (n_id e) @
     n_name e @ 0 # replicate (n_pad e) 0"
| "write_entry pf fin e =
     le_bytes 8 (n_id e) @ take 8 (n_misc e) @ le_bytes 2 (record_len pf e) @
     le_bytes 1 (kind_code pf (n_kind e)) @ n_name e @ 0 # replicate (n_pad e) 0"

fun write_entries :: "platform \<Rightarrow> dirent list \<Rightarrow> byte list" where
  "write_entries pf [] = []"
| "write_entries pf (e # es) = write_entry pf (es = []) e @ write_entries pf es"

text \<open>One answer of \<open>readdir\<close>: bytes on Linux, entries on macOS, not zero on Windows.\<close>

definition batch :: "platform \<Rightarrow> dirent list \<times> byte list \<Rightarrow> int \<times> byte list" where
  "batch pf b =
     (case b of (es, junk) \<Rightarrow>
        (case pf of
           Linux \<Rightarrow> int (length (write_entries pf es))
         | MacOS \<Rightarrow> int (length es)
         | _ \<Rightarrow> 1,
         write_entries pf es @ junk))"

definition valid_entry :: "platform \<Rightarrow> dirent \<Rightarrow> bool" where
  "valid_entry pf e \<longleftrightarrow>
     n_name e \<noteq> [] \<and> n_id e < 2 ^ 64 \<and> length (n_misc e) = 84 \<and> record_len pf e < 2 ^ 16 \<and>
     (if pf = Windows then n_kind e \<noteq> Unsure
      else 0 \<notin> set (n_name e) \<and> (n_hidden e \<longleftrightarrow> hd (n_name e) = 46))"

definition valid_batch :: "platform \<Rightarrow> dirent list \<times> byte list \<Rightarrow> bool" where
  "valid_batch pf b \<longleftrightarrow> fst b \<noteq> [] \<and> (\<forall>e \<in> set (fst b). valid_entry pf e)"

text \<open>What \<open>Directory::next\<close> promises of an entry, and which entries it returns.\<close>

definition entry_of :: "(byte list \<Rightarrow> bool) \<Rightarrow> dirent \<Rightarrow> dir_entry" where
  "entry_of by_path e =
     \<lparr>e_name = n_name e,
      e_is_dir = (case n_kind e of Folder \<Rightarrow> True | Unsure \<Rightarrow> by_path (n_name e) | _ \<Rightarrow> False),
      e_file_id = n_id e\<rparr>"

definition visible :: "platform \<Rightarrow> bool \<Rightarrow> bool \<Rightarrow> dirent \<Rightarrow> bool" where
  "visible pf include_hidden include_special e \<longleftrightarrow>
     (include_hidden \<or> \<not> n_hidden e) \<and>
     (include_special \<or> n_name e \<notin> set (special_names pf))"

section \<open>Reading one entry back\<close>

lemma field_here: "field (pre @ ys) (int (length pre)) k n = le_at ys k n"
  by (simp add: field_def le_at_shift)

lemma length_write_entry:
  "valid_entry pf e \<Longrightarrow> length (write_entry pf fin e) = record_len pf e"
  by (cases pf) (auto simp: valid_entry_def)

lemma record_len_pos: "0 < record_len pf e"
  by (cases pf) auto

lemma read_entry_length:
  assumes "valid_entry pf e" "pf \<noteq> OtherUnix"
  shows "dir_entry_length pf (pre @ write_entry pf fin e @ post) (int (length pre)) =
    Some (if pf = Windows \<and> fin then 0 else int (record_len pf e))"
  using assms
  by (cases pf) (auto simp: field_here layout as_i32_def valid_entry_def i32_nonneg)

lemma field_here_plus:
  "0 \<le> o' \<Longrightarrow> field (pre @ ys) (int (length pre) + o') k n = le_at ys (nat o' + k) n"
  by (simp add: field_def nat_add_distrib le_at_shift add.assoc)

lemma field_plus_here:
  "0 \<le> o' \<Longrightarrow> field (pre @ ys) (o' + int (length pre)) k n = le_at ys (nat o' + k) n"
  using field_here_plus [of o' pre ys k n] by (simp add: add.commute)

lemma le_at_first: "bs \<noteq> [] \<Longrightarrow> le_at (bs @ ys) 0 (Suc 0) = Some (unat (hd bs))"
  by (cases bs) (auto simp: le_at_def rd_def slice_def)

lemma unat_eq_46: "unat (b::byte) = 46 \<longleftrightarrow> b = 46"
  by (simp add: word_unat_eq_iff)

lemma read_entry_hidden:
  assumes "valid_entry pf e" "pf \<noteq> OtherUnix"
  shows "dir_entry_is_hidden pf (pre @ write_entry pf fin e @ post) (int (length pre)) =
    Some (n_hidden e)"
proof (cases pf)
  case Windows
  then show ?thesis
    using assms by (cases "n_kind e")
      (auto simp: field_here layout valid_entry_def FILE_ATTRIBUTE_HIDDEN_def)
next
  case MacOS
  then show ?thesis
    using assms
    by (auto simp: field_here layout field_plus_here le_at_first i32_nonneg unat_eq_46
        valid_entry_def)
next
  case Linux
  then show ?thesis
    using assms by (auto simp: field_here layout le_at_first unat_eq_46 valid_entry_def)
qed (use assms in simp)

lemma read_entry_name:
  assumes "valid_entry pf e" "pf \<noteq> OtherUnix"
  shows "entry_name pf (pre @ write_entry pf fin e @ post) (int (length pre)) =
    Some (n_name e)"
proof (cases pf)
  case Windows
  then show ?thesis
    using assms
    by (auto simp: entry_name_def field_here layout as_i32_def i32_nonneg nat_add_distrib
        rd_shift0 valid_entry_def)
next
  case MacOS
  then show ?thesis
    using assms
    by (auto simp: entry_name_def field_here layout as_i32_def i32_nonneg nat_add_distrib
        rd_shift0 valid_entry_def)
next
  case Linux
  then show ?thesis
    using assms
    by (auto simp: entry_name_def layout nat_add_distrib rd_shift0 c_strlen_append valid_entry_def)
qed (use assms in simp)

lemma read_entry_is_dir:
  assumes "valid_entry pf e" "pf \<noteq> OtherUnix"
  shows "dir_entry_is_dir pf (pre @ write_entry pf fin e @ post) (int (length pre)) =
    Some (case n_kind e of Folder \<Rightarrow> 1 | Unsure \<Rightarrow> -1 | _ \<Rightarrow> 0)"
  using assms
  by (cases pf; cases "n_kind e")
    (auto simp: field_here layout valid_entry_def DT_DIR_def DT_UNKNOWN_def
      VNON_def VDIR_def ATTR_CMN_OBJTYPE_def FILE_ATTRIBUTE_REPARSE_POINT_def
      FILE_ATTRIBUTE_DIRECTORY_def Let_def)

lemma read_entry_file_id:
  assumes "valid_entry pf e" "pf \<noteq> OtherUnix"
  shows "dir_entry_get_file_id pf (pre @ write_entry pf fin e @ post) (int (length pre)) =
    Some (n_id e)"
  using assms by (cases pf) (auto simp: field_here layout valid_entry_def)

lemmas read_entry = read_entry_length read_entry_hidden read_entry_name read_entry_is_dir
  read_entry_file_id

section \<open>Walking the buffers\<close>

text \<open>
  \<open>pending pf d es\<close>: the buffer of \<open>d\<close> still holds the entries \<open>es\<close>, the next one at
  \<open>d_offset\<close>; \<open>holds pf d es\<close>: \<open>d\<close> has still to return \<open>es\<close>, from its buffer and the
  coming reads.
\<close>

definition pending :: "platform \<Rightarrow> directory \<Rightarrow> dirent list \<Rightarrow> bool" where
  "pending pf d es \<longleftrightarrow>
     d_state d = HasBufferedEntry \<and> es \<noteq> [] \<and> (\<forall>e \<in> set es. valid_entry pf e) \<and>
     (\<exists>pre junk. d_buf d = pre @ write_entries pf es @ junk \<and> d_offset d = int (length pre) \<and>
        (pf = Linux \<longrightarrow> d_job_ret d = int (length pre + length (write_entries pf es)))) \<and>
     (pf = MacOS \<longrightarrow> d_job_ret d = d_count d + int (length es))"

definition holds :: "platform \<Rightarrow> directory \<Rightarrow> dirent list \<Rightarrow> bool" where
  "holds pf d es \<longleftrightarrow>
     (\<exists>cur rest. es = cur @ concat (map fst rest) \<and> d_reads d = map (batch pf) rest \<and>
        (\<forall>b \<in> set rest. valid_batch pf b) \<and>
        (if cur = [] then d_state d = NeedMoreEntry else pending pf d cur))"

lemma holds_init:
  assumes "\<forall>b \<in> set bs. valid_batch pf b"
  shows "holds pf (from_io_handle (map (batch pf) bs)) (concat (map fst bs))"
  unfolding holds_def using assms by (intro exI [of _ "[]"] exI [of _ bs]) (simp add: from_io_handle_def)

lemma write_entries_pos:
  assumes "es \<noteq> []" "\<forall>e \<in> set es. valid_entry pf e"
  shows "0 < length (write_entries pf es)"
  using assms record_len_pos [of pf] by (cases es) (simp_all add: length_write_entry)

lemma holds_refill:
  assumes "holds pf d (e # es)" "pf \<noteq> OtherUnix"
  obtains cur rest where "e # es = (e # cur) @ concat (map fst rest)"
    "d_reads (refill d) = map (batch pf) rest" "\<forall>b \<in> set rest. valid_batch pf b"
    "pending pf (refill d) (e # cur)"
proof -
  from assms(1) obtain cur rest where h: "e # es = cur @ concat (map fst rest)"
    "d_reads d = map (batch pf) rest" "\<forall>b \<in> set rest. valid_batch pf b"
    "if cur = [] then d_state d = NeedMoreEntry else pending pf d cur"
    unfolding holds_def by blast
  show thesis
  proof (cases cur)
    case (Cons c cs)
    with h have "c = e" "pending pf d (e # cs)" by auto
    moreover from this(2) have "refill d = d" by (simp add: refill_def pending_def)
    ultimately show thesis using that [of cs rest] h Cons by simp
  next
    case Nil
    with h obtain b rest' where r: "rest = b # rest'" by (cases rest) auto
    obtain fs junk where b: "b = (fs, junk)" by (cases b)
    from h(3) r b have v: "fs \<noteq> []" "\<forall>f \<in> set fs. valid_entry pf f"
      by (auto simp: valid_batch_def)
    then obtain fs' where fs: "fs = e # fs'" using h(1) Nil r b by (cases fs) auto
    have st: "d_state d = NeedMoreEntry" using h(4) Nil by simp
    have j: "0 < length (write_entries pf fs)" using v by (rule write_entries_pos)
    have p: "pending pf (refill d) (e # fs')"
      unfolding fs [symmetric] pending_def
    proof (intro conjI)
      show "d_state (refill d) = HasBufferedEntry"
        using st h(2) r b j v(1) assms(2)
        by (cases pf) (auto simp: refill_def readdir_def batch_def Let_def)
      show "\<exists>pre junk. d_buf (refill d) = pre @ write_entries pf fs @ junk \<and>
          d_offset (refill d) = int (length pre) \<and>
          (pf = Linux \<longrightarrow> d_job_ret (refill d) = int (length pre + length (write_entries pf fs)))"
        using st h(2) r b
        by (intro exI [of _ "[]"] exI [of _ junk]) (auto simp: refill_def readdir_def batch_def Let_def)
      show "pf = MacOS \<longrightarrow> d_job_ret (refill d) = d_count (refill d) + int (length fs)"
        using st h(2) r b by (auto simp: refill_def readdir_def batch_def Let_def)
    qed (use v in auto)
    have "d_reads (refill d) = map (batch pf) rest'"
      using st h(2) r by (auto simp: refill_def readdir_def Let_def split: prod.splits)
    then show thesis
      using that [of fs' rest'] h r b fs Nil p by auto
  qed
qed

lemma need_more_iff:
  assumes "pending pf d (e # cur)" "pf \<noteq> OtherUnix"
    and "len = (if pf = Windows \<and> cur = [] then 0 else int (record_len pf e))"
  shows "need_more_entry pf len (d\<lparr>d_offset := d_offset d + len, d_count := d_count d + 1\<rparr>)
    \<longleftrightarrow> cur = []"
proof -
  have v: "valid_entry pf e" "\<forall>e \<in> set cur. valid_entry pf e"
    using assms(1) by (auto simp: pending_def)
  have "0 < length (write_entries pf cur) \<longleftrightarrow> cur \<noteq> []"
    using write_entries_pos [of cur pf] v(2) by auto
  then show ?thesis
    using assms v record_len_pos [of pf e]
    by (cases pf) (auto simp: pending_def length_write_entry simp del: write_entry.simps record_len.simps)
qed

lemma pending_step:
  assumes "pending pf d (e # cur)" "cur \<noteq> []"
    and "len = int (record_len pf e)"
  shows "pending pf (d\<lparr>d_offset := d_offset d + len, d_count := d_count d + 1\<rparr>) cur"
proof -
  from assms(1) obtain pre junk where
    b: "d_buf d = pre @ write_entries pf (e # cur) @ junk" "d_offset d = int (length pre)"
      "pf = Linux \<longrightarrow> d_job_ret d = int (length pre + length (write_entries pf (e # cur)))"
    by (auto simp: pending_def)
  have l: "length (write_entry pf False e) = record_len pf e"
    using assms(1) by (auto simp: pending_def length_write_entry)
  show ?thesis
    unfolding pending_def
  proof (intro conjI)
    show "\<exists>pre' junk'. d_buf (d\<lparr>d_offset := d_offset d + len, d_count := d_count d + 1\<rparr>) =
          pre' @ write_entries pf cur @ junk' \<and>
        d_offset (d\<lparr>d_offset := d_offset d + len, d_count := d_count d + 1\<rparr>) = int (length pre') \<and>
        (pf = Linux \<longrightarrow> d_job_ret (d\<lparr>d_offset := d_offset d + len, d_count := d_count d + 1\<rparr>) =
          int (length pre' + length (write_entries pf cur)))"
      using b assms(2,3) l
      by (intro exI [of _ "pre @ write_entry pf False e"] exI [of _ junk]) auto
  qed (use assms in \<open>auto simp: pending_def\<close>)
qed

lemma report_entry_read:
  assumes "valid_entry pf e" "pf \<noteq> OtherUnix"
  shows "report_entry pf by_path hid spec (pre @ write_entry pf fin e @ post) (int (length pre)) =
    Some (if visible pf hid spec e then Found (entry_of by_path e) else Skipped)"
  unfolding report_entry_def
  by (cases "n_kind e"; cases "n_hidden e"; cases hid)
    (auto simp: read_entry [OF assms] visible_def entry_of_def)

text \<open>One iteration takes exactly the next entry, wherever it is.\<close>

lemma next_step_entry:
  assumes "holds pf d (e # es)" "pf \<noteq> OtherUnix"
  shows "\<exists>d'. next_step pf by_path hid spec d =
      Some (if visible pf hid spec e then Found (entry_of by_path e) else Skipped, d')
    \<and> holds pf d' es"
proof -
  obtain cur rest where h: "e # es = (e # cur) @ concat (map fst rest)"
    "d_reads (refill d) = map (batch pf) rest" "\<forall>b \<in> set rest. valid_batch pf b"
    and p: "pending pf (refill d) (e # cur)"
    using assms by (rule holds_refill)
  define r where "r = refill d"
  define len where "len = (if pf = Windows \<and> cur = [] then 0 else int (record_len pf e))"
  from p obtain pre junk where b: "d_buf r = pre @ write_entry pf (cur = []) e @ junk"
    "d_offset r = int (length pre)" "d_state r = HasBufferedEntry" "valid_entry pf e"
    by (auto simp: pending_def r_def)
  have adv: "advance pf len r = (if cur = [] then r\<lparr>d_offset := d_offset r + len,
      d_count := d_count r + 1, d_state := NeedMoreEntry\<rparr>
      else r\<lparr>d_offset := d_offset r + len, d_count := d_count r + 1\<rparr>)"
    using need_more_iff [OF p assms(2) len_def] by (simp add: advance_def r_def)
  have len_id: "len = int (record_len pf e)" if "cur \<noteq> []"
    using that by (simp add: len_def)
  have h2: "holds pf (advance pf len r) es"
    unfolding holds_def
  proof (intro exI [of _ cur] exI [of _ rest] conjI)
    show "d_reads (advance pf len r) = map (batch pf) rest"
      using h(2) [folded r_def] by (simp add: adv)
    show "if cur = [] then d_state (advance pf len r) = NeedMoreEntry
        else pending pf (advance pf len r) cur"
      using pending_step [OF p [folded r_def] _ len_id] by (simp add: adv)
  qed (use h in auto)
  have "next_step pf by_path hid spec d =
      Some (if visible pf hid spec e then Found (entry_of by_path e) else Skipped, advance pf len r)"
    unfolding next_step_def r_def [symmetric] Let_def
    using b(3)
    by (simp add: b(1,2) read_entry_length [OF b(4) assms(2)] report_entry_read [OF b(4) assms(2)]
        len_def)
  with h2 show ?thesis by blast
qed

lemma next_step_end:
  assumes "holds pf d []"
  shows "\<exists>d'. next_step pf by_path hid spec d = Some (Finished, d') \<and> d_state d' = NoMoreEntry"
proof -
  from assms obtain rest where r: "concat (map fst rest) = []" "d_reads d = map (batch pf) rest"
    "\<forall>b \<in> set rest. valid_batch pf b" "d_state d = NeedMoreEntry"
    by (auto simp: holds_def split: if_splits)
  then have "rest = []" by (cases rest) (auto simp: valid_batch_def)
  with r show ?thesis by (auto simp: next_step_def refill_def readdir_def Let_def)
qed

lemma next_aux_entries:
  assumes "holds pf d es" "pf \<noteq> OtherUnix"
  shows "\<exists>d'. next_aux pf by_path hid spec d =
    Some (case filter (visible pf hid spec) es of [] \<Rightarrow> None | e # _ \<Rightarrow> Some (entry_of by_path e), d')
    \<and> (case dropWhile (\<lambda>e. \<not> visible pf hid spec e) es of
         [] \<Rightarrow> d_state d' = NoMoreEntry | e # fs \<Rightarrow> holds pf d' fs)"
  using assms(1)
proof (induction es arbitrary: d)
  case Nil
  then show ?case
  proof -
    obtain d' where "next_step pf by_path hid spec d = Some (Finished, d')" "d_state d' = NoMoreEntry"
      using next_step_end [OF Nil] by blast
    then show ?thesis by (subst next_aux.simps) simp
  qed
next
  case (Cons e es)
  obtain d1 where s: "next_step pf by_path hid spec d =
      Some (if visible pf hid spec e then Found (entry_of by_path e) else Skipped, d1)"
    "holds pf d1 es"
    using next_step_entry [OF Cons.prems assms(2)] by blast
  show ?case
  proof (cases "visible pf hid spec e")
    case True
    with s show ?thesis by (subst next_aux.simps) simp
  next
    case False
    with s Cons.IH [OF s(2)] show ?thesis by (subst next_aux.simps) simp
  qed
qed

lemma dropWhile_not_Cons:
  assumes "dropWhile (\<lambda>x. \<not> P x) xs = y # ys"
  shows "filter P xs = y # filter P ys" "length ys < length xs"
  using assms by (induction xs) (auto split: if_splits)

lemma read_all_holds:
  assumes "holds pf d es" "pf \<noteq> OtherUnix"
  shows "\<exists>d'. read_all pf by_path hid spec d result =
    Some (result @ map (entry_of by_path) (filter (visible pf hid spec) es), d')
    \<and> d_state d' = NoMoreEntry"
  using assms(1)
proof (induction "length es" arbitrary: d es result rule: less_induct)
  case less
  obtain d1 where n: "next_aux pf by_path hid spec d =
      Some (case filter (visible pf hid spec) es of [] \<Rightarrow> None
            | e # _ \<Rightarrow> Some (entry_of by_path e), d1)"
    "case dropWhile (\<lambda>e. \<not> visible pf hid spec e) es of
       [] \<Rightarrow> d_state d1 = NoMoreEntry | e # fs \<Rightarrow> holds pf d1 fs"
    using next_aux_entries [OF less.prems assms(2)] by blast
  show ?case
  proof (cases "dropWhile (\<lambda>e. \<not> visible pf hid spec e) es")
    case Nil
    then have "filter (visible pf hid spec) es = []"
      by (auto simp: dropWhile_eq_Nil_conv filter_empty_conv)
    with n Nil show ?thesis by (subst read_all.simps) simp
  next
    case (Cons e fs)
    note f = dropWhile_not_Cons(1) [OF Cons] and l = dropWhile_not_Cons(2) [OF Cons]
    from n(2) Cons have "holds pf d1 fs" by simp
    from less.hyps [OF l this, of "result @ [entry_of by_path e]"] n(1) f
    show ?thesis by (subst read_all.simps) simp
  qed
qed

section \<open>Properties\<close>

text \<open>
  Claim C16 (refinement). Whatever batches of entries the system delivers, on every supported
  platform, reading a directory ends and returns exactly the entries asked for, in order,
  each once, with its name, kind and identifier: those that are hidden or special are left
  out when they are not wanted, and an entry the system did not classify is asked about.
\<close>

theorem directory_read_all:
  assumes "pf \<noteq> OtherUnix" "\<forall>b \<in> set bs. valid_batch pf b"
  shows "\<exists>d. read_all pf by_path hid spec (from_io_handle (map (batch pf) bs)) [] =
      Some (map (entry_of by_path) (filter (visible pf hid spec) (concat (map fst bs))), d)
    \<and> d_state d = NoMoreEntry"
  using read_all_holds [OF holds_init [OF assms(2)] assms(1), of by_path hid spec "[]"] by simp

definition sample_entries :: "dirent list" where
  "sample_entries =
     [\<lparr>n_name = [46], n_kind = Folder, n_hidden = True, n_id = 2, n_misc = replicate 84 7, n_pad = 3\<rparr>,
      \<lparr>n_name = [97, 98], n_kind = Unsure, n_hidden = False, n_id = 5, n_misc = replicate 84 0,
       n_pad = 2\<rparr>]"

theorem directory_read_all_witness:
  "\<exists>d. read_all Linux (\<lambda>_. True) True False
      (from_io_handle (map (batch Linux) [(sample_entries, [9]), (sample_entries, [])])) [] =
      Some ([\<lparr>e_name = [97, 98], e_is_dir = True, e_file_id = 5\<rparr>,
             \<lparr>e_name = [97, 98], e_is_dir = True, e_file_id = 5\<rparr>], d)
    \<and> d_state d = NoMoreEntry"
proof -
  have v: "\<forall>b \<in> set [(sample_entries, [9]), (sample_entries, [])]. valid_batch Linux b"
    by (simp add: valid_batch_def valid_entry_def sample_entries_def)
  show ?thesis
    using directory_read_all [OF _ v, of "\<lambda>_. True" True False]
    by (simp add: sample_entries_def visible_def entry_of_def special_names_def)
qed

text \<open>The buffer of \<open>Directory::from_io_handle\<close>.\<close>

definition longest_name :: "platform \<Rightarrow> nat" where
  "longest_name pf = (if pf = Windows then 255 * 2 else NAME_MAX)"

text \<open>
  Every entry whose name the file system allows, with the padding to
  eight bytes, fits the buffer that is allocated for the directory.
\<close>

lemma directory_buffer_fits:
  assumes "dir_buf_len pf = Some n" "length (n_name e) \<le> longest_name pf" "n_pad e < 8"
  shows "record_len pf e \<le> n"
  using assms
  by (cases pf) (auto simp: dir_buf_len_def dir_buffer_min_size_def longest_name_def NAME_MAX_def
      MAX_PATH_def)

text \<open>The documented minimum alone is one byte short for the longest name on Linux.\<close>

lemma linux_min_size_short:
  "dir_buffer_min_size Linux = Some 279"
  "record_len Linux \<lparr>n_name = replicate 255 97, n_kind = Plain, n_hidden = False, n_id = 1,
     n_misc = [], n_pad = 5\<rparr> = 280"
  by (simp_all add: dir_buffer_min_size_def NAME_MAX_def)

end
