(* ===== verification/Fd_Util.thy ===== *)
theory Fd_Util
  imports Os_Interface
begin

text \<open>
  Descriptors and file times: \<open>internal/fd_util/stub.c\<close>. The functions that switch a
  descriptor flag read the flags and write them back only when they have to; the
  theorem compares them with a table of flags the system keeps.
\<close>

section \<open>Descriptor flags\<close>

definition F_GETFD :: int where "F_GETFD = 1"
definition F_SETFD :: int where "F_SETFD = 2"
definition F_GETFL :: int where "F_GETFL = 3"
definition F_SETFL :: int where "F_SETFL = 4"
definition FD_CLOEXEC :: "32 word" where "FD_CLOEXEC = 1"
definition O_NONBLOCK :: "platform \<Rightarrow> 32 word" where
  "O_NONBLOCK pf = (if pf = Linux then 0x800 else 0x4)"

lemmas fcntl_defs = F_GETFD_def F_SETFD_def F_GETFL_def F_SETFL_def

definition fd_is_nonblocking :: "platform \<Rightarrow> 'k kernel \<Rightarrow> int \<Rightarrow> 'k world \<Rightarrow> int \<times> 'k world" where
  "fd_is_nonblocking pf K fd w =
     (let (a, w) = sys K (Proc (Fcntl_get fd F_GETFL)) w
      in if a_ret a < 0 then (a_ret a, w)
         else (if 0 < word_of_int (a_ret a) AND O_NONBLOCK pf then 1 else 0, w))"

text \<open>
  The shape the three setters share: read the flags, and when they are not as \<open>want\<close> says
  write the changed ones.
\<close>

definition change_flags ::
  "'k kernel \<Rightarrow> int \<Rightarrow> int \<Rightarrow> int \<Rightarrow> (32 word \<Rightarrow> bool) \<Rightarrow> (32 word \<Rightarrow> 32 word) \<Rightarrow> 'k world \<Rightarrow>
   int \<times> 'k world" where
  "change_flags K fd get put needed change w =
     (let (a, w) = sys K (Proc (Fcntl_get fd get)) w
      in if a_ret a < 0 then (a_ret a, w)
         else
           let v = word_of_int (a_ret a)
           in if needed v
              then let (b, w) = sys K (Proc (Fcntl_set fd put (change v))) w
                   in (if a_ret b < 0 then -1 else 0, w)
              else (0, w))"

definition set_blocking :: "platform \<Rightarrow> 'k kernel \<Rightarrow> int \<Rightarrow> 'k world \<Rightarrow> int \<times> 'k world" where
  "set_blocking pf K fd w =
     change_flags K fd F_GETFL F_SETFL (\<lambda>v. v AND O_NONBLOCK pf \<noteq> 0)
       (\<lambda>v. v AND NOT (O_NONBLOCK pf)) w"

definition set_nonblocking :: "platform \<Rightarrow> 'k kernel \<Rightarrow> int \<Rightarrow> 'k world \<Rightarrow> int \<times> 'k world" where
  "set_nonblocking pf K fd w =
     change_flags K fd F_GETFL F_SETFL (\<lambda>v. v AND O_NONBLOCK pf = 0) (\<lambda>v. v OR O_NONBLOCK pf) w"

definition set_cloexec :: "'k kernel \<Rightarrow> int \<Rightarrow> 'k world \<Rightarrow> int \<times> 'k world" where
  "set_cloexec K fd w =
     change_flags K fd F_GETFD F_SETFD (\<lambda>v. v AND FD_CLOEXEC = 0) (\<lambda>v. v OR FD_CLOEXEC) w"

text \<open>The descriptors of a pipe, and what the call returned.\<close>

definition async_pipe :: "'k kernel \<Rightarrow> 'k world \<Rightarrow> (int \<times> int list) \<times> 'k world" where
  "async_pipe K w =
     (let (a, w) = sys K (Net Make_pipe) w
      in if a_ret a < 0 then ((-1, []), w)
         else
           let r = a_nums a ! 0; wr = a_nums a ! 1;
               (e, w) = set_cloexec K r w
           in if e < 0 then ((-1, [r, wr]), w)
              else let (e, w) = set_cloexec K wr w
                   in ((if e < 0 then -1 else 0, [r, wr]), w))"

subsection \<open>Windows\<close>

definition close_fd :: "'k kernel \<Rightarrow> int \<Rightarrow> bool \<Rightarrow> 'k world \<Rightarrow> bool \<times> 'k world" where
  "close_fd K handle is_socket w =
     (if is_socket then let (a, w) = sys K (WNet (W_closesocket handle)) w in (a_ret a = 0, w)
      else let (a, w) = sys K (WFile (W_CloseHandle handle)) w in (a_ret a \<noteq> 0, w))"

definition PIPE_ACCESS_OUTBOUND :: "32 word" where "PIPE_ACCESS_OUTBOUND = 0x2"
definition FILE_FLAG_FIRST_PIPE_INSTANCE :: "32 word" where
  "FILE_FLAG_FIRST_PIPE_INSTANCE = 0x80000"
definition FLAG_OVERLAPPED :: "32 word" where "FLAG_OVERLAPPED = 0x40000000"

definition create_named_pipe_server ::
  "'k kernel \<Rightarrow> ptr \<Rightarrow> bool \<Rightarrow> 'k world \<Rightarrow> int \<times> 'k world" where
  "create_named_pipe_server K name is_async w =
     (let flags = PIPE_ACCESS_OUTBOUND OR FILE_FLAG_FIRST_PIPE_INSTANCE;
          flags = (if is_async then flags OR FLAG_OVERLAPPED else flags);
          (a, w) = sys K (WNet (W_CreateNamedPipeW name flags)) w
      in (a_ret a, w))"

definition create_named_pipe_client ::
  "'k kernel \<Rightarrow> ptr \<Rightarrow> bool \<Rightarrow> 'k world \<Rightarrow> int \<times> 'k world" where
  "create_named_pipe_client K name is_async w =
     (let (a, w) = sys K (WFile (W_CreateFileW name 0x80000000 0 3
                            (if is_async then FLAG_OVERLAPPED else 0))) w
      in (a_ret a, w))"

definition connect_named_pipe_server :: "'k kernel \<Rightarrow> int \<Rightarrow> 'k world \<Rightarrow> 'k world" where
  "connect_named_pipe_server K server w = sys_do K (WNet (W_ConnectNamedPipe server)) w"

definition disconnect_named_pipe_server :: "'k kernel \<Rightarrow> int \<Rightarrow> 'k world \<Rightarrow> 'k world" where
  "disconnect_named_pipe_server K server w = sys_do K (WNet (W_DisconnectNamedPipe server)) w"

section \<open>The table of flags\<close>

text \<open>
  What POSIX says of \<open>fcntl\<close>: reading answers the flags of the table (a failed read answers
  a negative number) and changes nothing; writing stores the flags, or fails and
  changes nothing. The flags of an \<open>int\<close> have bit 31 clear.
\<close>

type_synonym flag_table = "int \<Rightarrow> int \<Rightarrow> 32 word"

definition honours_fcntl :: "'k kernel \<Rightarrow> ('k \<Rightarrow> flag_table) \<Rightarrow> bool" where
  "honours_fcntl K fl \<longleftrightarrow>
     (\<forall>fd get k. fl (snd (K (Proc (Fcntl_get fd get)) k)) = fl k \<and>
        (0 \<le> a_ret (fst (K (Proc (Fcntl_get fd get)) k)) \<longrightarrow>
          word_of_int (a_ret (fst (K (Proc (Fcntl_get fd get)) k))) = fl k fd get)) \<and>
     (\<forall>fd put v k.
        if a_ret (fst (K (Proc (Fcntl_set fd put v)) k)) < 0
        then fl (snd (K (Proc (Fcntl_set fd put v)) k)) = fl k
        else fl (snd (K (Proc (Fcntl_set fd put v)) k)) = (fl k)(fd := (fl k fd)(put - 1 := v)))"

text \<open>What a setter does to the table: the change where it was needed, or nothing and an error.\<close>

lemma change_flags_table:
  assumes "honours_fcntl K fl" "put = get + 1"
    and "\<And>v. \<not> needed v \<Longrightarrow> change v = v"
    and "change_flags K fd get put needed change w = (r, w')"
  shows "(r < 0 \<and> fl (kst w') = fl (kst w)) \<or>
    (r = 0 \<and> fl (kst w') = (fl (kst w))(fd := (fl (kst w) fd)(get := change (fl (kst w) fd get))))"
proof -
  obtain a w1 where s: "sys K (Proc (Fcntl_get fd get)) w = (a, w1)" by fastforce
  have g: "fl (kst w1) = fl (kst w)" "0 \<le> a_ret a \<longrightarrow> word_of_int (a_ret a) = fl (kst w) fd get"
    using assms(1) s sys_fst [of K "Proc (Fcntl_get fd get)" w] sys_kst [of K "Proc (Fcntl_get fd get)" w]
    unfolding honours_fcntl_def by auto
  let ?v = "fl (kst w) fd get"
  obtain b w2 where t: "sys K (Proc (Fcntl_set fd put (change ?v))) w1 = (b, w2)" by fastforce
  have p: "if a_ret b < 0 then fl (kst w2) = fl (kst w1)
      else fl (kst w2) = (fl (kst w1))(fd := (fl (kst w1) fd)(put - 1 := change ?v))"
    using assms(1) t sys_fst [of K "Proc (Fcntl_set fd put (change ?v))" w1]
      sys_kst [of K "Proc (Fcntl_set fd put (change ?v))" w1]
    unfolding honours_fcntl_def by (metis fst_conv snd_conv)
  show ?thesis
    using assms(2-4) s g t p
    by (cases "a_ret a < 0"; cases "needed ?v"; cases "a_ret b < 0")
       (auto simp: change_flags_def Let_def)
qed

lemma or_flag_set:
  assumes "v AND 2 ^ n \<noteq> (0 :: 32 word)"
  shows "v OR 2 ^ n = v"
proof -
  have "bit v n" using assms by (simp add: and_exp_eq_0_iff_not_bit)
  then show ?thesis by (intro bit_eqI) (auto simp: bit_simps)
qed

lemma and_not_flag_clear:
  assumes "v AND m = (0 :: 32 word)"
  shows "v AND NOT m = v"
proof (rule bit_eqI)
  fix n
  have "\<not> bit (v AND m) n" using assms by simp
  then show "bit (v AND NOT m) n \<longleftrightarrow> bit v n"
    using bit_imp_le_length [of v n] by (auto simp: bit_simps)
qed

lemma nonblock_power: "O_NONBLOCK pf = 2 ^ (if pf = Linux then 11 else 2)"
  by (simp add: O_NONBLOCK_def)

lemma cloexec_power: "FD_CLOEXEC = 2 ^ 0"
  by (simp add: FD_CLOEXEC_def)

lemma set_nonblocking_table:
  assumes "honours_fcntl K fl" "set_nonblocking pf K fd w = (r, w')"
  shows "(r < 0 \<and> fl (kst w') = fl (kst w)) \<or>
    (r = 0 \<and> fl (kst w') = (fl (kst w))(fd := (fl (kst w) fd)
      (F_GETFL := fl (kst w) fd F_GETFL OR O_NONBLOCK pf)))"
  using assms(2) unfolding set_nonblocking_def
  by (rule change_flags_table [OF assms(1), rotated 2])
     (simp_all add: fcntl_defs nonblock_power or_flag_set)

lemma set_blocking_table:
  assumes "honours_fcntl K fl" "set_blocking pf K fd w = (r, w')"
  shows "(r < 0 \<and> fl (kst w') = fl (kst w)) \<or>
    (r = 0 \<and> fl (kst w') = (fl (kst w))(fd := (fl (kst w) fd)
      (F_GETFL := fl (kst w) fd F_GETFL AND NOT (O_NONBLOCK pf))))"
  using assms(2) unfolding set_blocking_def
  by (rule change_flags_table [OF assms(1), rotated 2])
     (simp_all add: fcntl_defs and_not_flag_clear)

lemma set_cloexec_table:
  assumes "honours_fcntl K fl" "set_cloexec K fd w = (r, w')"
  shows "(r < 0 \<and> fl (kst w') = fl (kst w)) \<or>
    (r = 0 \<and> fl (kst w') = (fl (kst w))(fd := (fl (kst w) fd)
      (F_GETFD := fl (kst w) fd F_GETFD OR FD_CLOEXEC)))"
  using assms(2) unfolding set_cloexec_def
  by (rule change_flags_table [OF assms(1), rotated 2])
     (simp_all add: fcntl_defs cloexec_power or_flag_set del: power_0)

lemma fd_is_nonblocking_table:
  assumes "honours_fcntl K fl" "fd_is_nonblocking pf K fd w = (r, w')"
  shows "fl (kst w') = fl (kst w)"
    and "r < 0 \<or> r = (if fl (kst w) fd F_GETFL AND O_NONBLOCK pf \<noteq> 0 then 1 else 0)"
proof -
  obtain a w1 where s: "sys K (Proc (Fcntl_get fd F_GETFL)) w = (a, w1)" by fastforce
  have "fl (kst w1) = fl (kst w)"
    "0 \<le> a_ret a \<longrightarrow> word_of_int (a_ret a) = fl (kst w) fd F_GETFL"
    using assms(1) s sys_fst [of K "Proc (Fcntl_get fd F_GETFL)" w]
      sys_kst [of K "Proc (Fcntl_get fd F_GETFL)" w]
    unfolding honours_fcntl_def by auto
  then show "fl (kst w') = fl (kst w)"
    and "r < 0 \<or> r = (if fl (kst w) fd F_GETFL AND O_NONBLOCK pf \<noteq> 0 then 1 else 0)"
    using assms(2) s
    by (auto simp: fd_is_nonblocking_def word_neq_0_conv split: if_splits)
qed

text \<open>The flags two setters leave, when both report success.\<close>

text \<open>
  On a system that keeps its descriptor flags, making a descriptor
  non-blocking and close-on-exec, each reported as a success, sets exactly those two bits
  of its flags; it is then reported as non-blocking, and making it blocking again clears the
  one bit. No other flag, and no other descriptor, is touched.
\<close>

lemma descriptor_flags:
  assumes "honours_fcntl K fl"
    and "set_nonblocking pf K fd w = (0, w1)" "set_cloexec K fd w1 = (0, w2)"
    and "fd_is_nonblocking pf K fd w2 = (r, w3)" "set_blocking pf K fd w3 = (0, w4)"
  shows "(r < 0 \<or> r = 1) \<and>
    fl (kst w2) = (fl (kst w))(fd := (fl (kst w) fd)
      (F_GETFL := fl (kst w) fd F_GETFL OR O_NONBLOCK pf,
       F_GETFD := fl (kst w) fd F_GETFD OR FD_CLOEXEC)) \<and>
    fl (kst w4) = (fl (kst w2))(fd := (fl (kst w2) fd)
      (F_GETFL := fl (kst w) fd F_GETFL AND NOT (O_NONBLOCK pf)))"
proof -
  let ?f = "fl (kst w) fd F_GETFL"
  have ne: "F_GETFL \<noteq> F_GETFD" by (simp add: fcntl_defs)
  have a: "fl (kst w2) = (fl (kst w))(fd := (fl (kst w) fd)(F_GETFL := ?f OR O_NONBLOCK pf,
       F_GETFD := fl (kst w) fd F_GETFD OR FD_CLOEXEC))"
    using set_nonblocking_table [OF assms(1,2)] set_cloexec_table [OF assms(1,3)] ne by auto
  have b: "fl (kst w2) fd F_GETFL = ?f OR O_NONBLOCK pf" using a ne by simp
  have z: "(?f OR O_NONBLOCK pf) AND O_NONBLOCK pf = O_NONBLOCK pf"
    by (intro bit_eqI) (auto simp: bit_simps)
  have z': "(?f OR O_NONBLOCK pf) AND NOT (O_NONBLOCK pf) = ?f AND NOT (O_NONBLOCK pf)"
    by (intro bit_eqI) (auto simp: bit_simps)
  have nz: "O_NONBLOCK pf \<noteq> 0" by (simp add: O_NONBLOCK_def)
  have "r < 0 \<or> r = 1"
    using fd_is_nonblocking_table(2) [OF assms(1,4)] nz by (simp add: b z)
  moreover have "fl (kst w4) = (fl (kst w2))(fd := (fl (kst w2) fd)
      (F_GETFL := ?f AND NOT (O_NONBLOCK pf)))"
    using set_blocking_table [OF assms(1,5)] fd_is_nonblocking_table(1) [OF assms(1,4)]
    by (simp add: b z')
  ultimately show ?thesis using a by blast
qed

text \<open>A system that keeps a table of flags, for the witness.\<close>

definition flag_kernel :: "((int \<times> int) \<times> 32 word) list kernel" where
  "flag_kernel c k =
     (case c of
        Proc (Fcntl_get fd get) \<Rightarrow>
          (blank\<lparr>a_ret := uint (case map_of k (fd, get) of None \<Rightarrow> 0 | Some v \<Rightarrow> v)\<rparr>, k)
      | Proc (Fcntl_set fd put v) \<Rightarrow> (blank, ((fd, put - 1), v) # k)
      | _ \<Rightarrow> (blank, k))"

definition flags_in :: "((int \<times> int) \<times> 32 word) list \<Rightarrow> flag_table" where
  "flags_in k fd get = (case map_of k (fd, get) of None \<Rightarrow> 0 | Some v \<Rightarrow> v)"

lemma honours_flag_kernel: "honours_fcntl flag_kernel flags_in"
  by (auto simp: honours_fcntl_def flag_kernel_def flags_in_def blank_def fun_eq_iff)

section \<open>File times\<close>

text \<open>
  \<open>struct stat\<close> holds seconds and nanoseconds; a Windows \<open>FILE_BASIC_INFO\<close> holds
  100-nanosecond ticks in a 64-bit signed integer, and C division truncates.
\<close>

datatype time_kind = Access | Modify | Change

record file_time =
  ft_ticks :: "time_kind \<Rightarrow> int"
  ft_sec :: "time_kind \<Rightarrow> int"
  ft_nsec :: "time_kind \<Rightarrow> int"

definition sizeof_file_time :: "platform \<Rightarrow> nat" where
  "sizeof_file_time pf = (if pf = Windows then 40 else 144)"

definition get_time_sec :: "platform \<Rightarrow> time_kind \<Rightarrow> file_time \<Rightarrow> int" where
  "get_time_sec pf k t = (if pf = Windows then ft_ticks t k sdiv 10000000 else ft_sec t k)"

definition get_time_nsec :: "platform \<Rightarrow> time_kind \<Rightarrow> file_time \<Rightarrow> int" where
  "get_time_nsec pf k t =
     i32 (if pf = Windows then (ft_ticks t k smod 10000000) * 100 else ft_nsec t k)"

text \<open>A Windows time after the epoch comes apart into seconds and nanoseconds without loss.\<close>

lemma file_time_split:
  assumes "0 \<le> ft_ticks t k"
  shows "get_time_sec Windows k t * 1000000000 + get_time_nsec Windows k t = ft_ticks t k * 100"
    and "0 \<le> get_time_nsec Windows k t" "get_time_nsec Windows k t < 1000000000"
proof -
  let ?m = "ft_ticks t k mod 10000000"
  have m: "0 \<le> ?m" "?m < 10000000" by simp_all
  have n: "get_time_nsec Windows k t = ?m * 100"
    using assms m by (simp add: get_time_nsec_def signed_modulo_int_def sgn_if i32_nonneg)
  have s: "get_time_sec Windows k t = ft_ticks t k div 10000000"
    using assms by (simp add: get_time_sec_def signed_divide_int_def sgn_if)
  have "ft_ticks t k = 10000000 * (ft_ticks t k div 10000000) + ?m" by simp
  then show "get_time_sec Windows k t * 1000000000 + get_time_nsec Windows k t = ft_ticks t k * 100"
    unfolding n s by linarith
  show "0 \<le> get_time_nsec Windows k t" "get_time_nsec Windows k t < 1000000000"
    unfolding n using m by linarith+
qed

end
