(* ===== verification/Event_Bus.thy ===== *)
theory Event_Bus
  imports Fd_Util
begin

text \<open>
  The event bus: \<open>epoll.c\<close> (Linux), \<open>kqueue.c\<close> (macOS, BSD) and \<open>iocp.c\<close> (Windows), the
  start and the end of the thread pool, and the \<open>poll\<close> functions of the event loop that
  turn a batch of events into the coroutines to wake and the jobs to complete.
\<close>

section \<open>The queues\<close>

definition EPOLLIN :: "32 word" where "EPOLLIN = 0x1"
definition EPOLLOUT :: "32 word" where "EPOLLOUT = 0x4"
definition EPOLLERR :: "32 word" where "EPOLLERR = 0x8"
definition EPOLLHUP :: "32 word" where "EPOLLHUP = 0x10"
definition EPOLLRDHUP :: "32 word" where "EPOLLRDHUP = 0x2000"
definition EPOLLET :: "32 word" where "EPOLLET = 0x80000000"
definition EPOLL_CLOEXEC :: "32 word" where "EPOLL_CLOEXEC = 0x80000"

lemmas epoll_bits = EPOLLIN_def EPOLLOUT_def EPOLLERR_def EPOLLHUP_def EPOLLRDHUP_def EPOLLET_def

definition EVFILT_READ :: int where "EVFILT_READ = -1"
definition EVFILT_WRITE :: int where "EVFILT_WRITE = -2"
definition EVFILT_VNODE :: int where "EVFILT_VNODE = -4"
definition EVFILT_PROC :: int where "EVFILT_PROC = -5"
definition EV_ADD :: "32 word" where "EV_ADD = 0x1"
definition EV_DELETE :: "32 word" where "EV_DELETE = 0x2"
definition EV_CLEAR :: "32 word" where "EV_CLEAR = 0x20"
definition EV_ERROR :: "32 word" where "EV_ERROR = 0x4000"
definition NOTE_EXIT :: "32 word" where "NOTE_EXIT = 0x80000000"
definition NOTE_EXITSTATUS :: "32 word" where "NOTE_EXITSTATUS = 0x04000000"

lemmas kevent_bits = EVFILT_READ_def EVFILT_WRITE_def EVFILT_VNODE_def EVFILT_PROC_def EV_ADD_def
  EV_DELETE_def EV_CLEAR_def EV_ERROR_def

definition EVENT_BUFFER_SIZE :: nat where "EVENT_BUFFER_SIZE = 1024"
definition INFINITE :: int where "INFINITE = 4294967295"

text \<open>A queue descriptor made close-on-exec, or closed again (\<open>kqueue.c\<close>, \<open>watch_kqueue.c\<close>).\<close>

definition kqueue_create :: "'k kernel \<Rightarrow> 'k world \<Rightarrow> int \<times> 'k world" where
  "kqueue_create K w =
     (let (a, w) = sys K (File Kqueue) w; kq = a_ret a
      in if kq < 0 then (-1, w)
         else
           let (b, w) = sys K (Proc (Fcntl_get kq F_GETFD)) w; flags = word_of_int (a_ret b)
           in if a_ret b < 0 then (-1, sys_do K (File (Close kq)) w)
              else if flags AND FD_CLOEXEC = 0
              then let (c, w) = sys K (Proc (Fcntl_set kq F_SETFD (flags OR FD_CLOEXEC))) w
                   in if a_ret c \<noteq> 0 then (-1, sys_do K (File (Close kq)) w) else (kq, w)
              else (kq, w))"

definition event_bus_create :: "platform \<Rightarrow> 'k kernel \<Rightarrow> 'k world \<Rightarrow> int \<times> 'k world" where
  "event_bus_create pf K w =
     (case pf of
        Linux \<Rightarrow> let (a, w) = sys K (Proc (Epoll_create1 EPOLL_CLOEXEC)) w in (a_ret a, w)
      | Windows \<Rightarrow> let (a, w) = sys K (WProc (W_CreateIoCompletionPort (-1) 0)) w in (a_ret a, w)
      | _ \<Rightarrow> kqueue_create K w)"

definition event_bus_destroy :: "platform \<Rightarrow> 'k kernel \<Rightarrow> int \<Rightarrow> 'k world \<Rightarrow> 'k world" where
  "event_bus_destroy pf K bus w =
     (if pf = Windows then sys_do K (WFile (W_CloseHandle bus)) w else sys_do K (File (Close bus)) w)"

text \<open>Registered descriptors are made non-blocking; that it may fail is ignored.\<close>

definition make_nonblocking :: "platform \<Rightarrow> 'k kernel \<Rightarrow> int \<Rightarrow> 'k world \<Rightarrow> 'k world" where
  "make_nonblocking pf K fd w =
     (let (a, w) = sys K (Proc (Fcntl_get fd F_GETFL)) w; fd_flags = word_of_int (a_ret a)
      in if 0 \<le> a_ret a \<and> fd_flags AND O_NONBLOCK pf = 0
         then sys_do K (Proc (Fcntl_set fd F_SETFL (fd_flags OR O_NONBLOCK pf))) w
         else w)"

definition epoll_register :: "'k kernel \<Rightarrow> int \<Rightarrow> int \<Rightarrow> bool \<Rightarrow> 'k world \<Rightarrow> int \<times> 'k world" where
  "epoll_register K epfd fd read_only w =
     (let w = make_nonblocking Linux K fd w;
          events = EPOLLIN OR EPOLLET OR EPOLLRDHUP;
          events = (if \<not> read_only then events OR EPOLLOUT else events);
          (a, w) = sys K (Proc (Epoll_add epfd fd events (word_of_int fd))) w
      in (a_ret a, w))"

definition EV_SET :: "int \<Rightarrow> int \<Rightarrow> 32 word \<Rightarrow> 32 word \<Rightarrow> kevent" where
  "EV_SET i f fl ff = \<lparr>kev_ident = i, kev_filter = f, kev_flags = fl, kev_fflags = ff\<rparr>"

definition kqueue_register ::
  "platform \<Rightarrow> 'k kernel \<Rightarrow> int \<Rightarrow> int \<Rightarrow> bool \<Rightarrow> 'k world \<Rightarrow> int \<times> 'k world" where
  "kqueue_register pf K kqfd fd read_only w =
     (let w = make_nonblocking pf K fd w;
          flags = EV_ADD OR EV_CLEAR;
          events = [EV_SET fd EVFILT_READ flags 0] @
                   (if read_only then [] else [EV_SET fd EVFILT_WRITE flags 0]);
          (a, w) = sys K (Net (Kevent_change kqfd events)) w
      in (a_ret a, w))"

definition iocp_register :: "'k kernel \<Rightarrow> int \<Rightarrow> int \<Rightarrow> 'k world \<Rightarrow> int \<times> 'k world" where
  "iocp_register K iocp fd w =
     (let (a, w) = sys K (WProc (W_SetFileCompletionNotificationModes fd)) w
      in if a_ret a = 0 then (-1, w)
         else let (b, w) = sys K (WProc (W_CreateIoCompletionPort fd iocp)) w
              in (if a_ret b = 0 then -1 else 0, w))"

definition event_bus_register ::
  "platform \<Rightarrow> 'k kernel \<Rightarrow> int \<Rightarrow> int \<Rightarrow> bool \<Rightarrow> 'k world \<Rightarrow> int \<times> 'k world" where
  "event_bus_register pf K bus fd read_only w =
     (case pf of
        Linux \<Rightarrow> epoll_register K bus fd read_only w
      | Windows \<Rightarrow> iocp_register K bus fd w
      | _ \<Rightarrow> kqueue_register pf K bus fd read_only w)"

text \<open>\<open>None\<close> is \<open>moonbit_panic\<close>: on Linux a process is waited for by its descriptor.\<close>

definition event_bus_register_pid ::
  "platform \<Rightarrow> 'k kernel \<Rightarrow> int \<Rightarrow> int \<Rightarrow> 'k world \<Rightarrow> (int \<times> 'k world) option" where
  "event_bus_register_pid pf K bus pid w =
     (if pf = Linux \<or> pf = Windows then None
      else
        let note = (if pf = MacOS then NOTE_EXITSTATUS else NOTE_EXIT);
            (a, w) = sys K (Net (Kevent_change bus [EV_SET pid EVFILT_PROC EV_ADD note])) w
        in Some (if 0 \<le> a_ret a then 1 else if errno w = ESRCH then 0 else -1, w))"

text \<open>Waiting: the number of events, negative for an error. C division truncates.\<close>

definition epoll_bus_wait :: "'k kernel \<Rightarrow> int \<Rightarrow> int \<Rightarrow> 'k world \<Rightarrow> int \<times> 'k world" where
  "epoll_bus_wait K epfd timeout w =
     (let (a, w) = sys K (Proc (Epoll_wait epfd (int EVENT_BUFFER_SIZE) timeout)) w
      in (a_ret a, w))"

definition kqueue_bus_wait :: "'k kernel \<Rightarrow> int \<Rightarrow> int \<Rightarrow> 'k world \<Rightarrow> int \<times> 'k world" where
  "kqueue_bus_wait K kqfd timeout w =
     (let spec = (timeout sdiv 1000, (timeout smod 1000) * 1000000);
          (a, w) = sys K (Net (Kevent_fetch kqfd (int EVENT_BUFFER_SIZE)
                            (if timeout < 0 then None else Some spec))) w
      in (a_ret a, w))"

definition iocp_bus_wait :: "'k kernel \<Rightarrow> int \<Rightarrow> int \<Rightarrow> 'k world \<Rightarrow> int \<times> 'k world" where
  "iocp_bus_wait K iocp timeout w =
     (let (a, w) = sys K (WProc (W_GetQueuedCompletionStatusEx iocp (int EVENT_BUFFER_SIZE)
                            (if timeout < 0 then INFINITE else timeout))) w
      in (if a_ret a = 0 then if errno w = WAIT_TIMEOUT then 0 else -1 else i32 (a_num a), w))"

definition event_bus_wait :: "platform \<Rightarrow> 'k kernel \<Rightarrow> int \<Rightarrow> int \<Rightarrow> 'k world \<Rightarrow> int \<times> 'k world" where
  "event_bus_wait pf K bus timeout w =
     (case pf of
        Linux \<Rightarrow> epoll_bus_wait K bus timeout w
      | Windows \<Rightarrow> iocp_bus_wait K bus timeout w
      | _ \<Rightarrow> kqueue_bus_wait K bus timeout w)"

section \<open>Events\<close>

text \<open>\<open>event_buffer + index\<close> and the accessors; \<open>None\<close> is past the buffer.\<close>

definition event_list_get :: "'e list \<Rightarrow> int \<Rightarrow> 'e option" where
  "event_list_get event_buffer index = tbl event_buffer index"

record epoll_event =
  ee_events :: "32 word"
  ee_data :: "64 word"

definition epoll_get_fd :: "epoll_event \<Rightarrow> int" where
  "epoll_get_fd ev = i32 (uint (ee_data ev))"

definition epoll_get_events :: "epoll_event \<Rightarrow> int" where
  "epoll_get_events ev =
     (if ee_events ev AND (EPOLLERR OR EPOLLHUP OR EPOLLRDHUP) \<noteq> 0 then 3
      else
        let result = 0;
            result = (if ee_events ev AND EPOLLIN \<noteq> 0 then result OR 1 else result);
            result = (if ee_events ev AND EPOLLOUT \<noteq> 0 then result OR 2 else result)
        in result)"

definition kqueue_get_fd :: "kevent \<Rightarrow> int" where
  "kqueue_get_fd ev = i32 (kev_ident ev)"

definition kqueue_get_events :: "kevent \<Rightarrow> int" where
  "kqueue_get_events ev =
     (if kev_filter ev = EVFILT_READ then 1
      else if kev_filter ev = EVFILT_WRITE then 2
      else if kev_filter ev = EVFILT_PROC then 4
      else if kev_flags ev AND EV_ERROR \<noteq> 0 then 3
      else 0)"

record iocp_event =
  lpCompletionKey :: int
  lpOverlapped :: ptr
  dwNumberOfBytesTransferred :: "32 word"

definition iocp_get_fd :: "iocp_event \<Rightarrow> int" where
  "iocp_get_fd ev = lpCompletionKey ev"

definition event_get_io_result :: "iocp_event \<Rightarrow> ptr" where
  "event_get_io_result ev = lpOverlapped ev"

definition event_get_bytes_transferred :: "iocp_event \<Rightarrow> int" where
  "event_get_bytes_transferred ev = sint (dwNumberOfBytesTransferred ev)"

section \<open>Starting and ending the thread pool\<close>

definition SIGUSR1 :: "platform \<Rightarrow> int" where "SIGUSR1 pf = (if pf = Linux then 10 else 30)"
definition SIGCHLD :: "platform \<Rightarrow> int" where "SIGCHLD pf = (if pf = Linux then 17 else 20)"
definition SIGPIPE :: int where "SIGPIPE = 13"

text \<open>The fields of \<open>pool\<close> the two functions use.\<close>

record pool_handle =
  initialized :: bool
  old_sigmask :: "int list"
  notify_recv :: int
  notify_send :: int

text \<open>\<open>signals_to_block\<close>, the dummy handler of \<open>SIGUSR2\<close> and the ignored \<open>SIGPIPE\<close>.\<close>

definition init_signals ::
  "platform \<Rightarrow> bool \<Rightarrow> 'k kernel \<Rightarrow> pool_handle \<Rightarrow> 'k world \<Rightarrow> pool_handle \<times> 'k world" where
  "init_signals pf wake_action_by_signal K p w =
     (let to_block = [SIGCHLD pf] @ (if wake_action_by_signal then [SIGUSR1 pf] else []);
          (a, w) = sys K (Net (Sigmask_block to_block)) w;
          p = p\<lparr>old_sigmask := a_nums a\<rparr>;
          w = sys_do K (Net (Sigaction SIGPIPE True)) w
      in (p, sys_do K (Net (Sigaction (SIGUSR2 pf) False)) w))"

definition close_pipe :: "'k kernel \<Rightarrow> int \<Rightarrow> int \<Rightarrow> 'k world \<Rightarrow> 'k world" where
  "close_pipe K r s w = sys_do K (File (Close s)) (sys_do K (File (Close r)) w)"

text \<open>\<open>None\<close> is \<open>abort()\<close>.\<close>

definition init_thread_pool ::
  "platform \<Rightarrow> bool \<Rightarrow> 'k kernel \<Rightarrow> int \<Rightarrow> pool_handle \<Rightarrow> 'k world \<Rightarrow>
   (int \<times> pool_handle \<times> 'k world) option" where
  "init_thread_pool pf wake_action_by_signal K event_bus p w =
     (if initialized p then None
      else if pf = Windows
      then Some (event_bus, p\<lparr>notify_send := event_bus, notify_recv := event_bus,
                              initialized := True\<rparr>, w)
      else
        let (p, w) = init_signals pf wake_action_by_signal K p w;
            (a, w) = sys K (Net Make_pipe) w;
            r = a_nums a ! 0; s = a_nums a ! 1
        in if a_ret a < 0 then Some (-1, p, w)
           else
             let (e, w) = set_cloexec K r w
             in if e < 0 then Some (-1, p, close_pipe K r s w)
                else
                  let (e, w) = set_cloexec K s w
                  in if e < 0 then Some (-1, p, close_pipe K r s w)
                     else
                       let p = p\<lparr>notify_recv := r, notify_send := s\<rparr>;
                           (e, w) = event_bus_register pf K event_bus r True w
                       in if e < 0 then Some (-1, p, close_pipe K r s w)
                          else Some (r, p\<lparr>initialized := True\<rparr>, w))"

definition destroy_thread_pool ::
  "platform \<Rightarrow> 'k kernel \<Rightarrow> pool_handle \<Rightarrow> 'k world \<Rightarrow> (pool_handle \<times> 'k world) option" where
  "destroy_thread_pool pf K p w =
     (if \<not> initialized p then None
      else
        let p = p\<lparr>initialized := False\<rparr>
        in if pf = Windows then Some (p, w)
           else
             let w = sys_do K (Net (Sigmask_set (old_sigmask p))) w;
                 w = sys_do K (File (Close (notify_recv p))) w
             in Some (p, sys_do K (File (Close (notify_send p))) w))"

section \<open>Reading completions\<close>

text \<open>The buffer \<open>completed_jobs_buffer\<close> has 1024 numbers of four bytes.\<close>

definition COMPLETED_JOBS :: nat where "COMPLETED_JOBS = 1024"

definition fetch_completion :: "'k kernel \<Rightarrow> int \<Rightarrow> nat \<Rightarrow> 'k world \<Rightarrow> (int \<times> int list) \<times> 'k world" where
  "fetch_completion K recv max_len w =
     (let (a, w) = sys K (File (Read recv (0, 0) (int max_len * 4))) w
      in ((a_ret a, a_nums a), w))"

text \<open>
  The inner loop of \<open>poll\<close>: the job numbers it hands to \<open>handle_completed_job\<close>, and the
  error it raises, if any. \<open>None\<close> is a loop that does not end.
\<close>

partial_function (option) drain_completions ::
  "'k kernel \<Rightarrow> int \<Rightarrow> 'k world \<Rightarrow> int list \<Rightarrow> ((int list \<times> int option) \<times> 'k world) option" where
  "drain_completions K recv w handled =
     (case fetch_completion K recv COMPLETED_JOBS w of
        ((bytes, out), w') \<Rightarrow>
          (if bytes < 0 then Some ((handled, Some (errno w')), w')
           else
             let n = nat (bytes sdiv 4)
             in if n < COMPLETED_JOBS then Some ((handled @ take n out, None), w')
                else drain_completions K recv w' (handled @ take n out)))"

section \<open>Waking coroutines\<close>

datatype io_status = Idle | Submitted | Waiting nat

record io_handle =
  h_read :: io_status
  h_write :: io_status

record poll_state =
  ps_fds :: "int \<rightharpoonup> io_handle"
  ps_pids :: "int \<rightharpoonup> nat"
  ps_notify :: int

datatype wake_action = Wake nat | Complete int

definition ReadEvent :: int where "ReadEvent = 1"
definition WriteEvent :: int where "WriteEvent = 2"
definition ProcessEvent :: int where "ProcessEvent = 4"

fun waiter :: "io_status \<Rightarrow> wake_action list" where
  "waiter (Waiting c) = [Wake c]"
| "waiter _ = []"

definition wake_handle :: "poll_state \<Rightarrow> int \<Rightarrow> int \<Rightarrow> wake_action list" where
  "wake_handle st fd events =
     (case ps_fds st fd of
        None \<Rightarrow> []
      | Some h \<Rightarrow>
          (if events AND ReadEvent \<noteq> 0 then waiter (h_read h) else []) @
          (if events AND WriteEvent \<noteq> 0 then waiter (h_write h) else []))"

text \<open>\<open>UnixEventLoopExtra::poll\<close> over the events, each as its descriptor and its bits.\<close>

fun poll_unix ::
  "'k kernel \<Rightarrow> poll_state \<Rightarrow> (int \<times> int) list \<Rightarrow> 'k world \<Rightarrow>
   ((wake_action list \<times> int option) \<times> 'k world) option" where
  "poll_unix K st [] w = Some (([], None), w)"
| "poll_unix K st ((fd, events) # evs) w =
     (if events AND ProcessEvent = 0 \<and> fd = ps_notify st
      then case drain_completions K fd w [] of
             None \<Rightarrow> None
           | Some ((jobs, Some e), w) \<Rightarrow> Some ((map Complete jobs, Some e), w)
           | Some ((jobs, None), w) \<Rightarrow>
               map_option (\<lambda>((l, e), w). ((map Complete jobs @ l, e), w)) (poll_unix K st evs w)
      else
        map_option
          (\<lambda>((l, e), w).
             (((if events AND ProcessEvent \<noteq> 0
                then case ps_pids st fd of None \<Rightarrow> [] | Some c \<Rightarrow> [Wake c]
                else wake_handle st fd events) @ l, e), w))
          (poll_unix K st evs w))"

text \<open>\<open>WindowsEventLoopExtra::poll\<close>; \<open>event_of\<close> reads the kind of an \<open>IoResult\<close>.\<close>

fun poll_windows :: "(ptr \<Rightarrow> int) \<Rightarrow> poll_state \<Rightarrow> iocp_event list \<Rightarrow> wake_action list" where
  "poll_windows event_of st [] = []"
| "poll_windows event_of st (ev # evs) =
     (if iocp_get_fd ev = ps_notify st then [Complete (event_get_bytes_transferred ev)]
      else
        case ps_fds st (iocp_get_fd ev) of
          None \<Rightarrow> []
        | Some io \<Rightarrow>
            let event = event_of (event_get_io_result ev)
            in if event = ReadEvent \<and> waiter (h_read io) \<noteq> [] then waiter (h_read io)
               else if event = WriteEvent then waiter (h_write io)
               else []) @
     poll_windows event_of st evs"

section \<open>Correctness\<close>

text \<open>
  The notification pipe: whole numbers are written to it and read from it; since
  it is registered with the event bus it is non-blocking, so an empty pipe answers
  \<open>EAGAIN\<close>. \<open>content\<close> reads the numbers still in the pipe off the state of the system.
\<close>

definition serves_pipe :: "platform \<Rightarrow> 'k kernel \<Rightarrow> int \<Rightarrow> ('k \<Rightarrow> int list) \<Rightarrow> bool" where
  "serves_pipe pf K recv content \<longleftrightarrow>
     (\<forall>k. case K (File (Read recv (0, 0) 4096)) k of (a, k') \<Rightarrow>
        if content k = [] then a_ret a = -1 \<and> a_err a = Some (EAGAIN pf) \<and> content k' = []
        else a_ret a = 4 * int (min 1024 (length (content k))) \<and>
             a_nums a = take 1024 (content k) \<and> content k' = drop 1024 (content k))"

lemma drain_step:
  assumes "serves_pipe pf K recv content"
  shows "\<exists>w'. content (kst w') = drop 1024 (content (kst w)) \<and>
    drain_completions K recv w handled =
      (if content (kst w) = [] then Some ((handled, Some (EAGAIN pf)), w')
       else if length (content (kst w)) < 1024 then Some ((handled @ content (kst w), None), w')
       else drain_completions K recv w' (handled @ take 1024 (content (kst w))))"
proof -
  obtain a k' where k: "K (File (Read recv (0, 0) 4096)) (kst w) = (a, k')" by fastforce
  let ?w' = "snd (sys K (File (Read recv (0, 0) 4096)) w)"
  let ?c = "content (kst w)"
  have p: "if ?c = [] then a_ret a = -1 \<and> a_err a = Some (EAGAIN pf) \<and> content k' = []
      else a_ret a = 4 * int (min 1024 (length ?c)) \<and> a_nums a = take 1024 ?c \<and> content k' = drop 1024 ?c"
    using assms [unfolded serves_pipe_def, THEN spec, of "kst w"] unfolding k by simp
  have s: "fst (sys K (File (Read recv (0, 0) 4096)) w) = a" "kst ?w' = k'"
    "a_err a = Some e \<Longrightarrow> errno ?w' = e" for e
    using k by (simp_all add: sys_fst sys_kst sys_errno_Some)
  have d: "(4 * int m) sdiv 4 = int m" for m
    by (cases "m = 0") (simp_all add: signed_divide_int_def sgn_if)
  have f: "fetch_completion K recv COMPLETED_JOBS w = ((a_ret a, a_nums a), ?w')"
    by (simp add: fetch_completion_def COMPLETED_JOBS_def split_beta Let_def s(1))
  show ?thesis
  proof (intro exI [of _ ?w'] conjI)
    show "content (kst ?w') = drop 1024 ?c" using p s by (auto split: if_splits)
    show "drain_completions K recv w handled =
        (if ?c = [] then Some ((handled, Some (EAGAIN pf)), ?w')
         else if length ?c < 1024 then Some ((handled @ ?c, None), ?w')
         else drain_completions K recv ?w' (handled @ take 1024 ?c))"
      unfolding drain_completions.simps [of K recv w handled] f
      using p s(3) by (cases "?c = []") (auto simp: d COMPLETED_JOBS_def Let_def min_def)
  qed
qed

lemma drain_all:
  assumes "serves_pipe pf K recv content"
  shows "\<exists>w'. content (kst w') = [] \<and> drain_completions K recv w handled =
    Some ((handled @ content (kst w),
           if 1024 dvd length (content (kst w)) then Some (EAGAIN pf) else None), w')"
proof (induction "length (content (kst w))" arbitrary: w handled rule: less_induct)
  case less
  let ?c = "content (kst w)"
  obtain w1 where w1: "content (kst w1) = drop 1024 ?c"
    "drain_completions K recv w handled =
      (if ?c = [] then Some ((handled, Some (EAGAIN pf)), w1)
       else if length ?c < 1024 then Some ((handled @ ?c, None), w1)
       else drain_completions K recv w1 (handled @ take 1024 ?c))"
    using drain_step [OF assms, of w handled] by blast
  show ?case
  proof (cases "?c = [] \<or> length ?c < 1024")
    case True
    then show ?thesis using w1 by (auto dest: dvd_imp_le)
  next
    case False
    then have l: "length (content (kst w1)) < length ?c" by (auto simp: w1(1))
    have "1024 dvd length ?c - 1024 \<longleftrightarrow> 1024 dvd length ?c"
      using False by (simp add: dvd_minus_self)
    with less [OF l, of "handled @ take 1024 ?c"] False show ?thesis
      by (auto simp: w1)
  qed
qed

text \<open>
  Claim C17 (termination). When the event loop reads the completions from the notification
  pipe, the loop ends, empties the pipe and hands over every completed job in order; it
  reports no error, except when the number of pending completions is a multiple of 1024:
  then it reads once more from the empty pipe and raises \<open>EAGAIN\<close>.
\<close>

theorem completions_drained:
  assumes "serves_pipe pf K recv content"
  shows "\<exists>w'. drain_completions K recv w [] =
      Some ((content (kst w),
             if 1024 dvd length (content (kst w)) then Some (EAGAIN pf) else None), w')
    \<and> content (kst w') = []"
  using drain_all [OF assms, of w "[]"] by auto

definition pipe_kernel :: "int list kernel" where
  "pipe_kernel c k =
     (case c of
        File (Read fd buf n) \<Rightarrow>
          if k = [] then (blank\<lparr>a_ret := -1, a_err := Some 11\<rparr>, [])
          else (blank\<lparr>a_ret := 4 * int (min 1024 (length k)), a_nums := take 1024 k\<rparr>, drop 1024 k)
      | _ \<Rightarrow> (blank, k))"

lemma serves_pipe_kernel: "serves_pipe Linux pipe_kernel recv id"
  by (simp add: serves_pipe_def pipe_kernel_def EAGAIN_def blank_def)

theorem completions_drained_witness:
  "(\<exists>w'. drain_completions pipe_kernel 5 (boot [7, 8]) [] = Some (([7, 8], None), w')) \<and>
   (\<exists>w'. drain_completions pipe_kernel 5 (boot (replicate 1024 9)) [] =
      Some ((replicate 1024 9, Some 11), w'))"
proof -
  have d: "\<not> (1024 :: nat) dvd Suc (Suc 0)" by presburger
  from completions_drained [OF serves_pipe_kernel, where w = "boot [7, 8]" and recv = 5]
    completions_drained [OF serves_pipe_kernel, where w = "boot (replicate 1024 9)" and recv = 5]
  show ?thesis by (auto simp: boot_def EAGAIN_def d)
qed

subsection \<open>Waking up\<close>

text \<open>What an epoll event means for a reader and for a writer.\<close>

definition hung_up :: "epoll_event \<Rightarrow> bool" where
  "hung_up ev \<longleftrightarrow> (\<exists>b \<in> {EPOLLERR, EPOLLHUP, EPOLLRDHUP}. ee_events ev AND b \<noteq> 0)"

definition readable :: "epoll_event \<Rightarrow> bool" where
  "readable ev \<longleftrightarrow> ee_events ev AND EPOLLIN \<noteq> 0 \<or> hung_up ev"

definition writable :: "epoll_event \<Rightarrow> bool" where
  "writable ev \<longleftrightarrow> ee_events ev AND EPOLLOUT \<noteq> 0 \<or> hung_up ev"

lemma epoll_bits_of_events:
  "epoll_get_events ev AND ReadEvent \<noteq> 0 \<longleftrightarrow> readable ev"
  "epoll_get_events ev AND WriteEvent \<noteq> 0 \<longleftrightarrow> writable ev"
  "epoll_get_events ev AND ProcessEvent = 0"
proof -
  have h: "ee_events ev AND (EPOLLERR OR EPOLLHUP OR EPOLLRDHUP) \<noteq> 0 \<longleftrightarrow> hung_up ev"
    by (auto simp: hung_up_def bit.conj_disj_distrib or_eq_0_iff)
  show "epoll_get_events ev AND ReadEvent \<noteq> 0 \<longleftrightarrow> readable ev"
    "epoll_get_events ev AND WriteEvent \<noteq> 0 \<longleftrightarrow> writable ev"
    "epoll_get_events ev AND ProcessEvent = 0"
    by (simp_all only: epoll_get_events_def h readable_def writable_def ReadEvent_def WriteEvent_def
        ProcessEvent_def Let_def)
       (auto split: if_splits)
qed

text \<open>The descriptor given at registration is the one an event carries.\<close>

lemma epoll_fd_roundtrip:
  assumes "- (2 ^ 31) \<le> fd" "fd < 2 ^ 31" "ee_data ev = word_of_int fd"
  shows "epoll_get_fd ev = fd"
proof -
  have "i32 (uint (word_of_int fd :: 64 word)) = i32 fd"
    by (simp add: i32_def unsigned_of_int signed_take_bit_take_bit)
  then show ?thesis using assms by (simp add: epoll_get_fd_def i32_id)
qed

definition epoll_batch :: "epoll_event list \<Rightarrow> (int \<times> int) list" where
  "epoll_batch evs = map (\<lambda>ev. (epoll_get_fd ev, epoll_get_events ev)) evs"

lemma waiter_iff: "Wake c \<in> set (waiter s) \<longleftrightarrow> s = Waiting c"
  by (cases s) auto

lemma wake_handle_iff:
  "Wake c \<in> set (wake_handle st fd events) \<longleftrightarrow>
     (\<exists>h. ps_fds st fd = Some h \<and>
       (h_read h = Waiting c \<and> events AND ReadEvent \<noteq> 0 \<or>
        h_write h = Waiting c \<and> events AND WriteEvent \<noteq> 0))"
  by (cases "ps_fds st fd") (auto simp: wake_handle_def waiter_iff)

text \<open>
  Claim C34 (functional). Whenever a batch of epoll events is handled without an error,
  exactly the right coroutines are woken: one that waits to read its descriptor is woken if
  and only if an event says the descriptor is readable, in error or hung up, one that waits
  to write if and only if it is writable, in error or hung up.
\<close>

theorem epoll_wakes_exactly:
  assumes "poll_unix K st (epoll_batch evs) w = Some ((l, None), w')"
  shows "Wake c \<in> set l \<longleftrightarrow>
    (\<exists>ev \<in> set evs. \<exists>h. epoll_get_fd ev \<noteq> ps_notify st \<and> ps_fds st (epoll_get_fd ev) = Some h \<and>
       (h_read h = Waiting c \<and> readable ev \<or> h_write h = Waiting c \<and> writable ev))"
  using assms
proof (induction evs arbitrary: w l w')
  case Nil
  then show ?case by (simp add: epoll_batch_def)
next
  case (Cons ev evs)
  have b: "epoll_batch (ev # evs) = (epoll_get_fd ev, epoll_get_events ev) # epoll_batch evs"
    by (simp add: epoll_batch_def)
  show ?case
  proof (cases "epoll_get_fd ev = ps_notify st")
    case True
    from Cons.prems True obtain jobs w1 l' where
      "poll_unix K st (epoll_batch evs) w1 = Some ((l', None), w')" "l = map Complete jobs @ l'"
      by (auto simp: b epoll_bits_of_events split: option.splits)
    with Cons.IH [of w1 l'] True show ?thesis by auto
  next
    case False
    from Cons.prems False obtain l' where
      l': "poll_unix K st (epoll_batch evs) w = Some ((l', None), w')"
        "l = wake_handle st (epoll_get_fd ev) (epoll_get_events ev) @ l'"
      by (auto simp: b epoll_bits_of_events)
    then show ?thesis
      using Cons.IH [OF l'(1)] False by (auto simp: wake_handle_iff epoll_bits_of_events)
  qed
qed

theorem epoll_wakes_exactly_witness:
  "Wake 4 \<in> set (wake_handle \<lparr>ps_fds = [9 \<mapsto> \<lparr>h_read = Waiting 4, h_write = Idle\<rparr>],
      ps_pids = Map.empty, ps_notify = 3\<rparr> 9 3)"
proof -
  let ?st = "\<lparr>ps_fds = [9 \<mapsto> \<lparr>h_read = Waiting 4, h_write = Idle\<rparr>], ps_pids = Map.empty, ps_notify = 3\<rparr>"
  let ?ev = "\<lparr>ee_events = EPOLLHUP, ee_data = 9\<rparr>"
  have g: "epoll_get_fd ?ev = 9" "epoll_get_events ?ev = 3"
    by (simp_all add: epoll_get_fd_def epoll_get_events_def i32_nonneg epoll_bits)
  have "poll_unix pipe_kernel ?st (epoll_batch [?ev]) (boot []) =
      Some ((wake_handle ?st 9 3, None), boot [])"
    by (simp add: epoll_batch_def g ProcessEvent_def)
  note * = epoll_wakes_exactly [OF this, of 4]
  have "readable ?ev" by (simp add: readable_def hung_up_def epoll_bits)
  then show ?thesis using * by (simp add: g del: fun_upd_apply) (simp add: g)
qed

section \<open>Resources of the thread pool\<close>

text \<open>What a function of the list above may do to the descriptors: nothing.\<close>

lemma released_change_flags:
  "change_flags K fd get put needed change w = (r, w') \<Longrightarrow>
   \<exists>l. log w' = log w @ l \<and> released_in l = []"
  by (auto simp: change_flags_def Let_def split_beta world_simps split: if_splits)

lemma released_make_nonblocking:
  "\<exists>l. log (make_nonblocking pf K fd w) = log w @ l \<and> released_in l = []"
  by (auto simp: make_nonblocking_def Let_def split_beta world_simps)

lemma released_register:
  assumes "event_bus_register pf K bus fd ro w = (r, w')"
  shows "\<exists>l. log w' = log w @ l \<and> released_in l = []"
proof -
  obtain l where l: "log (make_nonblocking pf' K fd w) = log w @ l pf'" "released_in (l pf') = []" for pf'
    using released_make_nonblocking [of _ K fd w] by metis
  show ?thesis
    using assms l
    by (cases pf) (auto simp: event_bus_register_def epoll_register_def kqueue_register_def
        iocp_register_def Let_def split_beta world_simps split: if_splits)
qed

lemma released_init_signals:
  assumes "init_signals pf b K p w = (p', w')"
  shows "\<exists>l. log w' = log w @ l \<and> released_in l = []"
    and "initialized p' = initialized p"
  using assms by (auto simp: init_signals_def Let_def split_beta world_simps)

lemma released_close_pipe:
  "\<exists>l. log (close_pipe K r s w) = log w @ l \<and> released_in l = [r, s]"
  by (auto simp: close_pipe_def world_simps)

definition pipe_ends :: "'k kernel \<Rightarrow> 'k world \<Rightarrow> int \<times> int" where
  "pipe_ends K w =
     (let nums = a_nums (fst (sys K (Net Make_pipe) w)) in (nums ! 0, nums ! 1))"

lemma destroy_releases:
  assumes "pf \<noteq> Windows" "initialized p"
  shows "\<exists>w'. destroy_thread_pool pf K p w = Some (p\<lparr>initialized := False\<rparr>, w') \<and>
    released_in (since w w') = [notify_recv p, notify_send p] \<and>
    calls (since w w') = [Net (Sigmask_set (old_sigmask p)), File (Close (notify_recv p)), File (Close (notify_send p))]"
  using assms by (simp add: destroy_thread_pool_def Let_def since_def calls_def world_simps)

lemma init_outcomes:
  assumes "pf \<noteq> Windows" "init_thread_pool pf b K bus p w = Some (r, p', w')"
  obtains (ready) w1 l where "initialized p'" "r = notify_recv p'"
      "pipe_ends K w1 = (notify_recv p', notify_send p')" "log w' = log w @ l" "released_in l = []"
  | (no_pipe) w1 l where "\<not> initialized p'" "r = -1" "a_ret (fst (sys K (Net Make_pipe) w1)) < 0"
      "log w' = log w @ l" "released_in l = []"
  | (closed) w1 l where "\<not> initialized p'" "r = -1" "log w' = log w @ l"
      "released_in l = [fst (pipe_ends K w1), snd (pipe_ends K w1)]"
proof -
  from assms have ni: "\<not> initialized p" by (auto simp: init_thread_pool_def split: if_splits)
  obtain p1 w1 where i: "init_signals pf b K p w = (p1, w1)" by fastforce
  then obtain l1 where l1: "log w1 = log w @ l1" "released_in l1 = []" "\<not> initialized p1"
    using released_init_signals [OF i] ni by auto
  obtain a w2 where pp: "sys K (Net Make_pipe) w1 = (a, w2)" by fastforce
  then have l2: "log w2 = log w1 @ [(Net Make_pipe, a_ret a)]"
    using sys_log [of K "Net Make_pipe" w1] by simp
  let ?r = "a_nums a ! 0" and ?s = "a_nums a ! 1"
  have e: "pipe_ends K w1 = (?r, ?s)" by (simp add: pipe_ends_def pp Let_def)
  obtain e3 w3 where c3: "set_cloexec K ?r w2 = (e3, w3)" by fastforce
  then obtain l3 where l3: "log w3 = log w2 @ l3" "released_in l3 = []"
    using released_change_flags unfolding set_cloexec_def by metis
  obtain e4 w4 where c4: "set_cloexec K ?s w3 = (e4, w4)" by fastforce
  then obtain l4 where l4: "log w4 = log w3 @ l4" "released_in l4 = []"
    using released_change_flags unfolding set_cloexec_def by metis
  obtain e5 w5 where c5: "event_bus_register pf K bus ?r True w4 = (e5, w5)" by fastforce
  then obtain l5 where l5: "log w5 = log w4 @ l5" "released_in l5 = []"
    using released_register by metis
  obtain q where q: "\<And>w. log (close_pipe K ?r ?s w) = log w @ q w" "\<And>w. released_in (q w) = [?r, ?s]"
    using released_close_pipe [of K ?r ?s] by metis
  note run = assms(2) [unfolded init_thread_pool_def Let_def, simplified ni assms(1) i pp c3 c4 c5
      split_conv if_False simp_thms option.inject prod.inject]
  consider "a_ret a < 0" | "0 \<le> a_ret a" "e3 < 0" | "0 \<le> a_ret a" "0 \<le> e3" "e4 < 0"
    | "0 \<le> a_ret a" "0 \<le> e3" "0 \<le> e4" "e5 < 0" | "0 \<le> a_ret a" "0 \<le> e3" "0 \<le> e4" "0 \<le> e5"
    by linarith
  then show thesis
  proof cases
    case 1
    with run have "r = -1" "p' = p1" "w' = w2" by auto
    with 1 l1 l2 pp show thesis by (intro no_pipe [of w1 "l1 @ [(Net Make_pipe, a_ret a)]"]) auto
  next
    case 2
    with run have "r = -1" "p' = p1" "w' = close_pipe K ?r ?s w3" by auto
    with l1 l2 l3 q e show thesis
      by (intro closed [of "l1 @ [(Net Make_pipe, a_ret a)] @ l3 @ q w3" w1]) auto
  next
    case 3
    with run have "r = -1" "p' = p1" "w' = close_pipe K ?r ?s w4" by auto
    with l1 l2 l3 l4 q e show thesis
      by (intro closed [of "l1 @ [(Net Make_pipe, a_ret a)] @ l3 @ l4 @ q w4" w1]) auto
  next
    case 4
    with run have "r = -1" "p' = p1\<lparr>notify_recv := ?r, notify_send := ?s\<rparr>"
      "w' = close_pipe K ?r ?s w5" by auto
    with l1 l2 l3 l4 l5 q e show thesis
      by (intro closed [of "l1 @ [(Net Make_pipe, a_ret a)] @ l3 @ l4 @ l5 @ q w5" w1]) auto
  next
    case 5
    with run have "r = ?r" "p' = p1\<lparr>notify_recv := ?r, notify_send := ?s, initialized := True\<rparr>"
      "w' = w5" by auto
    with l1 l2 l3 l4 l5 e show thesis
      by (intro ready [of w1 "l1 @ [(Net Make_pipe, a_ret a)] @ l3 @ l4 @ l5"]) auto
  qed
qed

text \<open>
  The mask the start saves, and its first calls: it blocks \<open>SIGCHLD\<close>, and \<open>SIGUSR1\<close> where workers are woken by it,
  ignores \<open>SIGPIPE\<close> and installs the handler of \<open>SIGUSR2\<close>.
\<close>

definition blocked_signals :: "platform \<Rightarrow> bool \<Rightarrow> int list" where
  "blocked_signals pf b = (if b then [SIGCHLD pf, SIGUSR1 pf] else [SIGCHLD pf])"

definition mask_before :: "platform \<Rightarrow> bool \<Rightarrow> 'k kernel \<Rightarrow> 'k world \<Rightarrow> int list" where
  "mask_before pf b K w = a_nums (fst (sys K (Net (Sigmask_block (blocked_signals pf b))) w))"

lemma init_signals_log:
  assumes "init_signals pf b K p w = (p', w')"
  shows "old_sigmask p' = mask_before pf b K w"
    and "map fst (log w') = map fst (log w) @
      [Net (Sigmask_block (blocked_signals pf b)), Net (Sigaction SIGPIPE True), Net (Sigaction (SIGUSR2 pf) False)]"
  using assms by (auto simp: init_signals_def blocked_signals_def mask_before_def Let_def split_beta world_simps)

lemma init_mask:
  assumes "pf \<noteq> Windows" "init_thread_pool pf b K bus p w = Some (r, p', w')"
  shows "old_sigmask p' = mask_before pf b K w"
    and "take 3 (calls (since w w')) =
      [Net (Sigmask_block (blocked_signals pf b)), Net (Sigaction SIGPIPE True), Net (Sigaction (SIGUSR2 pf) False)]"
proof -
  from assms have ni: "\<not> initialized p" by (auto simp: init_thread_pool_def split: if_splits)
  obtain p1 w1 where i: "init_signals pf b K p w = (p1, w1)" by fastforce
  obtain a w2 where pp: "sys K (Net Make_pipe) w1 = (a, w2)" by fastforce
  then have l2: "\<exists>l. log w2 = log w1 @ l" using sys_log [of K "Net Make_pipe" w1] by simp
  let ?r = "a_nums a ! 0" and ?s = "a_nums a ! 1"
  obtain e3 w3 where c3: "set_cloexec K ?r w2 = (e3, w3)" by fastforce
  then have l3: "\<exists>l. log w3 = log w2 @ l" using released_change_flags unfolding set_cloexec_def by metis
  obtain e4 w4 where c4: "set_cloexec K ?s w3 = (e4, w4)" by fastforce
  then have l4: "\<exists>l. log w4 = log w3 @ l" using released_change_flags unfolding set_cloexec_def by metis
  obtain e5 w5 where c5: "event_bus_register pf K bus ?r True w4 = (e5, w5)" by fastforce
  then have l5: "\<exists>l. log w5 = log w4 @ l" using released_register by metis
  have q: "\<exists>l. log (close_pipe K ?r ?s w) = log w @ l" for w using released_close_pipe by blast
  note run = assms(2) [unfolded init_thread_pool_def Let_def, simplified ni assms(1) i pp c3 c4 c5
      split_conv if_False simp_thms option.inject prod.inject]
  have "old_sigmask p' = old_sigmask p1 \<and> w' \<in> {w2, close_pipe K ?r ?s w3, close_pipe K ?r ?s w4, close_pipe K ?r ?s w5, w5}"
    using run by (auto split: if_splits)
  then have p: "old_sigmask p' = old_sigmask p1" and "\<exists>l. log w' = log w1 @ l"
    using l2 l3 l4 l5 q [of w3] q [of w4] q [of w5] by auto
  then obtain l where l: "log w' = log w1 @ l" by blast
  show "old_sigmask p' = mask_before pf b K w" using p init_signals_log(1) [OF i] by simp
  show "take 3 (calls (since w w')) =
      [Net (Sigmask_block (blocked_signals pf b)), Net (Sigaction SIGPIPE True), Net (Sigaction (SIGUSR2 pf) False)]"
    using init_signals_log(2) [OF i] l by (simp add: calls_def since_def drop_map [symmetric])
qed

text \<open>
  Claim C26 (safety). Starting the thread pool on Unix first blocks \<open>SIGCHLD\<close> (and \<open>SIGUSR1\<close> where workers
  are woken by it), ignores \<open>SIGPIPE\<close> and installs the handler of \<open>SIGUSR2\<close>. Then it either makes the pool ready, with the
  two ends of its notification pipe open and closed again exactly once when the pool is
  destroyed, which also sets the signal mask to the one there was before the start; or it reports an error, the pool is
  not ready, and whatever it opened is closed.
\<close>

theorem thread_pool_lifecycle:
  assumes "pf \<noteq> Windows" "init_thread_pool pf b K bus p w = Some (r, p', w')"
  shows "take 3 (calls (since w w')) =
      [Net (Sigmask_block (blocked_signals pf b)), Net (Sigaction SIGPIPE True), Net (Sigaction (SIGUSR2 pf) False)] \<and>
    (if initialized p'
     then r = notify_recv p' \<and> released_in (since w w') = [] \<and>
       (\<exists>w1. pipe_ends K w1 = (notify_recv p', notify_send p')) \<and>
       (\<exists>w''. destroy_thread_pool pf K p' w' = Some (p'\<lparr>initialized := False\<rparr>, w'') \<and>
          calls (since w' w'') = [Net (Sigmask_set (mask_before pf b K w)), File (Close (notify_recv p')), File (Close (notify_send p'))] \<and>
          released_in (since w' w'') = [notify_recv p', notify_send p'])
     else r = -1 \<and>
       (\<exists>w1. (a_ret (fst (sys K (Net Make_pipe) w1)) < 0 \<and> released_in (since w w') = []) \<or>
             released_in (since w w') = [fst (pipe_ends K w1), snd (pipe_ends K w1)]))"
proof (intro conjI)
  show "if initialized p'
     then r = notify_recv p' \<and> released_in (since w w') = [] \<and>
       (\<exists>w1. pipe_ends K w1 = (notify_recv p', notify_send p')) \<and>
       (\<exists>w''. destroy_thread_pool pf K p' w' = Some (p'\<lparr>initialized := False\<rparr>, w'') \<and>
          calls (since w' w'') = [Net (Sigmask_set (mask_before pf b K w)), File (Close (notify_recv p')), File (Close (notify_send p'))] \<and>
          released_in (since w' w'') = [notify_recv p', notify_send p'])
     else r = -1 \<and>
       (\<exists>w1. (a_ret (fst (sys K (Net Make_pipe) w1)) < 0 \<and> released_in (since w w') = []) \<or>
             released_in (since w w') = [fst (pipe_ends K w1), snd (pipe_ends K w1)])"
    using assms(1,2)
  proof (cases rule: init_outcomes)
    case (ready w1 l)
    with destroy_releases [OF assms(1) ready(1), of K w'] init_mask(1) [OF assms] show ?thesis
      by (auto simp: sinceI [OF ready(4)])
  next
    case (no_pipe w1 l)
    then show ?thesis by (auto simp: sinceI [OF no_pipe(4)])
  next
    case (closed w1 l)
    then show ?thesis by (auto simp: sinceI [OF closed(3)])
  qed
qed (rule init_mask(2) [OF assms])

theorem thread_pool_lifecycle_witness:
  "\<exists>p' w'. init_thread_pool Linux True (\<lambda>c k. (blank\<lparr>a_nums := [5, 6]\<rparr>, k)) 3
      \<lparr>initialized = False, old_sigmask = [], notify_recv = 0, notify_send = 0\<rparr> (boot ()) = Some (5, p', w') \<and>
    (\<exists>w''. destroy_thread_pool Linux (\<lambda>c k. (blank\<lparr>a_nums := [5, 6]\<rparr>, k)) p' w' = Some (p'\<lparr>initialized := False\<rparr>, w'')
      \<and> released_in (since w' w'') = [5, 6])"
proof -
  let ?K = "\<lambda>(c :: call) (k :: unit). (blank\<lparr>a_nums := [5, 6]\<rparr>, k)"
  let ?p = "\<lparr>initialized = False, old_sigmask = [], notify_recv = 0, notify_send = 0\<rparr>"
  obtain p' w' where i: "init_thread_pool Linux True ?K 3 ?p (boot ()) = Some (5, p', w')"
    and r: "initialized p'" "notify_recv p' = 5" "notify_send p' = 6"
    by (simp add: init_thread_pool_def init_signals_def set_cloexec_def change_flags_def
        event_bus_register_def epoll_register_def make_nonblocking_def sys_def sys_do_def Let_def
        blank_def boot_def FD_CLOEXEC_def O_NONBLOCK_def)
  from thread_pool_lifecycle [OF _ i] r i show ?thesis by auto
qed

end
