(* ===== verification/Watch_Buffers.thy ===== *)
theory Watch_Buffers
  imports Event_Bus Byte_Fields
begin

text \<open>
  File watching: the event buffers of \<open>fs/watch_inotify.c\<close>, \<open>fs/watch_kqueue.c\<close> and
  \<open>fs/watch_windows.c\<close>, and the loops of their MoonBit callers that turn a buffer into
  notifications of the watcher. The theorems relate each loop to the list of events the
  system wrote into the buffer.
\<close>

section \<open>inotify\<close>

definition IN_Q_OVERFLOW :: "32 word" where "IN_Q_OVERFLOW = 0x4000"
definition IN_IGNORED :: "32 word" where "IN_IGNORED = 0x8000"
definition IN_NONBLOCK :: "32 word" where "IN_NONBLOCK = 0x800"
definition IN_CLOEXEC :: "32 word" where "IN_CLOEXEC = 0x80000"

definition inotify_create :: "'k kernel \<Rightarrow> 'k world \<Rightarrow> int \<times> 'k world" where
  "inotify_create K w =
     (let (a, w) = sys K (Net (Inotify_init1 (IN_NONBLOCK OR IN_CLOEXEC))) w in (a_ret a, w))"

definition inotify_remove_file :: "'k kernel \<Rightarrow> int \<Rightarrow> int \<Rightarrow> 'k world \<Rightarrow> int \<times> 'k world" where
  "inotify_remove_file K inotify wd w =
     (let (a, w) = sys K (Net (Inotify_rm_watch inotify wd)) w in (a_ret a, w))"

definition sizeof_inotify_event :: nat where "sizeof_inotify_event = 16"

definition inotify_event_buffer_size :: nat where
  "inotify_event_buffer_size = (let min_size = sizeof_inotify_event + 255 + 1
                                in if 4096 < min_size then min_size else 4096)"

text \<open>The number of bytes read, zero when there is none yet, negative for an error.\<close>

definition inotify_fetch_event ::
  "'k kernel \<Rightarrow> int \<Rightarrow> ptr \<Rightarrow> int \<Rightarrow> 'k world \<Rightarrow> int \<times> 'k world" where
  "inotify_fetch_event K inotify buf buf_len w =
     (let (a, w) = sys K (File (Read inotify (buf, 0) buf_len)) w
      in (if 0 < a_ret a then a_ret a else if errno w = EAGAIN Linux then 0 else -1, w))"

definition inotify_event_get_size :: "byte list \<Rightarrow> nat \<Rightarrow> int option" where
  "inotify_event_get_size buf offset =
     map_option (\<lambda>len. i32 (int (sizeof_inotify_event + len))) (le_at buf (offset + 12) 4)"

definition inotify_event_get_wd :: "byte list \<Rightarrow> nat \<Rightarrow> int option" where
  "inotify_event_get_wd buf offset = map_option (\<lambda>v. i32 (int v)) (le_at buf offset 4)"

definition inotify_event_mask :: "byte list \<Rightarrow> nat \<Rightarrow> 32 word option" where
  "inotify_event_mask buf offset = map_option word_of_nat (le_at buf (offset + 4) 4)"

definition inotify_event_has_relevant_event :: "byte list \<Rightarrow> nat \<Rightarrow> bool option" where
  "inotify_event_has_relevant_event buf offset =
     map_option (\<lambda>m. m AND (IN_CREATE OR IN_DELETE OR IN_MODIFY OR IN_MOVED_FROM OR IN_MOVED_TO) \<noteq> 0)
       (inotify_event_mask buf offset)"

definition inotify_event_has_overflow :: "byte list \<Rightarrow> nat \<Rightarrow> bool option" where
  "inotify_event_has_overflow buf offset =
     map_option (\<lambda>m. m AND IN_Q_OVERFLOW \<noteq> 0) (inotify_event_mask buf offset)"

definition inotify_event_has_ignore :: "byte list \<Rightarrow> nat \<Rightarrow> bool option" where
  "inotify_event_has_ignore buf offset =
     map_option (\<lambda>m. m AND IN_IGNORED \<noteq> 0) (inotify_event_mask buf offset)"

text \<open>
  \<open>InotifyWatcher::process_events\<close> for one filled buffer of \<open>n\<close> bytes: the watched
  descriptors, and what the watcher was told, in order. \<open>None\<close> is an access outside the
  buffer, an unknown descriptor (\<open>self.watched[wd]\<close> aborts) or a loop that does not end.
\<close>

datatype 'i notice = Overflow | Modified 'i

type_synonym 'i watched = "int \<rightharpoonup> 'i"

partial_function (option) process_events ::
  "byte list \<Rightarrow> int \<Rightarrow> nat \<Rightarrow> 'i watched \<Rightarrow> 'i notice list \<Rightarrow>
   ('i watched \<times> 'i notice list) option" where
  "process_events buf n offset watched told =
     (if \<not> int offset < n then Some (watched, told)
      else
        case (inotify_event_get_wd buf offset, inotify_event_has_ignore buf offset,
              inotify_event_has_overflow buf offset, inotify_event_has_relevant_event buf offset,
              inotify_event_get_size buf offset) of
          (Some wd, Some ignored, Some overflow, Some relevant, Some n_bytes) \<Rightarrow>
            if int offset + n_bytes < 0 then None
            else if ignored
            then process_events buf n (nat (int offset + n_bytes)) (watched(wd := None)) told
            else if overflow
            then process_events buf n (nat (int offset + n_bytes)) watched (told @ [Overflow])
            else if relevant
            then (case watched wd of
                    None \<Rightarrow> None
                  | Some i \<Rightarrow>
                      process_events buf n (nat (int offset + n_bytes)) watched (told @ [Modified i]))
            else process_events buf n (nat (int offset + n_bytes)) watched told
        | _ \<Rightarrow> None)"

subsection \<open>What the system writes\<close>

record inotify_event =
  iv_wd :: int
  iv_mask :: "32 word"
  iv_cookie :: nat
  iv_name :: "byte list"

definition write_event :: "inotify_event \<Rightarrow> byte list" where
  "write_event e =
     le_bytes 4 (unat (word_of_int (iv_wd e) :: 32 word)) @ le_bytes 4 (unat (iv_mask e)) @
     le_bytes 4 (iv_cookie e) @ le_bytes 4 (length (iv_name e)) @ iv_name e"

definition write_events :: "inotify_event list \<Rightarrow> byte list" where
  "write_events es = concat (map write_event es)"

definition valid_event :: "inotify_event \<Rightarrow> bool" where
  "valid_event e \<longleftrightarrow> - (2 ^ 31) \<le> iv_wd e \<and> iv_wd e < 2 ^ 31 \<and> length (iv_name e) \<le> 256"

text \<open>What the watcher should be told of an event, given who is watched.\<close>

definition relevant_mask :: "32 word \<Rightarrow> bool" where
  "relevant_mask m \<longleftrightarrow> (\<exists>b \<in> {IN_CREATE, IN_DELETE, IN_MODIFY, IN_MOVED_FROM, IN_MOVED_TO}. m AND b \<noteq> 0)"

fun told_by :: "'i watched \<Rightarrow> inotify_event list \<Rightarrow> ('i watched \<times> 'i notice list) option" where
  "told_by watched [] = Some (watched, [])"
| "told_by watched (e # es) =
     (if iv_mask e AND IN_IGNORED \<noteq> 0 then told_by (watched(iv_wd e := None)) es
      else
        case (if iv_mask e AND IN_Q_OVERFLOW \<noteq> 0 then Some [Overflow]
              else if relevant_mask (iv_mask e)
              then map_option (\<lambda>i. [Modified i]) (watched (iv_wd e))
              else Some []) of
          None \<Rightarrow> None
        | Some t \<Rightarrow> map_option (\<lambda>(w, ts). (w, t @ ts)) (told_by watched es))"

subsection \<open>Correctness\<close>

lemma i32_of_32bit: "- (2 ^ 31) \<le> x \<Longrightarrow> x < 2 ^ 31 \<Longrightarrow> i32 (uint (word_of_int x :: 32 word)) = x"
proof -
  assume x: "- (2 ^ 31) \<le> x" "x < 2 ^ 31"
  have "i32 (uint (word_of_int x :: 32 word)) = i32 x"
    by (simp add: i32_def unsigned_of_int signed_take_bit_take_bit)
  with x show ?thesis by (simp add: i32_id)
qed

lemma unat_32_bound [simp]: "unat (m :: 32 word) < 4294967296"
  using unsigned_less [of m] by simp

lemma relevant_mask_iff:
  "m AND (IN_CREATE OR IN_DELETE OR IN_MODIFY OR IN_MOVED_FROM OR IN_MOVED_TO) \<noteq> 0 \<longleftrightarrow> relevant_mask m"
  by (auto simp: relevant_mask_def bit.conj_disj_distrib or_eq_0_iff)

lemma le_at_here0: "le_at (pre @ ys) (length pre) n = le_at ys 0 n"
  using le_at_shift [of pre ys 0 n] by simp

lemma read_event:
  assumes "valid_event e"
  shows "inotify_event_get_wd (pre @ write_event e @ post) (length pre) = Some (iv_wd e)"
    and "inotify_event_mask (pre @ write_event e @ post) (length pre) = Some (iv_mask e)"
    and "inotify_event_get_size (pre @ write_event e @ post) (length pre) =
      Some (int (length (write_event e)))"
proof -
  show "inotify_event_get_wd (pre @ write_event e @ post) (length pre) = Some (iv_wd e)"
    using assms
    by (simp add: inotify_event_get_wd_def write_event_def le_at_here0 layout i32_of_32bit
        valid_event_def)
  show "inotify_event_mask (pre @ write_event e @ post) (length pre) = Some (iv_mask e)"
    by (simp add: inotify_event_mask_def write_event_def le_at_shift layout)
  show "inotify_event_get_size (pre @ write_event e @ post) (length pre) =
      Some (int (length (write_event e)))"
    using assms
    by (simp add: inotify_event_get_size_def sizeof_inotify_event_def write_event_def le_at_shift
        layout valid_event_def i32_nonneg)
qed

lemmas event_tests = inotify_event_has_ignore_def inotify_event_has_overflow_def
  inotify_event_has_relevant_event_def relevant_mask_iff

lemma write_event_pos: "0 < length (write_event e)"
  by (simp add: write_event_def)

lemma process_events_written:
  fixes watched :: "'i watched"
  assumes "\<forall>e \<in> set es. valid_event e"
  shows "process_events (pre @ write_events es @ junk) (int (length pre + length (write_events es)))
      (length pre) watched told =
    map_option (\<lambda>(w, ts). (w, told @ ts)) (told_by watched es)"
  using assms
proof (induction es arbitrary: pre watched told)
  case Nil
  then show ?case by (subst process_events.simps) (simp add: write_events_def)
next
  case (Cons e es)
  have v: "valid_event e" using Cons.prems by simp
  let ?buf = "pre @ write_event e @ write_events es @ junk"
  let ?n = "int (length pre) + (int (length (write_event e)) + int (length (write_events es)))"
  have w: "write_events (e # es) = write_event e @ write_events es"
    by (simp add: write_events_def)
  have IH: "process_events ?buf ?n (nat (int (length pre) + int (length (write_event e)))) wt td =
      map_option (\<lambda>(w, ts). (w, td @ ts)) (told_by wt es)"
    for wt :: "'i watched" and td
    using Cons.IH [of "pre @ write_event e" wt td] Cons.prems by (simp add: nat_int_add add.assoc)
  have pos: "0 < int (length (write_event e)) + int (length (write_events es))"
    using write_event_pos [of e] by linarith
  show ?case
    unfolding w append_assoc
    by (subst process_events.simps)
       (auto simp: read_event [OF v] event_tests IH pos option.map_comp comp_def case_prod_unfold
         split: option.splits)
qed

text \<open>
  Claim C32 (functional). The loop over an inotify buffer ends and tells the watcher exactly
  what the events in it say, in order: a removed descriptor is forgotten, an overflow is
  reported, and an event that is relevant marks the file watched under its descriptor. It
  stops only at a relevant event of a descriptor that is not watched.
\<close>

theorem inotify_events_told:
  assumes "\<forall>e \<in> set es. valid_event e"
  shows "process_events (write_events es @ junk) (int (length (write_events es))) 0 watched [] =
    told_by watched es"
proof -
  have "map_option (\<lambda>(w, ts). (w, [] @ ts)) (told_by watched es) = told_by watched es"
    by (cases "told_by watched es") auto
  then show ?thesis
    using process_events_written [OF assms, of "[]" junk watched "[]"] by simp
qed

theorem inotify_events_told_witness:
  "process_events (write_events [\<lparr>iv_wd = 3, iv_mask = 0x2, iv_cookie = 0, iv_name = [97, 0]\<rparr>,
       \<lparr>iv_wd = 3, iv_mask = 0x8000, iv_cookie = 0, iv_name = []\<rparr>] @ [1, 2])
     (int (length (write_events [\<lparr>iv_wd = 3, iv_mask = 0x2, iv_cookie = 0, iv_name = [97, 0]\<rparr>,
       \<lparr>iv_wd = 3, iv_mask = 0x8000, iv_cookie = 0, iv_name = []\<rparr>]))) 0 [3 \<mapsto> ''a''] [] =
   Some (Map.empty, [Modified ''a''])"
proof -
  let ?es = "[\<lparr>iv_wd = 3, iv_mask = 0x2, iv_cookie = 0, iv_name = [97, 0]\<rparr>,
       \<lparr>iv_wd = 3, iv_mask = 0x8000, iv_cookie = 0, iv_name = []\<rparr>] :: inotify_event list"
  have "\<forall>e \<in> set ?es. valid_event e" by (simp add: valid_event_def)
  from inotify_events_told [OF this, of "[1, 2]" "[3 \<mapsto> ''a'']"]
  show ?thesis by (simp add: IN_IGNORED_def IN_Q_OVERFLOW_def relevant_mask_def IN_CREATE_def
      IN_DELETE_def IN_MODIFY_def IN_MOVED_FROM_def IN_MOVED_TO_def)
qed

text \<open>The buffer takes any event: a name has at most \<open>NAME_MAX\<close> bytes and a NUL.\<close>

lemma inotify_buffer_fits: "length (iv_name e) \<le> 256 \<Longrightarrow> length (write_event e) \<le> inotify_event_buffer_size"
  by (simp add: write_event_def inotify_event_buffer_size_def sizeof_inotify_event_def)

section \<open>kqueue\<close>

definition NOTE_WRITE :: "32 word" where "NOTE_WRITE = 0x2"
definition NOTE_EXTEND :: "32 word" where "NOTE_EXTEND = 0x4"

definition sizeof_kevent :: nat where "sizeof_kevent = 32"

definition kqueue_watcher_buffer_size :: nat where
  "kqueue_watcher_buffer_size = 1024 * sizeof_kevent"

definition kqueue_watcher_add_file ::
  "'k kernel \<Rightarrow> int \<Rightarrow> int \<Rightarrow> bool \<Rightarrow> 'k world \<Rightarrow> int \<times> 'k world" where
  "kqueue_watcher_add_file K kq fd is_dir w =
     (let events_to_watch = NOTE_WRITE;
          events_to_watch = (if \<not> is_dir then events_to_watch OR NOTE_EXTEND else events_to_watch);
          (a, w) = sys K (Net (Kevent_change kq
                     [EV_SET fd EVFILT_VNODE (EV_ADD OR EV_CLEAR) events_to_watch])) w
      in (a_ret a, w))"

definition kqueue_watcher_remove_file :: "'k kernel \<Rightarrow> int \<Rightarrow> int \<Rightarrow> 'k world \<Rightarrow> int \<times> 'k world" where
  "kqueue_watcher_remove_file K kq fd w =
     (let (a, w) = sys K (Net (Kevent_change kq [EV_SET fd EVFILT_VNODE EV_DELETE 0])) w
      in (a_ret a, w))"

definition kqueue_watcher_fetch_event ::
  "'k kernel \<Rightarrow> int \<Rightarrow> int \<Rightarrow> 'k world \<Rightarrow> int \<times> 'k world" where
  "kqueue_watcher_fetch_event K kq buf_len w =
     (let (a, w) = sys K (Net (Kevent_fetch kq (buf_len sdiv int sizeof_kevent) (Some (0, 0)))) w
      in (a_ret a, w))"

definition kqueue_watcher_event_get_fd :: "kevent list \<Rightarrow> int \<Rightarrow> int option" where
  "kqueue_watcher_event_get_fd events index = map_option (\<lambda>e. i32 (kev_ident e)) (tbl events index)"

definition kqueue_watcher_event_has_modify :: "kevent list \<Rightarrow> int \<Rightarrow> bool option" where
  "kqueue_watcher_event_has_modify events index =
     map_option (\<lambda>e. kev_fflags e AND (NOTE_WRITE OR NOTE_EXTEND) \<noteq> 0) (tbl events index)"

text \<open>
  The loop of \<open>KqueueWatcher::process_events\<close> over the events \<open>i\<close> to \<open>n - 1\<close>: the files
  it marks as modified. \<open>None\<close> is an event past the buffer or an unknown descriptor.
\<close>

function kqueue_events ::
  "kevent list \<Rightarrow> int \<Rightarrow> int \<Rightarrow> 'i watched \<Rightarrow> 'i list option" where
  "kqueue_events buf i n watched =
     (if \<not> i < n then Some []
      else
        case (kqueue_watcher_event_get_fd buf i, kqueue_watcher_event_has_modify buf i) of
          (Some fd, Some modified) \<Rightarrow>
            if modified
            then (case watched fd of
                    None \<Rightarrow> None
                  | Some j \<Rightarrow> map_option ((#) j) (kqueue_events buf (i + 1) n watched))
            else kqueue_events buf (i + 1) n watched
        | _ \<Rightarrow> None)"
  by pat_completeness auto
termination by (relation "measure (\<lambda>(_, i, n, _). nat (n - i))") auto

declare kqueue_events.simps [simp del]

section \<open>ReadDirectoryChanges\<close>

text \<open>
  \<open>fs_event_t\<close> is \<open>FILE_NOTIFY_EXTENDED_INFORMATION\<close> where \<open>ReadDirectoryChangesExW\<close>
  exists (\<open>has_ex\<close>), else \<open>FILE_NOTIFY_INFORMATION\<close>. \<open>None\<close> in the identifiers is
  \<open>moonbit_panic\<close>.
\<close>

definition FILE_ACTION_MODIFIED :: nat where "FILE_ACTION_MODIFIED = 3"

definition sizeof_fs_event :: "bool \<Rightarrow> nat" where
  "sizeof_fs_event has_ex = (if has_ex then 88 else 16)"

definition watcher_event_buffer_size :: "bool \<Rightarrow> nat" where
  "watcher_event_buffer_size has_ex = sizeof_fs_event has_ex * 16384"

definition watcher_event_get_size :: "byte list \<Rightarrow> nat \<Rightarrow> int option" where
  "watcher_event_get_size buf offset = map_option (\<lambda>v. i32 (int v)) (le_at buf offset 4)"

definition watcher_event_is_modify_event :: "byte list \<Rightarrow> nat \<Rightarrow> bool option" where
  "watcher_event_is_modify_event buf offset =
     map_option (\<lambda>v. v = FILE_ACTION_MODIFIED) (le_at buf (offset + 4) 4)"

definition watcher_event_get_path_len :: "bool \<Rightarrow> byte list \<Rightarrow> nat \<Rightarrow> int option" where
  "watcher_event_get_path_len has_ex buf offset =
     map_option (\<lambda>v. i32 (int v)) (le_at buf (offset + (if has_ex then 80 else 8)) 4)"

definition watcher_event_get_path_offset :: "bool \<Rightarrow> nat" where
  "watcher_event_get_path_offset has_ex = (if has_ex then 84 else 12)"

definition watcher_event_get_file_id :: "bool \<Rightarrow> byte list \<Rightarrow> nat \<Rightarrow> nat option" where
  "watcher_event_get_file_id has_ex buf offset = (if has_ex then le_at buf (offset + 64) 8 else None)"

definition watcher_event_get_parent_file_id :: "bool \<Rightarrow> byte list \<Rightarrow> nat \<Rightarrow> nat option" where
  "watcher_event_get_parent_file_id has_ex buf offset =
     (if has_ex then le_at buf (offset + 72) 8 else None)"

text \<open>
  The inner loop of \<open>WindowsWatcher::event_handler\<close> with \<open>ReadDirectoryChangesExW\<close>: which
  files are marked. \<open>watched\<close> says of a watched file whether it is a directory.
\<close>

partial_function (option) watcher_events ::
  "byte list \<Rightarrow> int \<Rightarrow> int \<Rightarrow> (nat \<rightharpoonup> bool) \<Rightarrow> nat list \<Rightarrow> nat list option" where
  "watcher_events buf n offset watched marked =
     (if \<not> offset < n then Some marked
      else if offset < 0 then None
      else
        case (watcher_event_get_size buf (nat offset),
              watcher_event_is_modify_event buf (nat offset)) of
          (Some entry_size, Some modified) \<Rightarrow>
            (case (if modified then watcher_event_get_file_id True buf (nat offset)
                   else watcher_event_get_parent_file_id True buf (nat offset)) of
               None \<Rightarrow> None
             | Some file_id \<Rightarrow>
                 let marked = (case watched file_id of
                                 None \<Rightarrow> marked
                               | Some is_dir \<Rightarrow>
                                   if \<not> (modified \<and> is_dir) then marked @ [file_id] else marked)
                 in watcher_events buf n (if entry_size = 0 then n else offset + entry_size)
                      watched marked)
        | _ \<Rightarrow> None)"

subsection \<open>What the system writes\<close>

record fs_event =
  fe_action :: nat
  fe_times :: "byte list"
  fe_id :: nat
  fe_parent :: nat
  fe_name :: "byte list"
  fe_pad :: nat

definition fs_event_len :: "fs_event \<Rightarrow> nat" where
  "fs_event_len e = 84 + length (fe_name e) + fe_pad e"

definition write_fs_event :: "bool \<Rightarrow> fs_event \<Rightarrow> byte list" where
  "write_fs_event fin e =
     le_bytes 4 (if fin then 0 else fs_event_len e) @ le_bytes 4 (fe_action e) @ fe_times e @
     le_bytes 8 (fe_id e) @ le_bytes 8 (fe_parent e) @ le_bytes 4 (length (fe_name e)) @
     fe_name e @ replicate (fe_pad e) 0"

fun write_fs_events :: "fs_event list \<Rightarrow> byte list" where
  "write_fs_events [] = []"
| "write_fs_events (e # es) = write_fs_event (es = []) e @ write_fs_events es"

definition valid_fs_event :: "fs_event \<Rightarrow> bool" where
  "valid_fs_event e \<longleftrightarrow>
     fe_action e < 2 ^ 32 \<and> length (fe_times e) = 56 \<and> fe_id e < 2 ^ 64 \<and> fe_parent e < 2 ^ 64 \<and>
     fs_event_len e < 2 ^ 31"

text \<open>The file an event is about: the file itself if it was modified, else its directory.\<close>

definition marked_by :: "(nat \<rightharpoonup> bool) \<Rightarrow> fs_event \<Rightarrow> nat list" where
  "marked_by watched e =
     (if fe_action e = FILE_ACTION_MODIFIED
      then if watched (fe_id e) = Some False then [fe_id e] else []
      else if watched (fe_parent e) \<noteq> None then [fe_parent e] else [])"

lemma length_write_fs_event: "valid_fs_event e \<Longrightarrow> length (write_fs_event fin e) = fs_event_len e"
  by (simp add: write_fs_event_def valid_fs_event_def fs_event_len_def)

lemma read_fs_event:
  assumes "valid_fs_event e"
  shows "watcher_event_get_size (pre @ write_fs_event fin e @ post) (length pre) =
      Some (if fin then 0 else int (fs_event_len e))"
    and "watcher_event_is_modify_event (pre @ write_fs_event fin e @ post) (length pre) =
      Some (fe_action e = FILE_ACTION_MODIFIED)"
    and "watcher_event_get_file_id True (pre @ write_fs_event fin e @ post) (length pre) = Some (fe_id e)"
    and "watcher_event_get_parent_file_id True (pre @ write_fs_event fin e @ post) (length pre) =
      Some (fe_parent e)"
  using assms
  by (simp_all add: watcher_event_get_size_def watcher_event_is_modify_event_def
      watcher_event_get_file_id_def watcher_event_get_parent_file_id_def write_fs_event_def
      le_at_here0 le_at_shift layout valid_fs_event_def i32_nonneg)

lemma watcher_events_written:
  assumes "es \<noteq> []" "\<forall>e \<in> set es. valid_fs_event e"
  shows "watcher_events (pre @ write_fs_events es @ junk)
      (int (length pre + length (write_fs_events es))) (int (length pre)) watched marked =
    Some (marked @ concat (map (marked_by watched) es))"
  using assms
proof (induction es arbitrary: pre marked)
  case Nil
  then show ?case by simp
next
  case (Cons e es)
  have v: "valid_fs_event e" using Cons.prems by simp
  note rd = read_fs_event [OF v, of pre "es = []" "write_fs_events es @ junk"]
  note l = length_write_fs_event [OF v, of "es = []"]
  have pos: "0 < fs_event_len e" by (simp add: fs_event_len_def)
  let ?buf = "pre @ write_fs_event (es = []) e @ write_fs_events es @ junk"
  let ?n = "int (length pre + length (write_fs_event (es = []) e @ write_fs_events es))"
  have m: "(case watched (if fe_action e = FILE_ACTION_MODIFIED then fe_id e else fe_parent e) of
        None \<Rightarrow> marked
      | Some is_dir \<Rightarrow> if \<not> (fe_action e = FILE_ACTION_MODIFIED \<and> is_dir)
          then marked @ [if fe_action e = FILE_ACTION_MODIFIED then fe_id e else fe_parent e]
          else marked) = marked @ marked_by watched e"
    by (auto simp: marked_by_def split: option.splits)
  have stop: "watcher_events ?buf ?n ?n watched x = Some x" for x
    by (subst watcher_events.simps) simp
  have IH: "watcher_events ?buf ?n (int (length pre) + int (fs_event_len e)) watched x =
      Some (x @ concat (map (marked_by watched) es))" if "es \<noteq> []" for x
    using Cons.IH [of "pre @ write_fs_event (es = []) e" x] Cons.prems that l by (simp add: add.assoc)
  have "watcher_events ?buf ?n (int (length pre)) watched marked =
      watcher_events ?buf ?n (if es = [] then ?n else int (length pre) + int (fs_event_len e))
        watched (marked @ marked_by watched e)"
    using l pos rd m [symmetric] by (subst watcher_events.simps) (auto simp: Let_def)
  then show ?case using IH stop by (cases "es = []") simp_all
qed

text \<open>
  Claim C33 (functional). Of a buffer of change notifications Windows returned, exactly the
  right files are marked, in order: a watched file that was modified, and the watched
  directory in which an entry was created, removed or renamed; a directory that is
  only reported as modified itself is not marked.
\<close>

theorem watcher_events_marked:
  assumes "es \<noteq> []" "\<forall>e \<in> set es. valid_fs_event e"
  shows "watcher_events (write_fs_events es @ junk) (int (length (write_fs_events es))) 0 watched [] =
    Some (concat (map (marked_by watched) es))"
  using watcher_events_written [OF assms, of "[]" junk watched "[]"] by simp

theorem watcher_events_marked_witness:
  "\<exists>buf n. watcher_events buf n 0 [5 \<mapsto> False, 2 \<mapsto> True] [] = Some [5, 2]"
proof -
  let ?e = "\<lparr>fe_action = 3, fe_times = replicate 56 1, fe_id = 5, fe_parent = 2,
      fe_name = [97, 0], fe_pad = 2\<rparr>"
  let ?f = "\<lparr>fe_action = 1, fe_times = replicate 56 1, fe_id = 6, fe_parent = 2,
      fe_name = [98, 0], fe_pad = 2\<rparr>"
  have "\<forall>e \<in> set [?e, ?f]. valid_fs_event e"
    by (simp add: valid_fs_event_def fs_event_len_def)
  from watcher_events_marked [OF _ this, of "[]" "[5 \<mapsto> False, 2 \<mapsto> True]"]
  show ?thesis by (auto simp: marked_by_def FILE_ACTION_MODIFIED_def)
qed

end
