(* ===== verification/Signals.thy ===== *)
theory Signals
  imports Jobs_Process
begin

text \<open>
  Signals: \<open>internal/event_loop/signal.c\<close>, the console control handler of
  \<open>thread_pool.c\<close> and the test by which \<open>handle_completed_job\<close> tells a signal from a
  finished job. The chosen signals are blocked on Unix (a sigwait job receives them) and
  kept as a bit mask on Windows.
\<close>

section \<open>Signal numbers\<close>

definition SIGHUP :: int where "SIGHUP = 1"
definition SIGINT :: int where "SIGINT = 2"
definition SIGTERM :: int where "SIGTERM = 15"
definition CTRL_C_EVENT :: int where "CTRL_C_EVENT = 0"
definition CTRL_BREAK_EVENT :: int where "CTRL_BREAK_EVENT = 1"
definition CTRL_CLOSE_EVENT :: int where "CTRL_CLOSE_EVENT = 2"

lemmas signal_numbers = SIGHUP_def SIGINT_def SIGTERM_def CTRL_C_EVENT_def CTRL_BREAK_EVENT_def
  CTRL_CLOSE_EVENT_def

datatype signal_code = SIGINT_CODE | SIGTERM_CODE | SIGHUP_CODE | SIGBREAK_CODE

fun signal_index :: "signal_code \<Rightarrow> int" where
  "signal_index SIGINT_CODE = 0"
| "signal_index SIGTERM_CODE = 1"
| "signal_index SIGHUP_CODE = 2"
| "signal_index SIGBREAK_CODE = 3"

definition get_signal_by_index :: "platform \<Rightarrow> int \<Rightarrow> int" where
  "get_signal_by_index pf code =
     (if pf = Windows
      then if code = signal_index SIGINT_CODE then CTRL_C_EVENT
           else if code = signal_index SIGBREAK_CODE then CTRL_BREAK_EVENT
           else if code = signal_index SIGHUP_CODE then CTRL_CLOSE_EVENT
           else -1
      else if code = signal_index SIGINT_CODE then SIGINT
           else if code = signal_index SIGTERM_CODE then SIGTERM
           else if code = signal_index SIGHUP_CODE then SIGHUP
           else -1)"

definition all_signals :: "platform \<Rightarrow> int list" where
  "all_signals pf = map (get_signal_by_index pf) [0, 1, 2, 3]"

section \<open>Choosing the signals\<close>

text \<open>\<open>interested_console_ctrl_event\<close>, the loop over the chosen signals.\<close>

fun console_mask :: "32 word \<Rightarrow> int list \<Rightarrow> 32 word" where
  "console_mask new_mask [] = new_mask"
| "console_mask new_mask (s # signals) =
     console_mask (if s < 0 then new_mask else new_mask OR push_bit (nat s) 1) signals"

definition set_cancellation_signals_win :: "int list \<Rightarrow> 32 word" where
  "set_cancellation_signals_win signals = console_mask 0 signals"

text \<open>A signal set is the list of its members; \<open>sigdelset\<close> and \<open>sigaddset\<close>.\<close>

definition sigdel :: "int \<Rightarrow> int list \<Rightarrow> int list" where
  "sigdel s sigs = filter (\<lambda>x. x \<noteq> s) sigs"

definition sigadd :: "int \<Rightarrow> int list \<Rightarrow> int list" where
  "sigadd s sigs = (if s \<in> set sigs then sigs else sigs @ [s])"

fun each_signal :: "(int \<Rightarrow> int list \<Rightarrow> int list) \<Rightarrow> int list \<Rightarrow> int list \<Rightarrow> int list" where
  "each_signal f sigs [] = sigs"
| "each_signal f sigs (s # signals) = each_signal f (if s < 0 then sigs else f s sigs) signals"

definition set_cancellation_signals_unix ::
  "'k kernel \<Rightarrow> int list \<Rightarrow> int list \<Rightarrow> 'k world \<Rightarrow> 'k world" where
  "set_cancellation_signals_unix K all signals w =
     (let (a, w) = sys K (Net Sigmask_get) w;
          sigs = each_signal sigdel (a_nums a) all;
          sigs = each_signal sigadd sigs signals
      in sys_do K (Net (Sigmask_set sigs)) w)"

definition terminate_process_by_signal ::
  "platform \<Rightarrow> 'k kernel \<Rightarrow> int \<Rightarrow> 'k world \<Rightarrow> 'k world" where
  "terminate_process_by_signal pf K sig w =
     (if pf = Windows
      then sys_do K (WNet (W_ExitProcess 0xC000013A)) (sys_do K (Net Flush_stdio) w)
      else sys_do K (Net (Raise sig)) (sys_do K (Net Flush_stdio) (sys_do K (Net (Sigmask_unblock sig)) w)))"

definition set_console_control_handler :: "'k kernel \<Rightarrow> int \<Rightarrow> 'k world \<Rightarrow> int \<times> 'k world" where
  "set_console_control_handler K add w =
     (let (a, w) = sys K (WNet (W_SetConsoleCtrlHandler add)) w in (a_ret a, w))"

text \<open>The handler the system calls with a console event: it posts a completion packet.\<close>

definition console_control_handler ::
  "'k kernel \<Rightarrow> int \<Rightarrow> 32 word \<Rightarrow> nat \<Rightarrow> 'k world \<Rightarrow> bool \<times> 'k world" where
  "console_control_handler K notify_send interested ctrl_type w =
     (if interested AND push_bit ctrl_type 1 \<noteq> 0
      then (True, sys_do K (WProc (W_PostQueuedCompletionStatus notify_send
                    (i32 (int ctrl_type OR 2 ^ 31)))) w)
      else (False, w))"

text \<open>What \<open>handle_completed_job\<close> takes a completion for.\<close>

datatype completion = Signal int | Job_done int

definition decode_completion :: "int \<Rightarrow> completion" where
  "decode_completion job_id =
     (let v = word_of_int job_id :: 32 word
      in if v AND push_bit 31 1 = 0 then Job_done job_id else Signal (sint (v XOR push_bit 31 1)))"

section \<open>Correctness\<close>

lemma bit_top [simp]:
  "bit (2147483648 :: 32 word) n \<longleftrightarrow> n = 31"
  "bit (2147483648 :: int) n \<longleftrightarrow> n = 31"
proof -
  have "(2147483648 :: 32 word) = 2 ^ 31" "(2147483648 :: int) = 2 ^ 31" by simp_all
  then show "bit (2147483648 :: 32 word) n \<longleftrightarrow> n = 31" "bit (2147483648 :: int) n \<longleftrightarrow> n = 31"
    by (simp_all only: bit_exp_iff) auto
qed

lemma bit_shifted_one: "bit (push_bit k 1 :: 32 word) n \<longleftrightarrow> n = k \<and> n < 32"
  by (auto simp: bit_simps)

lemma and_shifted_one: "k < 32 \<Longrightarrow> (v :: 32 word) AND push_bit k 1 = 0 \<longleftrightarrow> \<not> bit v k"
  by (simp only: push_bit_of_1 and_exp_eq_0_iff_not_bit)

lemma console_mask_bit:
  assumes "n < 32" "\<forall>s \<in> set signals. s < 32"
  shows "bit (console_mask m signals) n \<longleftrightarrow> bit m n \<or> int n \<in> set signals"
  using assms(2)
proof (induction signals arbitrary: m)
  case (Cons s signals)
  then show ?case
    using assms(1) by (cases "s < 0") (auto simp: bit_or_iff bit_exp_iff)
qed simp

lemma top_bit_clear:
  assumes "0 \<le> s" "s < (2 :: int) ^ 31"
  shows "\<not> bit s 31"
  using assms by (simp add: bit_iff_odd)

lemma i32_top_bit:
  assumes "0 \<le> s" "s < 2 ^ 31"
  shows "word_of_int (i32 (s OR 2 ^ 31)) = (word_of_int s OR 2147483648 :: 32 word)"
    and "\<not> bit (word_of_int s :: 32 word) 31"
    and "sint (word_of_int s :: 32 word) = s"
proof -
  have "word_of_int (i32 x) = (word_of_int x :: 32 word)" for x
    by (simp add: i32_def word_of_int_eq_iff take_bit_signed_take_bit)
  moreover have "word_of_int (s OR 2 ^ 31) = (word_of_int s OR 2147483648 :: 32 word)"
    by (rule bit_eqI) (auto simp: bit_word_of_int_iff bit_or_iff)
  ultimately show "word_of_int (i32 (s OR 2 ^ 31)) = (word_of_int s OR 2147483648 :: 32 word)"
    by simp
  show s: "sint (word_of_int s :: 32 word) = s"
    using assms by (simp add: signed_of_int signed_take_bit_int_eq_self)
  show "\<not> bit (word_of_int s :: 32 word) 31"
    using top_bit_clear [OF assms] by (simp add: bit_word_of_int_iff)
qed

lemma decode_notify:
  assumes "0 \<le> s" "s < 2 ^ 31"
  shows "decode_completion (notify_signal s) = Signal s"
proof -
  let ?v = "word_of_int s :: 32 word"
  have "(?v OR 2147483648) XOR 2147483648 = ?v"
    using i32_top_bit(2) [OF assms] by (intro bit_eqI) (auto simp: bit_simps)
  moreover have "(?v OR 2147483648) AND push_bit 31 1 \<noteq> 0"
    by (subst and_shifted_one) (simp_all add: bit_or_iff)
  ultimately show ?thesis
    using i32_top_bit(1,3) [OF assms] by (simp add: decode_completion_def notify_signal_def Let_def)
qed

lemma decode_job:
  assumes "0 \<le> s" "s < 2 ^ 31"
  shows "decode_completion s = Job_done s"
  using i32_top_bit(2) [OF assms] and_shifted_one [of 31 "word_of_int s"]
  by (simp add: decode_completion_def Let_def)

text \<open>From job number 2^31 on this no longer holds: no number with the top bit is read as a job.\<close>

lemma decode_wrapped_job:
  assumes "2 ^ 31 \<le> s" "s < 2 ^ 32"
  shows "decode_completion (i32 s) \<noteq> Job_done s'"
proof -
  have "s div 2147483648 = 1" using assms by simp
  then have "bit s 31" by (simp add: bit_iff_odd)
  then have "bit (word_of_int (i32 s) :: 32 word) 31"
    by (simp add: i32_def bit_word_of_int_iff bit_signed_take_bit_iff)
  then show ?thesis
    using and_shifted_one [of 31 "word_of_int (i32 s)"] by (auto simp: decode_completion_def Let_def)
qed

text \<open>
  A signal a worker announces on the notification pipe is read back
  by the event loop as that signal, and a job number below 2^31 as that job: the two are
  never mistaken for each other.
\<close>

lemma signal_announced:
  assumes "0 \<le> n" "n < 2 ^ 31"
  shows "decode_completion (notify_signal n) = Signal n \<and> decode_completion n = Job_done n"
  using decode_notify [OF assms] decode_job [OF assms] by simp

lemma sigset_deleted: "set (each_signal sigdel sigs all) = set sigs - {s \<in> set all. 0 \<le> s}"
  by (induction all arbitrary: sigs) (auto simp: sigdel_def)

lemma sigset_added: "set (each_signal sigadd sigs signals) = set sigs \<union> {s \<in> set signals. 0 \<le> s}"
  by (induction signals arbitrary: sigs) (auto simp: sigadd_def)

text \<open>
  On Unix, choosing the cancellation signals replaces the signal mask
  by one in which, of the signals the library manages, exactly the chosen ones are blocked;
  every other signal stays as it was.
\<close>

lemma cancellation_signals_unix:
  "\<exists>old sigs. since w (set_cancellation_signals_unix K (all_signals pf) signals w) =
      [(Net Sigmask_get, a_ret old), (Net (Sigmask_set sigs), a_ret (fst (sys K (Net (Sigmask_set sigs))
         (snd (sys K (Net Sigmask_get) w)))))] \<and>
    old = fst (sys K (Net Sigmask_get) w) \<and>
    set sigs = (set (a_nums old) - {s \<in> set (all_signals pf). 0 \<le> s}) \<union> {s \<in> set signals. 0 \<le> s}"
proof -
  let ?old = "fst (sys K (Net Sigmask_get) w)"
  let ?w1 = "snd (sys K (Net Sigmask_get) w)"
  let ?s = "each_signal sigadd (each_signal sigdel (a_nums ?old) (all_signals pf)) signals"
  have "log (set_cancellation_signals_unix K (all_signals pf) signals w) =
      log w @ [(Net Sigmask_get, a_ret ?old), (Net (Sigmask_set ?s), a_ret (fst (sys K (Net (Sigmask_set ?s)) ?w1)))]"
    by (simp add: set_cancellation_signals_unix_def Let_def split_beta world_simps)
  from sinceI [OF this] show ?thesis
    by (auto simp: sigset_deleted sigset_added)
qed

text \<open>
  On Windows, after the cancellation signals are chosen, the console
  handler takes exactly the chosen events: for those it posts one packet, which the event
  loop reads back as that signal, and for any other event it declines and does nothing.
\<close>

lemma console_signals:
  assumes "ctrl < 32" "\<forall>s \<in> set signals. s < 32"
  shows "case console_control_handler K port (set_cancellation_signals_win signals) ctrl w of
    (taken, w') \<Rightarrow>
      (taken \<longleftrightarrow> int ctrl \<in> set signals) \<and>
      (if taken
       then \<exists>packet. calls (since w w') = [WProc (W_PostQueuedCompletionStatus port packet)] \<and>
              decode_completion packet = Signal (int ctrl)
       else w' = w)"
proof -
  have m: "set_cancellation_signals_win signals AND push_bit ctrl 1 \<noteq> 0 \<longleftrightarrow> int ctrl \<in> set signals"
    using console_mask_bit [OF assms, of 0] and_shifted_one [OF assms(1)]
    by (simp add: set_cancellation_signals_win_def)
  have "decode_completion (i32 (int ctrl OR 2 ^ 31)) = Signal (int ctrl)"
    using decode_notify [of "int ctrl"] assms(1) by (simp add: notify_signal_def)
  then show ?thesis
    using m by (auto simp: console_control_handler_def since_def sys_do_log)
qed

end
