(* ===== verification/Socket_Addr.thy ===== *)
theory Socket_Addr
  imports Platform Byte_Fields
begin

text \<open>
  Socket addresses: the accessors of \<open>socket/socket.c\<close> over the bytes of a
  \<open>struct sockaddr_in\<close> or \<open>sockaddr_in6\<close>, and the constructors of \<open>socket/addr.mbt\<close> that
  allocate them. Multi-byte fields are in network order; the family is a 16-bit field on
  Linux and Windows and a byte after the length on macOS and BSD. Writing past the
  buffer is \<open>None\<close>.
\<close>

section \<open>Structures\<close>

definition AF_INET :: nat where "AF_INET = 2"

definition AF_INET6 :: "platform \<Rightarrow> nat" where
  "AF_INET6 pf = (case pf of Linux \<Rightarrow> 10 | MacOS \<Rightarrow> 30 | Windows \<Rightarrow> 23 | OtherUnix \<Rightarrow> 28)"

definition ipv4_addr_size :: nat where "ipv4_addr_size = 16"
definition ipv6_addr_size :: nat where "ipv6_addr_size = 28"

fun store :: "(nat \<times> byte list) list \<Rightarrow> byte list \<Rightarrow> byte list option" where
  "store [] buf = Some buf"
| "store ((off, bs) # fs) buf = (case poke buf off bs of None \<Rightarrow> None | Some buf' \<Rightarrow> store fs buf')"

definition be_at :: "byte list \<Rightarrow> nat \<Rightarrow> nat \<Rightarrow> nat option" where
  "be_at buf off n = map_option be_val (rd buf off n)"

definition family_field :: "platform \<Rightarrow> nat \<Rightarrow> nat \<times> byte list" where
  "family_field pf family =
     (if pf = MacOS \<or> pf = OtherUnix then (1, le_bytes 1 family) else (0, le_bytes 2 family))"

definition sa_family :: "platform \<Rightarrow> byte list \<Rightarrow> nat option" where
  "sa_family pf addr = (if pf = MacOS \<or> pf = OtherUnix then le_at addr 1 1 else le_at addr 0 2)"

text \<open>\<open>htons\<close> of an \<open>int\<close> keeps its low 16 bits.\<close>

definition htons :: "int \<Rightarrow> byte list" where
  "htons port = be_bytes 2 (nat (port mod 65536))"

definition init_ip_addr :: "platform \<Rightarrow> byte list \<Rightarrow> 32 word \<Rightarrow> int \<Rightarrow> byte list option" where
  "init_ip_addr pf addr ip port =
     store [family_field pf AF_INET, (2, htons port), (4, be_bytes 4 (unat ip))] addr"

definition init_ipv6_addr ::
  "platform \<Rightarrow> byte list \<Rightarrow> byte list \<Rightarrow> int \<Rightarrow> 32 word \<Rightarrow> byte list option" where
  "init_ipv6_addr pf addr ip port scope_id =
     (case rd ip 0 16 of
        None \<Rightarrow> None
      | Some ip16 \<Rightarrow>
          store [family_field pf (AF_INET6 pf), (4, le_bytes 4 0), (2, htons port), (8, ip16),
                 (24, le_bytes 4 (unat scope_id))] addr)"

definition ip_addr_get_ip :: "byte list \<Rightarrow> 32 word option" where
  "ip_addr_get_ip addr = map_option word_of_nat (be_at addr 4 4)"

definition ip_addr_get_port :: "byte list \<Rightarrow> nat option" where
  "ip_addr_get_port addr = be_at addr 2 2"

definition addr_is_ipv6 :: "platform \<Rightarrow> byte list \<Rightarrow> bool option" where
  "addr_is_ipv6 pf addr = map_option (\<lambda>f. f = AF_INET6 pf) (sa_family pf addr)"

definition addr_is_multicast :: "platform \<Rightarrow> byte list \<Rightarrow> bool option" where
  "addr_is_multicast pf addr =
     (case sa_family pf addr of
        None \<Rightarrow> None
      | Some f \<Rightarrow>
          if f = AF_INET
          then map_option (\<lambda>ip. let first_octet = unat (drop_bit 24 ip)
                                in 224 \<le> first_octet \<and> first_octet < 240) (ip_addr_get_ip addr)
          else if f = AF_INET6 pf then map_option (\<lambda>b. b = 0xff) (byte_at addr 8)
          else Some False)"

definition addr_get_ipv6_bytes_offset :: nat where "addr_get_ipv6_bytes_offset = 8"

definition addr_get_ipv6_scope_id :: "byte list \<Rightarrow> 32 word option" where
  "addr_get_ipv6_scope_id addr = map_option word_of_nat (le_at addr 24 4)"

definition addr_is_ipv6_wildcard :: "byte list \<Rightarrow> bool option" where
  "addr_is_ipv6_wildcard addr =
     (case (le_at addr 8 8, le_at addr 16 8) of
        (Some c0, Some c1) \<Rightarrow> Some (c0 = 0 \<and> c1 = 0)
      | _ \<Rightarrow> None)"

section \<open>Constructors of addr.mbt\<close>

definition Addr_new :: "platform \<Rightarrow> 32 word \<Rightarrow> int \<Rightarrow> byte list option" where
  "Addr_new pf ip port = init_ip_addr pf (replicate ipv4_addr_size 0) ip port"

definition Addr_new_ipv6 :: "platform \<Rightarrow> byte list \<Rightarrow> int \<Rightarrow> 32 word \<Rightarrow> byte list option" where
  "Addr_new_ipv6 pf ip port scope_id =
     init_ipv6_addr pf (replicate ipv6_addr_size 0) ip port scope_id"

section \<open>Name resolution results\<close>

text \<open>A node of the list \<open>getaddrinfo\<close> returns: its family and the address it points to.\<close>

record addrinfo =
  ai_family :: nat
  ai_addr :: "byte list option"

type_synonym addrinfos = "addrinfo list"

definition addrinfo_is_null :: "addrinfos \<Rightarrow> bool" where
  "addrinfo_is_null ai = (ai = [])"

definition addrinfo_get_next :: "addrinfos \<Rightarrow> addrinfos option" where
  "addrinfo_get_next ai = (case ai of [] \<Rightarrow> None | _ # rest \<Rightarrow> Some rest)"

definition addrinfo_addr_size :: "platform \<Rightarrow> addrinfos \<Rightarrow> nat" where
  "addrinfo_addr_size pf ai =
     (case ai of
        [] \<Rightarrow> 0
      | a # _ \<Rightarrow>
          if ai_addr a = None then 0
          else if ai_family a = AF_INET then ipv4_addr_size
          else if ai_family a = AF_INET6 pf then ipv6_addr_size
          else 0)"

definition addrinfo_fill_addr ::
  "platform \<Rightarrow> addrinfos \<Rightarrow> byte list \<Rightarrow> int \<Rightarrow> byte list option" where
  "addrinfo_fill_addr pf ai addr_out port =
     (case ai of
        [] \<Rightarrow> Some addr_out
      | a # _ \<Rightarrow>
          (case ai_addr a of
             None \<Rightarrow> Some addr_out
           | Some src \<Rightarrow>
               if ai_family a = AF_INET
               then Option.bind (memcpy addr_out 0 src 0 ipv4_addr_size)
                      (store [(2, htons port)])
               else if ai_family a = AF_INET6 pf
               then Option.bind (memcpy addr_out 0 src 0 ipv6_addr_size)
                      (store [(2, htons port)])
               else Some addr_out))"

definition to_addr :: "platform \<Rightarrow> addrinfos \<Rightarrow> int \<Rightarrow> byte list option" where
  "to_addr pf ai port = addrinfo_fill_addr pf ai (replicate (addrinfo_addr_size pf ai) 0) port"

text \<open>\<open>Addr::resolve\<close> after \<open>getaddrinfo\<close> succeeded; \<open>None\<close> inside is a refused hostname.\<close>

datatype protocol_preference = OnlyV4 | OnlyV6 | FavorV4 | FavorV6 | NoPreference

fun next_with :: "platform \<Rightarrow> bool \<Rightarrow> int \<Rightarrow> addrinfos \<Rightarrow> byte list option option" where
  "next_with pf v6 port [] = Some None"
| "next_with pf v6 port (a # rest) =
     (case to_addr pf (a # rest) port of
        None \<Rightarrow> None
      | Some addr \<Rightarrow>
          (case addr_is_ipv6 pf addr of
             None \<Rightarrow> None
           | Some b \<Rightarrow> if b = v6 then Some (Some addr) else next_with pf v6 port rest))"

definition resolve ::
  "platform \<Rightarrow> protocol_preference \<Rightarrow> int \<Rightarrow> addrinfos \<Rightarrow> byte list option option" where
  "resolve pf protocol port ai_root =
     (case to_addr pf ai_root port of
        None \<Rightarrow> None
      | Some first_addr \<Rightarrow>
          let search = (\<lambda>v6 only.
                (case addr_is_ipv6 pf first_addr of
                   None \<Rightarrow> None
                 | Some b \<Rightarrow>
                     if b = v6 then Some (Some first_addr)
                     else
                       (case next_with pf v6 port (tl ai_root) of
                          None \<Rightarrow> None
                        | Some (Some addr) \<Rightarrow> Some (Some addr)
                        | Some None \<Rightarrow> Some (if only then None else Some first_addr))))
          in (case protocol of
                FavorV4 \<Rightarrow> search False False
              | OnlyV4 \<Rightarrow> search False True
              | FavorV6 \<Rightarrow> search True False
              | OnlyV6 \<Rightarrow> search True True
              | NoPreference \<Rightarrow> Some (Some first_addr)))"

section \<open>What an address holds\<close>

lemma be_at_skip [layout]: "length xs \<le> k \<Longrightarrow> be_at (xs @ ys) k n = be_at ys (k - length xs) n"
  by (simp add: be_at_def rd_skip)

lemma be_at_here [layout]: "be_at (be_bytes n v @ ys) 0 n = Some (v mod 256 ^ n)"
  by (simp add: be_at_def rd_here be_val_be_bytes)

text \<open>The bytes the constructors build.\<close>

definition family_bytes :: "platform \<Rightarrow> nat \<Rightarrow> byte list" where
  "family_bytes pf family =
     (if pf = MacOS \<or> pf = OtherUnix then 0 # le_bytes 1 family else le_bytes 2 family)"

lemma length_family_bytes [simp]: "length (family_bytes pf f) = 2"
  by (simp add: family_bytes_def)

lemma length_htons [simp]: "length (htons port) = 2"
  by (simp add: htons_def)

lemma store_family:
  "store (family_field pf f # fs) (replicate 2 0 @ ys) = store fs (family_bytes pf f @ ys)"
proof -
  have "(replicate 2 0 :: byte list) @ ys = [0] @ [0] @ ys" by (simp add: numeral_eq_Suc)
  then show ?thesis
    using poke_mid [of "[0]" "le_bytes 1 f" 1 "[0]" ys] poke_mid [of "replicate 2 0" "le_bytes 2 f" 0 "[]" ys]
    by (simp add: family_field_def family_bytes_def)
qed

lemma store_mid:
  "length old = length new \<Longrightarrow> off = length xs \<Longrightarrow>
   store ((off, new) # fs) (xs @ old @ zs) = store fs (xs @ new @ zs)"
  by (simp add: poke_mid)

lemma Addr_new_bytes:
  "Addr_new pf ip port =
     Some (family_bytes pf AF_INET @ htons port @ be_bytes 4 (unat ip) @ replicate 8 0)"
proof -
  have r: "(replicate ipv4_addr_size 0 :: byte list) = replicate 2 0 @ replicate 2 0 @ replicate 4 0 @ replicate 8 0"
    by (simp add: ipv4_addr_size_def flip: replicate_add)
  let ?f = "family_bytes pf AF_INET"
  let ?p = "htons port" and ?i = "be_bytes 4 (unat ip) :: byte list"
  let ?z = "\<lambda>n. replicate n 0 :: byte list"
  have "Addr_new pf ip port = store [(2, ?p), (4, ?i)] (?f @ ?z 2 @ ?z 4 @ ?z 8)"
    unfolding Addr_new_def init_ip_addr_def r store_family ..
  also have "\<dots> = store [(4, ?i)] (?f @ ?p @ ?z 4 @ ?z 8)"
    by (rule store_mid) simp_all
  also have "\<dots> = store [(4, ?i)] ((?f @ ?p) @ ?z 4 @ ?z 8)"
    by (simp only: append_assoc)
  also have "\<dots> = store [] ((?f @ ?p) @ ?i @ ?z 8)"
    by (rule store_mid) simp_all
  finally show ?thesis by (simp only: store.simps append_assoc)
qed

lemma Addr_new_ipv6_bytes:
  assumes "length ip = 16"
  shows "Addr_new_ipv6 pf ip port scope =
     Some (family_bytes pf (AF_INET6 pf) @ htons port @ le_bytes 4 0 @ ip @ le_bytes 4 (unat scope))"
proof -
  have r: "(replicate ipv6_addr_size 0 :: byte list) =
      replicate 2 0 @ replicate 2 0 @ replicate 4 0 @ replicate 16 0 @ replicate 4 0"
    by (simp add: ipv6_addr_size_def flip: replicate_add)
  let ?f = "family_bytes pf (AF_INET6 pf)"
  have ip: "rd ip 0 16 = Some ip" using assms by (rule rd_all)
  let ?p = "htons port" and ?s = "le_bytes 4 (unat scope)"
  let ?z = "\<lambda>n. replicate n 0 :: byte list"
  have "Addr_new_ipv6 pf ip port scope =
      store [(4, le_bytes 4 0), (2, ?p), (8, ip), (24, ?s)] ((?f @ ?z 2) @ ?z 4 @ ?z 16 @ ?z 4)"
    unfolding Addr_new_ipv6_def init_ipv6_addr_def r ip option.case store_family append_assoc ..
  also have "\<dots> = store [(2, ?p), (8, ip), (24, ?s)] ((?f @ ?z 2) @ le_bytes 4 0 @ ?z 16 @ ?z 4)"
    by (rule store_mid) simp_all
  also have "\<dots> = store [(2, ?p), (8, ip), (24, ?s)] (?f @ ?z 2 @ (le_bytes 4 0 @ ?z 16 @ ?z 4))"
    by (simp only: append_assoc)
  also have "\<dots> = store [(8, ip), (24, ?s)] (?f @ ?p @ (le_bytes 4 0 @ ?z 16 @ ?z 4))"
    by (rule store_mid) simp_all
  also have "\<dots> = store [(8, ip), (24, ?s)] ((?f @ ?p @ le_bytes 4 0) @ ?z 16 @ ?z 4)"
    by (simp only: append_assoc)
  also have "\<dots> = store [(24, ?s)] ((?f @ ?p @ le_bytes 4 0) @ ip @ ?z 4)"
    using assms by (intro store_mid) simp_all
  also have "\<dots> = store [(24, ?s)] ((?f @ ?p @ le_bytes 4 0 @ ip) @ ?z 4 @ [])"
    by (simp only: append_assoc append_Nil2)
  also have "\<dots> = store [] ((?f @ ?p @ le_bytes 4 0 @ ip) @ ?s @ [])"
    using assms by (intro store_mid) simp_all
  finally show ?thesis by (simp only: store.simps append_assoc append_Nil2)
qed

lemma sa_family_bytes: "f < 256 \<Longrightarrow> sa_family pf (family_bytes pf f @ ys) = Some f"
  by (auto simp: sa_family_def family_bytes_def layout le_at_Cons unat_of_nat)

lemma AF_INET6_values: "AF_INET6 pf < 256" "AF_INET6 pf \<noteq> AF_INET"
  by (cases pf; simp add: AF_INET6_def AF_INET_def)+

lemma port_field:
  assumes "0 \<le> port" "port < 65536" "length xs = 2"
  shows "ip_addr_get_port (xs @ htons port @ ys) = Some (nat port)"
  using assms by (simp add: ip_addr_get_port_def htons_def layout)

lemma ip_field:
  assumes "length xs = 2" "length ps = 2"
  shows "ip_addr_get_ip (xs @ ps @ be_bytes 4 (unat ip) @ ys) = Some ip"
proof -
  have "unat ip < 4294967296" using unsigned_less [of ip] by simp
  then show ?thesis using assms by (simp add: ip_addr_get_ip_def layout)
qed

text \<open>Bits 24 to 31 of an address against the range \<open>224.0.0.0/4\<close>.\<close>

lemma multicast_range:
  "224 \<le> unat (drop_bit 24 (ip :: 32 word)) \<and> unat (drop_bit 24 ip) < 240 \<longleftrightarrow>
   0xE0000000 \<le> ip \<and> ip < 0xF0000000"
proof -
  have "unat (drop_bit 24 ip) = unat ip div 2 ^ 24"
    by (simp add: drop_bit_eq_div unat_div)
  moreover have "0xE0000000 \<le> ip \<longleftrightarrow> 0xE0000000 \<le> unat ip" "ip < 0xF0000000 \<longleftrightarrow> unat ip < 0xF0000000"
    by (simp_all add: word_le_nat_alt word_less_nat_alt)
  ultimately show ?thesis by (simp add: div_le_mono less_mult_imp_div_less) linarith
qed

lemma scope_field:
  assumes "length xs = 24"
  shows "addr_get_ipv6_scope_id (xs @ le_bytes 4 (unat s)) = Some s"
proof -
  have "unat s < 4294967296" using unsigned_less [of s] by simp
  then show ?thesis using assms by (simp add: addr_get_ipv6_scope_id_def layout)
qed

lemma le_val_zero: "le_val bs = 0 \<longleftrightarrow> bs = replicate (length bs) 0"
  by (induction bs) (auto simp: unat_eq_0)

lemma wildcard_field:
  assumes "length xs = 8" "length ip = 16"
  shows "addr_is_ipv6_wildcard (xs @ ip @ ys) = Some (ip = replicate 16 0)"
proof -
  obtain a b where ip: "ip = a @ b" "length a = 8" "length b = 8"
    using assms(2) by (intro that [of "take 8 ip" "drop 8 ip"]) auto
  have "le_at (xs @ ip @ ys) 8 8 = Some (le_val a)" "le_at (xs @ ip @ ys) 16 8 = Some (le_val b)"
    using assms ip by (simp_all add: le_at_def layout)
  moreover have "ip = replicate 16 0 \<longleftrightarrow> a = replicate 8 0 \<and> b = replicate 8 0"
  proof -
    have "replicate 16 (0 :: byte) = replicate 8 0 @ replicate 8 0" by (simp flip: replicate_add)
    then show ?thesis using ip by simp
  qed
  ultimately show ?thesis using ip by (auto simp: addr_is_ipv6_wildcard_def le_val_zero)
qed

text \<open>
  Claim C23 (roundtrip). An IPv4 address built from a number and a port gives both back, is
  not an IPv6 address and is multicast exactly in 224.0.0.0/4; an IPv6 address built from 16
  bytes, a port and a scope gives all three back, is one, is multicast exactly when its first
  byte is 255, and is the wildcard exactly when all bytes are zero. This holds for the
  structures of every platform.
\<close>

theorem socket_addr_roundtrip:
  assumes "0 \<le> port" "port < 65536" "length ip6 = 16"
  shows "(\<exists>a. Addr_new pf ip port = Some a \<and> ip_addr_get_ip a = Some ip \<and>
      ip_addr_get_port a = Some (nat port) \<and> addr_is_ipv6 pf a = Some False \<and>
      addr_is_multicast pf a = Some (0xE0000000 \<le> ip \<and> ip < 0xF0000000)) \<and>
    (\<exists>a. Addr_new_ipv6 pf ip6 port scope = Some a \<and> rd a addr_get_ipv6_bytes_offset 16 = Some ip6 \<and>
      ip_addr_get_port a = Some (nat port) \<and> addr_get_ipv6_scope_id a = Some scope \<and>
      addr_is_ipv6 pf a = Some True \<and> addr_is_multicast pf a = Some (hd ip6 = 0xff) \<and>
      addr_is_ipv6_wildcard a = Some (ip6 = replicate 16 0))"
proof (intro conjI exI)
  let ?f = "family_bytes pf AF_INET" and ?g = "family_bytes pf (AF_INET6 pf)"
  have f: "sa_family pf (?f @ ys) = Some AF_INET" "sa_family pf (?g @ ys) = Some (AF_INET6 pf)" for ys
    using AF_INET6_values(1) [of pf] by (simp_all add: sa_family_bytes AF_INET_def)
  note v4 = ip_field [of ?f "htons port" ip "replicate 8 0"]
  show "Addr_new pf ip port = Some (?f @ htons port @ be_bytes 4 (unat ip) @ replicate 8 0)"
    by (rule Addr_new_bytes)
  show "ip_addr_get_ip (?f @ htons port @ be_bytes 4 (unat ip) @ replicate 8 0) = Some ip"
    using v4 by simp
  show "ip_addr_get_port (?f @ htons port @ be_bytes 4 (unat ip) @ replicate 8 0) = Some (nat port)"
    using assms by (simp add: port_field)
  show "addr_is_ipv6 pf (?f @ htons port @ be_bytes 4 (unat ip) @ replicate 8 0) = Some False"
    using AF_INET6_values(2) [of pf] by (simp add: addr_is_ipv6_def f)
  show "addr_is_multicast pf (?f @ htons port @ be_bytes 4 (unat ip) @ replicate 8 0) =
      Some (0xE0000000 \<le> ip \<and> ip < 0xF0000000)"
    using v4 by (simp add: addr_is_multicast_def f Let_def multicast_range)
  let ?a6 = "?g @ htons port @ le_bytes 4 0 @ ip6 @ le_bytes 4 (unat scope)"
  show "Addr_new_ipv6 pf ip6 port scope = Some ?a6"
    using assms(3) by (rule Addr_new_ipv6_bytes)
  show "rd ?a6 addr_get_ipv6_bytes_offset 16 = Some ip6"
    using assms(3) by (simp add: addr_get_ipv6_bytes_offset_def layout)
  show "ip_addr_get_port ?a6 = Some (nat port)"
    using assms by (simp add: port_field)
  show "addr_get_ipv6_scope_id ?a6 = Some scope"
    using scope_field [of "?g @ htons port @ le_bytes 4 0 @ ip6" scope] assms(3) by simp
  show "addr_is_ipv6 pf ?a6 = Some True"
    by (simp add: addr_is_ipv6_def f)
  have "byte_at ?a6 8 = Some (hd ip6)"
    using assms(3) byte_at_append [of ip6] by (cases ip6) (auto simp: layout)
  then show "addr_is_multicast pf ?a6 = Some (hd ip6 = 0xff)"
    using AF_INET6_values(2) [of pf] by (simp add: addr_is_multicast_def f)
  show "addr_is_ipv6_wildcard ?a6 = Some (ip6 = replicate 16 0)"
    using wildcard_field [of "?g @ htons port @ le_bytes 4 0" ip6] assms(3) by simp
qed

theorem socket_addr_roundtrip_witness:
  "\<exists>a. Addr_new MacOS 0xE0000001 5353 = Some a \<and> ip_addr_get_port a = Some 5353 \<and>
    addr_is_multicast MacOS a = Some True"
  using socket_addr_roundtrip [of 5353 "replicate 16 0" MacOS "0xE0000001"] by auto

section \<open>Resolving\<close>

definition known_addr :: "platform \<Rightarrow> addrinfo \<Rightarrow> bool" where
  "known_addr pf a \<longleftrightarrow>
     (\<exists>src. ai_addr a = Some src \<and>
        (ai_family a = AF_INET \<and> length src = ipv4_addr_size \<and> sa_family pf src = Some AF_INET \<or>
         ai_family a = AF_INET6 pf \<and> length src = ipv6_addr_size \<and> sa_family pf src = Some (AF_INET6 pf)))"

text \<open>The address of a node with the port the caller wants.\<close>

definition with_port :: "int \<Rightarrow> addrinfo \<Rightarrow> byte list" where
  "with_port port a = blit (the (ai_addr a)) 2 (htons port)"

definition is_v6 :: "platform \<Rightarrow> addrinfo \<Rightarrow> bool" where
  "is_v6 pf a \<longleftrightarrow> ai_family a = AF_INET6 pf"

lemma to_addr_known:
  assumes "known_addr pf a"
  shows "to_addr pf (a # rest) port = Some (with_port port a)"
proof -
  from assms obtain src where src: "ai_addr a = Some src"
    "ai_family a = AF_INET \<and> length src = ipv4_addr_size \<or>
     ai_family a = AF_INET6 pf \<and> length src = ipv6_addr_size"
    unfolding known_addr_def by blast
  have m: "memcpy (replicate (length src) 0) 0 src 0 (length src) = Some src"
    by (simp add: memcpy_def blit_def slice_def)
  have p: "poke src 2 (htons port) = Some (with_port port a)"
    using src by (auto simp: poke_def with_port_def ipv4_addr_size_def ipv6_addr_size_def)
  from src(2) show ?thesis
    using m p AF_INET6_values(2) [of pf]
    by (elim disjE conjE) (auto simp: to_addr_def addrinfo_fill_addr_def addrinfo_addr_size_def src(1))
qed

lemma family_with_port:
  assumes "known_addr pf a"
  shows "addr_is_ipv6 pf (with_port port a) = Some (is_v6 pf a)"
proof -
  from assms obtain src where src: "ai_addr a = Some src" "sa_family pf src = Some (ai_family a)"
    "4 \<le> length src"
    by (auto simp: known_addr_def ipv4_addr_size_def ipv6_addr_size_def)
  obtain f r where fr: "src = f @ r" "length f = 2"
    using src(3) by (intro that [of "take 2 src" "drop 2 src"]) auto
  have "le_at (blit src 2 (htons port)) 0 2 = le_at src 0 2"
    "le_at (blit src 2 (htons port)) 1 1 = le_at src 1 1"
    using fr by (auto simp: blit_def le_at_def rd_def slice_def)
  then have "sa_family pf (with_port port a) = Some (ai_family a)"
    using src(1,2) by (auto simp: with_port_def sa_family_def split: if_splits)
  then show ?thesis by (simp add: addr_is_ipv6_def is_v6_def)
qed

lemma next_with_known:
  assumes "\<forall>a \<in> set ais. known_addr pf a"
  shows "next_with pf v6 port ais =
    Some (map_option (with_port port) (find (\<lambda>a. is_v6 pf a = v6) ais))"
  using assms by (induction ais) (auto simp: to_addr_known family_with_port)

text \<open>
  Claim C27 (functional). Resolving a host name gives, with the port asked for, the first
  address of the wanted protocol; where there is none, the first address if the protocol
  was only preferred, and no address if it was demanded.
\<close>

theorem resolve_prefers:
  assumes "ais \<noteq> []" "\<forall>a \<in> set ais. known_addr pf a"
  shows "resolve pf p port ais =
    Some (map_option (with_port port)
      (case p of
         NoPreference \<Rightarrow> Some (hd ais)
       | OnlyV4 \<Rightarrow> find (\<lambda>a. \<not> is_v6 pf a) ais
       | OnlyV6 \<Rightarrow> find (is_v6 pf) ais
       | FavorV4 \<Rightarrow> (case find (\<lambda>a. \<not> is_v6 pf a) ais of None \<Rightarrow> Some (hd ais) | r \<Rightarrow> r)
       | FavorV6 \<Rightarrow> (case find (is_v6 pf) ais of None \<Rightarrow> Some (hd ais) | r \<Rightarrow> r)))"
proof -
  from assms(1) obtain a rest where ais: "ais = a # rest" by (cases ais) auto
  have a: "known_addr pf a" and rest: "\<forall>a \<in> set rest. known_addr pf a"
    using assms(2) ais by auto
  note n = next_with_known [OF rest, of False port, simplified] next_with_known [OF rest, of True port, simplified]
  show ?thesis
    unfolding ais resolve_def
    by (cases p; cases "is_v6 pf a")
       (auto simp: to_addr_known [OF a] family_with_port [OF a] n Let_def split: option.splits)
qed

theorem resolve_prefers_witness:
  "\<exists>a4 a6. ai_family a6 = AF_INET6 Linux \<and> resolve Linux FavorV6 80 [a4, a6] = Some (Some (with_port 80 a6))"
proof -
  let ?a4 = "\<lparr>ai_family = AF_INET, ai_addr = Some ([2, 0] @ replicate 14 0)\<rparr>"
  let ?a6 = "\<lparr>ai_family = AF_INET6 Linux, ai_addr = Some ([10, 0] @ replicate 26 0)\<rparr>"
  have "\<forall>a \<in> set [?a4, ?a6]. known_addr Linux a"
    by (simp add: known_addr_def AF_INET_def AF_INET6_def ipv4_addr_size_def ipv6_addr_size_def
        sa_family_def le_at_def rd_def slice_def)
  from resolve_prefers [OF _ this, of FavorV6 80]
  show ?thesis
    by (intro exI [of _ ?a4] exI [of _ ?a6]) (simp add: is_v6_def AF_INET_def AF_INET6_def)
qed

end
