(* ===== verification/Socket_Ops.thy ===== *)
theory Socket_Ops
  imports Socket_Addr Event_Bus
begin

text \<open>
  Sockets: their creation and options (\<open>socket/socket.c\<close>) and the non-blocking calls of
  \<open>io_unix.c\<close>. An option's value is the bytes of the C object passed by address.
\<close>

definition SOCK_STREAM :: int where "SOCK_STREAM = 1"
definition SOCK_DGRAM :: int where "SOCK_DGRAM = 2"
definition SOMAXCONN :: "platform \<Rightarrow> int" where
  "SOMAXCONN pf = (case pf of Windows \<Rightarrow> 0x7fffffff | Linux \<Rightarrow> 4096 | _ \<Rightarrow> 128)"
definition WSA_FLAG_OVERLAPPED :: "32 word" where "WSA_FLAG_OVERLAPPED = 0x1"
definition WSA_FLAG_NO_HANDLE_INHERIT :: "32 word" where "WSA_FLAG_NO_HANDLE_INHERIT = 0x80"

text \<open>The four bytes of an \<open>int\<close>.\<close>

definition int_bytes :: "int \<Rightarrow> byte list" where
  "int_bytes v = le_bytes 4 (nat (v mod 2 ^ 32))"

definition set_option ::
  "platform \<Rightarrow> 'k kernel \<Rightarrow> int \<Rightarrow> sock_level \<Rightarrow> sock_option \<Rightarrow> byte list \<Rightarrow> 'k world \<Rightarrow> int \<times> 'k world" where
  "set_option pf K sock level opt value w =
     (let (a, w) = sys K (if pf = Windows then WNet (W_setsockopt sock level opt value)
                          else Net (Setsockopt sock level opt value)) w
      in (a_ret a, w))"

definition address_family :: "platform \<Rightarrow> int \<Rightarrow> int" where
  "address_family pf family = (if family = 4 then int AF_INET else int (AF_INET6 pf))"

section \<open>Creation\<close>

text \<open>On Windows an option that cannot be set closes the socket again.\<close>

definition or_close ::
  "'k kernel \<Rightarrow> int \<Rightarrow> sock_option \<Rightarrow> int \<Rightarrow> 'k world \<Rightarrow> int \<times> 'k world" where
  "or_close K sock opt v w =
     (let (e, w) = set_option Windows K sock SOL_SOCKET opt (int_bytes v) w
      in if e < 0 then (INVALID_HANDLE_VALUE, sys_do K (WNet (W_closesocket sock)) w) else (sock, w))"

definition make_tcp_socket :: "platform \<Rightarrow> 'k kernel \<Rightarrow> int \<Rightarrow> 'k world \<Rightarrow> int \<times> 'k world" where
  "make_tcp_socket pf K family w =
     (if pf = Windows
      then let (a, w) = sys K (WNet (W_WSASocket (address_family pf family) SOCK_STREAM
                          (WSA_FLAG_OVERLAPPED OR WSA_FLAG_NO_HANDLE_INHERIT))) w;
               sock = a_ret a
           in if sock = INVALID_HANDLE_VALUE then (INVALID_HANDLE_VALUE, w)
              else or_close K sock SO_EXCLUSIVEADDRUSE 0 w
      else let (a, w) = sys K (Net (Sock (address_family pf family) SOCK_STREAM)) w
           in (a_ret a, w))"

text \<open>\<open>None\<close> is \<open>moonbit_panic\<close>: multicast on a system that is not supported.\<close>

definition make_udp_socket ::
  "platform \<Rightarrow> 'k kernel \<Rightarrow> int \<Rightarrow> bool \<Rightarrow> 'k world \<Rightarrow> (int \<times> 'k world) option" where
  "make_udp_socket pf K family multicast w =
     (if pf = Windows
      then let (a, w) = sys K (WNet (W_WSASocket (address_family pf family) SOCK_DGRAM
                          (WSA_FLAG_OVERLAPPED OR WSA_FLAG_NO_HANDLE_INHERIT))) w;
               sock = a_ret a
           in Some (if sock = INVALID_HANDLE_VALUE then (INVALID_HANDLE_VALUE, w)
                    else if multicast then or_close K sock SO_REUSE_MULTICASTPORT 1 w
                    else or_close K sock SO_EXCLUSIVEADDRUSE 0 w)
      else let (a, w) = sys K (Net (Sock (address_family pf family) SOCK_DGRAM)) w;
               sock = a_ret a
           in if \<not> multicast then Some (sock, w)
              else if pf = OtherUnix then None
              else let (e, w) = set_option pf K sock SOL_SOCKET
                                  (if pf = Linux then SO_REUSEADDR else SO_REUSEPORT) (int_bytes 1) w
                   in Some (if e < 0 then (-1, sys_do K (File (Close sock)) w) else (sock, w)))"

section \<open>Options\<close>

definition disable_nagle :: "platform \<Rightarrow> 'k kernel \<Rightarrow> int \<Rightarrow> 'k world \<Rightarrow> int \<times> 'k world" where
  "disable_nagle pf K sock w = set_option pf K sock IPPROTO_TCP TCP_NODELAY (int_bytes 1) w"

definition allow_reuse_addr :: "platform \<Rightarrow> 'k kernel \<Rightarrow> int \<Rightarrow> 'k world \<Rightarrow> int \<times> 'k world" where
  "allow_reuse_addr pf K sock w = set_option pf K sock SOL_SOCKET SO_REUSEADDR (int_bytes 1) w"

text \<open>The bytes of \<open>struct ip_mreq\<close> and \<open>struct ipv6_mreq\<close>; \<open>None\<close> reads past an address.\<close>

definition join_multicast_group ::
  "platform \<Rightarrow> 'k kernel \<Rightarrow> int \<Rightarrow> byte list \<Rightarrow> byte list \<Rightarrow> 'k world \<Rightarrow> (int \<times> 'k world) option" where
  "join_multicast_group pf K sock multi_addr local_addr w =
     (case (rd multi_addr 4 4, rd local_addr 4 4) of
        (Some multiaddr, Some interface) \<Rightarrow>
          Some (set_option pf K sock IPPROTO_IP IP_ADD_MEMBERSHIP (multiaddr @ interface) w)
      | _ \<Rightarrow> None)"

definition join_multicast_group_v6 ::
  "platform \<Rightarrow> 'k kernel \<Rightarrow> int \<Rightarrow> byte list \<Rightarrow> 32 word \<Rightarrow> 'k world \<Rightarrow> (int \<times> 'k world) option" where
  "join_multicast_group_v6 pf K sock multi_addr if_index w =
     (case rd multi_addr 8 16 of
        None \<Rightarrow> None
      | Some multiaddr \<Rightarrow>
          Some (set_option pf K sock IPPROTO_IPV6 IPV6_ADD_MEMBERSHIP
                  (multiaddr @ le_bytes 4 (unat if_index)) w))"

definition set_multicast_interface ::
  "platform \<Rightarrow> 'k kernel \<Rightarrow> int \<Rightarrow> byte list \<Rightarrow> 'k world \<Rightarrow> (int \<times> 'k world) option" where
  "set_multicast_interface pf K sock local_addr w =
     map_option (\<lambda>v. set_option pf K sock IPPROTO_IP IP_MULTICAST_IF v w) (rd local_addr 4 4)"

definition set_multicast_interface_v6 ::
  "platform \<Rightarrow> 'k kernel \<Rightarrow> int \<Rightarrow> 32 word \<Rightarrow> 'k world \<Rightarrow> int \<times> 'k world" where
  "set_multicast_interface_v6 pf K sock interface_index w =
     set_option pf K sock IPPROTO_IPV6 IPV6_MULTICAST_IF (le_bytes 4 (unat interface_index)) w"

definition set_multicast_ttl ::
  "platform \<Rightarrow> 'k kernel \<Rightarrow> int \<Rightarrow> int \<Rightarrow> int \<Rightarrow> 'k world \<Rightarrow> int \<times> 'k world" where
  "set_multicast_ttl pf K sock ttl family w =
     set_option pf K sock (if family = 4 then IPPROTO_IP else IPPROTO_IPV6)
       (if family = 4 then IP_MULTICAST_TTL else IPV6_MULTICAST_HOPS) (int_bytes ttl) w"

definition set_multicast_loopback ::
  "platform \<Rightarrow> 'k kernel \<Rightarrow> int \<Rightarrow> int \<Rightarrow> int \<Rightarrow> 'k world \<Rightarrow> int \<times> 'k world" where
  "set_multicast_loopback pf K sock enable family w =
     set_option pf K sock (if family = 4 then IPPROTO_IP else IPPROTO_IPV6)
       (if family = 4 then IP_MULTICAST_LOOP else IPV6_MULTICAST_LOOP) (int_bytes enable) w"

definition set_ipv6_only :: "platform \<Rightarrow> 'k kernel \<Rightarrow> int \<Rightarrow> int \<Rightarrow> 'k world \<Rightarrow> int \<times> 'k world" where
  "set_ipv6_only pf K sockfd ipv6_only w =
     set_option pf K sockfd IPPROTO_IPV6 IPV6_V6ONLY (int_bytes ipv6_only) w"

definition listen_socket :: "platform \<Rightarrow> 'k kernel \<Rightarrow> int \<Rightarrow> 'k world \<Rightarrow> int \<times> 'k world" where
  "listen_socket pf K sockfd w =
     (let (a, w) = sys K (if pf = Windows then WNet (W_listen sockfd) else Net (Listen sockfd)) w
      in (a_ret a, w))"

definition udp_client_connect ::
  "platform \<Rightarrow> 'k kernel \<Rightarrow> int \<Rightarrow> byte list \<Rightarrow> 'k world \<Rightarrow> int \<times> 'k world" where
  "udp_client_connect pf K sock addr w =
     (let (a, w) = sys K (if pf = Windows then WNet (W_connect sock addr) else Net (Connect sock addr)) w
      in (a_ret a, w))"

subsection \<open>Keep-alive\<close>

text \<open>One option of \<open>enable_keepalive\<close>: set when it is positive; the run stops at a failure.\<close>

fun set_all ::
  "platform \<Rightarrow> 'k kernel \<Rightarrow> int \<Rightarrow> (sock_level \<times> sock_option \<times> int) list \<Rightarrow> 'k world \<Rightarrow> int \<times> 'k world" where
  "set_all pf K sock [] w = (0, w)"
| "set_all pf K sock ((level, opt, v) # opts) w =
     (let (e, w) = set_option pf K sock level opt (int_bytes v) w
      in if e < 0 then (-1, w) else set_all pf K sock opts w)"

definition keepalive_steps :: "platform \<Rightarrow> int \<Rightarrow> int \<Rightarrow> int \<Rightarrow> (sock_level \<times> sock_option \<times> int) list" where
  "keepalive_steps pf keep_idle keep_cnt keep_intvl =
     [(SOL_SOCKET, SO_KEEPALIVE, 1)] @
     (if 0 < keep_cnt then [(IPPROTO_TCP, TCP_KEEPCNT, keep_cnt)] else []) @
     (if 0 < keep_idle
      then [(IPPROTO_TCP, if pf = MacOS then TCP_KEEPALIVE else TCP_KEEPIDLE, keep_idle)] else []) @
     (if 0 < keep_intvl then [(IPPROTO_TCP, TCP_KEEPINTVL, keep_intvl)] else [])"

text \<open>With \<open>TCP_KEEPINTVL\<close>: every Unix, and Windows 10 from version 1709.\<close>

definition enable_keepalive ::
  "platform \<Rightarrow> 'k kernel \<Rightarrow> int \<Rightarrow> int \<Rightarrow> int \<Rightarrow> int \<Rightarrow> 'k world \<Rightarrow> int \<times> 'k world" where
  "enable_keepalive pf K sock keep_idle keep_cnt keep_intvl w =
     set_all pf K sock (keepalive_steps pf keep_idle keep_cnt keep_intvl) w"

text \<open>
  Older Windows: idle time and interval are set together, in milliseconds. The function ends
  without a return statement, so that its value is indeterminate (\<open>None\<close>) unless it failed.
\<close>

definition enable_keepalive_old ::
  "bool \<Rightarrow> 'k kernel \<Rightarrow> int \<Rightarrow> int \<Rightarrow> int \<Rightarrow> int \<Rightarrow> 'k world \<Rightarrow> int option \<times> 'k world" where
  "enable_keepalive_old has_keepcnt K sock keep_idle keep_cnt keep_intvl w =
     (let (failed, w) =
        (if 0 < keep_idle \<or> 0 < keep_intvl
         then let (a, w) = sys K (WNet (W_WSAIoctl_keepalive sock
                             [1, (if 0 < keep_idle then keep_idle else 7200) * 1000,
                              (if 0 < keep_intvl then keep_intvl else 1) * 1000])) w
              in (a_ret a \<noteq> 0, w)
         else let (e, w) = set_option Windows K sock SOL_SOCKET SO_KEEPALIVE (int_bytes 1) w
              in (e < 0, w))
      in if failed then (Some (-1), w)
         else if has_keepcnt \<and> 0 < keep_cnt
         then let (e, w) = set_option Windows K sock IPPROTO_TCP TCP_KEEPCNT (int_bytes keep_cnt) w
              in (if e < 0 then Some (-1) else None, w)
         else (None, w))"

section \<open>Names of sockets and interfaces\<close>

definition async_getsockname ::
  "platform \<Rightarrow> 'k kernel \<Rightarrow> int \<Rightarrow> byte list \<Rightarrow> 'k world \<Rightarrow> int \<times> 'k world" where
  "async_getsockname pf K sock addr_out w =
     (let len = int (length addr_out);
          (a, w) = sys K (if pf = Windows then WNet (W_getsockname sock len)
                          else Net (Getsockname sock len)) w
      in (a_ret a, w))"

definition IFNAMSIZ :: nat where "IFNAMSIZ = 16"

definition async_if_nametoindex ::
  "platform \<Rightarrow> 'k kernel \<Rightarrow> int \<Rightarrow> byte list \<Rightarrow> 'k world \<Rightarrow> int \<times> 'k world" where
  "async_if_nametoindex pf K sock name w =
     (case pf of
        Windows \<Rightarrow>
          let (a, w) = sys K (WProc (W_AliasToLuid name)) w
          in if a_ret a \<noteq> 0 then (0, set_errno (a_ret a) w)
             else let (b, w) = sys K (WProc (W_LuidToIndex (a_num a))) w
                  in if a_ret b \<noteq> 0 then (0, set_errno (a_ret b) w) else (a_num b, w)
      | Linux \<Rightarrow>
          if IFNAMSIZ \<le> length name then (0, set_errno (ENAMETOOLONG Linux) w)
          else let (a, w) = sys K (Net (Ioctl_ifindex sock (name @ [0]))) w
               in (if a_ret a < 0 then 0 else a_num a, w)
      | _ \<Rightarrow> let (a, w) = sys K (Net (If_nametoindex name)) w in (a_ret a, w))"

text \<open>The name as the bytes of the static buffer, \<open>None\<close> for the null pointer.\<close>

definition async_if_indextoname ::
  "platform \<Rightarrow> 'k kernel \<Rightarrow> int \<Rightarrow> 32 word \<Rightarrow> 'k world \<Rightarrow> int list option \<times> 'k world" where
  "async_if_indextoname pf K sock index w =
     (case pf of
        Windows \<Rightarrow>
          let (a, w) = sys K (WProc (W_IndexToLuid index)) w
          in if a_ret a \<noteq> 0 then (None, set_errno (a_ret a) w)
             else let (b, w) = sys K (WProc (W_LuidToAlias (a_num a))) w
                  in if a_ret b \<noteq> 0 then (None, set_errno (a_ret b) w) else (Some (a_nums b), w)
      | Linux \<Rightarrow>
          let (a, w) = sys K (Net (Ioctl_ifname sock index)) w
          in (if a_ret a < 0 then None else Some (a_nums a), w)
      | _ \<Rightarrow> let (a, w) = sys K (Net (If_indextoname index)) w
             in (if a_ret a = 0 then None else Some (a_nums a), w))"

section \<open>Non-blocking input and output, Unix\<close>

definition sockaddr_len :: "platform \<Rightarrow> byte list \<Rightarrow> nat option" where
  "sockaddr_len pf addr =
     map_option (\<lambda>f. if f = AF_INET then ipv4_addr_size else ipv6_addr_size) (sa_family pf addr)"

definition async_read :: "'k kernel \<Rightarrow> int \<Rightarrow> ptr \<Rightarrow> int \<Rightarrow> int \<Rightarrow> 'k world \<Rightarrow> int \<times> 'k world" where
  "async_read K fd buf offset len w =
     (let (a, w) = sys K (File (Read fd (buf, offset) len)) w in (i32 (a_ret a), w))"

definition async_write :: "'k kernel \<Rightarrow> int \<Rightarrow> ptr \<Rightarrow> int \<Rightarrow> int \<Rightarrow> 'k world \<Rightarrow> int \<times> 'k world" where
  "async_write K fd buf offset len w =
     (let (a, w) = sys K (File (Write fd (buf, offset) len)) w in (i32 (a_ret a), w))"

definition async_connect :: "'k kernel \<Rightarrow> int \<Rightarrow> byte list \<Rightarrow> 'k world \<Rightarrow> int \<times> 'k world" where
  "async_connect K sockfd addr w =
     (let (a, w) = sys K (Net (Connect sockfd addr)) w in (a_ret a, w))"

definition async_accept ::
  "platform \<Rightarrow> 'k kernel \<Rightarrow> int \<Rightarrow> byte list \<Rightarrow> 'k world \<Rightarrow> (int \<times> 'k world) option" where
  "async_accept pf K sockfd addr w =
     map_option (\<lambda>len. let (a, w) = sys K (Net (Accept sockfd (int len))) w in (a_ret a, w))
       (sockaddr_len pf addr)"

definition async_getsockerr :: "'k kernel \<Rightarrow> int \<Rightarrow> 'k world \<Rightarrow> int \<times> 'k world" where
  "async_getsockerr K sockfd w =
     (let (a, w) = sys K (Net (Getsockopt_error sockfd)) w
      in (if a_ret a < 0 then -1 else a_num a, w))"

definition async_recvfrom ::
  "platform \<Rightarrow> 'k kernel \<Rightarrow> int \<Rightarrow> ptr \<Rightarrow> int \<Rightarrow> int \<Rightarrow> byte list \<Rightarrow> 'k world \<Rightarrow> (int \<times> 'k world) option" where
  "async_recvfrom pf K sock buf offset len addr w =
     map_option (\<lambda>addr_size.
         let (a, w) = sys K (Net (Recvfrom sock (buf, offset) len (int addr_size))) w
         in (i32 (a_ret a), w))
       (sockaddr_len pf addr)"

definition async_sendto ::
  "platform \<Rightarrow> 'k kernel \<Rightarrow> int \<Rightarrow> ptr \<Rightarrow> int \<Rightarrow> int \<Rightarrow> byte list \<Rightarrow> 'k world \<Rightarrow> (int \<times> 'k world) option" where
  "async_sendto pf K sock buf offset len addr w =
     (case sockaddr_len pf addr of
        None \<Rightarrow> None
      | Some addr_len \<Rightarrow>
          (case rd addr 0 addr_len of
             None \<Rightarrow> None
           | Some dest \<Rightarrow>
               let (a, w) = sys K (Net (Sendto sock (buf, offset) len dest)) w
               in Some (i32 (a_ret a), w)))"

section \<open>Correctness\<close>

lemma set_option_log:
  "set_option pf K sock level opt v w = (e, w') \<Longrightarrow>
   log w' = log w @ [(if pf = Windows then WNet (W_setsockopt sock level opt v)
                      else Net (Setsockopt sock level opt v), e)]"
  by (auto simp: set_option_def Let_def split_beta world_simps)

lemma or_close_log:
  assumes "or_close K sock opt v w = (r, w')" "sock \<noteq> INVALID_HANDLE_VALUE"
  shows "\<exists>l. log w' = log w @ l \<and> acquired_in l = [] \<and>
    (if r = INVALID_HANDLE_VALUE then released_in l = [sock] else r = sock \<and> released_in l = [])"
proof -
  obtain e w1 where s: "set_option Windows K sock SOL_SOCKET opt (int_bytes v) w = (e, w1)" by fastforce
  show ?thesis
    using assms s set_option_log [OF s]
    by (auto simp: or_close_def world_simps split: if_splits)
qed

definition no_socket :: "platform \<Rightarrow> int \<Rightarrow> bool" where
  "no_socket pf r \<longleftrightarrow> (if pf = Windows then r = INVALID_HANDLE_VALUE else r < 0)"

definition owns_socket :: "platform \<Rightarrow> int \<Rightarrow> (call \<times> int) list \<Rightarrow> bool" where
  "owns_socket pf r l \<longleftrightarrow>
     (if no_socket pf r then set (acquired_in l) \<subseteq> set (released_in l)
      else acquired_in l = [r] \<and> released_in l = [])"

lemma make_tcp_socket_owns:
  assumes "make_tcp_socket pf K family w = (r, w')"
  shows "owns_socket pf r (since w w')"
proof (cases "pf = Windows")
  case True
  let ?c = "WNet (W_WSASocket (address_family pf family) SOCK_STREAM
      (WSA_FLAG_OVERLAPPED OR WSA_FLAG_NO_HANDLE_INHERIT))"
  obtain a w1 where s: "sys K ?c w = (a, w1)" by fastforce
  then have l1: "log w1 = log w @ [(?c, a_ret a)]" using sys_log [of K ?c w] by simp
  show ?thesis
  proof (cases "a_ret a = INVALID_HANDLE_VALUE")
    case True
    with assms s \<open>pf = Windows\<close> sinceI [OF l1] show ?thesis
      by (auto simp: make_tcp_socket_def owns_socket_def no_socket_def)
  next
    case False
    from assms s True False have "or_close K (a_ret a) SO_EXCLUSIVEADDRUSE 0 w1 = (r, w')"
      by (simp add: make_tcp_socket_def)
    from or_close_log [OF this False] obtain l where l: "log w' = log w1 @ l" "acquired_in l = []"
      "if r = INVALID_HANDLE_VALUE then released_in l = [a_ret a] else r = a_ret a \<and> released_in l = []"
      by blast
    from l(1) l1 have "log w' = log w @ ([(?c, a_ret a)] @ l)" by simp
    from sinceI [OF this] l False True show ?thesis
      by (auto simp: owns_socket_def no_socket_def split: if_splits)
  qed
next
  case False
  with assms show ?thesis
    by (auto simp: make_tcp_socket_def Let_def split_beta owns_socket_def no_socket_def since_def
        world_simps)
qed

lemma make_udp_socket_owns:
  assumes "make_udp_socket pf K family multicast w = Some (r, w')"
  shows "owns_socket pf r (since w w')"
proof (cases "pf = Windows")
  case True
  let ?c = "WNet (W_WSASocket (address_family pf family) SOCK_DGRAM
      (WSA_FLAG_OVERLAPPED OR WSA_FLAG_NO_HANDLE_INHERIT))"
  obtain a w1 where s: "sys K ?c w = (a, w1)" by fastforce
  then have l1: "log w1 = log w @ [(?c, a_ret a)]" using sys_log [of K ?c w] by simp
  show ?thesis
  proof (cases "a_ret a = INVALID_HANDLE_VALUE")
    case True
    with assms s \<open>pf = Windows\<close> sinceI [OF l1] show ?thesis
      by (auto simp: make_udp_socket_def owns_socket_def no_socket_def)
  next
    case False
    from assms s True False obtain opt v where "or_close K (a_ret a) opt v w1 = (r, w')"
      by (cases multicast) (auto simp: make_udp_socket_def Let_def)
    from or_close_log [OF this False] obtain l where l: "log w' = log w1 @ l" "acquired_in l = []"
      "if r = INVALID_HANDLE_VALUE then released_in l = [a_ret a] else r = a_ret a \<and> released_in l = []"
      by blast
    from l(1) l1 have "log w' = log w @ ([(?c, a_ret a)] @ l)" by simp
    from sinceI [OF this] l False True show ?thesis
      by (auto simp: owns_socket_def no_socket_def split: if_splits)
  qed
next
  case False
  with assms show ?thesis
    by (auto simp: make_udp_socket_def set_option_def Let_def split_beta owns_socket_def
        no_socket_def since_def world_simps split: if_splits)
qed

text \<open>
  Claim C24 (safety). A TCP or UDP socket constructor returns its one open socket, or reports
  a failure with every socket it opened closed again, on every path of every platform.
\<close>

theorem sockets_owned:
  "owns_socket pf (fst (make_tcp_socket pf K family w)) (since w (snd (make_tcp_socket pf K family w))) \<and>
   (case make_udp_socket pf K family multicast w of
      None \<Rightarrow> multicast \<and> pf = OtherUnix
    | Some (r, w') \<Rightarrow> owns_socket pf r (since w w'))"
proof (intro conjI)
  show "owns_socket pf (fst (make_tcp_socket pf K family w))
      (since w (snd (make_tcp_socket pf K family w)))"
    by (rule make_tcp_socket_owns) simp
  show "case make_udp_socket pf K family multicast w of
      None \<Rightarrow> multicast \<and> pf = OtherUnix
    | Some (r, w') \<Rightarrow> owns_socket pf r (since w w')"
  proof (cases "make_udp_socket pf K family multicast w")
    case None
    then show ?thesis
      by (auto simp: make_udp_socket_def Let_def split_beta split: if_splits)
  next
    case (Some p)
    then show ?thesis
      using make_udp_socket_owns [of pf K family multicast w "fst p" "snd p"] by (cases p) simp
  qed
qed

subsection \<open>Options\<close>

definition option_call :: "platform \<Rightarrow> int \<Rightarrow> sock_level \<times> sock_option \<times> int \<Rightarrow> call" where
  "option_call pf sock s =
     (case s of (level, opt, v) \<Rightarrow>
        if pf = Windows then WNet (W_setsockopt sock level opt (int_bytes v))
        else Net (Setsockopt sock level opt (int_bytes v)))"

lemma set_all_log:
  assumes "set_all pf K sock opts w = (r, w')"
  shows "\<exists>l n. log w' = log w @ l \<and> n \<le> length opts \<and>
    calls l = map (option_call pf sock) (take n opts) \<and>
    (if r = 0 then n = length opts \<and> (\<forall>x \<in> set l. 0 \<le> snd x)
     else r = -1 \<and> l \<noteq> [] \<and> snd (last l) < 0)"
  using assms
proof (induction opts arbitrary: w)
  case Nil
  then show ?case by (intro exI [of _ "[]"] exI [of _ 0]) simp
next
  case (Cons s opts)
  obtain level opt v where s: "s = (level, opt, v)" by (cases s)
  obtain e w1 where o: "set_option pf K sock level opt (int_bytes v) w = (e, w1)" by fastforce
  have l1: "log w1 = log w @ [(option_call pf sock s, e)]"
    using set_option_log [OF o] by (simp add: option_call_def s)
  show ?case
  proof (cases "e < 0")
    case True
    with Cons.prems o s have "r = -1" "w' = w1" by auto
    with True l1 show ?thesis
      by (intro exI [of _ "[(option_call pf sock s, e)]"] exI [of _ 1]) simp
  next
    case False
    with Cons.prems o s have "set_all pf K sock opts w1 = (r, w')" by simp
    from Cons.IH [OF this] obtain l n where "log w' = log w1 @ l" "n \<le> length opts"
      "calls l = map (option_call pf sock) (take n opts)"
      "if r = 0 then n = length opts \<and> (\<forall>x \<in> set l. 0 \<le> snd x) else r = -1 \<and> l \<noteq> [] \<and> snd (last l) < 0"
      by blast
    with l1 False show ?thesis
      by (intro exI [of _ "(option_call pf sock s, e) # l"] exI [of _ "Suc n"]) (auto split: if_splits)
  qed
qed

lemma int_bytes_value: "0 \<le> v \<Longrightarrow> v < 2 ^ 31 \<Longrightarrow> int (le_val (int_bytes v)) = v"
  by (simp add: int_bytes_def le_val_le_bytes)

text \<open>
  Enabling keep-alive sets, in order, the keep-alive flag and exactly the
  count, idle time and interval the caller gave (those that are positive), each with that
  value, and reports success if and only if every one of them was accepted; at the first
  one that is refused it stops and reports the failure.
\<close>

lemma keepalive_options:
  assumes "enable_keepalive pf K sock keep_idle keep_cnt keep_intvl w = (r, w')"
  shows "\<exists>n. n \<le> length (keepalive_steps pf keep_idle keep_cnt keep_intvl) \<and>
      calls (since w w') =
        map (option_call pf sock) (take n (keepalive_steps pf keep_idle keep_cnt keep_intvl)) \<and>
      (if r = 0
       then n = length (keepalive_steps pf keep_idle keep_cnt keep_intvl) \<and>
         (\<forall>x \<in> set (since w w'). 0 \<le> snd x)
       else r = -1 \<and> since w w' \<noteq> [] \<and> snd (last (since w w')) < 0)"
proof -
  obtain l n where l: "log w' = log w @ l"
    and n: "n \<le> length (keepalive_steps pf keep_idle keep_cnt keep_intvl)"
      "calls l = map (option_call pf sock) (take n (keepalive_steps pf keep_idle keep_cnt keep_intvl))"
      "if r = 0 then n = length (keepalive_steps pf keep_idle keep_cnt keep_intvl) \<and> (\<forall>x \<in> set l. 0 \<le> snd x)
       else r = -1 \<and> l \<noteq> [] \<and> snd (last l) < 0"
    using set_all_log [OF assms [unfolded enable_keepalive_def]] by blast
  show ?thesis unfolding sinceI [OF l] using n by blast
qed

subsection \<open>Addresses reach the system whole\<close>

text \<open>
  The addresses the library builds reach the system whole: joining a
  multicast group passes the group's and the interface's four bytes in network order, and
  sending to an address, or accepting and receiving into one, passes the whole structure
  of its family.
\<close>

lemma addresses_passed_whole:
  assumes "Addr_new pf mgroup p = Some g" "Addr_new pf local q = Some l"
    and "length ip6 = 16" "Addr_new_ipv6 pf ip6 p scope = Some s"
  shows "join_multicast_group pf K sock g l w =
      Some (set_option pf K sock IPPROTO_IP IP_ADD_MEMBERSHIP
        (be_bytes 4 (unat mgroup) @ be_bytes 4 (unat local)) w) \<and>
    join_multicast_group_v6 pf K sock s idx w =
      Some (set_option pf K sock IPPROTO_IPV6 IPV6_ADD_MEMBERSHIP (ip6 @ le_bytes 4 (unat idx)) w) \<and>
    (\<forall>a \<in> {g, s}. sockaddr_len pf a = Some (length a) \<and> rd a 0 (length a) = Some a \<and>
      async_sendto pf K sock buf off len a w =
        Some (let (r, w) = sys K (Net (Sendto sock (buf, off) len a)) w in (i32 (a_ret r), w)))"
proof -
  have g: "g = family_bytes pf AF_INET @ htons p @ be_bytes 4 (unat mgroup) @ replicate 8 0"
    and l: "l = family_bytes pf AF_INET @ htons q @ be_bytes 4 (unat local) @ replicate 8 0"
    using assms(1,2) by (simp_all add: Addr_new_bytes)
  have s: "s = family_bytes pf (AF_INET6 pf) @ htons p @ le_bytes 4 0 @ ip6 @ le_bytes 4 (unat scope)"
    using assms(3,4) by (simp add: Addr_new_ipv6_bytes)
  have f: "sa_family pf g = Some AF_INET" "sa_family pf s = Some (AF_INET6 pf)"
    using AF_INET6_values(1) [of pf] by (simp_all add: g s sa_family_bytes AF_INET_def)
  have n: "length g = ipv4_addr_size" "length s = ipv6_addr_size"
    using assms(3) by (simp_all add: g s ipv4_addr_size_def ipv6_addr_size_def)
  have whole: "\<forall>a \<in> {g, s}. sockaddr_len pf a = Some (length a) \<and> rd a 0 (length a) = Some a"
    using f n AF_INET6_values(2) [of pf] by (auto simp: sockaddr_len_def rd_all)
  then have "\<forall>a \<in> {g, s}. async_sendto pf K sock buf off len a w =
      Some (let (r, w) = sys K (Net (Sendto sock (buf, off) len a)) w in (i32 (a_ret r), w))"
    by (auto simp: async_sendto_def Let_def split_beta)
  moreover have "rd g 4 4 = Some (be_bytes 4 (unat mgroup))" "rd l 4 4 = Some (be_bytes 4 (unat local))"
    by (simp_all add: g l layout)
  moreover have "rd s 8 16 = Some ip6" using assms(3) by (simp add: s layout)
  ultimately show ?thesis
    using whole by (simp add: join_multicast_group_def join_multicast_group_v6_def)
qed

end
