(* ===== verification/Overlapped_Io.thy ===== *)
theory Overlapped_Io
  imports Socket_Ops
begin

text \<open>
  Overlapped input and output on Windows (\<open>io_windows.c\<close>, \<open>io_windows.mbt\<close>): the
  \<open>IoResult\<close> blocks an operation lives in, how an operation is started, answered and
  cancelled, and the life of a block between the system and the event loop.
\<close>

definition init_WSA :: "'k kernel \<Rightarrow> 'k world \<Rightarrow> int \<times> 'k world" where
  "init_WSA K w = (let (a, w) = sys K (WNet (W_WSAStartup 0x0202)) w in (a_ret a, w))"

definition cleanup_WSA :: "'k kernel \<Rightarrow> 'k world \<Rightarrow> int \<times> 'k world" where
  "cleanup_WSA K w = (let (a, w) = sys K (WNet W_WSACleanup) w in (a_ret a, w))"

section \<open>Blocks\<close>

text \<open>
  The kind of a block is the constructor of its body. An address is the object a pointer
  points to, with its bytes; a \<open>buffer\<close> is an object and an offset in it.
\<close>

type_synonym sockaddr_obj = "ptr \<times> byte list"

datatype io_body =
    File_io_result ptr buffer int
  | Socket_io_result ptr buffer int "32 word"
  | Socket_with_addr_io_result ptr buffer int "32 word" sockaddr_obj int
  | Connect_io_result sockaddr_obj
  | Accept_io_result int
  | Read_dir_changes_io_result ptr int

record io_result =
  ir_self :: ptr
  ir_offset :: "32 word \<times> 32 word"
  ir_event :: int
  ir_body :: io_body

text \<open>\<open>sizeof\<close> of the structures, where \<open>struct IoResult\<close> takes 40 bytes.\<close>

fun sizeof_io_result :: "io_body \<Rightarrow> int" where
  "sizeof_io_result (File_io_result _ _ _) = 64"
| "sizeof_io_result (Socket_io_result _ _ _ _) = 72"
| "sizeof_io_result (Socket_with_addr_io_result _ _ _ _ _ _) = 88"
| "sizeof_io_result (Connect_io_result _) = 48"
| "sizeof_io_result (Accept_io_result addr_len) = 48 + (addr_len + 16) * 2"
| "sizeof_io_result (Read_dir_changes_io_result _ _) = 56"

text \<open>A failed \<open>malloc\<close> is not tested: the \<open>memset\<close> through it is \<open>None\<close>.\<close>

definition make_io_result ::
  "'k kernel \<Rightarrow> int \<Rightarrow> io_body \<Rightarrow> 'k world \<Rightarrow> (io_result \<times> 'k world) option" where
  "make_io_result K event body w =
     (let (a, w) = sys K (Rt (Malloc (sizeof_io_result body))) w
      in if a_ret a = 0 then None
         else Some (\<lparr>ir_self = nat (a_ret a), ir_offset = (0, 0), ir_event = event,
                     ir_body = body\<rparr>, w))"

definition make_file_io_result ::
  "'k kernel \<Rightarrow> int \<Rightarrow> ptr \<Rightarrow> int \<Rightarrow> int \<Rightarrow> 64 word \<Rightarrow> 'k world \<Rightarrow> (io_result \<times> 'k world) option" where
  "make_file_io_result K event buf offset len position w =
     map_option
       (\<lambda>(result, w).
          (result\<lparr>ir_offset := (ucast (position AND 0xffffffff), ucast (signed_drop_bit 32 position))\<rparr>, w))
       (make_io_result K event (File_io_result buf (buf, offset) len) w)"

definition make_file_read_io_result ::
  "'k kernel \<Rightarrow> ptr \<Rightarrow> int \<Rightarrow> int \<Rightarrow> 64 word \<Rightarrow> 'k world \<Rightarrow> (io_result \<times> 'k world) option" where
  "make_file_read_io_result K = make_file_io_result K ReadEvent"

definition make_file_write_io_result ::
  "'k kernel \<Rightarrow> ptr \<Rightarrow> int \<Rightarrow> int \<Rightarrow> 64 word \<Rightarrow> 'k world \<Rightarrow> (io_result \<times> 'k world) option" where
  "make_file_write_io_result K = make_file_io_result K WriteEvent"

definition make_socket_io_result ::
  "'k kernel \<Rightarrow> int \<Rightarrow> ptr \<Rightarrow> int \<Rightarrow> int \<Rightarrow> int \<Rightarrow> 'k world \<Rightarrow> (io_result \<times> 'k world) option" where
  "make_socket_io_result K event buf offset len flags w =
     make_io_result K event (Socket_io_result buf (buf, offset) len (word_of_int flags)) w"

definition make_socket_read_io_result ::
  "'k kernel \<Rightarrow> ptr \<Rightarrow> int \<Rightarrow> int \<Rightarrow> int \<Rightarrow> 'k world \<Rightarrow> (io_result \<times> 'k world) option" where
  "make_socket_read_io_result K = make_socket_io_result K ReadEvent"

definition make_socket_write_io_result ::
  "'k kernel \<Rightarrow> ptr \<Rightarrow> int \<Rightarrow> int \<Rightarrow> int \<Rightarrow> 'k world \<Rightarrow> (io_result \<times> 'k world) option" where
  "make_socket_write_io_result K = make_socket_io_result K WriteEvent"

definition make_socket_with_addr_io_result ::
  "'k kernel \<Rightarrow> int \<Rightarrow> ptr \<Rightarrow> int \<Rightarrow> int \<Rightarrow> int \<Rightarrow> sockaddr_obj \<Rightarrow> 'k world \<Rightarrow>
   (io_result \<times> 'k world) option" where
  "make_socket_with_addr_io_result K event buf offset len flags addr w =
     (case sockaddr_len Windows (snd addr) of
        None \<Rightarrow> None
      | Some addr_len \<Rightarrow>
          make_io_result K event
            (Socket_with_addr_io_result buf (buf, offset) len (word_of_int flags) addr (int addr_len)) w)"

definition make_socket_with_addr_read_io_result ::
  "'k kernel \<Rightarrow> ptr \<Rightarrow> int \<Rightarrow> int \<Rightarrow> int \<Rightarrow> sockaddr_obj \<Rightarrow> 'k world \<Rightarrow> (io_result \<times> 'k world) option" where
  "make_socket_with_addr_read_io_result K = make_socket_with_addr_io_result K ReadEvent"

definition make_socket_with_addr_write_io_result ::
  "'k kernel \<Rightarrow> ptr \<Rightarrow> int \<Rightarrow> int \<Rightarrow> int \<Rightarrow> sockaddr_obj \<Rightarrow> 'k world \<Rightarrow> (io_result \<times> 'k world) option" where
  "make_socket_with_addr_write_io_result K = make_socket_with_addr_io_result K WriteEvent"

definition make_connect_io_result ::
  "'k kernel \<Rightarrow> sockaddr_obj \<Rightarrow> 'k world \<Rightarrow> (io_result \<times> 'k world) option" where
  "make_connect_io_result K addr = make_io_result K WriteEvent (Connect_io_result addr)"

definition make_accept_io_result ::
  "'k kernel \<Rightarrow> int \<Rightarrow> 'k world \<Rightarrow> (io_result \<times> 'k world) option" where
  "make_accept_io_result K addr_len = make_io_result K ReadEvent (Accept_io_result addr_len)"

definition make_read_dir_changes_io_result ::
  "'k kernel \<Rightarrow> ptr \<Rightarrow> int \<Rightarrow> 'k world \<Rightarrow> (io_result \<times> 'k world) option" where
  "make_read_dir_changes_io_result K buf len =
     make_io_result K ReadEvent (Read_dir_changes_io_result buf len)"

text \<open>The references a block keeps, in the order \<open>free_io_result\<close> drops them.\<close>

fun kept_objects :: "io_body \<Rightarrow> ptr list" where
  "kept_objects (File_io_result buf_obj _ _) = [buf_obj]"
| "kept_objects (Socket_io_result buf_obj _ _ _) = [buf_obj]"
| "kept_objects (Socket_with_addr_io_result buf_obj _ _ _ addr _) = [buf_obj, fst addr]"
| "kept_objects (Connect_io_result addr) = [fst addr]"
| "kept_objects (Accept_io_result _) = []"
| "kept_objects (Read_dir_changes_io_result _ _) = []"

fun decref_all :: "'k kernel \<Rightarrow> ptr list \<Rightarrow> 'k world \<Rightarrow> 'k world" where
  "decref_all K [] w = w"
| "decref_all K (p # ps) w = decref_all K ps (sys_do K (Rt (Decref p)) w)"

definition free_io_result :: "'k kernel \<Rightarrow> io_result \<Rightarrow> 'k world \<Rightarrow> 'k world" where
  "free_io_result K obj w =
     sys_do K (Rt (Free (ir_self obj))) (decref_all K (kept_objects (ir_body obj)) w)"

definition io_result_get_event :: "io_result \<Rightarrow> int" where
  "io_result_get_event result = ir_event result"

section \<open>Status and cancellation\<close>

definition io_result_get_status :: "'k kernel \<Rightarrow> ptr \<Rightarrow> int \<Rightarrow> 'k world \<Rightarrow> int \<times> 'k world" where
  "io_result_get_status K overlapped file w =
     (let (a, w) = sys K (WNet (W_GetOverlappedResult file overlapped)) w
      in (if a_ret a \<noteq> 0 then i32 (a_num a) else -1, w))"

definition cancel_io_result :: "'k kernel \<Rightarrow> ptr \<Rightarrow> int \<Rightarrow> 'k world \<Rightarrow> int \<times> 'k world" where
  "cancel_io_result K overlapped handle w =
     (let (c, w) = sys K (WNet (W_CancelIoEx handle overlapped)) w
      in if a_ret c = 0 \<and> errno w \<noteq> ERROR_NOT_FOUND then (-1, w)
         else
           let (a, w) = sys K (WNet (W_GetOverlappedResult handle overlapped)) w
           in if a_ret a \<noteq> 0 then (0, w)
              else (if errno w = ERROR_IO_INCOMPLETE then 1 else 0, w))"

text \<open>\<open>IoResult::cancel\<close>: the error that is raised, or how the caller goes on.\<close>

datatype io_cancellation = NeedWait | NoWait

definition IoResult_cancel ::
  "'k kernel \<Rightarrow> ptr \<Rightarrow> int \<Rightarrow> 'k world \<Rightarrow> (int + io_cancellation) \<times> 'k world" where
  "IoResult_cancel K overlapped handle w =
     (let (r, w) = cancel_io_result K overlapped handle w
      in if r < 0 \<and> errno w \<noteq> 0 then (Inl (errno w), w)
         else (Inr (if r = 1 then NeedWait else NoWait), w))"

text \<open>\<open>IoResult::status\<close>: a cancelled operation, another error, or the byte count.\<close>

datatype io_error = Cancelled | OSError int

definition IoResult_status ::
  "'k kernel \<Rightarrow> ptr \<Rightarrow> int \<Rightarrow> 'k world \<Rightarrow> (io_error + int) \<times> 'k world" where
  "IoResult_status K overlapped handle w =
     (let (n, w) = io_result_get_status K overlapped handle w
      in if n < 0 \<and> errno_is_cancelled Windows (errno w) then (Inl Cancelled, w)
         else if n < 0 \<and> errno w \<noteq> 0 then (Inl (OSError (errno w)), w)
         else (Inr n, w))"

section \<open>Reading and writing\<close>

text \<open>
  For a block of another kind \<open>success\<close> stays indeterminate: \<open>None\<close>. The Winsock calls
  return zero for success.
\<close>

definition read_windows ::
  "'k kernel \<Rightarrow> int \<Rightarrow> io_result \<Rightarrow> 'k world \<Rightarrow> (int \<times> 'k world) option" where
  "read_windows K handle r w =
     map_option
       (\<lambda>(c, zero_is_success).
          let (a, w) = sys K (WNet c) w
          in if (a_ret a = 0) = zero_is_success then (i32 (a_num a), w)
             else if errno w = ERROR_HANDLE_EOF then (0, w)
             else (-1, w))
       (case ir_body r of
          File_io_result _ buf len \<Rightarrow>
            Some (W_ReadFileOv handle buf len (ir_offset r) (ir_self r), False)
        | Socket_io_result _ buf len flags \<Rightarrow>
            Some (W_WSARecv handle buf len flags (ir_self r), True)
        | Socket_with_addr_io_result _ buf len flags addr addr_len \<Rightarrow>
            Some (W_WSARecvFrom handle buf len flags (fst addr) addr_len (ir_self r), True)
        | _ \<Rightarrow> None)"

definition write_windows ::
  "'k kernel \<Rightarrow> int \<Rightarrow> io_result \<Rightarrow> 'k world \<Rightarrow> (int \<times> 'k world) option" where
  "write_windows K handle r w =
     map_option
       (\<lambda>(c, zero_is_success).
          let (a, w) = sys K (WNet c) w
          in (if (a_ret a = 0) = zero_is_success then i32 (a_num a) else -1, w))
       (case ir_body r of
          File_io_result _ buf len \<Rightarrow>
            Some (W_WriteFileOv handle buf len (ir_offset r) (ir_self r), False)
        | Socket_io_result _ buf len flags \<Rightarrow>
            Some (W_WSASend handle buf len flags (ir_self r), True)
        | Socket_with_addr_io_result _ buf len flags addr addr_len \<Rightarrow>
            Some (W_WSASendTo handle buf len flags (fst addr) addr_len (ir_self r), True)
        | _ \<Rightarrow> None)"

text \<open>
  \<open>wait_read_result\<close>, \<open>wait_write_result\<close> and the \<open>wait_for_cancellation\<close> they call, once
  the event loop is there and nobody else waits. \<open>await\<close> is a suspension in the event loop:
  whether a cancellation ended it, and what became of the world meanwhile. The second
  suspension is shielded. A cancellation that fails is an error, raised when the operation
  is over.
\<close>

definition wait_io_result ::
  "'k kernel \<Rightarrow> ptr \<Rightarrow> int \<Rightarrow> ('k world \<Rightarrow> bool \<times> 'k world) \<Rightarrow> 'k world \<Rightarrow> int option \<times> 'k world" where
  "wait_io_result K overlapped handle await w =
     (let (cancelled, w) = await w
      in if \<not> cancelled then (None, w)
         else case IoResult_cancel K overlapped handle w of
                (Inl e, w) \<Rightarrow> (Some e, snd (await w))
              | (Inr NeedWait, w) \<Rightarrow> (None, snd (await w))
              | (Inr NoWait, w) \<Rightarrow> (None, w))"

text \<open>\<open>generic_read_windows\<close> and \<open>generic_write_windows\<close>; \<open>None\<close> is \<open>panic\<close>.\<close>

definition generic_read_windows ::
  "'k kernel \<Rightarrow> int \<Rightarrow> io_result \<Rightarrow> ('k world \<Rightarrow> bool \<times> 'k world) \<Rightarrow> 'k world \<Rightarrow>
   ((io_error + int) \<times> 'k world) option" where
  "generic_read_windows K handle r await w =
     (case read_windows K handle r w of
        None \<Rightarrow> None
      | Some (n, w) \<Rightarrow>
          if 0 \<le> n then Some (Inr n, w)
          else if is_nonblocking_io_error Windows (errno w)
          then (case wait_io_result K (ir_self r) handle await w of
                  (Some e, w) \<Rightarrow> Some (Inl (OSError e), w)
                | (None, w) \<Rightarrow>
                    (case IoResult_status K (ir_self r) handle w of
                       (Inl (OSError e), w) \<Rightarrow>
                         Some (if errno_is_read_EOF e then Inr 0 else Inl (OSError e), w)
                     | (res, w) \<Rightarrow> Some (res, w)))
          else if errno_is_read_EOF (errno w) then Some (Inr 0, w)
          else if errno w \<noteq> 0 then Some (Inl (OSError (errno w)), w)
          else None)"

definition generic_write_windows ::
  "'k kernel \<Rightarrow> int \<Rightarrow> io_result \<Rightarrow> ('k world \<Rightarrow> bool \<times> 'k world) \<Rightarrow> 'k world \<Rightarrow>
   ((io_error + int) \<times> 'k world) option" where
  "generic_write_windows K handle r await w =
     (case write_windows K handle r w of
        None \<Rightarrow> None
      | Some (n, w) \<Rightarrow>
          if 0 \<le> n then Some (Inr n, w)
          else if is_nonblocking_io_error Windows (errno w)
          then (case wait_io_result K (ir_self r) handle await w of
                  (Some e, w) \<Rightarrow> Some (Inl (OSError e), w)
                | (None, w) \<Rightarrow> Some (IoResult_status K (ir_self r) handle w))
          else if errno w \<noteq> 0 then Some (Inl (OSError (errno w)), w)
          else None)"

section \<open>Connecting and accepting\<close>

definition WSAID_CONNECTEX :: int where "WSAID_CONNECTEX = 0x25a207b9ddf346608ee976e58c74063e"
definition WSAID_ACCEPTEX :: int where "WSAID_ACCEPTEX = 0xb5367df1cbac11cf95ca00805f48a192"

text \<open>The pointer to the extension function, 0 when it is missing.\<close>

definition get_WSA_extension :: "'k kernel \<Rightarrow> int \<Rightarrow> int \<Rightarrow> 'k world \<Rightarrow> int \<times> 'k world" where
  "get_WSA_extension K handle guid w =
     (let (a, w) = sys K (WNet (W_WSAIoctl_extension handle guid)) w
      in (if a_ret a \<noteq> 0 then 0 else a_num a, w))"

text \<open>The wildcard address of a family, port 0.\<close>

definition any_addr :: "nat \<Rightarrow> byte list" where
  "any_addr family =
     le_bytes 2 family @ replicate ((if family = AF_INET then ipv4_addr_size else ipv6_addr_size) - 2) 0"

definition connect_windows ::
  "'k kernel \<Rightarrow> int \<Rightarrow> io_result \<Rightarrow> 'k world \<Rightarrow> (int \<times> 'k world) option" where
  "connect_windows K handle result w =
     (case ir_body result of
        Connect_io_result addr \<Rightarrow>
          let (ConnectEx, w) = get_WSA_extension K handle WSAID_CONNECTEX w
          in if ConnectEx = 0 then Some (-1, w)
             else
               (case (sa_family Windows (snd addr), sockaddr_len Windows (snd addr)) of
                  (Some family, Some len) \<Rightarrow>
                    let (b, w) = sys K (WNet (W_bind handle
                          (any_addr (if family = AF_INET then AF_INET else AF_INET6 Windows)))) w
                    in if a_ret b \<noteq> 0 then Some (0, w)
                       else map_option
                              (\<lambda>dest. let (a, w) = sys K (WNet (W_ConnectEx handle dest (ir_self result))) w
                                      in (a_ret a, w))
                              (rd (snd addr) 0 len)
                | _ \<Rightarrow> None)
      | _ \<Rightarrow> None)"

definition setup_connected_socket :: "'k kernel \<Rightarrow> int \<Rightarrow> 'k world \<Rightarrow> int \<times> 'k world" where
  "setup_connected_socket K handle w =
     set_option Windows K handle SOL_SOCKET SO_UPDATE_CONNECT_CONTEXT (le_bytes 4 1) w"

definition accept_windows ::
  "'k kernel \<Rightarrow> int \<Rightarrow> int \<Rightarrow> io_result \<Rightarrow> 'k world \<Rightarrow> (int \<times> 'k world) option" where
  "accept_windows K handle conn_sock result w =
     (case ir_body result of
        Accept_io_result addr_len \<Rightarrow>
          let (AcceptEx, w) = get_WSA_extension K handle WSAID_ACCEPTEX w
          in if AcceptEx = 0 then Some (-1, w)
             else let (a, w) = sys K (WNet (W_AcceptEx handle conn_sock (addr_len + 16) (addr_len + 16)
                                        (ir_self result))) w
                  in Some (a_ret a, w)
      | _ \<Rightarrow> None)"

definition setup_accepted_socket :: "'k kernel \<Rightarrow> int \<Rightarrow> int \<Rightarrow> 'k world \<Rightarrow> int \<times> 'k world" where
  "setup_accepted_socket K listen_sock accept_sock w =
     set_option Windows K accept_sock SOL_SOCKET SO_UPDATE_ACCEPT_CONTEXT
       (le_bytes 8 (nat (listen_sock mod 2 ^ 64))) w"

text \<open>\<open>block\<close> is the memory of the result, whose \<open>accept_buffer\<close> starts at byte 48.\<close>

definition get_accept_peer_addr :: "io_result \<Rightarrow> byte list \<Rightarrow> byte list \<Rightarrow> byte list option" where
  "get_accept_peer_addr result block dst =
     (case ir_body result of
        Accept_io_result addr_len \<Rightarrow>
          memcpy dst 0 block (48 + nat (addr_len + 16)) (nat addr_len)
      | _ \<Rightarrow> None)"

section \<open>Watching a directory\<close>

definition FILE_NOTIFY_CHANGES :: "32 word" where
  "FILE_NOTIFY_CHANGES = 0x8 OR 0x10 OR 0x1 OR 0x2"

text \<open>\<open>modern\<close> is a build for Windows 10 and later. Success is reported as a pending operation.\<close>

definition read_dir_changes ::
  "bool \<Rightarrow> 'k kernel \<Rightarrow> int \<Rightarrow> io_result \<Rightarrow> 'k world \<Rightarrow> (int \<times> 'k world) option" where
  "read_dir_changes modern K dir result w =
     (case ir_body result of
        Read_dir_changes_io_result buf len \<Rightarrow>
          let (a, w) = sys K (WNet (W_ReadDirectoryChanges modern dir buf len FILE_NOTIFY_CHANGES
                                      (ir_self result))) w
          in Some (-1, if a_ret a = 0 then w else set_errno ERROR_IO_PENDING w)
      | _ \<Rightarrow> None)"

section \<open>The life of a block\<close>

text \<open>
  What the system does with one operation: it runs until it is done or has failed. A
  request to cancel a running operation is refused, or accepted, and then the operation
  fails at once or later; a request to cancel one that has ended finds nothing.
\<close>

datatype os_operation = Running | Done int | Failed int

definition op_kernel :: "bool \<Rightarrow> bool \<Rightarrow> os_operation kernel" where
  "op_kernel refused at_once c op =
     (case c of
        WNet (W_CancelIoEx _ _) \<Rightarrow>
          if op \<noteq> Running then (fail 0 ERROR_NOT_FOUND, op)
          else if refused then (fail 0 ERROR_ACCESS_DENIED, op)
          else (ok 1, if at_once then Failed ERROR_OPERATION_ABORTED else Running)
      | WNet (W_GetOverlappedResult _ _) \<Rightarrow>
          (case op of
             Running \<Rightarrow> (fail 0 ERROR_IO_INCOMPLETE, op)
           | Failed e \<Rightarrow> (fail 0 e, op)
           | Done n \<Rightarrow> ((ok 1)\<lparr>a_num := n\<rparr>, op))
      | _ \<Rightarrow> (blank, op))"

text \<open>
  A cancellation of an operation that is running or not: how the coroutine goes on, and
  whether the operation still runs.
\<close>

definition cancellation :: "bool \<Rightarrow> bool \<Rightarrow> bool \<Rightarrow> (int + io_cancellation) \<times> bool" where
  "cancellation refused at_once running =
     (let (r, w) = IoResult_cancel (op_kernel refused at_once) 0 0
                     (boot (if running then Running else Done 0))
      in (r, kst w = Running))"

text \<open>
  The blocks of one handle. A coroutine waits for its packet and can be cancelled
  (\<open>Suspended\<close>), waits after a cancellation (\<open>Draining\<close>), or has been woken and will run;
  one that was not shielded can still be cancelled then. \<open>ov_raced\<close> records that a block
  was freed with its packet in the queue, \<open>ov_touched\<close> that the event loop read a block
  that was freed.
\<close>

datatype wait_phase = Suspended | Draining | Woken bool

record overlapped =
  ov_block :: "ptr \<Rightarrow> int option"
  ov_running :: "ptr list"
  ov_packets :: "ptr list"
  ov_waiter :: "int \<Rightarrow> (ptr \<times> wait_phase) option"
  ov_raced :: bool
  ov_touched :: bool

definition no_blocks :: overlapped where
  "no_blocks = \<lparr>ov_block = (\<lambda>_. None), ov_running = [], ov_packets = [],
     ov_waiter = (\<lambda>_. None), ov_raced = False, ov_touched = False\<rparr>"

fun phase_woken :: "wait_phase \<Rightarrow> wait_phase" where
  "phase_woken Suspended = Woken False"
| "phase_woken Draining = Woken True"
| "phase_woken (Woken shielded) = Woken shielded"

definition wake_waiter :: "int \<Rightarrow> overlapped \<Rightarrow> overlapped" where
  "wake_waiter e s = s\<lparr>ov_waiter := (ov_waiter s)(e := map_option (apsnd phase_woken) (ov_waiter s e))\<rparr>"

definition end_operation :: "ptr \<Rightarrow> overlapped \<Rightarrow> overlapped" where
  "end_operation p s =
     s\<lparr>ov_running := removeAll p (ov_running s), ov_packets := ov_packets s @ [p]\<rparr>"

definition leave :: "int \<Rightarrow> ptr \<Rightarrow> overlapped \<Rightarrow> overlapped" where
  "leave e p s =
     s\<lparr>ov_block := (ov_block s)(p := None), ov_waiter := (ov_waiter s)(e := None),
       ov_raced := (ov_raced s \<or> p \<in> set (ov_packets s))\<rparr>"

definition cancel_step :: "bool \<Rightarrow> bool \<Rightarrow> int \<Rightarrow> ptr \<Rightarrow> overlapped \<Rightarrow> overlapped" where
  "cancel_step refused at_once e p s =
     (let running = (p \<in> set (ov_running s));
          (r, still) = cancellation refused at_once running;
          s = (if running \<and> \<not> still then end_operation p s else s)
      in if r = Inr NoWait then leave e p s
         else s\<lparr>ov_waiter := (ov_waiter s)(e := Some (p, Draining))\<rparr>)"

inductive ov_step :: "overlapped \<Rightarrow> overlapped \<Rightarrow> bool" where
  start: "e \<in> {ReadEvent, WriteEvent} \<Longrightarrow> ov_waiter s e = None \<Longrightarrow> ov_block s p = None \<Longrightarrow>
    ov_step s (s\<lparr>ov_block := (ov_block s)(p \<mapsto> e), ov_running := p # ov_running s,
                 ov_waiter := (ov_waiter s)(e \<mapsto> (p, Suspended))\<rparr>)"
| complete: "p \<in> set (ov_running s) \<Longrightarrow> ov_step s (end_operation p s)"
| poll: "ov_packets s = p # ps \<Longrightarrow> ov_block s p = Some e \<Longrightarrow>
    ov_step s (wake_waiter e (s\<lparr>ov_packets := ps\<rparr>))"
| poll_freed: "ov_packets s = p # ps \<Longrightarrow> ov_block s p = None \<Longrightarrow>
    ov_step s (wake_waiter e (s\<lparr>ov_packets := ps, ov_touched := True\<rparr>))"
| resume: "ov_waiter s e = Some (p, Woken shielded) \<Longrightarrow> ov_step s (leave e p s)"
| cancel: "ov_waiter s e = Some (p, ph) \<Longrightarrow> ph = Suspended \<or> ph = Woken False \<Longrightarrow>
    ov_step s (cancel_step refused at_once e p s)"

inductive ov_reachable :: "overlapped \<Rightarrow> bool" where
  init: "ov_reachable no_blocks"
| more: "ov_reachable s \<Longrightarrow> ov_step s s' \<Longrightarrow> ov_reachable s'"

section \<open>Correctness\<close>

subsection \<open>The outcome of a transfer\<close>

text \<open>The operation a transfer starts.\<close>

fun transfers :: "io_body \<Rightarrow> bool" where
  "transfers (File_io_result _ _ _) = True"
| "transfers (Socket_io_result _ _ _ _) = True"
| "transfers (Socket_with_addr_io_result _ _ _ _ _ _) = True"
| "transfers _ = False"

lemma status_outcome:
  assumes "os_law K" "IoResult_status K p h w = (res, w')"
  shows "case res of Inr n \<Rightarrow> 0 \<le> n | Inl (OSError e) \<Rightarrow> 0 < e | Inl Cancelled \<Rightarrow> True"
proof -
  let ?c = "WNet (W_GetOverlappedResult h p)"
  have "0 \<le> i32 (a_num (fst (sys K ?c w)))"
    using os_law_bytes [OF assms(1), of ?c w] by simp
  moreover have "a_ret (fst (sys K ?c w)) = 0 \<Longrightarrow> 0 < errno (snd (sys K ?c w))"
    using os_law_errno [OF assms(1), of ?c w] by simp
  ultimately show ?thesis
    using assms(2)
    by (auto simp: IoResult_status_def io_result_get_status_def Let_def split_beta split: if_splits)
qed

lemma read_windows_outcome:
  assumes "os_law K" "transfers (ir_body r)"
  obtains n w' where "read_windows K h r w = Some (n, w')" "0 \<le> n \<or> 0 < errno w'"
proof -
  have "\<exists>n w'. read_windows K h r w = Some (n, w') \<and> (0 \<le> n \<or> 0 < errno w')"
  proof (cases "ir_body r")
    case (File_io_result x1 x2 x3)
    let ?c = "WNet (W_ReadFileOv h x2 x3 (ir_offset r) (ir_self r))"
    show ?thesis
      using os_law_errno [OF assms(1), of ?c w] os_law_bytes [OF assms(1), of ?c w] File_io_result
      by (simp add: read_windows_def split_beta Let_def)
  next
    case (Socket_io_result x1 x2 x3 x4)
    let ?c = "WNet (W_WSARecv h x2 x3 x4 (ir_self r))"
    show ?thesis
      using os_law_errno [OF assms(1), of ?c w] os_law_bytes [OF assms(1), of ?c w] Socket_io_result
      by (simp add: read_windows_def split_beta Let_def)
  next
    case (Socket_with_addr_io_result x1 x2 x3 x4 x5 x6)
    let ?c = "WNet (W_WSARecvFrom h x2 x3 x4 (fst x5) x6 (ir_self r))"
    show ?thesis
      using os_law_errno [OF assms(1), of ?c w] os_law_bytes [OF assms(1), of ?c w]
        Socket_with_addr_io_result
      by (simp add: read_windows_def split_beta Let_def)
  qed (use assms(2) in auto)
  with that show thesis by blast
qed

lemma write_windows_outcome:
  assumes "os_law K" "transfers (ir_body r)"
  obtains n w' where "write_windows K h r w = Some (n, w')" "0 \<le> n \<or> 0 < errno w'"
proof -
  have "\<exists>n w'. write_windows K h r w = Some (n, w') \<and> (0 \<le> n \<or> 0 < errno w')"
  proof (cases "ir_body r")
    case (File_io_result x1 x2 x3)
    let ?c = "WNet (W_WriteFileOv h x2 x3 (ir_offset r) (ir_self r))"
    show ?thesis
      using os_law_errno [OF assms(1), of ?c w] os_law_bytes [OF assms(1), of ?c w] File_io_result
      by (simp add: write_windows_def split_beta Let_def)
  next
    case (Socket_io_result x1 x2 x3 x4)
    let ?c = "WNet (W_WSASend h x2 x3 x4 (ir_self r))"
    show ?thesis
      using os_law_errno [OF assms(1), of ?c w] os_law_bytes [OF assms(1), of ?c w] Socket_io_result
      by (simp add: write_windows_def split_beta Let_def)
  next
    case (Socket_with_addr_io_result x1 x2 x3 x4 x5 x6)
    let ?c = "WNet (W_WSASendTo h x2 x3 x4 (fst x5) x6 (ir_self r))"
    show ?thesis
      using os_law_errno [OF assms(1), of ?c w] os_law_bytes [OF assms(1), of ?c w]
        Socket_with_addr_io_result
      by (simp add: write_windows_def split_beta Let_def)
  qed (use assms(2) in auto)
  with that show thesis by blast
qed

text \<open>A wait ends with an error only when the system refused to cancel the operation.\<close>

definition cancel_refused ::
  "'k kernel \<Rightarrow> ptr \<Rightarrow> int \<Rightarrow> ('k world \<Rightarrow> bool \<times> 'k world) \<Rightarrow> int \<Rightarrow> bool" where
  "cancel_refused K overlapped handle await e \<longleftrightarrow>
     (\<exists>w1 w2. await w1 = (True, w2) \<and> fst (IoResult_cancel K overlapped handle w2) = Inl e)"

lemma wait_io_result_error:
  assumes "os_law K" "wait_io_result K p h await w = (Some e, w')"
  shows "0 < e \<and> cancel_refused K p h await e"
proof -
  obtain w1 where w1: "await w = (True, w1)" "fst (IoResult_cancel K p h w1) = Inl e"
    using assms(2)
    by (auto simp: wait_io_result_def split: prod.splits if_splits sum.splits io_cancellation.splits)
  let ?c = "WNet (W_CancelIoEx h p)"
  have "0 < e"
    using w1(2) os_law_errno [OF assms(1), of ?c w1]
    by (auto simp: IoResult_cancel_def cancel_io_result_def Let_def split_beta split: if_splits)
  with w1 show ?thesis unfolding cancel_refused_def by blast
qed

text \<open>
  Claim C29 (error). Whatever the system answers, however long the operation takes and
  whether or not it is cancelled, an overlapped read or write returns a byte count or raises
  a cancellation or a positive error code of the system, and never aborts the program; the
  end of the file is a read of zero bytes and never an error, whether it is met at once or
  on completion: only a refused cancellation may raise such a code.
\<close>

theorem overlapped_outcome:
  assumes "os_law K" "transfers (ir_body r)"
  shows "(\<exists>res w'. generic_read_windows K h r await w = Some (res, w') \<and>
      (case res of
         Inr n \<Rightarrow> 0 \<le> n
       | Inl (OSError e) \<Rightarrow> 0 < e \<and> (errno_is_read_EOF e \<longrightarrow> cancel_refused K (ir_self r) h await e)
       | Inl Cancelled \<Rightarrow> True)) \<and>
    (\<exists>res w'. generic_write_windows K h r await w = Some (res, w') \<and>
      (case res of Inr n \<Rightarrow> 0 \<le> n | Inl (OSError e) \<Rightarrow> 0 < e | Inl Cancelled \<Rightarrow> True))"
proof
  obtain n w1 where n: "read_windows K h r w = Some (n, w1)" "0 \<le> n \<or> 0 < errno w1"
    using read_windows_outcome [OF assms] by blast
  obtain a w2 where a: "wait_io_result K (ir_self r) h await w1 = (a, w2)" by fastforce
  obtain res w3 where s: "IoResult_status K (ir_self r) h w2 = (res, w3)" by fastforce
  show "\<exists>res w'. generic_read_windows K h r await w = Some (res, w') \<and>
      (case res of
         Inr n \<Rightarrow> 0 \<le> n
       | Inl (OSError e) \<Rightarrow> 0 < e \<and> (errno_is_read_EOF e \<longrightarrow> cancel_refused K (ir_self r) h await e)
       | Inl Cancelled \<Rightarrow> True)"
    using n a s status_outcome [OF assms(1) s] wait_io_result_error [OF assms(1)]
    by (cases a) (auto simp: generic_read_windows_def split: sum.splits io_error.splits)
next
  obtain n w1 where n: "write_windows K h r w = Some (n, w1)" "0 \<le> n \<or> 0 < errno w1"
    using write_windows_outcome [OF assms] by blast
  obtain a w2 where a: "wait_io_result K (ir_self r) h await w1 = (a, w2)" by fastforce
  obtain res w3 where s: "IoResult_status K (ir_self r) h w2 = (res, w3)" by fastforce
  show "\<exists>res w'. generic_write_windows K h r await w = Some (res, w') \<and>
      (case res of Inr n \<Rightarrow> 0 \<le> n | Inl (OSError e) \<Rightarrow> 0 < e | Inl Cancelled \<Rightarrow> True)"
    using n a s status_outcome [OF assms(1) s] wait_io_result_error [OF assms(1)]
    by (cases a) (auto simp: generic_write_windows_def split: sum.splits io_error.splits)
qed

lemmas transfer_simps = generic_read_windows_def generic_write_windows_def read_windows_def write_windows_def
  wait_io_result_def IoResult_cancel_def cancel_io_result_def IoResult_status_def io_result_get_status_def
  lawful_def script_simps answer_law_def errno_is_cancelled_def is_nonblocking_io_error_def
  errno_is_read_EOF_def win_errnos Let_def

text \<open>
  A read that meets the end on completion, and one that is cancelled in vain: the refusal is
  raised after the operation has ended.
\<close>

theorem overlapped_outcome_witness:
  "\<exists>w' w''. generic_read_windows (lawful scripted) 4
      \<lparr>ir_self = 9, ir_offset = (0, 0), ir_event = 1, ir_body = File_io_result 3 (3, 0) 16\<rparr>
      (\<lambda>w. (False, w)) (boot [fail 0 ERROR_IO_PENDING, fail 0 ERROR_BROKEN_PIPE]) = Some (Inr 0, w') \<and>
    generic_read_windows (lawful scripted) 4
      \<lparr>ir_self = 9, ir_offset = (0, 0), ir_event = 1, ir_body = File_io_result 3 (3, 0) 16\<rparr>
      (\<lambda>w. (True, w)) (boot [fail 0 ERROR_IO_PENDING, fail 0 6]) = Some (Inl (OSError 6), w'')"
proof -
  let ?r = "\<lparr>ir_self = 9, ir_offset = (0, 0), ir_event = 1, ir_body = File_io_result 3 (3, 0) 16\<rparr>"
  let ?w = "boot [fail 0 ERROR_IO_PENDING, fail 0 ERROR_BROKEN_PIPE]"
  let ?v = "boot [fail 0 ERROR_IO_PENDING, fail 0 6]"
  obtain res w' where 1: "generic_read_windows (lawful scripted) 4 ?r (\<lambda>w. (False, w)) ?w = Some (res, w')"
    using overlapped_outcome [OF os_law_lawful, of ?r scripted 4 "\<lambda>w. (False, w)" ?w] by auto
  obtain res' w'' where 2: "generic_read_windows (lawful scripted) 4 ?r (\<lambda>w. (True, w)) ?v = Some (res', w'')"
    using overlapped_outcome [OF os_law_lawful, of ?r scripted 4 "\<lambda>w. (True, w)" ?v] by auto
  have "res = Inr 0" using 1 by (simp add: transfer_simps)
  moreover have "res' = Inl (OSError 6)" using 2 by (simp add: transfer_simps)
  ultimately show ?thesis using 1 2 by blast
qed

subsection \<open>Blocks are allocated and freed whole\<close>

lemma make_io_result_log:
  assumes "make_io_result K event body w = Some (r, w')"
  shows "ir_body r = body \<and> ir_event r = event \<and> ir_offset r = (0, 0) \<and>
    heap_got_in (since w w') = [ir_self r] \<and>
    (\<exists>p. since w w' = [(Rt (Malloc (sizeof_io_result body)), p)])"
  using assms
  by (auto simp: make_io_result_def Let_def split_beta world_simps since_def split: if_splits)

lemma decref_all_log: "log (decref_all K ps w) = log w @ since w (decref_all K ps w) \<and>
    dropped_in (since w (decref_all K ps w)) = ps \<and>
    heap_freed_in (since w (decref_all K ps w)) = []"
proof (induction ps arbitrary: w)
  case Nil
  then show ?case by (simp add: since_def)
next
  case (Cons p ps)
  let ?w1 = "sys_do K (Rt (Decref p)) w"
  have "log (decref_all K ps ?w1) =
      log w @ ((Rt (Decref p), a_ret (fst (sys K (Rt (Decref p)) w))) # since ?w1 (decref_all K ps ?w1))"
    using Cons [of ?w1] by (simp add: world_simps)
  from sinceI [OF this] this Cons [of ?w1] show ?case by simp
qed

lemma free_io_result_log:
  "heap_freed_in (since w (free_io_result K r w)) = [ir_self r] \<and>
   dropped_in (since w (free_io_result K r w)) = kept_objects (ir_body r)"
proof -
  let ?w1 = "decref_all K (kept_objects (ir_body r)) w"
  let ?c = "Rt (Free (ir_self r))"
  have "log (free_io_result K r w) = log w @ (since w ?w1 @ [(?c, a_ret (fst (sys K ?c ?w1)))])"
    using decref_all_log [of K "kept_objects (ir_body r)" w]
    by (simp add: free_io_result_def world_simps)
  from sinceI [OF this] decref_all_log [of K "kept_objects (ir_body r)" w] show ?thesis by simp
qed

text \<open>The constructors, each with the references it is given and its direction.\<close>

definition constructors ::
  "'k kernel \<Rightarrow> ptr \<Rightarrow> int \<Rightarrow> int \<Rightarrow> 64 word \<Rightarrow> int \<Rightarrow> sockaddr_obj \<Rightarrow>
   (('k world \<Rightarrow> (io_result \<times> 'k world) option) \<times> ptr list \<times> int) list" where
  "constructors K buf offset len position flags addr =
     [(make_file_read_io_result K buf offset len position, [buf], ReadEvent),
      (make_file_write_io_result K buf offset len position, [buf], WriteEvent),
      (make_socket_read_io_result K buf offset len flags, [buf], ReadEvent),
      (make_socket_write_io_result K buf offset len flags, [buf], WriteEvent),
      (make_socket_with_addr_read_io_result K buf offset len flags addr, [buf, fst addr], ReadEvent),
      (make_socket_with_addr_write_io_result K buf offset len flags addr, [buf, fst addr], WriteEvent),
      (make_connect_io_result K addr, [fst addr], WriteEvent),
      (make_accept_io_result K len, [], ReadEvent),
      (make_read_dir_changes_io_result K buf len, [], ReadEvent)]"

lemmas constructor_defs =
  make_file_read_io_result_def make_file_write_io_result_def make_file_io_result_def
  make_socket_read_io_result_def make_socket_write_io_result_def make_socket_io_result_def
  make_socket_with_addr_read_io_result_def make_socket_with_addr_write_io_result_def
  make_socket_with_addr_io_result_def make_connect_io_result_def make_accept_io_result_def
  make_read_dir_changes_io_result_def

text \<open>A block as \<open>make_io_result\<close> leaves it, but for its position.\<close>

definition made_of ::
  "'k kernel \<Rightarrow> int \<Rightarrow> ptr list \<Rightarrow> 'k world \<Rightarrow> io_result \<Rightarrow> 'k world \<Rightarrow> bool" where
  "made_of K event objects w r w' \<longleftrightarrow>
     (\<exists>body r0 off. make_io_result K event body w = Some (r0, w') \<and>
        kept_objects body = objects \<and> r = r0\<lparr>ir_offset := off\<rparr>)"

lemma made_plain:
  assumes "make_io_result K event body w = Some (r, w')" "kept_objects body = objects"
  shows "made_of K event objects w r w'"
  unfolding made_of_def
  by (rule exI [of _ body], rule exI [of _ r], rule exI [of _ "ir_offset r"]) (simp add: assms)

lemma made_addr:
  "make_io_result K event (Socket_with_addr_io_result buf b len flags addr n) w = Some (r, w') \<Longrightarrow>
   made_of K event [buf, fst addr] w r w'"
  by (erule made_plain) simp

lemma made_file:
  assumes "make_file_io_result K event buf offset len position w = Some (r, w')"
  shows "made_of K event [buf] w r w'"
proof -
  obtain r0 where "make_io_result K event (File_io_result buf (buf, offset) len) w = Some (r0, w')"
    "r = r0\<lparr>ir_offset := (ucast (position AND 0xffffffff), ucast (signed_drop_bit 32 position))\<rparr>"
    using assms by (auto simp: make_file_io_result_def)
  then show ?thesis unfolding made_of_def by (metis kept_objects.simps(1))
qed

lemma constructor_made:
  assumes "(mk, objects, event) \<in> set (constructors K buf offset len position flags addr)"
    and "mk w = Some (r, w')"
  shows "made_of K event objects w r w'"
proof -
  note made = made_plain made_file made_addr
  from assms(1) show ?thesis
    unfolding constructors_def
    using assms(2)
    by (auto simp: constructor_defs(1,2,4-12) split: option.splits intro: made)
qed

text \<open>
  The size of a structure from its fields, as the ABI lays them out: each field at a
  multiple of its own size, the whole a multiple of 8. The header (an \<open>OVERLAPPED\<close> and two
  \<open>int\<close>s) takes 40 bytes; a \<open>WSABUF\<close> is a length and a pointer. The block of an accepted
  connection is followed by two addresses, each 16 bytes longer than the address itself.
\<close>

definition align_to :: "int \<Rightarrow> int \<Rightarrow> int" where
  "align_to a n = - (- n div a) * a"

definition laid_out :: "int list \<Rightarrow> int" where
  "laid_out sizes = align_to 8 (fold (\<lambda>f n. align_to f n + f) sizes 40)"

fun structure_size :: "io_body \<Rightarrow> int" where
  "structure_size (File_io_result _ _ _) = laid_out [8, 8, 4]"
| "structure_size (Socket_io_result _ _ _ _) = laid_out [8, 4, 8, 4]"
| "structure_size (Socket_with_addr_io_result _ _ _ _ _ _) = laid_out [8, 4, 8, 4, 8, 4]"
| "structure_size (Connect_io_result _) = laid_out [8]"
| "structure_size (Accept_io_result addr_len) = laid_out [4, 4] + (addr_len + 16) + (addr_len + 16)"
| "structure_size (Read_dir_changes_io_result _ _) = laid_out [8, 4]"

lemma sizeof_structure: "sizeof_io_result body = structure_size body"
  by (cases body) (simp_all add: laid_out_def align_to_def)

text \<open>
  Claim C30 (safety). Each constructor of an overlapped operation takes one block from the
  heap, of the size of its structure, and records its direction; freeing the result frees
  exactly that block, once, and drops exactly the references the constructor was given.
\<close>

theorem io_result_blocks:
  assumes "(mk, objects, event) \<in> set (constructors K buf offset len position flags addr)"
    and "mk w = Some (r, w')"
  shows "io_result_get_event r = event \<and>
    calls (since w w') = [Rt (Malloc (structure_size (ir_body r)))] \<and>
    heap_got_in (since w w') = [ir_self r] \<and>
    heap_freed_in (since v (free_io_result K r v)) = [ir_self r] \<and>
    dropped_in (since v (free_io_result K r v)) = objects"
proof -
  obtain body r0 off where m: "make_io_result K event body w = Some (r0, w')"
    "kept_objects body = objects" "r = r0\<lparr>ir_offset := off\<rparr>"
    using constructor_made [OF assms] unfolding made_of_def by blast
  then show ?thesis
    using make_io_result_log [OF m(1)] free_io_result_log [of v K r]
    by (auto simp: io_result_get_event_def simp flip: sizeof_structure)
qed

theorem io_result_blocks_witness:
  "\<exists>r w'. make_connect_io_result scripted (7, []) (boot [ok 64]) = Some (r, w') \<and>
    heap_freed_in (since w' (free_io_result scripted r w')) = [64] \<and>
    dropped_in (since w' (free_io_result scripted r w')) = [7]"
proof -
  obtain r w' where m: "make_connect_io_result scripted (7, []) (boot [ok 64]) = Some (r, w')"
    "ir_self r = 64"
    by (simp add: make_connect_io_result_def make_io_result_def script_simps)
  have "(make_connect_io_result scripted (7, []), [7], WriteEvent)
      \<in> set (constructors scripted 0 0 0 0 0 (7, []))"
    by (simp add: constructors_def)
  from io_result_blocks [OF this m(1), of w'] m show ?thesis by auto
qed

subsection \<open>Positions and addresses\<close>

text \<open>The two halves of a position are the position.\<close>

lemma position_halves:
  fixes position :: "64 word"
  shows "(word_cat (ucast (signed_drop_bit 32 position) :: 32 word)
           (ucast (position AND 0xffffffff) :: 32 word) :: 64 word) = position"
proof -
  have m: "(0xffffffff :: 64 word) = mask 32" by (simp add: mask_eq_exp_minus_1)
  show ?thesis unfolding m by (rule bit_word_eqI) (auto simp: bit_simps)
qed

text \<open>
  Accepting a connection stays inside its block: the two address
  lengths \<open>AcceptEx\<close> is given fill the block after its header, and the address of the peer
  is the second of them, copied whole into the object of the caller.
\<close>

lemma accept_in_bounds:
  assumes "make_accept_io_result K (int n) w = Some (r, w')"
    and "length block = nat (sizeof_io_result (ir_body r))" "length dst = n"
  shows "get_accept_peer_addr r block dst = Some (slice block (48 + (n + 16)) n) \<and>
    (\<exists>k w2. accept_windows K h c r v = Some (k, w2) \<and>
      (\<forall>h' c' l1 l2 p k'. (WNet (W_AcceptEx h' c' l1 l2 p), k') \<in> set (since v w2) \<longrightarrow>
         h' = h \<and> c' = c \<and> 48 + l1 + l2 = sizeof_io_result (ir_body r) \<and> l2 = int n + 16 \<and>
         p = ir_self r))"
proof -
  have b: "ir_body r = Accept_io_result (int n)"
    using make_io_result_log [OF assms(1) [unfolded make_accept_io_result_def]] by simp
  have n: "nat (int n + 16) = n + 16" by linarith
  have l: "length block = 80 + 2 * n" using assms(2) b by simp
  have "get_accept_peer_addr r block dst = Some (slice block (48 + (n + 16)) n)"
    using l assms(3) by (simp add: get_accept_peer_addr_def b n memcpy_def blit_def)
  moreover have "\<exists>k w2. accept_windows K h c r v = Some (k, w2) \<and>
      (\<forall>h' c' l1 l2 p k'. (WNet (W_AcceptEx h' c' l1 l2 p), k') \<in> set (since v w2) \<longrightarrow>
         h' = h \<and> c' = c \<and> 48 + l1 + l2 = sizeof_io_result (ir_body r) \<and> l2 = int n + 16 \<and>
         p = ir_self r)"
    by (simp add: accept_windows_def b get_WSA_extension_def Let_def split_beta world_simps since_def)
  ultimately show ?thesis by blast
qed

subsection \<open>The life of a block\<close>

lemma cancellation_cases:
  "cancellation refused at_once True =
     (if refused then (Inl ERROR_ACCESS_DENIED, True)
      else if at_once then (Inr NoWait, False) else (Inr NeedWait, True))"
  "cancellation refused at_once False = (Inr NoWait, False)"
  by (simp_all add: cancellation_def IoResult_cancel_def cancel_io_result_def op_kernel_def
      script_simps win_errnos Let_def)

text \<open>
  The operations the system still knows: those that run and those with a packet. While no
  block was freed too early, each such operation has its block, and the coroutine of a
  direction waits for exactly the block of that direction.
\<close>

definition known_ops :: "overlapped \<Rightarrow> ptr list" where
  "known_ops s = ov_running s @ ov_packets s"

definition blocks_safe :: "overlapped \<Rightarrow> bool" where
  "blocks_safe s \<longleftrightarrow> (\<forall>p \<in> set (known_ops s). ov_block s p \<noteq> None) \<and> \<not> ov_touched s"

fun is_woken :: "wait_phase \<Rightarrow> bool" where
  "is_woken (Woken _) = True"
| "is_woken _ = False"

definition waits_for :: "overlapped \<Rightarrow> int \<Rightarrow> bool" where
  "waits_for s e \<longleftrightarrow>
     (case ov_waiter s e of
        None \<Rightarrow> \<forall>p. ov_block s p \<noteq> Some e
      | Some (q, ph) \<Rightarrow>
          (\<forall>p. ov_block s p = Some e \<longleftrightarrow> p = q) \<and> (q \<in> set (known_ops s) \<longleftrightarrow> \<not> is_woken ph))"

definition ov_inv :: "overlapped \<Rightarrow> bool" where
  "ov_inv s \<longleftrightarrow> blocks_safe s \<and> distinct (known_ops s) \<and> (\<forall>e. waits_for s e)"

lemma ov_invD:
  assumes "ov_inv s"
  shows "p \<in> set (known_ops s) \<Longrightarrow> \<exists>e. ov_block s p = Some e" "\<not> ov_touched s"
    "distinct (known_ops s)"
    "ov_waiter s e = None \<Longrightarrow> ov_block s p \<noteq> Some e"
    "ov_waiter s e = Some (q, ph) \<Longrightarrow> ov_block s p = Some e \<longleftrightarrow> p = q"
    "ov_waiter s e = Some (q, ph) \<Longrightarrow> q \<in> set (known_ops s) \<longleftrightarrow> \<not> is_woken ph"
proof -
  have "waits_for s e" using assms by (simp add: ov_inv_def)
  then show "ov_waiter s e = None \<Longrightarrow> ov_block s p \<noteq> Some e"
    "ov_waiter s e = Some (q, ph) \<Longrightarrow> ov_block s p = Some e \<longleftrightarrow> p = q"
    "ov_waiter s e = Some (q, ph) \<Longrightarrow> q \<in> set (known_ops s) \<longleftrightarrow> \<not> is_woken ph"
    unfolding waits_for_def by (auto split: option.splits)
qed (use assms in \<open>auto simp: ov_inv_def blocks_safe_def\<close>)

lemma end_operation_inv:
  assumes "ov_inv s" "p \<in> set (ov_running s)"
  shows "ov_inv (end_operation p s)"
proof -
  have k: "set (known_ops (end_operation p s)) = set (known_ops s)"
    using assms(2) by (auto simp: known_ops_def end_operation_def)
  have f: "ov_block (end_operation p s) = ov_block s" "ov_waiter (end_operation p s) = ov_waiter s"
    "ov_touched (end_operation p s) = ov_touched s"
    by (simp_all add: end_operation_def)
  have "distinct (known_ops (end_operation p s))"
    using ov_invD(3) [OF assms(1)] assms(2)
    by (auto simp: known_ops_def end_operation_def distinct_removeAll)
  moreover have "waits_for (end_operation p s) e = waits_for s e" for e
    by (simp add: waits_for_def f k cong: option.case_cong)
  ultimately show ?thesis
    using assms(1) by (simp add: ov_inv_def blocks_safe_def f k)
qed

lemma leave_inv:
  assumes "ov_inv s" "ov_waiter s e = Some (p, ph)" "p \<notin> set (known_ops s)"
  shows "ov_inv (leave e p s)"
proof -
  note d = ov_invD [OF assms(1)]
  have f: "known_ops (leave e p s) = known_ops s" "ov_touched (leave e p s) = ov_touched s"
    by (simp_all add: known_ops_def leave_def)
  have g: "ov_block (leave e p s) q = (if q = p then None else ov_block s q)"
    "ov_waiter (leave e p s) e' = (if e' = e then None else ov_waiter s e')" for q e'
    by (simp_all add: leave_def)
  have own: "ov_block s q = Some e \<longleftrightarrow> q = p" for q using d(5) [OF assms(2)] .
  have "waits_for (leave e p s) e'" for e'
  proof (cases "e' = e")
    case True
    then show ?thesis using own by (auto simp: waits_for_def leave_def)
  next
    case False
    have "waits_for s e'" using assms(1) by (simp add: ov_inv_def)
    moreover have "ov_waiter s e' = Some (q, ph) \<Longrightarrow> q \<noteq> p" for q ph
      using d(5) [of e' q ph q] own [of p] False by auto
    ultimately show ?thesis
      using False own by (auto simp: waits_for_def g f split: option.splits)
  qed
  with assms d(1,2,3) show ?thesis
    by (auto simp: ov_inv_def blocks_safe_def f g)
qed

lemma start_inv:
  assumes "ov_inv s" "ov_waiter s e = None" "ov_block s p = None"
  shows "ov_inv (s\<lparr>ov_block := (ov_block s)(p \<mapsto> e), ov_running := p # ov_running s,
                  ov_waiter := (ov_waiter s)(e \<mapsto> (p, Suspended))\<rparr>)" (is "ov_inv ?t")
proof -
  note d = ov_invD [OF assms(1)]
  have new: "p \<notin> set (known_ops s)" using d(1) [of p] assms(3) by auto
  have k: "known_ops ?t = p # known_ops s" by (simp add: known_ops_def)
  have none: "ov_block s q \<noteq> Some e" for q using d(4) [OF assms(2)] .
  have "waits_for ?t e'" for e'
  proof (cases "e' = e")
    case True
    then show ?thesis using none by (auto simp: waits_for_def k)
  next
    case False
    have w: "waits_for s e'" using assms(1) by (simp add: ov_inv_def)
    have "ov_waiter s e' = Some (q, ph) \<Longrightarrow> q \<noteq> p" for q ph
      using d(5) [of e' q ph q] assms(3) by auto
    with False w assms(3) show ?thesis
      by (auto simp: waits_for_def k split: option.splits if_splits)
  qed
  with assms d(1,2,3) new show ?thesis by (auto simp: ov_inv_def blocks_safe_def k)
qed

lemma poll_inv:
  assumes "ov_inv s" "ov_packets s = p # ps" "ov_block s p = Some e"
  shows "ov_inv (wake_waiter e (s\<lparr>ov_packets := ps\<rparr>))"
proof -
  define t where "t = wake_waiter e (s\<lparr>ov_packets := ps\<rparr>)"
  note d = ov_invD [OF assms(1)]
  have f: "ov_block t = ov_block s" "ov_touched t = ov_touched s"
    "ov_waiter t e' = (if e' = e then map_option (apsnd phase_woken) (ov_waiter s e) else ov_waiter s e')" for e'
    by (simp_all add: t_def wake_waiter_def)
  have k: "set (known_ops t) = set (known_ops s) - {p}" "distinct (known_ops t)"
    using d(3) assms(2) by (auto simp: known_ops_def wake_waiter_def t_def)
  have w: "waits_for s e'" for e' using assms(1) by (simp add: ov_inv_def)
  obtain ph where e: "ov_waiter s e = Some (p, ph)"
    using w [of e] assms(3) by (auto simp: waits_for_def split: option.splits)
  have wk: "is_woken (phase_woken x)" for x by (cases x) auto
  have "waits_for t e'" for e'
  proof (cases "e' = e")
    case True
    then show ?thesis
      using w [of e] e wk by (auto simp: waits_for_def k(1) f)
  next
    case False
    then have "ov_waiter s e' = Some (q, ph) \<Longrightarrow> q \<noteq> p" for q ph
      using d(5) [of e' q ph p] assms(3) by auto
    with False w [of e'] show ?thesis
      by (auto simp: waits_for_def k(1) f split: option.splits)
  qed
  with d(1,2) k show ?thesis unfolding t_def [symmetric] by (auto simp: ov_inv_def blocks_safe_def f)
qed

text \<open>A waiter is given a new phase that still waits for its operation.\<close>

lemma drain_inv:
  assumes "ov_inv s" "ov_waiter s e = Some (p, ph)" "p \<in> set (known_ops s)"
  shows "ov_inv (s\<lparr>ov_waiter := (ov_waiter s)(e := Some (p, Draining))\<rparr>)" (is "ov_inv ?t")
proof -
  note d = ov_invD [OF assms(1)]
  have k: "known_ops ?t = known_ops s" by (simp add: known_ops_def)
  have "waits_for ?t e'" for e'
  proof (cases "e' = e")
    case True
    then show ?thesis using d(5) [OF assms(2)] assms(3) by (auto simp: waits_for_def k)
  next
    case False
    have "waits_for s e'" using assms(1) by (simp add: ov_inv_def)
    with False show ?thesis by (auto simp: waits_for_def k split: option.splits)
  qed
  with d(1,2,3) show ?thesis by (auto simp: ov_inv_def blocks_safe_def k)
qed

text \<open>A cancellation keeps the blocks safe, or frees a block whose packet is in the queue.\<close>

lemma cancel_step_inv:
  assumes "ov_inv s" "ov_waiter s e = Some (p, ph)"
  shows "ov_raced (cancel_step refused at_once e p s) \<or> ov_inv (cancel_step refused at_once e p s)"
proof (cases "p \<in> set (ov_running s)")
  case True
  then have k: "p \<in> set (known_ops s)" by (simp add: known_ops_def)
  consider (ended) "cancel_step refused at_once e p s = leave e p (end_operation p s)"
    | (drains) "cancel_step refused at_once e p s = s\<lparr>ov_waiter := (ov_waiter s)(e := Some (p, Draining))\<rparr>"
    using True by (cases refused; cases at_once) (simp_all add: cancel_step_def cancellation_cases Let_def)
  then show ?thesis
  proof cases
    case ended
    then show ?thesis by (simp add: leave_def end_operation_def)
  next
    case drains
    then show ?thesis using drain_inv [OF assms k] by simp
  qed
next
  case False
  then have c: "cancel_step refused at_once e p s = leave e p s"
    by (simp add: cancel_step_def cancellation_cases Let_def)
  show ?thesis
  proof (cases "p \<in> set (ov_packets s)")
    case True
    then show ?thesis by (simp add: c leave_def)
  next
    case False
    with \<open>p \<notin> set (ov_running s)\<close> have "p \<notin> set (known_ops s)" by (simp add: known_ops_def)
    from leave_inv [OF assms this] show ?thesis by (simp add: c)
  qed
qed

lemma raced_stays: "ov_step s s' \<Longrightarrow> ov_raced s \<Longrightarrow> ov_raced s'"
  by (induction rule: ov_step.induct)
     (auto simp: end_operation_def wake_waiter_def leave_def cancel_step_def Let_def split_beta)

lemma ov_step_inv:
  assumes "ov_step s s'" "ov_inv s"
  shows "ov_raced s' \<or> ov_inv s'"
  using assms
proof (induction rule: ov_step.induct)
  case (start e s p)
  then show ?case using start_inv by blast
next
  case (complete p s)
  then show ?case using end_operation_inv by blast
next
  case (poll s p ps e)
  then show ?case using poll_inv by blast
next
  case (poll_freed s p ps e)
  then show ?case using ov_invD(1) [of s p] by (auto simp: known_ops_def)
next
  case (resume s e p shielded)
  then show ?case using leave_inv [of s e p] ov_invD(6) [of s e p] by (metis is_woken.simps(1))
next
  case (cancel s e p ph refused at_once)
  then show ?case using cancel_step_inv by blast
qed

lemma ov_reachable_inv: "ov_reachable s \<Longrightarrow> ov_raced s \<or> ov_inv s"
proof (induction rule: ov_reachable.induct)
  case init
  then show ?case
    by (simp add: no_blocks_def ov_inv_def blocks_safe_def known_ops_def waits_for_def)
next
  case (more s s')
  then show ?case using ov_step_inv raced_stays by blast
qed

text \<open>
  The race: a cancellation that takes effect at once leaves a packet for a block that is
  freed; the next poll reads the freed block, and when another operation of the direction
  waits by then it is woken by that packet and frees its own block while it still runs.
\<close>

lemma cancel_race:
  "\<exists>s p. ov_reachable s \<and> ov_touched s \<and> p \<in> set (ov_running s) \<and> ov_block s p = None"
proof -
  define s1 where "s1 = no_blocks\<lparr>ov_block := (ov_block no_blocks)(1 \<mapsto> ReadEvent),
    ov_running := 1 # ov_running no_blocks, ov_waiter := (ov_waiter no_blocks)(ReadEvent \<mapsto> (1, Suspended))\<rparr>"
  define s2 where "s2 = cancel_step False True ReadEvent 1 s1"
  define s3 where "s3 = s2\<lparr>ov_block := (ov_block s2)(2 \<mapsto> ReadEvent),
    ov_running := 2 # ov_running s2, ov_waiter := (ov_waiter s2)(ReadEvent \<mapsto> (2, Suspended))\<rparr>"
  define s4 where "s4 = wake_waiter ReadEvent (s3\<lparr>ov_packets := [], ov_touched := True\<rparr>)"
  define s5 where "s5 = leave ReadEvent 2 s4"
  have f2: "ov_block s2 = (\<lambda>_. None)" "ov_running s2 = []" "ov_packets s2 = [1]"
    "ov_waiter s2 = (\<lambda>_. None)"
    by (auto simp: s2_def s1_def cancel_step_def cancellation_cases end_operation_def leave_def
        no_blocks_def Let_def)
  have f3: "ov_block s3 1 = None" "ov_running s3 = [2]" "ov_packets s3 = [1]"
    "ov_waiter s3 ReadEvent = Some (2, Suspended)"
    by (simp_all add: s3_def f2)
  have "ov_reachable s1"
    unfolding s1_def by (rule more [OF init start]) (simp_all add: no_blocks_def)
  then have "ov_reachable s2"
    unfolding s2_def by (rule more) (rule cancel [where ph = Suspended], simp_all add: s1_def)
  then have "ov_reachable s3"
    unfolding s3_def by (rule more) (rule start, simp_all add: f2)
  then have "ov_reachable s4"
    unfolding s4_def by (rule more) (rule poll_freed, rule f3(3), rule f3(1))
  then have "ov_reachable s5"
    unfolding s5_def by (rule more) (rule resume [where shielded = False], simp add: s4_def wake_waiter_def f3)
  moreover have "ov_touched s5" "2 \<in> set (ov_running s5)" "ov_block s5 2 = None"
    by (simp_all add: s5_def s4_def leave_def wake_waiter_def f3)
  ultimately show ?thesis by blast
qed

text \<open>
  Claim C8 (invariant). Whatever operations are started, completed, polled and cancelled on
  a handle, every operation the system still knows has its block, the event loop reads no
  freed block, and each direction's coroutine waits for its own block and runs only when the
  system is done with it; unless a cancellation found its operation already ended with the
  packet still in the queue and freed the block all the same, which does happen.
\<close>

theorem overlapped_blocks_live:
  "(\<forall>s. ov_reachable s \<longrightarrow> ov_raced s \<or>
      (\<forall>p \<in> set (ov_running s) \<union> set (ov_packets s). ov_block s p \<noteq> None) \<and> \<not> ov_touched s \<and>
      (\<forall>e p ph. ov_waiter s e = Some (p, ph) \<longrightarrow> ov_block s p = Some e \<and>
         (is_woken ph \<longrightarrow> p \<notin> set (ov_running s) \<union> set (ov_packets s)))) \<and>
   (\<exists>s p. ov_reachable s \<and> ov_touched s \<and> p \<in> set (ov_running s) \<and> ov_block s p = None)"
proof (intro conjI allI impI)
  fix s assume "ov_reachable s"
  then consider "ov_raced s" | "ov_inv s" using ov_reachable_inv by blast
  then show "ov_raced s \<or>
      (\<forall>p \<in> set (ov_running s) \<union> set (ov_packets s). ov_block s p \<noteq> None) \<and> \<not> ov_touched s \<and>
      (\<forall>e p ph. ov_waiter s e = Some (p, ph) \<longrightarrow> ov_block s p = Some e \<and>
         (is_woken ph \<longrightarrow> p \<notin> set (ov_running s) \<union> set (ov_packets s)))"
  proof cases
    case 2
    note d = ov_invD [OF this, unfolded known_ops_def set_append]
    from d(1,2,5,6) show ?thesis by (metis option.distinct(1))
  qed simp
qed (rule cancel_race)

theorem overlapped_blocks_live_witness:
  "let s = no_blocks\<lparr>ov_block := [7 \<mapsto> ReadEvent], ov_running := [7], ov_waiter := [ReadEvent \<mapsto> (7, Suspended)]\<rparr>
   in ov_reachable s \<and> \<not> ov_raced s \<and> ov_block s 7 \<noteq> None"
proof -
  let ?s = "no_blocks\<lparr>ov_block := [7 \<mapsto> ReadEvent], ov_running := [7], ov_waiter := [ReadEvent \<mapsto> (7, Suspended)]\<rparr>"
  have "ov_reachable ?s"
    using more [OF init start [of ReadEvent no_blocks 7]] by (simp add: no_blocks_def)
  moreover have "\<not> ov_raced ?s" by (simp add: no_blocks_def)
  moreover have "7 \<in> set (ov_running ?s)" by simp
  ultimately show ?thesis
    using overlapped_blocks_live [THEN conjunct1, THEN spec, THEN mp, of ?s]
    unfolding Let_def by blast
qed

end
