(* ===== verification/Process_Env.thy ===== *)
theory Process_Env
  imports Jobs_Process Byte_Fields
begin

text \<open>
  What a child process is started with (\<open>process/unix.c\<close>, \<open>process/windows.c\<close> and the
  \<open>raw_spawn\<close> functions that call them): the environment block, the argument array and
  the Windows command line. A cell of a block that was allocated and not yet written is
  \<open>None\<close>; reading or writing outside a block, or through a failed \<open>malloc\<close>, is \<open>None\<close>.
\<close>

section \<open>Environment and arguments, Unix\<close>

text \<open>\<open>char **\<close>: the pointers of the array, 0 is \<open>NULL\<close>.\<close>

fun env_block_length_unix :: "ptr list \<Rightarrow> nat option" where
  "env_block_length_unix [] = None"
| "env_block_length_unix (p # ps) = (if p = 0 then Some 0 else map_option Suc (env_block_length_unix ps))"

text \<open>\<open>malloc((size + 1) * sizeof(char*))\<close>, with the last cell cleared.\<close>

definition allocate_block :: "int \<Rightarrow> 'k kernel \<Rightarrow> nat \<Rightarrow> 'k world \<Rightarrow> (ptr option list \<times> 'k world) option" where
  "allocate_block cell_size K count w =
     (let (a, w) = sys K (Rt (Malloc (int (count + 1) * cell_size))) w
      in if a_ret a = 0 then None else Some (replicate count None @ [Some 0], w))"

definition allocate_env_block_unix :: "'k kernel \<Rightarrow> nat \<Rightarrow> 'k world \<Rightarrow> (ptr option list \<times> 'k world) option" where
  "allocate_env_block_unix K = allocate_block 8 K"

definition make_argv_array :: "'k kernel \<Rightarrow> nat \<Rightarrow> 'k world \<Rightarrow> (ptr option list \<times> 'k world) option" where
  "make_argv_array K = allocate_block 8 K"

text \<open>The loop from index \<open>i\<close>; \<open>env_block\<close> is what it has left to read.\<close>

fun write_env_block_unix :: "ptr option list \<Rightarrow> nat \<Rightarrow> ptr list \<Rightarrow> ptr option list option" where
  "write_env_block_unix dst i [] = None"
| "write_env_block_unix dst i (p # env_block) =
     (if p = 0 then Some dst
      else case poke dst i [Some p] of
             None \<Rightarrow> None
           | Some dst \<Rightarrow> write_env_block_unix dst (Suc i) env_block)"

text \<open>
  \<open>encode\<close> is the encoder of the MoonBit runtime (\<open>moonbit_utf8_encode_from_utf16\<close>), whose
  result has the length \<open>moonbit_utf8_len_from_utf16\<close> gives. A new string is its pointer
  and its bytes.
\<close>

type_synonym utf8_encoder = "wchar list \<Rightarrow> byte list"

definition new_string ::
  "'k kernel \<Rightarrow> ptr option list \<Rightarrow> nat \<Rightarrow> byte list \<Rightarrow> 'k world \<Rightarrow>
   (ptr option list \<times> (ptr \<times> byte list) \<times> 'k world) option" where
  "new_string K cells index text_bytes w =
     (let (a, w) = sys K (Rt (Malloc (int (length text_bytes)))) w;
          entry = nat (a_ret a)
      in if a_ret a = 0 then None
         else map_option (\<lambda>cells. (cells, (entry, text_bytes), w)) (poke cells index [Some entry]))"

definition env_block_add_entry_unix ::
  "utf8_encoder \<Rightarrow> 'k kernel \<Rightarrow> ptr option list \<Rightarrow> nat \<Rightarrow> wchar list \<Rightarrow> wchar list \<Rightarrow> 'k world \<Rightarrow>
   (ptr option list \<times> (ptr \<times> byte list) \<times> 'k world) option" where
  "env_block_add_entry_unix encode K env_block index key val w =
     new_string K env_block index (encode key @ [61] @ encode val @ [0]) w"

definition argv_array_add_entry ::
  "utf8_encoder \<Rightarrow> 'k kernel \<Rightarrow> ptr option list \<Rightarrow> nat \<Rightarrow> wchar list \<Rightarrow> 'k world \<Rightarrow>
   (ptr option list \<times> (ptr \<times> byte list) \<times> 'k world) option" where
  "argv_array_add_entry encode K argv offset arg w = new_string K argv offset (encode arg @ [0]) w"

text \<open>\<open>arg\<close> is the memory of the encoded argument, which ends in a zero byte.\<close>

definition argv_array_add_encoded_entry ::
  "'k kernel \<Rightarrow> ptr option list \<Rightarrow> nat \<Rightarrow> byte list \<Rightarrow> nat \<Rightarrow> 'k world \<Rightarrow>
   (ptr option list \<times> (ptr \<times> byte list) \<times> 'k world) option" where
  "argv_array_add_encoded_entry K argv offset arg arg_len w =
     (case rd arg 0 (arg_len + 1) of
        None \<Rightarrow> None
      | Some entry \<Rightarrow> new_string K argv offset entry w)"

text \<open>The loops of \<open>raw_spawn\<close> over the extra variables and over the arguments.\<close>

fun add_strings ::
  "('a \<Rightarrow> ptr option list \<Rightarrow> nat \<Rightarrow> 'k world \<Rightarrow> (ptr option list \<times> (ptr \<times> byte list) \<times> 'k world) option) \<Rightarrow>
   'a list \<Rightarrow> ptr option list \<Rightarrow> nat \<Rightarrow> 'k world \<Rightarrow>
   (ptr option list \<times> (ptr \<times> byte list) list \<times> 'k world) option" where
  "add_strings add [] cells i w = Some (cells, [], w)"
| "add_strings add (x # xs) cells i w =
     (case add x cells i w of
        None \<Rightarrow> None
      | Some (cells, entry, w) \<Rightarrow>
          map_option (\<lambda>(cells, entries, w). (cells, entry # entries, w))
            (add_strings add xs cells (i + 1) w))"

definition spawn_env_unix ::
  "utf8_encoder \<Rightarrow> 'k kernel \<Rightarrow> ptr list option \<Rightarrow> (wchar list \<times> wchar list) list \<Rightarrow> 'k world \<Rightarrow>
   ((ptr option list \<times> nat) \<times> (ptr \<times> byte list) list \<times> 'k world) option" where
  "spawn_env_unix encode K inherited extra_env w =
     (case (case inherited of
              None \<Rightarrow> map_option (\<lambda>(env, w). (env, 0, w)) (allocate_env_block_unix K (length extra_env) w)
            | Some curr_env \<Rightarrow>
                (case env_block_length_unix curr_env of
                   None \<Rightarrow> None
                 | Some curr_len \<Rightarrow>
                     (case allocate_env_block_unix K (curr_len + length extra_env) w of
                        None \<Rightarrow> None
                      | Some (env, w) \<Rightarrow>
                          map_option (\<lambda>env. (env, curr_len, w)) (write_env_block_unix env 0 curr_env)))) of
        None \<Rightarrow> None
      | Some (env, n, w) \<Rightarrow>
          map_option (\<lambda>(env, entries, w). ((env, n), entries, w))
            (add_strings (\<lambda>(k, v) env i. env_block_add_entry_unix encode K env i k v) extra_env env n w))"

definition spawn_argv_unix ::
  "utf8_encoder \<Rightarrow> 'k kernel \<Rightarrow> byte list \<Rightarrow> wchar list list \<Rightarrow> 'k world \<Rightarrow>
   (ptr option list \<times> (ptr \<times> byte list) list \<times> 'k world) option" where
  "spawn_argv_unix encode K cmd args w =
     (case make_argv_array K (length args + 1) w of
        None \<Rightarrow> None
      | Some (argv, w) \<Rightarrow>
          (case argv_array_add_encoded_entry K argv 0 (cmd @ [0]) (length cmd) w of
             None \<Rightarrow> None
           | Some (argv, entry, w) \<Rightarrow>
               map_option (\<lambda>(argv, entries, w). (argv, entry # entries, w))
                 (add_strings (\<lambda>arg argv i. argv_array_add_entry encode K argv i arg) args argv 1 w)))"

section \<open>Environment, Windows\<close>

text \<open>The length of the zero-terminated string at the cursor: the inner \<open>while\<close> loops.\<close>

fun block_len :: "wchar list \<Rightarrow> nat option" where
  "block_len [] = None"
| "block_len (c # cs) = (if c = 0 then Some 0 else map_option Suc (block_len cs))"

lemma block_len_bound: "block_len cs = Some n \<Longrightarrow> n < length cs"
  by (induction cs arbitrary: n) (auto split: if_splits)

lemma block_len_hd: "block_len cs = Some n \<Longrightarrow> cs \<noteq> []"
  by (cases cs) auto

lemma drop_Cons_length: "drop n xs = y # ys \<Longrightarrow> length xs = n + Suc (length ys)"
  by (drule arg_cong [where f = length]) simp

text \<open>The outer loop from the cursor on, which skips the entries that begin with \<open>=\<close>.\<close>

function env_block_length_win :: "wchar list \<Rightarrow> nat option" where
  "env_block_length_win cursor =
     (case block_len cursor of
        None \<Rightarrow> None
      | Some n \<Rightarrow>
          let len = (if hd cursor = 61 then 0 else n + 1);
              cursor = drop (n + 1) cursor
          in (case cursor of
                [] \<Rightarrow> None
              | c # _ \<Rightarrow>
                  if c = 0 then Some len
                  else map_option (\<lambda>rest. len + rest) (env_block_length_win cursor)))"
  by auto
termination
  by (relation "measure length") (auto dest: block_len_bound)

definition allocate_env_block_win ::
  "'k kernel \<Rightarrow> nat \<Rightarrow> 'k world \<Rightarrow> (wchar option list \<times> 'k world) option" where
  "allocate_env_block_win K count w =
     (let (a, w) = sys K (Rt (Malloc (int (count + 1) * 2))) w
      in if a_ret a = 0 then None else Some (replicate count None @ [Some 0], w))"

definition get_curr_env_win :: "'k kernel \<Rightarrow> 'k world \<Rightarrow> ptr \<times> 'k world" where
  "get_curr_env_win K w =
     (let (a, w) = sys K (WProc W_GetEnvironmentStrings) w in (nat (a_ret a), w))"

definition free_env_block :: "'k kernel \<Rightarrow> ptr \<Rightarrow> 'k world \<Rightarrow> 'k world" where
  "free_env_block K env_block w = sys_do K (WProc (W_FreeEnvironmentStrings env_block)) w"

function write_env_block_win :: "wchar option list \<Rightarrow> nat \<Rightarrow> wchar list \<Rightarrow> wchar option list option" where
  "write_env_block_win dst dst_offset cursor =
     (case block_len cursor of
        None \<Rightarrow> None
      | Some n \<Rightarrow>
          (case (if hd cursor = 61 then Some (dst, dst_offset)
                 else map_option (\<lambda>dst. (dst, dst_offset + n + 1))
                        (poke dst dst_offset (map Some (take (n + 1) cursor)))) of
             None \<Rightarrow> None
           | Some (dst, dst_offset) \<Rightarrow>
               (case drop (n + 1) cursor of
                  [] \<Rightarrow> None
                | c # _ \<Rightarrow>
                    if c = 0 then Some dst
                    else write_env_block_win dst dst_offset (drop (n + 1) cursor))))"
  by auto
termination
  by (relation "measure (\<lambda>(_, _, cursor). length cursor)") (auto dest!: drop_Cons_length)

declare env_block_length_win.simps [simp del] write_env_block_win.simps [simp del]

definition env_block_add_entry_win ::
  "wchar option list \<Rightarrow> nat \<Rightarrow> wchar list \<Rightarrow> wchar list \<Rightarrow> wchar option list option" where
  "env_block_add_entry_win env_block offset key val =
     Option.bind (poke env_block offset (map Some key)) (\<lambda>b.
     Option.bind (poke b (offset + length key) [Some 61]) (\<lambda>b.
     Option.bind (poke b (offset + length key + 1) (map Some val)) (\<lambda>b.
     poke b (offset + length key + 1 + length val) [Some 0])))"

fun add_variables ::
  "wchar option list \<Rightarrow> nat \<Rightarrow> (wchar list \<times> wchar list) list \<Rightarrow> wchar option list option" where
  "add_variables env offset [] = Some env"
| "add_variables env offset ((k, v) # extra_env) =
     Option.bind (env_block_add_entry_win env offset k v)
       (\<lambda>env. add_variables env (offset + length k + length v + 2) extra_env)"

definition extra_env_len :: "(wchar list \<times> wchar list) list \<Rightarrow> nat" where
  "extra_env_len extra_env = foldl (\<lambda>acc (k, v). acc + length k + length v + 2) 0 extra_env"

definition spawn_env_win ::
  "'k kernel \<Rightarrow> wchar list option \<Rightarrow> (wchar list \<times> wchar list) list \<Rightarrow> 'k world \<Rightarrow>
   (wchar option list \<times> 'k world) option" where
  "spawn_env_win K inherited extra_env w =
     (case (case inherited of
              None \<Rightarrow> map_option (\<lambda>(env, w). (env, 0, w)) (allocate_env_block_win K (extra_env_len extra_env) w)
            | Some curr_env \<Rightarrow>
                (case env_block_length_win curr_env of
                   None \<Rightarrow> None
                 | Some curr_len \<Rightarrow>
                     (case allocate_env_block_win K (curr_len + extra_env_len extra_env) w of
                        None \<Rightarrow> None
                      | Some (env, w) \<Rightarrow>
                          map_option (\<lambda>env. (env, curr_len, w)) (write_env_block_win env 0 curr_env)))) of
        None \<Rightarrow> None
      | Some (env, offset, w) \<Rightarrow> map_option (\<lambda>env. (env, w)) (add_variables env offset extra_env))"

section \<open>Command line, Windows\<close>

text \<open>
  \<open>write_arg_with_windows_escape\<close>. \<open>flush\<close> writes the characters from \<open>segment_start\<close>
  up to the trailing backslashes, and these doubled; a slice whose end is before its start
  aborts the program (\<open>None\<close>).
\<close>

definition flush_segment ::
  "wchar list \<Rightarrow> nat \<Rightarrow> nat \<Rightarrow> nat \<Rightarrow> nat \<Rightarrow> wchar list \<Rightarrow> (nat \<times> wchar list) option" where
  "flush_segment arg skip segment_start index trailing_backslash out =
     (if segment_start < index
      then if segment_start + trailing_backslash \<le> index
           then Some (index + skip,
                  out @ slice arg segment_start (index - trailing_backslash - segment_start)
                    @ replicate (trailing_backslash * 2) 92)
           else None
      else Some (index + skip, out))"

text \<open>The loop at \<open>index\<close>, with the characters from there on.\<close>

fun escape_loop ::
  "wchar list \<Rightarrow> wchar list \<Rightarrow> nat \<Rightarrow> nat \<Rightarrow> nat \<Rightarrow> wchar list \<Rightarrow> wchar list option" where
  "escape_loop arg [] segment_start index trailing out =
     map_option (\<lambda>(_, out). out @ [34]) (flush_segment arg 0 segment_start index trailing out)"
| "escape_loop arg (c # cs) segment_start index trailing out =
     (if c = 34
      then (case flush_segment arg 1 segment_start index trailing out of
              None \<Rightarrow> None
            | Some (segment_start, out) \<Rightarrow>
                escape_loop arg cs segment_start (index + 1) trailing (out @ [92, 34]))
      else if c = 92 then escape_loop arg cs segment_start (index + 1) (trailing + 1) out
      else escape_loop arg cs segment_start (index + 1) 0 out)"

definition need_quote :: "wchar list \<Rightarrow> bool" where
  "need_quote arg = list_ex (\<lambda>c. c = 32 \<or> c = 9 \<or> c = 34) arg"

definition windows_escape :: "wchar list \<Rightarrow> wchar list option" where
  "windows_escape arg =
     (if arg = [] then Some [34, 34]
      else if \<not> need_quote arg then Some arg
      else escape_loop arg arg 0 0 0 [34])"

section \<open>Signals to a process\<close>

definition SIGKILL :: int where "SIGKILL = 9"
definition PROCESS_TERMINATE :: "32 word" where "PROCESS_TERMINATE = 1"

definition terminate_process_unix :: "'k kernel \<Rightarrow> int \<Rightarrow> int \<Rightarrow> 'k world \<Rightarrow> 'k world" where
  "terminate_process_unix K pid sig w = sys_do K (Proc (Kill pid sig)) w"

definition kill_process_unix :: "'k kernel \<Rightarrow> int \<Rightarrow> 'k world \<Rightarrow> 'k world" where
  "kill_process_unix K pid w = sys_do K (Proc (Kill pid SIGKILL)) w"

definition terminate_process_win :: "'k kernel \<Rightarrow> int \<Rightarrow> int \<Rightarrow> 'k world \<Rightarrow> 'k world" where
  "terminate_process_win K pid sig w = sys_do K (WNet (W_GenerateConsoleCtrlEvent sig pid)) w"

text \<open>The handle is compared with \<open>INVALID_HANDLE_VALUE\<close>, which \<open>OpenProcess\<close> never returns.\<close>

definition kill_process_win :: "'k kernel \<Rightarrow> int \<Rightarrow> 'k world \<Rightarrow> 'k world" where
  "kill_process_win K pid w =
     (let (a, w) = sys K (WProc (W_OpenProcess PROCESS_TERMINATE pid)) w;
          handle = a_ret a
      in if handle = INVALID_HANDLE_VALUE then w
         else sys_do K (WFile (W_CloseHandle handle)) (sys_do K (WProc (W_TerminateProcess handle)) w))"

section \<open>Correctness\<close>

subsection \<open>Blocks, Unix\<close>

text \<open>The heap never refuses a block: the code does not test for it.\<close>

definition heap_serves :: "'k kernel \<Rightarrow> bool" where
  "heap_serves K \<longleftrightarrow> (\<forall>n k. 0 < a_ret (fst (K (Rt (Malloc n)) k)))"

lemma heap_servesD: "heap_serves K \<Longrightarrow> 0 < a_ret (fst (sys K (Rt (Malloc n)) w))"
  by (simp add: heap_serves_def sys_fst)

lemma env_block_length_unix_spec:
  "0 \<notin> set ps \<Longrightarrow> env_block_length_unix (ps @ 0 # rest) = Some (length ps)"
  by (induction ps) auto

lemma write_env_block_unix_spec:
  "0 \<notin> set ps \<Longrightarrow> i = length xs \<Longrightarrow>
   write_env_block_unix (xs @ replicate (length ps) None @ zs) i (ps @ 0 # rest) =
     Some (xs @ map Some ps @ zs)"
proof (induction ps arbitrary: xs i)
  case Nil
  then show ?case by simp
next
  case (Cons p ps)
  have "poke (xs @ [None] @ (replicate (length ps) None @ zs)) i [Some p] =
      Some (xs @ [Some p] @ (replicate (length ps) None @ zs))"
    using Cons.prems by (intro poke_mid) simp_all
  then show ?case
    using Cons.IH [of "Suc i" "xs @ [Some p]"] Cons.prems by simp
qed

lemma new_string_mid:
  assumes "heap_serves K" "i = length xs"
  obtains p w' where "new_string K (xs @ None # zs) i bs w = Some (xs @ Some p # zs, (p, bs), w')" "p \<noteq> 0"
proof -
  have "poke (xs @ [None] @ zs) i [q] = Some (xs @ [q] @ zs)" for q :: "ptr option"
    using assms(2) by (intro poke_mid) simp_all
  with heap_servesD [OF assms(1), of "int (length bs)" w] that show thesis
    by (auto simp: new_string_def Let_def split_beta)
qed

text \<open>Adding strings fills the empty cells in order.\<close>

lemma add_strings_spec:
  assumes h: "heap_serves K"
    and add: "\<And>x cells i w. add x cells i w = new_string K cells i (text_of x) w"
    and "i = length cells"
  shows "\<exists>entries w'. add_strings add xs (cells @ replicate (length xs) None @ zs) i w =
      Some (cells @ map (\<lambda>(p, _). Some p) entries @ zs, entries, w') \<and> map snd entries = map text_of xs \<and>
      0 \<notin> fst ` set entries"
  using assms(3)
proof (induction xs arbitrary: cells i w)
  case Nil
  then show ?case by simp
next
  case (Cons x xs)
  obtain p w1 where "new_string K (cells @ None # (replicate (length xs) None @ zs)) i (text_of x) w =
      Some (cells @ Some p # (replicate (length xs) None @ zs), (p, text_of x), w1)" "p \<noteq> 0"
    by (rule new_string_mid [OF h Cons.prems])
  moreover obtain entries w' where
    "add_strings add xs ((cells @ [Some p]) @ replicate (length xs) None @ zs) (i + 1) w1 =
      Some ((cells @ [Some p]) @ map (\<lambda>(p, _). Some p) entries @ zs, entries, w')"
    "map snd entries = map text_of xs" "0 \<notin> fst ` set entries"
    using Cons.IH [of "i + 1" "cells @ [Some p]" w1] Cons.prems by auto
  ultimately show ?case
    using add [of x "cells @ None # replicate (length xs) None @ zs" i w]
    by (intro exI [of _ "(p, text_of x) # entries"] exI [of _ w']) simp
qed

lemma allocate_block_spec:
  assumes "heap_serves K"
  obtains w' where "allocate_block c K n w = Some (replicate n None @ [Some 0], w')"
  using heap_servesD [OF assms, of "int (n + 1) * c" w] that
  by (auto simp: allocate_block_def Let_def split_beta)

lemma spawn_env_unix_spec:
  assumes "heap_serves K" "case inherited of None \<Rightarrow> ps = [] | Some env \<Rightarrow> env = ps @ [0]" "0 \<notin> set ps"
  shows "\<exists>entries w'. spawn_env_unix encode K inherited extra w =
      Some ((map Some ps @ map (\<lambda>(p, _). Some p) entries @ [Some 0], length ps), entries, w') \<and>
      map snd entries = map (\<lambda>(k, v). encode k @ [61] @ encode v @ [0]) extra \<and> 0 \<notin> fst ` set entries"
proof -
  let ?add = "\<lambda>(k, v) env i. env_block_add_entry_unix encode K env i k v"
  let ?text = "\<lambda>(k, v). encode k @ [61] @ encode v @ [0]"
  have step: "?add x cells i w = new_string K cells i (?text x) w" for x cells i w
    by (cases x) (simp add: env_block_add_entry_unix_def)
  have fill: "\<exists>entries w'. add_strings ?add extra (map Some ps @ replicate (length extra) None @ [Some 0])
        (length ps) v = Some (map Some ps @ map (\<lambda>(p, _). Some p) entries @ [Some 0], entries, w') \<and>
      map snd entries = map ?text extra \<and> 0 \<notin> fst ` set entries" for v
    by (rule add_strings_spec [OF assms(1), of ?add ?text, OF step]) simp
  obtain w1 where a: "allocate_env_block_unix K (length ps + length extra) w =
      Some (replicate (length ps + length extra) None @ [Some 0], w1)"
    unfolding allocate_env_block_unix_def by (rule allocate_block_spec [OF assms(1)])
  show ?thesis
  proof (cases inherited)
    case None
    with assms(2) have "ps = []" by simp
    with None a fill [of w1] show ?thesis by (auto simp: spawn_env_unix_def)
  next
    case (Some env)
    with assms(2) have env: "env = ps @ [0]" by simp
    have "write_env_block_unix (replicate (length ps + length extra) None @ [Some 0]) 0 env =
        Some (map Some ps @ replicate (length extra) None @ [Some 0])"
      using write_env_block_unix_spec [OF assms(3), of 0 "[]" "replicate (length extra) None @ [Some 0]" "[]"]
      by (simp add: env replicate_add)
    with Some a fill [of w1] env_block_length_unix_spec [OF assms(3), of "[]"] show ?thesis
      by (auto simp: spawn_env_unix_def env)
  qed
qed

text \<open>
  On Unix a child gets exactly the environment and the arguments
  asked for: the inherited pointers followed by one string \<open>KEY=VALUE\<close> for each extra
  variable, in order, and the command followed by the arguments; every string ends in a
  zero byte, every array in \<open>NULL\<close>, every cell is written, and nothing outside the blocks.
\<close>

lemma spawn_blocks_unix:
  assumes "heap_serves K" "case inherited of None \<Rightarrow> ps = [] | Some env \<Rightarrow> env = ps @ [0]" "0 \<notin> set ps"
  shows "(\<exists>entries w'. spawn_env_unix encode K inherited extra w =
      Some ((map Some ps @ map (\<lambda>(p, _). Some p) entries @ [Some 0], length ps), entries, w') \<and>
      map snd entries = map (\<lambda>(k, v). encode k @ [61] @ encode v @ [0]) extra) \<and>
    (\<exists>entries w'. spawn_argv_unix encode K cmd args w =
      Some (map (\<lambda>(p, _). Some p) entries @ [Some 0], entries, w') \<and>
      map snd entries = (cmd @ [0]) # map (\<lambda>a. encode a @ [0]) args)"
proof
  show "\<exists>entries w'. spawn_env_unix encode K inherited extra w =
      Some ((map Some ps @ map (\<lambda>(p, _). Some p) entries @ [Some 0], length ps), entries, w') \<and>
      map snd entries = map (\<lambda>(k, v). encode k @ [61] @ encode v @ [0]) extra"
    using spawn_env_unix_spec [OF assms] by blast
next
  let ?none = "\<lambda>n. replicate n (None :: ptr option)"
  obtain w1 where a: "make_argv_array K (length args + 1) w = Some (?none (length args + 1) @ [Some 0], w1)"
    unfolding make_argv_array_def by (rule allocate_block_spec [OF assms(1)])
  obtain p w2 where c: "new_string K ([] @ None # (?none (length args) @ [Some 0])) 0 (cmd @ [0]) w1 =
      Some ([] @ Some p # (?none (length args) @ [Some 0]), (p, cmd @ [0]), w2)"
    by (rule new_string_mid [OF assms(1), of 0 "[]"]) simp_all
  have e: "argv_array_add_entry encode K cells i x w = new_string K cells i (encode x @ [0]) w" for x cells i w
    by (simp add: argv_array_add_entry_def)
  from add_strings_spec [OF assms(1), of "\<lambda>x cells i. argv_array_add_entry encode K cells i x"
      "\<lambda>x. encode x @ [0]", OF e, where i = 1 and cells = "[Some p]" and xs = args
      and zs = "[Some 0]" and w = w2]
  obtain entries w' where
    "add_strings (\<lambda>arg argv i. argv_array_add_entry encode K argv i arg) args
        ([Some p] @ ?none (length args) @ [Some 0]) 1 w2 =
      Some ([Some p] @ map (\<lambda>(p, _). Some p) entries @ [Some 0], entries, w')"
    "map snd entries = map (\<lambda>x. encode x @ [0]) args"
    by auto
  with a c show "\<exists>entries w'. spawn_argv_unix encode K cmd args w =
      Some (map (\<lambda>(p, _). Some p) entries @ [Some 0], entries, w') \<and>
      map snd entries = (cmd @ [0]) # map (\<lambda>a. encode a @ [0]) args"
    by (intro exI [of _ "(p, cmd @ [0]) # entries"] exI [of _ w'])
      (simp add: spawn_argv_unix_def argv_array_add_encoded_entry_def rd_all)
qed

text \<open>A heap of fresh blocks, for the witnesses.\<close>

definition heap_kernel :: "int kernel" where
  "heap_kernel c k = (case c of Rt (Malloc _) \<Rightarrow> (ok (max 1 k), max 1 k + 1) | _ \<Rightarrow> (blank, k))"

lemma heap_serves_kernel: "heap_serves heap_kernel"
  by (simp add: heap_serves_def heap_kernel_def ok_def blank_def less_max_iff_disj)

subsection \<open>Blocks, Windows\<close>

text \<open>A block of the system: entries that are not empty and hold no zero, each ended by one.\<close>

definition env_entry :: "wchar list \<Rightarrow> bool" where
  "env_entry e \<longleftrightarrow> e \<noteq> [] \<and> 0 \<notin> set e"

definition env_block_of :: "wchar list list \<Rightarrow> wchar list" where
  "env_block_of es = concat (map (\<lambda>e. e @ [0]) es)"

definition kept_entries :: "wchar list list \<Rightarrow> wchar list list" where
  "kept_entries es = filter (\<lambda>e. hd e \<noteq> 61) es"

lemma env_block_of_simps [simp]:
  "env_block_of [] = []" "env_block_of (e # es) = e @ 0 # env_block_of es"
  "env_block_of (es @ fs) = env_block_of es @ env_block_of fs"
  by (simp_all add: env_block_of_def)

lemma block_len_entry: "0 \<notin> set e \<Longrightarrow> block_len (e @ 0 # rest) = Some (length e)"
  by (induction e) auto

lemma entry_cases:
  assumes "env_entry e"
  shows "block_len (e @ 0 # rest) = Some (length e)" "hd (e @ 0 # rest) = hd e"
    "drop (length e + 1) (e @ 0 # rest) = rest" "take (length e + 1) (e @ 0 # rest) = e @ [0]"
    "\<exists>c cs. e = c # cs \<and> c \<noteq> 0"
  using assms block_len_entry [of e rest] by (auto simp: env_entry_def neq_Nil_conv)

lemma env_block_length_win_spec:
  assumes "es \<noteq> []" "\<forall>e \<in> set es. env_entry e"
  shows "env_block_length_win (env_block_of es @ 0 # rest) = Some (length (env_block_of (kept_entries es)))"
  using assms
proof (induction es)
  case Nil
  then show ?case by simp
next
  case (Cons e es)
  have v: "env_entry e" using Cons.prems by simp
  note e = entry_cases(1-4) [OF v, of "env_block_of es @ 0 # rest"]
  show ?case
  proof (cases es)
    case Nil
    then show ?thesis
      using entry_cases(1-4) [OF v, of "0 # rest"]
      by (simp add: env_block_length_win.simps kept_entries_def Let_def)
  next
    case (Cons f fs)
    then obtain c cs where "f = c # cs" "c \<noteq> 0" using Cons.prems entry_cases(5) [of f] by auto
    with Cons e Cons.IH Cons.prems show ?thesis
      by (simp add: env_block_length_win.simps [of "e @ 0 # _"] kept_entries_def Let_def)
  qed
qed

lemma write_env_block_win_spec:
  assumes "es \<noteq> []" "\<forall>e \<in> set es. env_entry e" "off = length xs"
    and "length old = length (env_block_of (kept_entries es))"
  shows "write_env_block_win (xs @ old @ zs) off (env_block_of es @ 0 # rest) =
    Some (xs @ map Some (env_block_of (kept_entries es)) @ zs)"
  using assms
proof (induction es arbitrary: xs off old)
  case Nil
  then show ?case by simp
next
  case (Cons e es)
  let ?k = "if hd e = 61 then [] else map Some (e @ [0])"
  have v: "env_entry e" using Cons.prems by simp
  note e = entry_cases(1-4) [OF v]
  have k: "env_block_of (kept_entries (e # es)) =
      (if hd e = 61 then [] else e @ [0]) @ env_block_of (kept_entries es)"
    by (simp add: kept_entries_def)
  obtain o1 o2 where o: "old = o1 @ o2" "length o1 = length ?k"
    "length o2 = length (env_block_of (kept_entries es))"
    using Cons.prems(4) unfolding k
    by (intro that [of "take (length ?k) old" "drop (length ?k) old"]) (auto split: if_splits)
  have first: "(if hd e = 61 then Some (xs @ old @ zs, off)
      else map_option (\<lambda>dst. (dst, off + length e + 1))
             (poke (xs @ old @ zs) off (map Some (e @ [0])))) =
      Some ((xs @ ?k) @ o2 @ zs, off + length ?k)"
  proof (cases "hd e = 61")
    case True
    then show ?thesis using o by simp
  next
    case False
    then have "poke (xs @ o1 @ o2 @ zs) off (map Some (e @ [0])) = Some (xs @ map Some (e @ [0]) @ o2 @ zs)"
      using o Cons.prems(3) by (intro poke_mid) simp_all
    with False o(1) show ?thesis by simp
  qed
  show ?case
  proof (cases es)
    case Nil
    then have "o2 = []" using o(3) by (simp add: kept_entries_def)
    with Nil show ?thesis
      using first e [of "0 # rest"] k
      by (simp add: write_env_block_win.simps [of _ _ "e @ 0 # 0 # rest"] kept_entries_def split: if_splits)
  next
    case es: (Cons f fs)
    obtain c cs where f: "f = c # cs" "c \<noteq> 0"
      using es Cons.prems(2) entry_cases(5) [of f] by auto
    have "write_env_block_win (xs @ old @ zs) off (env_block_of (e # es) @ 0 # rest) =
        write_env_block_win ((xs @ ?k) @ o2 @ zs) (off + length ?k) (env_block_of es @ 0 # rest)"
      using first e [of "env_block_of es @ 0 # rest"] f es
      by (simp add: write_env_block_win.simps [of _ _ "e @ 0 # _"] split: if_splits)
    also have "\<dots> = Some ((xs @ ?k) @ map Some (env_block_of (kept_entries es)) @ zs)"
      using Cons.IH [of "off + length ?k" "xs @ ?k" o2] es Cons.prems o(3) by simp
    finally show ?thesis unfolding k by (simp split: if_splits)
  qed
qed

definition variable :: "wchar list \<times> wchar list \<Rightarrow> wchar list" where
  "variable kv = fst kv @ [61] @ snd kv"

lemma split_list_at: "length xs = m + n \<Longrightarrow> \<exists>a b. xs = a @ b \<and> length a = m \<and> length b = n"
  by (intro exI [of _ "take m xs"] exI [of _ "drop m xs"]) simp

lemma add_entry_win_spec:
  assumes "off = length xs" "length old = length k + length v + 2"
  shows "env_block_add_entry_win (xs @ old @ zs) off k v = Some (xs @ map Some (variable (k, v) @ [0]) @ zs)"
proof -
  let ?n = "\<lambda>n. replicate n (None :: wchar option)"
  obtain a b c d where o: "old = a @ b @ c @ d" "length a = length k" "length b = 1"
    "length c = length v" "length d = 1"
  proof -
    obtain a r where r: "old = a @ r" "length a = length k" "length r = length v + 2"
      using split_list_at [of old "length k" "length v + 2"] assms(2) by auto
    obtain b r2 where r2: "r = b @ r2" "length b = 1" "length r2 = length v + 1"
      using split_list_at [of r 1 "length v + 1"] r(3) by auto
    obtain c d where "r2 = c @ d" "length c = length v" "length d = 1"
      using split_list_at [of r2 "length v" 1] r2(3) by auto
    with r r2 that show thesis by simp
  qed
  have 1: "poke (xs @ a @ (b @ c @ d @ zs)) off (map Some k) = Some (xs @ map Some k @ (b @ c @ d @ zs))"
    using o assms(1) by (intro poke_mid) simp_all
  have 2: "poke ((xs @ map Some k) @ b @ (c @ d @ zs)) (off + length k) [Some 61] =
      Some ((xs @ map Some k) @ [Some 61] @ (c @ d @ zs))"
    using o assms(1) by (intro poke_mid) simp_all
  have 3: "poke ((xs @ map Some k @ [Some 61]) @ c @ (d @ zs)) (off + length k + 1) (map Some v) =
      Some ((xs @ map Some k @ [Some 61]) @ map Some v @ (d @ zs))"
    using o assms(1) by (intro poke_mid) simp_all
  have 4: "poke ((xs @ map Some k @ [Some 61] @ map Some v) @ d @ zs) (off + length k + 1 + length v) [Some 0] =
      Some ((xs @ map Some k @ [Some 61] @ map Some v) @ [Some 0] @ zs)"
    using o assms(1) by (intro poke_mid) simp_all
  show ?thesis
    using 1 2 3 4 by (simp add: env_block_add_entry_win_def o(1) variable_def)
qed

lemma extra_env_len_Nil [simp]: "extra_env_len [] = 0"
  by (simp add: extra_env_len_def)

lemma extra_env_len_Cons [simp]:
  "extra_env_len ((k, v) # extra) = length k + length v + 2 + extra_env_len extra"
proof -
  have "foldl (\<lambda>acc (k, v). acc + length k + length v + 2) (a + b) xs =
      b + foldl (\<lambda>acc (k, v). acc + length k + length v + 2) a xs" for a b and xs :: "(wchar list \<times> wchar list) list"
  proof (induction xs arbitrary: a)
    case Nil
    then show ?case by simp
  next
    case (Cons x xs)
    from Cons [of "a + length (fst x) + length (snd x) + 2"] show ?case
      by (simp add: split_beta algebra_simps)
  qed
  from this [of 0 "length k + length v + 2" extra] show ?thesis
    by (simp add: extra_env_len_def)
qed

lemma add_variables_spec:
  "off = length xs \<Longrightarrow> length old = extra_env_len extra \<Longrightarrow>
   add_variables (xs @ old @ zs) off extra = Some (xs @ map Some (env_block_of (map variable extra)) @ zs)"
proof (induction extra arbitrary: xs off old)
  case Nil
  then show ?case by simp
next
  case (Cons kv extra)
  obtain k v where kv: "kv = (k, v)" by (cases kv)
  let ?n = "length k + length v + 2"
  obtain o1 o2 where o: "old = o1 @ o2" "length o1 = ?n" "length o2 = extra_env_len extra"
    using Cons.prems(2) by (intro that [of "take ?n old" "drop ?n old"]) (auto simp: kv)
  have "env_block_add_entry_win (xs @ o1 @ (o2 @ zs)) off k v =
      Some (xs @ map Some (variable (k, v) @ [0]) @ (o2 @ zs))"
    using Cons.prems(1) o(2) by (rule add_entry_win_spec)
  moreover have "length (xs @ map Some (variable (k, v) @ [0])) = off + length k + length v + 2"
    using Cons.prems(1) by (simp add: variable_def)
  ultimately show ?case
    using Cons.IH [OF _ o(3), of "off + length k + length v + 2" "xs @ map Some (variable (k, v) @ [0])"]
    by (simp add: kv o(1))
qed

lemma allocate_win_spec:
  assumes "heap_serves K"
  obtains w' where "allocate_env_block_win K n w = Some (replicate n None @ [Some 0], w')"
  using heap_servesD [OF assms, of "int (n + 1) * 2" w] that
  by (auto simp: allocate_env_block_win_def Let_def split_beta)

text \<open>
  On Windows the environment block of a child is the inherited entries, without the pseudo
  entries that begin with \<open>=\<close>, followed by \<open>KEY=VALUE\<close> for each extra variable, in order,
  each ended by a zero and the block by another; every cell of it is written and nothing
  outside.
\<close>

lemma spawn_env_win_spec:
  assumes "heap_serves K" "\<forall>e \<in> set es. env_entry e"
    and "case inherited of None \<Rightarrow> es = [] | Some env \<Rightarrow> es \<noteq> [] \<and> env = env_block_of es @ [0]"
  shows "\<exists>w'. spawn_env_win K inherited extra w =
    Some (map Some (env_block_of (kept_entries es @ map variable extra) @ [0]), w')"
proof (cases inherited)
  case None
  with assms(3) have es: "es = []" by simp
  obtain w1 where a: "allocate_env_block_win K (extra_env_len extra) w =
      Some (replicate (extra_env_len extra) None @ [Some 0], w1)"
    by (rule allocate_win_spec [OF assms(1)])
  have "add_variables ([] @ replicate (extra_env_len extra) None @ [Some 0]) 0 extra =
      Some ([] @ map Some (env_block_of (map variable extra)) @ [Some 0])"
    by (rule add_variables_spec) simp_all
  with a None es show ?thesis by (simp add: spawn_env_win_def kept_entries_def)
next
  case (Some env)
  with assms(3) have es: "es \<noteq> []" "env = env_block_of es @ [0]" by simp_all
  let ?k = "env_block_of (kept_entries es)"
  let ?n = "\<lambda>n. replicate n (None :: wchar option)"
  obtain w1 where a: "allocate_env_block_win K (length ?k + extra_env_len extra) w =
      Some (?n (length ?k + extra_env_len extra) @ [Some 0], w1)"
    by (rule allocate_win_spec [OF assms(1)])
  have l: "env_block_length_win env = Some (length ?k)"
    using env_block_length_win_spec [OF es(1) assms(2), of "[]"] es(2) by simp
  have "write_env_block_win ([] @ ?n (length ?k) @ (?n (extra_env_len extra) @ [Some 0])) 0 (env_block_of es @ 0 # []) =
      Some ([] @ map Some ?k @ (?n (extra_env_len extra) @ [Some 0]))"
    by (rule write_env_block_win_spec [OF es(1) assms(2)]) simp_all
  moreover have "add_variables (map Some ?k @ ?n (extra_env_len extra) @ [Some 0]) (length ?k) extra =
      Some (map Some ?k @ map Some (env_block_of (map variable extra)) @ [Some 0])"
    by (rule add_variables_spec) simp_all
  ultimately show ?thesis
    using a l Some es(2) by (simp add: spawn_env_win_def replicate_add)
qed

text \<open>An empty environment is taken for one empty entry, so that the new block begins with its end.\<close>

lemma empty_environment: "env_block_length_win (0 # 0 # rest) = Some 1"
  by (simp add: env_block_length_win.simps)

lemma spawn_env_win_empty:
  assumes "heap_serves K"
  shows "\<exists>w'. spawn_env_win K (Some [0, 0]) extra w =
    Some (map Some (0 # env_block_of (map variable extra) @ [0]), w')"
proof -
  let ?n = "\<lambda>n. replicate n (None :: wchar option)"
  obtain w1 where a: "allocate_env_block_win K (1 + extra_env_len extra) w =
      Some (?n (1 + extra_env_len extra) @ [Some 0], w1)"
    by (rule allocate_win_spec [OF assms])
  have "poke ([] @ [None] @ (?n (extra_env_len extra) @ [Some 0])) 0 (map Some [0]) =
      Some ([] @ map Some [0] @ (?n (extra_env_len extra) @ [Some 0]))"
    by (rule poke_mid) simp_all
  then have "write_env_block_win (None # ?n (extra_env_len extra) @ [Some 0]) 0 [0, 0] =
      Some (Some 0 # ?n (extra_env_len extra) @ [Some 0])"
    by (simp add: write_env_block_win.simps)
  moreover have "add_variables ([Some 0] @ ?n (extra_env_len extra) @ [Some 0]) 1 extra =
      Some ([Some 0] @ map Some (env_block_of (map variable extra)) @ [Some 0])"
    by (rule add_variables_spec) simp_all
  ultimately show ?thesis
    using a empty_environment [of "[]"] by (simp add: spawn_env_win_def)
qed

subsection \<open>The Windows command line\<close>

lemma slice_Suc: "a + n < length xs \<Longrightarrow> slice xs a (Suc n) = slice xs a n @ [xs ! (a + n)]"
  by (simp add: slice_def take_Suc_conv_app_nth)

lemma slice_add: "slice xs a (m + n) = slice xs a m @ slice xs (a + m) n"
  by (simp add: slice_def take_add add.commute)

text \<open>
  The convention the escaping is for, which the tests of the repository cite (Microsoft,
  Parsing C command-line arguments): inside quotes an even run of backslashes before a quote
  stands for half of them and the quote ends the argument, an odd one for half of them and a
  literal quote, and other backslashes stand for themselves. \<open>n\<close> counts the run; the
  result is the argument, when it ends exactly at the closing quote.
\<close>

fun quoted_argument :: "wchar list \<Rightarrow> nat \<Rightarrow> wchar list option" where
  "quoted_argument [] n = None"
| "quoted_argument (c # cs) n =
     (if c = 92 then quoted_argument cs (n + 1)
      else if c = 34 then
        (if even n then (if cs = [] then Some (replicate (n div 2) 92) else None)
         else map_option (\<lambda>arg. replicate (n div 2) 92 @ 34 # arg) (quoted_argument cs 0))
      else map_option (\<lambda>arg. replicate n 92 @ c # arg) (quoted_argument cs 0))"

definition c_argument :: "wchar list \<Rightarrow> wchar list option" where
  "c_argument s =
     (case s of
        [] \<Rightarrow> None
      | c # cs \<Rightarrow> if c = 34 then quoted_argument cs 0 else if need_quote s then None else Some s)"

text \<open>The escaping one wants, where \<open>n\<close> backslashes are not written yet.\<close>

fun quoted :: "wchar list \<Rightarrow> nat \<Rightarrow> wchar list" where
  "quoted [] n = replicate (n * 2) 92 @ [34]"
| "quoted (c # cs) n =
     (if c = 34 then replicate (n * 2) 92 @ [92, 34] @ quoted cs 0
      else if c = 92 then quoted cs (n + 1)
      else replicate n 92 @ c # quoted cs 0)"

lemma quoted_argument_backslashes:
  "quoted_argument (replicate m 92 @ cs) n = quoted_argument cs (n + m)"
  by (induction m arbitrary: n) auto

lemma quoted_argument_quoted: "quoted_argument (quoted cs n) 0 = Some (replicate n 92 @ cs)"
proof (induction cs n rule: quoted.induct)
  case (1 n)
  then show ?case by (simp add: quoted_argument_backslashes)
next
  case (2 c cs n)
  consider "c = 34" | "c = 92" | "c \<noteq> 34" "c \<noteq> 92" by blast
  then show ?case
  proof cases
    case 1
    then show ?thesis using 2 by (simp add: quoted_argument_backslashes)
  next
    case c: 2
    have "replicate n c @ c # cs = c # replicate n c @ cs" by (simp add: replicate_append_same)
    with c 2 show ?thesis by (simp add: replicate_app_Cons_same)
  next
    case 3
    then show ?thesis using 2 by (simp add: quoted_argument_backslashes)
  qed
qed

text \<open>
  What the loop has written and holds back: of the segment since the last flush the trailing
  backslashes are still to come. The counter may also hold backslashes of an earlier
  segment, which is where the loop aborts.
\<close>

lemma escape_loop_quoted:
  assumes "drop index arg = cs" "index \<le> length arg" "start \<le> index"
    and "n = min trailing (index - start)"
    and "slice arg (index - n) n = replicate n 92"
    and "escape_loop arg cs start index trailing out = Some r"
  shows "r = out @ slice arg start (index - n - start) @ quoted cs n"
  using assms
proof (induction cs arbitrary: start index trailing out n)
  case Nil
  show ?case
  proof (cases "start < index")
    case True
    with Nil show ?thesis by (auto simp: flush_segment_def split: if_splits)
  next
    case False
    with Nil show ?thesis by (simp add: flush_segment_def slice_def)
  qed
next
  case (Cons c cs)
  have c: "arg ! index = c" "index < length arg" "drop (Suc index) arg = cs"
    using Cons.prems(1) nth_via_drop [OF Cons.prems(1)]
    by (cases "index < length arg"; simp add: Cons_nth_drop_Suc [symmetric])+
  consider (quote) "c = 34" | (backslash) "c = 92" | (other) "c \<noteq> 34" "c \<noteq> 92" by blast
  then show ?case
  proof cases
    case quote
    obtain start' out' where f: "flush_segment arg 1 start index trailing out = Some (start', out')"
      "escape_loop arg cs start' (Suc index) trailing (out' @ [92, 34]) = Some r"
      using Cons.prems(6) quote by (auto split: option.splits)
    have s': "start' = Suc index" using f(1) by (auto simp: flush_segment_def split: if_splits)
    have out': "out' = out @ slice arg start (index - n - start) @ replicate (n * 2) 92"
      using f(1) Cons.prems(3,4) by (auto simp: flush_segment_def slice_def split: if_splits)
    have "r = (out' @ [92, 34]) @ slice arg (Suc index) (Suc index - 0 - Suc index) @ quoted cs 0"
      using c(2) f(2) s' by (intro Cons.IH [OF c(3)]) (simp_all add: slice_def)
    then show ?thesis by (simp add: quote out' slice_def)
  next
    case backslash
    have "slice arg (Suc index - Suc n) (Suc n) = slice arg (index - n) n @ [c]"
      using c(1,2) Cons.prems(4) slice_Suc [of "index - n" n arg] by simp
    then have b: "slice arg (Suc index - Suc n) (Suc n) = replicate (Suc n) 92"
      using Cons.prems(5) backslash by (simp add: replicate_append_same)
    have "r = out @ slice arg start (Suc index - Suc n - start) @ quoted cs (Suc n)"
      by (rule Cons.IH [OF c(3) _ _ _ b]) (use c(2) Cons.prems backslash in auto)
    then show ?thesis by (simp add: backslash)
  next
    case other
    have "slice arg start (Suc index - start) =
        slice arg start (index - n - start) @ slice arg (index - n) n @ [c]"
    proof -
      have "Suc index - start = (index - n - start) + Suc n" "start + (index - n - start) = index - n"
        using Cons.prems(3,4) by auto
      with slice_add [of arg start "index - n - start" "Suc n"] slice_Suc [of "index - n" n arg] c(1,2)
        Cons.prems(4)
      show ?thesis by simp
    qed
    moreover have "r = out @ slice arg start (Suc index - 0 - start) @ quoted cs 0"
      by (rule Cons.IH [OF c(3)]) (use c(2) Cons.prems other in \<open>auto simp: slice_def\<close>)
    ultimately show ?thesis using other Cons.prems(5) by simp
  qed
qed

text \<open>Without a backslash before a quote the counter never holds old backslashes.\<close>

definition backslash_before_quote :: "wchar list \<Rightarrow> bool" where
  "backslash_before_quote arg \<longleftrightarrow> (\<exists>i. Suc i < length arg \<and> arg ! i = 92 \<and> arg ! Suc i = 34)"

lemma escape_loop_returns:
  assumes "\<not> backslash_before_quote arg" "drop index arg = cs" "index \<le> length arg" "start \<le> index"
    and "start + trailing \<le> index" "slice arg (index - trailing) trailing = replicate trailing 92"
  shows "\<exists>r. escape_loop arg cs start index trailing out = Some r"
  using assms(2-)
proof (induction cs arbitrary: start index trailing out)
  case Nil
  then show ?case by (simp add: flush_segment_def)
next
  case (Cons c cs)
  have c: "arg ! index = c" "index < length arg" "drop (Suc index) arg = cs"
    using Cons.prems(1) nth_via_drop [OF Cons.prems(1)]
    by (cases "index < length arg"; simp add: Cons_nth_drop_Suc [symmetric])+
  consider (quote) "c = 34" | (backslash) "c = 92" | (other) "c \<noteq> 34" "c \<noteq> 92" by blast
  then show ?case
  proof cases
    case quote
    have "trailing = 0"
    proof (rule ccontr)
      assume t: "trailing \<noteq> 0"
      then have "slice arg (index - trailing) trailing ! (trailing - 1) = arg ! (index - 1)"
        using c(2) Cons.prems(4) by (simp add: slice_def)
      then have "arg ! (index - 1) = 92" using t Cons.prems(5) by simp
      then have "backslash_before_quote arg"
        using t c(1,2) quote Cons.prems(4) by (auto simp: backslash_before_quote_def intro!: exI [of _ "index - 1"])
      with assms(1) show False ..
    qed
    moreover have "\<exists>r. escape_loop arg cs (Suc index) (Suc index) 0 out' = Some r" for out'
      using c(2) by (intro Cons.IH [OF c(3)]) (simp_all add: slice_def)
    ultimately show ?thesis using Cons.prems(3) by (auto simp: quote flush_segment_def)
  next
    case backslash
    have "slice arg (Suc index - Suc trailing) (Suc trailing) = replicate (Suc trailing) 92"
      using c(1,2) Cons.prems(4,5) slice_Suc [of "index - trailing" trailing arg] backslash
      by (simp add: replicate_append_same)
    then have "\<exists>r. escape_loop arg cs start (Suc index) (Suc trailing) out = Some r"
      using c(2) Cons.prems by (intro Cons.IH [OF c(3)]) simp_all
    then show ?thesis by (simp add: backslash)
  next
    case other
    have "\<exists>r. escape_loop arg cs start (Suc index) 0 out = Some r"
      using c(2) Cons.prems by (intro Cons.IH [OF c(3)]) (simp_all add: slice_def)
    then show ?thesis using other by simp
  qed
qed

text \<open>
  Claim C20 (roundtrip). Whatever argument is escaped for the Windows command line, what is
  written is read back by the C convention as exactly that argument; and every argument in
  which no backslash stands before a quote is escaped.
\<close>

theorem windows_escape_roundtrip:
  "(\<forall>s. windows_escape arg = Some s \<longrightarrow> c_argument s = Some arg) \<and>
   (\<not> backslash_before_quote arg \<longrightarrow> windows_escape arg \<noteq> None)"
proof (intro conjI allI impI)
  fix s assume e: "windows_escape arg = Some s"
  show "c_argument s = Some arg"
  proof (cases "arg \<noteq> [] \<and> need_quote arg")
    case True
    with e have "escape_loop arg arg 0 0 0 [34] = Some s" by (simp add: windows_escape_def)
    from escape_loop_quoted [OF _ _ _ refl _ this] have "s = 34 # quoted arg 0"
      by (simp add: slice_def)
    then show ?thesis by (simp add: c_argument_def quoted_argument_quoted)
  next
    case False
    with e show ?thesis
      by (auto simp: windows_escape_def c_argument_def need_quote_def neq_Nil_conv split: if_splits)
  qed
next
  assume "\<not> backslash_before_quote arg"
  from escape_loop_returns [OF this, of 0 arg 0 0 "[34]"] show "windows_escape arg \<noteq> None"
    by (auto simp: windows_escape_def slice_def)
qed

theorem windows_escape_roundtrip_witness:
  "windows_escape [97, 92, 34, 99] = Some [34, 97, 92, 92, 92, 34, 99, 34] \<and>
   c_argument [34, 97, 92, 92, 92, 34, 99, 34] = Some [97, 92, 34, 99]"
proof -
  have two: "replicate 2 (92 :: wchar) = [92, 92]" by (simp add: eval_nat_numeral)
  have "windows_escape [97, 92, 34, 99] = Some [34, 97, 92, 92, 92, 34, 99, 34]"
    by (simp add: windows_escape_def need_quote_def flush_segment_def slice_def two)
  with windows_escape_roundtrip [THEN conjunct1, THEN spec, THEN mp, OF this] show ?thesis by simp
qed

text \<open>
  The counter is not reset at a quote: the argument of two escaped quotes (backslash, quote,
  backslash, quote) aborts the program.
\<close>

lemma windows_escape_aborts: "windows_escape [92, 34, 92, 34] = None"
  by (simp add: windows_escape_def need_quote_def flush_segment_def slice_def)

end
