(* ===== verification/Native_Utils.thy ===== *)
theory Native_Utils
  imports Jobs_Process Socket_Ops Dir_Entries
begin

text \<open>
  The small native files: results and handles of processes (\<open>event_loop/process.c\<close>,
  \<open>env_util\<close>), file locks and the temporary directory (\<open>fs/stub.c\<close>), C buffers and strings
  (\<open>c_buffer\<close>, \<open>os_string\<close>), raw descriptors (\<open>raw_fd\<close>, \<open>types\<close>).
\<close>

section \<open>Processes\<close>

definition WNOHANG :: int where "WNOHANG = 1"
definition CLD_EXITED :: int where "CLD_EXITED = 1"

definition WTERMSIG :: "int \<Rightarrow> int" where "WTERMSIG status = status mod 128"
definition WIFEXITED :: "int \<Rightarrow> bool" where "WIFEXITED status = (WTERMSIG status = 0)"

text \<open>
  The result and the new content of \<open>out\<close>. \<open>waitid\<close> fills \<open>si_pid, si_code, si_status\<close>, the
  list of its outputs; \<open>has_pidfd\<close> is a Linux of version 5.4 or later.
\<close>

definition get_process_result ::
  "bool \<Rightarrow> platform \<Rightarrow> 'k kernel \<Rightarrow> int \<Rightarrow> int \<Rightarrow> int \<Rightarrow> 'k world \<Rightarrow> (int \<times> int) \<times> 'k world" where
  "get_process_result has_pidfd pf K handle pid out w =
     (if pf = Windows
      then let (a, w) = sys K (WProc (W_GetExitCodeProcess handle)) w
           in (if a_ret a \<noteq> 0 then (0, i32 (a_num a)) else (-1, out), w)
      else if pf = Linux \<and> has_pidfd \<and> 0 \<le> handle
      then let (a, w) = sys K (Proc (Waitid_pidfd handle)) w
           in if a_ret a < 0 then ((-1, out), w)
              else (case a_nums a of
                      [si_pid, si_code, si_status] \<Rightarrow>
                        if si_pid = 0 then ((-1, out), set_errno (EAGAIN pf) w)
                        else ((0, if si_code = CLD_EXITED then si_status else - si_status), w)
                    | _ \<Rightarrow> ((-1, out), set_errno (EAGAIN pf) w))
      else let (a, w) = sys K (Proc (Waitpid pid WNOHANG)) w
           in if a_ret a < 0 then ((-1, out), w)
              else if a_ret a = 0 then ((-1, out), set_errno (EAGAIN pf) w)
              else ((0, if WIFEXITED (a_num a) then WEXITSTATUS (a_num a)
                        else - WTERMSIG (a_num a)), w))"

definition SYNCHRONIZE :: "32 word" where "SYNCHRONIZE = 0x100000"
definition PROCESS_QUERY_LIMITED_INFORMATION :: "32 word" where
  "PROCESS_QUERY_LIMITED_INFORMATION = 0x1000"

text \<open>The condition is \<open>(pidfd < 0 && errno == ENOSYS) || errno == EPERM\<close>, as C reads it.\<close>

definition open_pid_handle :: "bool \<Rightarrow> platform \<Rightarrow> 'k kernel \<Rightarrow> int \<Rightarrow> 'k world \<Rightarrow> int \<times> 'k world" where
  "open_pid_handle has_pidfd pf K pid w =
     (if pf = Windows
      then let (a, w) = sys K (WProc (W_OpenProcess (SYNCHRONIZE OR PROCESS_QUERY_LIMITED_INFORMATION) pid)) w
           in (a_ret a, w)
      else if pf = Linux \<and> has_pidfd
      then let (a, w) = sys K (Proc (Pidfd_open pid)) w;
               pidfd = i32 (a_ret a)
           in (pidfd, if (pidfd < 0 \<and> errno w = ENOSYS pf) \<or> errno w = EPERM then set_errno 0 w else w)
      else (-1, set_errno 0 w))"

definition getpid :: "platform \<Rightarrow> 'k kernel \<Rightarrow> 'k world \<Rightarrow> 32 word \<times> 'k world" where
  "getpid pf K w =
     (let (a, w) = sys K (if pf = Windows then WProc W_GetCurrentProcessId else Proc Getpid) w
      in (word_of_int (a_ret a), w))"

section \<open>Files\<close>

definition LOCK_NB :: int where "LOCK_NB = 4"
definition LOCK_UN :: int where "LOCK_UN = 8"
definition LOCKFILE_FAIL_IMMEDIATELY :: "32 word" where "LOCKFILE_FAIL_IMMEDIATELY = 1"

definition dir_is_null :: "ptr \<Rightarrow> bool" where "dir_is_null dir = (dir = 0)"

definition try_lock_file :: "platform \<Rightarrow> 'k kernel \<Rightarrow> int \<Rightarrow> bool \<Rightarrow> 'k world \<Rightarrow> int \<times> 'k world" where
  "try_lock_file pf K handle exclusive w =
     (if pf = Windows
      then let (a, w) = sys K (WFile (W_LockFileEx handle
                 (LOCKFILE_FAIL_IMMEDIATELY OR (if exclusive then LOCKFILE_EXCLUSIVE_LOCK else 0))
                 0xfffffffe 0xffffffff)) w
           in (if a_ret a \<noteq> 0 then 0 else -1, w)
      else let (a, w) = sys K (File (Flock handle (LOCK_NB OR (if exclusive then LOCK_EX else LOCK_SH)))) w
           in (a_ret a, w))"

definition unlock_file :: "platform \<Rightarrow> 'k kernel \<Rightarrow> int \<Rightarrow> 'k world \<Rightarrow> int \<times> 'k world" where
  "unlock_file pf K handle w =
     (if pf = Windows
      then let (a, w) = sys K (WNet (W_UnlockFile handle 0xfffffffe 0xffffffff)) w
           in (if a_ret a \<noteq> 0 then 0 else -1, w)
      else let (a, w) = sys K (File (Flock handle LOCK_UN)) w in (a_ret a, w))"

text \<open>\<open>File::try_lock\<close>: was the lock acquired, or the error that is raised.\<close>

definition File_try_lock :: "platform \<Rightarrow> 'k kernel \<Rightarrow> int \<Rightarrow> bool \<Rightarrow> 'k world \<Rightarrow> (int + bool) \<times> 'k world" where
  "File_try_lock pf K fd exclusive w =
     (let (r, w) = try_lock_file pf K fd exclusive w
      in (if 0 \<le> r then Inr True
          else if errno_is_lock_violation pf (errno w) then Inr False
          else if errno w \<noteq> 0 then Inl (errno w)
          else Inr False, w))"

text \<open>
  The bytes of the path, \<open>None\<close> when the system does not answer; \<open>tmpdir\<close> is the variable
  \<open>TMPDIR\<close> of an Android system.
\<close>

definition get_tmp_path ::
  "platform \<Rightarrow> bool \<Rightarrow> int list option \<Rightarrow> 'k kernel \<Rightarrow> 'k world \<Rightarrow> int list option \<times> 'k world" where
  "get_tmp_path pf android tmpdir K w =
     (if pf = Windows
      then let (a, w) = sys K (WNet (W_GetTempPath (int MAX_PATH + 1))) w
           in (if a_ret a = 0 then None else Some (a_nums a), w)
      else if android
      then (case tmpdir of
              Some d \<Rightarrow> Some d
            | None \<Rightarrow> Some [47, 100, 97, 116, 97, 47, 108, 111, 99, 97, 108, 47, 116, 109, 112, 47], w)
      else (Some [47, 116, 109, 112, 47], w))"

section \<open>C buffers and strings\<close>

definition blit_to_c :: "byte list \<Rightarrow> nat \<Rightarrow> byte list \<Rightarrow> nat \<Rightarrow> nat \<Rightarrow> byte list option" where
  "blit_to_c dst dst_offset src src_offset len = memcpy dst dst_offset src src_offset len"

definition blit_from_c :: "byte list \<Rightarrow> nat \<Rightarrow> byte list \<Rightarrow> nat \<Rightarrow> nat \<Rightarrow> byte list option" where
  "blit_from_c src src_offset dst dst_offset len = memcpy dst dst_offset src src_offset len"

definition c_buffer_get :: "byte list \<Rightarrow> nat \<Rightarrow> nat option" where
  "c_buffer_get buf index = map_option unat (byte_at buf index)"

definition strlen :: "byte list \<Rightarrow> nat \<Rightarrow> nat option" where
  "strlen str offset = (if offset \<le> length str then c_strlen (drop offset str) else None)"

definition null_pointer :: ptr where "null_pointer = 0"

definition pointer_is_null :: "ptr \<Rightarrow> bool" where "pointer_is_null p = (p = 0)"

definition make_c_buffer :: "'k kernel \<Rightarrow> int \<Rightarrow> 'k world \<Rightarrow> ptr \<times> 'k world" where
  "make_c_buffer K size_arg w = (let (a, w) = sys K (Rt (Malloc size_arg)) w in (nat (a_ret a), w))"

text \<open>
  \<open>wcslen\<close> of a buffer of 16-bit units (Windows, the only caller): the units before the first
  zero one.
\<close>

fun wcslen :: "byte list \<Rightarrow> nat option" where
  "wcslen (a # b # rest) = (if a = 0 \<and> b = 0 then Some 0 else map_option Suc (wcslen rest))"
| "wcslen _ = None"

text \<open>The length \<open>-1\<close> is \<open>None\<close>; then it is measured from the start of the buffer, not from \<open>offset\<close>.\<close>

definition c_buffer_as_string :: "byte list \<Rightarrow> nat \<Rightarrow> nat option \<Rightarrow> byte list option" where
  "c_buffer_as_string str offset len =
     (case (case len of None \<Rightarrow> map_option (\<lambda>n. n * 2) (wcslen str) | Some n \<Rightarrow> Some n) of
        None \<Rightarrow> None
      | Some bytes \<Rightarrow> memcpy (replicate (2 * (bytes div 2)) 0) 0 str offset bytes)"

section \<open>Raw descriptors\<close>

definition raw_fd_test_make_udp_socket :: "platform \<Rightarrow> 'k kernel \<Rightarrow> 'k world \<Rightarrow> int \<times> 'k world" where
  "raw_fd_test_make_udp_socket pf K w =
     (if pf = Windows
      then let (a, w) = sys K (WNet (W_WSASocket (int AF_INET) SOCK_DGRAM WSA_FLAG_NO_HANDLE_INHERIT)) w
           in (a_ret a, w)
      else let (a, w) = sys K (Net (Sock (int AF_INET) SOCK_DGRAM)) w in (a_ret a, w))"

definition raw_fd_test_connect ::
  "platform \<Rightarrow> 'k kernel \<Rightarrow> int \<Rightarrow> byte list \<Rightarrow> 'k world \<Rightarrow> int \<times> 'k world" where
  "raw_fd_test_connect pf K sock addr w =
     (let (a, w) = sys K (if pf = Windows then WNet (W_connect sock addr) else Net (Connect sock addr)) w
      in (a_ret a, w))"

definition fd_as_uint64 :: "int \<Rightarrow> 64 word" where "fd_as_uint64 handle = word_of_int handle"

section \<open>Correctness\<close>

subsection \<open>How a child ended\<close>

text \<open>What the system knows of a child, and how its two ways of waiting tell it.\<close>

datatype child = Still_running | Exited int | Killed int bool

fun child_ok :: "child \<Rightarrow> bool" where
  "child_ok Still_running = True"
| "child_ok (Exited c) = (0 \<le> c \<and> c < 256)"
| "child_ok (Killed s _) = (0 < s \<and> s < 127)"

fun waitid_tells :: "int \<Rightarrow> child \<Rightarrow> answer \<Rightarrow> bool" where
  "waitid_tells pid Still_running a = (a_ret a = 0 \<and> a_nums a = [0, 0, 0])"
| "waitid_tells pid (Exited c) a = (a_ret a = 0 \<and> a_nums a = [pid, CLD_EXITED, c])"
| "waitid_tells pid (Killed s core) a = (a_ret a = 0 \<and> a_nums a = [pid, if core then 3 else 2, s])"

fun waitpid_tells :: "int \<Rightarrow> child \<Rightarrow> answer \<Rightarrow> bool" where
  "waitpid_tells pid Still_running a = (a_ret a = 0)"
| "waitpid_tells pid (Exited c) a = (a_ret a = pid \<and> a_num a = c * 256)"
| "waitpid_tells pid (Killed s core) a = (a_ret a = pid \<and> a_num a = s + (if core then 128 else 0))"

definition knows_child :: "'k kernel \<Rightarrow> int \<Rightarrow> int \<Rightarrow> child \<Rightarrow> bool" where
  "knows_child K handle pid c \<longleftrightarrow>
     (\<forall>k. waitid_tells pid c (fst (K (Proc (Waitid_pidfd handle)) k)) \<and>
          waitpid_tells pid c (fst (K (Proc (Waitpid pid WNOHANG)) k)))"

fun child_result :: "child \<Rightarrow> int option" where
  "child_result Still_running = None"
| "child_result (Exited c) = Some c"
| "child_result (Killed s _) = Some (- s)"

lemma status_of_exit: "0 \<le> c \<Longrightarrow> c < 256 \<Longrightarrow> WIFEXITED (c * 256) \<and> WEXITSTATUS (c * 256) = c"
  by (simp add: WIFEXITED_def WTERMSIG_def WEXITSTATUS_def)

lemma status_of_kill:
  "0 < s \<Longrightarrow> s < 127 \<Longrightarrow>
   \<not> WIFEXITED (s + (if core then 128 else 0)) \<and> WTERMSIG (s + (if core then 128 else 0)) = s"
  by (auto simp: WIFEXITED_def WTERMSIG_def)

text \<open>
  Claim C21 (equivalence). Asking for the result of a child gives the same answer on every
  Unix, through a process descriptor or through \<open>waitpid\<close>: the exit code, the negative number
  of the signal that killed it, or \<open>EAGAIN\<close> with the output left alone while it runs.
\<close>

theorem process_result_same:
  assumes "knows_child K handle pid c" "child_ok c" "0 < pid" "pf \<noteq> Windows"
  shows "case get_process_result has_pidfd pf K handle pid out w of
    ((r, out'), w') \<Rightarrow>
      (case child_result c of
         Some n \<Rightarrow> r = 0 \<and> out' = n
       | None \<Rightarrow> r = -1 \<and> out' = out \<and> errno w' = EAGAIN pf)"
proof -
  have k: "waitid_tells pid c (fst (sys K (Proc (Waitid_pidfd handle)) w))"
    "waitpid_tells pid c (fst (sys K (Proc (Waitpid pid WNOHANG)) w))"
    using assms(1) by (simp_all add: knows_child_def sys_fst)
  show ?thesis
  proof (cases c)
    case Still_running
    with k assms(3,4) show ?thesis
      by (auto simp: get_process_result_def Let_def split_beta)
  next
    case (Exited n)
    with k assms(2-4) status_of_exit [of n] show ?thesis
      by (auto simp: get_process_result_def Let_def split_beta)
  next
    case (Killed s core)
    with k assms(2-4) status_of_kill [of s core] show ?thesis
      by (auto simp: get_process_result_def Let_def split_beta CLD_EXITED_def)
  qed
qed

definition child_kernel :: "int \<Rightarrow> unit kernel" where
  "child_kernel pid call k =
     (case call of
        Proc (Waitid_pidfd h) \<Rightarrow> (blank\<lparr>a_nums := [pid, 2, 9]\<rparr>, k)
      | Proc (Waitpid p f) \<Rightarrow> (blank\<lparr>a_ret := pid, a_num := 9\<rparr>, k)
      | _ \<Rightarrow> (blank, k))"

lemma knows_child_kernel: "knows_child (child_kernel 77) 5 77 (Killed 9 False)"
  by (simp add: knows_child_def child_kernel_def blank_def)

theorem process_result_same_witness:
  "fst (fst (get_process_result True Linux (child_kernel 77) 5 77 0 (boot ()))) = 0 \<and>
   snd (fst (get_process_result True Linux (child_kernel 77) 5 77 0 (boot ()))) = -9 \<and>
   snd (fst (get_process_result False MacOS (child_kernel 77) 5 77 0 (boot ()))) = -9"
  using process_result_same [OF knows_child_kernel, where pf = Linux and has_pidfd = True and out = 0 and w = "boot ()"]
    process_result_same [OF knows_child_kernel, where pf = MacOS and has_pidfd = False and out = 0 and w = "boot ()"]
  by (simp add: split_beta)

text \<open>
  The blocking job for systems without process descriptors reads the exit code without
  asking whether the child exited: a child that was killed is reported as exit code 0.
\<close>

lemma blocking_wait_hides_signal:
  assumes "fst (sys K (Proc (Waitpid (uw_pid j) 0)) w) = a" "waitpid_tells (uw_pid j) (Killed s core) a"
    and "0 < s" "s < 127"
  shows "\<exists>w'. unix_wait_for_process_job_worker pf K j w = Some (j\<lparr>ret := 0\<rparr>, w')"
  using assms by (auto simp: unix_wait_for_process_job_worker_def Let_def split_beta WEXITSTATUS_def)

subsection \<open>Locks\<close>

text \<open>
  Trying a lock, waiting for it in the thread pool and giving it back are about the same
  lock: on Windows the same single byte, on Unix the file.
\<close>

lemma lock_same_range:
  "calls (since w (snd (unlock_file Windows K h w))) = [WNet (W_UnlockFile h lo hi)] \<Longrightarrow>
   \<exists>f g. calls (since w (snd (try_lock_file Windows K h x w))) = [WFile (W_LockFileEx h f lo hi)] \<and>
     calls (since w (snd (the (flock_job_worker Windows K (make_flock_job h x) w)))) =
       [WFile (W_LockFileEx h g lo hi)] \<and> f = LOCKFILE_FAIL_IMMEDIATELY OR g"
  by (auto simp: unlock_file_def try_lock_file_def flock_job_worker_def make_flock_job_def
      err_unless_def Let_def split_beta world_simps since_def)

lemma File_try_lock_result:
  assumes "os_law K" "File_try_lock pf K h x w = (res, w')"
  shows "case res of
     Inr True \<Rightarrow> True
   | Inr False \<Rightarrow> errno_is_lock_violation pf (errno w')
   | Inl e \<Rightarrow> 0 < e \<and> e = errno w'"
proof -
  let ?c = "WFile (W_LockFileEx h (LOCKFILE_FAIL_IMMEDIATELY OR (if x then LOCKFILE_EXCLUSIVE_LOCK else 0))
      0xfffffffe 0xffffffff)"
  let ?u = "File (Flock h (LOCK_NB OR (if x then LOCK_EX else LOCK_SH)))"
  show ?thesis
    using assms(2) os_law_errno [OF assms(1), of ?c w] os_law_errno [OF assms(1), of ?u w]
    by (auto simp: File_try_lock_def try_lock_file_def Let_def split_beta split: if_splits)
qed

subsection \<open>Strings\<close>

text \<open>
  Without an offset a string is copied up to its terminator. With one the length is still
  that of the whole string: what is copied runs past the terminator by the offset.
\<close>

lemma c_buffer_as_string_whole:
  assumes "wcslen str = Some n" "2 * n \<le> length str"
  shows "c_buffer_as_string str 0 None = Some (take (2 * n) str)"
  using assms by (simp add: c_buffer_as_string_def memcpy_def blit_def slice_def mult.commute)

lemma c_buffer_as_string_offset:
  assumes "wcslen str = Some n" "length str = 2 * n + 2" "2 < offset"
  shows "c_buffer_as_string str offset None = None"
  using assms by (simp add: c_buffer_as_string_def memcpy_def)

end
