(* ===== verification/Foreign_Lib.thy ===== *)
theory Foreign_Lib
  imports Byte_Fields "HOL-Library.Multiset"
begin

text \<open>
  A library the code calls and whose source is not in the repository (the Windows security
  packages, OpenSSL). It is a parameter: a function that answers a call in a state of its
  own. An answer is the return value, the error number it set (if any), and what the call
  wrote through its output pointers: a number, a list of numbers, bytes, and the
  descriptors of an array of buffers. The world keeps the trace of calls and answers,
  oldest first.

  The second half reads from a trace which resources of the library are held: a call
  may gain some, lose some, and use some. \<open>own\<close> is \<open>None\<close> as soon as a call uses or
  gives back a resource that is not held.
\<close>

record lib_answer =
  r_ret :: int
  r_err :: "int option"
  r_num :: int
  r_nums :: "int list"
  r_bytes :: "byte list"
  r_bufs :: "(int \<times> int) list"

type_synonym ('c, 'k) lib = "'c \<Rightarrow> 'k \<Rightarrow> lib_answer \<times> 'k"

record ('c, 'k) lib_world =
  lib_st :: 'k
  last_error :: int
  trace :: "('c \<times> lib_answer) list"

definition ask :: "('c, 'k) lib \<Rightarrow> 'c \<Rightarrow> ('c, 'k) lib_world \<Rightarrow> lib_answer \<times> ('c, 'k) lib_world" where
  "ask L c w =
     (case L c (lib_st w) of
        (a, k) \<Rightarrow>
          (a, w\<lparr>lib_st := k,
                last_error := (case r_err a of None \<Rightarrow> last_error w | Some e \<Rightarrow> e),
                trace := trace w @ [(c, a)]\<rparr>))"

text \<open>A call whose result is not looked at, and \<open>SetLastError\<close>.\<close>

definition ask_do :: "('c, 'k) lib \<Rightarrow> 'c \<Rightarrow> ('c, 'k) lib_world \<Rightarrow> ('c, 'k) lib_world" where
  "ask_do L c w = snd (ask L c w)"

definition set_last_error :: "int \<Rightarrow> ('c, 'k) lib_world \<Rightarrow> ('c, 'k) lib_world" where
  "set_last_error e w = w\<lparr>last_error := e\<rparr>"

lemma fst_ask: "fst (ask L c w) = fst (L c (lib_st w))"
  by (simp add: ask_def split: prod.splits)

lemma trace_ask [world_simps]: "trace (snd (ask L c w)) = trace w @ [(c, fst (ask L c w))]"
  by (simp add: ask_def split: prod.splits)

lemma trace_ask_do [world_simps]: "trace (ask_do L c w) = trace w @ [(c, fst (ask L c w))]"
  by (simp add: ask_do_def world_simps)

lemma set_last_error_simps [simp, world_simps]:
  "last_error (set_last_error e w) = e" "trace (set_last_error e w) = trace w"
  "lib_st (set_last_error e w) = lib_st w"
  by (simp_all add: set_last_error_def)

lemma last_error_ask:
  "last_error (snd (ask L c w)) =
     (case r_err (fst (ask L c w)) of None \<Rightarrow> last_error w | Some e \<Rightarrow> e)"
  by (simp add: ask_def split: prod.splits)

section \<open>Resources\<close>

fun own ::
  "('c \<Rightarrow> lib_answer \<Rightarrow> 'r list) \<Rightarrow> ('c \<Rightarrow> 'r list) \<Rightarrow> ('c \<Rightarrow> 'r list) \<Rightarrow> 'r multiset \<Rightarrow>
     ('c \<times> lib_answer) list \<Rightarrow> 'r multiset option" where
  "own gains loses uses S [] = Some S"
| "own gains loses uses S ((c, a) # t) =
     (if set (uses c) \<subseteq> set_mset S \<and> mset (loses c) \<subseteq># S
      then own gains loses uses (S - mset (loses c) + mset (gains c a)) t
      else None)"

lemma own_append:
  "own g l u S (t @ t') = (case own g l u S t of None \<Rightarrow> None | Some S' \<Rightarrow> own g l u S' t')"
  by (induction g l u S t rule: own.induct) auto

lemma own_snoc:
  assumes "own g l u S t = Some S'" "set (u c) \<subseteq> set_mset S'" "mset (l c) \<subseteq># S'"
  shows "own g l u S (t @ [(c, a)]) = Some (S' - mset (l c) + mset (g c a))"
  using assms by (simp add: own_append)

text \<open>What is held at the end was gained and not lost.\<close>

lemma own_balance:
  "own g l u S t = Some S' \<Longrightarrow>
     S' + mset (concat (map (\<lambda>(c, a). l c) t)) = S + mset (concat (map (\<lambda>(c, a). g c a) t))"
proof (induction g l u S t arbitrary: S' rule: own.induct)
  case (2 gains loses uses S c a t)
  then have sub: "mset (loses c) \<subseteq># S"
    and own: "own gains loses uses (S - mset (loses c) + mset (gains c a)) t = Some S'"
    by (auto split: if_splits)
  let ?L = "mset (loses c)" and ?G = "mset (gains c a)"
  let ?RL = "mset (concat (map (\<lambda>(c, a). loses c) t))"
  let ?RG = "mset (concat (map (\<lambda>(c, a). gains c a) t))"
  have "set (uses c) \<subseteq> set_mset S" using 2(2) by (auto split: if_splits)
  then have "S' + ?RL = S - ?L + ?G + ?RG" using 2(1) own sub by simp
  then have "S' + ?RL + ?L = (S - ?L + ?L) + ?G + ?RG" by (simp add: union_ac)
  then have "S' + ?RL + ?L = S + ?G + ?RG" using sub by (simp add: subset_mset.diff_add)
  then show ?case by (simp add: union_ac)
qed auto

end
