(* ===== verification/Schannel.thy ===== *)
theory Schannel
  imports Foreign_Lib
begin

text \<open>
  \<open>tls/schannel.c\<close>: TLS by the Windows security package. The package is the parameter \<open>L\<close>
  (theory \<open>Foreign_Lib\<close>); a \<open>SecBuffer\<close> that is passed to it carries the bytes it designates,
  and the answer gives the descriptors and the bytes after the call: \<open>r_bufs\<close> the types and
  sizes (of a handshake call: the output buffer, then the input buffers), \<open>r_bytes\<close> what was
  written from the start of the output buffer (of \<open>DecryptMessage\<close> and
  \<open>EncryptMessage\<close>: from the start of the first buffer).
  A function is \<open>None\<close> where it would read or write outside an array.

  The lemmas say what one call of each function does; the property that every handle, store,
  certificate and chain is released exactly once stands in \<open>Schannel_Resources\<close>.
\<close>

section \<open>Calls\<close>

record sec_buffer =
  BufferType :: int
  cbBuffer :: int
  pvBuffer :: "byte list"

definition SECBUFFER_EMPTY :: int where "SECBUFFER_EMPTY = 0"
definition SECBUFFER_DATA :: int where "SECBUFFER_DATA = 1"
definition SECBUFFER_TOKEN :: int where "SECBUFFER_TOKEN = 2"
definition SECBUFFER_EXTRA :: int where "SECBUFFER_EXTRA = 5"
definition SECBUFFER_STREAM_TRAILER :: int where "SECBUFFER_STREAM_TRAILER = 6"
definition SECBUFFER_STREAM_HEADER :: int where "SECBUFFER_STREAM_HEADER = 7"

definition empty_buffer :: sec_buffer where
  "empty_buffer = \<lparr>BufferType = SECBUFFER_EMPTY, cbBuffer = 0, pvBuffer = []\<rparr>"

text \<open>
  Handles, certificates and blocks are numbers, zero for none. The credential call has the
  direction, the disabled protocols, the flags and the certificates; a handshake call the
  credential, the context if there is one, the target name, the requirements, the input
  descriptors if any and the output descriptor.
\<close>

datatype (plugins only: code size) sec_call =
    S_malloc
  | S_free int
  | S_AcquireCredentialsHandle bool "32 word" "32 word" "int list"
  | S_FreeCredentialsHandle int
  | S_InitializeSecurityContext int "int option" ptr "32 word" "sec_buffer list option" sec_buffer
  | S_AcceptSecurityContext int "int option" "32 word" "sec_buffer list" sec_buffer
  | S_DeleteSecurityContext int
  | S_QueryStreamSizes int
  | S_QueryRemoteCert int
  | S_QueryBindings int int
  | S_ApplyControlToken int sec_buffer
  | S_DecryptMessage int "sec_buffer list"
  | S_EncryptMessage int "sec_buffer list"
  | S_FreeContextBuffer int
  | S_CertOpenStore
  | S_CertCloseStore int
  | S_CertCreateCertificateContext "byte list"
  | S_CertFreeCertificateContext int
  | S_CertAddCertificateContextToStore int int
  | S_PFXImportCertStore "byte list"
  | S_CertFindCertificateInStore int
  | S_CertCreateCertificateChainEngine int
  | S_CertFreeCertificateChainEngine int
  | S_CertGetCertificateChain int int
  | S_CertFreeCertificateChain int
  | S_CertVerifyCertificateChainPolicy int ptr
  | S_BCryptGenRandom int
  | S_BCryptOpenAlgorithmProvider
  | S_BCryptCreateHash int
  | S_BCryptHashData int "byte list"
  | S_BCryptFinishHash int int
  | S_BCryptDestroyHash int
  | S_BCryptCloseAlgorithmProvider int

type_synonym 'k sec_lib = "(sec_call, 'k) lib"
type_synonym 'k sec_world = "(sec_call, 'k) lib_world"

text \<open>\<open>SECURITY_STATUS\<close> values, as \<open>int32_t\<close>: errors are negative, notes positive.\<close>

definition SEC_E_OK :: int where "SEC_E_OK = 0"
definition SEC_E_INCOMPLETE_MESSAGE :: int where "SEC_E_INCOMPLETE_MESSAGE = -2146893032"
definition SEC_E_NO_CREDENTIALS :: int where "SEC_E_NO_CREDENTIALS = -2146893042"
definition SEC_I_CONTINUE_NEEDED :: int where "SEC_I_CONTINUE_NEEDED = 0x90312"
definition SEC_I_CONTEXT_EXPIRED :: int where "SEC_I_CONTEXT_EXPIRED = 0x90317"
definition SEC_I_RENEGOTIATE :: int where "SEC_I_RENEGOTIATE = 0x90321"

lemmas sec_status = SEC_E_OK_def SEC_E_INCOMPLETE_MESSAGE_def SEC_E_NO_CREDENTIALS_def
  SEC_I_CONTINUE_NEEDED_def SEC_I_CONTEXT_EXPIRED_def SEC_I_RENEGOTIATE_def

lemmas sec_types = SECBUFFER_EMPTY_def SECBUFFER_DATA_def SECBUFFER_TOKEN_def
  SECBUFFER_EXTRA_def SECBUFFER_STREAM_TRAILER_def SECBUFFER_STREAM_HEADER_def

definition sec_ret :: "lib_answer \<Rightarrow> int" where "sec_ret a = i32 (r_ret a)"

text \<open>A descriptor after the call: the \<open>i\<close>-th of the answer, or unchanged.\<close>

definition buf_after :: "lib_answer \<Rightarrow> nat \<Rightarrow> sec_buffer \<Rightarrow> sec_buffer" where
  "buf_after a i b =
     (if i < length (r_bufs a)
      then b\<lparr>BufferType := fst (r_bufs a ! i), cbBuffer := snd (r_bufs a ! i)\<rparr> else b)"

text \<open>The bytes at \<open>array + offset\<close>, and writing there.\<close>

definition span :: "byte list \<Rightarrow> int \<Rightarrow> int \<Rightarrow> byte list option" where
  "span buf off n = (if 0 \<le> off \<and> 0 \<le> n then rd buf (nat off) (nat n) else None)"

definition store_at :: "byte list \<Rightarrow> int \<Rightarrow> byte list \<Rightarrow> byte list option" where
  "store_at buf off bs = (if 0 \<le> off then poke buf (nat off) bs else None)"

section \<open>The context\<close>

datatype sc_state = Uninitialized | HandleInitialized | ContextInitialized

record sec_context =
  sc_state :: sc_state
  sc_handle :: int
  sc_context :: int
  sc_attrs :: int
  sc_bytes_read :: int
  sc_bytes_to_write :: int
  sc_msg_trailer :: int
  sc_header :: int
  sc_trailer :: int
  sc_root_store :: int
  sc_chain_engine :: int
  sc_block :: int

text \<open>The switch falls through from a later state to the earlier ones.\<close>

definition schannel_free :: "'k sec_lib \<Rightarrow> sec_context \<Rightarrow> 'k sec_world \<Rightarrow> 'k sec_world" where
  "schannel_free L ctx w =
     (let w = (if sc_chain_engine ctx \<noteq> 0
               then ask_do L (S_CertFreeCertificateChainEngine (sc_chain_engine ctx)) w else w);
          w = (if sc_root_store ctx \<noteq> 0 then ask_do L (S_CertCloseStore (sc_root_store ctx)) w else w);
          w = (if sc_state ctx = ContextInitialized
               then ask_do L (S_DeleteSecurityContext (sc_context ctx)) w else w);
          w = (if sc_state ctx \<in> {ContextInitialized, HandleInitialized}
               then ask_do L (S_FreeCredentialsHandle (sc_handle ctx)) w else w)
      in ask_do L (S_free (sc_block ctx)) w)"

text \<open>
  The block comes from \<open>malloc\<close> with the contents \<open>junk\<close>; only the fields below are set.
  \<open>None\<close>: the result of \<open>malloc\<close> is not tested.
\<close>

definition schannel_new ::
  "'k sec_lib \<Rightarrow> sec_context \<Rightarrow> 'k sec_world \<Rightarrow> (sec_context \<times> 'k sec_world) option" where
  "schannel_new L junk w =
     (let (a, w) = ask L S_malloc w
      in if r_ret a = 0 then None
         else Some (junk\<lparr>sc_state := Uninitialized, sc_context := 0, sc_root_store := 0,
                sc_chain_engine := 0, sc_block := r_ret a\<rparr>, w))"

definition get_or_create_custom_root_store ::
  "'k sec_lib \<Rightarrow> sec_context \<Rightarrow> 'k sec_world \<Rightarrow> int \<times> sec_context \<times> 'k sec_world" where
  "get_or_create_custom_root_store L ctx w =
     (if sc_root_store ctx \<noteq> 0 then (sc_root_store ctx, ctx, w)
      else let (a, w) = ask L S_CertOpenStore w in (r_ret a, ctx\<lparr>sc_root_store := r_ret a\<rparr>, w))"

definition get_or_create_custom_root_chain_engine ::
  "'k sec_lib \<Rightarrow> sec_context \<Rightarrow> 'k sec_world \<Rightarrow> int \<times> sec_context \<times> 'k sec_world" where
  "get_or_create_custom_root_chain_engine L ctx w =
     (if sc_chain_engine ctx \<noteq> 0 then (sc_chain_engine ctx, ctx, w)
      else let (a, w) = ask L (S_CertCreateCertificateChainEngine (sc_root_store ctx)) w
           in if r_ret a = 0 then (0, ctx, w)
              else (r_num a, ctx\<lparr>sc_chain_engine := r_num a\<rparr>, w))"

definition schannel_bytes_read :: "sec_context \<Rightarrow> int" where "schannel_bytes_read = sc_bytes_read"
definition schannel_bytes_to_write :: "sec_context \<Rightarrow> int" where
  "schannel_bytes_to_write = sc_bytes_to_write"
definition schannel_msg_trailer :: "sec_context \<Rightarrow> int" where "schannel_msg_trailer = sc_msg_trailer"
definition schannel_header_size :: "sec_context \<Rightarrow> int" where
  "schannel_header_size ctx = i32 (sc_header ctx)"
definition schannel_trailer_size :: "sec_context \<Rightarrow> int" where
  "schannel_trailer_size ctx = i32 (sc_trailer ctx)"

section \<open>Credentials\<close>

definition SP_PROT_TLS1_CLIENT :: "32 word" where "SP_PROT_TLS1_CLIENT = 0x80"
definition SP_PROT_TLS1_0_SERVER :: "32 word" where "SP_PROT_TLS1_0_SERVER = 0x40"
definition SP_PROT_TLS1_1_SERVER :: "32 word" where "SP_PROT_TLS1_1_SERVER = 0x100"
definition SCH_CRED_MANUAL_CRED_VALIDATION :: "32 word" where
  "SCH_CRED_MANUAL_CRED_VALIDATION = 0x8"
definition SCH_CRED_IGNORE_NO_REVOCATION_CHECK :: "32 word" where
  "SCH_CRED_IGNORE_NO_REVOCATION_CHECK = 0x800"
definition SCH_USE_STRONG_CRYPTO :: "32 word" where "SCH_USE_STRONG_CRYPTO = 0x400000"

definition store_handle ::
  "lib_answer \<Rightarrow> sec_context \<Rightarrow> 'k sec_world \<Rightarrow> int \<times> sec_context \<times> 'k sec_world" where
  "store_handle a ctx w =
     (if sec_ret a = SEC_E_OK
      then (0, ctx\<lparr>sc_handle := r_num a, sc_state := HandleInitialized\<rparr>, w)
      else (sec_ret a, ctx, w))"

definition schannel_init_client ::
  "'k sec_lib \<Rightarrow> sec_context \<Rightarrow> bool \<Rightarrow> 'k sec_world \<Rightarrow> int \<times> sec_context \<times> 'k sec_world" where
  "schannel_init_client L ctx verify w =
     (let flags = SCH_CRED_IGNORE_NO_REVOCATION_CHECK OR
                    (if verify then 0 else SCH_CRED_MANUAL_CRED_VALIDATION);
          (a, w) = ask L (S_AcquireCredentialsHandle True SP_PROT_TLS1_CLIENT flags []) w
      in store_handle a ctx w)"

definition schannel_add_root_certificate ::
  "'k sec_lib \<Rightarrow> sec_context \<Rightarrow> byte list \<Rightarrow> 'k sec_world \<Rightarrow> int \<times> sec_context \<times> 'k sec_world" where
  "schannel_add_root_certificate L ctx der w =
     (let (a, w) = ask L (S_CertCreateCertificateContext der) w; cert = r_ret a
      in if cert = 0 then (i32 (last_error w), ctx, w)
         else let (store, ctx, w) = get_or_create_custom_root_store L ctx w
         in if store = 0
            then let w = ask_do L (S_CertFreeCertificateContext cert) w
                 in (i32 (last_error w), ctx, w)
            else let (ctx, w) =
                       (if sc_chain_engine ctx \<noteq> 0
                        then (ctx\<lparr>sc_chain_engine := 0\<rparr>,
                              ask_do L (S_CertFreeCertificateChainEngine (sc_chain_engine ctx)) w)
                        else (ctx, w));
                     (b, w) = ask L (S_CertAddCertificateContextToStore store cert) w
                 in if r_ret b = 0
                    then let err = i32 (last_error w);
                             w = ask_do L (S_CertFreeCertificateContext cert) w
                         in (err, ctx, w)
                    else (0, ctx, ask_do L (S_CertFreeCertificateContext cert) w))"

definition schannel_init_server ::
  "'k sec_lib \<Rightarrow> sec_context \<Rightarrow> byte list \<Rightarrow> 'k sec_world \<Rightarrow> int \<times> sec_context \<times> 'k sec_world" where
  "schannel_init_server L ctx pfx_content w =
     (let (a, w) = ask L (S_PFXImportCertStore pfx_content) w; cert_store = r_ret a
      in if cert_store = 0 then (i32 (last_error w), ctx, w)
         else let (b, w) = ask L (S_CertFindCertificateInStore cert_store) w; cert = r_ret b
         in if cert = 0
            then let w = ask_do L (S_CertCloseStore cert_store) w in (i32 (last_error w), ctx, w)
            else let (d, w) = ask L (S_AcquireCredentialsHandle False
                       (SP_PROT_TLS1_0_SERVER OR SP_PROT_TLS1_1_SERVER) SCH_USE_STRONG_CRYPTO [cert]) w;
                     w = ask_do L (S_CertFreeCertificateContext cert) w;
                     w = ask_do L (S_CertCloseStore cert_store) w
                 in store_handle d ctx w)"

section \<open>The handshake\<close>

datatype tls_state = Completed | WantRead | WantWrite | Tls_Error | Tls_Eof | ReNegotiate

fun tls_state_code :: "tls_state \<Rightarrow> int" where
  "tls_state_code Completed = 0"
| "tls_state_code WantRead = 1"
| "tls_state_code WantWrite = 2"
| "tls_state_code Tls_Error = 3"
| "tls_state_code Tls_Eof = 4"
| "tls_state_code ReNegotiate = 5"

definition ISC_REQ_CONFIDENTIALITY :: "32 word" where "ISC_REQ_CONFIDENTIALITY = 0x10"
definition ISC_REQ_INTEGRITY :: "32 word" where "ISC_REQ_INTEGRITY = 0x10000"
definition ASC_REQ_CONFIDENTIALITY :: "32 word" where "ASC_REQ_CONFIDENTIALITY = 0x10"
definition ASC_REQ_INTEGRITY :: "32 word" where "ASC_REQ_INTEGRITY = 0x20000"

text \<open>What a handshake call writes through \<open>phNewContext\<close> and \<open>pfContextAttr\<close>.\<close>

definition context_written :: "lib_answer \<Rightarrow> sec_context \<Rightarrow> sec_context" where
  "context_written a ctx =
     ctx\<lparr>sc_context := (if r_num a = 0 then sc_context ctx else r_num a),
         sc_attrs := (case r_nums a of [] \<Rightarrow> sc_attrs ctx | x # _ \<Rightarrow> x)\<rparr>"

definition query_stream_sizes ::
  "'k sec_lib \<Rightarrow> sec_context \<Rightarrow> 'k sec_world \<Rightarrow> sec_context \<times> 'k sec_world" where
  "query_stream_sizes L ctx w =
     (let (a, w) = ask L (S_QueryStreamSizes (sc_context ctx)) w
      in (case r_nums a of
            h # t # _ \<Rightarrow> ctx\<lparr>sc_header := h, sc_trailer := t\<rparr>
          | _ \<Rightarrow> ctx, w))"

text \<open>The bytes of the input that were used, as both functions compute it from \<open>input[1]\<close>.\<close>

definition count_read :: "int \<Rightarrow> sec_buffer \<Rightarrow> int" where
  "count_read len extra =
     (if BufferType extra = SECBUFFER_EXTRA then i32 (len - cbBuffer extra) else len)"

text \<open>
  The \<open>switch\<close> on the result; the two functions differ in whether the bytes of an expired
  context are counted (\<open>connect\<close> does).
\<close>

definition handshake_switch ::
  "'k sec_lib \<Rightarrow> bool \<Rightarrow> int \<Rightarrow> sec_buffer \<Rightarrow> sec_context \<Rightarrow> 'k sec_world \<Rightarrow>
     tls_state \<times> sec_context \<times> 'k sec_world" where
  "handshake_switch L client r out ctx w =
     (if r = SEC_E_OK
      then let ctx = ctx\<lparr>sc_bytes_to_write := i32 (cbBuffer out)\<rparr>;
               (ctx, w) = query_stream_sizes L ctx w
           in (Completed, ctx, w)
      else if r = SEC_E_INCOMPLETE_MESSAGE then (WantRead, ctx\<lparr>sc_bytes_read := 0\<rparr>, w)
      else if r = SEC_I_CONTINUE_NEEDED
      then (WantWrite, ctx\<lparr>sc_bytes_to_write := i32 (cbBuffer out)\<rparr>, w)
      else if r = SEC_I_CONTEXT_EXPIRED
      then (Tls_Eof, if client then ctx\<lparr>sc_bytes_to_write := i32 (cbBuffer out)\<rparr> else ctx, w)
      else (Tls_Error, ctx, set_last_error r w))"

text \<open>
  \<open>junk\<close> is the descriptor \<open>input[1]\<close> on the stack: it is initialised only when there is a
  context, but read in any case.
\<close>

definition schannel_connect ::
  "'k sec_lib \<Rightarrow> sec_buffer \<Rightarrow> sec_context \<Rightarrow> ptr \<Rightarrow> byte list \<Rightarrow> int \<Rightarrow> int \<Rightarrow>
     byte list \<Rightarrow> int \<Rightarrow> int \<Rightarrow> 'k sec_world \<Rightarrow>
     (tls_state \<times> sec_context \<times> byte list \<times> 'k sec_world) option" where
  "schannel_connect L junk ctx host_name in_buffer in_off in_len out_buffer out_off out_len w =
     (let started = (sc_state ctx = ContextInitialized)
      in case (if started then span in_buffer in_off in_len else Some [],
               span out_buffer out_off out_len) of
        (Some token, Some out_bytes) \<Rightarrow>
          let input = [\<lparr>BufferType = SECBUFFER_TOKEN, cbBuffer = in_len, pvBuffer = token\<rparr>, empty_buffer];
              output = \<lparr>BufferType = SECBUFFER_TOKEN, cbBuffer = out_len, pvBuffer = out_bytes\<rparr>;
              ctx = ctx\<lparr>sc_bytes_read := 0, sc_bytes_to_write := 0\<rparr>;
              (a, w) = ask L (S_InitializeSecurityContext (sc_handle ctx)
                         (if started then Some (sc_context ctx) else None) host_name
                         (ISC_REQ_CONFIDENTIALITY OR ISC_REQ_INTEGRITY)
                         (if started then Some input else None) output) w;
              ctx = context_written a ctx;
              extra = (if started then buf_after a 2 empty_buffer else junk);
              ctx = ctx\<lparr>sc_bytes_read := count_read in_len extra\<rparr>;
              (ret, ctx, w) = handshake_switch L True (sec_ret a) (buf_after a 0 output) ctx w;
              ctx = (if ret \<noteq> Tls_Error \<and> sc_state ctx = HandleInitialized
                     then ctx\<lparr>sc_state := ContextInitialized\<rparr> else ctx)
          in map_option (\<lambda>out_buffer. (ret, ctx, out_buffer, w)) (store_at out_buffer out_off (r_bytes a))
      | _ \<Rightarrow> None)"

definition schannel_accept ::
  "'k sec_lib \<Rightarrow> sec_context \<Rightarrow> byte list \<Rightarrow> int \<Rightarrow> int \<Rightarrow>
     byte list \<Rightarrow> int \<Rightarrow> int \<Rightarrow> 'k sec_world \<Rightarrow>
     (tls_state \<times> sec_context \<times> byte list \<times> 'k sec_world) option" where
  "schannel_accept L ctx in_buffer in_off in_len out_buffer out_off out_len w =
     (case (span in_buffer in_off in_len, span out_buffer out_off out_len) of
        (Some token, Some out_bytes) \<Rightarrow>
          let input = [\<lparr>BufferType = SECBUFFER_TOKEN, cbBuffer = in_len, pvBuffer = token\<rparr>, empty_buffer];
              output = \<lparr>BufferType = SECBUFFER_TOKEN, cbBuffer = out_len, pvBuffer = out_bytes\<rparr>;
              ctx = ctx\<lparr>sc_bytes_read := 0, sc_bytes_to_write := 0\<rparr>;
              (a, w) = ask L (S_AcceptSecurityContext (sc_handle ctx)
                         (if sc_state ctx = ContextInitialized then Some (sc_context ctx) else None)
                         (ASC_REQ_CONFIDENTIALITY OR ASC_REQ_INTEGRITY) input output) w;
              ctx = context_written a ctx;
              ctx = ctx\<lparr>sc_bytes_read := count_read in_len (buf_after a 2 empty_buffer)\<rparr>;
              (ret, ctx, w) = handshake_switch L False (sec_ret a) (buf_after a 0 output) ctx w;
              ctx = (if ret \<noteq> Tls_Error \<and> sc_state ctx = HandleInitialized \<and> sc_context ctx \<noteq> 0
                     then ctx\<lparr>sc_state := ContextInitialized\<rparr> else ctx)
          in map_option (\<lambda>out_buffer. (ret, ctx, out_buffer, w)) (store_at out_buffer out_off (r_bytes a))
      | _ \<Rightarrow> None)"

section \<open>Records\<close>

text \<open>
  The condition on the last buffer is an assignment, \<open>buffers[3].BufferType =
  SECBUFFER_EXTRA\<close>, so it holds always.
\<close>

definition schannel_read ::
  "'k sec_lib \<Rightarrow> sec_context \<Rightarrow> byte list \<Rightarrow> int \<Rightarrow> int \<Rightarrow> 'k sec_world \<Rightarrow>
     (tls_state \<times> sec_context \<times> byte list \<times> 'k sec_world) option" where
  "schannel_read L ctx buffer offset len w =
     (case span buffer offset len of
        None \<Rightarrow> None
      | Some msg \<Rightarrow>
          let buffers = [\<lparr>BufferType = SECBUFFER_DATA, cbBuffer = len, pvBuffer = msg\<rparr>,
                empty_buffer, empty_buffer, empty_buffer];
              ctx = ctx\<lparr>sc_bytes_read := 0\<rparr>;
              (a, w) = ask L (S_DecryptMessage (sc_context ctx) buffers) w;
              r = sec_ret a;
              trailer = cbBuffer (buf_after a 2 empty_buffer);
              extra = cbBuffer (buf_after a 3 empty_buffer);
              (ret, ctx, w) =
                (if r = SEC_E_OK
                 then (Completed, ctx\<lparr>sc_msg_trailer := i32 (i32 trailer - extra),
                                      sc_bytes_read := i32 (len - extra)\<rparr>, w)
                 else if r = SEC_E_INCOMPLETE_MESSAGE then (WantRead, ctx, w)
                 else if r = SEC_I_CONTEXT_EXPIRED then (Tls_Eof, ctx, w)
                 else if r = SEC_I_RENEGOTIATE then (ReNegotiate, ctx, w)
                 else (Tls_Error, ctx, set_last_error r w))
          in map_option (\<lambda>buffer. (ret, ctx, buffer, w)) (store_at buffer offset (r_bytes a)))"

text \<open>Header, payload and trailer lie one after the other from \<open>offset\<close> on.\<close>

definition schannel_write ::
  "'k sec_lib \<Rightarrow> sec_context \<Rightarrow> byte list \<Rightarrow> int \<Rightarrow> int \<Rightarrow> 'k sec_world \<Rightarrow>
     (tls_state \<times> sec_context \<times> byte list \<times> 'k sec_world) option" where
  "schannel_write L ctx buffer offset len w =
     (case (span buffer offset (sc_header ctx), span buffer (offset + sc_header ctx) len,
            span buffer (offset + sc_header ctx + len) (sc_trailer ctx)) of
        (Some header, Some payload, Some trailer) \<Rightarrow>
          let b0 = \<lparr>BufferType = SECBUFFER_STREAM_HEADER, cbBuffer = sc_header ctx, pvBuffer = header\<rparr>;
              b1 = \<lparr>BufferType = SECBUFFER_DATA, cbBuffer = len, pvBuffer = payload\<rparr>;
              b2 = \<lparr>BufferType = SECBUFFER_STREAM_TRAILER, cbBuffer = sc_trailer ctx, pvBuffer = trailer\<rparr>;
              ctx = ctx\<lparr>sc_bytes_to_write := 0\<rparr>;
              (a, w) = ask L (S_EncryptMessage (sc_context ctx) [b0, b1, b2, empty_buffer]) w;
              (ret, ctx, w) =
                (if sec_ret a = SEC_E_OK
                 then (WantWrite, ctx\<lparr>sc_bytes_to_write :=
                         i32 (cbBuffer (buf_after a 0 b0) + cbBuffer (buf_after a 1 b1) +
                              cbBuffer (buf_after a 2 b2))\<rparr>, w)
                 else (Tls_Error, ctx, set_last_error (sec_ret a) w))
          in map_option (\<lambda>buffer. (ret, ctx, buffer, w)) (store_at buffer offset (r_bytes a))
      | _ \<Rightarrow> None)"

definition SCHANNEL_SHUTDOWN :: nat where "SCHANNEL_SHUTDOWN = 1"

definition schannel_shutdown :: "'k sec_lib \<Rightarrow> sec_context \<Rightarrow> 'k sec_world \<Rightarrow> int \<times> 'k sec_world" where
  "schannel_shutdown L ctx w =
     (let (a, w) = ask L (S_ApplyControlToken (sc_context ctx)
            \<lparr>BufferType = SECBUFFER_TOKEN, cbBuffer = 4, pvBuffer = le_bytes 4 SCHANNEL_SHUTDOWN\<rparr>) w
      in (sec_ret a, w))"

section \<open>Certificates and channel bindings\<close>

text \<open>A certificate context: its address and its encoded bytes. Address zero is \<open>NULL\<close>.\<close>

record cert_context =
  cert_ptr :: int
  cert_encoded :: "byte list"

definition schannel_get_peer_certificate ::
  "'k sec_lib \<Rightarrow> sec_context \<Rightarrow> 'k sec_world \<Rightarrow> cert_context \<times> 'k sec_world" where
  "schannel_get_peer_certificate L ctx w =
     (let (a, w) = ask L (S_QueryRemoteCert (sc_context ctx)) w;
          err = sec_ret a
      in if err \<noteq> SEC_E_OK \<and> err \<noteq> SEC_E_NO_CREDENTIALS
         then (\<lparr>cert_ptr = 0, cert_encoded = []\<rparr>, set_last_error err w)
         else (\<lparr>cert_ptr = r_num a, cert_encoded = r_bytes a\<rparr>, set_last_error 0 w))"

definition schannel_free_peer_certificate ::
  "'k sec_lib \<Rightarrow> cert_context \<Rightarrow> 'k sec_world \<Rightarrow> 'k sec_world" where
  "schannel_free_peer_certificate L cert w = ask_do L (S_CertFreeCertificateContext (cert_ptr cert)) w"

definition schannel_peer_certificate_length :: "cert_context \<Rightarrow> int" where
  "schannel_peer_certificate_length cert = i32 (int (length (cert_encoded cert)))"

definition schannel_peer_certificate_blit_to ::
  "cert_context \<Rightarrow> byte list \<Rightarrow> int \<Rightarrow> byte list option" where
  "schannel_peer_certificate_blit_to cert buf len =
     (if 0 \<le> len then memcpy buf 0 (cert_encoded cert) 0 (nat len) else None)"

text \<open>
  \<open>SEC_CHANNEL_BINDINGS\<close>: eight 32-bit fields, the sizes and offsets of three areas; the
  application data is the third.
\<close>

record channel_bindings =
  cb_ptr :: int
  cb_struct :: "byte list"

definition get_channel_binding ::
  "'k sec_lib \<Rightarrow> sec_context \<Rightarrow> int \<Rightarrow> 'k sec_world \<Rightarrow> channel_bindings \<times> 'k sec_world" where
  "get_channel_binding L ctx attribute w =
     (let (a, w) = ask L (S_QueryBindings (sc_context ctx) attribute) w
      in if sec_ret a \<noteq> SEC_E_OK
         then (\<lparr>cb_ptr = 0, cb_struct = []\<rparr>, set_last_error (sec_ret a) w)
         else (\<lparr>cb_ptr = r_num a, cb_struct = r_bytes a\<rparr>, w))"

definition SECPKG_ATTR_UNIQUE_BINDINGS :: int where "SECPKG_ATTR_UNIQUE_BINDINGS = 25"
definition SECPKG_ATTR_ENDPOINT_BINDINGS :: int where "SECPKG_ATTR_ENDPOINT_BINDINGS = 26"

definition schannel_unique_channel_binding ::
  "'k sec_lib \<Rightarrow> sec_context \<Rightarrow> 'k sec_world \<Rightarrow> channel_bindings \<times> 'k sec_world" where
  "schannel_unique_channel_binding L ctx = get_channel_binding L ctx SECPKG_ATTR_UNIQUE_BINDINGS"

definition schannel_server_endpoint_channel_binding ::
  "'k sec_lib \<Rightarrow> sec_context \<Rightarrow> 'k sec_world \<Rightarrow> channel_bindings \<times> 'k sec_world" where
  "schannel_server_endpoint_channel_binding L ctx =
     get_channel_binding L ctx SECPKG_ATTR_ENDPOINT_BINDINGS"

definition schannel_channel_binding_length :: "channel_bindings \<Rightarrow> int option" where
  "schannel_channel_binding_length b = map_option (\<lambda>n. i32 (int n)) (le_at (cb_struct b) 24 4)"

definition schannel_channel_binding_blit_to ::
  "channel_bindings \<Rightarrow> byte list \<Rightarrow> int \<Rightarrow> byte list option" where
  "schannel_channel_binding_blit_to b buf len =
     (case le_at (cb_struct b) 28 4 of
        None \<Rightarrow> None
      | Some off \<Rightarrow> if 0 \<le> len then memcpy buf 0 (cb_struct b) off (nat len) else None)"

definition schannel_free_channel_binding ::
  "'k sec_lib \<Rightarrow> channel_bindings \<Rightarrow> 'k sec_world \<Rightarrow> 'k sec_world" where
  "schannel_free_channel_binding L b w = ask_do L (S_FreeContextBuffer (cb_ptr b)) w"

text \<open>
  \<open>get_peer_certificate\<close> and \<open>ChannelBinding::to_bytes\<close> of \<open>schannel.mbt\<close>: a null pointer
  is an error or, for the certificate, its absence (\<open>Inl 0\<close> for a binding: not
  available); an empty result panics.
\<close>

definition get_peer_certificate_win ::
  "'k sec_lib \<Rightarrow> sec_context \<Rightarrow> 'k sec_world \<Rightarrow> ((int + byte list option) \<times> 'k sec_world) option" where
  "get_peer_certificate_win L ctx w =
     (let (cert, w) = schannel_get_peer_certificate L ctx w
      in if cert_ptr cert = 0
         then Some (if last_error w \<noteq> 0 then Inl (last_error w) else Inr None, w)
         else let len = schannel_peer_certificate_length cert
         in if len \<le> 0 then None
            else map_option (\<lambda>result. (Inr (Some result), schannel_free_peer_certificate L cert w))
                   (schannel_peer_certificate_blit_to cert (replicate (nat len) 0) len))"

definition channel_binding_to_bytes ::
  "'k sec_lib \<Rightarrow> channel_bindings \<times> 'k sec_world \<Rightarrow> ((int + byte list) \<times> 'k sec_world) option" where
  "channel_binding_to_bytes L = (\<lambda>(b, w).
     (if cb_ptr b = 0 then Some (Inl (last_error w), w)
      else case schannel_channel_binding_length b of
             None \<Rightarrow> None
           | Some len \<Rightarrow>
               if len \<le> 0 then None
               else map_option (\<lambda>result. (Inr result, schannel_free_channel_binding L b w))
                      (schannel_channel_binding_blit_to b (replicate (nat len) 0) len)))"

text \<open>
  Verification against the roots that were added: the chain is built by the exclusive
  engine and checked under the SSL policy for the host name.
\<close>

definition schannel_verify_peer_certificate ::
  "'k sec_lib \<Rightarrow> sec_context \<Rightarrow> ptr \<Rightarrow> 'k sec_world \<Rightarrow> int \<times> sec_context \<times> 'k sec_world" where
  "schannel_verify_peer_certificate L ctx host_name w =
     (let (a, w) = ask L (S_QueryRemoteCert (sc_context ctx)) w; cert = r_num a
      in if sec_ret a \<noteq> SEC_E_OK then (sec_ret a, ctx, w)
         else let (engine, ctx, w) = get_or_create_custom_root_chain_engine L ctx w
         in if engine = 0
            then let w = ask_do L (S_CertFreeCertificateContext cert) w
                 in (i32 (last_error w), ctx, w)
            else let (b, w) = ask L (S_CertGetCertificateChain engine cert) w; chain = r_num b
            in if r_ret b = 0
               then let err = i32 (last_error w);
                        w = ask_do L (S_CertFreeCertificateContext cert) w
                    in (err, ctx, w)
               else let (d, w) = ask L (S_CertVerifyCertificateChainPolicy chain host_name) w;
                        err = i32 (last_error w);
                        w = ask_do L (S_CertFreeCertificateChain chain) w;
                        w = ask_do L (S_CertFreeCertificateContext cert) w
                    in (if r_ret d = 0 then err else i32 (r_num d), ctx, w))"

section \<open>Random bytes and SHA-1\<close>

definition STATUS_SUCCESS :: int where "STATUS_SUCCESS = 0"

definition tls_rand_bytes_win ::
  "'k sec_lib \<Rightarrow> byte list \<Rightarrow> int \<Rightarrow> 'k sec_world \<Rightarrow> (int \<times> byte list \<times> 'k sec_world) option" where
  "tls_rand_bytes_win L buf num w =
     (let (a, w) = ask L (S_BCryptGenRandom num) w
      in map_option (\<lambda>buf. (if sec_ret a = STATUS_SUCCESS then 1 else 0, buf, w))
           (poke buf 0 (r_bytes a)))"

text \<open>The exits of the function: release the hash, release the algorithm, report.\<close>

definition sha1_exit :: "int \<Rightarrow> byte list \<Rightarrow> 'k sec_world \<Rightarrow> int \<times> byte list \<times> 'k sec_world" where
  "sha1_exit st out w =
     (if st \<noteq> STATUS_SUCCESS then (0, out, set_last_error st w) else (1, out, w))"

definition sha1_exit_with_algorithm ::
  "'k sec_lib \<Rightarrow> int \<Rightarrow> int \<Rightarrow> byte list \<Rightarrow> 'k sec_world \<Rightarrow> int \<times> byte list \<times> 'k sec_world" where
  "sha1_exit_with_algorithm L algorithm st out w =
     sha1_exit st out (ask_do L (S_BCryptCloseAlgorithmProvider algorithm) w)"

definition sha1_exit_with_hasher ::
  "'k sec_lib \<Rightarrow> int \<Rightarrow> int \<Rightarrow> int \<Rightarrow> byte list \<Rightarrow> 'k sec_world \<Rightarrow> int \<times> byte list \<times> 'k sec_world" where
  "sha1_exit_with_hasher L algorithm hasher st out w =
     sha1_exit_with_algorithm L algorithm st out (ask_do L (S_BCryptDestroyHash hasher) w)"

definition tls_SHA1_win ::
  "'k sec_lib \<Rightarrow> byte list \<Rightarrow> byte list \<Rightarrow> 'k sec_world \<Rightarrow> (int \<times> byte list \<times> 'k sec_world) option" where
  "tls_SHA1_win L data out w =
     (let (a, w) = ask L S_BCryptOpenAlgorithmProvider w; algorithm = r_num a
      in if sec_ret a \<noteq> STATUS_SUCCESS then Some (sha1_exit (sec_ret a) out w)
         else let (b, w) = ask L (S_BCryptCreateHash algorithm) w; hasher = r_num b
         in if sec_ret b \<noteq> STATUS_SUCCESS
            then Some (sha1_exit_with_algorithm L algorithm (sec_ret b) out w)
            else let (d, w) = ask L (S_BCryptHashData hasher data) w
            in if sec_ret d \<noteq> STATUS_SUCCESS
               then Some (sha1_exit_with_hasher L algorithm hasher (sec_ret d) out w)
               else let (e, w) = ask L (S_BCryptFinishHash hasher 20) w
                    in map_option (\<lambda>out. sha1_exit_with_hasher L algorithm hasher (sec_ret e) out w)
                         (poke out 0 (r_bytes e)))"

text \<open>
  \<open>rand_bytes\<close> and \<open>sha1\<close> of \<open>crypto_util.mbt\<close>: the array is made of zeros, and an error is
  raised (here: \<open>Inl\<close>) only when the last error is set.
\<close>

definition rand_bytes_win ::
  "'k sec_lib \<Rightarrow> nat \<Rightarrow> 'k sec_world \<Rightarrow> ((int + byte list) \<times> 'k sec_world) option" where
  "rand_bytes_win L num w =
     map_option (\<lambda>(r, result, w).
         (if r = 0 \<and> last_error w \<noteq> 0 then Inl (last_error w) else Inr result, w))
       (tls_rand_bytes_win L (replicate num 0) (int num) w)"

definition sha1_win ::
  "'k sec_lib \<Rightarrow> byte list \<Rightarrow> 'k sec_world \<Rightarrow> ((int + byte list) \<times> 'k sec_world) option" where
  "sha1_win L src w =
     map_option (\<lambda>(r, result, w).
         (if r = 0 \<and> last_error w \<noteq> 0 then Inl (last_error w) else Inr result, w))
       (tls_SHA1_win L src (replicate 20 0) w)"

end
