(* ===== verification/Schannel_Resources.thy ===== *)
theory Schannel_Resources
  imports Schannel
begin

text \<open>
  What the security package gives out and takes back (\<open>sec_gains\<close>, \<open>sec_loses\<close>,
  \<open>sec_uses\<close>), the documented behaviour of its calls (\<open>sec_law\<close>), and the operations of
  \<open>schannel.mbt\<close> on a context as a step relation. The theorem: in every reachable state
  what is held is exactly what the context records, nothing is used or released that is not held, no
  operation leaves its buffers, and freeing the context leaves nothing behind.
\<close>

section \<open>Resources of the security package\<close>

datatype sec_resource =
    Block int | Credential int | Security_context int | Cert_store int | Chain_engine int
  | Certificate int | Cert_chain int | Bindings int | Algorithm int | Hasher int

definition live :: "(int \<Rightarrow> sec_resource) \<Rightarrow> int \<Rightarrow> sec_resource list" where
  "live R h = (if h = 0 then [] else [R h])"

fun sec_gains :: "sec_call \<Rightarrow> lib_answer \<Rightarrow> sec_resource list" where
  "sec_gains S_malloc a = [Block (r_ret a)]"
| "sec_gains (S_AcquireCredentialsHandle _ _ _ _) a =
     (if sec_ret a = SEC_E_OK then [Credential (r_num a)] else [])"
| "sec_gains (S_InitializeSecurityContext _ None _ _ _ _) a = live Security_context (r_num a)"
| "sec_gains (S_AcceptSecurityContext _ None _ _ _) a = live Security_context (r_num a)"
| "sec_gains (S_QueryRemoteCert _) a =
     (if sec_ret a = SEC_E_OK then live Certificate (r_num a) else [])"
| "sec_gains (S_QueryBindings _ _) a = (if sec_ret a = SEC_E_OK then live Bindings (r_num a) else [])"
| "sec_gains S_CertOpenStore a = live Cert_store (r_ret a)"
| "sec_gains (S_PFXImportCertStore _) a = live Cert_store (r_ret a)"
| "sec_gains (S_CertCreateCertificateContext _) a = live Certificate (r_ret a)"
| "sec_gains (S_CertFindCertificateInStore _) a = live Certificate (r_ret a)"
| "sec_gains (S_CertCreateCertificateChainEngine _) a =
     (if r_ret a \<noteq> 0 then live Chain_engine (r_num a) else [])"
| "sec_gains (S_CertGetCertificateChain _ _) a = (if r_ret a \<noteq> 0 then [Cert_chain (r_num a)] else [])"
| "sec_gains S_BCryptOpenAlgorithmProvider a =
     (if sec_ret a = STATUS_SUCCESS then [Algorithm (r_num a)] else [])"
| "sec_gains (S_BCryptCreateHash _) a = (if sec_ret a = STATUS_SUCCESS then [Hasher (r_num a)] else [])"
| "sec_gains _ a = []"

fun sec_loses :: "sec_call \<Rightarrow> sec_resource list" where
  "sec_loses (S_free p) = [Block p]"
| "sec_loses (S_FreeCredentialsHandle h) = [Credential h]"
| "sec_loses (S_DeleteSecurityContext h) = live Security_context h"
| "sec_loses (S_CertCloseStore s) = live Cert_store s"
| "sec_loses (S_CertFreeCertificateContext p) = live Certificate p"
| "sec_loses (S_CertFreeCertificateChainEngine e) = live Chain_engine e"
| "sec_loses (S_CertFreeCertificateChain p) = [Cert_chain p]"
| "sec_loses (S_FreeContextBuffer p) = live Bindings p"
| "sec_loses (S_BCryptDestroyHash h) = [Hasher h]"
| "sec_loses (S_BCryptCloseAlgorithmProvider h) = [Algorithm h]"
| "sec_loses _ = []"

fun sec_uses :: "sec_call \<Rightarrow> sec_resource list" where
  "sec_uses (S_AcquireCredentialsHandle _ _ _ cs) = concat (map (live Certificate) cs)"
| "sec_uses (S_InitializeSecurityContext h cx _ _ _ _) =
     Credential h # (case cx of None \<Rightarrow> [] | Some c \<Rightarrow> live Security_context c)"
| "sec_uses (S_AcceptSecurityContext h cx _ _ _) =
     Credential h # (case cx of None \<Rightarrow> [] | Some c \<Rightarrow> live Security_context c)"
| "sec_uses (S_QueryStreamSizes c) = live Security_context c"
| "sec_uses (S_QueryRemoteCert c) = live Security_context c"
| "sec_uses (S_QueryBindings c _) = live Security_context c"
| "sec_uses (S_ApplyControlToken c _) = live Security_context c"
| "sec_uses (S_DecryptMessage c _) = live Security_context c"
| "sec_uses (S_EncryptMessage c _) = live Security_context c"
| "sec_uses (S_CertAddCertificateContextToStore s c) = live Cert_store s @ live Certificate c"
| "sec_uses (S_CertFindCertificateInStore s) = live Cert_store s"
| "sec_uses (S_CertCreateCertificateChainEngine s) = live Cert_store s"
| "sec_uses (S_CertGetCertificateChain e c) = live Chain_engine e @ live Certificate c"
| "sec_uses (S_CertVerifyCertificateChainPolicy p _) = [Cert_chain p]"
| "sec_uses (S_BCryptCreateHash h) = [Algorithm h]"
| "sec_uses (S_BCryptHashData h _) = [Hasher h]"
| "sec_uses (S_BCryptFinishHash h _) = [Hasher h]"
| "sec_uses _ = []"

definition sec_held :: "(sec_call \<times> lib_answer) list \<Rightarrow> sec_resource multiset option" where
  "sec_held t = own sec_gains sec_loses sec_uses {#} t"

section \<open>Documented behaviour\<close>

text \<open>
  A handshake call that is given no context makes one only when it succeeds or continues;
  one that is given a context answers with it. It writes at most the room of the output
  buffer, whose new size is the number of bytes written, and the bytes it leaves unread are at
  most those it was given. Nothing is written past the buffers of a record. \<open>malloc\<close> of a
  small block succeeds. A certificate has an encoding, a channel binding its
  application data.
\<close>

definition context_law :: "int option \<Rightarrow> lib_answer \<Rightarrow> bool" where
  "context_law cx a =
     (case cx of
        None \<Rightarrow> r_num a \<noteq> 0 \<longrightarrow> sec_ret a = SEC_E_OK \<or> sec_ret a = SEC_I_CONTINUE_NEEDED
      | Some h \<Rightarrow> r_num a = 0 \<or> r_num a = h)"

definition token_law :: "sec_buffer \<Rightarrow> lib_answer \<Rightarrow> bool" where
  "token_law out a \<longleftrightarrow>
     length (r_bytes a) \<le> nat (cbBuffer out) \<and>
     (sec_ret a \<in> {SEC_E_OK, SEC_I_CONTINUE_NEEDED, SEC_I_CONTEXT_EXPIRED} \<longrightarrow>
        cbBuffer (buf_after a 0 out) = int (length (r_bytes a)))"

definition extra_law :: "sec_buffer list \<Rightarrow> lib_answer \<Rightarrow> bool" where
  "extra_law input a =
     (let e = buf_after a 2 empty_buffer
      in BufferType e = SECBUFFER_EXTRA \<longrightarrow> 0 \<le> cbBuffer e \<and> (\<forall>b \<in> set (take 1 input). cbBuffer e \<le> cbBuffer b))"

fun sec_answer_law :: "sec_call \<Rightarrow> lib_answer \<Rightarrow> bool" where
  "sec_answer_law S_malloc a = (r_ret a \<noteq> 0)"
| "sec_answer_law (S_InitializeSecurityContext _ cx _ _ input out) a =
     (context_law cx a \<and> token_law out a \<and>
      (case input of None \<Rightarrow> True | Some bs \<Rightarrow> extra_law bs a))"
| "sec_answer_law (S_AcceptSecurityContext _ cx _ input out) a =
     (context_law cx a \<and> token_law out a \<and> extra_law input a)"
| "sec_answer_law (S_QueryRemoteCert _) a =
     (if sec_ret a = SEC_E_OK
      then r_num a \<noteq> 0 \<longrightarrow> 0 < length (r_bytes a) \<and> length (r_bytes a) < 2 ^ 31
      else r_num a = 0)"
| "sec_answer_law (S_QueryBindings _ _) a =
     (sec_ret a = SEC_E_OK \<longrightarrow> r_num a \<noteq> 0 \<longrightarrow>
        (case (le_at (r_bytes a) 24 4, le_at (r_bytes a) 28 4) of
           (Some n, Some off) \<Rightarrow> 0 < n \<and> n < 2 ^ 31 \<and> off + n \<le> length (r_bytes a)
         | _ \<Rightarrow> False))"
| "sec_answer_law (S_DecryptMessage _ bs) a = (length (r_bytes a) \<le> length (concat (map pvBuffer bs)))"
| "sec_answer_law (S_EncryptMessage _ bs) a = (length (r_bytes a) \<le> length (concat (map pvBuffer bs)))"
| "sec_answer_law (S_BCryptGenRandom n) a = (length (r_bytes a) \<le> nat n)"
| "sec_answer_law (S_BCryptFinishHash _ n) a = (length (r_bytes a) \<le> nat n)"
| "sec_answer_law _ a = True"

definition sec_law :: "'k sec_lib \<Rightarrow> bool" where
  "sec_law L \<longleftrightarrow> (\<forall>c k. sec_answer_law c (fst (L c k)))"

text \<open>A package that keeps the law, for the witnesses.\<close>

definition no_answer :: lib_answer where
  "no_answer = \<lparr>r_ret = 0, r_err = None, r_num = 0, r_nums = [], r_bytes = [], r_bufs = []\<rparr>"

definition lawful_sec :: "'k sec_lib \<Rightarrow> 'k sec_lib" where
  "lawful_sec L c k =
     (case L c k of (a, k') \<Rightarrow> (if sec_answer_law c a then a else no_answer\<lparr>r_ret := -1\<rparr>, k'))"

lemma sec_law_lawful: "sec_law (lawful_sec L)"
proof -
  have "sec_answer_law c (no_answer\<lparr>r_ret := -1\<rparr>)" for c
    by (cases c) (auto simp: no_answer_def context_law_def token_law_def extra_law_def Let_def
        buf_after_def empty_buffer_def sec_types sec_status sec_ret_def i32_def split: option.splits)
  then show ?thesis
    by (auto simp: sec_law_def lawful_sec_def split: prod.splits)
qed

section \<open>One call and what is held\<close>

lemma sec_law_ask: "sec_law L \<Longrightarrow> sec_answer_law c (fst (ask L c w))"
  by (simp add: sec_law_def fst_ask)

lemma sec_law_answer: "sec_law L \<Longrightarrow> ask L c w = (a, w') \<Longrightarrow> sec_answer_law c a"
  by (metis fst_conv sec_law_ask)

lemma sec_ask:
  assumes "ask L c w = (a, w')" "sec_law L" "sec_held (trace w) = Some S"
    "set (sec_uses c) \<subseteq> set_mset S" "mset (sec_loses c) \<subseteq># S"
  shows "sec_held (trace w') = Some (S - mset (sec_loses c) + mset (sec_gains c a))"
    and "sec_answer_law c a"
proof -
  have "a = fst (ask L c w)" "w' = snd (ask L c w)" using assms(1) by simp_all
  then show "sec_held (trace w') = Some (S - mset (sec_loses c) + mset (sec_gains c a))"
    and "sec_answer_law c a"
    using assms(2-5) by (simp_all add: sec_held_def trace_ask own_snoc sec_law_ask)
qed

lemma sec_held_ask:
  assumes "sec_held (trace w) = Some S" "set (sec_uses c) \<subseteq> set_mset S" "mset (sec_loses c) \<subseteq># S"
  shows "sec_held (trace (snd (ask L c w))) =
     Some (S - mset (sec_loses c) + mset (sec_gains c (fst (ask L c w))))"
  using assms by (simp add: sec_held_def trace_ask own_snoc)

lemma sec_held_do:
  assumes "sec_held (trace w) = Some S" "set (sec_uses c) \<subseteq> set_mset S" "mset (sec_loses c) \<subseteq># S"
    "\<And>a. sec_gains c a = []"
  shows "sec_held (trace (ask_do L c w)) = Some (S - mset (sec_loses c))"
  using assms by (simp add: sec_held_def trace_ask_do own_snoc)

text \<open>What a context records.\<close>

definition recorded :: "sec_context \<Rightarrow> sec_resource multiset" where
  "recorded ctx = mset ([Block (sc_block ctx)] @
     (if sc_state ctx = Uninitialized then [] else [Credential (sc_handle ctx)]) @
     live Security_context (sc_context ctx) @ live Cert_store (sc_root_store ctx) @
     live Chain_engine (sc_chain_engine ctx))"

definition sec_inv :: "sec_context \<Rightarrow> 'k sec_world \<Rightarrow> bool" where
  "sec_inv ctx w \<longleftrightarrow>
     sec_held (trace w) = Some (recorded ctx) \<and>
     (sc_context ctx \<noteq> 0 \<longrightarrow> sc_state ctx = ContextInitialized)"

lemma schannel_free_leaves_nothing:
  assumes "sec_inv ctx w"
  shows "sec_held (trace (schannel_free L ctx w)) = Some {#}"
  using assms
  by (cases "sc_state ctx")
    (auto simp: sec_inv_def schannel_free_def recorded_def Let_def sec_held_do live_def)

section \<open>Operations on a context\<close>

datatype (plugins only: code size) tls_op =
    Init_client bool
  | Init_server "byte list"
  | Add_root "byte list"
  | Tls_connect sec_buffer ptr "byte list" int int "byte list" int int
  | Tls_accept "byte list" int int "byte list" int int
  | Tls_read "byte list" int int
  | Tls_write "byte list" int int
  | Tls_shutdown
  | Tls_peer_certificate
  | Tls_unique_binding
  | Tls_endpoint_binding
  | Tls_verify ptr

definition kept_context ::
  "(tls_state \<times> sec_context \<times> byte list \<times> 'k sec_world) option \<Rightarrow> (sec_context \<times> 'k sec_world) option" where
  "kept_context r = map_option (\<lambda>(_, ctx, _, w). (ctx, w)) r"

fun run_op :: "'k sec_lib \<Rightarrow> tls_op \<Rightarrow> sec_context \<Rightarrow> 'k sec_world \<Rightarrow> (sec_context \<times> 'k sec_world) option" where
  "run_op L (Init_client verify) ctx w = Some (snd (schannel_init_client L ctx verify w))"
| "run_op L (Init_server pfx) ctx w = Some (snd (schannel_init_server L ctx pfx w))"
| "run_op L (Add_root der) ctx w = Some (snd (schannel_add_root_certificate L ctx der w))"
| "run_op L (Tls_connect junk host ib io il ob oo ol) ctx w =
     kept_context (schannel_connect L junk ctx host ib io il ob oo ol w)"
| "run_op L (Tls_accept ib io il ob oo ol) ctx w = kept_context (schannel_accept L ctx ib io il ob oo ol w)"
| "run_op L (Tls_read b off len) ctx w = kept_context (schannel_read L ctx b off len w)"
| "run_op L (Tls_write b off len) ctx w = kept_context (schannel_write L ctx b off len w)"
| "run_op L Tls_shutdown ctx w = Some (ctx, snd (schannel_shutdown L ctx w))"
| "run_op L Tls_peer_certificate ctx w =
     map_option (\<lambda>(_, w). (ctx, w)) (get_peer_certificate_win L ctx w)"
| "run_op L Tls_unique_binding ctx w =
     map_option (\<lambda>(_, w). (ctx, w)) (channel_binding_to_bytes L (schannel_unique_channel_binding L ctx w))"
| "run_op L Tls_endpoint_binding ctx w =
     map_option (\<lambda>(_, w). (ctx, w))
       (channel_binding_to_bytes L (schannel_server_endpoint_channel_binding L ctx w))"
| "run_op L (Tls_verify host) ctx w = Some (snd (schannel_verify_peer_certificate L ctx host w))"

text \<open>
  What the callers in \<open>schannel.mbt\<close> see to: a context is initialised once and before the
  handshake, and the arguments lie in their arrays.
\<close>

fun op_fits :: "sec_context \<Rightarrow> tls_op \<Rightarrow> bool" where
  "op_fits ctx (Init_client _) = (sc_state ctx = Uninitialized)"
| "op_fits ctx (Init_server _) = (sc_state ctx = Uninitialized)"
| "op_fits ctx (Tls_connect _ _ ib io il ob oo ol) =
     (sc_state ctx \<noteq> Uninitialized \<and> span ib io il \<noteq> None \<and> span ob oo ol \<noteq> None)"
| "op_fits ctx (Tls_accept ib io il ob oo ol) =
     (sc_state ctx \<noteq> Uninitialized \<and> span ib io il \<noteq> None \<and> span ob oo ol \<noteq> None)"
| "op_fits ctx (Tls_read b off len) = (span b off len \<noteq> None)"
| "op_fits ctx (Tls_write b off len) =
     (0 \<le> off \<and> 0 \<le> sc_header ctx \<and> 0 \<le> len \<and> 0 \<le> sc_trailer ctx \<and>
      off + sc_header ctx + len + sc_trailer ctx \<le> int (length b))"
| "op_fits ctx _ = True"

inductive sec_reach :: "'k sec_lib \<Rightarrow> sec_context \<Rightarrow> 'k sec_world \<Rightarrow> bool" for L where
  sec_start: "trace w = [] \<Longrightarrow> schannel_new L junk w = Some (ctx, w') \<Longrightarrow> sec_reach L ctx w'"
| sec_step: "sec_reach L ctx w \<Longrightarrow> op_fits ctx op \<Longrightarrow> run_op L op ctx w = Some (ctx', w') \<Longrightarrow>
    sec_reach L ctx' w'"

section \<open>Every operation keeps the record\<close>

lemma schannel_new_inv:
  assumes "sec_law L" "trace w = []"
  obtains ctx w' where "schannel_new L junk w = Some (ctx, w')" "sec_inv ctx w'"
proof -
  have held: "sec_held (trace w) = Some {#}" by (simp add: assms(2) sec_held_def)
  obtain a w' where aw: "ask L S_malloc w = (a, w')" by fastforce
  note sec_ask [OF aw assms(1) held]
  then show ?thesis
    by (intro that) (auto simp: aw schannel_new_def sec_inv_def recorded_def live_def)
qed

lemma store_handle_inv:
  assumes "sec_held (trace w) = Some (recorded ctx + (if sec_ret a = SEC_E_OK then {#Credential (r_num a)#} else {#}))"
    "sc_state ctx = Uninitialized" "sc_context ctx = 0"
    "store_handle a ctx w = (r, ctx', w')"
  shows "sec_inv ctx' w'"
  using assms by (auto simp: store_handle_def sec_inv_def recorded_def split: if_splits)

lemma init_client_inv:
  assumes "sec_law L" "sec_inv ctx w" "sc_state ctx = Uninitialized"
    "schannel_init_client L ctx verify w = (r, ctx', w')"
  shows "sec_inv ctx' w'"
proof -
  let ?f = "SCH_CRED_IGNORE_NO_REVOCATION_CHECK OR (if verify then 0 else SCH_CRED_MANUAL_CRED_VALIDATION)"
  let ?c = "S_AcquireCredentialsHandle True SP_PROT_TLS1_CLIENT ?f []"
  have "sec_held (trace w) = Some (recorded ctx)" "sc_context ctx = 0"
    using assms by (auto simp: sec_inv_def)
  moreover obtain a w1 where aw: "ask L ?c w = (a, w1)" by fastforce
  ultimately have "sec_held (trace w1) = Some (recorded ctx + mset (sec_gains ?c a))"
    using sec_ask(1) [OF aw assms(1)] by simp
  moreover have "store_handle a ctx w1 = (r, ctx', w')"
    using assms(4) by (simp add: schannel_init_client_def aw)
  ultimately show ?thesis
    using assms(3) \<open>sc_context ctx = 0\<close> by (intro store_handle_inv) auto
qed

lemma init_server_inv:
  assumes "sec_inv ctx w" "sc_state ctx = Uninitialized"
    "schannel_init_server L ctx pfx w = (r, ctx', w')"
  shows "sec_inv ctx' w'"
  using assms
  by (auto simp: sec_inv_def schannel_init_server_def Let_def split_beta sec_held_ask sec_held_do
      store_handle_def recorded_def live_def split: if_splits)

lemma get_root_store_inv:
  assumes "sec_held (trace w) = Some (recorded ctx + S)"
    "get_or_create_custom_root_store L ctx w = (store, ctx', w')"
  shows "sec_held (trace w') = Some (recorded ctx' + S)" "sc_root_store ctx' = store"
    "sc_context ctx' = sc_context ctx" "sc_state ctx' = sc_state ctx"
  using assms
  by (auto simp: get_or_create_custom_root_store_def Let_def split_beta sec_held_ask
      recorded_def live_def split: if_splits)

lemma get_chain_engine_inv:
  assumes "sec_held (trace w) = Some (recorded ctx + S)"
    "get_or_create_custom_root_chain_engine L ctx w = (engine, ctx', w')"
  shows "sec_held (trace w') = Some (recorded ctx' + S)" "engine \<noteq> 0 \<Longrightarrow> sc_chain_engine ctx' = engine"
    "sc_context ctx' = sc_context ctx" "sc_state ctx' = sc_state ctx"
  using assms
  by (auto simp: get_or_create_custom_root_chain_engine_def Let_def split_beta sec_held_ask
      recorded_def live_def split: if_splits)

lemma recorded_update [simp]:
  "recorded (ctx\<lparr>sc_attrs := x\<rparr>) = recorded ctx"
  "recorded (ctx\<lparr>sc_bytes_read := x\<rparr>) = recorded ctx"
  "recorded (ctx\<lparr>sc_bytes_to_write := x\<rparr>) = recorded ctx"
  "recorded (ctx\<lparr>sc_msg_trailer := x\<rparr>) = recorded ctx"
  "recorded (ctx\<lparr>sc_header := x\<rparr>) = recorded ctx"
  "recorded (ctx\<lparr>sc_trailer := x\<rparr>) = recorded ctx"
  by (simp_all add: recorded_def)

lemma recorded_live [simp]:
  "set (live Security_context (sc_context ctx)) \<subseteq> set_mset (recorded ctx)"
  "set (live Cert_store (sc_root_store ctx)) \<subseteq> set_mset (recorded ctx)"
  "set (live Chain_engine (sc_chain_engine ctx)) \<subseteq> set_mset (recorded ctx)"
  by (auto simp: recorded_def)

lemma drop_engine_inv:
  assumes "sec_held (trace w) = Some (recorded ctx + S)" "sc_chain_engine ctx \<noteq> 0"
  shows "sec_held (trace (ask_do L (S_CertFreeCertificateChainEngine (sc_chain_engine ctx)) w)) =
    Some (recorded (ctx\<lparr>sc_chain_engine := 0\<rparr>) + S)"
  using assms by (simp add: sec_held_do recorded_def live_def)

lemma free_certificate_inv:
  assumes "sec_held (trace w) = Some (R + {#Certificate cert#})" "cert \<noteq> 0"
  shows "sec_held (trace (ask_do L (S_CertFreeCertificateContext cert) w)) = Some R"
  using assms by (simp add: sec_held_do live_def)

lemma add_root_certificate_inv:
  assumes "sec_inv ctx w" "schannel_add_root_certificate L ctx der w = (r, ctx', w')"
  shows "sec_inv ctx' w'"
proof -
  let ?c = "S_CertCreateCertificateContext der"
  obtain a w1 where aw: "ask L ?c w = (a, w1)" by fastforce
  have held: "sec_held (trace w1) = Some (recorded ctx + mset (live Certificate (r_ret a)))"
    using assms(1) sec_held_ask [of w "recorded ctx" ?c L] by (simp add: sec_inv_def aw)
  obtain store ctx1 w2 where gs: "get_or_create_custom_root_store L ctx w1 = (store, ctx1, w2)"
    by (cases "get_or_create_custom_root_store L ctx w1") auto
  note st = get_root_store_inv [OF held gs]
  define d where "d = (if sc_chain_engine ctx1 \<noteq> 0
      then (ctx1\<lparr>sc_chain_engine := 0\<rparr>,
            ask_do L (S_CertFreeCertificateChainEngine (sc_chain_engine ctx1)) w2)
      else (ctx1, w2))"
  obtain ctx2 w3 where d2: "d = (ctx2, w3)" by fastforce
  have h3: "sec_held (trace w3) = Some (recorded ctx2 + mset (live Certificate (r_ret a)))"
    "sc_root_store ctx2 = store" "sc_context ctx2 = sc_context ctx" "sc_state ctx2 = sc_state ctx"
    using d2 st drop_engine_inv [OF st(1)] by (auto simp: d_def split: if_splits)
  obtain b w4 where bw: "ask L (S_CertAddCertificateContextToStore store (r_ret a)) w3 = (b, w4)"
    by fastforce
  have h4: "sec_held (trace w4) = Some (recorded ctx2 + mset (live Certificate (r_ret a)))"
    using sec_held_ask [OF h3(1), of "S_CertAddCertificateContextToStore store (r_ret a)" L]
      recorded_live(2) [of ctx2] h3(2) by (auto simp: bw)
  have free: "r_ret a \<noteq> 0 \<Longrightarrow> sec_held (trace w) = Some (R + mset (live Certificate (r_ret a))) \<Longrightarrow>
      sec_held (trace (ask_do L (S_CertFreeCertificateContext (r_ret a)) w)) = Some R" for R w
    by (rule free_certificate_inv) (simp_all add: live_def)
  show ?thesis
  proof (cases "r_ret a = 0 \<or> store = 0")
    case True
    then show ?thesis
      using assms held st free [OF _ st(1)]
      by (auto simp: schannel_add_root_certificate_def aw gs sec_inv_def live_def Let_def split: if_splits)
  next
    case False
    then have "ctx' = ctx2" "w' = ask_do L (S_CertFreeCertificateContext (r_ret a)) w4"
      using assms(2) by (auto simp: schannel_add_root_certificate_def aw gs bw d2
          d_def [symmetric] Let_def split: if_splits)
    then show ?thesis
      using assms(1) False h3 free [OF _ h4] by (simp add: sec_inv_def)
  qed
qed

lemma query_stream_sizes_inv:
  assumes "sec_held (trace w) = Some (recorded ctx)" "query_stream_sizes L ctx w = (ctx', w')"
  shows "sec_held (trace w') = Some (recorded ctx')" "sc_state ctx' = sc_state ctx"
    "sc_context ctx' = sc_context ctx" "sc_bytes_read ctx' = sc_bytes_read ctx"
    "sc_bytes_to_write ctx' = sc_bytes_to_write ctx"
proof -
  let ?c = "S_QueryStreamSizes (sc_context ctx)"
  obtain a w1 where aw: "ask L ?c w = (a, w1)" by fastforce
  have "sec_held (trace w1) = Some (recorded ctx)"
    using sec_held_ask [OF assms(1), of ?c L] by (simp add: aw)
  then show "sec_held (trace w') = Some (recorded ctx')" "sc_state ctx' = sc_state ctx"
    "sc_context ctx' = sc_context ctx" "sc_bytes_read ctx' = sc_bytes_read ctx"
    "sc_bytes_to_write ctx' = sc_bytes_to_write ctx"
    using assms(2) by (auto simp: query_stream_sizes_def aw split: list.splits)
qed

lemma handshake_switch_inv:
  assumes "sec_held (trace w) = Some (recorded ctx)"
    "handshake_switch L client r out ctx w = (ret, ctx', w')"
  shows "sec_held (trace w') = Some (recorded ctx')" "sc_state ctx' = sc_state ctx"
    "sc_context ctx' = sc_context ctx"
    "r = SEC_E_OK \<or> r = SEC_I_CONTINUE_NEEDED \<Longrightarrow> ret \<noteq> Tls_Error"
proof -
  obtain c1 w1 where q: "query_stream_sizes L (ctx\<lparr>sc_bytes_to_write := i32 (cbBuffer out)\<rparr>) w = (c1, w1)"
    by fastforce
  have "sec_held (trace w) = Some (recorded (ctx\<lparr>sc_bytes_to_write := i32 (cbBuffer out)\<rparr>))"
    using assms(1) by simp
  note qi = query_stream_sizes_inv [OF this q]
  show "sec_held (trace w') = Some (recorded ctx')" "sc_state ctx' = sc_state ctx"
    "sc_context ctx' = sc_context ctx"
    using assms qi by (auto simp: handshake_switch_def q split: if_splits)
  show "r = SEC_E_OK \<or> r = SEC_I_CONTINUE_NEEDED \<Longrightarrow> ret \<noteq> Tls_Error"
    using assms(2) by (auto simp: handshake_switch_def q sec_status split: if_splits)
qed

lemma span_Some_iff: "span buf off n \<noteq> None \<longleftrightarrow> 0 \<le> off \<and> 0 \<le> n \<and> off + n \<le> int (length buf)"
  by (auto simp: span_def rd_def)

lemma span_length: "span buf off n = Some bs \<Longrightarrow> length bs = nat n \<and> 0 \<le> off \<and> 0 \<le> n \<and> off + n \<le> int (length buf)"
  by (auto simp: span_def rd_def split: if_splits)

lemma store_at_Some:
  "0 \<le> off \<Longrightarrow> off + int (length bs) \<le> int (length buf) \<Longrightarrow>
     store_at buf off bs = Some (blit buf (nat off) bs)"
  by (auto simp: store_at_def poke_def)

text \<open>
  Both handshake functions end in the same way: a call on the credential, the switch, and
  the state.
\<close>

lemma handshake_call_inv:
  assumes "ask L c w = (a, w1)" "sec_law L" "sec_inv ctx w" "sc_state ctx \<noteq> Uninitialized"
    and c: "sec_loses c = []"
      "sec_uses c = Credential (sc_handle ctx) #
         (if sc_state ctx = ContextInitialized then live Security_context (sc_context ctx) else [])"
      "sec_gains c a = (if sc_state ctx = ContextInitialized then [] else live Security_context (r_num a))"
    and law: "context_law (if sc_state ctx = ContextInitialized then Some (sc_context ctx) else None) a"
    and sw: "handshake_switch L client (sec_ret a) out
        (context_written a (ctx\<lparr>sc_bytes_read := x, sc_bytes_to_write := 0\<rparr>)\<lparr>sc_bytes_read := y\<rparr>) w1 =
      (ret, ctx1, w')"
  shows "sec_held (trace w') = Some (recorded ctx1)" "sc_state ctx1 = sc_state ctx"
    "sc_context ctx1 \<noteq> 0 \<Longrightarrow> sc_state ctx \<noteq> ContextInitialized \<Longrightarrow> ret \<noteq> Tls_Error"
proof -
  let ?ctx = "context_written a (ctx\<lparr>sc_bytes_read := x, sc_bytes_to_write := 0\<rparr>)\<lparr>sc_bytes_read := y\<rparr>"
  have held: "sec_held (trace w) = Some (recorded ctx)"
    and none: "sc_state ctx \<noteq> ContextInitialized \<Longrightarrow> sc_context ctx = 0"
    using assms(3) by (auto simp: sec_inv_def)
  have uses: "set (sec_uses c) \<subseteq> set_mset (recorded ctx)"
    using assms(4) recorded_live(1) [of ctx] by (auto simp: c recorded_def)
  have h1: "sec_held (trace w1) = Some (recorded ctx + mset (sec_gains c a))"
    using sec_ask(1) [OF assms(1,2) held uses] c(1) by simp
  have "recorded ctx + mset (sec_gains c a) = recorded ?ctx"
    using law none by (cases "sc_state ctx = ContextInitialized")
      (auto simp: c(3) context_law_def context_written_def recorded_def live_def assms(4) split: if_splits)
  then have h2: "sec_held (trace w1) = Some (recorded ?ctx)" using h1 by simp
  note sw_inv = handshake_switch_inv [OF h2 sw]
  show "sec_held (trace w') = Some (recorded ctx1)" by (rule sw_inv(1))
  show "sc_state ctx1 = sc_state ctx" using sw_inv(2) by (simp add: context_written_def)
  show "ret \<noteq> Tls_Error" if "sc_context ctx1 \<noteq> 0" "sc_state ctx \<noteq> ContextInitialized"
    using that sw_inv(3,4) law none by (auto simp: context_written_def context_law_def split: if_splits)
qed

lemma sec_inv_state:
  assumes "sec_held (trace w) = Some (recorded ctx)" "sc_state ctx = HandleInitialized"
  shows "sec_inv (ctx\<lparr>sc_state := ContextInitialized\<rparr>) w"
  using assms by (simp add: sec_inv_def recorded_def)

lemma schannel_connect_inv:
  assumes "sec_law L" "sec_inv ctx w" "op_fits ctx (Tls_connect junk host ib io il ob oo ol)"
  obtains ret ctx' ob' w' where "schannel_connect L junk ctx host ib io il ob oo ol w = Some (ret, ctx', ob', w')"
    "sec_inv ctx' w'"
proof -
  define started where "started = (sc_state ctx = ContextInitialized)"
  have fits: "sc_state ctx \<noteq> Uninitialized" "span ib io il \<noteq> None" "span ob oo ol \<noteq> None"
    using assms(3) by auto
  then obtain tk out where sp: "span ib io il = Some tk" "span ob oo ol = Some out" by blast
  define token where "token = (if started then tk else [])"
  define input where
    "input = [\<lparr>BufferType = SECBUFFER_TOKEN, cbBuffer = il, pvBuffer = token\<rparr>, empty_buffer]"
  define outb where "outb = \<lparr>BufferType = SECBUFFER_TOKEN, cbBuffer = ol, pvBuffer = out\<rparr>"
  define c where "c = S_InitializeSecurityContext (sc_handle ctx)
    (if started then Some (sc_context ctx) else None) host (ISC_REQ_CONFIDENTIALITY OR ISC_REQ_INTEGRITY)
    (if started then Some input else None) outb"
  obtain a w1 where aw: "ask L c w = (a, w1)" by fastforce
  have law: "sec_answer_law c a" by (rule sec_law_answer [OF assms(1) aw])
  define extra where "extra = (if started then buf_after a 2 empty_buffer else junk)"
  define ctx0 where "ctx0 = context_written a (ctx\<lparr>sc_bytes_read := 0, sc_bytes_to_write := 0\<rparr>)
      \<lparr>sc_bytes_read := count_read il extra\<rparr>"
  obtain ret ctx1 w2 where sw:
    "handshake_switch L True (sec_ret a) (buf_after a 0 outb) ctx0 w1 = (ret, ctx1, w2)"
    by (cases "handshake_switch L True (sec_ret a) (buf_after a 0 outb) ctx0 w1") auto
  have tl: "token_law outb a"
    and cl: "context_law (if started then Some (sc_context ctx) else None) a"
    using law by (auto simp: c_def)
  have "store_at ob oo (r_bytes a) = Some (blit ob (nat oo) (r_bytes a))"
    using tl span_length [OF sp(2)] by (intro store_at_Some) (auto simp: token_law_def outb_def)
  moreover have "schannel_connect L junk ctx host ib io il ob oo ol w =
      map_option (\<lambda>ob. (ret, if ret \<noteq> Tls_Error \<and> sc_state ctx1 = HandleInitialized
          then ctx1\<lparr>sc_state := ContextInitialized\<rparr> else ctx1, ob, w2)) (store_at ob oo (r_bytes a))"
    using aw sw unfolding schannel_connect_def Let_def started_def [symmetric]
    by (cases started) (simp_all add: sp c_def input_def outb_def token_def ctx0_def extra_def)
  moreover have "sec_held (trace w2) = Some (recorded ctx1)" "sc_state ctx1 = sc_state ctx"
    "sc_context ctx1 \<noteq> 0 \<Longrightarrow> sc_state ctx \<noteq> ContextInitialized \<Longrightarrow> ret \<noteq> Tls_Error"
    using handshake_call_inv [OF aw assms(1,2) fits(1) _ _ _ cl [unfolded started_def]
        sw [unfolded ctx0_def]] by (auto simp: c_def started_def)
  then have "sec_inv (if ret \<noteq> Tls_Error \<and> sc_state ctx1 = HandleInitialized
      then ctx1\<lparr>sc_state := ContextInitialized\<rparr> else ctx1) w2"
    using fits(1) sec_inv_state [of w2 ctx1]
    by (cases "sc_state ctx") (auto simp: sec_inv_def)
  ultimately show ?thesis by (intro that) simp_all
qed

lemma schannel_accept_inv:
  assumes "sec_law L" "sec_inv ctx w" "op_fits ctx (Tls_accept ib io il ob oo ol)"
  obtains ret ctx' ob' w' where "schannel_accept L ctx ib io il ob oo ol w = Some (ret, ctx', ob', w')"
    "sec_inv ctx' w'"
proof -
  define started where "started = (sc_state ctx = ContextInitialized)"
  have fits: "sc_state ctx \<noteq> Uninitialized" using assms(3) by auto
  obtain tk out where sp: "span ib io il = Some tk" "span ob oo ol = Some out" using assms(3) by auto
  define input where
    "input = [\<lparr>BufferType = SECBUFFER_TOKEN, cbBuffer = il, pvBuffer = tk\<rparr>, empty_buffer]"
  define outb where "outb = \<lparr>BufferType = SECBUFFER_TOKEN, cbBuffer = ol, pvBuffer = out\<rparr>"
  define c where "c = S_AcceptSecurityContext (sc_handle ctx)
    (if started then Some (sc_context ctx) else None) (ASC_REQ_CONFIDENTIALITY OR ASC_REQ_INTEGRITY) input outb"
  obtain a w1 where aw: "ask L c w = (a, w1)" by fastforce
  have law: "sec_answer_law c a" by (rule sec_law_answer [OF assms(1) aw])
  define ctx0 where "ctx0 = context_written a (ctx\<lparr>sc_bytes_read := 0, sc_bytes_to_write := 0\<rparr>)
      \<lparr>sc_bytes_read := count_read il (buf_after a 2 empty_buffer)\<rparr>"
  obtain ret ctx1 w2 where sw:
    "handshake_switch L False (sec_ret a) (buf_after a 0 outb) ctx0 w1 = (ret, ctx1, w2)"
    by (cases "handshake_switch L False (sec_ret a) (buf_after a 0 outb) ctx0 w1") auto
  have tl: "token_law outb a"
    and cl: "context_law (if started then Some (sc_context ctx) else None) a"
    using law by (auto simp: c_def)
  have "store_at ob oo (r_bytes a) = Some (blit ob (nat oo) (r_bytes a))"
    using tl span_length [OF sp(2)] by (intro store_at_Some) (auto simp: token_law_def outb_def)
  moreover have "schannel_accept L ctx ib io il ob oo ol w =
      map_option (\<lambda>ob. (ret, if ret \<noteq> Tls_Error \<and> sc_state ctx1 = HandleInitialized \<and> sc_context ctx1 \<noteq> 0
          then ctx1\<lparr>sc_state := ContextInitialized\<rparr> else ctx1, ob, w2)) (store_at ob oo (r_bytes a))"
    using aw sw unfolding schannel_accept_def Let_def
    by (cases started) (simp_all add: sp c_def input_def outb_def ctx0_def started_def)
  moreover have "sec_held (trace w2) = Some (recorded ctx1)" "sc_state ctx1 = sc_state ctx"
    "sc_context ctx1 \<noteq> 0 \<Longrightarrow> sc_state ctx \<noteq> ContextInitialized \<Longrightarrow> ret \<noteq> Tls_Error"
    using handshake_call_inv [OF aw assms(1,2) fits(1) _ _ _ cl [unfolded started_def]
        sw [unfolded ctx0_def]] by (auto simp: c_def started_def)
  then have "sec_inv (if ret \<noteq> Tls_Error \<and> sc_state ctx1 = HandleInitialized \<and> sc_context ctx1 \<noteq> 0
      then ctx1\<lparr>sc_state := ContextInitialized\<rparr> else ctx1) w2"
    using fits(1) sec_inv_state [of w2 ctx1]
    by (cases "sc_state ctx") (auto simp: sec_inv_def)
  ultimately show ?thesis by (intro that) simp_all
qed

lemma sec_inv_update:
  "sec_inv ctx w \<Longrightarrow> trace w' = trace w \<Longrightarrow> recorded ctx' = recorded ctx \<Longrightarrow>
     sc_context ctx' = sc_context ctx \<Longrightarrow> sc_state ctx' = sc_state ctx \<Longrightarrow> sec_inv ctx' w'"
  by (simp add: sec_inv_def)

text \<open>A call that only uses the security context.\<close>

lemma sec_inv_use:
  assumes "ask L c w = (a, w')" "sec_inv ctx w"
    "sec_uses c = live Security_context (sc_context ctx)" "sec_loses c = []" "sec_gains c a = []"
  shows "sec_inv ctx w'"
proof -
  have "sec_held (trace w) = Some (recorded ctx)" using assms(2) by (simp add: sec_inv_def)
  from sec_held_ask [OF this, of c L] have "sec_held (trace w') = Some (recorded ctx)"
    by (simp add: assms)
  then show ?thesis using assms(2) by (simp add: sec_inv_def)
qed

lemma schannel_read_inv:
  assumes "sec_law L" "sec_inv ctx w" "op_fits ctx (Tls_read b off len)"
  obtains ret ctx' b' w' where "schannel_read L ctx b off len w = Some (ret, ctx', b', w')" "sec_inv ctx' w'"
proof -
  obtain msg where sp: "span b off len = Some msg" using assms(3) by auto
  define c where "c = S_DecryptMessage (sc_context ctx)
    [\<lparr>BufferType = SECBUFFER_DATA, cbBuffer = len, pvBuffer = msg\<rparr>, empty_buffer, empty_buffer, empty_buffer]"
  obtain a w1 where aw: "ask L c w = (a, w1)" by fastforce
  have "length (r_bytes a) \<le> length msg"
    using sec_law_answer [OF assms(1) aw] by (simp add: c_def empty_buffer_def)
  then have st: "store_at b off (r_bytes a) = Some (blit b (nat off) (r_bytes a))"
    using span_length [OF sp] by (intro store_at_Some) auto
  have "sec_inv ctx w1" by (rule sec_inv_use [OF aw assms(2)]) (simp_all add: c_def)
  then have upd: "sec_inv ctx' w'" if "trace w' = trace w1" "recorded ctx' = recorded ctx"
    "sc_context ctx' = sc_context ctx" "sc_state ctx' = sc_state ctx" for ctx' w'
    using that by (rule sec_inv_update)
  have "case schannel_read L ctx b off len w of None \<Rightarrow> False | Some (ret, ctx', b', w') \<Rightarrow> sec_inv ctx' w'"
    using aw by (simp add: upd schannel_read_def sp st c_def Let_def)
  then show ?thesis using that by (auto split: option.splits prod.splits)
qed

lemma schannel_write_inv:
  assumes "sec_law L" "sec_inv ctx w" "op_fits ctx (Tls_write b off len)"
  obtains ret ctx' b' w' where "schannel_write L ctx b off len w = Some (ret, ctx', b', w')" "sec_inv ctx' w'"
proof -
  have fits: "0 \<le> off" "off + sc_header ctx + len + sc_trailer ctx \<le> int (length b)"
    "0 \<le> sc_header ctx" "0 \<le> len" "0 \<le> sc_trailer ctx"
    using assms(3) by auto
  obtain h p t where sp: "span b off (sc_header ctx) = Some h" "span b (off + sc_header ctx) len = Some p"
    "span b (off + sc_header ctx + len) (sc_trailer ctx) = Some t"
    using fits span_Some_iff [of b off "sc_header ctx"] span_Some_iff [of b "off + sc_header ctx" len]
      span_Some_iff [of b "off + sc_header ctx + len" "sc_trailer ctx"] by fastforce
  define c where "c = S_EncryptMessage (sc_context ctx)
    [\<lparr>BufferType = SECBUFFER_STREAM_HEADER, cbBuffer = sc_header ctx, pvBuffer = h\<rparr>,
     \<lparr>BufferType = SECBUFFER_DATA, cbBuffer = len, pvBuffer = p\<rparr>,
     \<lparr>BufferType = SECBUFFER_STREAM_TRAILER, cbBuffer = sc_trailer ctx, pvBuffer = t\<rparr>, empty_buffer]"
  obtain a w1 where aw: "ask L c w = (a, w1)" by fastforce
  have "length (r_bytes a) \<le> length h + length p + length t"
    using sec_law_answer [OF assms(1) aw] by (simp add: c_def empty_buffer_def)
  then have st: "store_at b off (r_bytes a) = Some (blit b (nat off) (r_bytes a))"
    using sp [THEN span_length] fits by (intro store_at_Some) auto
  have "sec_inv ctx w1" by (rule sec_inv_use [OF aw assms(2)]) (simp_all add: c_def)
  then have upd: "sec_inv ctx' w'" if "trace w' = trace w1" "recorded ctx' = recorded ctx"
    "sc_context ctx' = sc_context ctx" "sc_state ctx' = sc_state ctx" for ctx' w'
    using that by (rule sec_inv_update)
  have "case schannel_write L ctx b off len w of None \<Rightarrow> False | Some (ret, ctx', b', w') \<Rightarrow> sec_inv ctx' w'"
    using aw by (simp add: upd schannel_write_def sp st c_def Let_def)
  then show ?thesis using that by (auto split: option.splits prod.splits)
qed

lemma schannel_shutdown_inv:
  assumes "sec_inv ctx w"
  shows "sec_inv ctx (snd (schannel_shutdown L ctx w))"
proof -
  let ?c = "S_ApplyControlToken (sc_context ctx)
    \<lparr>BufferType = SECBUFFER_TOKEN, cbBuffer = 4, pvBuffer = le_bytes 4 SCHANNEL_SHUTDOWN\<rparr>"
  obtain a w1 where aw: "ask L ?c w = (a, w1)" by fastforce
  show ?thesis
    using sec_inv_use [OF aw assms] by (simp add: schannel_shutdown_def aw)
qed

text \<open>A certificate or a binding is queried, copied and given back.\<close>

lemma get_peer_certificate_inv:
  assumes "sec_law L" "sec_inv ctx w"
  obtains r w' where "get_peer_certificate_win L ctx w = Some (r, w')" "sec_inv ctx w'"
proof -
  let ?c = "S_QueryRemoteCert (sc_context ctx)"
  obtain a w1 where aw: "ask L ?c w = (a, w1)" by fastforce
  have held: "sec_held (trace w1) = Some (recorded ctx + mset (sec_gains ?c a))"
    using sec_held_ask [of w "recorded ctx" ?c L] assms(2) by (simp add: aw sec_inv_def)
  have law: "sec_answer_law ?c a" by (rule sec_law_answer [OF assms(1) aw])
  have free: "sec_held (trace (ask_do L (S_CertFreeCertificateContext (r_num a)) w2)) = Some (recorded ctx)"
    if "sec_ret a = SEC_E_OK" "r_num a \<noteq> 0" "trace w2 = trace w1" for w2
    using held that by (intro free_certificate_inv) (simp_all add: live_def)
  have "case get_peer_certificate_win L ctx w of None \<Rightarrow> False | Some (r, w') \<Rightarrow> sec_inv ctx w'"
    using law held assms(2)
    by (auto simp: free get_peer_certificate_win_def schannel_get_peer_certificate_def aw Let_def
        schannel_peer_certificate_length_def schannel_peer_certificate_blit_to_def
        schannel_free_peer_certificate_def memcpy_def i32_of_nat sec_inv_def live_def split: if_splits)
  then show ?thesis using that by (auto split: option.splits prod.splits)
qed

lemma channel_binding_inv:
  assumes "sec_law L" "sec_inv ctx w"
  obtains r w' where
    "channel_binding_to_bytes L (get_channel_binding L ctx attr w) = Some (r, w')" "sec_inv ctx w'"
proof -
  let ?c = "S_QueryBindings (sc_context ctx) attr"
  obtain a w1 where aw: "ask L ?c w = (a, w1)" by fastforce
  have held: "sec_held (trace w1) = Some (recorded ctx + mset (sec_gains ?c a))"
    using sec_held_ask [of w "recorded ctx" ?c L] assms(2) by (simp add: aw sec_inv_def)
  have law: "sec_answer_law ?c a" by (rule sec_law_answer [OF assms(1) aw])
  have "case channel_binding_to_bytes L (get_channel_binding L ctx attr w) of
      None \<Rightarrow> False | Some (r, w') \<Rightarrow> sec_inv ctx w'"
  proof (cases "sec_ret a = SEC_E_OK \<and> r_num a \<noteq> 0")
    case False
    then show ?thesis
      using held assms(2) by (auto simp: channel_binding_to_bytes_def get_channel_binding_def aw Let_def
          sec_inv_def live_def split: if_splits)
  next
    case True
    then obtain n off where no: "le_at (r_bytes a) 24 4 = Some n" "le_at (r_bytes a) 28 4 = Some off"
      "0 < n" "n < 2 ^ 31" "off + n \<le> length (r_bytes a)"
      using law by (auto split: option.splits)
    have "sec_held (trace (ask_do L (S_FreeContextBuffer (r_num a)) w1)) = Some (recorded ctx)"
      using held True by (simp add: sec_held_do live_def)
    then show ?thesis
      using True no assms(2) i32_of_nat [OF no(4)]
      by (auto simp: channel_binding_to_bytes_def get_channel_binding_def aw Let_def sec_inv_def memcpy_def
          schannel_channel_binding_length_def schannel_channel_binding_blit_to_def
          schannel_free_channel_binding_def)
  qed
  then show ?thesis using that by (auto split: option.splits prod.splits)
qed

lemma verify_peer_certificate_inv:
  assumes "sec_law L" "sec_inv ctx w"
    "schannel_verify_peer_certificate L ctx host w = (r, ctx', w')"
  shows "sec_inv ctx' w'"
proof -
  let ?c = "S_QueryRemoteCert (sc_context ctx)"
  obtain a w1 where aw: "ask L ?c w = (a, w1)" by fastforce
  have held: "sec_held (trace w1) = Some (recorded ctx + mset (sec_gains ?c a))"
    using sec_held_ask [of w "recorded ctx" ?c L] assms(2) by (simp add: aw sec_inv_def)
  show ?thesis
  proof (cases "sec_ret a = SEC_E_OK")
    case False
    then show ?thesis
      using assms held by (auto simp: schannel_verify_peer_certificate_def aw sec_inv_def)
  next
    case True
    let ?C = "mset (live Certificate (r_num a))"
    have h1: "sec_held (trace w1) = Some (recorded ctx + ?C)" using held True by simp
    obtain engine ctx1 w2 where ge: "get_or_create_custom_root_chain_engine L ctx w1 = (engine, ctx1, w2)"
      by (cases "get_or_create_custom_root_chain_engine L ctx w1") auto
    note en = get_chain_engine_inv [OF h1 ge]
    have free: "sec_held (trace w) = Some (R + ?C) \<Longrightarrow>
        sec_held (trace (ask_do L (S_CertFreeCertificateContext (r_num a)) w)) = Some R" for R w
      by (simp add: sec_held_do)
    let ?g = "S_CertGetCertificateChain engine (r_num a)"
    obtain b w3 where bw: "ask L ?g w2 = (b, w3)" by fastforce
    have h3: "sec_held (trace w3) = Some (recorded ctx1 + ?C + mset (sec_gains ?g b))" if "engine \<noteq> 0"
    proof -
      have "set (sec_uses ?g) \<subseteq> set_mset (recorded ctx1 + ?C)"
        using en(2) [OF that] recorded_live(3) [of ctx1] by auto
      from sec_held_ask [OF en(1) this, of L] show ?thesis by (simp add: bw)
    qed
    let ?v = "S_CertVerifyCertificateChainPolicy (r_num b) host"
    obtain d w4 where dw: "ask L ?v w3 = (d, w4)" by fastforce
    have h5: "sec_held (trace (ask_do L (S_CertFreeCertificateChain (r_num b)) w4)) =
        Some (recorded ctx1 + ?C)" if "engine \<noteq> 0" "r_ret b \<noteq> 0"
      using sec_held_ask [OF h3 [OF that(1)], of ?v L] that by (simp add: dw sec_held_do)
    have "sec_held (trace w') = Some (recorded ctx1) \<and> ctx' = ctx1"
      using assms(3) True en(1) h3 h5
      by (auto simp: schannel_verify_peer_certificate_def aw ge bw dw Let_def free split: if_splits)
    then show ?thesis using assms(2) en(3,4) by (simp add: sec_inv_def)
  qed
qed

text \<open>Preservation and progress, for every operation.\<close>

lemma run_op_inv:
  assumes "sec_law L" "sec_inv ctx w" "op_fits ctx op"
  obtains ctx' w' where "run_op L op ctx w = Some (ctx', w')" "sec_inv ctx' w'"
proof -
  have kept: "sec_inv (fst (snd r)) (snd (snd r))" if "\<And>x y z. r = (x, y, z) \<Longrightarrow> sec_inv y z" for r :: "int \<times> sec_context \<times> 'a sec_world"
    using that by (cases r) auto
  have "case run_op L op ctx w of None \<Rightarrow> False | Some (ctx', w') \<Rightarrow> sec_inv ctx' w'"
  proof (cases op)
    case (Init_client v)
    then show ?thesis
      using kept [of "schannel_init_client L ctx v w"] init_client_inv [OF assms(1,2)] assms(3)
      by (auto split: prod.splits)
  next
    case (Init_server p)
    then show ?thesis
      using kept [of "schannel_init_server L ctx p w"] init_server_inv [OF assms(2)] assms(3)
      by (auto split: prod.splits)
  next
    case (Add_root d)
    then show ?thesis
      using kept [of "schannel_add_root_certificate L ctx d w"] add_root_certificate_inv [OF assms(2)]
      by (auto split: prod.splits)
  next
    case (Tls_connect j h ib io il ob oo ol)
    then obtain r c b v where "schannel_connect L j ctx h ib io il ob oo ol w = Some (r, c, b, v)" "sec_inv c v"
      using schannel_connect_inv [OF assms(1,2)] assms(3) by metis
    with Tls_connect show ?thesis by (simp add: kept_context_def)
  next
    case (Tls_accept ib io il ob oo ol)
    then obtain r c b v where "schannel_accept L ctx ib io il ob oo ol w = Some (r, c, b, v)" "sec_inv c v"
      using schannel_accept_inv [OF assms(1,2)] assms(3) by metis
    with Tls_accept show ?thesis by (simp add: kept_context_def)
  next
    case (Tls_read b off len)
    then obtain r c b' v where "schannel_read L ctx b off len w = Some (r, c, b', v)" "sec_inv c v"
      using schannel_read_inv [OF assms(1,2)] assms(3) by metis
    with Tls_read show ?thesis by (simp add: kept_context_def)
  next
    case (Tls_write b off len)
    then obtain r c b' v where "schannel_write L ctx b off len w = Some (r, c, b', v)" "sec_inv c v"
      using schannel_write_inv [OF assms(1,2)] assms(3) by metis
    with Tls_write show ?thesis by (simp add: kept_context_def)
  next
    case Tls_shutdown
    then show ?thesis using schannel_shutdown_inv [OF assms(2)] by simp
  next
    case Tls_peer_certificate
    obtain r v where "get_peer_certificate_win L ctx w = Some (r, v)" "sec_inv ctx v"
      by (rule get_peer_certificate_inv [OF assms(1,2)])
    with Tls_peer_certificate show ?thesis by simp
  next
    case Tls_unique_binding
    obtain r v where "channel_binding_to_bytes L (schannel_unique_channel_binding L ctx w) = Some (r, v)"
      "sec_inv ctx v"
      unfolding schannel_unique_channel_binding_def by (rule channel_binding_inv [OF assms(1,2)])
    with Tls_unique_binding show ?thesis by simp
  next
    case Tls_endpoint_binding
    obtain r v where "channel_binding_to_bytes L (schannel_server_endpoint_channel_binding L ctx w) = Some (r, v)"
      "sec_inv ctx v"
      unfolding schannel_server_endpoint_channel_binding_def by (rule channel_binding_inv [OF assms(1,2)])
    with Tls_endpoint_binding show ?thesis by simp
  next
    case (Tls_verify h)
    then show ?thesis
      using kept [of "schannel_verify_peer_certificate L ctx h w"] verify_peer_certificate_inv [OF assms(1,2)]
      by (auto split: prod.splits)
  qed
  then show ?thesis using that by (auto split: option.splits)
qed

lemma sec_reach_inv: "sec_reach L ctx w \<Longrightarrow> sec_law L \<Longrightarrow> sec_inv ctx w"
proof (induction rule: sec_reach.induct)
  case (sec_start w junk ctx w')
  then show ?case using schannel_new_inv [of L w junk] by auto
next
  case (sec_step ctx w op ctx' w')
  then show ?case using run_op_inv [of L ctx w op] by auto
qed

section \<open>Nothing leaks, nothing is used after its release\<close>

text \<open>
  Claim C10 (invariant). In every state that the operations of \<open>schannel.mbt\<close> reach from
  \<open>schannel_new\<close>, in any order and with any answers of the security package, the
  calls so far used and released only what was held, and what is held is the block,
  the credential handle, the security context, the root store and the chain engine that the
  context records. Every operation whose arguments lie in their arrays returns, and freeing the
  context releases everything, each resource once.\<close>

theorem schannel_resources:
  assumes "sec_law L" "sec_reach L ctx w"
  shows "sec_held (trace w) = Some (recorded ctx) \<and>
    (\<forall>op. op_fits ctx op \<longrightarrow> run_op L op ctx w \<noteq> None) \<and>
    sec_held (trace (schannel_free L ctx w)) = Some {#}"
proof -
  have inv: "sec_inv ctx w" by (rule sec_reach_inv [OF assms(2,1)])
  have "run_op L op ctx w \<noteq> None" if "op_fits ctx op" for op
    by (rule run_op_inv [OF assms(1) inv that]) simp
  then show ?thesis
    using inv schannel_free_leaves_nothing [OF inv] by (simp add: sec_inv_def)
qed

definition demo_sec :: "unit sec_lib" where
  "demo_sec c k =
     (case c of
        S_malloc \<Rightarrow> no_answer\<lparr>r_ret := 1000\<rparr>
      | S_AcquireCredentialsHandle _ _ _ _ \<Rightarrow> no_answer\<lparr>r_num := 7\<rparr>
      | S_InitializeSecurityContext _ _ _ _ _ _ \<Rightarrow>
          no_answer\<lparr>r_ret := SEC_I_CONTINUE_NEEDED, r_num := 9, r_bytes := [22, 3, 1], r_bufs := [(2, 3)]\<rparr>
      | _ \<Rightarrow> no_answer, k)"

definition demo_world :: "unit sec_world" where
  "demo_world = \<lparr>lib_st = (), last_error = 0, trace = []\<rparr>"

definition demo_junk :: sec_context where
  "demo_junk = \<lparr>sc_state = Uninitialized, sc_handle = 0, sc_context = 0, sc_attrs = 0, sc_bytes_read = 0,
     sc_bytes_to_write = 0, sc_msg_trailer = 0, sc_header = 0, sc_trailer = 0, sc_root_store = 0,
     sc_chain_engine = 0, sc_block = 0\<rparr>"

lemmas demo_simps = demo_sec_def demo_world_def demo_junk_def no_answer_def lawful_sec_def ask_def
  ask_do_def sec_ret_def i32_def sec_status sec_types

lemma schannel_resources_witness:
  "\<exists>ctx w. sec_reach (lawful_sec demo_sec) ctx w \<and> sc_state ctx = ContextInitialized \<and> sc_context ctx = 9 \<and>
     sec_held (trace w) = Some {#Block 1000, Credential 7, Security_context 9#} \<and>
     sec_held (trace (schannel_free (lawful_sec demo_sec) ctx w)) = Some {#}"
proof -
  let ?L = "lawful_sec demo_sec"
  obtain c0 w0 where n: "schannel_new ?L demo_junk demo_world = Some (c0, w0)"
    "c0 = demo_junk\<lparr>sc_block := 1000\<rparr>"
    by (simp add: schannel_new_def demo_simps)
  obtain c1 w1 where i: "run_op ?L (Init_client True) c0 w0 = Some (c1, w1)"
    "c1 = c0\<lparr>sc_handle := 7, sc_state := HandleInitialized\<rparr>"
    by (simp add: schannel_init_client_def store_handle_def demo_simps)
  define op where "op = Tls_connect empty_buffer 0 [] 0 0 [0, 0, 0, 0] 0 4"
  obtain c2 w2 where c: "run_op ?L op c1 w1 = Some (c2, w2)" "sc_state c2 = ContextInitialized"
    "sc_context c2 = 9" "sc_handle c2 = 7" "sc_block c2 = 1000" "sc_root_store c2 = 0" "sc_chain_engine c2 = 0"
    by (simp add: op_def i(2) n(2) kept_context_def schannel_connect_def Let_def span_def rd_def slice_def
        store_at_def poke_def context_law_def token_law_def buf_after_def handshake_switch_def
        context_written_def count_read_def empty_buffer_def demo_simps)
  have r: "sec_reach ?L c0 w0" by (rule sec_start [OF _ n(1)]) (simp add: demo_world_def)
  have r: "sec_reach ?L c1 w1" by (rule sec_step [OF r _ i(1)]) (simp add: n(2) demo_junk_def)
  have r: "sec_reach ?L c2 w2"
    by (rule sec_step [OF r _ c(1)]) (simp add: op_def i(2) span_def rd_def)
  show ?thesis
    using schannel_resources [OF sec_law_lawful r] r c(2-)
    by (auto simp: recorded_def live_def)
qed

section \<open>Random bytes and SHA-1\<close>

text \<open>The algorithm and the hash are released on every path.\<close>

lemma sha1_balanced:
  assumes "sec_law L" "sec_held (trace w) = Some S" "length out = 20"
  obtains r out' w' where "tls_SHA1_win L data out w = Some (r, out', w')"
    "sec_held (trace w') = Some S" "length out' = 20"
proof -
  obtain a w1 where aw: "ask L S_BCryptOpenAlgorithmProvider w = (a, w1)" by fastforce
  obtain b w2 where bw: "ask L (S_BCryptCreateHash (r_num a)) w1 = (b, w2)" by fastforce
  obtain d w3 where dw: "ask L (S_BCryptHashData (r_num b) data) w2 = (d, w3)" by fastforce
  obtain e w4 where ew: "ask L (S_BCryptFinishHash (r_num b) 20) w3 = (e, w4)" by fastforce
  have h1: "sec_held (trace w1) = Some (S + (if sec_ret a = 0 then {#Algorithm (r_num a)#} else {#}))"
    using sec_held_ask [OF assms(2), of S_BCryptOpenAlgorithmProvider L] by (simp add: aw STATUS_SUCCESS_def)
  have h2: "sec_held (trace w2) = Some (S + {#Algorithm (r_num a)#} +
      (if sec_ret b = 0 then {#Hasher (r_num b)#} else {#}))" if "sec_ret a = 0"
    using sec_held_ask [OF h1, of "S_BCryptCreateHash (r_num a)" L] that by (simp add: bw STATUS_SUCCESS_def)
  have h3: "sec_held (trace w3) = Some (S + {#Algorithm (r_num a)#} + {#Hasher (r_num b)#})"
    if "sec_ret a = 0" "sec_ret b = 0"
    using sec_held_ask [OF h2 [OF that(1)], of "S_BCryptHashData (r_num b) data" L] that by (simp add: dw)
  have h4: "sec_held (trace w4) = Some (S + {#Algorithm (r_num a)#} + {#Hasher (r_num b)#})"
    if "sec_ret a = 0" "sec_ret b = 0"
    using sec_held_ask [OF h3 [OF that], of "S_BCryptFinishHash (r_num b) 20" L] by (simp add: ew)
  have "length (r_bytes e) \<le> 20" using sec_law_answer [OF assms(1) ew] by simp
  then have "case tls_SHA1_win L data out w of None \<Rightarrow> False
      | Some (r, out', w') \<Rightarrow> sec_held (trace w') = Some S \<and> length out' = 20"
    using assms(3) h1 h2 h3 h4
    by (auto simp: tls_SHA1_win_def aw bw dw ew Let_def STATUS_SUCCESS_def sha1_exit_def
        sha1_exit_with_algorithm_def sha1_exit_with_hasher_def sec_held_do poke_def)
  then show ?thesis using that by (auto split: option.splits)
qed

text \<open>
  A failing \<open>BCryptGenRandom\<close> reports by its result and sets no error number, so
  \<open>rand_bytes\<close> raises nothing and hands out the zeros.
\<close>

lemma rand_bytes_silent:
  assumes "\<And>k. fst (L (S_BCryptGenRandom 4) k) = no_answer\<lparr>r_ret := -1\<rparr>" "last_error w = 0"
  shows "\<exists>w'. rand_bytes_win L 4 w = Some (Inr [0, 0, 0, 0], w')"
proof -
  obtain a w1 where aw: "ask L (S_BCryptGenRandom 4) w = (a, w1)" by fastforce
  then have "a = no_answer\<lparr>r_ret := -1\<rparr>" using assms(1) fst_ask [of L _ w] by (metis fst_conv)
  moreover from this have "last_error w1 = 0"
    using last_error_ask [of L "S_BCryptGenRandom 4" w] assms(2) by (simp add: aw no_answer_def)
  ultimately show ?thesis
    by (simp add: rand_bytes_win_def tls_rand_bytes_win_def aw no_answer_def sec_ret_def i32_def
        STATUS_SUCCESS_def poke_def blit_def eval_nat_numeral)
qed

end
