(* ===== verification/Tls_Transport.thy ===== *)
theory Tls_Transport
  imports Schannel_Resources
begin

text \<open>
  The buffers between TLS and the connection below it: \<open>internal/io_buffer\<close> (a byte array
  with a start and a length) and \<open>tls/transport.mbt\<close>. The reader and the writer
  below are parameters (\<open>peer\<close>); the transport also records what they delivered and took.
  \<open>None\<close> is a panic of the MoonBit code, an error is \<open>Inl\<close>. The code takes a lock around
  \<open>read_more\<close> and \<open>flush_write\<close>; here one coroutine uses the transport (the interleaving of
  several is looked at in \<open>Openssl_Transport\<close>).
\<close>

section \<open>Buffers\<close>

record io_buffer =
  ib_buf :: "byte list"
  ib_start :: int
  ib_len :: int

definition ib_new :: "nat \<Rightarrow> io_buffer" where
  "ib_new n = \<lparr>ib_buf = replicate n 0, ib_start = 0, ib_len = 0\<rparr>"

definition ib_capacity :: "io_buffer \<Rightarrow> int" where "ib_capacity b = int (length (ib_buf b))"

definition SEGMENT_SIZE :: int where "SEGMENT_SIZE = 1024"

text \<open>\<open>blit_to\<close> panics outside either array; source and destination may overlap.\<close>

definition array_blit :: "byte list \<Rightarrow> int \<Rightarrow> byte list \<Rightarrow> int \<Rightarrow> int \<Rightarrow> byte list option" where
  "array_blit dst dst_offset src src_offset len =
     (case span src src_offset len of None \<Rightarrow> None | Some bs \<Rightarrow> store_at dst dst_offset bs)"

definition ib_enlarge_to :: "io_buffer \<Rightarrow> int \<Rightarrow> io_buffer option" where
  "ib_enlarge_to b n =
     (let capacity = ib_capacity b
      in if ib_start b + n \<le> capacity then Some b
         else if n \<le> capacity
         then map_option (\<lambda>buf. b\<lparr>ib_buf := buf, ib_start := 0\<rparr>)
                (array_blit (ib_buf b) 0 (ib_buf b) (ib_start b) (ib_len b))
         else let padding = n mod SEGMENT_SIZE;
                  target_len = (if padding = 0 then n else n - padding + SEGMENT_SIZE)
              in map_option (\<lambda>buf. b\<lparr>ib_buf := buf, ib_start := 0\<rparr>)
                   (array_blit (replicate (nat target_len) 48) 0 (ib_buf b) (ib_start b) (ib_len b)))"

definition ib_drop :: "io_buffer \<Rightarrow> int \<Rightarrow> io_buffer option" where
  "ib_drop b n =
     (if n \<le> ib_len b
      then let b = b\<lparr>ib_len := ib_len b - n\<rparr>
           in Some (if ib_len b = 0 then b\<lparr>ib_start := 0\<rparr> else b\<lparr>ib_start := ib_start b + n\<rparr>)
      else None)"

definition ib_wf :: "io_buffer \<Rightarrow> bool" where
  "ib_wf b \<longleftrightarrow> 0 \<le> ib_start b \<and> 0 \<le> ib_len b \<and> ib_start b + ib_len b \<le> ib_capacity b"

definition ib_contents :: "io_buffer \<Rightarrow> byte list" where
  "ib_contents b = slice (ib_buf b) (nat (ib_start b)) (nat (ib_len b))"

lemma ib_new_wf [simp]: "ib_wf (ib_new n)" "ib_contents (ib_new n) = []"
  by (simp_all add: ib_wf_def ib_new_def ib_capacity_def ib_contents_def slice_def)

lemma length_ib_contents: "ib_wf b \<Longrightarrow> int (length (ib_contents b)) = ib_len b"
  by (auto simp: ib_wf_def ib_contents_def ib_capacity_def)

lemma span_contents: "ib_wf b \<Longrightarrow> span (ib_buf b) (ib_start b) (ib_len b) = Some (ib_contents b)"
  by (auto simp: ib_wf_def span_def rd_def ib_contents_def ib_capacity_def)

lemma array_blit_some:
  assumes "span src so n = Some bs" "0 \<le> d" "d + n \<le> int (length dst)"
  shows "array_blit dst d src so n = Some (blit dst (nat d) bs)"
  using assms span_length [OF assms(1)] by (simp add: array_blit_def store_at_Some)

text \<open>Making room keeps the contents.\<close>

lemma ib_enlarge_to_ok:
  assumes "ib_wf b"
  obtains b' where "ib_enlarge_to b n = Some b'" "ib_wf b'" "ib_contents b' = ib_contents b"
    "ib_len b' = ib_len b" "ib_start b' + n \<le> ib_capacity b'"
proof -
  note w = assms [unfolded ib_wf_def ib_capacity_def]
  have sp: "span (ib_buf b) (ib_start b) (ib_len b) = Some (ib_contents b)"
    by (rule span_contents [OF assms])
  have len: "length (ib_contents b) = nat (ib_len b)"
    using length_ib_contents [OF assms] by simp
  have moved: "ib_wf (b\<lparr>ib_buf := blit dst 0 (ib_contents b), ib_start := 0\<rparr>) \<and>
      ib_contents (b\<lparr>ib_buf := blit dst 0 (ib_contents b), ib_start := 0\<rparr>) = ib_contents b \<and>
      length (blit dst 0 (ib_contents b)) = length dst" if "ib_len b \<le> int (length dst)" for dst
  proof -
    have fit: "0 + length (ib_contents b) \<le> length dst" using that len w by auto
    have "slice (blit dst 0 (ib_contents b)) 0 (length (ib_contents b)) = ib_contents b"
      by (rule slice_blit_same [OF fit])
    then show ?thesis
      using fit len w by (auto simp: ib_wf_def ib_capacity_def ib_contents_def [where b = "_\<lparr>ib_start := _\<rparr>"])
  qed
  show ?thesis
  proof (cases "ib_start b + n \<le> ib_capacity b")
    case True
    then show ?thesis using that [of b] assms by (simp add: ib_enlarge_to_def)
  next
    case False
    define dst where "dst = (if n \<le> ib_capacity b then ib_buf b
      else replicate (nat (if n mod SEGMENT_SIZE = 0 then n else n - n mod SEGMENT_SIZE + SEGMENT_SIZE)) 48)"
    have n_mod: "0 \<le> n mod SEGMENT_SIZE" "n mod SEGMENT_SIZE < SEGMENT_SIZE"
      by (simp_all add: SEGMENT_SIZE_def)
    then have room: "ib_len b \<le> int (length dst)" "n \<le> int (length dst)"
      using False w by (auto simp: dst_def ib_capacity_def)
    have "ib_enlarge_to b n = map_option (\<lambda>buf. b\<lparr>ib_buf := buf, ib_start := 0\<rparr>)
        (array_blit dst 0 (ib_buf b) (ib_start b) (ib_len b))"
      using False by (simp add: ib_enlarge_to_def dst_def Let_def)
    also have "array_blit dst 0 (ib_buf b) (ib_start b) (ib_len b) = Some (blit dst 0 (ib_contents b))"
      using array_blit_some [OF sp, of 0 dst] room by simp
    finally show ?thesis
      using that moved [OF room(1)] room(2) by (simp add: ib_capacity_def)
  qed
qed

lemma ib_drop_ok:
  assumes "ib_wf b" "0 \<le> n" "n \<le> ib_len b"
  obtains b' where "ib_drop b n = Some b'" "ib_wf b'" "ib_contents b' = drop (nat n) (ib_contents b)"
    "ib_len b' = ib_len b - n" "ib_buf b' = ib_buf b"
proof -
  have "ib_contents (b\<lparr>ib_len := ib_len b - n, ib_start := ib_start b + n\<rparr>) = drop (nat n) (ib_contents b)"
    using assms by (auto simp: ib_contents_def slice_def ib_wf_def drop_take nat_diff_distrib nat_add_distrib add.commute)
  moreover have "drop (nat n) (ib_contents b) = []" if "ib_len b = n"
    using that length_ib_contents [OF assms(1)] by simp
  moreover define b' where "b' = (if ib_len b = n then b\<lparr>ib_len := 0, ib_start := 0\<rparr>
      else b\<lparr>ib_len := ib_len b - n, ib_start := ib_start b + n\<rparr>)"
  ultimately have "ib_contents b' = drop (nat n) (ib_contents b)"
    by (simp add: ib_contents_def slice_def)
  moreover have "ib_drop b n = Some b'" "ib_wf b'" "ib_len b' = ib_len b - n" "ib_buf b' = ib_buf b"
    using assms by (auto simp: b'_def ib_drop_def Let_def ib_wf_def ib_capacity_def)
  ultimately show ?thesis using that by blast
qed

section \<open>The transport\<close>

text \<open>
  \<open>direct_read p n\<close> waits for at most \<open>n\<close> bytes (none: the end of the stream), or fails;
  \<open>write_all\<close> sends all it is given, or fails.
\<close>

record 'r peer =
  direct_read :: "'r \<Rightarrow> int \<Rightarrow> (int + byte list) \<times> 'r"
  write_all :: "'r \<Rightarrow> byte list \<Rightarrow> int option \<times> 'r"

definition peer_law :: "'r peer \<Rightarrow> bool" where
  "peer_law P \<longleftrightarrow> (\<forall>p n bs p'. direct_read P p n = (Inr bs, p') \<longrightarrow> length bs \<le> nat n)"

datatype tp_state = Tp_normal | Tp_closed | Tp_error int

datatype tls_error = Connection_closed | Io_error int | Tls_failure int

record 'r transport =
  tp_state :: tp_state
  tp_read :: io_buffer
  tp_write :: io_buffer
  tp_peer :: 'r
  tp_received :: "byte list"
  tp_sent :: "byte list"

definition BUFFER_SIZE :: int where "BUFFER_SIZE = 4096"

text \<open>The reader may already hold bytes in its internal buffer \<open>rb\<close>.\<close>

definition Transport_new :: "io_buffer \<Rightarrow> 'r \<Rightarrow> 'r transport option" where
  "Transport_new rb p =
     map_option (\<lambda>rb. \<lparr>tp_state = Tp_normal, tp_read = rb, tp_write = ib_new (nat BUFFER_SIZE), tp_peer = p,
         tp_received = ib_contents rb, tp_sent = []\<rparr>)
       (ib_enlarge_to rb BUFFER_SIZE)"

definition read_more :: "'r peer \<Rightarrow> 'r transport \<Rightarrow> ((tls_error + unit) \<times> 'r transport) option" where
  "read_more P tp =
     (case tp_state tp of
        Tp_closed \<Rightarrow> Some (Inl Connection_closed, tp)
      | Tp_error e \<Rightarrow> Some (Inl (Io_error e), tp)
      | Tp_normal \<Rightarrow>
          (case ib_enlarge_to (tp_read tp) (ib_len (tp_read tp) + 1) of
             None \<Rightarrow> None
           | Some rb \<Rightarrow>
               let end_pos = ib_start rb + ib_len rb;
                   max_len = min BUFFER_SIZE (ib_capacity rb - end_pos);
                   (r, p) = direct_read P (tp_peer tp) max_len;
                   tp = tp\<lparr>tp_read := rb, tp_peer := p\<rparr>
               in case r of
                    Inl e \<Rightarrow> Some (Inl (Io_error e), tp\<lparr>tp_state := Tp_error e\<rparr>)
                  | Inr bs \<Rightarrow>
                      if bs = [] then Some (Inr (), tp\<lparr>tp_state := Tp_closed\<rparr>)
                      else map_option (\<lambda>buf. (Inr (), tp\<lparr>
                               tp_read := rb\<lparr>ib_buf := buf, ib_len := ib_len rb + int (length bs)\<rparr>,
                               tp_received := tp_received tp @ bs\<rparr>))
                             (store_at (ib_buf rb) end_pos bs)))"

definition flush_write :: "'r peer \<Rightarrow> 'r transport \<Rightarrow> ((tls_error + unit) \<times> 'r transport) option" where
  "flush_write P tp =
     (if ib_len (tp_write tp) \<le> 0 then Some (Inr (), tp)
      else case tp_state tp of
        Tp_closed \<Rightarrow> Some (Inl Connection_closed, tp)
      | Tp_error e \<Rightarrow> Some (Inl (Io_error e), tp)
      | Tp_normal \<Rightarrow>
          (case span (ib_buf (tp_write tp)) (ib_start (tp_write tp)) (ib_len (tp_write tp)) of
             None \<Rightarrow> None
           | Some bs \<Rightarrow>
               let (r, p) = write_all P (tp_peer tp) bs; tp = tp\<lparr>tp_peer := p\<rparr>
               in Some (case r of
                    Some e \<Rightarrow> (Inl (Io_error e), tp)
                  | None \<Rightarrow> (Inr (), tp\<lparr>tp_write := (tp_write tp)\<lparr>ib_start := 0, ib_len := 0\<rparr>,
                                      tp_sent := tp_sent tp @ bs\<rparr>))))"

text \<open>What \<open>Tls::close\<close> does to the transport.\<close>

definition close_transport :: "'r transport \<Rightarrow> 'r transport" where
  "close_transport tp = (if tp_state tp = Tp_normal then tp\<lparr>tp_state := Tp_closed\<rparr> else tp)"

text \<open>What the two operations do to the streams.\<close>

lemma ib_append_ok:
  assumes "ib_wf b" "ib_start b + ib_len b + int (length bs) \<le> ib_capacity b"
  obtains buf where "store_at (ib_buf b) (ib_start b + ib_len b) bs = Some buf"
    "ib_wf (b\<lparr>ib_buf := buf, ib_len := ib_len b + int (length bs)\<rparr>)"
    "ib_contents (b\<lparr>ib_buf := buf, ib_len := ib_len b + int (length bs)\<rparr>) = ib_contents b @ bs"
proof -
  let ?s = "nat (ib_start b)" and ?n = "nat (ib_len b)"
  let ?buf = "blit (ib_buf b) (?s + ?n) bs"
  have w: "0 \<le> ib_start b" "0 \<le> ib_len b" "?s + ?n + length bs \<le> length (ib_buf b)"
    using assms by (auto simp: ib_wf_def ib_capacity_def)
  have st: "store_at (ib_buf b) (ib_start b + ib_len b) bs = Some ?buf"
    using w by (subst store_at_Some) (auto simp: nat_add_distrib)
  have "slice ?buf ?s (?n + length bs) = slice (ib_buf b) ?s ?n @ bs"
    using w(3)
    by (cases bs) (auto simp: slice_def blit_def drop_take min_def take_drop [symmetric] add.commute)
  then have c: "ib_contents (b\<lparr>ib_buf := ?buf, ib_len := ib_len b + int (length bs)\<rparr>) = ib_contents b @ bs"
    using w by (simp add: ib_contents_def nat_add_distrib)
  have "ib_wf (b\<lparr>ib_buf := ?buf, ib_len := ib_len b + int (length bs)\<rparr>)"
    using assms w by (auto simp: ib_wf_def ib_capacity_def)
  from st this c show ?thesis by (rule that)
qed

lemma read_more_ok:
  assumes "ib_wf (tp_read tp)" "peer_law P"
  obtains r tp' bs where "read_more P tp = Some (r, tp')" "ib_wf (tp_read tp')"
    "ib_contents (tp_read tp') = ib_contents (tp_read tp) @ bs" "tp_received tp' = tp_received tp @ bs"
    "tp_write tp' = tp_write tp" "tp_sent tp' = tp_sent tp"
proof (cases "tp_state tp")
  case Tp_normal
  obtain rb where rb: "ib_enlarge_to (tp_read tp) (ib_len (tp_read tp) + 1) = Some rb" "ib_wf rb"
    "ib_contents rb = ib_contents (tp_read tp)" "ib_len rb = ib_len (tp_read tp)"
    using ib_enlarge_to_ok [OF assms(1)] by metis
  define m where "m = min BUFFER_SIZE (ib_capacity rb - (ib_start rb + ib_len rb))"
  obtain r p where rd: "direct_read P (tp_peer tp) m = (r, p)" by fastforce
  show ?thesis
  proof (cases r)
    case (Inl e)
    then show ?thesis
      using that [of "Inl (Io_error e)" "tp\<lparr>tp_read := rb, tp_peer := p, tp_state := Tp_error e\<rparr>" "[]"]
        Tp_normal rb rd by (simp add: read_more_def m_def)
  next
    case (Inr bs)
    have "int (length bs) \<le> max 0 m"
      using assms(2) rd Inr unfolding peer_law_def by fastforce
    then have fit: "ib_start rb + ib_len rb + int (length bs) \<le> ib_capacity rb"
      using rb(2) by (auto simp: m_def ib_wf_def)
    show ?thesis
    proof (cases "bs = []")
      case True
      then show ?thesis
        using that [of "Inr ()" "tp\<lparr>tp_read := rb, tp_peer := p, tp_state := Tp_closed\<rparr>" "[]"]
          Tp_normal rb rd Inr by (simp add: read_more_def m_def)
    next
      case False
      obtain buf where buf: "store_at (ib_buf rb) (ib_start rb + ib_len rb) bs = Some buf"
        "ib_wf (rb\<lparr>ib_buf := buf, ib_len := ib_len rb + int (length bs)\<rparr>)"
        "ib_contents (rb\<lparr>ib_buf := buf, ib_len := ib_len rb + int (length bs)\<rparr>) = ib_contents rb @ bs"
        by (rule ib_append_ok [OF rb(2) fit])
      show ?thesis
        using that [of "Inr ()" "tp\<lparr>tp_read := rb\<lparr>ib_buf := buf, ib_len := ib_len rb + int (length bs)\<rparr>,
            tp_peer := p, tp_received := tp_received tp @ bs\<rparr>" bs]
          Tp_normal rb rd Inr False buf by (simp add: read_more_def m_def)
    qed
  qed
qed (auto intro: that [of _ _ "[]"] simp: read_more_def assms)

lemma flush_write_ok:
  assumes "ib_wf (tp_write tp)"
  obtains r tp' where "flush_write P tp = Some (r, tp')" "ib_wf (tp_write tp')"
    "tp_read tp' = tp_read tp" "tp_received tp' = tp_received tp"
    "r = Inr () \<longrightarrow> ib_contents (tp_write tp') = [] \<and> ib_len (tp_write tp') = 0 \<and>
       tp_sent tp' = tp_sent tp @ ib_contents (tp_write tp)"
    "r \<noteq> Inr () \<longrightarrow> tp_sent tp' = tp_sent tp"
proof (cases "ib_len (tp_write tp) \<le> 0")
  case True
  then have "ib_len (tp_write tp) = 0" using assms by (simp add: ib_wf_def)
  then show ?thesis
    using that [of "Inr ()" tp] True assms by (simp add: flush_write_def ib_contents_def slice_def)
next
  case False
  then show ?thesis
  proof (cases "tp_state tp")
    case Tp_normal
    obtain r p where wr: "write_all P (tp_peer tp) (ib_contents (tp_write tp)) = (r, p)" by fastforce
    show ?thesis
      using False Tp_normal wr assms
      by (cases r) (auto intro!: that simp: flush_write_def span_contents ib_contents_def slice_def
          ib_wf_def ib_capacity_def)
  qed (auto intro!: that simp: flush_write_def False assms)
qed

end
