(* ===== verification/Tls_Windows.thy ===== *)
theory Tls_Windows
  imports Tls_Transport
begin

text \<open>
  \<open>tls/schannel.mbt\<close>: a TLS connection on Windows. A session is the context, the
  transport and the record being read; the loops of \<open>connect\<close>, \<open>accept\<close> and \<open>_direct_read\<close> are
  run one iteration at a step, between the requests of the caller. The theorem says what the
  session does to the byte streams, whatever the peer sends and however the security
  package answers: see \<open>session_inv\<close>.
\<close>

section \<open>Handshake\<close>

datatype hs_result = Hs_done | Hs_again | Hs_raise tls_error

definition hs_flush :: "'r peer \<Rightarrow> hs_result \<Rightarrow> 'r transport \<Rightarrow> (hs_result \<times> 'r transport) option" where
  "hs_flush P next_result tp =
     map_option (\<lambda>(r, tp). (case r of Inl e \<Rightarrow> Hs_raise e | Inr _ \<Rightarrow> next_result, tp)) (flush_write P tp)"

text \<open>The \<open>match\<close> at the end of an iteration; \<open>ReNegotiation\<close> panics.\<close>

definition hs_match ::
  "'r peer \<Rightarrow> tls_state \<Rightarrow> int \<Rightarrow> 'r transport \<Rightarrow> (hs_result \<times> 'r transport) option" where
  "hs_match P ret errno tp =
     (case ret of
        Completed \<Rightarrow> hs_flush P Hs_done tp
      | Tls_Eof \<Rightarrow> hs_flush P Hs_done tp
      | WantRead \<Rightarrow>
          map_option (\<lambda>(r, tp). (case r of Inl e \<Rightarrow> Hs_raise e | Inr _ \<Rightarrow> Hs_again, tp)) (read_more P tp)
      | WantWrite \<Rightarrow> hs_flush P Hs_again tp
      | Tls_Error \<Rightarrow> Some (Hs_raise (Tls_failure errno), tp)
      | ReNegotiate \<Rightarrow> None)"

definition hs_finish ::
  "'r peer \<Rightarrow> 'r transport \<Rightarrow> (tls_state \<times> sec_context \<times> byte list \<times> 'k sec_world) option \<Rightarrow>
     (hs_result \<times> sec_context \<times> 'k sec_world \<times> 'r transport) option" where
  "hs_finish P tp r =
     (case r of
        None \<Rightarrow> None
      | Some (ret, ctx, ob, sw) \<Rightarrow>
          (case ib_drop (tp_read tp) (schannel_bytes_read ctx) of
             None \<Rightarrow> None
           | Some rb \<Rightarrow>
               let wb = (tp_write tp)\<lparr>ib_buf := ob,
                          ib_len := ib_len (tp_write tp) + schannel_bytes_to_write ctx\<rparr>
               in map_option (\<lambda>(r, tp). (r, ctx, sw, tp))
                    (hs_match P ret (last_error sw) (tp\<lparr>tp_read := rb, tp_write := wb\<rparr>))))"

text \<open>
  One iteration of \<open>Tls::connect\<close> and of \<open>Tls::accept\<close>. The output of \<open>connect\<close> goes to the
  start of the write buffer, that of \<open>accept\<close> behind what it holds.
\<close>

definition tls_connect_iter ::
  "'k sec_lib \<Rightarrow> 'r peer \<Rightarrow> sec_buffer \<Rightarrow> ptr \<Rightarrow> sec_context \<Rightarrow> 'k sec_world \<Rightarrow> 'r transport \<Rightarrow>
     (hs_result \<times> sec_context \<times> 'k sec_world \<times> 'r transport) option" where
  "tls_connect_iter L P junk host ctx sw tp =
     (let rb = tp_read tp; wb = tp_write tp
      in hs_finish P tp
           (schannel_connect L junk ctx host (ib_buf rb) (ib_start rb) (ib_len rb)
              (ib_buf wb) (ib_start wb) (ib_capacity wb - ib_start wb - ib_len wb) sw))"

definition tls_accept_iter ::
  "'k sec_lib \<Rightarrow> 'r peer \<Rightarrow> sec_context \<Rightarrow> 'k sec_world \<Rightarrow> 'r transport \<Rightarrow>
     (hs_result \<times> sec_context \<times> 'k sec_world \<times> 'r transport) option" where
  "tls_accept_iter L P ctx sw tp =
     (let rb = tp_read tp; wb = tp_write tp
      in hs_finish P tp
           (schannel_accept L ctx (ib_buf rb) (ib_start rb) (ib_len rb)
              (ib_buf wb) (ib_start wb + ib_len wb) (ib_capacity wb - ib_start wb - ib_len wb) sw))"

section \<open>The session\<close>

text \<open>
  What the session does next: nothing (the caller may ask for something), an iteration of a
  handshake and then what is given, an iteration of the loop of \<open>_direct_read\<close> with its
  \<open>max_len\<close>; nothing, the last operation having raised (the caller may go on); or nothing ever,
  since the first handshake raised and the caller never gets the connection. \<open>tw_delivered\<close> and
  \<open>tw_accepted\<close> record what the calls of \<open>read\<close> returned and what those of \<open>write_once\<close> took,
  \<open>tw_errors\<close> the errors raised.
\<close>

datatype hs_after = To_open | To_idle | To_reading int

datatype win_phase = Idle | Handshaking hs_after | Reading int | Raised tls_error | Given_up tls_error

record ('k, 'r) tls_win =
  tw_ctx :: sec_context
  tw_sec :: "'k sec_world"
  tw_tp :: "'r transport"
  tw_remaining :: int
  tw_trailer :: int
  tw_shutdown :: bool
  tw_phase :: win_phase
  tw_delivered :: "byte list"
  tw_accepted :: "byte list"
  tw_errors :: "tls_error list"

definition tls_raise :: "tls_error \<Rightarrow> ('k, 'r) tls_win \<Rightarrow> ('k, 'r) tls_win" where
  "tls_raise e s = s\<lparr>tw_errors := tw_errors s @ [e], tw_phase := Raised e\<rparr>"

text \<open>The first handshake raised: \<open>close\<close>.\<close>

definition tls_give_up :: "tls_error \<Rightarrow> ('k, 'r) tls_win \<Rightarrow> ('k, 'r) tls_win" where
  "tls_give_up e s =
     s\<lparr>tw_errors := tw_errors s @ [e], tw_phase := Given_up e, tw_tp := close_transport (tw_tp s)\<rparr>"

definition record_overhead :: "sec_context \<Rightarrow> int" where
  "record_overhead ctx = schannel_header_size ctx + schannel_trailer_size ctx"

text \<open>A step of the handshake loop, on the side \<open>client\<close> says.\<close>

definition handshake_step ::
  "'k sec_lib \<Rightarrow> 'r peer \<Rightarrow> bool \<Rightarrow> sec_buffer \<Rightarrow> ptr \<Rightarrow> hs_after \<Rightarrow> ('k, 'r) tls_win \<Rightarrow>
     ('k, 'r) tls_win option" where
  "handshake_step L P client junk host after s =
     map_option (\<lambda>(r, ctx, sw, tp).
         let s = s\<lparr>tw_ctx := ctx, tw_sec := sw, tw_tp := tp\<rparr>
         in case r of
              Hs_again \<Rightarrow> s\<lparr>tw_phase := Handshaking after\<rparr>
            | Hs_raise e \<Rightarrow> (if after = To_open then tls_give_up e s else tls_raise e s)
            | Hs_done \<Rightarrow> s\<lparr>tw_phase := (case after of To_reading n \<Rightarrow> Reading n | _ \<Rightarrow> Idle)\<rparr>)
       (if client then tls_connect_iter L P junk host (tw_ctx s) (tw_sec s) (tw_tp s)
        else tls_accept_iter L P (tw_ctx s) (tw_sec s) (tw_tp s))"

text \<open>\<open>Tls::shutdown\<close>.\<close>

definition tls_shutdown :: "'k sec_lib \<Rightarrow> ('k, 'r) tls_win \<Rightarrow> ('k, 'r) tls_win" where
  "tls_shutdown L s =
     (if tw_shutdown s then s\<lparr>tw_phase := Idle\<rparr>
      else let s = s\<lparr>tw_shutdown := True\<rparr>
      in case tp_state (tw_tp s) of
        Tp_closed \<Rightarrow> s\<lparr>tw_phase := Idle\<rparr>
      | Tp_error e \<Rightarrow> tls_raise (Io_error e) s
      | Tp_normal \<Rightarrow>
          let (err, sw) = schannel_shutdown L (tw_ctx s) (tw_sec s)
          in if err \<noteq> 0 then tls_raise (Tls_failure err) (s\<lparr>tw_sec := sw\<rparr>)
             else s\<lparr>tw_sec := sw, tw_phase := Handshaking To_idle\<rparr>)"

text \<open>An iteration of \<open>while self.curr_msg_remaining == 0\<close>.\<close>

definition read_iter ::
  "'k sec_lib \<Rightarrow> 'r peer \<Rightarrow> int \<Rightarrow> ('k, 'r) tls_win \<Rightarrow> ('k, 'r) tls_win option" where
  "read_iter L P max_len s =
     (let ctx = tw_ctx s; tp = tw_tp s
      in case ib_enlarge_to (tp_read tp) (record_overhead ctx + 1) of
        None \<Rightarrow> None
      | Some rb \<Rightarrow>
          (case schannel_read L ctx (ib_buf rb) (ib_start rb) (ib_len rb) (tw_sec s) of
             None \<Rightarrow> None
           | Some (ret, ctx, buf, sw) \<Rightarrow>
               let rb = rb\<lparr>ib_buf := buf\<rparr>;
                   tp = tp\<lparr>tp_read := rb\<rparr>;
                   s = s\<lparr>tw_ctx := ctx, tw_sec := sw, tw_tp := tp\<rparr>
               in case ret of
                    Completed \<Rightarrow>
                      map_option (\<lambda>rb. s\<lparr>tw_tp := tp\<lparr>tp_read := rb\<rparr>,
                          tw_trailer := schannel_msg_trailer ctx,
                          tw_remaining := schannel_bytes_read ctx - schannel_header_size ctx -
                            schannel_msg_trailer ctx\<rparr>)
                        (ib_drop rb (schannel_header_size ctx))
                  | WantRead \<Rightarrow>
                      if ib_len rb = 0 \<and> tp_state tp = Tp_closed then Some (s\<lparr>tw_phase := Idle\<rparr>)
                      else map_option (\<lambda>(r, tp). case r of
                                 Inl e \<Rightarrow> tls_raise e (s\<lparr>tw_tp := tp\<rparr>)
                               | Inr _ \<Rightarrow> s\<lparr>tw_tp := tp\<rparr>)
                             (read_more P tp)
                  | Tls_Eof \<Rightarrow> Some (tls_shutdown L s)
                  | WantWrite \<Rightarrow> None
                  | Tls_Error \<Rightarrow> Some (tls_raise (Tls_failure (last_error sw)) s)
                  | ReNegotiate \<Rightarrow> Some (s\<lparr>tw_phase := Handshaking (To_reading max_len)\<rparr>)))"

text \<open>The end of \<open>_direct_read\<close>: hand out what is there of the record.\<close>

definition read_deliver :: "int \<Rightarrow> ('k, 'r) tls_win \<Rightarrow> ('k, 'r) tls_win option" where
  "read_deliver max_len s =
     (let tp = tw_tp s; rb = tp_read tp; len = min (tw_remaining s) max_len
      in case (span (ib_buf rb) (ib_start rb) len, ib_drop rb len) of
        (Some bs, Some rb) \<Rightarrow>
          let remaining = tw_remaining s - len
          in map_option (\<lambda>rb. s\<lparr>tw_tp := tp\<lparr>tp_read := rb\<rparr>, tw_remaining := remaining, tw_phase := Idle,
                   tw_delivered := tw_delivered s @ bs\<rparr>)
               (if remaining = 0 then ib_drop rb (tw_trailer s) else Some rb)
      | _ \<Rightarrow> None)"

text \<open>\<open>write_once\<close>: one record of what fits, then flush.\<close>

definition write_flush :: "'r peer \<Rightarrow> byte list \<Rightarrow> ('k, 'r) tls_win \<Rightarrow> ('k, 'r) tls_win option" where
  "write_flush P data s =
     map_option (\<lambda>(r, tp). (case r of
         Inl e \<Rightarrow> tls_raise e (s\<lparr>tw_tp := tp\<rparr>)
       | Inr _ \<Rightarrow> s\<lparr>tw_tp := tp, tw_phase := Idle, tw_accepted := tw_accepted s @ data\<rparr>))
       (flush_write P (tw_tp s))"

definition write_once ::
  "'k sec_lib \<Rightarrow> 'r peer \<Rightarrow> byte list \<Rightarrow> int \<Rightarrow> int \<Rightarrow> ('k, 'r) tls_win \<Rightarrow> ('k, 'r) tls_win option" where
  "write_once L P buf offset len s =
     (let ctx = tw_ctx s; tp = tw_tp s; wb = tp_write tp
      in if ib_len wb \<noteq> 0 then None
         else let max_len = ib_capacity wb - ib_start wb - record_overhead ctx; len = min len max_len
         in case array_blit (ib_buf wb) (ib_start wb + schannel_header_size ctx) buf offset len of
              None \<Rightarrow> None
            | Some wbuf \<Rightarrow>
                (case schannel_write L ctx wbuf (ib_start wb) len (tw_sec s) of
                   None \<Rightarrow> None
                 | Some (ret, ctx, wbuf, sw) \<Rightarrow>
                     let wb = wb\<lparr>ib_buf := wbuf, ib_len := ib_len wb + schannel_bytes_to_write ctx\<rparr>;
                         s = s\<lparr>tw_ctx := ctx, tw_sec := sw, tw_tp := tp\<lparr>tp_write := wb\<rparr>\<rparr>
                     in if ret = WantWrite then write_flush P (slice buf (nat offset) (nat len)) s
                        else Some (tls_raise (Tls_failure (last_error sw)) s)))"

text \<open>
  A request of the caller when nothing runs, also after an operation that raised, and \<open>Rq_step\<close> for
  the next iteration of a running loop. A shutdown that was begun before returns at once.
  \<open>None\<close>: the program stops (a \<open>guard\<close> or a bound), or the request cannot come, since one
  coroutine uses the connection.
\<close>

datatype request = Rq_step | Rq_read int | Rq_write "byte list" int int | Rq_shutdown

definition at_rest :: "win_phase \<Rightarrow> bool" where
  "at_rest ph = (case ph of Idle \<Rightarrow> True | Raised _ \<Rightarrow> True | _ \<Rightarrow> False)"

definition win_step ::
  "'k sec_lib \<Rightarrow> 'r peer \<Rightarrow> bool \<Rightarrow> sec_buffer \<Rightarrow> ptr \<Rightarrow> request \<Rightarrow> ('k, 'r) tls_win \<Rightarrow>
     ('k, 'r) tls_win option" where
  "win_step L P client junk host rq s =
     (if at_rest (tw_phase s)
      then (case rq of
              Rq_read max_len \<Rightarrow> Some (s\<lparr>tw_phase := Reading max_len\<rparr>)
            | Rq_write buf offset len \<Rightarrow> write_once L P buf offset len s
            | Rq_shutdown \<Rightarrow> Some (if tw_shutdown s then s else tls_shutdown L s)
            | Rq_step \<Rightarrow> None)
      else case (tw_phase s, rq) of
        (Handshaking after, Rq_step) \<Rightarrow> handshake_step L P client junk host after s
      | (Reading max_len, Rq_step) \<Rightarrow>
          if tw_remaining s = 0 then read_iter L P max_len s else read_deliver max_len s
      | _ \<Rightarrow> None)"

section \<open>The streams, as the security package saw them\<close>

text \<open>
  For a call and its answer: the bytes of the peer it used up, the bytes for the peer it
  made, the plaintext it gave and the plaintext it took.
\<close>

definition used_of :: "sec_buffer \<Rightarrow> lib_answer \<Rightarrow> byte list" where
  "used_of b a =
     (if sec_ret a = SEC_E_INCOMPLETE_MESSAGE then []
      else take (nat (count_read (cbBuffer b) (buf_after a 2 empty_buffer))) (pvBuffer b))"

fun consumed_by :: "sec_call \<times> lib_answer \<Rightarrow> byte list" where
  "consumed_by (S_InitializeSecurityContext _ _ _ _ (Some (b # _)) _, a) = used_of b a"
| "consumed_by (S_AcceptSecurityContext _ _ _ (b # _) _, a) = used_of b a"
| "consumed_by (S_DecryptMessage _ (b # _), a) =
     (if sec_ret a = SEC_E_OK
      then take (nat (cbBuffer b - cbBuffer (buf_after a 3 empty_buffer))) (pvBuffer b) else [])"
| "consumed_by _ = []"

fun produced_by :: "sec_call \<times> lib_answer \<Rightarrow> byte list" where
  "produced_by (S_InitializeSecurityContext _ _ _ _ _ _, a) =
     (if sec_ret a \<in> {SEC_E_OK, SEC_I_CONTINUE_NEEDED, SEC_I_CONTEXT_EXPIRED} then r_bytes a else [])"
| "produced_by (S_AcceptSecurityContext _ _ _ _ _, a) =
     (if sec_ret a \<in> {SEC_E_OK, SEC_I_CONTINUE_NEEDED} then r_bytes a else [])"
| "produced_by (S_EncryptMessage _ _, a) = (if sec_ret a = SEC_E_OK then r_bytes a else [])"
| "produced_by _ = []"

fun plain_by :: "sec_call \<times> lib_answer \<Rightarrow> byte list" where
  "plain_by (S_DecryptMessage _ (b # _), a) =
     (if sec_ret a = SEC_E_OK
      then slice (blit (pvBuffer b) 0 (r_bytes a)) (nat (cbBuffer (buf_after a 0 b)))
             (nat (cbBuffer (buf_after a 1 empty_buffer)))
      else [])"
| "plain_by _ = []"

fun payload_by :: "sec_call \<times> lib_answer \<Rightarrow> byte list" where
  "payload_by (S_EncryptMessage _ (_ # b # _), a) = (if sec_ret a = SEC_E_OK then pvBuffer b else [])"
| "payload_by _ = []"

text \<open>A record without plaintext (or with an impossible size) was decrypted: one byte each.\<close>

fun empty_by :: "sec_call \<times> lib_answer \<Rightarrow> byte list" where
  "empty_by (S_DecryptMessage _ (b # _), a) =
     (if sec_ret a = SEC_E_OK \<and> cbBuffer (buf_after a 1 empty_buffer) \<le> 0 then [0] else [])"
| "empty_by _ = []"

definition over :: "(sec_call \<times> lib_answer \<Rightarrow> byte list) \<Rightarrow> (sec_call \<times> lib_answer) list \<Rightarrow> byte list" where
  "over f t = concat (map f t)"

lemma over_simps [simp]: "over f [] = []" "over f (x # t) = f x @ over f t" "over f (t @ u) = over f t @ over f u"
  by (simp_all add: over_def)

text \<open>
  What the code relies on: the sizes of header and trailer of a connection are fixed, and a record
  with room for them fits the write buffer; a decrypted record is header, plaintext and the
  rest, where the trailer buffer counts all that follows the plaintext and the extra buffer
  what belongs to later records, which is left as it is (the plaintext may be empty); a message that is
  not decrypted is left as it is; an encrypted record is as long as its three parts say.
\<close>

fun stream_answer_law :: "int \<Rightarrow> int \<Rightarrow> sec_call \<Rightarrow> lib_answer \<Rightarrow> bool" where
  "stream_answer_law H T (S_QueryStreamSizes _) a = (take 2 (r_nums a) = [H, T])"
| "stream_answer_law H T (S_DecryptMessage _ (b # bs)) a =
     (let extra = cbBuffer (buf_after a 3 empty_buffer); rest = cbBuffer (buf_after a 2 empty_buffer);
          plain = cbBuffer (buf_after a 1 empty_buffer)
      in if sec_ret a = SEC_E_OK
         then cbBuffer (buf_after a 0 b) = H \<and> 0 \<le> plain \<and> 0 \<le> extra \<and> extra \<le> rest \<and>
              H + plain + rest = cbBuffer b \<and>
              drop (nat (cbBuffer b - extra)) (blit (pvBuffer b) 0 (r_bytes a)) =
                drop (nat (cbBuffer b - extra)) (pvBuffer b)
         else blit (pvBuffer b) 0 (r_bytes a) = pvBuffer b)"
| "stream_answer_law H T (S_EncryptMessage _ [b0, b1, b2, b3]) a =
     (sec_ret a = SEC_E_OK \<longrightarrow>
        int (length (r_bytes a)) =
          cbBuffer (buf_after a 0 b0) + cbBuffer (buf_after a 1 b1) + cbBuffer (buf_after a 2 b2))"
| "stream_answer_law H T _ a = True"

definition stream_law :: "int \<Rightarrow> int \<Rightarrow> 'k sec_lib \<Rightarrow> bool" where
  "stream_law H T L \<longleftrightarrow>
     sec_law L \<and> 0 \<le> H \<and> 0 \<le> T \<and> H + T < BUFFER_SIZE \<and>
     (\<forall>c k. stream_answer_law H T c (fst (L c k)))"

lemma stream_law_answer:
  "stream_law H T L \<Longrightarrow> ask L c w = (a, w') \<Longrightarrow> stream_answer_law H T c a \<and> sec_answer_law c a"
  by (metis fst_ask fst_conv sec_law_def stream_law_def)

section \<open>One handshake call\<close>

text \<open>The part both functions share: the switch after the call \<open>c\<close> with answer \<open>a\<close>.\<close>

lemma i32_size: "0 \<le> x \<Longrightarrow> x \<le> n \<Longrightarrow> n < 2 ^ 31 \<Longrightarrow> i32 x = x"
  by (rule i32_nonneg) auto

lemma query_stream_sizes_streams:
  assumes "stream_law H T L" "query_stream_sizes L ctx w = (ctx', w')"
  shows "sc_header ctx' = H \<and> sc_trailer ctx' = T \<and> (\<exists>a. trace w' = trace w @ [(S_QueryStreamSizes (sc_context ctx), a)])"
    and "sc_bytes_read ctx' = sc_bytes_read ctx" "sc_bytes_to_write ctx' = sc_bytes_to_write ctx"
    "sc_state ctx' = sc_state ctx"
proof -
  let ?c = "S_QueryStreamSizes (sc_context ctx)"
  obtain a w1 where aw: "ask L ?c w = (a, w1)" by fastforce
  then obtain r where "r_nums a = H # T # r"
    using stream_law_answer [OF assms(1) aw] by (cases "r_nums a"; cases "tl (r_nums a)") auto
  moreover have "trace w1 = trace w @ [(?c, a)]" using trace_ask [of L ?c w] by (simp add: aw)
  ultimately show "sc_header ctx' = H \<and> sc_trailer ctx' = T \<and> (\<exists>a. trace w' = trace w @ [(?c, a)])"
    "sc_bytes_read ctx' = sc_bytes_read ctx" "sc_bytes_to_write ctx' = sc_bytes_to_write ctx"
    "sc_state ctx' = sc_state ctx"
    using assms(2) by (auto simp: query_stream_sizes_def aw)
qed

lemma handshake_switch_streams:
  assumes "stream_law H T L" "handshake_switch L client (sec_ret a) out ctx w = (ret, ctx', w')"
    "sc_bytes_to_write ctx = 0"
    "sec_ret a \<in> {SEC_E_OK, SEC_I_CONTINUE_NEEDED, SEC_I_CONTEXT_EXPIRED} \<Longrightarrow>
       cbBuffer out = int (length (r_bytes a))" "length (r_bytes a) < 2 ^ 31"
  obtains t where "trace w' = trace w @ t" "\<And>f. f \<in> {consumed_by, produced_by, plain_by, payload_by} \<Longrightarrow> over f t = []"
    "sc_bytes_read ctx' = (if sec_ret a = SEC_E_INCOMPLETE_MESSAGE then 0 else sc_bytes_read ctx)"
    "sc_bytes_to_write ctx' =
       (if sec_ret a \<in> {SEC_E_OK, SEC_I_CONTINUE_NEEDED} \<or> client \<and> sec_ret a = SEC_I_CONTEXT_EXPIRED
        then int (length (r_bytes a)) else 0)"
    "sc_state ctx' = sc_state ctx" "ret \<noteq> ReNegotiate"
    "ret = Completed \<Longrightarrow> sc_header ctx' = H \<and> sc_trailer ctx' = T"
    "ret \<noteq> Completed \<Longrightarrow> sc_header ctx' = sc_header ctx \<and> sc_trailer ctx' = sc_trailer ctx"
    "ret = WantRead \<longleftrightarrow> sec_ret a = SEC_E_INCOMPLETE_MESSAGE"
proof (cases "sec_ret a = SEC_E_OK")
  case True
  obtain c1 w1 where q: "query_stream_sizes L (ctx\<lparr>sc_bytes_to_write := i32 (cbBuffer out)\<rparr>) w = (c1, w1)"
    by fastforce
  obtain b where "trace w1 = trace w @ [(S_QueryStreamSizes (sc_context ctx), b)]"
    using query_stream_sizes_streams(1) [OF assms(1) q] by auto
  moreover have "ret = Completed" "ctx' = c1" "w' = w1"
    using assms(2) True by (simp_all add: handshake_switch_def q)
  ultimately show ?thesis
    using query_stream_sizes_streams [OF assms(1) q] True assms(4,5)
    by (intro that [of "[(S_QueryStreamSizes (sc_context ctx), b)]"]) (auto simp: sec_status i32_of_nat)
next
  case False
  have "i32 (int (length (r_bytes a))) = int (length (r_bytes a))" by (rule i32_of_nat [OF assms(5)])
  then show ?thesis
    using False assms(2,3,4)
    by (intro that [of "[]"]) (auto simp: handshake_switch_def sec_status split: if_splits)
qed

text \<open>
  What a handshake call does, seen from its caller: it used \<open>bytes_read\<close> bytes of its input,
  put \<open>bytes_to_write\<close> bytes at the start of its output, and that is what the package used and made.
\<close>

definition hs_effect ::
  "int \<Rightarrow> int \<Rightarrow> byte list \<Rightarrow> byte list \<Rightarrow> int \<Rightarrow> int \<Rightarrow> sec_context \<Rightarrow> 'k sec_world \<Rightarrow>
     tls_state \<Rightarrow> sec_context \<Rightarrow> byte list \<Rightarrow> 'k sec_world \<Rightarrow> bool" where
  "hs_effect H T token ob oo ol ctx w ret ctx' ob' w' \<longleftrightarrow>
     (\<exists>t bs. trace w' = trace w @ t \<and> over plain_by t = [] \<and> over payload_by t = [] \<and>
        0 \<le> sc_bytes_read ctx' \<and> sc_bytes_read ctx' \<le> int (length token) \<and>
        over consumed_by t = take (nat (sc_bytes_read ctx')) token \<and>
        length bs \<le> nat ol \<and> ob' = blit ob (nat oo) bs \<and>
        over produced_by t = take (nat (sc_bytes_to_write ctx')) bs \<and>
        sc_bytes_to_write ctx' \<in> {0, int (length bs)}) \<and>
     ret \<noteq> ReNegotiate \<and> (ret = WantRead \<longrightarrow> sc_bytes_to_write ctx' = 0) \<and>
     sc_state ctx' \<noteq> Uninitialized \<and>
     (if ret = Completed then sc_header ctx' = H \<and> sc_trailer ctx' = T
      else sc_header ctx' = sc_header ctx \<and> sc_trailer ctx' = sc_trailer ctx)"

lemma hs_effectI:
  assumes "stream_law H T L" "ask L c w = (a, w1)" "sc_state ctx \<noteq> Uninitialized"
    and c: "consumed_by (c, a) = (if sec_ret a = SEC_E_INCOMPLETE_MESSAGE then [] else take (nat y) token)"
      "produced_by (c, a) = (if sec_ret a \<in> {SEC_E_OK, SEC_I_CONTINUE_NEEDED} \<or>
          client \<and> sec_ret a = SEC_I_CONTEXT_EXPIRED then r_bytes a else [])"
      "plain_by (c, a) = []" "payload_by (c, a) = []"
    and y: "0 \<le> y" "y \<le> int (length token)"
    and law: "token_law outb a" "cbBuffer outb = ol" "ol < 2 ^ 31"
    and sw: "handshake_switch L client (sec_ret a) (buf_after a 0 outb)
        (context_written a (ctx\<lparr>sc_bytes_read := 0, sc_bytes_to_write := 0\<rparr>)\<lparr>sc_bytes_read := y\<rparr>) w1 =
      (ret, ctx1, w')"
    and ctx2: "ctx2 \<in> {ctx1, ctx1\<lparr>sc_state := ContextInitialized\<rparr>}"
  shows "hs_effect H T token ob oo ol ctx w ret ctx2 (blit ob (nat oo) (r_bytes a)) w'"
proof -
  have small: "length (r_bytes a) \<le> nat ol" "length (r_bytes a) < 2 ^ 31"
    using law by (auto simp: token_law_def)
  have size: "sec_ret a \<in> {SEC_E_OK, SEC_I_CONTINUE_NEEDED, SEC_I_CONTEXT_EXPIRED} \<Longrightarrow>
      cbBuffer (buf_after a 0 outb) = int (length (r_bytes a))"
    using law(1) by (simp add: token_law_def)
  obtain t where t: "trace w' = trace w1 @ t"
    "\<And>f. f \<in> {consumed_by, produced_by, plain_by, payload_by} \<Longrightarrow> over f t = []"
    "sc_bytes_read ctx1 = (if sec_ret a = SEC_E_INCOMPLETE_MESSAGE then 0 else y)"
    "sc_bytes_to_write ctx1 =
       (if sec_ret a \<in> {SEC_E_OK, SEC_I_CONTINUE_NEEDED} \<or> client \<and> sec_ret a = SEC_I_CONTEXT_EXPIRED
        then int (length (r_bytes a)) else 0)"
    "sc_state ctx1 = sc_state ctx" "ret \<noteq> ReNegotiate"
    "ret = Completed \<Longrightarrow> sc_header ctx1 = H \<and> sc_trailer ctx1 = T"
    "ret \<noteq> Completed \<Longrightarrow> sc_header ctx1 = sc_header ctx \<and> sc_trailer ctx1 = sc_trailer ctx"
    "ret = WantRead \<longleftrightarrow> sec_ret a = SEC_E_INCOMPLETE_MESSAGE"
    by (rule handshake_switch_streams [OF assms(1) sw _ size small(2)]) (auto simp: context_written_def)
  have "trace w1 = trace w @ [(c, a)]" using trace_ask [of L c w] by (simp add: assms(2))
  then have "trace w' = trace w @ (c, a) # t" by (simp add: t(1))
  moreover have "sc_bytes_read ctx2 = sc_bytes_read ctx1" "sc_bytes_to_write ctx2 = sc_bytes_to_write ctx1"
    "sc_header ctx2 = sc_header ctx1" "sc_trailer ctx2 = sc_trailer ctx1" "sc_state ctx2 \<noteq> Uninitialized"
    using ctx2 t(5) assms(3) by auto
  ultimately show ?thesis
    unfolding hs_effect_def using t(2-) c y small(1)
    by (intro conjI exI [of _ "(c, a) # t"] exI [of _ "r_bytes a"]) (auto simp: sec_status)
qed

lemma schannel_connect_streams:
  assumes "stream_law H T L" "sc_state ctx \<noteq> Uninitialized"
    and sp: "span ib io il = Some tk" "span ob oo ol = Some out" and size: "il < 2 ^ 31" "ol < 2 ^ 31"
    and first: "sc_state ctx \<noteq> ContextInitialized \<Longrightarrow> il = 0 \<and> BufferType junk \<noteq> SECBUFFER_EXTRA"
  obtains ret ctx' ob' w' where "schannel_connect L junk ctx host ib io il ob oo ol w = Some (ret, ctx', ob', w')"
    "hs_effect H T tk ob oo ol ctx w ret ctx' ob' w'"
    "ret \<noteq> Tls_Error \<or> sc_state ctx = ContextInitialized \<Longrightarrow> sc_state ctx' = ContextInitialized"
proof -
  define started where "started = (sc_state ctx = ContextInitialized)"
  define token where "token = (if started then tk else [])"
  have sp0: "(if started then span ib io il else Some []) = Some token" by (simp add: token_def sp)
  define b where "b = \<lparr>BufferType = SECBUFFER_TOKEN, cbBuffer = il, pvBuffer = token\<rparr>"
  define outb where "outb = \<lparr>BufferType = SECBUFFER_TOKEN, cbBuffer = ol, pvBuffer = out\<rparr>"
  define c where "c = S_InitializeSecurityContext (sc_handle ctx)
    (if started then Some (sc_context ctx) else None) host (ISC_REQ_CONFIDENTIALITY OR ISC_REQ_INTEGRITY)
    (if started then Some [b, empty_buffer] else None) outb"
  obtain a w1 where aw: "ask L c w = (a, w1)" by fastforce
  have law: "sec_answer_law c a" using stream_law_answer [OF assms(1) aw] by simp
  define extra where "extra = (if started then buf_after a 2 empty_buffer else junk)"
  define y where "y = count_read il extra"
  define ctx0 where "ctx0 = context_written a (ctx\<lparr>sc_bytes_read := 0, sc_bytes_to_write := 0\<rparr>)\<lparr>sc_bytes_read := y\<rparr>"
  obtain ret ctx1 w2 where sw:
    "handshake_switch L True (sec_ret a) (buf_after a 0 outb) ctx0 w1 = (ret, ctx1, w2)"
    by (cases "handshake_switch L True (sec_ret a) (buf_after a 0 outb) ctx0 w1") auto
  have len: "int (length tk) = il" "0 \<le> il" "0 \<le> oo" "0 \<le> ol" "oo + ol \<le> int (length ob)"
    using span_length [OF sp(1)] span_length [OF sp(2)] by auto
  have "started \<Longrightarrow> extra_law [b, empty_buffer] a" using law by (simp add: c_def)
  then have y: "0 \<le> y" "y \<le> int (length tk)" "\<not> started \<Longrightarrow> tk = [] \<and> y = 0"
    using len size(1) first
    by (auto simp: y_def count_read_def extra_def extra_law_def Let_def b_def started_def intro: i32_size split: if_splits)
      (subst i32_size [where n = il]; simp)+
  have tl: "token_law outb a" using law by (simp add: c_def)
  have st: "store_at ob oo (r_bytes a) = Some (blit ob (nat oo) (r_bytes a))"
    using tl len by (intro store_at_Some) (auto simp: token_law_def outb_def)
  define ctx2 where "ctx2 = (if ret \<noteq> Tls_Error \<and> sc_state ctx1 = HandleInitialized
      then ctx1\<lparr>sc_state := ContextInitialized\<rparr> else ctx1)"
  have "schannel_connect L junk ctx host ib io il ob oo ol w =
      Some (ret, ctx2, blit ob (nat oo) (r_bytes a), w2)"
    using aw sw st unfolding schannel_connect_def Let_def started_def [symmetric] sp0
    by (cases started) (simp_all add: sp c_def b_def outb_def ctx0_def y_def extra_def ctx2_def)
  moreover have "hs_effect H T tk ob oo ol ctx w ret ctx2 (blit ob (nat oo) (r_bytes a)) w2"
  proof (rule hs_effectI [OF assms(1) aw assms(2) _ _ _ _ y(1,2) tl _ size(2) sw [unfolded ctx0_def]])
    show "consumed_by (c, a) = (if sec_ret a = SEC_E_INCOMPLETE_MESSAGE then [] else take (nat y) tk)"
      using y(3) by (auto simp: c_def used_of_def b_def y_def extra_def token_def)
  qed (auto simp: c_def outb_def ctx2_def)
  moreover have "sc_state ctx2 = ContextInitialized" if "ret \<noteq> Tls_Error \<or> sc_state ctx = ContextInitialized"
  proof -
    have "sc_state ctx1 = sc_state ctx"
      using sw by (auto simp: handshake_switch_def ctx0_def context_written_def query_stream_sizes_def
          Let_def split: if_splits prod.splits list.splits)
    then show ?thesis using that assms(2) by (cases "sc_state ctx") (auto simp: ctx2_def)
  qed
  ultimately show ?thesis by (rule that)
qed

lemma schannel_accept_streams:
  assumes "stream_law H T L" "sc_state ctx \<noteq> Uninitialized"
    and sp: "span ib io il = Some tk" "span ob oo ol = Some out" and size: "il < 2 ^ 31" "ol < 2 ^ 31"
  obtains ret ctx' ob' w' where "schannel_accept L ctx ib io il ob oo ol w = Some (ret, ctx', ob', w')"
    "hs_effect H T tk ob oo ol ctx w ret ctx' ob' w'"
proof -
  define b where "b = \<lparr>BufferType = SECBUFFER_TOKEN, cbBuffer = il, pvBuffer = tk\<rparr>"
  define outb where "outb = \<lparr>BufferType = SECBUFFER_TOKEN, cbBuffer = ol, pvBuffer = out\<rparr>"
  define c where "c = S_AcceptSecurityContext (sc_handle ctx)
    (if sc_state ctx = ContextInitialized then Some (sc_context ctx) else None)
    (ASC_REQ_CONFIDENTIALITY OR ASC_REQ_INTEGRITY) [b, empty_buffer] outb"
  obtain a w1 where aw: "ask L c w = (a, w1)" by fastforce
  have law: "extra_law [b, empty_buffer] a" "token_law outb a"
    using stream_law_answer [OF assms(1) aw] by (auto simp: c_def)
  define y where "y = count_read il (buf_after a 2 empty_buffer)"
  define ctx0 where "ctx0 = context_written a (ctx\<lparr>sc_bytes_read := 0, sc_bytes_to_write := 0\<rparr>)\<lparr>sc_bytes_read := y\<rparr>"
  obtain ret ctx1 w2 where sw:
    "handshake_switch L False (sec_ret a) (buf_after a 0 outb) ctx0 w1 = (ret, ctx1, w2)"
    by (cases "handshake_switch L False (sec_ret a) (buf_after a 0 outb) ctx0 w1") auto
  have len: "int (length tk) = il" "0 \<le> il" "0 \<le> oo" "0 \<le> ol" "oo + ol \<le> int (length ob)"
    using span_length [OF sp(1)] span_length [OF sp(2)] by auto
  then have y: "0 \<le> y" "y \<le> int (length tk)"
    using law(1) size(1)
    by (auto simp: y_def count_read_def extra_law_def Let_def b_def split: if_splits)
      (subst i32_size [where n = il]; simp)+
  have st: "store_at ob oo (r_bytes a) = Some (blit ob (nat oo) (r_bytes a))"
    using law(2) len by (intro store_at_Some) (auto simp: token_law_def outb_def)
  define ctx2 where "ctx2 = (if ret \<noteq> Tls_Error \<and> sc_state ctx1 = HandleInitialized \<and> sc_context ctx1 \<noteq> 0
      then ctx1\<lparr>sc_state := ContextInitialized\<rparr> else ctx1)"
  have "schannel_accept L ctx ib io il ob oo ol w = Some (ret, ctx2, blit ob (nat oo) (r_bytes a), w2)"
    using aw sw st unfolding schannel_accept_def Let_def
    by (cases "sc_state ctx = ContextInitialized") (simp_all add: sp c_def b_def outb_def ctx0_def y_def ctx2_def)
  moreover have "hs_effect H T tk ob oo ol ctx w ret ctx2 (blit ob (nat oo) (r_bytes a)) w2"
    by (rule hs_effectI [OF assms(1) aw assms(2) _ _ _ _ y law(2) _ size(2) sw [unfolded ctx0_def]])
      (auto simp: c_def outb_def ctx2_def used_of_def b_def y_def)
  ultimately show ?thesis by (rule that)
qed

section \<open>The invariant of a session\<close>

text \<open>
  Nothing of the peer is lost or used twice: what was received is what the package used up
  followed by what waits in the read buffer behind the record being read, as long as no record
  without plaintext came (\<open>empty_record_desync\<close>); what was
  sent, and waits to be sent, is what it made. The caller gets the plaintexts in order, the
  waiting one next, and what it wrote are the payloads; while data waits to be sent the last
  payload may be one that was not acknowledged.
\<close>

definition inflight :: "('k, 'r) tls_win \<Rightarrow> int" where
  "inflight s = (if tw_remaining s = 0 then 0 else tw_remaining s + tw_trailer s)"

definition session_streams :: "('k, 'r) tls_win \<Rightarrow> bool" where
  "session_streams s \<longleftrightarrow>
     (let t = trace (tw_sec s); tp = tw_tp s; here = ib_contents (tp_read tp)
      in (over empty_by t = [] \<longrightarrow> tp_received tp = over consumed_by t @ drop (nat (inflight s)) here) \<and>
         tw_delivered s @ take (nat (tw_remaining s)) here = over plain_by t \<and>
         tp_sent tp @ ib_contents (tp_write tp) = over produced_by t \<and>
         (\<exists>u. over payload_by t = tw_accepted s @ u \<and> (ib_len (tp_write tp) = 0 \<longrightarrow> u = [])))"

text \<open>The first handshake ended by its completion, which sets the sizes.\<close>

definition sizes_known :: "int \<Rightarrow> int \<Rightarrow> ('k, 'r) tls_win \<Rightarrow> bool" where
  "sizes_known H T s \<longleftrightarrow> sc_header (tw_ctx s) = H \<and> sc_trailer (tw_ctx s) = T"

definition session_wf :: "int \<Rightarrow> int \<Rightarrow> bool \<Rightarrow> ('k, 'r) tls_win \<Rightarrow> bool" where
  "session_wf H T client s \<longleftrightarrow>
     (let tp = tw_tp s; ctx = tw_ctx s
      in ib_wf (tp_read tp) \<and> ib_wf (tp_write tp) \<and> ib_capacity (tp_write tp) = BUFFER_SIZE \<and>
         0 \<le> tw_remaining s \<and> (tw_remaining s \<noteq> 0 \<longrightarrow> 0 \<le> tw_trailer s) \<and> inflight s \<le> ib_len (tp_read tp) \<and>
         sc_state ctx \<noteq> Uninitialized \<and>
         ib_start (tp_write tp) = 0 \<and> (tw_errors s = [] \<longrightarrow> ib_len (tp_write tp) = 0) \<and>
         (case tw_phase s of
            Handshaking after \<Rightarrow> tw_remaining s = 0 \<and>
              (client \<longrightarrow> sc_state ctx = ContextInitialized \<or> after = To_open \<and> ib_len (tp_read tp) = 0) \<and>
              ((\<exists>n. after = To_reading n) \<longrightarrow> sizes_known H T s) \<and> (\<forall>n. after = To_reading n \<longrightarrow> 0 \<le> n)
          | Given_up _ \<Rightarrow> True
          | Reading n \<Rightarrow> 0 \<le> n \<and> sizes_known H T s \<and> (client \<longrightarrow> sc_state ctx = ContextInitialized)
          | _ \<Rightarrow> client \<longrightarrow> sc_state ctx = ContextInitialized))"

definition session_inv :: "int \<Rightarrow> int \<Rightarrow> bool \<Rightarrow> ('k, 'r) tls_win \<Rightarrow> bool" where
  "session_inv H T client s \<longleftrightarrow> session_wf H T client s \<and> session_streams s"


text \<open>After the call: what is dropped, what is flushed, what is read.\<close>

lemma ib_put_ok:
  assumes "ib_start b = 0" "length bs \<le> length (ib_buf b)" "n \<in> {0, int (length bs)}"
  shows "ib_wf (b\<lparr>ib_buf := blit (ib_buf b) 0 bs, ib_len := n\<rparr>)"
    "ib_contents (b\<lparr>ib_buf := blit (ib_buf b) 0 bs, ib_len := n\<rparr>) = take (nat n) bs"
    "ib_capacity (b\<lparr>ib_buf := blit (ib_buf b) 0 bs, ib_len := n\<rparr>) = ib_capacity b"
  using assms by (auto simp: ib_wf_def ib_capacity_def ib_contents_def slice_def blit_def)

lemma hs_flush_ok:
  assumes "ib_wf (tp_write tp)"
  obtains r tp' where "hs_flush P nxt tp = Some (r, tp')" "ib_wf (tp_write tp')"
    "tp_read tp' = tp_read tp" "tp_received tp' = tp_received tp"
    "tp_sent tp' @ ib_contents (tp_write tp') = tp_sent tp @ ib_contents (tp_write tp)"
    "ib_capacity (tp_write tp') = ib_capacity (tp_write tp)"
    "(\<exists>e. r = Hs_raise e) \<or> r = nxt \<and> ib_len (tp_write tp') = 0 \<and>
       ib_start (tp_write tp') = (if ib_len (tp_write tp) = 0 then ib_start (tp_write tp) else 0)"
    "ib_start (tp_write tp) = 0 \<longrightarrow> ib_start (tp_write tp') = 0"
    "r \<noteq> nxt \<longrightarrow> ib_len (tp_write tp') \<noteq> 0"
proof -
  obtain r tp' where f: "flush_write P tp = Some (r, tp')" "ib_wf (tp_write tp')"
    "tp_read tp' = tp_read tp" "tp_received tp' = tp_received tp"
    "r = Inr () \<longrightarrow> ib_contents (tp_write tp') = [] \<and> ib_len (tp_write tp') = 0 \<and>
       tp_sent tp' = tp_sent tp @ ib_contents (tp_write tp)"
    "r \<noteq> Inr () \<longrightarrow> tp_sent tp' = tp_sent tp"
    by (rule flush_write_ok [OF assms, of P])
  have more: "ib_capacity (tp_write tp') = ib_capacity (tp_write tp)"
    "r \<noteq> Inr () \<Longrightarrow> tp_write tp' = tp_write tp" "r \<noteq> Inr () \<Longrightarrow> ib_len (tp_write tp) \<noteq> 0"
    "r = Inr () \<Longrightarrow> ib_start (tp_write tp') = (if ib_len (tp_write tp) = 0 then ib_start (tp_write tp) else 0)"
    using f(1) assms by (auto simp: flush_write_def ib_capacity_def ib_wf_def Let_def
        split: if_splits tp_state.splits option.splits prod.splits)
  show ?thesis
  proof (cases r)
    case (Inl e)
    then show ?thesis using f more that [of "Hs_raise e" tp'] by (simp add: hs_flush_def)
  next
    case (Inr u)
    then show ?thesis using f more that [of nxt tp'] by (simp add: hs_flush_def)
  qed
qed

lemma hs_match_ok:
  assumes "ib_wf (tp_read tp)" "ib_wf (tp_write tp)" "ib_start (tp_write tp) = 0" "peer_law P" "ret \<noteq> ReNegotiate"
    "ret = WantRead \<Longrightarrow> ib_len (tp_write tp) = 0"
  obtains r tp' d where "hs_match P ret errno tp = Some (r, tp')" "ib_wf (tp_read tp')" "ib_wf (tp_write tp')"
    "tp_received tp' = tp_received tp @ d" "ib_contents (tp_read tp') = ib_contents (tp_read tp) @ d"
    "tp_sent tp' @ ib_contents (tp_write tp') = tp_sent tp @ ib_contents (tp_write tp)"
    "ib_capacity (tp_write tp') = ib_capacity (tp_write tp)"
    "(\<exists>e. r = Hs_raise e) \<or> ib_len (tp_write tp') = 0" "ib_start (tp_write tp') = 0"
    "r = Hs_done \<longrightarrow> ret = Completed \<or> ret = Tls_Eof" "ret = Tls_Error \<longrightarrow> r \<noteq> Hs_done \<and> r \<noteq> Hs_again"
proof -
  note result = that
  have fl: thesis if ret: "hs_match P ret errno tp = hs_flush P nxt tp" "ret \<noteq> Tls_Error"
    "nxt = Hs_done \<Longrightarrow> ret = Completed \<or> ret = Tls_Eof" for nxt
  proof -
    obtain r tp' where "hs_flush P nxt tp = Some (r, tp')" "ib_wf (tp_write tp')"
      "tp_read tp' = tp_read tp" "tp_received tp' = tp_received tp"
      "tp_sent tp' @ ib_contents (tp_write tp') = tp_sent tp @ ib_contents (tp_write tp)"
      "ib_capacity (tp_write tp') = ib_capacity (tp_write tp)"
      "(\<exists>e. r = Hs_raise e) \<or> r = nxt \<and> ib_len (tp_write tp') = 0 \<and>
         ib_start (tp_write tp') = (if ib_len (tp_write tp) = 0 then ib_start (tp_write tp) else 0)"
      "ib_start (tp_write tp) = 0 \<longrightarrow> ib_start (tp_write tp') = 0"
      by (rule hs_flush_ok [OF assms(2)])
    then show thesis using ret assms(1,3) by (intro result [of r tp' "[]"]) auto
  qed
  show thesis
  proof (cases ret)
    case WantRead
    obtain r tp' bs where "read_more P tp = Some (r, tp')" "ib_wf (tp_read tp')"
      "ib_contents (tp_read tp') = ib_contents (tp_read tp) @ bs" "tp_received tp' = tp_received tp @ bs"
      "tp_write tp' = tp_write tp" "tp_sent tp' = tp_sent tp"
      by (rule read_more_ok [OF assms(1,4)])
    then show thesis
      using WantRead assms by (intro result [of "case r of Inl e \<Rightarrow> Hs_raise e | Inr _ \<Rightarrow> Hs_again" tp' bs])
        (auto simp: hs_match_def split: sum.splits)
  next
    case Tls_Error
    then show thesis using assms by (intro result [of "Hs_raise (Tls_failure errno)" tp "[]"]) (auto simp: hs_match_def)
  qed (use fl [of Hs_done] fl [of Hs_again] assms(5) in \<open>auto simp: hs_match_def\<close>)
qed

lemma hs_finish_ok:
  assumes wf: "ib_wf (tp_read tp)" "ib_wf (tp_write tp)" "ib_start (tp_write tp) = 0" "ib_len (tp_write tp) = 0"
    and law: "peer_law P"
    and eff: "hs_effect H T (ib_contents (tp_read tp)) (ib_buf (tp_write tp)) 0 (ib_capacity (tp_write tp))
      ctx sw ret ctx' ob' sw'"
  obtains r tp' t d where "hs_finish P tp (Some (ret, ctx', ob', sw')) = Some (r, ctx', sw', tp')"
    "trace sw' = trace sw @ t" "over plain_by t = []" "over payload_by t = []"
    "tp_received tp' = tp_received tp @ d"
    "over consumed_by t @ ib_contents (tp_read tp') = ib_contents (tp_read tp) @ d"
    "tp_sent tp' @ ib_contents (tp_write tp') = tp_sent tp @ over produced_by t"
    "ib_wf (tp_read tp')" "ib_wf (tp_write tp')" "ib_capacity (tp_write tp') = ib_capacity (tp_write tp)"
    "(\<exists>e. r = Hs_raise e) \<or> ib_len (tp_write tp') = 0" "ib_start (tp_write tp') = 0"
    "r = Hs_done \<longrightarrow> ret = Completed \<or> ret = Tls_Eof" "ret = Tls_Error \<longrightarrow> r \<noteq> Hs_done \<and> r \<noteq> Hs_again"
proof -
  let ?n = "sc_bytes_read ctx'" and ?m = "sc_bytes_to_write ctx'"
  obtain t bs where t: "trace sw' = trace sw @ t" "over plain_by t = []" "over payload_by t = []"
    "0 \<le> ?n" "?n \<le> ib_len (tp_read tp)" "over consumed_by t = take (nat ?n) (ib_contents (tp_read tp))"
    "length bs \<le> length (ib_buf (tp_write tp))" "ob' = blit (ib_buf (tp_write tp)) 0 bs"
    "over produced_by t = take (nat ?m) bs" "?m \<in> {0, int (length bs)}"
    using eff length_ib_contents [OF wf(1)] unfolding hs_effect_def ib_capacity_def by auto
  have ret: "ret \<noteq> ReNegotiate" "ret = WantRead \<Longrightarrow> ?m = 0" using eff by (auto simp: hs_effect_def)
  obtain rb where rb: "ib_drop (tp_read tp) ?n = Some rb" "ib_wf rb"
    "ib_contents rb = drop (nat ?n) (ib_contents (tp_read tp))"
    using ib_drop_ok [OF wf(1) t(4,5)] by metis
  define wb where "wb = (tp_write tp)\<lparr>ib_buf := ob', ib_len := ?m\<rparr>"
  have wb: "ib_wf wb" "ib_contents wb = take (nat ?m) bs" "ib_capacity wb = ib_capacity (tp_write tp)" "ib_start wb = 0"
    using ib_put_ok [OF wf(3) t(7,10)] wf(3) by (simp_all add: wb_def t(8))
  define tp1 where "tp1 = tp\<lparr>tp_read := rb, tp_write := wb\<rparr>"
  have w1: "ib_wf (tp_read tp1)" "ib_wf (tp_write tp1)" "ib_start (tp_write tp1) = 0"
    and len1: "ret = WantRead \<Longrightarrow> ib_len (tp_write tp1) = 0"
    using rb wb ret(2) by (simp_all add: tp1_def wb_def)
  obtain r tp' d where h: "hs_match P ret (last_error sw') tp1 = Some (r, tp')" "ib_wf (tp_read tp')"
    "ib_wf (tp_write tp')" "tp_received tp' = tp_received tp1 @ d"
    "ib_contents (tp_read tp') = ib_contents (tp_read tp1) @ d"
    "tp_sent tp' @ ib_contents (tp_write tp') = tp_sent tp1 @ ib_contents (tp_write tp1)"
    "ib_capacity (tp_write tp') = ib_capacity (tp_write tp1)"
    "(\<exists>e. r = Hs_raise e) \<or> ib_len (tp_write tp') = 0" "ib_start (tp_write tp') = 0"
    "r = Hs_done \<longrightarrow> ret = Completed \<or> ret = Tls_Eof" "ret = Tls_Error \<longrightarrow> r \<noteq> Hs_done \<and> r \<noteq> Hs_again"
    by (rule hs_match_ok [OF w1 law ret(1) len1, of "last_error sw'"])
  have fin: "hs_finish P tp (Some (ret, ctx', ob', sw')) = Some (r, ctx', sw', tp')"
    using h(1) rb(1) wf(4) by (simp add: hs_finish_def schannel_bytes_read_def schannel_bytes_to_write_def
        tp1_def wb_def)
  have con: "over consumed_by t @ ib_contents (tp_read tp') = ib_contents (tp_read tp) @ d"
    using append_take_drop_id [of "nat ?n" "ib_contents (tp_read tp)"]
    by (simp add: h(5) t(6) rb(3) tp1_def del: append_take_drop_id flip: append_assoc)
  show ?thesis
    using t(9) [symmetric] h wb by (intro that [OF fin t(1-3) _ con]) (simp_all add: tp1_def)
qed

lemma inflight_update [simp]:
  "inflight (s\<lparr>tw_ctx := c\<rparr>) = inflight s" "inflight (s\<lparr>tw_sec := w\<rparr>) = inflight s"
  "inflight (s\<lparr>tw_tp := tp\<rparr>) = inflight s" "inflight (s\<lparr>tw_phase := p\<rparr>) = inflight s"
  "inflight (s\<lparr>tw_shutdown := b\<rparr>) = inflight s"
  by (simp_all add: inflight_def)

lemma handshake_step_inv:
  assumes law: "stream_law H T L" "peer_law P" and junk: "BufferType junk \<noteq> SECBUFFER_EXTRA"
    and inv: "session_inv H T client s" and phase: "tw_phase s = Handshaking after"
    and size: "ib_capacity (tp_read (tw_tp s)) < 2 ^ 31" and sent: "ib_len (tp_write (tw_tp s)) = 0"
  obtains s' where "handshake_step L P client junk host after s = Some s'" "session_inv H T client s'"
proof -
  let ?tp = "tw_tp s" and ?ctx = "tw_ctx s" and ?sw = "tw_sec s"
  have wf: "ib_wf (tp_read ?tp)" "ib_wf (tp_write ?tp)" "ib_start (tp_write ?tp) = 0" "ib_len (tp_write ?tp) = 0"
    and cap: "ib_capacity (tp_write ?tp) = BUFFER_SIZE" and rem: "tw_remaining s = 0"
    and st: "sc_state ?ctx \<noteq> Uninitialized"
      "client \<Longrightarrow> sc_state ?ctx \<noteq> ContextInitialized \<Longrightarrow> after = To_open \<and> ib_len (tp_read ?tp) = 0"
    and after: "(\<exists>n. after = To_reading n) \<Longrightarrow> sizes_known H T s" "\<And>n. after = To_reading n \<Longrightarrow> 0 \<le> n"
    using inv phase sent by (auto simp: session_inv_def session_wf_def Let_def)
  have str: "over empty_by (trace ?sw) = [] \<longrightarrow>
      tp_received ?tp = over consumed_by (trace ?sw) @ ib_contents (tp_read ?tp)"
    "tw_delivered s = over plain_by (trace ?sw)"
    "tp_sent ?tp @ ib_contents (tp_write ?tp) = over produced_by (trace ?sw)"
    "over payload_by (trace ?sw) = tw_accepted s"
    using inv phase rem sent by (auto simp: session_inv_def session_streams_def Let_def inflight_def)
  have empty: "ib_contents (tp_write ?tp) = []" using wf(4) by (simp add: ib_contents_def slice_def)
  have spr: "span (ib_buf (tp_read ?tp)) (ib_start (tp_read ?tp)) (ib_len (tp_read ?tp)) = Some (ib_contents (tp_read ?tp))"
    by (rule span_contents [OF wf(1)])
  obtain out where spw: "span (ib_buf (tp_write ?tp)) 0 BUFFER_SIZE = Some out"
    using cap span_Some_iff [of "ib_buf (tp_write ?tp)" 0 BUFFER_SIZE]
    by (fastforce simp: ib_capacity_def BUFFER_SIZE_def)
  have len: "ib_len (tp_read ?tp) < 2 ^ 31" using wf(1) size by (simp add: ib_wf_def)
  have bs: "BUFFER_SIZE < 2 ^ 31" by (simp add: BUFFER_SIZE_def)
  obtain ret ctx' ob' sw' where call:
    "(if client then tls_connect_iter L P junk host ?ctx ?sw ?tp else tls_accept_iter L P ?ctx ?sw ?tp) =
       hs_finish P ?tp (Some (ret, ctx', ob', sw'))"
    "hs_effect H T (ib_contents (tp_read ?tp)) (ib_buf (tp_write ?tp)) 0 BUFFER_SIZE ?ctx ?sw ret ctx' ob' sw'"
    "client \<longrightarrow> ret \<noteq> Tls_Error \<or> sc_state ?ctx = ContextInitialized \<longrightarrow> sc_state ctx' = ContextInitialized"
  proof (cases client)
    case True
    show thesis
      by (rule schannel_connect_streams [OF law(1) st(1) spr spw len bs, of junk host ?sw])
        (use True st(2) junk wf cap that in \<open>auto simp: tls_connect_iter_def\<close>)
  next
    case False
    show thesis
      by (rule schannel_accept_streams [OF law(1) st(1) spr spw len bs, of ?sw])
        (use False wf cap that in \<open>auto simp: tls_accept_iter_def\<close>)
  qed
  obtain r tp' t d where f: "hs_finish P ?tp (Some (ret, ctx', ob', sw')) = Some (r, ctx', sw', tp')"
    "trace sw' = trace ?sw @ t" "over plain_by t = []" "over payload_by t = []"
    "tp_received tp' = tp_received ?tp @ d"
    "over consumed_by t @ ib_contents (tp_read tp') = ib_contents (tp_read ?tp) @ d"
    "tp_sent tp' @ ib_contents (tp_write tp') = tp_sent ?tp @ over produced_by t"
    "ib_wf (tp_read tp')" "ib_wf (tp_write tp')" "ib_capacity (tp_write tp') = ib_capacity (tp_write ?tp)"
    "(\<exists>e. r = Hs_raise e) \<or> ib_len (tp_write tp') = 0" "ib_start (tp_write tp') = 0"
    "r = Hs_done \<longrightarrow> ret = Completed \<or> ret = Tls_Eof" "ret = Tls_Error \<longrightarrow> r \<noteq> Hs_done \<and> r \<noteq> Hs_again"
    by (rule hs_finish_ok [OF wf law(2) call(2) [folded cap]])
  define s1 where "s1 = s\<lparr>tw_ctx := ctx', tw_sec := sw', tw_tp := tp'\<rparr>"
  define s' where "s' = (case r of
              Hs_again \<Rightarrow> s1\<lparr>tw_phase := Handshaking after\<rparr>
            | Hs_raise e \<Rightarrow> (if after = To_open then tls_give_up e s1 else tls_raise e s1)
            | Hs_done \<Rightarrow> s1\<lparr>tw_phase := (case after of To_reading n \<Rightarrow> Reading n | _ \<Rightarrow> Idle)\<rparr>)"
  have step: "handshake_step L P client junk host after s = Some s'"
    using call(1) f(1) by (cases r) (simp_all add: handshake_step_def s'_def s1_def Let_def)
  have sizes: "(\<exists>n. after = To_reading n) \<Longrightarrow> sizes_known H T s1" "sc_state ctx' \<noteq> Uninitialized"
    using call(2) after(1) by (auto simp: hs_effect_def sizes_known_def s1_def split: if_splits)
  have "session_streams s1"
    using str rem f(2-5,7) f(6) [symmetric] empty
    by (simp add: session_streams_def Let_def s1_def inflight_def)
  then have streams: "session_streams s'"
    by (cases r) (auto simp: s'_def session_streams_def Let_def inflight_def tls_give_up_def tls_raise_def
        close_transport_def)
  have "session_wf H T client s'"
    using wf f(8-) cap rem sizes after(2) st(2) call(3)
    by (cases r; cases after)
      (auto simp: session_wf_def Let_def s'_def s1_def inflight_def ib_wf_def sizes_known_def tls_give_up_def
        tls_raise_def close_transport_def)
  then show ?thesis using that step streams by (simp add: session_inv_def)
qed

section \<open>Reading\<close>

lemma slice_blit_inside:
  assumes "o' + length bs \<le> o' + n" "o' + n \<le> length buf"
  shows "slice (blit buf o' bs) o' n = blit (slice buf o' n) 0 bs"
  using assms by (auto simp: slice_def blit_def drop_take min_def add.commute)

lemma ib_overwrite_ok:
  assumes "ib_wf b" "int (length bs) \<le> ib_len b"
  shows "store_at (ib_buf b) (ib_start b) bs = Some (blit (ib_buf b) (nat (ib_start b)) bs)"
    and "ib_wf (b\<lparr>ib_buf := blit (ib_buf b) (nat (ib_start b)) bs\<rparr>)"
    and "ib_contents (b\<lparr>ib_buf := blit (ib_buf b) (nat (ib_start b)) bs\<rparr>) = blit (ib_contents b) 0 bs"
    and "ib_capacity (b\<lparr>ib_buf := blit (ib_buf b) (nat (ib_start b)) bs\<rparr>) = ib_capacity b"
proof -
  have w: "0 \<le> ib_start b" "0 \<le> ib_len b" "nat (ib_start b) + nat (ib_len b) \<le> length (ib_buf b)"
    using assms(1) by (auto simp: ib_wf_def ib_capacity_def)
  then show "store_at (ib_buf b) (ib_start b) bs = Some (blit (ib_buf b) (nat (ib_start b)) bs)"
    using assms(2) by (intro store_at_Some) auto
  show "ib_contents (b\<lparr>ib_buf := blit (ib_buf b) (nat (ib_start b)) bs\<rparr>) = blit (ib_contents b) 0 bs"
    using w assms(2) by (simp add: ib_contents_def slice_blit_inside)
  show "ib_wf (b\<lparr>ib_buf := blit (ib_buf b) (nat (ib_start b)) bs\<rparr>)"
    "ib_capacity (b\<lparr>ib_buf := blit (ib_buf b) (nat (ib_start b)) bs\<rparr>) = ib_capacity b"
    using w assms by (auto simp: ib_wf_def ib_capacity_def)
qed

text \<open>
  A call of \<open>schannel_read\<close> on the contents \<open>m\<close> of the buffer: a record of \<open>plain\<close> bytes with
  \<open>trailer\<close> bytes behind it and \<open>extra\<close> bytes of later records, or nothing.
\<close>

definition record_read ::
  "int \<Rightarrow> byte list \<Rightarrow> byte list \<Rightarrow> sec_context \<Rightarrow> 'k sec_world \<Rightarrow> 'k sec_world \<Rightarrow> bool" where
  "record_read H m bs ctx' w w' \<longleftrightarrow>
     (\<exists>t plain trailer extra. trace w' = trace w @ t \<and> 0 \<le> plain \<and> (plain = 0 \<longrightarrow> over empty_by t \<noteq> []) \<and> 0 \<le> trailer \<and> 0 \<le> extra \<and>
        H + plain + trailer + extra = int (length m) \<and> sc_bytes_read ctx' = int (length m) - extra \<and>
        sc_msg_trailer ctx' = trailer \<and> over produced_by t = [] \<and> over payload_by t = [] \<and>
        over consumed_by t = take (nat (int (length m) - extra)) m \<and>
        drop (nat (int (length m) - extra)) (blit m 0 bs) = drop (nat (int (length m) - extra)) m \<and>
        over plain_by t = slice (blit m 0 bs) (nat H) (nat plain))"

lemma schannel_read_streams:
  assumes law: "stream_law H T L" and wf: "ib_wf rb" and size: "ib_len rb < 2 ^ 31"
  obtains ret ctx' w' bs where
    "schannel_read L ctx (ib_buf rb) (ib_start rb) (ib_len rb) w =
       Some (ret, ctx', blit (ib_buf rb) (nat (ib_start rb)) bs, w')"
    "int (length bs) \<le> ib_len rb" "ret \<noteq> WantWrite" "sc_state ctx' = sc_state ctx"
    "sc_header ctx' = sc_header ctx" "sc_trailer ctx' = sc_trailer ctx"
    "ret \<noteq> Completed \<longrightarrow> blit (ib_contents rb) 0 bs = ib_contents rb \<and>
       (\<exists>t. trace w' = trace w @ t \<and> over consumed_by t = [] \<and> over produced_by t = [] \<and>
          over plain_by t = [] \<and> over payload_by t = [] \<and> over empty_by t = [])"
    "ret = Completed \<longrightarrow> record_read H (ib_contents rb) bs ctx' w w'"
proof -
  let ?m = "ib_contents rb" and ?n = "ib_len rb"
  have sp: "span (ib_buf rb) (ib_start rb) ?n = Some ?m" by (rule span_contents [OF wf])
  define b where "b = \<lparr>BufferType = SECBUFFER_DATA, cbBuffer = ?n, pvBuffer = ?m\<rparr>"
  define c where "c = S_DecryptMessage (sc_context ctx) [b, empty_buffer, empty_buffer, empty_buffer]"
  obtain a w1 where aw: "ask L c w = (a, w1)" by fastforce
  have tr: "trace w1 = trace w @ [(c, a)]" using trace_ask [of L c w] by (simp add: aw)
  have "stream_answer_law H T c a" and sa: "sec_answer_law c a"
    using stream_law_answer [OF law aw] by auto
  then have bs: "int (length (r_bytes a)) \<le> ?n"
    using length_ib_contents [OF wf] by (simp add: c_def b_def empty_buffer_def)
  note ow = ib_overwrite_ok [OF wf bs]
  define extra where "extra = cbBuffer (buf_after a 3 empty_buffer)"
  define rest where "rest = cbBuffer (buf_after a 2 empty_buffer)"
  define plain where "plain = cbBuffer (buf_after a 1 empty_buffer)"
  show ?thesis
  proof (cases "sec_ret a = SEC_E_OK")
    case True
    then have l: "cbBuffer (buf_after a 0 b) = H" "0 \<le> plain" "0 \<le> extra" "extra \<le> rest" "H + plain + rest = ?n"
      "drop (nat (?n - extra)) (blit ?m 0 (r_bytes a)) = drop (nat (?n - extra)) ?m"
      using \<open>stream_answer_law H T c a\<close>
      by (auto simp: c_def b_def Let_def extra_def rest_def plain_def)
    have H: "0 \<le> H" using law by (simp add: stream_law_def)
    have i: "i32 rest = rest" "i32 (rest - extra) = rest - extra" "i32 (?n - extra) = ?n - extra"
      using l H size by (auto intro!: i32_nonneg)
    have eq: "schannel_read L ctx (ib_buf rb) (ib_start rb) ?n w =
        Some (Completed, ctx\<lparr>sc_bytes_read := ?n - extra, sc_msg_trailer := rest - extra\<rparr>,
          blit (ib_buf rb) (nat (ib_start rb)) (r_bytes a), w1)"
      using True aw i ow(1)
      by (simp add: schannel_read_def sp c_def b_def Let_def extra_def rest_def)
    have "over consumed_by [(c, a)] = take (nat (?n - extra)) ?m"
      "over plain_by [(c, a)] = slice (blit ?m 0 (r_bytes a)) (nat H) (nat plain)"
      "over produced_by [(c, a)] = []" "over payload_by [(c, a)] = []" "plain = 0 \<Longrightarrow> over empty_by [(c, a)] \<noteq> []"
      using True l(1) by (simp_all add: c_def b_def extra_def plain_def)
    then have rr: "record_read H ?m (r_bytes a) (ctx\<lparr>sc_bytes_read := ?n - extra, sc_msg_trailer := rest - extra\<rparr>) w w1"
      using l tr unfolding record_read_def
      by - (rule exI [of _ "[(c, a)]"], rule exI [of _ plain], rule exI [of _ "rest - extra"],
          rule exI [of _ extra], simp flip: length_ib_contents [OF wf])
    show ?thesis by (rule that [OF eq bs]) (simp_all add: rr)
  next
    case False
    then have same: "blit ?m 0 (r_bytes a) = ?m"
      using \<open>stream_answer_law H T c a\<close> by (simp add: c_def b_def Let_def)
    have "\<exists>ret ctx' w'. schannel_read L ctx (ib_buf rb) (ib_start rb) ?n w =
        Some (ret, ctx', blit (ib_buf rb) (nat (ib_start rb)) (r_bytes a), w') \<and> ret \<noteq> WantWrite \<and>
        ret \<noteq> Completed \<and> ctx' = ctx\<lparr>sc_bytes_read := 0\<rparr> \<and> trace w' = trace w1"
      using False aw ow(1)
      by (simp add: schannel_read_def sp c_def b_def Let_def)
    then show ?thesis
      using False same bs tr
      by (auto intro!: that exI [of _ "[(c, a)]"] simp: c_def b_def)
  qed
qed

lemmas session_defs = session_inv_def session_wf_def session_streams_def Let_def

text \<open>Between iterations the session may change its phase, and the trace by calls on no stream.\<close>

definition same_streams :: "(sec_call \<times> lib_answer) list \<Rightarrow> (sec_call \<times> lib_answer) list \<Rightarrow> bool" where
  "same_streams t t' \<longleftrightarrow>
     over consumed_by t' = over consumed_by t \<and> over produced_by t' = over produced_by t \<and>
     over plain_by t' = over plain_by t \<and> over payload_by t' = over payload_by t \<and>
     over empty_by t' = over empty_by t"

lemma session_inv_phase:
  assumes inv: "session_inv H T client s" and rem: "tw_remaining s = 0"
    and phase: "at_rest (tw_phase s) \<or> tw_phase s = Reading n"
    and tr: "same_streams (trace (tw_sec s)) (trace sw)"
    and p: "p = Idle \<or> p = Handshaking To_idle \<or> (\<exists>e. p = Raised e) \<or>
      p = tw_phase s \<or> p = Handshaking (To_reading n) \<and> tw_phase s = Reading n"
  shows "session_inv H T client (s\<lparr>tw_sec := sw, tw_phase := p\<rparr>)"
proof -
  have client: "client \<longrightarrow> sc_state (tw_ctx s) = ContextInitialized"
    using inv phase
    by (auto simp: session_inv_def session_wf_def Let_def at_rest_def split: win_phase.splits)
  have "p = tw_phase s \<or> p \<noteq> tw_phase s" by blast
  then have wf: "session_wf H T client (s\<lparr>tw_sec := sw, tw_phase := p\<rparr>)"
    using inv rem phase p client
    by (elim disjE exE) (simp_all add: session_inv_def session_wf_def Let_def sizes_known_def cong: win_phase.case_cong)
  have "session_streams (s\<lparr>tw_sec := sw, tw_phase := p\<rparr>)"
    using inv rem tr
    by (simp add: session_inv_def session_streams_def Let_def same_streams_def)
  with wf show ?thesis by (simp add: session_inv_def)
qed

lemma session_inv_shutdown [simp]:
  "session_inv H T client (s\<lparr>tw_shutdown := b\<rparr>) = session_inv H T client s"
  by (simp add: session_inv_def session_wf_def session_streams_def sizes_known_def cong: win_phase.case_cong)

lemma session_inv_error:
  "session_inv H T client s \<Longrightarrow> session_inv H T client (s\<lparr>tw_errors := tw_errors s @ [e]\<rparr>)"
  by (cases "tw_phase s")
    (auto simp: session_inv_def session_wf_def session_streams_def sizes_known_def inflight_def Let_def)

lemma session_inv_raise:
  assumes "session_inv H T client (s\<lparr>tw_phase := Raised e\<rparr>)"
  shows "session_inv H T client (tls_raise e s)"
proof -
  have "tls_raise e s = (s\<lparr>tw_phase := Raised e\<rparr>)\<lparr>tw_errors := tw_errors (s\<lparr>tw_phase := Raised e\<rparr>) @ [e]\<rparr>"
    by (simp add: tls_raise_def)
  then show ?thesis using session_inv_error [OF assms, of e] by simp
qed

lemma tls_shutdown_inv:
  assumes inv: "session_inv H T client s" and rem: "tw_remaining s = 0"
    and phase: "at_rest (tw_phase s) \<or> tw_phase s = Reading n"
  shows "session_inv H T client (tls_shutdown L s)"
proof -
  define c where "c = S_ApplyControlToken (sc_context (tw_ctx s))
    \<lparr>BufferType = SECBUFFER_TOKEN, cbBuffer = 4, pvBuffer = le_bytes 4 SCHANNEL_SHUTDOWN\<rparr>"
  obtain a sw where aw: "ask L c (tw_sec s) = (a, sw)" by fastforce
  have sh: "schannel_shutdown L (tw_ctx s) (tw_sec s) = (sec_ret a, sw)"
    using aw by (simp add: schannel_shutdown_def c_def)
  have "trace sw = trace (tw_sec s) @ [(c, a)]" using trace_ask [of L c "tw_sec s"] by (simp add: aw)
  then have tr: "same_streams (trace (tw_sec s)) (trace sw)" by (simp add: same_streams_def c_def)
  have refl: "same_streams (trace (tw_sec s)) (trace (tw_sec s))" by (simp add: same_streams_def)
  note go = session_inv_phase [OF inv rem phase]
  let ?s = "s\<lparr>tw_shutdown := True\<rparr>"
  have 3: "?s\<lparr>tw_phase := p\<rparr> = s\<lparr>tw_phase := p, tw_shutdown := True\<rparr>"
    "?s\<lparr>tw_sec := sw, tw_phase := p\<rparr> = s\<lparr>tw_sec := sw, tw_phase := p, tw_shutdown := True\<rparr>"
    for p by simp_all
  have 1: "session_inv H T client (s\<lparr>tw_phase := Idle\<rparr>)" "session_inv H T client (?s\<lparr>tw_phase := Idle\<rparr>)"
    using go [OF refl, of Idle] unfolding 3 by simp_all
  have 2: "session_inv H T client (?s\<lparr>tw_sec := sw, tw_phase := Handshaking To_idle\<rparr>)"
    using go [OF tr, of "Handshaking To_idle"] unfolding 3 by simp
  have "session_inv H T client (?s\<lparr>tw_phase := Raised e\<rparr>)"
    "session_inv H T client (?s\<lparr>tw_sec := sw, tw_phase := Raised e\<rparr>)" for e
    using go [OF refl, of "Raised e"] go [OF tr, of "Raised e"] unfolding 3 by simp_all
  then have 4: "session_inv H T client (tls_raise e ?s)" "session_inv H T client (tls_raise e (?s\<lparr>tw_sec := sw\<rparr>))" for e
    by (blast intro: session_inv_raise)+
  show ?thesis
    using 1 2 4
    by (cases "tp_state (tw_tp s)") (simp_all add: tls_shutdown_def sh Let_def del: tls_win.surjective)
qed

lemma read_deliver_inv:
  assumes inv: "session_inv H T client s" and phase: "tw_phase s = Reading n" and rem: "tw_remaining s \<noteq> 0"
  obtains s' where "read_deliver n s = Some s'" "session_inv H T client s'"
proof -
  let ?tp = "tw_tp s" let ?rb = "tp_read ?tp" let ?here = "ib_contents ?rb"
  define len where "len = min (tw_remaining s) n"
  have n: "0 \<le> n" and r0: "0 < tw_remaining s" and t0: "0 \<le> tw_trailer s" and wf: "ib_wf ?rb"
    and fl: "tw_remaining s + tw_trailer s \<le> ib_len ?rb"
    using inv phase rem by (auto simp: session_defs inflight_def)
  have len: "0 \<le> len" "len \<le> tw_remaining s" "len \<le> ib_len ?rb" using n r0 t0 fl by (auto simp: len_def)
  have hl: "length ?here = nat (ib_len ?rb)" using length_ib_contents [OF wf] by simp
  have "span (ib_buf ?rb) (ib_start ?rb) len \<noteq> None"
    using wf len by (simp only: span_Some_iff) (auto simp: ib_wf_def ib_capacity_def)
  moreover have "slice (ib_buf ?rb) (nat (ib_start ?rb)) (nat len) = take (nat len) ?here"
    using len by (simp add: ib_contents_def slice_def min_def)
  ultimately have sp: "span (ib_buf ?rb) (ib_start ?rb) len = Some (take (nat len) ?here)"
    by (auto simp: span_def rd_def split: if_splits)
  obtain rb where rb: "ib_drop ?rb len = Some rb" "ib_wf rb" "ib_contents rb = drop (nat len) ?here"
    "ib_len rb = ib_len ?rb - len"
    using ib_drop_ok [OF wf len(1,3)] by metis
  define rem' where "rem' = tw_remaining s - len"
  obtain rb' where rb': "(if rem' = 0 then ib_drop rb (tw_trailer s) else Some rb) = Some rb'" "ib_wf rb'"
    "ib_contents rb' = (if rem' = 0 then drop (nat (len + tw_trailer s)) ?here else drop (nat len) ?here)"
    "ib_len rb' = (if rem' = 0 then ib_len ?rb - len - tw_trailer s else ib_len ?rb - len)"
  proof (cases "rem' = 0")
    case True
    then have "tw_trailer s \<le> ib_len rb" using fl rb(4) by (simp add: rem'_def)
    then obtain rb2 where "ib_drop rb (tw_trailer s) = Some rb2" "ib_wf rb2"
      "ib_contents rb2 = drop (nat (tw_trailer s)) (ib_contents rb)" "ib_len rb2 = ib_len rb - tw_trailer s"
      using ib_drop_ok [OF rb(2) t0] by metis
    then show thesis using that True rb t0 len(1) by (simp add: nat_add_distrib add.commute)
  next
    case False
    then show thesis using that rb by simp
  qed
  define s' where "s' = s\<lparr>tw_tp := ?tp\<lparr>tp_read := rb'\<rparr>, tw_remaining := rem', tw_phase := Idle,
      tw_delivered := tw_delivered s @ take (nat len) ?here\<rparr>"
  have "read_deliver n s = Some s'"
    using sp rb(1) rb'(1) by (simp add: read_deliver_def Let_def len_def [symmetric] rem'_def s'_def)
  moreover have "nat (tw_remaining s) = nat len + nat rem'"
    using len by (simp add: rem'_def)
  then have "take (nat (tw_remaining s)) ?here = take (nat len) ?here @ take (nat rem') (drop (nat len) ?here)"
    by (simp add: take_add)
  moreover have "drop (nat (inflight s)) ?here = drop (nat (inflight s')) (ib_contents rb')"
    using len r0 t0 by (auto simp: rb'(3) inflight_def s'_def rem'_def simp flip: nat_add_distrib)
  moreover have "inflight s' \<le> ib_len rb'" using fl len rb'(4) by (auto simp: inflight_def s'_def rem'_def)
  ultimately show ?thesis
    using inv phase rb'(2) r0 t0 len by (intro that [of s']) (auto simp: session_defs s'_def rem'_def rb'(3))
qed

text \<open>The buffer is overwritten in place by the same bytes, and more may be read behind them.\<close>

lemma session_inv_read:
  assumes inv: "session_inv H T client s" and rem: "tw_remaining s = 0"
    and phase: "tw_phase s = Reading n"
    and tp: "ib_wf rb" "ib_contents rb = ib_contents (tp_read (tw_tp s)) @ d"
      "tp_received tp = tp_received (tw_tp s) @ d" "tp_read tp = rb" "tp_write tp = tp_write (tw_tp s)"
      "tp_sent tp = tp_sent (tw_tp s)"
    and ctx: "sc_state ctx = sc_state (tw_ctx s)" "sc_header ctx = sc_header (tw_ctx s)"
      "sc_trailer ctx = sc_trailer (tw_ctx s)"
    and tr: "same_streams (trace (tw_sec s)) (trace sw)"
    and p: "p = Reading n \<or> p = Idle \<or> (\<exists>e. p = Raised e)"
  shows "session_inv H T client (s\<lparr>tw_ctx := ctx, tw_sec := sw, tw_tp := tp, tw_phase := p\<rparr>)"
proof -
  have "session_wf H T client (s\<lparr>tw_ctx := ctx, tw_sec := sw, tw_tp := tp, tw_phase := p\<rparr>)"
    using inv rem phase tp ctx p
    by (elim disjE exE)
      (simp_all add: session_inv_def session_wf_def Let_def sizes_known_def inflight_def ib_wf_def)
  moreover have "session_streams (s\<lparr>tw_ctx := ctx, tw_sec := sw, tw_tp := tp, tw_phase := p\<rparr>)"
    using inv rem phase tp tr
    by (simp add: session_inv_def session_streams_def Let_def same_streams_def inflight_def)
  ultimately show ?thesis by (simp add: session_inv_def)
qed

lemma read_iter_inv:
  assumes law: "stream_law H T L" "peer_law P" and inv: "session_inv H T client s"
    and phase: "tw_phase s = Reading n" and rem: "tw_remaining s = 0"
    and size: "ib_capacity (tp_read (tw_tp s)) < 2 ^ 31"
  obtains s' where "read_iter L P n s = Some s'" "session_inv H T client s'"
proof -
  let ?tp = "tw_tp s" and ?ctx = "tw_ctx s" and ?here = "ib_contents (tp_read (tw_tp s))"
  have HT: "sc_header ?ctx = H" "sc_trailer ?ctx = T" "0 \<le> H" "H < 2 ^ 31"
    and wf: "ib_wf (tp_read ?tp)"
    using inv phase law(1)
    by (auto simp: session_inv_def session_wf_def Let_def sizes_known_def stream_law_def BUFFER_SIZE_def)
  obtain rb where rb: "ib_enlarge_to (tp_read ?tp) (record_overhead ?ctx + 1) = Some rb" "ib_wf rb"
    "ib_contents rb = ?here" "ib_len rb = ib_len (tp_read ?tp)"
    using ib_enlarge_to_ok [OF wf] by metis
  have small: "ib_len rb < 2 ^ 31" using rb(4) wf size by (simp add: ib_wf_def)
  obtain ret ctx' sw bs where rd:
    "schannel_read L ?ctx (ib_buf rb) (ib_start rb) (ib_len rb) (tw_sec s) =
       Some (ret, ctx', blit (ib_buf rb) (nat (ib_start rb)) bs, sw)"
    "int (length bs) \<le> ib_len rb" "ret \<noteq> WantWrite" "sc_state ctx' = sc_state ?ctx"
    "sc_header ctx' = sc_header ?ctx" "sc_trailer ctx' = sc_trailer ?ctx"
    "ret \<noteq> Completed \<longrightarrow> blit (ib_contents rb) 0 bs = ib_contents rb \<and>
       (\<exists>t. trace sw = trace (tw_sec s) @ t \<and> over consumed_by t = [] \<and> over produced_by t = [] \<and>
          over plain_by t = [] \<and> over payload_by t = [] \<and> over empty_by t = [])"
    "ret = Completed \<longrightarrow> record_read H (ib_contents rb) bs ctx' (tw_sec s) sw"
    by (rule schannel_read_streams [OF law(1) rb(2) small, of ?ctx "tw_sec s"])
  define rb1 where "rb1 = rb\<lparr>ib_buf := blit (ib_buf rb) (nat (ib_start rb)) bs\<rparr>"
  have rb1: "ib_wf rb1" "ib_contents rb1 = blit ?here 0 bs" "ib_len rb1 = ib_len rb"
    using ib_overwrite_ok [OF rb(2) rd(2)] by (simp_all add: rb1_def rb(3))
  define s1 where "s1 = s\<lparr>tw_ctx := ctx', tw_sec := sw, tw_tp := ?tp\<lparr>tp_read := rb1\<rparr>\<rparr>"
  show ?thesis
  proof (cases "ret = Completed")
    case False
    then have same: "ib_contents rb1 = ?here" and tr: "same_streams (trace (tw_sec s)) (trace sw)"
      using rd(7) rb(3) rb1(2) by (auto simp: same_streams_def)
    note go = session_inv_read [OF inv rem phase _ _ _ refl _ _ rd(4-6) tr]
    have keep: "session_inv H T client (s1\<lparr>tw_phase := p\<rparr>)" if "p = Reading n \<or> p = Idle \<or> (\<exists>e. p = Raised e)" for p
      using go [of "?tp\<lparr>tp_read := rb1\<rparr>" "[]" p] that rb1(1) same by (simp add: s1_def)
    have "s1\<lparr>tw_phase := Reading n\<rparr> = s1"
      by (rule tls_win.equality) (simp_all add: s1_def phase)
    then have s1: "session_inv H T client s1" using keep [of "Reading n"] by simp
    have s1_simps: "tw_remaining s1 = 0" "tw_phase s1 = Reading n" using rem phase by (simp_all add: s1_def)
    show ?thesis
    proof (cases ret)
      case WantRead
      obtain r tp' d where rm: "read_more P (?tp\<lparr>tp_read := rb1\<rparr>) = Some (r, tp')" "ib_wf (tp_read tp')"
        "ib_contents (tp_read tp') = ?here @ d" "tp_received tp' = tp_received ?tp @ d"
        "tp_write tp' = tp_write ?tp" "tp_sent tp' = tp_sent ?tp"
        using read_more_ok [of "?tp\<lparr>tp_read := rb1\<rparr>" P] rb1(1) law(2) same by auto
      have more: "session_inv H T client (s1\<lparr>tw_tp := tp', tw_phase := p\<rparr>)" if "p = Reading n \<or> (\<exists>e. p = Raised e)" for p
        using go [of tp' d p] rm that by (auto simp: s1_def)
      have "s1\<lparr>tw_tp := tp', tw_phase := Reading n\<rparr> = s1\<lparr>tw_tp := tp'\<rparr>"
        by (rule tls_win.equality) (simp_all add: s1_def phase)
      then have "session_inv H T client (s1\<lparr>tw_tp := tp'\<rparr>)" using more [of "Reading n"] by simp
      moreover have "session_inv H T client (tls_raise e (s1\<lparr>tw_tp := tp'\<rparr>))" for e
        using more [of "Raised e"] by (intro session_inv_raise) simp
      ultimately show ?thesis
        using WantRead keep [of Idle] rm(1) rb(1) rd(1)
        by (cases "ib_len rb1 = 0 \<and> tp_state ?tp = Tp_closed"; cases r)
          (auto intro!: that simp: read_iter_def Let_def s1_def rb1_def)
    next
      case Tls_Eof
      then show ?thesis
        using that [of "tls_shutdown L s1"] tls_shutdown_inv [OF s1 s1_simps(1) disjI2 [OF s1_simps(2)]] rb(1) rd(1)
        by (simp add: read_iter_def Let_def s1_def rb1_def)
    next
      case Tls_Error
      then show ?thesis
        using that [of "tls_raise (Tls_failure (last_error sw)) s1"] session_inv_raise [OF keep] rb(1) rd(1)
        by (simp add: read_iter_def Let_def s1_def rb1_def)
    next
      case ReNegotiate
      have "session_inv H T client (s1\<lparr>tw_phase := Handshaking (To_reading n)\<rparr>)"
        using session_inv_phase [OF s1 s1_simps(1) disjI2 [OF s1_simps(2)], of "tw_sec s1" "Handshaking (To_reading n)"]
          s1_simps by (simp add: same_streams_def)
      then show ?thesis
        using that [of "s1\<lparr>tw_phase := Handshaking (To_reading n)\<rparr>"] ReNegotiate rb(1) rd(1)
        by (simp add: read_iter_def Let_def s1_def rb1_def)
    qed (use False rd(3) in auto)
  next
    case True
    obtain t plain trailer extra where rr: "trace sw = trace (tw_sec s) @ t" "0 \<le> plain" "0 \<le> trailer" "0 \<le> extra"
      "H + plain + trailer + extra = int (length ?here)" "sc_bytes_read ctx' = int (length ?here) - extra"
      "sc_msg_trailer ctx' = trailer" "over produced_by t = []" "over payload_by t = []"
      "over consumed_by t = take (nat (int (length ?here) - extra)) ?here"
      "drop (nat (int (length ?here) - extra)) (blit ?here 0 bs) = drop (nat (int (length ?here) - extra)) ?here"
      "over plain_by t = slice (blit ?here 0 bs) (nat H) (nat plain)" "plain = 0 \<longrightarrow> over empty_by t \<noteq> []"
      using rd(8) True unfolding record_read_def rb(3) by blast
    have hl: "ib_len rb1 = int (length ?here)" using rb1(3) rb(4) length_ib_contents [OF wf] by simp
    have hdr: "schannel_header_size ctx' = H"
      using rd(5) HT by (simp add: schannel_header_size_def i32_nonneg)
    obtain rb2 where rb2: "ib_drop rb1 H = Some rb2" "ib_wf rb2" "ib_contents rb2 = drop (nat H) (blit ?here 0 bs)"
      "ib_len rb2 = int (length ?here) - H"
      using ib_drop_ok [OF rb1(1) HT(3)] rr(2-5) hl rb1(2) by (metis add_increasing2 le_add_same_cancel1)
    define s' where "s' = s1\<lparr>tw_tp := ?tp\<lparr>tp_read := rb2\<rparr>, tw_trailer := trailer, tw_remaining := plain\<rparr>"
    have rem': "sc_bytes_read ctx' - H - trailer = plain" using rr(5,6) by simp
    have "read_iter L P n s = Some s'"
      using True rb(1) rd(1) rb2(1) rr(7) hdr rem'
      by (simp add: read_iter_def Let_def s'_def s1_def rb1_def schannel_msg_trailer_def schannel_bytes_read_def)
    moreover have fl: "inflight s' = (if plain = 0 then 0 else int (length ?here) - extra - H)"
      using rr(2,5) by (auto simp: inflight_def s'_def)
    have "session_wf H T client s'"
      using inv phase rd(4-6) rb2(2,4) rr(2-5) fl
      by (simp add: session_inv_def session_wf_def Let_def s'_def s1_def sizes_known_def)
    moreover have "session_streams s'"
    proof -
      have "drop (nat (inflight s')) (ib_contents rb2) = drop (nat (int (length ?here) - extra)) ?here" if "plain \<noteq> 0"
        using that rr(2-5,11) HT(3) fl by (simp add: rb2(3) flip: nat_add_distrib)
      moreover have "take (nat plain) (ib_contents rb2) = over plain_by t" by (simp add: rb2(3) rr(12) slice_def)
      ultimately show ?thesis
        using inv phase rem rr(1,8-10,13)
        by (auto simp: session_inv_def session_streams_def Let_def s'_def s1_def inflight_def)
    qed
    ultimately show ?thesis using that by (simp add: session_inv_def)
  qed
qed

section \<open>Writing\<close>

text \<open>The layout of a record in the write buffer, and the call that encrypts it.\<close>

lemma schannel_write_streams:
  assumes law: "stream_law H T L" and buf: "int (length wbuf) = BUFFER_SIZE"
    and hd: "sc_header ctx = H" "sc_trailer ctx = T" and len: "0 \<le> len" "len \<le> BUFFER_SIZE - (H + T)"
    and data: "length data = nat len"
  obtains ret ctx' w' bs t where
    "schannel_write L ctx (blit wbuf (nat H) data) 0 len w = Some (ret, ctx', blit (blit wbuf (nat H) data) 0 bs, w')"
    "length bs \<le> length wbuf" "trace w' = trace w @ t" "over consumed_by t = []" "over plain_by t = []"
    "sc_state ctx' = sc_state ctx" "sc_header ctx' = H" "sc_trailer ctx' = T"
    "ret = WantWrite \<and> sc_bytes_to_write ctx' = int (length bs) \<and> over produced_by t = bs \<and> over payload_by t = data \<or>
     ret = Tls_Error \<and> sc_bytes_to_write ctx' = 0 \<and> over produced_by t = [] \<and> over payload_by t = []"
proof -
  let ?b = "blit wbuf (nat H) data"
  have HT: "0 \<le> H" "0 \<le> T" "H + T < BUFFER_SIZE" using law by (auto simp: stream_law_def)
  have bl: "length ?b = length wbuf" using HT len data buf by (intro length_blit) auto
  have p: "span ?b H len = Some data"
    using HT len data buf bl slice_blit_same [of "nat H" data wbuf]
    by (auto simp: span_def rd_def)
  obtain h tr where sp: "span ?b 0 H = Some h" "span ?b (H + len) T = Some tr"
    using HT len buf bl span_Some_iff [of ?b 0 H] span_Some_iff [of ?b "H + len" T] by fastforce
  define b0 where "b0 = \<lparr>BufferType = SECBUFFER_STREAM_HEADER, cbBuffer = H, pvBuffer = h\<rparr>"
  define b1 where "b1 = \<lparr>BufferType = SECBUFFER_DATA, cbBuffer = len, pvBuffer = data\<rparr>"
  define b2 where "b2 = \<lparr>BufferType = SECBUFFER_STREAM_TRAILER, cbBuffer = T, pvBuffer = tr\<rparr>"
  define c where "c = S_EncryptMessage (sc_context ctx) [b0, b1, b2, empty_buffer]"
  obtain a w1 where aw: "ask L c w = (a, w1)" by fastforce
  have t: "trace w1 = trace w @ [(c, a)]" using trace_ask [of L c w] by (simp add: aw)
  have la: "stream_answer_law H T c a" "sec_answer_law c a" using stream_law_answer [OF law aw] by auto
  have bs: "length (r_bytes a) \<le> length wbuf"
    using la(2) span_length [OF sp(1)] span_length [OF sp(2)] data HT len buf
    by (simp add: c_def b0_def b1_def b2_def empty_buffer_def)
  then have st: "store_at ?b 0 (r_bytes a) = Some (blit ?b 0 (r_bytes a))"
    using bl by (simp add: store_at_Some)
  have eq: "schannel_write L ctx ?b 0 len w =
      (if sec_ret a = SEC_E_OK
       then Some (WantWrite, ctx\<lparr>sc_bytes_to_write := i32 (cbBuffer (buf_after a 0 b0) + cbBuffer (buf_after a 1 b1) +
              cbBuffer (buf_after a 2 b2))\<rparr>, blit ?b 0 (r_bytes a), w1)
       else Some (Tls_Error, ctx\<lparr>sc_bytes_to_write := 0\<rparr>, blit ?b 0 (r_bytes a), set_last_error (sec_ret a) w1))"
    using aw st by (simp add: schannel_write_def sp p hd Let_def c_def b0_def b1_def b2_def)
  show ?thesis
  proof (cases "sec_ret a = SEC_E_OK")
    case True
    then have "cbBuffer (buf_after a 0 b0) + cbBuffer (buf_after a 1 b1) + cbBuffer (buf_after a 2 b2) =
        int (length (r_bytes a))"
      using la(1) by (simp add: c_def)
    moreover have "length (r_bytes a) < 2 ^ 31" using bs buf by (simp add: BUFFER_SIZE_def)
    ultimately have "i32 (cbBuffer (buf_after a 0 b0) + cbBuffer (buf_after a 1 b1) + cbBuffer (buf_after a 2 b2)) =
        int (length (r_bytes a))"
      by (simp add: i32_of_nat)
    with True show ?thesis
      using eq bs t hd by (intro that [of WantWrite "ctx\<lparr>sc_bytes_to_write := int (length (r_bytes a))\<rparr>" "r_bytes a" w1 "[(c, a)]"]) (auto simp: c_def b1_def)
  next
    case False
    then show ?thesis
      using eq bs t hd by (intro that [of Tls_Error "ctx\<lparr>sc_bytes_to_write := 0\<rparr>" "r_bytes a" "set_last_error (sec_ret a) w1" "[(c, a)]"]) (auto simp: c_def)
  qed
qed

lemma write_once_inv:
  assumes law: "stream_law H T L" and inv: "session_inv H T client s" and phase: "at_rest (tw_phase s)"
    and sent: "ib_len (tp_write (tw_tp s)) = 0"
    and known: "sizes_known H T s" and args: "0 \<le> off" "0 \<le> len" "off + len \<le> int (length buf)"
  obtains s' where "write_once L P buf off len s = Some s'" "session_inv H T client s'"
proof -
  let ?tp = "tw_tp s" let ?wb = "tp_write ?tp" let ?ctx = "tw_ctx s"
  have HT: "0 \<le> H" "0 \<le> T" "H + T < BUFFER_SIZE" "H < 2 ^ 31" "T < 2 ^ 31"
    using law by (auto simp: stream_law_def BUFFER_SIZE_def)
  have hd: "sc_header ?ctx = H" "sc_trailer ?ctx = T" using known by (auto simp: sizes_known_def)
  have wb: "ib_wf ?wb" "ib_start ?wb = 0" "ib_len ?wb = 0" "int (length (ib_buf ?wb)) = BUFFER_SIZE"
    using inv sent by (auto simp: session_inv_def session_wf_def Let_def ib_capacity_def)
  have client: "client \<longrightarrow> sc_state ?ctx = ContextInitialized"
    using inv phase
    by (auto simp: session_inv_def session_wf_def Let_def at_rest_def split: win_phase.splits)
  define n where "n = min len (BUFFER_SIZE - (H + T))"
  have n: "0 \<le> n" "n \<le> BUFFER_SIZE - (H + T)" "n \<le> len" using HT args by (auto simp: n_def)
  define data where "data = slice buf (nat off) (nat n)"
  have data: "length data = nat n" using args n by (simp add: data_def)
  have over: "record_overhead ?ctx = H + T" "schannel_header_size ?ctx = H"
    using hd HT by (simp_all add: record_overhead_def schannel_header_size_def schannel_trailer_size_def i32_nonneg)
  have "span buf off n = Some data"
    using args n by (simp add: span_def rd_def data_def flip: nat_add_distrib)
  then have bl: "array_blit (ib_buf ?wb) H buf off n = Some (blit (ib_buf ?wb) (nat H) data)"
    using HT n wb(4) by (intro array_blit_some) auto
  have len_b: "length (blit (ib_buf ?wb) (nat H) data) = length (ib_buf ?wb)"
    using HT n data wb(4) by (intro length_blit) auto
  obtain ret ctx' w' bs t where wr:
    "schannel_write L ?ctx (blit (ib_buf ?wb) (nat H) data) 0 n (tw_sec s) =
       Some (ret, ctx', blit (blit (ib_buf ?wb) (nat H) data) 0 bs, w')"
    "length bs \<le> length (ib_buf ?wb)" "trace w' = trace (tw_sec s) @ t" "over consumed_by t = []" "over plain_by t = []"
    "sc_state ctx' = sc_state ?ctx" "sc_header ctx' = H" "sc_trailer ctx' = T"
    "ret = WantWrite \<and> sc_bytes_to_write ctx' = int (length bs) \<and> over produced_by t = bs \<and> over payload_by t = data \<or>
     ret = Tls_Error \<and> sc_bytes_to_write ctx' = 0 \<and> over produced_by t = [] \<and> over payload_by t = []"
    by (rule schannel_write_streams [OF law wb(4) hd n(1,2) data])
  define m where "m = sc_bytes_to_write ctx'"
  define wb1 where "wb1 = ?wb\<lparr>ib_buf := blit (blit (ib_buf ?wb) (nat H) data) 0 bs, ib_len := m\<rparr>"
  have m: "m \<in> {0, int (length bs)}" using wr(9) by (auto simp: m_def)
  have wb1: "ib_wf wb1" "ib_contents wb1 = take (nat m) bs" "ib_capacity wb1 = BUFFER_SIZE" "ib_start wb1 = 0"
    using ib_put_ok [of "?wb\<lparr>ib_buf := blit (ib_buf ?wb) (nat H) data\<rparr>" bs m] wb wr(2) m len_b
    by (auto simp: wb1_def ib_capacity_def)
  define tp1 where "tp1 = ?tp\<lparr>tp_write := wb1\<rparr>"
  have empty: "ib_contents ?wb = []" using wb(3) by (simp add: ib_contents_def slice_def)
  show ?thesis
  proof (cases "ret = WantWrite")
    case False
    then have e: "ret = Tls_Error" "m = 0" "over produced_by t = []" "over payload_by t = []"
      using wr(9) by (auto simp: m_def)
    define s' where "s' = tls_raise (Tls_failure (last_error w')) (s\<lparr>tw_ctx := ctx', tw_sec := w', tw_tp := tp1\<rparr>)"
    have "write_once L P buf off len s = Some s'"
      using e(1) wb bl wr(1) by (simp add: write_once_def Let_def over ib_capacity_def n_def [symmetric]
          schannel_bytes_to_write_def m_def [symmetric] wb1_def tp1_def s'_def)
    moreover have "session_wf H T client s'"
      using inv client wb1 wr(6) by (auto simp: session_inv_def session_wf_def Let_def s'_def tp1_def inflight_def tls_raise_def)
    moreover have "session_streams s'"
      using inv sent wb1(2) e empty wr(3-5)
      by (auto simp: session_inv_def session_streams_def Let_def s'_def tp1_def inflight_def tls_raise_def)
    ultimately show ?thesis using that by (simp add: session_inv_def)
  next
    case True
    then have o: "m = int (length bs)" "over produced_by t = bs" "over payload_by t = data"
      using wr(9) by (auto simp: m_def)
    have "ib_wf (tp_write tp1)" by (simp add: tp1_def wb1)
    then obtain h tp' where fl: "hs_flush P Hs_done tp1 = Some (h, tp')" "ib_wf (tp_write tp')"
      "tp_read tp' = tp_read tp1" "tp_received tp' = tp_received tp1"
      "tp_sent tp' @ ib_contents (tp_write tp') = tp_sent tp1 @ ib_contents (tp_write tp1)"
      "ib_capacity (tp_write tp') = ib_capacity (tp_write tp1)"
      "(\<exists>e. h = Hs_raise e) \<or> h = Hs_done \<and> ib_len (tp_write tp') = 0 \<and>
         ib_start (tp_write tp') = (if ib_len (tp_write tp1) = 0 then ib_start (tp_write tp1) else 0)"
      "ib_start (tp_write tp1) = 0 \<longrightarrow> ib_start (tp_write tp') = 0" "h \<noteq> Hs_done \<longrightarrow> ib_len (tp_write tp') \<noteq> 0"
      by (rule hs_flush_ok [of tp1 P Hs_done])
    then obtain r where r: "flush_write P tp1 = Some (r, tp')" "h = (case r of Inl e \<Rightarrow> Hs_raise e | Inr _ \<Rightarrow> Hs_done)"
      by (auto simp: hs_flush_def)
    define s' where "s' = (case r of
        Inl e \<Rightarrow> tls_raise e (s\<lparr>tw_ctx := ctx', tw_sec := w', tw_tp := tp'\<rparr>)
      | Inr _ \<Rightarrow> s\<lparr>tw_ctx := ctx', tw_sec := w', tw_tp := tp', tw_phase := Idle,
          tw_accepted := tw_accepted s @ data\<rparr>)"
    have "write_once L P buf off len s =
        write_flush P data (s\<lparr>tw_ctx := ctx', tw_sec := w', tw_tp := tp1\<rparr>)"
      using True wb bl wr(1)
      by (simp add: write_once_def Let_def over ib_capacity_def n_def [symmetric] data_def [symmetric]
          schannel_bytes_to_write_def m_def [symmetric] wb1_def tp1_def)
    also have "\<dots> = Some s'" using r(1) by (cases r) (simp_all add: write_flush_def s'_def)
    finally have "write_once L P buf off len s = Some s'" .
    moreover have "session_wf H T client s'"
      using inv client wb1 wr(6-8) fl(2,3,6-9) r(2)
      by (cases r) (auto simp: session_inv_def session_wf_def Let_def s'_def tp1_def inflight_def tls_raise_def
          split: if_splits)
    moreover have "session_streams s'"
      using inv sent wb1(2) o empty wr(3-5) fl(3-5,9) r(2)
      by (cases r) (auto simp: session_inv_def session_streams_def Let_def s'_def tp1_def inflight_def tls_raise_def)
    ultimately show ?thesis using that by (simp add: session_inv_def)
  qed
qed

section \<open>Every session\<close>

text \<open>
  What the caller sees to: it asks for something when nothing runs, reads and writes when the first
  handshake has completed, with arguments in range, and shuts down when no plaintext waits. The
  arrays have an \<open>Int\<close> length. A handshake step begins with an empty write buffer: that fails only
  after an operation that raised left data in it, and what a handshake of the client then does is not
  followed (\<open>connect\<close> writes its output over that data).
\<close>

definition rq_fits :: "int \<Rightarrow> int \<Rightarrow> ('k, 'r) tls_win \<Rightarrow> request \<Rightarrow> bool" where
  "rq_fits H T s rq \<longleftrightarrow>
     ib_capacity (tp_read (tw_tp s)) < 2 ^ 31 \<and>
     (case rq of
        Rq_step \<Rightarrow> (\<exists>n. tw_phase s = Reading n) \<or>
          (\<exists>after. tw_phase s = Handshaking after) \<and> ib_len (tp_write (tw_tp s)) = 0
      | Rq_read n \<Rightarrow> at_rest (tw_phase s) \<and> 0 \<le> n \<and> sizes_known H T s
      | Rq_write buf off len \<Rightarrow> at_rest (tw_phase s) \<and> 0 \<le> off \<and> 0 \<le> len \<and> off + len \<le> int (length buf) \<and>
          sizes_known H T s
      | Rq_shutdown \<Rightarrow> at_rest (tw_phase s) \<and> tw_remaining s = 0)"

text \<open>
  A session begins with credentials, an empty transport and the handshake; the reader of a server
  may already hold bytes.
\<close>

definition tls_begin :: "sec_context \<Rightarrow> 'k sec_world \<Rightarrow> 'r transport \<Rightarrow> ('k, 'r) tls_win" where
  "tls_begin ctx sw tp =
     \<lparr>tw_ctx = ctx, tw_sec = sw, tw_tp = tp, tw_remaining = 0, tw_trailer = 0, tw_shutdown = False,
      tw_phase = Handshaking To_open, tw_delivered = [], tw_accepted = [], tw_errors = []\<rparr>"

inductive win_reach ::
  "int \<Rightarrow> int \<Rightarrow> 'k sec_lib \<Rightarrow> 'r peer \<Rightarrow> bool \<Rightarrow> sec_buffer \<Rightarrow> ptr \<Rightarrow> ('k, 'r) tls_win \<Rightarrow> bool"
  for H T L P client junk host where
  win_start: "sc_state ctx = HandleInitialized \<Longrightarrow> same_streams [] (trace sw) \<Longrightarrow> ib_wf rb \<Longrightarrow>
    (client \<Longrightarrow> ib_len rb = 0) \<Longrightarrow> Transport_new rb p = Some tp \<Longrightarrow>
    win_reach H T L P client junk host (tls_begin ctx sw tp)"
| win_next: "win_reach H T L P client junk host s \<Longrightarrow> rq_fits H T s rq \<Longrightarrow>
    win_step L P client junk host rq s = Some s' \<Longrightarrow> win_reach H T L P client junk host s'"

lemma tls_begin_inv:
  assumes "sc_state ctx = HandleInitialized" "same_streams [] (trace sw)" "ib_wf rb"
    "client \<Longrightarrow> ib_len rb = 0" "Transport_new rb p = Some tp"
  shows "session_inv H T client (tls_begin ctx sw tp)"
proof -
  obtain b where b: "ib_enlarge_to rb BUFFER_SIZE = Some b" "ib_wf b" "ib_contents b = ib_contents rb"
    "ib_len b = ib_len rb"
    using ib_enlarge_to_ok [OF assms(3)] by metis
  moreover from this have "tp = \<lparr>tp_state = Tp_normal, tp_read = b, tp_write = ib_new (nat BUFFER_SIZE),
      tp_peer = p, tp_received = ib_contents b, tp_sent = []\<rparr>"
    using assms(5) by (simp add: Transport_new_def)
  moreover have "ib_capacity (ib_new (nat BUFFER_SIZE)) = BUFFER_SIZE" "ib_start (ib_new n) = 0" "ib_len (ib_new n) = 0"
    "0 \<le> BUFFER_SIZE" for n
    by (simp_all add: ib_new_def ib_capacity_def BUFFER_SIZE_def)
  ultimately show ?thesis
    using assms(1,2,4)
    by (auto simp: tls_begin_def session_inv_def session_wf_def session_streams_def Let_def inflight_def
        same_streams_def ib_wf_def)
qed

definition write_stops :: "('k, 'r) tls_win \<Rightarrow> request \<Rightarrow> bool" where
  "write_stops s rq \<longleftrightarrow> (\<exists>buf off len. rq = Rq_write buf off len) \<and> ib_len (tp_write (tw_tp s)) \<noteq> 0"

lemma write_stops_None:
  "write_stops s rq \<Longrightarrow> at_rest (tw_phase s) \<Longrightarrow> win_step L P client junk host rq s = None"
  by (auto simp: write_stops_def win_step_def write_once_def Let_def)

lemma win_step_inv:
  assumes law: "stream_law H T L" "peer_law P" and junk: "BufferType junk \<noteq> SECBUFFER_EXTRA"
    and inv: "session_inv H T client s" and fits: "rq_fits H T s rq" and go: "\<not> write_stops s rq"
  obtains s' where "win_step L P client junk host rq s = Some s'" "session_inv H T client s'"
proof (cases "at_rest (tw_phase s)")
  case True
  have client: "client \<longrightarrow> sc_state (tw_ctx s) = ContextInitialized"
    using inv True
    by (auto simp: session_inv_def session_wf_def Let_def at_rest_def split: win_phase.splits)
  show thesis
  proof (cases rq)
    case (Rq_read n)
    have "session_inv H T client (s\<lparr>tw_phase := Reading n\<rparr>)"
      using inv client fits Rq_read
      by (simp add: rq_fits_def session_inv_def session_wf_def session_streams_def Let_def sizes_known_def)
    then show thesis using that True Rq_read by (simp add: win_step_def)
  next
    case (Rq_write buf off len)
    then have "ib_len (tp_write (tw_tp s)) = 0" using go by (simp add: write_stops_def)
    then obtain s' where "write_once L P buf off len s = Some s'" "session_inv H T client s'"
      using write_once_inv [OF law(1) inv True, of off len buf P] fits Rq_write by (auto simp: rq_fits_def)
    then show thesis using that True Rq_write by (simp add: win_step_def)
  next
    case Rq_shutdown
    then show thesis
      using that tls_shutdown_inv [OF inv _ disjI1 [OF True]] inv True fits
      by (cases "tw_shutdown s") (simp_all add: win_step_def rq_fits_def)
  next
    case Rq_step
    then show thesis using fits True by (auto simp: rq_fits_def at_rest_def)
  qed
next
  case False
  then have rq: "rq = Rq_step" using fits by (cases rq) (auto simp: rq_fits_def)
  then consider n where "tw_phase s = Reading n"
    | after where "tw_phase s = Handshaking after" "ib_len (tp_write (tw_tp s)) = 0"
    using fits by (auto simp: rq_fits_def)
  then show thesis
  proof cases
    case (1 n)
    obtain s' where "(if tw_remaining s = 0 then read_iter L P n s else read_deliver n s) = Some s'"
      "session_inv H T client s'"
    proof (cases "tw_remaining s = 0")
      case True
      then show thesis using read_iter_inv [OF law inv 1] fits that by (auto simp: rq_fits_def)
    next
      case False
      then show thesis using read_deliver_inv [OF inv 1] that by auto
    qed
    then show thesis using that rq 1 by (simp add: win_step_def at_rest_def)
  next
    case (2 after)
    obtain s' where "handshake_step L P client junk host after s = Some s'" "session_inv H T client s'"
      using handshake_step_inv [OF law junk inv 2(1) _ 2(2)] fits by (auto simp: rq_fits_def)
    then show thesis using that rq 2(1) by (simp add: win_step_def at_rest_def)
  qed
qed

lemma win_reach_inv:
  assumes "stream_law H T L" "peer_law P" "BufferType junk \<noteq> SECBUFFER_EXTRA"
  shows "win_reach H T L P client junk host s \<Longrightarrow> session_inv H T client s"
proof (induction rule: win_reach.induct)
  case (win_start ctx sw rb p tp)
  then show ?case by (rule tls_begin_inv)
next
  case (win_next s rq s')
  have "\<not> write_stops s rq"
    using write_stops_None [of s rq] win_next.hyps(2,3) by (auto simp: write_stops_def rq_fits_def)
  then obtain s2 where "win_step L P client junk host rq s = Some s2" "session_inv H T client s2"
    by (rule win_step_inv [OF assms win_next.IH win_next.hyps(2)])
  then show ?case using win_next.hyps(3) by simp
qed


text \<open>
  A package that completes the handshake at once; a record is a header of one byte, two bytes of
  plaintext and a trailer of one byte on the way in, and any payload between header and trailer on
  the way out. The peer sends one record, in two pieces.
\<close>

definition demo_tls :: "unit sec_lib" where
  "demo_tls c k =
     (case c of
        S_malloc \<Rightarrow> no_answer\<lparr>r_ret := 1000\<rparr>
      | S_InitializeSecurityContext _ None _ _ _ out \<Rightarrow>
          if 3 \<le> cbBuffer out
          then no_answer\<lparr>r_num := 9, r_bytes := [22, 3, 3], r_bufs := [(SECBUFFER_TOKEN, 3)]\<rparr>
          else no_answer\<lparr>r_ret := -1\<rparr>
      | S_QueryStreamSizes _ \<Rightarrow> no_answer\<lparr>r_nums := [1, 1]\<rparr>
      | S_DecryptMessage _ (b # _) \<Rightarrow>
          if 4 \<le> cbBuffer b
          then no_answer\<lparr>r_bufs := [(SECBUFFER_STREAM_HEADER, 1), (SECBUFFER_DATA, 2),
                 (SECBUFFER_STREAM_TRAILER, cbBuffer b - 3), (SECBUFFER_EXTRA, cbBuffer b - 4)]\<rparr>
          else no_answer\<lparr>r_ret := SEC_E_INCOMPLETE_MESSAGE\<rparr>
      | S_EncryptMessage _ [b0, b1, b2, b3] \<Rightarrow>
          no_answer\<lparr>r_bytes := pvBuffer b0 @ pvBuffer b1 @ pvBuffer b2,
            r_bufs := map (\<lambda>b. (SECBUFFER_DATA, int (length (pvBuffer b)))) [b0, b1, b2]\<rparr>
      | _ \<Rightarrow> no_answer\<lparr>r_ret := -1\<rparr>, k)"

definition demo_peer :: "bool peer" where
  "demo_peer = \<lparr>direct_read = (\<lambda>p n. (Inr (take (nat n) (if p then [23, 104, 105] else [9])), False)),
     write_all = (\<lambda>p bs. (None, p))\<rparr>"

lemma demo_tls_law: "stream_law 1 1 demo_tls"
proof -
  have "sec_answer_law c (fst (demo_tls c k))" for c k
  proof (cases c)
    case (S_DecryptMessage h bs)
    then show ?thesis by (cases bs) (auto simp: demo_tls_def no_answer_def)
  next
    case (S_EncryptMessage h bs)
    then show ?thesis by (auto simp: demo_tls_def no_answer_def split: list.splits)
  qed (auto simp: demo_tls_def no_answer_def context_law_def token_law_def extra_law_def Let_def buf_after_def
        empty_buffer_def sec_types sec_status sec_ret_def i32_def split: option.splits)
  moreover have "stream_answer_law 1 1 c (fst (demo_tls c k))" for c k
  proof (cases c)
    case (S_DecryptMessage h bs)
    then show ?thesis
      by (cases bs) (auto simp: demo_tls_def no_answer_def sec_ret_def i32_def sec_status blit_def buf_after_def)
  next
    case (S_EncryptMessage h bs)
    then show ?thesis
      by (cases "(1, 1, c, fst (demo_tls c k)) :: int \<times> int \<times> sec_call \<times> lib_answer" rule: stream_answer_law.cases)
        (auto simp: demo_tls_def no_answer_def sec_ret_def i32_def sec_status buf_after_def)
  qed (auto simp: demo_tls_def no_answer_def)
  ultimately show ?thesis by (simp add: stream_law_def sec_law_def BUFFER_SIZE_def)
qed

lemmas demo_call_simps = demo_tls_def demo_peer_def no_answer_def ask_def buf_after_def empty_buffer_def
  sec_ret_def i32_def sec_status sec_types span_def rd_def slice_def store_at_def poke_def blit_def
  array_blit_def ib_drop_def ib_capacity_def ib_enlarge_to_def BUFFER_SIZE_def SEGMENT_SIZE_def at_rest_def
  schannel_bytes_read_def schannel_bytes_to_write_def schannel_header_size_def schannel_trailer_size_def
  schannel_msg_trailer_def record_overhead_def flush_write_def read_more_def


section \<open>What the hypotheses leave out\<close>

text \<open>
  A record with an empty plaintext (\<open>bytes_read\<close> is header and trailer): the loop goes
  on with the trailer at the front of the buffer, as if it began the next record.
\<close>

lemma empty_record_desync:
  assumes "ib_enlarge_to (tp_read (tw_tp s)) (record_overhead (tw_ctx s) + 1) = Some rb" "ib_wf rb"
    and "schannel_read L (tw_ctx s) (ib_buf rb) (ib_start rb) (ib_len rb) (tw_sec s) = Some (Completed, ctx, buf, sw)"
    and "schannel_header_size ctx = h" "0 \<le> h" "sc_msg_trailer ctx = t" "0 < t" "sc_bytes_read ctx = h + t"
      "h + t \<le> ib_len rb" "tw_phase s = Reading n"
  shows "\<exists>s'. read_iter L P n s = Some s' \<and> tw_phase s' = Reading n \<and> tw_remaining s' = 0 \<and>
    ib_len (tp_read (tw_tp s')) = ib_len rb - h"
  using assms
  by (auto simp: read_iter_def Let_def ib_drop_def schannel_msg_trailer_def schannel_bytes_read_def)

text \<open>After a flush that failed or was cancelled the next \<open>write_once\<close> panics.\<close>

lemma write_after_failed_flush:
  assumes "flush_write P (tw_tp s) = Some (Inl e, tp)" "ib_wf (tp_write (tw_tp s))"
  shows "win_step L P client junk host (Rq_write buf off len) (tls_raise e (s\<lparr>tw_tp := tp\<rparr>)) = None"
  using assms
  by (auto simp: win_step_def at_rest_def tls_raise_def flush_write_def write_once_def Let_def split: if_splits tp_state.splits option.splits prod.splits)

text \<open>
  The peer ends the first handshake: \<open>connect\<close> returns as if it were complete, and the sizes of
  header and trailer keep whatever the block of the context held.
\<close>

lemma handshake_eof_counts_as_done:
  assumes "schannel_connect L junk (tw_ctx s) host (ib_buf rb) (ib_start rb) (ib_len rb) (ib_buf wb) (ib_start wb)
      (ib_capacity wb - ib_start wb - ib_len wb) (tw_sec s) = Some (Tls_Eof, ctx, ob, sw)"
    and "rb = tp_read (tw_tp s)" "wb = tp_write (tw_tp s)" "ib_wf rb" "sc_bytes_read ctx = 0"
    and "ib_len wb = 0" "sc_bytes_to_write ctx = 0"
  shows "\<exists>s'. handshake_step L P True junk host To_open s = Some s' \<and> tw_phase s' = Idle \<and> tw_ctx s' = ctx"
  using assms
  by (auto simp: handshake_step_def tls_connect_iter_def hs_finish_def hs_match_def hs_flush_def flush_write_def
      ib_drop_def ib_wf_def Let_def schannel_bytes_read_def schannel_bytes_to_write_def)

end
