(* ===== verification/Tls_Client.thy ===== *)
theory Tls_Client
  imports Schannel_Resources
begin

text \<open>
  \<open>Tls::client_from_pair\<close> of \<open>schannel.mbt\<close>, before and after the handshake: credentials
  by the trust asked for, the custom roots, and the check of the certificate against them. The PEM
  file is already decoded to a list of certificates (\<open>decode_pem_certificates\<close>).
\<close>

datatype trusted_root = NoVerification | SystemRoot | CustomPemFile "byte list list"

fun add_roots ::
  "'k sec_lib \<Rightarrow> byte list list \<Rightarrow> sec_context \<Rightarrow> 'k sec_world \<Rightarrow> (int + sec_context) \<times> 'k sec_world" where
  "add_roots L [] ctx w = (Inr ctx, w)"
| "add_roots L (der # ders) ctx w =
     (let (err, ctx, w) = schannel_add_root_certificate L ctx der w
      in if err \<noteq> 0 then (Inl err, schannel_free L ctx w) else add_roots L ders ctx w)"

definition tls_open_context ::
  "'k sec_lib \<Rightarrow> sec_context \<Rightarrow> trusted_root \<Rightarrow> 'k sec_world \<Rightarrow> ((int + sec_context) \<times> 'k sec_world) option" where
  "tls_open_context L junk trust w =
     (case schannel_new L junk w of
        None \<Rightarrow> None
      | Some (ctx, w) \<Rightarrow>
          let (err, ctx, w) = schannel_init_client L ctx (trust = SystemRoot) w
          in Some (if err \<noteq> 0 then (Inl err, schannel_free L ctx w)
                   else case trust of
                     CustomPemFile ders \<Rightarrow> add_roots L ders ctx w
                   | _ \<Rightarrow> (Inr ctx, w)))"

definition tls_check_peer ::
  "'k sec_lib \<Rightarrow> trusted_root \<Rightarrow> ptr \<Rightarrow> sec_context \<Rightarrow> 'k sec_world \<Rightarrow> (int + sec_context) \<times> 'k sec_world" where
  "tls_check_peer L trust host ctx w =
     (case trust of
        CustomPemFile _ \<Rightarrow>
          let (err, ctx, w) = schannel_verify_peer_certificate L ctx host w
          in if err \<noteq> 0 then (Inl err, schannel_free L ctx w) else (Inr ctx, w)
      | _ \<Rightarrow> (Inr ctx, w))"

section \<open>Errors of the certificate functions\<close>

text \<open>
  Those that fail set an error number that is not zero; releasing a certificate or a chain
  sets none.
\<close>

fun cert_error_law :: "sec_call \<Rightarrow> lib_answer \<Rightarrow> bool" where
  "cert_error_law (S_CertCreateCertificateContext _) a = (r_ret a = 0 \<longrightarrow> (\<exists>e. r_err a = Some e \<and> i32 e \<noteq> 0))"
| "cert_error_law S_CertOpenStore a = (r_ret a = 0 \<longrightarrow> (\<exists>e. r_err a = Some e \<and> i32 e \<noteq> 0))"
| "cert_error_law (S_CertAddCertificateContextToStore _ _) a = (r_ret a = 0 \<longrightarrow> (\<exists>e. r_err a = Some e \<and> i32 e \<noteq> 0))"
| "cert_error_law (S_CertCreateCertificateChainEngine _) a =
     (if r_ret a = 0 then \<exists>e. r_err a = Some e \<and> i32 e \<noteq> 0 else r_num a \<noteq> 0)"
| "cert_error_law (S_CertGetCertificateChain _ _) a = (r_ret a = 0 \<longrightarrow> (\<exists>e. r_err a = Some e \<and> i32 e \<noteq> 0))"
| "cert_error_law (S_CertVerifyCertificateChainPolicy _ _) a = (r_ret a = 0 \<longrightarrow> (\<exists>e. r_err a = Some e \<and> i32 e \<noteq> 0))"
| "cert_error_law (S_CertFreeCertificateContext _) a = (r_err a = None)"
| "cert_error_law (S_CertFreeCertificateChain _) a = (r_err a = None)"
| "cert_error_law _ a = True"

definition cert_law :: "'k sec_lib \<Rightarrow> bool" where
  "cert_law L \<longleftrightarrow> sec_law L \<and> (\<forall>c k. cert_error_law c (fst (L c k)))"

lemma cert_law_answer:
  "cert_law L \<Longrightarrow> ask L c w = (a, w') \<Longrightarrow>
     cert_error_law c a \<and> trace w' = trace w @ [(c, a)] \<and>
     last_error w' = (case r_err a of None \<Rightarrow> last_error w | Some e \<Rightarrow> e)"
  using trace_ask [of L c w] last_error_ask [of L c w] fst_ask [of L c w] by (auto simp: cert_law_def)

lemma cert_law_do:
  assumes "cert_law L"
  shows "last_error (ask_do L (S_CertFreeCertificateContext p) w) = last_error w"
    and "last_error (ask_do L (S_CertFreeCertificateChain p) w) = last_error w"
  using cert_law_answer [OF assms, of "S_CertFreeCertificateContext p" w]
    cert_law_answer [OF assms, of "S_CertFreeCertificateChain p" w]
  by (cases "ask L (S_CertFreeCertificateContext p) w", cases "ask L (S_CertFreeCertificateChain p) w",
      simp add: ask_do_def)+

section \<open>A certificate is added, a peer is verified\<close>

text \<open>In the trace \<open>t\<close>: the certificate of the encoding \<open>der\<close> was put in a store, which exists.\<close>

definition root_added :: "int \<Rightarrow> byte list \<Rightarrow> (sec_call \<times> lib_answer) list \<Rightarrow> bool" where
  "root_added store der t \<longleftrightarrow> store \<noteq> 0 \<and>
     (\<exists>a b. (S_CertCreateCertificateContext der, a) \<in> set t \<and> r_ret a \<noteq> 0 \<and>
        (S_CertAddCertificateContextToStore store (r_ret a), b) \<in> set t \<and> r_ret b \<noteq> 0)"

text \<open>
  The certificate of the peer has a chain, built by an engine that trusts the root store
  only, that passes the policy for the host.
\<close>

definition peer_verified :: "int \<Rightarrow> int \<Rightarrow> ptr \<Rightarrow> (sec_call \<times> lib_answer) list \<Rightarrow> bool" where
  "peer_verified cx store host t \<longleftrightarrow>
     (\<exists>a e b d. (S_QueryRemoteCert cx, a) \<in> set t \<and> sec_ret a = SEC_E_OK \<and>
        (S_CertCreateCertificateChainEngine store, e) \<in> set t \<and> r_ret e \<noteq> 0 \<and>
        (S_CertGetCertificateChain (r_num e) (r_num a), b) \<in> set t \<and> r_ret b \<noteq> 0 \<and>
        (S_CertVerifyCertificateChainPolicy (r_num b) host, d) \<in> set t \<and> r_ret d \<noteq> 0 \<and> i32 (r_num d) = 0)"

lemma add_root_trace:
  assumes "cert_law L" "schannel_add_root_certificate L ctx der w = (0, ctx', w')"
  shows "root_added (sc_root_store ctx') der (trace w')"
    and "sc_root_store ctx \<noteq> 0 \<Longrightarrow> sc_root_store ctx' = sc_root_store ctx"
    and "sc_chain_engine ctx' = 0" "set (trace w) \<subseteq> set (trace w')" "sc_state ctx' = sc_state ctx"
    and "sc_root_store ctx' \<noteq> 0"
proof -
  obtain a w1 where aw: "ask L (S_CertCreateCertificateContext der) w = (a, w1)" by fastforce
  note la = cert_law_answer [OF assms(1) aw]
  have a: "r_ret a \<noteq> 0"
    using assms(2) la by (auto simp: schannel_add_root_certificate_def aw)
  obtain store ctx1 w2 where gs: "get_or_create_custom_root_store L ctx w1 = (store, ctx1, w2)"
    by (cases "get_or_create_custom_root_store L ctx w1") auto
  obtain o' wo where ow: "ask L S_CertOpenStore w1 = (o', wo)" by fastforce
  note lo = cert_law_answer [OF assms(1) ow]
  have st: "sc_root_store ctx1 = store" "sc_state ctx1 = sc_state ctx" "set (trace w1) \<subseteq> set (trace w2)"
    "sc_root_store ctx \<noteq> 0 \<Longrightarrow> store = sc_root_store ctx" "store = 0 \<Longrightarrow> i32 (last_error w2) \<noteq> 0"
    using gs lo by (auto simp: get_or_create_custom_root_store_def ow split: if_splits)
  have store: "store \<noteq> 0"
    using assms(2) st(5) a
    by (auto simp: schannel_add_root_certificate_def aw gs Let_def cert_law_do [OF assms(1)])
  define d where "d = (if sc_chain_engine ctx1 \<noteq> 0
      then (ctx1\<lparr>sc_chain_engine := 0\<rparr>,
            ask_do L (S_CertFreeCertificateChainEngine (sc_chain_engine ctx1)) w2)
      else (ctx1, w2))"
  obtain ctx2 w3 where d2: "d = (ctx2, w3)" by fastforce
  have d3: "sc_chain_engine ctx2 = 0" "sc_root_store ctx2 = store" "sc_state ctx2 = sc_state ctx"
    "set (trace w2) \<subseteq> set (trace w3)"
    using d2 st by (auto simp: d_def trace_ask_do split: if_splits)
  obtain b w4 where bw: "ask L (S_CertAddCertificateContextToStore store (r_ret a)) w3 = (b, w4)" by fastforce
  note lb = cert_law_answer [OF assms(1) bw]
  have "r_ret b \<noteq> 0 \<and> ctx' = ctx2 \<and> w' = ask_do L (S_CertFreeCertificateContext (r_ret a)) w4"
    using assms(2) a store lb
    by (auto simp: schannel_add_root_certificate_def aw gs bw d2 d_def [symmetric] Let_def split: if_splits)
  then show "root_added (sc_root_store ctx') der (trace w')"
    "sc_root_store ctx \<noteq> 0 \<Longrightarrow> sc_root_store ctx' = sc_root_store ctx"
    "sc_chain_engine ctx' = 0" "set (trace w) \<subseteq> set (trace w')" "sc_state ctx' = sc_state ctx"
    "sc_root_store ctx' \<noteq> 0"
    using a la lb st d3 store unfolding root_added_def
    by (auto simp: trace_ask_do)
qed

lemma verify_trace:
  assumes "cert_law L" "schannel_verify_peer_certificate L ctx host w = (0, ctx', w')" "sc_chain_engine ctx = 0"
  obtains t where "trace w' = trace w @ t" "peer_verified (sc_context ctx) (sc_root_store ctx) host t"
proof -
  let ?q = "S_QueryRemoteCert (sc_context ctx)" and ?e = "S_CertCreateCertificateChainEngine (sc_root_store ctx)"
  obtain a w1 where aw: "ask L ?q w = (a, w1)" by fastforce
  obtain e w2 where ew: "ask L ?e w1 = (e, w2)" by fastforce
  let ?g = "S_CertGetCertificateChain (r_num e) (r_num a)"
  obtain b w3 where bw: "ask L ?g w2 = (b, w3)" by fastforce
  let ?v = "S_CertVerifyCertificateChainPolicy (r_num b) host"
  obtain d w4 where dw: "ask L ?v w3 = (d, w4)" by fastforce
  note l = cert_law_answer [OF assms(1) aw] cert_law_answer [OF assms(1) ew] cert_law_answer [OF assms(1) bw]
    cert_law_answer [OF assms(1) dw]
  have q: "sec_ret a = SEC_E_OK"
  proof (rule ccontr)
    assume "sec_ret a \<noteq> SEC_E_OK"
    then show False
      using assms(2) by (auto simp: schannel_verify_peer_certificate_def aw SEC_E_OK_def Let_def)
  qed
  have en: "r_ret e \<noteq> 0" "r_num e \<noteq> 0"
    using assms(2,3) q l(2)
    by (auto simp: schannel_verify_peer_certificate_def aw get_or_create_custom_root_chain_engine_def ew Let_def
        cert_law_do [OF assms(1)] split: if_splits)
  have ge: "get_or_create_custom_root_chain_engine L ctx w1 = (r_num e, ctx\<lparr>sc_chain_engine := r_num e\<rparr>, w2)"
    using assms(3) en by (simp add: get_or_create_custom_root_chain_engine_def ew)
  have ch: "r_ret b \<noteq> 0"
    using assms(2) q en l(3)
    by (auto simp: schannel_verify_peer_certificate_def aw ge bw Let_def split: if_splits)
  have fin: "r_ret d \<noteq> 0 \<and> i32 (r_num d) = 0 \<and>
      w' = ask_do L (S_CertFreeCertificateContext (r_num a)) (ask_do L (S_CertFreeCertificateChain (r_num b)) w4)"
    using assms(2) q en ch l(4)
    by (auto simp: schannel_verify_peer_certificate_def aw ge bw dw Let_def split: if_splits)
  have "trace w' = trace w @ [(?q, a), (?e, e), (?g, b), (?v, d)] @ drop (length (trace w4)) (trace w')"
    using fin l by (simp add: trace_ask_do)
  moreover have "peer_verified (sc_context ctx) (sc_root_store ctx) host
      ([(?q, a), (?e, e), (?g, b), (?v, d)] @ drop (length (trace w4)) (trace w'))"
    unfolding peer_verified_def using q en(1) ch fin
    by (intro exI [of _ a] exI [of _ e] exI [of _ b] exI [of _ d]) simp
  ultimately show thesis by (rule that)
qed

lemma add_roots_inv:
  assumes "sec_inv ctx w" "add_roots L ders ctx w = (r, w')"
  shows "case r of Inl e \<Rightarrow> e \<noteq> 0 \<and> sec_held (trace w') = Some {#} | Inr ctx' \<Rightarrow> sec_inv ctx' w'"
  using assms
proof (induction ders arbitrary: ctx w)
  case (Cons der ders)
  obtain err c1 w1 where ad: "schannel_add_root_certificate L ctx der w = (err, c1, w1)"
    by (cases "schannel_add_root_certificate L ctx der w") auto
  have "sec_inv c1 w1" by (rule add_root_certificate_inv [OF Cons.prems(1) ad])
  then show ?case
    using Cons.IH [of c1 w1] Cons.prems(2) schannel_free_leaves_nothing [of c1 w1 L]
    by (auto simp: ad split: if_splits)
qed auto

lemma root_added_mono: "root_added s der t \<Longrightarrow> set t \<subseteq> set t' \<Longrightarrow> root_added s der t'"
  unfolding root_added_def by blast

lemma add_roots_trace:
  assumes "cert_law L" "add_roots L ders ctx w = (Inr ctx', w')"
  shows "(\<forall>der \<in> set ders. root_added (sc_root_store ctx') der (trace w')) \<and> set (trace w) \<subseteq> set (trace w') \<and>
    sc_state ctx' = sc_state ctx \<and> sc_handle ctx' = sc_handle ctx \<and>
    (sc_root_store ctx \<noteq> 0 \<longrightarrow> sc_root_store ctx' = sc_root_store ctx) \<and>
    (sc_chain_engine ctx = 0 \<longrightarrow> sc_chain_engine ctx' = 0)"
  using assms(2)
proof (induction ders arbitrary: ctx w)
  case (Cons der ders)
  obtain err c1 w1 where ad: "schannel_add_root_certificate L ctx der w = (err, c1, w1)"
    by (cases "schannel_add_root_certificate L ctx der w") auto
  have err: "err = 0" "add_roots L ders c1 w1 = (Inr ctx', w')"
    using Cons.prems by (auto simp: ad split: if_splits)
  note a = add_root_trace [OF assms(1) ad [unfolded err(1)]]
  have "sc_handle c1 = sc_handle ctx"
    using ad by (auto simp: schannel_add_root_certificate_def get_or_create_custom_root_store_def Let_def
        split: if_splits prod.splits)
  then show ?case
    using Cons.IH [OF err(2)] a root_added_mono [OF a(1), of "trace w'"] by auto
qed auto

lemma init_client_flags:
  assumes "schannel_init_client L ctx verify w = (0, ctx', w')"
  obtains flags a where "(S_AcquireCredentialsHandle True SP_PROT_TLS1_CLIENT flags [], a) \<in> set (trace w')"
    "r_num a = sc_handle ctx'" "(flags AND SCH_CRED_MANUAL_CRED_VALIDATION \<noteq> 0) = (\<not> verify)"
    "sc_state ctx' = HandleInitialized" "sc_chain_engine ctx' = sc_chain_engine ctx" "sec_ret a = SEC_E_OK"
proof -
  define flags where "flags = SCH_CRED_IGNORE_NO_REVOCATION_CHECK OR (if verify then 0 else SCH_CRED_MANUAL_CRED_VALIDATION)"
  let ?c = "S_AcquireCredentialsHandle True SP_PROT_TLS1_CLIENT flags []"
  obtain a w1 where aw: "ask L ?c w = (a, w1)" by fastforce
  have "trace w1 = trace w @ [(?c, a)]" using trace_ask [of L ?c w] by (simp add: aw)
  moreover have "(flags AND SCH_CRED_MANUAL_CRED_VALIDATION \<noteq> 0) = (\<not> verify)"
    by (simp add: flags_def SCH_CRED_IGNORE_NO_REVOCATION_CHECK_def SCH_CRED_MANUAL_CRED_VALIDATION_def)
  moreover have "store_handle a ctx w1 = (0, ctx', w')"
    using assms by (simp add: schannel_init_client_def aw flags_def [symmetric])
  ultimately show thesis
    by (intro that [of flags a]) (auto simp: store_handle_def SEC_E_OK_def split: if_splits)
qed

text \<open>What setting up promises, and what the check after the handshake promises.\<close>

lemma tls_open_context_ok:
  assumes "cert_law L" "trace w = []"
  shows "(\<exists>r w1. tls_open_context L junk trust w = Some (r, w1) \<and>
      (case r of
         Inl e \<Rightarrow> e \<noteq> 0 \<and> sec_held (trace w1) = Some {#}
       | Inr ctx \<Rightarrow> sec_inv ctx w1 \<and> sc_state ctx = HandleInitialized \<and> sc_chain_engine ctx = 0 \<and>
           (\<exists>flags a. (S_AcquireCredentialsHandle True SP_PROT_TLS1_CLIENT flags [], a) \<in> set (trace w1) \<and>
              sec_ret a = SEC_E_OK \<and> r_num a = sc_handle ctx \<and>
              (flags AND SCH_CRED_MANUAL_CRED_VALIDATION \<noteq> 0) = (trust \<noteq> SystemRoot)) \<and>
           (\<forall>ders. trust = CustomPemFile ders \<longrightarrow>
              (\<forall>der \<in> set ders. root_added (sc_root_store ctx) der (trace w1)))))"
proof -
  have law: "sec_law L" using assms(1) by (simp add: cert_law_def)
  obtain c0 w0 where new: "schannel_new L junk w = Some (c0, w0)" "sec_inv c0 w0"
    by (rule schannel_new_inv [OF law assms(2)])
  have un: "sc_state c0 = Uninitialized" "sc_chain_engine c0 = 0"
    using new(1) by (auto simp: schannel_new_def split: if_splits prod.splits)
  obtain err c1 w1 where ini: "schannel_init_client L c0 (trust = SystemRoot) w0 = (err, c1, w1)"
    by (cases "schannel_init_client L c0 (trust = SystemRoot) w0") auto
  have inv1: "sec_inv c1 w1" by (rule init_client_inv [OF law new(2) un(1) ini])
  show ?thesis
  proof (cases "err = 0")
    case False
    then show ?thesis
      using schannel_free_leaves_nothing [OF inv1, of L] by (simp add: tls_open_context_def new(1) ini)
  next
    case True
    obtain flags a where fl: "(S_AcquireCredentialsHandle True SP_PROT_TLS1_CLIENT flags [], a) \<in> set (trace w1)"
      "r_num a = sc_handle c1" "(flags AND SCH_CRED_MANUAL_CRED_VALIDATION \<noteq> 0) = (trust \<noteq> SystemRoot)"
      "sc_state c1 = HandleInitialized" "sc_chain_engine c1 = 0" "sec_ret a = SEC_E_OK"
      using init_client_flags [OF ini [unfolded True]] un(2) by metis
    show ?thesis
    proof (cases "\<exists>ders. trust = CustomPemFile ders")
      case False
      then have "(case trust of CustomPemFile ders \<Rightarrow> add_roots L ders c1 w1 | _ \<Rightarrow> (Inr c1, w1)) = (Inr c1, w1)"
        by (cases trust) simp_all
      then have "tls_open_context L junk trust w = Some (Inr c1, w1)"
        using True by (simp add: tls_open_context_def new(1) ini)
      then show ?thesis using inv1 fl False by auto
    next
      case custom: True
      then obtain ders where ders: "trust = CustomPemFile ders" by blast
      obtain r w2 where ar: "add_roots L ders c1 w1 = (r, w2)" by fastforce
      have eq: "tls_open_context L junk trust w = Some (r, w2)"
        using True ini by (simp add: tls_open_context_def new(1) ders ar)
      note ai = add_roots_inv [OF inv1 ar]
      show ?thesis
      proof (cases r)
        case (Inl e)
        then show ?thesis using eq ai by auto
      next
        case (Inr c2)
        note at = add_roots_trace [OF assms(1) ar [unfolded Inr]]
        have "(S_AcquireCredentialsHandle True SP_PROT_TLS1_CLIENT flags [], a) \<in> set (trace w2)"
          using at fl(1) by blast
        then show ?thesis
          using eq ai Inr at fl ders by (intro exI [of _ r] exI [of _ w2]) auto
      qed
    qed
  qed
qed

lemma tls_check_peer_ok:
  assumes "cert_law L" and c: "sec_inv ctx w2 \<and> sc_chain_engine ctx = 0"
  shows "case tls_check_peer L trust host ctx w2 of
         (Inl e, w3) \<Rightarrow> e \<noteq> 0 \<and> sec_held (trace w3) = Some {#}
       | (Inr ctx', w3) \<Rightarrow> sec_inv ctx' w3 \<and>
           (\<forall>ders. trust = CustomPemFile ders \<longrightarrow>
              (\<exists>t. trace w3 = trace w2 @ t \<and> peer_verified (sc_context ctx) (sc_root_store ctx) host t))"
proof -
  have law: "sec_law L" using assms(1) by (simp add: cert_law_def)
  show ?thesis
  proof (cases "\<exists>ders. trust = CustomPemFile ders")
    case False
    then show ?thesis using c by (cases trust) (simp_all add: tls_check_peer_def)
  next
    case True
    then obtain ders where ders: "trust = CustomPemFile ders" by blast
    obtain err c3 w3 where v: "schannel_verify_peer_certificate L ctx host w2 = (err, c3, w3)"
      by (cases "schannel_verify_peer_certificate L ctx host w2") auto
    have inv: "sec_inv c3 w3" by (rule verify_peer_certificate_inv [OF law _ v]) (use c in simp)
    show ?thesis
    proof (cases "err = 0")
      case True
      then obtain t where "trace w3 = trace w2 @ t" "peer_verified (sc_context ctx) (sc_root_store ctx) host t"
        using verify_trace [OF assms(1) v [unfolded True]] c by metis
      then show ?thesis using True inv by (auto simp: tls_check_peer_def ders v)
    next
      case False
      then show ?thesis using schannel_free_leaves_nothing [OF inv, of L] by (simp add: tls_check_peer_def ders v)
    qed
  qed
qed

text \<open>
  Claim C18 (safety). Trust on Windows. Setting up a client either returns an error, with everything
  released, or a context whose credentials leave the validation to Schannel exactly when the
  trust is the system root, and whose root store got every custom certificate. After
  the handshake the check returns an error, with everything released, or, for custom roots, only when
  a chain of the peer's certificate, built by an engine that trusts that store
  alone, passed the policy for the host name.\<close>

theorem tls_client_trust:
  assumes "cert_law L" "trace w = []"
  shows "(\<exists>r w1. tls_open_context L junk trust w = Some (r, w1) \<and>
      (case r of
         Inl e \<Rightarrow> e \<noteq> 0 \<and> sec_held (trace w1) = Some {#}
       | Inr ctx \<Rightarrow> sec_inv ctx w1 \<and> sc_state ctx = HandleInitialized \<and> sc_chain_engine ctx = 0 \<and>
           (\<exists>flags a. (S_AcquireCredentialsHandle True SP_PROT_TLS1_CLIENT flags [], a) \<in> set (trace w1) \<and>
              sec_ret a = SEC_E_OK \<and> r_num a = sc_handle ctx \<and>
              (flags AND SCH_CRED_MANUAL_CRED_VALIDATION \<noteq> 0) = (trust \<noteq> SystemRoot)) \<and>
           (\<forall>ders. trust = CustomPemFile ders \<longrightarrow>
              (\<forall>der \<in> set ders. root_added (sc_root_store ctx) der (trace w1))))) \<and>
    (\<forall>ctx w2. sec_inv ctx w2 \<and> sc_chain_engine ctx = 0 \<longrightarrow>
      (case tls_check_peer L trust host ctx w2 of
         (Inl e, w3) \<Rightarrow> e \<noteq> 0 \<and> sec_held (trace w3) = Some {#}
       | (Inr ctx', w3) \<Rightarrow> sec_inv ctx' w3 \<and>
           (\<forall>ders. trust = CustomPemFile ders \<longrightarrow>
              (\<exists>t. trace w3 = trace w2 @ t \<and> peer_verified (sc_context ctx) (sc_root_store ctx) host t))))"
  by (intro conjI allI impI, rule tls_open_context_ok [OF assms], rule tls_check_peer_ok [OF assms(1)])

definition demo_certs :: "unit sec_lib" where
  "demo_certs c k =
     (case c of
        S_malloc \<Rightarrow> no_answer\<lparr>r_ret := 1000\<rparr>
      | S_AcquireCredentialsHandle _ _ _ _ \<Rightarrow> no_answer\<lparr>r_num := 7\<rparr>
      | S_CertCreateCertificateContext _ \<Rightarrow> no_answer\<lparr>r_ret := 20\<rparr>
      | S_CertOpenStore \<Rightarrow> no_answer\<lparr>r_ret := 30\<rparr>
      | S_CertAddCertificateContextToStore _ _ \<Rightarrow> no_answer\<lparr>r_ret := 1\<rparr>
      | S_CertCreateCertificateChainEngine _ \<Rightarrow> no_answer\<lparr>r_ret := 1, r_num := 50\<rparr>
      | S_CertGetCertificateChain _ _ \<Rightarrow> no_answer\<lparr>r_ret := 1, r_num := 60\<rparr>
      | S_CertVerifyCertificateChainPolicy _ _ \<Rightarrow> no_answer\<lparr>r_ret := 1\<rparr>
      | S_QueryRemoteCert _ \<Rightarrow> no_answer\<lparr>r_num := 40, r_bytes := [48]\<rparr>
      | _ \<Rightarrow> no_answer\<lparr>r_ret := -1\<rparr>, k)"

lemma cert_law_demo: "cert_law demo_certs"
proof -
  have "sec_answer_law c (fst (demo_certs c k)) \<and> cert_error_law c (fst (demo_certs c k))" for c k
    by (cases c) (auto simp: demo_certs_def no_answer_def context_law_def token_law_def extra_law_def Let_def
        buf_after_def empty_buffer_def sec_types sec_status sec_ret_def i32_def split: option.splits)
  then show ?thesis by (simp add: cert_law_def sec_law_def)
qed

lemma tls_client_trust_witness:
  "\<exists>ctx w1 ctx' w3 t.
     tls_open_context demo_certs demo_junk (CustomPemFile [[48, 3]]) demo_world = Some (Inr ctx, w1) \<and>
     sc_root_store ctx = 30 \<and> root_added 30 [48, 3] (trace w1) \<and>
     tls_check_peer demo_certs (CustomPemFile [[48, 3]]) 77 ctx w1 = (Inr ctx', w3) \<and>
     trace w3 = trace w1 @ t \<and> peer_verified (sc_context ctx) 30 77 t"
proof -
  let ?ders = "[[48, 3]] :: byte list list"
  have w: "trace demo_world = []" by (simp add: demo_world_def)
  note T = tls_client_trust [OF cert_law_demo w, where trust = "CustomPemFile ?ders" and junk = demo_junk and host = 77]
  obtain ctx w1 where o: "tls_open_context demo_certs demo_junk (CustomPemFile ?ders) demo_world = Some (Inr ctx, w1)"
    and c: "sc_root_store ctx = 30" "sc_context ctx = 0"
    by (simp add: tls_open_context_def schannel_new_def schannel_init_client_def store_handle_def
        schannel_add_root_certificate_def get_or_create_custom_root_store_def Let_def demo_certs_def demo_simps)
  have i: "sec_inv ctx w1" "sc_chain_engine ctx = 0" and r: "root_added 30 [48, 3] (trace w1)"
    using conjunct1 [OF T] o c by auto
  obtain ctx' w3 where k: "tls_check_peer demo_certs (CustomPemFile ?ders) 77 ctx w1 = (Inr ctx', w3)"
    using i(2) c
    by (simp add: tls_check_peer_def schannel_verify_peer_certificate_def get_or_create_custom_root_chain_engine_def
        Let_def demo_certs_def demo_simps)
  have "\<exists>t. trace w3 = trace w1 @ t \<and> peer_verified (sc_context ctx) 30 77 t"
    using conjunct2 [OF T, rule_format, of ctx w1] i k c by auto
  then show ?thesis using o k c r by blast
qed

end
