(* ===== verification/Openssl.thy ===== *)
theory Openssl
  imports Tls_Transport Platform
begin

text \<open>
  \<open>tls/openssl.c\<close>, the TLS back end of systems other than Windows: OpenSSL is loaded at run time
  (\<open>load_openssl\<close>) and called through the pointers that were found. Its functions are a parameter
  \<open>L\<close>; the five that read and write the connection (\<open>SSL_connect\<close>, \<open>SSL_accept\<close>, \<open>SSL_read\<close>,
  \<open>SSL_write\<close>, \<open>SSL_shutdown\<close>) call back into the program, so their parameter \<open>E\<close> answers
  with a tree of callbacks (\<open>ssl_io\<close>): it calls the read or the write function of a
  \<open>BIO\<close>, goes on with what that returned, and ends with its own answer. Pointers are numbers, zero
  for null. \<open>None\<close> is an access outside an array.
\<close>

section \<open>The functions of OpenSSL\<close>

datatype (plugins only: code size) ssl_call =
    O_dlopen string | O_dlsym int string | O_version_num int
  | O_BIO_meth_new int string | O_BIO_meth_set_read int | O_BIO_meth_set_write int
  | O_BIO_meth_set_ctrl int | O_BIO_meth_set_destroy int
  | O_BIO_new int | O_BIO_set_data int int | O_BIO_get_data int | O_BIO_set_init int int
  | O_moonbit_incref int | O_moonbit_decref int
  | O_TLS_client_method | O_TLS_server_method | O_SSL_CTX_new int | O_SSL_CTX_free int
  | O_SSL_CTX_set_verify int int | O_SSL_CTX_set_default_verify_paths int | O_SSL_CTX_ctrl int int int int
  | O_SSL_CTX_get_cert_store int
  | O_SSL_new int | O_SSL_set_bio int int int | O_SSL_free int | O_SSL_set_verify int int
  | O_SSL_set1_host int "byte list" | O_SSL_ctrl int int int "byte list"
  | O_SSL_use_certificate_file int "byte list" int | O_SSL_use_PrivateKey_file int "byte list" int
  | O_SSL_connect int | O_SSL_accept int | O_SSL_read int int | O_SSL_write int "byte list" | O_SSL_shutdown int
  | O_SSL_get_error int int | O_SSL_get_finished int int | O_SSL_get_peer_finished int int
  | O_SSL_get_certificate int | O_SSL_get1_peer_certificate int
  | O_d2i_X509 "byte list" | O_X509_free int | O_X509_STORE_add_cert int int | O_i2d_X509_AUX int bool
  | O_X509_get_signature_nid int | O_X509_digest int int
  | O_OBJ_find_sigid_algs int | O_OBJ_nid2sn int | O_EVP_get_digestbyname string | O_EVP_sha256
  | O_ERR_get_error | O_ERR_peek_error | O_ERR_error_string int
  | O_RAND_bytes int | O_SHA1 "byte list"

type_synonym 'k ssl_lib = "(ssl_call, 'k) lib"
type_synonym 'k ssl_world = "(ssl_call, 'k) lib_world"

text \<open>A callback on a \<open>BIO\<close>: its result, the bytes it read, and the flags it set on the \<open>BIO\<close>.\<close>

record bio_outcome =
  bo_ret :: int
  bo_bytes :: "byte list"
  bo_flags :: "int option"

datatype 'k ssl_io =
    Io_return lib_answer 'k
  | Io_bio_read int "bio_outcome \<Rightarrow> 'k ssl_io"
  | Io_bio_write "byte list" "bio_outcome \<Rightarrow> 'k ssl_io"

type_synonym 'k ssl_engine = "ssl_call \<Rightarrow> 'k \<Rightarrow> 'k ssl_io"

record 'c bio_methods =
  bio_on_read :: "int \<Rightarrow> 'c \<Rightarrow> (bio_outcome \<times> 'c) option"
  bio_on_write :: "byte list \<Rightarrow> 'c \<Rightarrow> (bio_outcome \<times> 'c) option"

primrec run_io :: "'c bio_methods \<Rightarrow> 'k ssl_io \<Rightarrow> 'c \<Rightarrow> (lib_answer \<times> 'k \<times> 'c) option" where
  "run_io M (Io_return a k) c = Some (a, k, c)"
| "run_io M (Io_bio_read n f) c =
     (case bio_on_read M n c of None \<Rightarrow> None | Some (out, c) \<Rightarrow> run_io M (f out) c)"
| "run_io M (Io_bio_write bs f) c =
     (case bio_on_write M bs c of None \<Rightarrow> None | Some (out, c) \<Rightarrow> run_io M (f out) c)"

definition ask_io ::
  "'k ssl_engine \<Rightarrow> 'c bio_methods \<Rightarrow> ssl_call \<Rightarrow> 'k ssl_world \<Rightarrow> 'c \<Rightarrow> (lib_answer \<times> 'k ssl_world \<times> 'c) option" where
  "ask_io E M call w c =
     map_option (\<lambda>(a, k, c). (a, w\<lparr>lib_st := k, trace := trace w @ [(call, a)]\<rparr>, c))
       (run_io M (E call (lib_st w)) c)"

section \<open>Loading\<close>

definition ssl_library_names :: "platform \<Rightarrow> string list" where
  "ssl_library_names p =
     (if p = MacOS then [''/usr/lib/libssl.48.dylib'', ''/usr/lib/libssl.46.dylib'']
      else [''libssl.so.3'', ''libssl.so.1.1'', ''libssl.so''])"

fun dlopen_first :: "'k ssl_lib \<Rightarrow> string list \<Rightarrow> 'k ssl_world \<Rightarrow> int \<times> 'k ssl_world" where
  "dlopen_first L [] w = (0, w)"
| "dlopen_first L (n # ns) w =
     (let (a, w) = ask L (O_dlopen n) w in if r_ret a \<noteq> 0 then (r_ret a, w) else dlopen_first L ns w)"

text \<open>\<open>IMPORTED_OPEN_SSL_FUNCTIONS\<close>: each name and its alternative names.\<close>

definition import_func :: "string \<Rightarrow> string \<times> string list" where
  "import_func name = (name, [])"

definition IMPORTED_OPEN_SSL_FUNCTIONS :: "(string \<times> string list) list" where
  "IMPORTED_OPEN_SSL_FUNCTIONS = map import_func
     [''BIO_meth_new'', ''BIO_meth_set_write'', ''BIO_meth_set_read'', ''BIO_meth_set_ctrl'',
      ''BIO_meth_set_destroy'', ''BIO_new'', ''BIO_set_data'', ''BIO_get_data'', ''BIO_set_init'',
      ''BIO_set_flags'', ''BIO_set_shutdown'', ''SSL_new'', ''SSL_set_bio'', ''SSL_connect'',
      ''SSL_set_verify'', ''SSL_set1_host'', ''SSL_ctrl'', ''SSL_accept'', ''SSL_use_certificate_file'',
      ''SSL_use_PrivateKey_file'', ''SSL_read'', ''SSL_write'', ''SSL_get_error'', ''SSL_get_finished'',
      ''SSL_get_peer_finished'', ''SSL_shutdown'', ''SSL_free'', ''SSL_get_certificate'', ''SSL_CTX_new'',
      ''SSL_CTX_free'', ''SSL_CTX_get_cert_store'', ''TLS_client_method'', ''TLS_server_method'',
      ''SSL_CTX_ctrl'', ''SSL_CTX_set_verify'', ''SSL_CTX_set_default_verify_paths'', ''ERR_get_error'',
      ''ERR_peek_error'', ''ERR_error_string'', ''OBJ_nid2sn'', ''OBJ_find_sigid_algs'',
      ''EVP_get_digestbyname'', ''EVP_sha256'', ''RAND_bytes'', ''SHA1''] @
     [(''SSL_get1_peer_certificate'', [''SSL_get_peer_certificate''])] @ map import_func
     [''d2i_X509'', ''X509_get_signature_nid'', ''X509_free'', ''X509_STORE_add_cert'', ''X509_digest'',
      ''i2d_X509_AUX'']"

text \<open>\<open>for (i = 0; !func && i < n; ++i) func = dlsym(handle, names[i])\<close>.\<close>

fun dlsym_first :: "'k ssl_lib \<Rightarrow> int \<Rightarrow> string list \<Rightarrow> 'k ssl_world \<Rightarrow> int \<times> 'k ssl_world" where
  "dlsym_first L handle [] w = (0, w)"
| "dlsym_first L handle (n # ns) w =
     (let (a, w) = ask L (O_dlsym handle n) w
      in if r_ret a \<noteq> 0 then (r_ret a, w) else dlsym_first L handle ns w)"

text \<open>\<open>fs\<close> are the static pointers.\<close>

fun import_functions ::
  "'k ssl_lib \<Rightarrow> int \<Rightarrow> (string \<times> string list) list \<Rightarrow> (string \<Rightarrow> int) \<Rightarrow> 'k ssl_world \<Rightarrow>
     int \<times> (string \<Rightarrow> int) \<times> 'k ssl_world" where
  "import_functions L handle [] fs w = (0, fs, w)"
| "import_functions L handle ((name, alts) # t) fs w =
     (let (a, w) = ask L (O_dlsym handle name) w;
          fs = fs(name := r_ret a);
          (f, w) = (if fs name = 0 then dlsym_first L handle alts w else (fs name, w));
          fs = fs(name := f)
      in if fs name = 0 then (4, fs, w) else import_functions L handle t fs w)"

text \<open>\<open>version\<close> is \<open>unsigned long\<close>; the three parts go through \<open>int\<close> pointers.\<close>

definition ssl_version :: "int \<Rightarrow> int \<times> int \<times> int" where
  "ssl_version v =
     (let v = v mod 2 ^ 64
      in (i32 (drop_bit 28 v), drop_bit 20 v AND 0xff, drop_bit 12 v AND 0xff))"

definition version_too_old :: "int \<times> int \<times> int \<Rightarrow> bool" where
  "version_too_old v =
     (case v of (major, minor, fix') \<Rightarrow>
        major < 1 \<or> major = 1 \<and> (minor < 1 \<or> minor = 1 \<and> fix' < 1))"

definition load_openssl ::
  "platform \<Rightarrow> 'k ssl_lib \<Rightarrow> (string \<Rightarrow> int) \<Rightarrow> int \<times> int \<times> int \<Rightarrow> 'k ssl_world \<Rightarrow>
     int \<times> (int \<times> int \<times> int) \<times> (string \<Rightarrow> int) \<times> 'k ssl_world" where
  "load_openssl p L fs out w =
     (let (handle, w) = dlopen_first L (ssl_library_names p) w
      in if handle = 0 then (1, out, fs, w)
         else let (a, w) = ask L (O_dlsym handle ''OpenSSL_version_num'') w
         in if r_ret a = 0 then (2, out, fs, w)
         else let (b, w) = ask L (O_version_num (r_ret a)) w;
                  out = ssl_version (r_ret b)
         in if version_too_old out then (3, out, fs, w)
         else let (code, fs, w) = import_functions L handle IMPORTED_OPEN_SSL_FUNCTIONS fs w
         in (code, out, fs, w))"

section \<open>BIO methods\<close>

text \<open>
  Called while a callback runs: the flags are added to those of the \<open>BIO\<close>. The
  second function is meant to set the shutdown flag and calls the same one.
\<close>

definition tls_bio_set_flags :: "int \<Rightarrow> bio_outcome \<Rightarrow> bio_outcome" where
  "tls_bio_set_flags flags out =
     out\<lparr>bo_flags := Some (case bo_flags out of None \<Rightarrow> flags | Some f \<Rightarrow> f OR flags)\<rparr>"

definition tls_bio_set_shutdown :: "int \<Rightarrow> bio_outcome \<Rightarrow> bio_outcome" where
  "tls_bio_set_shutdown flags out =
     out\<lparr>bo_flags := Some (case bo_flags out of None \<Rightarrow> flags | Some f \<Rightarrow> f OR flags)\<rparr>"

definition BIO_TYPE_NONE :: int where "BIO_TYPE_NONE = 0"
definition BIO_CTRL_FLUSH :: int where "BIO_CTRL_FLUSH = 11"

definition dummy_bio_ctrl :: "int \<Rightarrow> int" where
  "dummy_bio_ctrl cmd = (if cmd = BIO_CTRL_FLUSH then 1 else 0)"

definition tls_bio_get_endpoint :: "'k ssl_lib \<Rightarrow> int \<Rightarrow> 'k ssl_world \<Rightarrow> int \<times> 'k ssl_world" where
  "tls_bio_get_endpoint L bio w =
     (let (a, w) = ask L (O_BIO_get_data bio) w
      in (r_ret a, ask_do L (O_moonbit_incref (r_ret a)) w))"

definition destroy_custom_bio :: "'k ssl_lib \<Rightarrow> int \<Rightarrow> 'k ssl_world \<Rightarrow> int \<times> 'k ssl_world" where
  "destroy_custom_bio L bio w =
     (let (a, w) = ask L (O_BIO_get_data bio) w
      in (1, ask_do L (O_moonbit_decref (r_ret a)) w))"

text \<open>The result is the static \<open>bio_method\<close>.\<close>

definition init_bio_method :: "'k ssl_lib \<Rightarrow> 'k ssl_world \<Rightarrow> int \<times> 'k ssl_world" where
  "init_bio_method L w =
     (let (a, w) = ask L (O_BIO_meth_new BIO_TYPE_NONE ''moonbitlang/async'') w;
          w = ask_do L (O_BIO_meth_set_read (r_ret a)) w;
          w = ask_do L (O_BIO_meth_set_write (r_ret a)) w;
          w = ask_do L (O_BIO_meth_set_ctrl (r_ret a)) w
      in (r_ret a, ask_do L (O_BIO_meth_set_destroy (r_ret a)) w))"

definition tls_create_bio :: "'k ssl_lib \<Rightarrow> int \<Rightarrow> int \<Rightarrow> 'k ssl_world \<Rightarrow> int \<times> 'k ssl_world" where
  "tls_create_bio L bio_method data w =
     (let (a, w) = ask L (O_BIO_new bio_method) w;
          w = ask_do L (O_BIO_set_data (r_ret a) data) w
      in (r_ret a, ask_do L (O_BIO_set_init (r_ret a) 1) w))"

section \<open>Contexts\<close>

definition SSL_VERIFY_NONE :: int where "SSL_VERIFY_NONE = 0"
definition SSL_VERIFY_PEER :: int where "SSL_VERIFY_PEER = 1"
definition SSL_CTRL_MODE :: int where "SSL_CTRL_MODE = 33"
definition SSL_MODE_ENABLE_PARTIAL_WRITE :: int where "SSL_MODE_ENABLE_PARTIAL_WRITE = 1"
definition SSL_CTRL_SET_TLSEXT_HOSTNAME :: int where "SSL_CTRL_SET_TLSEXT_HOSTNAME = 55"
definition TLSEXT_NAMETYPE_host_name :: int where "TLSEXT_NAMETYPE_host_name = 0"

definition tls_ssl_ctx_is_null :: "int \<Rightarrow> bool" where "tls_ssl_ctx_is_null ctx = (ctx = 0)"

definition tls_client_ctx :: "'k ssl_lib \<Rightarrow> bool \<Rightarrow> 'k ssl_world \<Rightarrow> int \<times> 'k ssl_world" where
  "tls_client_ctx L load_default_verify_path w =
     (let (m, w) = ask L O_TLS_client_method w;
          (c, w) = ask L (O_SSL_CTX_new (r_ret m)) w
      in if r_ret c = 0 then (0, w)
         else let w = ask_do L (O_SSL_CTX_set_verify (r_ret c) SSL_VERIFY_PEER) w;
                  (failed, w) = (if load_default_verify_path
                                 then let (d, w) = ask L (O_SSL_CTX_set_default_verify_paths (r_ret c)) w
                                      in (i32 (r_ret d) = 0, w)
                                 else (False, w))
              in if failed then (0, ask_do L (O_SSL_CTX_free (r_ret c)) w)
                 else (r_ret c, ask_do L (O_SSL_CTX_ctrl (r_ret c) SSL_CTRL_MODE SSL_MODE_ENABLE_PARTIAL_WRITE 0) w))"

definition tls_server_ctx :: "'k ssl_lib \<Rightarrow> 'k ssl_world \<Rightarrow> int \<times> 'k ssl_world" where
  "tls_server_ctx L w =
     (let (m, w) = ask L O_TLS_server_method w;
          (c, w) = ask L (O_SSL_CTX_new (r_ret m)) w
      in (r_ret c, ask_do L (O_SSL_CTX_ctrl (r_ret c) SSL_CTRL_MODE SSL_MODE_ENABLE_PARTIAL_WRITE 0) w))"

definition tls_ssl_ctx_free :: "'k ssl_lib \<Rightarrow> int \<Rightarrow> 'k ssl_world \<Rightarrow> 'k ssl_world" where
  "tls_ssl_ctx_free L ctx w = ask_do L (O_SSL_CTX_free ctx) w"

definition tls_ssl_ctx_add_root_certificate ::
  "'k ssl_lib \<Rightarrow> int \<Rightarrow> byte list \<Rightarrow> 'k ssl_world \<Rightarrow> int \<times> 'k ssl_world" where
  "tls_ssl_ctx_add_root_certificate L ctx der w =
     (let (c, w) = ask L (O_d2i_X509 der) w
      in if r_ret c = 0 then (0, w)
         else let (s, w) = ask L (O_SSL_CTX_get_cert_store ctx) w
         in if r_ret s = 0 then (0, ask_do L (O_X509_free (r_ret c)) w)
         else let (a, w) = ask L (O_X509_STORE_add_cert (r_ret s) (r_ret c)) w
         in (i32 (r_ret a), ask_do L (O_X509_free (r_ret c)) w))"

section \<open>Connections\<close>

definition tls_ssl_new :: "'k ssl_lib \<Rightarrow> int \<Rightarrow> int \<Rightarrow> int \<Rightarrow> 'k ssl_world \<Rightarrow> int \<times> 'k ssl_world" where
  "tls_ssl_new L ctx rbio wbio w =
     (let (s, w) = ask L (O_SSL_new ctx) w
      in if r_ret s = 0 then (0, w) else (r_ret s, ask_do L (O_SSL_set_bio (r_ret s) rbio wbio) w))"

definition ask_int :: "'k ssl_lib \<Rightarrow> ssl_call \<Rightarrow> 'k ssl_world \<Rightarrow> int \<times> 'k ssl_world" where
  "ask_int L c w = (let (a, w) = ask L c w in (i32 (r_ret a), w))"

definition tls_ssl_connect ::
  "'k ssl_engine \<Rightarrow> 'c bio_methods \<Rightarrow> int \<Rightarrow> 'k ssl_world \<Rightarrow> 'c \<Rightarrow> (int \<times> 'k ssl_world \<times> 'c) option" where
  "tls_ssl_connect E M ssl w c = map_option (\<lambda>(a, w, c). (i32 (r_ret a), w, c)) (ask_io E M (O_SSL_connect ssl) w c)"

definition tls_ssl_set_host :: "'k ssl_lib \<Rightarrow> int \<Rightarrow> byte list \<Rightarrow> 'k ssl_world \<Rightarrow> int \<times> 'k ssl_world" where
  "tls_ssl_set_host L ssl host w = ask_int L (O_SSL_set1_host ssl host) w"

definition tls_ssl_set_sni :: "'k ssl_lib \<Rightarrow> int \<Rightarrow> byte list \<Rightarrow> 'k ssl_world \<Rightarrow> int \<times> 'k ssl_world" where
  "tls_ssl_set_sni L ssl host w =
     ask_int L (O_SSL_ctrl ssl SSL_CTRL_SET_TLSEXT_HOSTNAME TLSEXT_NAMETYPE_host_name host) w"

definition tls_ssl_set_verify :: "'k ssl_lib \<Rightarrow> int \<Rightarrow> bool \<Rightarrow> 'k ssl_world \<Rightarrow> 'k ssl_world" where
  "tls_ssl_set_verify L ssl verify w =
     ask_do L (O_SSL_set_verify ssl (if verify then SSL_VERIFY_PEER else SSL_VERIFY_NONE)) w"

definition tls_ssl_accept ::
  "'k ssl_engine \<Rightarrow> 'c bio_methods \<Rightarrow> int \<Rightarrow> 'k ssl_world \<Rightarrow> 'c \<Rightarrow> (int \<times> 'k ssl_world \<times> 'c) option" where
  "tls_ssl_accept E M ssl w c = map_option (\<lambda>(a, w, c). (i32 (r_ret a), w, c)) (ask_io E M (O_SSL_accept ssl) w c)"

definition tls_ssl_use_certificate_file ::
  "'k ssl_lib \<Rightarrow> int \<Rightarrow> byte list \<Rightarrow> int \<Rightarrow> 'k ssl_world \<Rightarrow> int \<times> 'k ssl_world" where
  "tls_ssl_use_certificate_file L ssl file type' w = ask_int L (O_SSL_use_certificate_file ssl file type') w"

definition tls_ssl_use_private_key_file ::
  "'k ssl_lib \<Rightarrow> int \<Rightarrow> byte list \<Rightarrow> int \<Rightarrow> 'k ssl_world \<Rightarrow> int \<times> 'k ssl_world" where
  "tls_ssl_use_private_key_file L ssl file type' w = ask_int L (O_SSL_use_PrivateKey_file ssl file type') w"

text \<open>The answer of \<open>SSL_read\<close> holds the bytes it wrote to the buffer.\<close>

definition tls_ssl_read ::
  "'k ssl_engine \<Rightarrow> 'c bio_methods \<Rightarrow> int \<Rightarrow> byte list \<Rightarrow> int \<Rightarrow> int \<Rightarrow> 'k ssl_world \<Rightarrow> 'c \<Rightarrow>
     (int \<times> byte list \<times> 'k ssl_world \<times> 'c) option" where
  "tls_ssl_read E M ssl buf offset num w c =
     (case (span buf offset num, ask_io E M (O_SSL_read ssl num) w c) of
        (Some _, Some (a, w, c)) \<Rightarrow>
          map_option (\<lambda>buf. (i32 (r_ret a), buf, w, c)) (store_at buf offset (r_bytes a))
      | _ \<Rightarrow> None)"

definition tls_ssl_write ::
  "'k ssl_engine \<Rightarrow> 'c bio_methods \<Rightarrow> int \<Rightarrow> byte list \<Rightarrow> int \<Rightarrow> int \<Rightarrow> 'k ssl_world \<Rightarrow> 'c \<Rightarrow>
     (int \<times> 'k ssl_world \<times> 'c) option" where
  "tls_ssl_write E M ssl buf offset num w c =
     (case span buf offset num of
        None \<Rightarrow> None
      | Some bs \<Rightarrow> map_option (\<lambda>(a, w, c). (i32 (r_ret a), w, c)) (ask_io E M (O_SSL_write ssl bs) w c))"

definition tls_ssl_shutdown ::
  "'k ssl_engine \<Rightarrow> 'c bio_methods \<Rightarrow> int \<Rightarrow> 'k ssl_world \<Rightarrow> 'c \<Rightarrow> (int \<times> 'k ssl_world \<times> 'c) option" where
  "tls_ssl_shutdown E M ssl w c = map_option (\<lambda>(a, w, c). (i32 (r_ret a), w, c)) (ask_io E M (O_SSL_shutdown ssl) w c)"

definition tls_ssl_free :: "'k ssl_lib \<Rightarrow> int \<Rightarrow> 'k ssl_world \<Rightarrow> 'k ssl_world" where
  "tls_ssl_free L ssl w = ask_do L (O_SSL_free ssl) w"

definition tls_ssl_get_error :: "'k ssl_lib \<Rightarrow> int \<Rightarrow> int \<Rightarrow> 'k ssl_world \<Rightarrow> int \<times> 'k ssl_world" where
  "tls_ssl_get_error L ssl ret' w = ask_int L (O_SSL_get_error ssl ret') w"

section \<open>Certificates and channel bindings\<close>

text \<open>The certificate of the peer is a new reference, that of the server itself is not.\<close>

definition tls_ssl_get_certificate :: "'k ssl_lib \<Rightarrow> int \<Rightarrow> bool \<Rightarrow> 'k ssl_world \<Rightarrow> int \<times> 'k ssl_world" where
  "tls_ssl_get_certificate L ssl is_client w =
     (let (a, w) = ask L (if is_client then O_SSL_get1_peer_certificate ssl else O_SSL_get_certificate ssl) w
      in (r_ret a, w))"

definition tls_peer_certificate_length :: "'k ssl_lib \<Rightarrow> int \<Rightarrow> 'k ssl_world \<Rightarrow> int \<times> 'k ssl_world" where
  "tls_peer_certificate_length L cert w = ask_int L (O_i2d_X509_AUX cert False) w"

definition tls_peer_certificate_blit_to ::
  "'k ssl_lib \<Rightarrow> int \<Rightarrow> byte list \<Rightarrow> 'k ssl_world \<Rightarrow> (byte list \<times> 'k ssl_world) option" where
  "tls_peer_certificate_blit_to L cert buf w =
     (let (a, w) = ask L (O_i2d_X509_AUX cert True) w
      in map_option (\<lambda>buf. (buf, w)) (store_at buf 0 (r_bytes a)))"

definition tls_free_peer_certificate :: "'k ssl_lib \<Rightarrow> int \<Rightarrow> 'k ssl_world \<Rightarrow> 'k ssl_world" where
  "tls_free_peer_certificate L cert w = ask_do L (O_X509_free cert) w"

definition MAX_DIGEST_LEN :: nat where "MAX_DIGEST_LEN = 64"

text \<open>
  The name \<open>OBJ_nid2sn\<close> answers is in \<open>r_bytes\<close>. \<open>digest_buf\<close> is static; the result is the
  buffer and the length that was written, or null.
\<close>

definition hash_server_endpoint_certificate ::
  "'k ssl_lib \<Rightarrow> int \<Rightarrow> byte list \<Rightarrow> 'k ssl_world \<Rightarrow> ((byte list \<times> int) option \<times> byte list \<times> 'k ssl_world) option" where
  "hash_server_endpoint_certificate L cert digest_buf w =
     (let (s, w) = ask L (O_X509_get_signature_nid cert) w;
          (f, w) = ask L (O_OBJ_find_sigid_algs (i32 (r_ret s))) w
      in if i32 (r_ret f) = 0 then Some (None, digest_buf, w)
         else let (n, w) = ask L (O_OBJ_nid2sn (r_num f)) w
         in if r_ret n = 0 then Some (None, digest_buf, w)
         else let name = map (\<lambda>b. char_of (unat b)) (r_bytes n);
                  (d, w) = ask L (if name = ''MD5'' \<or> name = ''SHA1'' then O_EVP_sha256
                                  else O_EVP_get_digestbyname name) w
         in if r_ret d = 0 then Some (None, digest_buf, w)
         else let (h, w) = ask L (O_X509_digest cert (r_ret d)) w
         in case store_at digest_buf 0 (r_bytes h) of
              None \<Rightarrow> None
            | Some digest_buf \<Rightarrow>
                Some (if i32 (r_ret h) = 0 then None else Some (digest_buf, r_num h), digest_buf, w))"

definition tls_ssl_unique_channel_binding_length ::
  "'k ssl_lib \<Rightarrow> int \<Rightarrow> bool \<Rightarrow> 'k ssl_world \<Rightarrow> int \<times> 'k ssl_world" where
  "tls_ssl_unique_channel_binding_length L ssl is_client w =
     ask_int L (if is_client then O_SSL_get_finished ssl 0 else O_SSL_get_peer_finished ssl 0) w"

definition tls_ssl_unique_channel_binding ::
  "'k ssl_lib \<Rightarrow> int \<Rightarrow> byte list \<Rightarrow> int \<Rightarrow> bool \<Rightarrow> 'k ssl_world \<Rightarrow> (byte list \<times> 'k ssl_world) option" where
  "tls_ssl_unique_channel_binding L ssl buf len is_client w =
     (let (a, w) = ask L (if is_client then O_SSL_get_finished ssl len else O_SSL_get_peer_finished ssl len) w
      in map_option (\<lambda>buf. (buf, w)) (store_at buf 0 (r_bytes a)))"

section \<open>Errors, random bytes, SHA-1\<close>

definition tls_peek_error_code :: "'k ssl_lib \<Rightarrow> 'k ssl_world \<Rightarrow> int \<times> 'k ssl_world" where
  "tls_peek_error_code L w = (let (a, w) = ask L O_ERR_peek_error w in (r_ret a mod 2 ^ 64, w))"

text \<open>\<open>ERR_error_string\<close> writes the text and its end; the result is \<open>strlen(buf)\<close>.\<close>

definition tls_get_error ::
  "'k ssl_lib \<Rightarrow> byte list \<Rightarrow> 'k ssl_world \<Rightarrow> (int \<times> byte list \<times> 'k ssl_world) option" where
  "tls_get_error L buf w =
     (let (a, w) = ask L O_ERR_get_error w;
          (b, w) = ask L (O_ERR_error_string (r_ret a)) w
      in case store_at buf 0 (r_bytes b @ [0]) of
           None \<Rightarrow> None
         | Some buf \<Rightarrow> map_option (\<lambda>n. (i32 (int n), buf, w)) (c_strlen buf))"

definition tls_rand_bytes_ssl ::
  "'k ssl_lib \<Rightarrow> byte list \<Rightarrow> int \<Rightarrow> 'k ssl_world \<Rightarrow> (int \<times> byte list \<times> 'k ssl_world) option" where
  "tls_rand_bytes_ssl L buf num w =
     (let (a, w) = ask L (O_RAND_bytes num) w
      in map_option (\<lambda>buf. (i32 (r_ret a), buf, w)) (store_at buf 0 (r_bytes a)))"

definition tls_SHA1_ssl ::
  "'k ssl_lib \<Rightarrow> byte list \<Rightarrow> int \<Rightarrow> byte list \<Rightarrow> 'k ssl_world \<Rightarrow> (byte list \<times> 'k ssl_world) option" where
  "tls_SHA1_ssl L src len dst w =
     (case span src 0 len of
        None \<Rightarrow> None
      | Some bs \<Rightarrow>
          let (a, w) = ask L (O_SHA1 bs) w in map_option (\<lambda>dst. (dst, w)) (store_at dst 0 (r_bytes a)))"

text \<open>\<open>err_get_error\<close>, \<open>rand_bytes\<close> and \<open>sha1\<close> of the MoonBit side, OpenSSL being loaded.\<close>

definition err_get_error :: "'k ssl_lib \<Rightarrow> 'k ssl_world \<Rightarrow> (byte list \<times> 'k ssl_world) option" where
  "err_get_error L w =
     (case tls_get_error L (replicate 256 0) w of
        None \<Rightarrow> None
      | Some (len, buf, w) \<Rightarrow> map_option (\<lambda>s. (s, w)) (span buf 0 len))"

definition rand_bytes_ssl ::
  "'k ssl_lib \<Rightarrow> int \<Rightarrow> 'k ssl_world \<Rightarrow> ((byte list + byte list) \<times> 'k ssl_world) option" where
  "rand_bytes_ssl L num w =
     (case tls_rand_bytes_ssl L (replicate (nat num) 0) num w of
        None \<Rightarrow> None
      | Some (r, result, w) \<Rightarrow>
          if r \<noteq> 1 then map_option (\<lambda>(msg, w). (Inl msg, w)) (err_get_error L w)
          else Some (Inr result, w))"

definition sha1_ssl :: "'k ssl_lib \<Rightarrow> byte list \<Rightarrow> 'k ssl_world \<Rightarrow> (byte list \<times> 'k ssl_world) option" where
  "sha1_ssl L src w = tls_SHA1_ssl L src (int (length src)) (replicate 20 0) w"

lemma err_get_error_is:
  assumes "ask L O_ERR_get_error w = (a, w1)" "ask L (O_ERR_error_string (r_ret a)) w1 = (b, w2)"
    "length (r_bytes b) < 256"
  obtains msg where "err_get_error L w = Some (msg, w2)"
proof -
  define buf :: "byte list" where "buf = blit (replicate 256 0) 0 (r_bytes b @ [0])"
  have st: "store_at (replicate 256 0) 0 (r_bytes b @ [0]) = Some buf"
    using assms(3) by (simp add: store_at_def poke_def buf_def)
  have len: "length buf = 256" unfolding buf_def using assms(3) by (subst length_blit) simp_all
  have "0 \<in> set buf" by (simp add: buf_def blit_def)
  then obtain n where n: "c_strlen buf = Some n" by (simp add: c_strlen_def)
  then have "n < 256" using c_strlen_bound [OF n] len by simp
  then have "span buf 0 (i32 (int n)) = Some (slice buf 0 n)"
    using len by (simp add: span_def rd_def i32_of_nat)
  then have "err_get_error L w = Some (slice buf 0 n, w2)"
    by (simp add: err_get_error_def tls_get_error_def assms(1,2) st n)
  then show thesis by (rule that)
qed

section \<open>What is loaded\<close>

text \<open>\<open>D\<close>: the handle of a library; \<open>S\<close>: the address of a symbol in it; \<open>V\<close>: the version number.\<close>

definition dl_answers ::
  "(string \<Rightarrow> int) \<Rightarrow> (int \<Rightarrow> string \<Rightarrow> int) \<Rightarrow> (int \<Rightarrow> int) \<Rightarrow> 'k ssl_lib \<Rightarrow> bool" where
  "dl_answers D S V L \<longleftrightarrow>
     (\<forall>k n. r_ret (fst (L (O_dlopen n) k)) = D n) \<and>
     (\<forall>k h n. r_ret (fst (L (O_dlsym h n) k)) = S h n) \<and>
     (\<forall>k f. r_ret (fst (L (O_version_num f) k)) = V f \<and> 0 \<le> V f \<and> V f < 2 ^ 32)"

definition first_nonzero :: "(string \<Rightarrow> int) \<Rightarrow> string list \<Rightarrow> int" where
  "first_nonzero f ns = (case dropWhile (\<lambda>n. f n = 0) ns of [] \<Rightarrow> 0 | n # _ \<Rightarrow> f n)"

lemma first_nonzero_simps [simp]:
  "first_nonzero f [] = 0"
  "first_nonzero f (n # ns) = (if f n = 0 then first_nonzero f ns else f n)"
  by (simp_all add: first_nonzero_def)

lemma dl_ask:
  assumes "dl_answers D S V L"
  shows "ask L (O_dlopen n) w = (a, w') \<Longrightarrow> r_ret a = D n"
    and "ask L (O_dlsym h n) w = (a, w') \<Longrightarrow> r_ret a = S h n"
    and "ask L (O_version_num f) w = (a, w') \<Longrightarrow> r_ret a = V f"
  using assms fst_ask [of L "O_dlopen n" w] fst_ask [of L "O_dlsym h n" w] fst_ask [of L "O_version_num f" w]
  by (simp_all add: dl_answers_def)

lemma dlopen_first_is:
  assumes "dl_answers D S V L"
  shows "fst (dlopen_first L ns w) = first_nonzero D ns"
proof (induction ns arbitrary: w)
  case (Cons n ns)
  then show ?case by (cases "ask L (O_dlopen n) w") (simp add: dl_ask [OF assms])
qed simp

lemma dlsym_first_is:
  assumes "dl_answers D S V L"
  shows "fst (dlsym_first L h ns w) = first_nonzero (S h) ns"
proof (induction ns arbitrary: w)
  case (Cons n ns)
  then show ?case by (cases "ask L (O_dlsym h n) w") (simp add: dl_ask [OF assms])
qed simp

lemma import_functions_is:
  assumes "dl_answers D S V L" "distinct (map fst T)"
  shows "case import_functions L h T fs w of (code, fs', w') \<Rightarrow>
    code = (if \<exists>(n, alts) \<in> set T. first_nonzero (S h) (n # alts) = 0 then 4 else 0) \<and>
    (\<forall>n. n \<notin> fst ` set T \<longrightarrow> fs' n = fs n) \<and>
    (code = 0 \<longrightarrow> (\<forall>(n, alts) \<in> set T. fs' n = first_nonzero (S h) (n # alts)))"
  using assms(2)
proof (induction T arbitrary: fs w)
  case (Cons e T)
  obtain name alts where e: "e = (name, alts)" by (cases e)
  obtain a w1 where aw: "ask L (O_dlsym h name) w = (a, w1)" by fastforce
  obtain f w2 where f: "(if r_ret a = 0 then dlsym_first L h alts w1 else (r_ret a, w1)) = (f, w2)" by fastforce
  have found: "f = first_nonzero (S h) (name # alts)"
    using f dlsym_first_is [OF assms(1), of h alts w1] dl_ask(2) [OF assms(1) aw]
    by (auto split: if_splits)
  have fresh: "name \<notin> fst ` set T" using Cons.prems e by auto
  have eq: "import_functions L h (e # T) fs w =
      (if f = 0 then (4, fs(name := f), w2) else import_functions L h T (fs(name := f)) w2)"
    using f by (cases "r_ret a = 0") (simp_all add: e aw)
  show ?case
  proof (cases "f = 0")
    case True
    then show ?thesis unfolding eq using found by (simp add: e)
  next
    case False
    obtain code fs' w' where r: "import_functions L h T (fs(name := f)) w2 = (code, fs', w')"
      by (cases "import_functions L h T (fs(name := f)) w2") auto
    have "distinct (map fst T)" using Cons.prems by simp
    note IH = Cons.IH [OF this, of "fs(name := f)" w2, unfolded r prod.case]
    have "fs' name = f" using conjunct1 [OF conjunct2 [OF IH]] fresh by simp
    moreover have "import_functions L h (e # T) fs w = (code, fs', w')" using False eq r by simp
    ultimately show ?thesis using IH False found unfolding e by auto
  qed
qed simp

lemma version_at_least:
  assumes "0 \<le> v" "v < 2 ^ 32"
  shows "version_too_old (ssl_version v) \<longleftrightarrow> v < 0x10101000"
proof -
  have m: "v mod 2 ^ 64 = v" using assms by simp
  have i: "i32 (v div 2 ^ 28) = v div 2 ^ 28"
    by (rule i32_nonneg) (use assms in auto)
  have a: "x AND 0xff = x mod 256" for x :: int
    using take_bit_eq_mask [of 8 x] by (simp add: take_bit_eq_mod mask_numeral)
  have "version_too_old (ssl_version v) =
      (v div 2 ^ 28 < 1 \<or> v div 2 ^ 28 = 1 \<and> (v div 2 ^ 20 mod 256 < 1 \<or>
        v div 2 ^ 20 mod 256 = 1 \<and> v div 2 ^ 12 mod 256 < 1))"
    unfolding version_too_old_def ssl_version_def Let_def prod.case drop_bit_eq_div a m i by (rule refl)
  moreover have "(a < 1 \<or> a = 1 \<and> (b < 1 \<or> b = 1 \<and> c < 1)) \<longleftrightarrow> 65536 * a + 256 * b + c < 65793"
    if "0 \<le> b" "b < 256" "0 \<le> c" "c < 256" for a b c :: int
    using that by (cases "a < 1"; cases "a = 1"; cases "b < 1"; cases "b = 1") auto
  moreover define x where x: "x = v div 2 ^ 12"
  have "v div 2 ^ 28 = x div 65536" "v div 2 ^ 20 mod 256 = x div 256 mod 256"
    by (simp_all add: x zdiv_zmult2_eq [symmetric])
  moreover have "v = 4096 * x + v mod 4096" "0 \<le> v mod 4096" "v mod 4096 < 4096" by (simp_all add: x)
  then have "v < 0x10101000 \<longleftrightarrow> x < 65793" by linarith
  moreover have "x = 65536 * (x div 65536) + 256 * (x div 256 mod 256) + x mod 256"
    using zmod_zmult2_eq [of 256 x 256] div_mult_mod_eq [of x 65536] by simp
  ultimately show ?thesis unfolding x [symmetric] by simp
qed

lemma import_names_distinct: "distinct (map fst IMPORTED_OPEN_SSL_FUNCTIONS)"
  by code_simp

text \<open>The symbol through which a call of the wrappers goes.\<close>

fun ssl_symbol :: "ssl_call \<Rightarrow> string option" where
  "ssl_symbol (O_BIO_meth_new _ _) = Some ''BIO_meth_new''"
| "ssl_symbol (O_BIO_meth_set_read _) = Some ''BIO_meth_set_read''"
| "ssl_symbol (O_BIO_meth_set_write _) = Some ''BIO_meth_set_write''"
| "ssl_symbol (O_BIO_meth_set_ctrl _) = Some ''BIO_meth_set_ctrl''"
| "ssl_symbol (O_BIO_meth_set_destroy _) = Some ''BIO_meth_set_destroy''"
| "ssl_symbol (O_BIO_new _) = Some ''BIO_new''"
| "ssl_symbol (O_BIO_set_data _ _) = Some ''BIO_set_data''"
| "ssl_symbol (O_BIO_get_data _) = Some ''BIO_get_data''"
| "ssl_symbol (O_BIO_set_init _ _) = Some ''BIO_set_init''"
| "ssl_symbol O_TLS_client_method = Some ''TLS_client_method''"
| "ssl_symbol O_TLS_server_method = Some ''TLS_server_method''"
| "ssl_symbol (O_SSL_CTX_new _) = Some ''SSL_CTX_new''"
| "ssl_symbol (O_SSL_CTX_free _) = Some ''SSL_CTX_free''"
| "ssl_symbol (O_SSL_CTX_set_verify _ _) = Some ''SSL_CTX_set_verify''"
| "ssl_symbol (O_SSL_CTX_set_default_verify_paths _) = Some ''SSL_CTX_set_default_verify_paths''"
| "ssl_symbol (O_SSL_CTX_ctrl _ _ _ _) = Some ''SSL_CTX_ctrl''"
| "ssl_symbol (O_SSL_CTX_get_cert_store _) = Some ''SSL_CTX_get_cert_store''"
| "ssl_symbol (O_SSL_new _) = Some ''SSL_new''"
| "ssl_symbol (O_SSL_set_bio _ _ _) = Some ''SSL_set_bio''"
| "ssl_symbol (O_SSL_free _) = Some ''SSL_free''"
| "ssl_symbol (O_SSL_set_verify _ _) = Some ''SSL_set_verify''"
| "ssl_symbol (O_SSL_set1_host _ _) = Some ''SSL_set1_host''"
| "ssl_symbol (O_SSL_ctrl _ _ _ _) = Some ''SSL_ctrl''"
| "ssl_symbol (O_SSL_use_certificate_file _ _ _) = Some ''SSL_use_certificate_file''"
| "ssl_symbol (O_SSL_use_PrivateKey_file _ _ _) = Some ''SSL_use_PrivateKey_file''"
| "ssl_symbol (O_SSL_connect _) = Some ''SSL_connect''"
| "ssl_symbol (O_SSL_accept _) = Some ''SSL_accept''"
| "ssl_symbol (O_SSL_read _ _) = Some ''SSL_read''"
| "ssl_symbol (O_SSL_write _ _) = Some ''SSL_write''"
| "ssl_symbol (O_SSL_shutdown _) = Some ''SSL_shutdown''"
| "ssl_symbol (O_SSL_get_error _ _) = Some ''SSL_get_error''"
| "ssl_symbol (O_SSL_get_finished _ _) = Some ''SSL_get_finished''"
| "ssl_symbol (O_SSL_get_peer_finished _ _) = Some ''SSL_get_peer_finished''"
| "ssl_symbol (O_SSL_get_certificate _) = Some ''SSL_get_certificate''"
| "ssl_symbol (O_SSL_get1_peer_certificate _) = Some ''SSL_get1_peer_certificate''"
| "ssl_symbol (O_d2i_X509 _) = Some ''d2i_X509''"
| "ssl_symbol (O_X509_free _) = Some ''X509_free''"
| "ssl_symbol (O_X509_STORE_add_cert _ _) = Some ''X509_STORE_add_cert''"
| "ssl_symbol (O_i2d_X509_AUX _ _) = Some ''i2d_X509_AUX''"
| "ssl_symbol (O_X509_get_signature_nid _) = Some ''X509_get_signature_nid''"
| "ssl_symbol (O_X509_digest _ _) = Some ''X509_digest''"
| "ssl_symbol (O_OBJ_find_sigid_algs _) = Some ''OBJ_find_sigid_algs''"
| "ssl_symbol (O_OBJ_nid2sn _) = Some ''OBJ_nid2sn''"
| "ssl_symbol (O_EVP_get_digestbyname _) = Some ''EVP_get_digestbyname''"
| "ssl_symbol O_EVP_sha256 = Some ''EVP_sha256''"
| "ssl_symbol O_ERR_get_error = Some ''ERR_get_error''"
| "ssl_symbol O_ERR_peek_error = Some ''ERR_peek_error''"
| "ssl_symbol (O_ERR_error_string _) = Some ''ERR_error_string''"
| "ssl_symbol (O_RAND_bytes _) = Some ''RAND_bytes''"
| "ssl_symbol (O_SHA1 _) = Some ''SHA1''"
| "ssl_symbol _ = None"

lemma symbols_imported:
  "list_all (\<lambda>n. list_ex (\<lambda>(m, _). m = n) IMPORTED_OPEN_SSL_FUNCTIONS)
      [''BIO_meth_new'', ''BIO_meth_set_read'', ''BIO_meth_set_write'', ''BIO_meth_set_ctrl'',
      ''BIO_meth_set_destroy'', ''BIO_new'', ''BIO_set_data'', ''BIO_get_data'', ''BIO_set_init'',
      ''TLS_client_method'', ''TLS_server_method'', ''SSL_CTX_new'', ''SSL_CTX_free'',
      ''SSL_CTX_set_verify'', ''SSL_CTX_set_default_verify_paths'', ''SSL_CTX_ctrl'',
      ''SSL_CTX_get_cert_store'', ''SSL_new'', ''SSL_set_bio'', ''SSL_free'', ''SSL_set_verify'',
      ''SSL_set1_host'', ''SSL_ctrl'', ''SSL_use_certificate_file'', ''SSL_use_PrivateKey_file'',
      ''SSL_connect'', ''SSL_accept'', ''SSL_read'', ''SSL_write'', ''SSL_shutdown'',
      ''SSL_get_error'', ''SSL_get_finished'', ''SSL_get_peer_finished'', ''SSL_get_certificate'',
      ''SSL_get1_peer_certificate'', ''d2i_X509'', ''X509_free'', ''X509_STORE_add_cert'',
      ''i2d_X509_AUX'', ''X509_get_signature_nid'', ''X509_digest'', ''OBJ_find_sigid_algs'',
      ''OBJ_nid2sn'', ''EVP_get_digestbyname'', ''EVP_sha256'', ''ERR_get_error'',
      ''ERR_peek_error'', ''ERR_error_string'', ''RAND_bytes'', ''SHA1'']"
  by code_simp

lemma table_name: "list_ex (\<lambda>(m, _). m = n) T \<longleftrightarrow> n \<in> fst ` set T"
  by (force simp: list_ex_iff)

lemma ssl_symbols_imported: "ssl_symbol c = Some n \<Longrightarrow> n \<in> fst ` set IMPORTED_OPEN_SSL_FUNCTIONS"
  using symbols_imported by (cases c) (simp_all only: ssl_symbol.simps option.simps list.pred_inject table_name simp_thms)

text \<open>
  Claim C36 (functional). Loading OpenSSL. The first library of the platform's list that opens is used; the
  result is 1 when none opens, 2 when it has no version function, 3 exactly when it is older than 1.1.1,
  4 exactly when a function of the table is found under none of its names, and 0
  otherwise; then every pointer of the table holds the address of the first of its names that
  the library has, and every function the wrappers call has an address.\<close>

theorem openssl_loaded:
  assumes "dl_answers D S V L"
  shows "case load_openssl p L fs out w of (code, version, fs', w') \<Rightarrow>
    let h = first_nonzero D (ssl_library_names p); f = S h ''OpenSSL_version_num'' in
    code = (if h = 0 then 1 else if f = 0 then 2 else if V f < 0x10101000 then 3
            else if \<exists>(n, alts) \<in> set IMPORTED_OPEN_SSL_FUNCTIONS. first_nonzero (S h) (n # alts) = 0 then 4
            else 0) \<and>
    (code = 0 \<longrightarrow>
       (\<forall>(n, alts) \<in> set IMPORTED_OPEN_SSL_FUNCTIONS. fs' n = first_nonzero (S h) (n # alts)) \<and>
       (\<forall>c n. ssl_symbol c = Some n \<longrightarrow> fs' n \<noteq> 0))"
proof -
  define h where "h = first_nonzero D (ssl_library_names p)"
  define f where "f = S h ''OpenSSL_version_num''"
  obtain w1 where d: "dlopen_first L (ssl_library_names p) w = (h, w1)"
    using dlopen_first_is [OF assms] by (metis h_def prod.collapse)
  obtain a w2 where aw: "ask L (O_dlsym h ''OpenSSL_version_num'') w1 = (a, w2)" by fastforce
  have a: "r_ret a = f" using dl_ask(2) [OF assms aw] by (simp add: f_def)
  obtain b w3 where bw: "ask L (O_version_num f) w2 = (b, w3)" by fastforce
  have b: "r_ret b = V f" by (rule dl_ask(3) [OF assms bw])
  have v: "version_too_old (ssl_version (V f)) \<longleftrightarrow> V f < 0x10101000"
    using assms by (intro version_at_least) (auto simp: dl_answers_def)
  obtain code fs' w4 where i: "import_functions L h IMPORTED_OPEN_SSL_FUNCTIONS fs w3 = (code, fs', w4)"
    by (cases "import_functions L h IMPORTED_OPEN_SSL_FUNCTIONS fs w3") auto
  note I = import_functions_is [OF assms import_names_distinct, of h fs w3, unfolded i prod.case]
  have addr: "fs' n \<noteq> 0" if "code = 0" "ssl_symbol c = Some n" for c n
  proof -
    note c = that
    obtain alts where e: "(n, alts) \<in> set IMPORTED_OPEN_SSL_FUNCTIONS"
      using ssl_symbols_imported [OF c(2)] by auto
    then show ?thesis using I c(1) by (force split: if_splits)
  qed
  show ?thesis
    using I addr v
    by (simp add: load_openssl_def d aw a bw b i Let_def h_def [symmetric] f_def [symmetric])
qed

definition demo_dl :: "unit ssl_lib" where
  "demo_dl c k =
     (no_answer\<lparr>r_ret := (case c of
          O_dlopen n \<Rightarrow> if n = ''libssl.so.1.1'' then 7 else 0
        | O_dlsym h n \<Rightarrow> if n = ''SSL_get1_peer_certificate'' then 0 else int (length n)
        | O_version_num _ \<Rightarrow> 0x1010107f
        | _ \<Rightarrow> 0)\<rparr>, k)"

lemma openssl_loaded_witness:
  "\<exists>version fs' w'. load_openssl Linux demo_dl (\<lambda>_. 0) (0, 0, 0) \<lparr>lib_st = (), last_error = 0, trace = []\<rparr> =
     (0, version, fs', w') \<and> fs' ''SSL_get1_peer_certificate'' = 24 \<and> fs' ''SSL_read'' = 8"
proof -
  let ?D = "\<lambda>n. if n = ''libssl.so.1.1'' then 7 else (0 :: int)"
  let ?S = "\<lambda>(h :: int) n. if n = ''SSL_get1_peer_certificate'' then 0 else int (length n)"
  let ?V = "\<lambda>f :: int. 0x1010107f :: int"
  let ?w = "\<lparr>lib_st = (), last_error = 0, trace = []\<rparr> :: unit ssl_world"
  have law: "dl_answers ?D ?S ?V demo_dl" by (simp add: dl_answers_def demo_dl_def no_answer_def)
  obtain code v fs' w' where r: "load_openssl Linux demo_dl (\<lambda>_. 0) (0, 0, 0) ?w = (code, v, fs', w')"
    by (cases "load_openssl Linux demo_dl (\<lambda>_. 0) (0, 0, 0) ?w") auto
  have "list_all (\<lambda>(n, alts). first_nonzero (?S 7) (n # alts) \<noteq> 0) IMPORTED_OPEN_SSL_FUNCTIONS"
    by code_simp
  then have all: "\<not> (\<exists>(n, alts) \<in> set IMPORTED_OPEN_SSL_FUNCTIONS. first_nonzero (?S 7) (n # alts) = 0)"
    by (fastforce simp: list_all_iff)
  have h: "first_nonzero ?D (ssl_library_names Linux) = 7" by (simp add: ssl_library_names_def)
  have "list_ex (\<lambda>e. e = (''SSL_get1_peer_certificate'', [''SSL_get_peer_certificate''])) IMPORTED_OPEN_SSL_FUNCTIONS"
    "list_ex (\<lambda>e. e = (''SSL_read'', [])) IMPORTED_OPEN_SSL_FUNCTIONS"
    by code_simp+
  then have e: "(''SSL_get1_peer_certificate'', [''SSL_get_peer_certificate'']) \<in> set IMPORTED_OPEN_SSL_FUNCTIONS"
    "(''SSL_read'', []) \<in> set IMPORTED_OPEN_SSL_FUNCTIONS"
    by (simp_all only: list_ex_iff) auto
  note T = openssl_loaded [OF law, of Linux "\<lambda>_. 0" "(0, 0, 0)" ?w, unfolded r prod.case Let_def h]
  have "code = 0" unfolding conjunct1 [OF T] if_not_P [OF all] by simp
  then have "\<forall>(n, alts) \<in> set IMPORTED_OPEN_SSL_FUNCTIONS. fs' n = first_nonzero (?S 7) (n # alts)"
    using conjunct2 [OF T] by blast
  then have "fs' ''SSL_get1_peer_certificate'' = first_nonzero (?S 7) [''SSL_get1_peer_certificate'', ''SSL_get_peer_certificate'']"
    "fs' ''SSL_read'' = first_nonzero (?S 7) [''SSL_read'']"
    using e by (blast dest: bspec)+
  then show ?thesis using \<open>code = 0\<close> r by (cases v) simp
qed

end
