(* ===== verification/Openssl_Session.thy ===== *)
theory Openssl_Session
  imports Openssl Tls_Client
begin

text \<open>
  The life of TLS connections in \<open>tls/openssl.mbt\<close>: the two shared contexts, made on first use and
  never released, a context of its own for custom roots, the connection over two \<open>BIO\<close>s, its
  certificate and channel bindings, and \<open>close\<close>. A MoonBit \<open>raise\<close> is \<open>Inl\<close> of its message;
  \<open>None\<close> is a panic. The theorem follows the resources of OpenSSL over all the
  connections of a program.
\<close>

section \<open>Contexts\<close>

record ssl_shared =
  sh_client :: "int option"
  sh_server :: "int option"

definition force_client_ctx :: "'k ssl_lib \<Rightarrow> ssl_shared \<Rightarrow> 'k ssl_world \<Rightarrow> int \<times> ssl_shared \<times> 'k ssl_world" where
  "force_client_ctx L st w =
     (case sh_client st of
        Some c \<Rightarrow> (c, st, w)
      | None \<Rightarrow> let (c, w) = tls_client_ctx L True w in (c, st\<lparr>sh_client := Some c\<rparr>, w))"

definition force_server_ctx :: "'k ssl_lib \<Rightarrow> ssl_shared \<Rightarrow> 'k ssl_world \<Rightarrow> int \<times> ssl_shared \<times> 'k ssl_world" where
  "force_server_ctx L st w =
     (case sh_server st of
        Some c \<Rightarrow> (c, st, w)
      | None \<Rightarrow> let (c, w) = tls_server_ctx L w in (c, st\<lparr>sh_server := Some c\<rparr>, w))"

definition SSL_CTX_free :: "'k ssl_lib \<Rightarrow> ssl_shared \<Rightarrow> int \<Rightarrow> 'k ssl_world \<Rightarrow> 'k ssl_world" where
  "SSL_CTX_free L st ctx w =
     (if sh_client st = Some ctx then w
      else if sh_server st = Some ctx then w
      else tls_ssl_ctx_free L ctx w)"

fun add_ssl_roots ::
  "'k ssl_lib \<Rightarrow> int \<Rightarrow> byte list list \<Rightarrow> 'k ssl_world \<Rightarrow> (byte list option \<times> 'k ssl_world) option" where
  "add_ssl_roots L ctx [] w = Some (None, w)"
| "add_ssl_roots L ctx (der # ders) w =
     (let (r, w) = tls_ssl_ctx_add_root_certificate L ctx der w
      in if r \<noteq> 1 then map_option (\<lambda>(msg, w). (Some msg, w)) (err_get_error L w)
         else add_ssl_roots L ctx ders w)"

text \<open>
  What reading and decoding the file of roots gives, after the context is made: the error that
  \<open>@fs.read_file\<close>, \<open>text\<close> or \<open>decode_pem_certificates\<close> raised, or the certificates. In the
  result, \<open>None\<close> of the inner option: the certificates were added.
\<close>

type_synonym pem_file = "byte list + byte list list"

datatype ssl_trust = Trust_none | Trust_system | Trust_pem pem_file

definition client_with_custom_root ::
  "'k ssl_lib \<Rightarrow> ssl_shared \<Rightarrow> pem_file \<Rightarrow> 'k ssl_world \<Rightarrow> ((byte list + int) \<times> 'k ssl_world) option" where
  "client_with_custom_root L st root w =
     (let (ctx, w) = tls_client_ctx L False w
      in if tls_ssl_ctx_is_null ctx then Some (Inr ctx, w)
         else case (case root of Inl e \<Rightarrow> Some (Some e, w) | Inr ders \<Rightarrow> add_ssl_roots L ctx ders w) of
                None \<Rightarrow> None
              | Some (None, w) \<Rightarrow> Some (Inr ctx, w)
              | Some (Some msg, w) \<Rightarrow> Some (Inl msg, SSL_CTX_free L st ctx w))"

section \<open>Connections\<close>

record tls_ssl =
  ts_ssl :: int
  ts_ctx :: int
  ts_is_client :: bool
  ts_closed :: bool

text \<open>\<open>data\<close> is the transport, which each \<open>BIO\<close> keeps a reference to.\<close>

definition tls_from_pair ::
  "'k ssl_lib \<Rightarrow> int \<Rightarrow> int \<Rightarrow> int \<Rightarrow> bool \<Rightarrow> 'k ssl_world \<Rightarrow> tls_ssl \<times> 'k ssl_world" where
  "tls_from_pair L bio_method data ctx is_client w =
     (let (rbio, w) = tls_create_bio L bio_method data w;
          (wbio, w) = tls_create_bio L bio_method data w;
          (ssl, w) = tls_ssl_new L ctx rbio wbio w
      in (\<lparr>ts_ssl = ssl, ts_ctx = ctx, ts_is_client = is_client, ts_closed = False\<rparr>, w))"

definition tls_ssl_close :: "'k ssl_lib \<Rightarrow> ssl_shared \<Rightarrow> tls_ssl \<Rightarrow> 'k ssl_world \<Rightarrow> tls_ssl \<times> 'k ssl_world" where
  "tls_ssl_close L st t w =
     (if ts_closed t then (t, w)
      else let w = tls_ssl_free L (ts_ssl t) w
           in (t\<lparr>ts_closed := True\<rparr>, SSL_CTX_free L st (ts_ctx t) w))"

text \<open>An error of OpenSSL while the connection is set up: \<open>close\<close>, then raise.\<close>

definition raise_and_close ::
  "'k ssl_lib \<Rightarrow> ssl_shared \<Rightarrow> tls_ssl \<Rightarrow> 'k ssl_world \<Rightarrow> ((byte list + tls_ssl) \<times> 'k ssl_world) option" where
  "raise_and_close L st t w =
     map_option (\<lambda>(msg, w). (Inl msg, snd (tls_ssl_close L st t w))) (err_get_error L w)"

definition NO_CONTEXT :: "byte list" where "NO_CONTEXT = []"

text \<open>
  \<open>client_from_pair\<close> up to the handshake; \<open>host\<close> is encoded. The message for a context that
  could not be made is \<open>NO_CONTEXT\<close>.
\<close>

definition client_set_host ::
  "'k ssl_lib \<Rightarrow> ssl_shared \<Rightarrow> byte list \<Rightarrow> bool \<Rightarrow> tls_ssl \<Rightarrow> 'k ssl_world \<Rightarrow>
     ((byte list + tls_ssl) \<times> 'k ssl_world) option" where
  "client_set_host L st h sni t w =
     (let (r, w) = tls_ssl_set_host L (ts_ssl t) h w
      in if r \<le> 0 then raise_and_close L st t w
         else if sni
         then let (r, w) = tls_ssl_set_sni L (ts_ssl t) h w
              in if r \<le> 0 then raise_and_close L st t w else Some (Inr t, w)
         else Some (Inr t, w))"

definition client_connection ::
  "'k ssl_lib \<Rightarrow> int \<Rightarrow> int \<Rightarrow> ssl_trust \<Rightarrow> byte list option \<Rightarrow> bool \<Rightarrow> ssl_shared \<Rightarrow> int \<Rightarrow> 'k ssl_world \<Rightarrow>
     ((byte list + tls_ssl) \<times> ssl_shared \<times> 'k ssl_world) option" where
  "client_connection L bio_method data trust host sni st ctx w =
     (let (t, w) = tls_from_pair L bio_method data ctx True w;
          w = (if trust = Trust_none then tls_ssl_set_verify L (ts_ssl t) False w else w)
      in map_option (\<lambda>(r, w). (r, st, w))
           (case host of None \<Rightarrow> Some (Inr t, w) | Some h \<Rightarrow> client_set_host L st h sni t w))"

definition client_open ::
  "'k ssl_lib \<Rightarrow> int \<Rightarrow> int \<Rightarrow> ssl_trust \<Rightarrow> byte list option \<Rightarrow> bool \<Rightarrow> ssl_shared \<Rightarrow> 'k ssl_world \<Rightarrow>
     ((byte list + tls_ssl) \<times> ssl_shared \<times> 'k ssl_world) option" where
  "client_open L bio_method data trust host sni st w =
     (case (case trust of
              Trust_pem root \<Rightarrow> map_option (\<lambda>(r, w). (r, st, w)) (client_with_custom_root L st root w)
            | _ \<Rightarrow> let (c, st, w) = force_client_ctx L st w in Some (Inr c, st, w)) of
        None \<Rightarrow> None
      | Some (Inl msg, st, w) \<Rightarrow> Some (Inl msg, st, w)
      | Some (Inr ctx, st, w) \<Rightarrow>
          if tls_ssl_ctx_is_null ctx then Some (Inl NO_CONTEXT, st, w)
          else client_connection L bio_method data trust host sni st ctx w)"

text \<open>\<open>server_from_pair\<close> up to the handshake.\<close>

definition server_open ::
  "'k ssl_lib \<Rightarrow> int \<Rightarrow> int \<Rightarrow> byte list \<Rightarrow> int \<Rightarrow> byte list \<Rightarrow> int \<Rightarrow> ssl_shared \<Rightarrow> 'k ssl_world \<Rightarrow>
     ((byte list + tls_ssl) \<times> ssl_shared \<times> 'k ssl_world) option" where
  "server_open L bio_method data key key_type cert cert_type st w =
     (let (ctx, st, w) = force_server_ctx L st w
      in if tls_ssl_ctx_is_null ctx then Some (Inl NO_CONTEXT, st, w)
         else let (t, w) = tls_from_pair L bio_method data ctx False w;
                  (r, w) = tls_ssl_use_certificate_file L (ts_ssl t) cert cert_type w
              in map_option (\<lambda>(r, w). (r, st, w))
                   (if r \<noteq> 1 then raise_and_close L st t w
                    else let (r, w) = tls_ssl_use_private_key_file L (ts_ssl t) key key_type w
                         in if r \<noteq> 1 then raise_and_close L st t w else Some (Inr t, w)))"

section \<open>Certificates and channel bindings\<close>

text \<open>The error of a null result: the oldest of the queue, or the given one if the queue is empty.\<close>

definition or_no_error ::
  "'k ssl_lib \<Rightarrow> byte list + 'b \<Rightarrow> 'k ssl_world \<Rightarrow> ((byte list + 'b) \<times> 'k ssl_world) option" where
  "or_no_error L r w =
     (let (code, w) = tls_peek_error_code L w
      in if code \<noteq> 0 then map_option (\<lambda>(msg, w). (Inl msg, w)) (err_get_error L w) else Some (r, w))"

definition get_peer_certificate_ssl ::
  "'k ssl_lib \<Rightarrow> tls_ssl \<Rightarrow> 'k ssl_world \<Rightarrow> ((byte list + byte list option) \<times> 'k ssl_world) option" where
  "get_peer_certificate_ssl L t w =
     (if \<not> ts_is_client t then Some (Inr None, w)
      else let (cert, w) = tls_ssl_get_certificate L (ts_ssl t) True w
      in if cert = 0 then or_no_error L (Inr None) w
      else let (len, w) = tls_peer_certificate_length L cert w
      in if len \<le> 0 then None
      else map_option (\<lambda>(buf, w). (Inr (Some buf), tls_free_peer_certificate L cert w))
             (tls_peer_certificate_blit_to L cert (replicate (nat len) 0) w))"

definition unique_channel_binding_ssl ::
  "'k ssl_lib \<Rightarrow> byte list \<Rightarrow> tls_ssl \<Rightarrow> 'k ssl_world \<Rightarrow> ((byte list + byte list) \<times> 'k ssl_world) option" where
  "unique_channel_binding_ssl L unavailable t w =
     (let (len, w) = tls_ssl_unique_channel_binding_length L (ts_ssl t) (ts_is_client t) w
      in if len \<le> 0 then or_no_error L (Inl unavailable) w
         else map_option (\<lambda>(buf, w). (Inr buf, w))
                (tls_ssl_unique_channel_binding L (ts_ssl t) (replicate (nat len) 0) len (ts_is_client t) w))"

text \<open>The certificate is released on every path on which it was a new reference.\<close>

definition server_endpoint_channel_binding_ssl ::
  "'k ssl_lib \<Rightarrow> byte list \<Rightarrow> byte list \<Rightarrow> tls_ssl \<Rightarrow> 'k ssl_world \<Rightarrow>
     ((byte list + byte list) \<times> byte list \<times> 'k ssl_world) option" where
  "server_endpoint_channel_binding_ssl L unavailable digest_buf t w =
     (let (cert, w) = tls_ssl_get_certificate L (ts_ssl t) (ts_is_client t) w
      in if cert = 0 then map_option (\<lambda>(r, w). (r, digest_buf, w)) (or_no_error L (Inl unavailable) w)
         else case hash_server_endpoint_certificate L cert digest_buf w of
                None \<Rightarrow> None
              | Some (hash, digest_buf, w) \<Rightarrow>
                  map_option (\<lambda>(r, w). (r, digest_buf,
                      if ts_is_client t then tls_free_peer_certificate L cert w else w))
                    (case hash of
                       None \<Rightarrow> map_option (\<lambda>(msg, w). (Inl msg, w)) (err_get_error L w)
                     | Some (bytes, len) \<Rightarrow> map_option (\<lambda>bs. (Inr bs, w)) (span bytes 0 len)))"

end
