(* ===== verification/Openssl_Resources.thy ===== *)
theory Openssl_Resources
  imports Openssl_Session
begin

text \<open>
  Which objects of OpenSSL a program holds, read from the trace of its calls, and the invariant that
  these are the shared contexts and, for each connection that is not closed, its \<open>SSL\<close>
  and the context it has of its own. A \<open>BIO\<close> belongs to the \<open>SSL\<close> once it is set.
\<close>

section \<open>Gains, losses, uses\<close>

datatype ssl_resource = Ctx int | Ssl int | Bio int | X509 int

definition non_null :: "(int \<Rightarrow> ssl_resource) \<Rightarrow> int \<Rightarrow> ssl_resource list" where
  "non_null R x = (if x = 0 then [] else [R x])"

fun ssl_gains :: "ssl_call \<Rightarrow> lib_answer \<Rightarrow> ssl_resource list" where
  "ssl_gains (O_SSL_CTX_new _) a = non_null Ctx (r_ret a)"
| "ssl_gains (O_SSL_new _) a = non_null Ssl (r_ret a)"
| "ssl_gains (O_BIO_new _) a = non_null Bio (r_ret a)"
| "ssl_gains (O_d2i_X509 _) a = non_null X509 (r_ret a)"
| "ssl_gains (O_SSL_get1_peer_certificate _) a = non_null X509 (r_ret a)"
| "ssl_gains _ a = []"

fun ssl_loses :: "ssl_call \<Rightarrow> ssl_resource list" where
  "ssl_loses (O_SSL_CTX_free c) = non_null Ctx c"
| "ssl_loses (O_SSL_free s) = non_null Ssl s"
| "ssl_loses (O_SSL_set_bio _ r w) = [Bio r, Bio w]"
| "ssl_loses (O_X509_free c) = non_null X509 c"
| "ssl_loses _ = []"

fun ssl_uses :: "ssl_call \<Rightarrow> ssl_resource list" where
  "ssl_uses (O_BIO_set_data b _) = [Bio b]"
| "ssl_uses (O_BIO_set_init b _) = [Bio b]"
| "ssl_uses (O_SSL_CTX_set_verify c _) = [Ctx c]"
| "ssl_uses (O_SSL_CTX_set_default_verify_paths c) = [Ctx c]"
| "ssl_uses (O_SSL_CTX_get_cert_store c) = [Ctx c]"
| "ssl_uses (O_SSL_new c) = [Ctx c]"
| "ssl_uses (O_SSL_set_bio s _ _) = [Ssl s]"
| "ssl_uses (O_SSL_set_verify s _) = [Ssl s]"
| "ssl_uses (O_SSL_set1_host s _) = [Ssl s]"
| "ssl_uses (O_SSL_ctrl s _ _ _) = [Ssl s]"
| "ssl_uses (O_SSL_use_certificate_file s _ _) = [Ssl s]"
| "ssl_uses (O_SSL_use_PrivateKey_file s _ _) = [Ssl s]"
| "ssl_uses (O_SSL_connect s) = [Ssl s]"
| "ssl_uses (O_SSL_accept s) = [Ssl s]"
| "ssl_uses (O_SSL_read s _) = [Ssl s]"
| "ssl_uses (O_SSL_write s _) = [Ssl s]"
| "ssl_uses (O_SSL_shutdown s) = [Ssl s]"
| "ssl_uses (O_SSL_get_error s _) = [Ssl s]"
| "ssl_uses (O_SSL_get_finished s _) = [Ssl s]"
| "ssl_uses (O_SSL_get_peer_finished s _) = [Ssl s]"
| "ssl_uses (O_SSL_get_certificate s) = [Ssl s]"
| "ssl_uses (O_SSL_get1_peer_certificate s) = [Ssl s]"
| "ssl_uses (O_X509_STORE_add_cert _ c) = [X509 c]"
| "ssl_uses (O_i2d_X509_AUX c _) = [X509 c]"
| "ssl_uses _ = []"

definition ssl_held :: "(ssl_call \<times> lib_answer) list \<Rightarrow> ssl_resource multiset option" where
  "ssl_held t = own ssl_gains ssl_loses ssl_uses {#} t"

section \<open>Documented behaviour\<close>

text \<open>
  A digest, a channel binding and an error text fit what they are written to. Any call that makes
  an object may answer null.
\<close>

fun ssl_answer_law :: "ssl_call \<Rightarrow> lib_answer \<Rightarrow> bool" where
  "ssl_answer_law (O_SSL_get_finished _ n) a = (length (r_bytes a) \<le> nat n)"
| "ssl_answer_law (O_SSL_get_peer_finished _ n) a = (length (r_bytes a) \<le> nat n)"
| "ssl_answer_law (O_X509_digest _ _) a =
     (length (r_bytes a) \<le> MAX_DIGEST_LEN \<and> 0 \<le> r_num a \<and> r_num a \<le> int MAX_DIGEST_LEN)"
| "ssl_answer_law (O_ERR_error_string _) a = (length (r_bytes a) < 256)"
| "ssl_answer_law _ a = True"

text \<open>
  \<open>der k c\<close>: the encoding of the certificate \<open>c\<close> in a state of the library. The call of
  \<open>i2d_X509_AUX\<close> that asks for its length answers it, or a number that is not positive when it
  fails; the one after it writes no more than that.
\<close>

definition der_law :: "('k \<Rightarrow> int \<Rightarrow> byte list) \<Rightarrow> ssl_call \<Rightarrow> 'k \<Rightarrow> lib_answer \<Rightarrow> 'k \<Rightarrow> bool" where
  "der_law der call k a k' \<longleftrightarrow>
     (\<forall>c. call = O_i2d_X509_AUX c False \<longrightarrow>
        - (2 ^ 31) \<le> r_ret a \<and> r_ret a < 2 ^ 31 \<and> der k' c = der k c \<and>
        (0 < r_ret a \<longrightarrow> r_ret a = int (length (der k c)))) \<and>
     (\<forall>c. call = O_i2d_X509_AUX c True \<longrightarrow> length (r_bytes a) \<le> length (der k c))"

text \<open>
  \<open>Live k\<close>: the contexts that are allocated in a state of the library. A new one is none
  of them, and only \<open>SSL_CTX_free\<close> releases one.
\<close>

definition live_law :: "('k \<Rightarrow> int set) \<Rightarrow> ssl_call \<Rightarrow> 'k \<Rightarrow> lib_answer \<Rightarrow> 'k \<Rightarrow> bool" where
  "live_law Live c k a k' \<longleftrightarrow>
     (\<forall>x \<in> Live k. x \<in> Live k' \<or> c = O_SSL_CTX_free x \<and> x \<noteq> 0) \<and>
     (\<forall>m. c = O_SSL_CTX_new m \<longrightarrow> r_ret a \<noteq> 0 \<longrightarrow> r_ret a \<notin> Live k \<and> r_ret a \<in> Live k')"

definition ssl_law :: "('k \<Rightarrow> int set) \<Rightarrow> ('k \<Rightarrow> int \<Rightarrow> byte list) \<Rightarrow> 'k ssl_lib \<Rightarrow> bool" where
  "ssl_law Live der L \<longleftrightarrow>
     (\<forall>c k. ssl_answer_law c (fst (L c k)) \<and> live_law Live c k (fst (L c k)) (snd (L c k)) \<and>
        der_law der c k (fst (L c k)) (snd (L c k)))"

primrec io_ends :: "(lib_answer \<Rightarrow> 'k \<Rightarrow> bool) \<Rightarrow> 'k ssl_io \<Rightarrow> bool" where
  "io_ends P (Io_return a k) = P a k"
| "io_ends P (Io_bio_read n f) = (\<forall>r. io_ends P (f r))"
| "io_ends P (Io_bio_write bs f) = (\<forall>r. io_ends P (f r))"

definition engine_keeps :: "('k \<Rightarrow> int set) \<Rightarrow> 'k ssl_engine \<Rightarrow> bool" where
  "engine_keeps Live E \<longleftrightarrow> (\<forall>c k. io_ends (\<lambda>_ k'. Live k \<subseteq> Live k') (E c k))"

lemma run_io_ends: "run_io M t c = Some (a, k, c') \<Longrightarrow> io_ends P t \<Longrightarrow> P a k"
proof (induction t arbitrary: c)
  case (Io_bio_read n f)
  then show ?case using Io_bio_read.IH [OF rangeI] by (auto split: option.splits)
next
  case (Io_bio_write bs f)
  then show ?case using Io_bio_write.IH [OF rangeI] by (auto split: option.splits)
qed simp

section \<open>One call\<close>

text \<open>
  The code tests a new context for null, but not a new \<open>BIO\<close> nor a new \<open>SSL\<close>: once the library has
  refused one of these, the code goes on with the null pointer, and nothing is claimed of
  what it holds.
\<close>

fun refuses :: "ssl_call \<times> lib_answer \<Rightarrow> bool" where
  "refuses (O_SSL_new _, a) = (r_ret a = 0)"
| "refuses (O_BIO_new _, a) = (r_ret a = 0)"
| "refuses _ = False"

definition refused :: "(ssl_call \<times> lib_answer) list \<Rightarrow> bool" where
  "refused t \<longleftrightarrow> (\<exists>x \<in> set t. refuses x)"

lemma refused_simps [simp]: "\<not> refused []" "refused (t @ [x]) \<longleftrightarrow> refused t \<or> refuses x"
  by (auto simp: refused_def)

definition ssl_ok :: "('k \<Rightarrow> int set) \<Rightarrow> ssl_resource multiset \<Rightarrow> 'k ssl_world \<Rightarrow> bool" where
  "ssl_ok Live S w \<longleftrightarrow> refused (trace w) \<or>
     ssl_held (trace w) = Some S \<and> (\<forall>c. count S (Ctx c) \<le> 1) \<and> (\<forall>c. Ctx c \<in># S \<longrightarrow> c \<in> Live (lib_st w)) \<and>
     Ssl 0 \<notin># S"

lemma refused_ask: "ask L c w = (a, w') \<Longrightarrow> refused (trace w') \<longleftrightarrow> refused (trace w) \<or> refuses (c, a)"
  using trace_ask [of L c w] by simp

lemma refused_do: "refused (trace w) \<Longrightarrow> refused (trace (ask_do L c w))"
  using refused_ask [of L c w] by (cases "ask L c w") (simp add: ask_do_def)

lemma refused_ok: "refused (trace w) \<Longrightarrow> ssl_ok Live S w"
  by (simp add: ssl_ok_def)

lemma null_object: "ask L c w = (a, w') \<Longrightarrow> refuses (c, a) \<Longrightarrow> ssl_ok Live S w'"
  using refused_ask [of L c w a w'] by (simp add: refused_ok)

lemma lib_st_ask: "ask L c w = (a, w') \<Longrightarrow> L c (lib_st w) = (a, lib_st w')"
  by (auto simp: ask_def split: prod.splits)

lemma ssl_gains_ctx: "Ctx x \<in> set (ssl_gains c a) \<Longrightarrow> \<exists>m. c = O_SSL_CTX_new m \<and> r_ret a = x \<and> x \<noteq> 0"
  by (cases c) (auto simp: non_null_def split: if_splits)

lemma ssl_gains_ssl: "Ssl x \<in> set (ssl_gains c a) \<Longrightarrow> x \<noteq> 0"
  by (cases c) (auto simp: non_null_def split: if_splits)

lemma count_gains: "count (mset (ssl_gains c a)) x \<le> 1"
  by (cases c) (auto simp: non_null_def)

lemma ok_ask:
  assumes "ask L c w = (a, w')" "ssl_law Live der L" "ssl_ok Live S w"
    "set (ssl_uses c) \<subseteq> set_mset S" "mset (ssl_loses c) \<subseteq># S"
  shows "ssl_ok Live (S - mset (ssl_loses c) + mset (ssl_gains c a)) w'" "ssl_answer_law c a"
proof -
  have l: "ssl_answer_law c a" "live_law Live c (lib_st w) a (lib_st w')"
    using assms(2) lib_st_ask [OF assms(1)] by (metis fst_conv snd_conv ssl_law_def)+
  then show "ssl_answer_law c a" by blast
  show "ssl_ok Live (S - mset (ssl_loses c) + mset (ssl_gains c a)) w'"
  proof (cases "refused (trace w)")
    case True
    then show ?thesis using refused_ask [OF assms(1)] by (simp add: refused_ok)
  next
    case sound: False
  let ?S = "S - mset (ssl_loses c) + mset (ssl_gains c a)"
  have h: "ssl_held (trace w') = Some ?S"
    using assms sound trace_ask [of L c w] by (simp add: ssl_ok_def ssl_held_def own_snoc)
  have ok: "count S (Ctx x) \<le> 1" "Ctx x \<in># S \<Longrightarrow> x \<in> Live (lib_st w)" for x
    using assms(3) sound by (auto simp: ssl_ok_def)
  have fresh: "Ctx x \<notin># S \<and> x \<in> Live (lib_st w')" if "Ctx x \<in> set (ssl_gains c a)" for x
    using ssl_gains_ctx [OF that] l(2) ok(2) by (auto simp: live_law_def)
  have "count ?S (Ctx x) \<le> 1" for x
  proof (cases "Ctx x \<in> set (ssl_gains c a)")
    case True
    then have "count S (Ctx x) = 0" using fresh by (simp add: not_in_iff)
    then show ?thesis using count_gains [of c a "Ctx x"] by simp
  next
    case False
    then have "count (mset (ssl_gains c a)) (Ctx x) = 0" by (simp add: count_eq_zero_iff)
    then have "count ?S (Ctx x) = count S (Ctx x) - count (mset (ssl_loses c)) (Ctx x)"
      by (simp only: count_union count_diff)
    then show ?thesis using ok(1) [of x] by linarith
  qed
  moreover have "x \<in> Live (lib_st w')" if "Ctx x \<in># ?S" for x
  proof (cases "Ctx x \<in> set (ssl_gains c a)")
    case True
    then show ?thesis using fresh by blast
  next
    case False
    then have "count (mset (ssl_loses c)) (Ctx x) < count S (Ctx x)"
      using that by (auto simp: in_diff_count)
    then have "count (mset (ssl_loses c)) (Ctx x) = 0" "0 < count S (Ctx x)"
      using ok(1) [of x] by linarith+
    then have "Ctx x \<notin> set (ssl_loses c)" "Ctx x \<in># S" by (simp_all add: count_mset_0_iff)
    moreover have "x \<noteq> 0 \<Longrightarrow> c = O_SSL_CTX_free x \<Longrightarrow> Ctx x \<in> set (ssl_loses c)"
      by (simp add: non_null_def)
    ultimately show ?thesis
      using l(2) ok(2) unfolding live_law_def by blast
  qed
  moreover have "Ssl 0 \<notin># ?S"
    using assms(3) sound ssl_gains_ssl [of 0 c a] by (auto simp: ssl_ok_def dest: in_diffD)
  ultimately show ?thesis using h by (simp add: ssl_ok_def)
  qed
qed

text \<open>A call that gains and loses nothing, whose result may be looked at or not.\<close>

lemma ok_plain:
  assumes "ssl_law Live der L" "ssl_ok Live S w" "set (ssl_uses c) \<subseteq> set_mset S" "ssl_loses c = []"
    "\<And>a. ssl_gains c a = []"
  shows "ask L c w = (a, w') \<Longrightarrow> ssl_ok Live S w' \<and> ssl_answer_law c a"
    and "ask_int L c w = (r, w') \<Longrightarrow> ssl_ok Live S w'"
    and "ssl_ok Live S (ask_do L c w)"
proof -
  have *: "ssl_ok Live S w' \<and> ssl_answer_law c a" if "ask L c w = (a, w')" for a w'
    using ok_ask [OF that assms(1-3)] assms(4,5) by simp
  then show "ask L c w = (a, w') \<Longrightarrow> ssl_ok Live S w' \<and> ssl_answer_law c a" .
  show "ask_int L c w = (r, w') \<Longrightarrow> ssl_ok Live S w'"
    using * by (auto simp: ask_int_def split: prod.splits)
  show "ssl_ok Live S (ask_do L c w)"
    using * by (cases "ask L c w") (simp add: ask_do_def)
qed

lemma ok_lose:
  assumes "ssl_law Live der L" "ssl_ok Live S w" "ssl_uses c = []" "mset (ssl_loses c) \<subseteq># S"
    "\<And>a. ssl_gains c a = []"
  shows "ssl_ok Live (S - mset (ssl_loses c)) (ask_do L c w)"
proof -
  obtain a w' where aw: "ask L c w = (a, w')" by fastforce
  then show ?thesis using ok_ask(1) [OF aw assms(1,2)] assms(3-5) by (simp add: ask_do_def)
qed

lemmas ok_simps = non_null_def ssl_uses.simps ssl_loses.simps ssl_gains.simps

lemma err_get_error_ok:
  assumes "ssl_law Live der L" "ssl_ok Live S w"
  obtains msg w' where "err_get_error L w = Some (msg, w')" "ssl_ok Live S w'"
proof -
  obtain a w1 where aw: "ask L O_ERR_get_error w = (a, w1)" by fastforce
  have o1: "ssl_ok Live S w1" using ok_plain(1) [OF assms _ _ _ aw] by simp
  obtain b w2 where bw: "ask L (O_ERR_error_string (r_ret a)) w1 = (b, w2)" by fastforce
  have o2: "ssl_ok Live S w2" "length (r_bytes b) < 256"
    using ok_plain(1) [OF assms(1) o1 _ _ _ bw] by simp_all
  show thesis by (rule err_get_error_is [OF aw bw o2(2)]) (rule that [OF _ o2(1)])
qed

section \<open>Contexts\<close>

lemma client_ctx_ok:
  assumes "ssl_law Live der L" "ssl_ok Live S w" "tls_client_ctx L b w = (c, w')"
  shows "ssl_ok Live (S + mset (non_null Ctx c)) w'"
proof -
  obtain m w1 where mw: "ask L O_TLS_client_method w = (m, w1)" by fastforce
  have o1: "ssl_ok Live S w1" using ok_plain(1) [OF assms(1,2) _ _ _ mw] by simp
  obtain a w2 where aw: "ask L (O_SSL_CTX_new (r_ret m)) w1 = (a, w2)" by fastforce
  have o2: "ssl_ok Live (S + mset (non_null Ctx (r_ret a))) w2"
    using ok_ask(1) [OF aw assms(1) o1] by simp
  show ?thesis
  proof (cases "r_ret a = 0")
    case True
    then show ?thesis using assms(3) o2 by (simp add: tls_client_ctx_def mw aw non_null_def)
  next
    case False
    let ?S = "S + {#Ctx (r_ret a)#}"
    let ?w3 = "ask_do L (O_SSL_CTX_set_verify (r_ret a) SSL_VERIFY_PEER) w2"
    have o2: "ssl_ok Live ?S w2" using o2 False by (simp add: non_null_def)
    have o3: "ssl_ok Live ?S ?w3" by (rule ok_plain(3) [OF assms(1) o2]) simp_all
    obtain d w4 where dw: "ask L (O_SSL_CTX_set_default_verify_paths (r_ret a)) ?w3 = (d, w4)" by fastforce
    have o4: "ssl_ok Live ?S w4" using ok_plain(1) [OF assms(1) o3 _ _ _ dw] by simp
    have free: "ssl_ok Live S (ask_do L (O_SSL_CTX_free (r_ret a)) w)" if "ssl_ok Live ?S w" for w
      using ok_lose [OF assms(1) that, of "O_SSL_CTX_free (r_ret a)"] False by (simp add: non_null_def)
    have ctrl: "ssl_ok Live ?S (ask_do L (O_SSL_CTX_ctrl (r_ret a) x y z) w)" if "ssl_ok Live ?S w" for x y z w
      by (rule ok_plain(3) [OF assms(1) that]) simp_all
    show ?thesis
      using assms(3) False free [OF o4] ctrl [OF o4] ctrl [OF o3]
      by (auto simp: tls_client_ctx_def mw aw dw Let_def non_null_def split: if_splits)
  qed
qed

lemma server_ctx_ok:
  assumes "ssl_law Live der L" "ssl_ok Live S w" "tls_server_ctx L w = (c, w')"
  shows "ssl_ok Live (S + mset (non_null Ctx c)) w'"
proof -
  obtain m w1 where mw: "ask L O_TLS_server_method w = (m, w1)" by fastforce
  have o1: "ssl_ok Live S w1" using ok_plain(1) [OF assms(1,2) _ _ _ mw] by simp
  obtain a w2 where aw: "ask L (O_SSL_CTX_new (r_ret m)) w1 = (a, w2)" by fastforce
  have "ssl_ok Live (S + mset (non_null Ctx (r_ret a))) w2"
    using ok_ask(1) [OF aw assms(1) o1] by simp
  then show ?thesis
    using assms(3) ok_plain(3) [OF assms(1), of "S + mset (non_null Ctx (r_ret a))" w2
        "O_SSL_CTX_ctrl (r_ret a) SSL_CTRL_MODE SSL_MODE_ENABLE_PARTIAL_WRITE 0"]
    by (auto simp: tls_server_ctx_def mw aw)
qed

lemma add_root_ok:
  assumes "ssl_law Live der L" "ssl_ok Live S w" "Ctx ctx \<in># S"
    "tls_ssl_ctx_add_root_certificate L ctx d w = (r, w')"
  shows "ssl_ok Live S w'"
proof -
  obtain c w1 where cw: "ask L (O_d2i_X509 d) w = (c, w1)" by fastforce
  have o1: "ssl_ok Live (S + mset (non_null X509 (r_ret c))) w1"
    using ok_ask(1) [OF cw assms(1,2)] by simp
  show ?thesis
  proof (cases "r_ret c = 0")
    case True
    then show ?thesis using assms(4) o1 by (simp add: tls_ssl_ctx_add_root_certificate_def cw non_null_def)
  next
    case False
    let ?S = "S + {#X509 (r_ret c)#}"
    have o1: "ssl_ok Live ?S w1" using o1 False by (simp add: non_null_def)
    obtain s w2 where sw: "ask L (O_SSL_CTX_get_cert_store ctx) w1 = (s, w2)" by fastforce
    have o2: "ssl_ok Live ?S w2" using ok_plain(1) [OF assms(1) o1 _ _ _ sw] assms(3) by simp
    obtain a w3 where aw: "ask L (O_X509_STORE_add_cert (r_ret s) (r_ret c)) w2 = (a, w3)" by fastforce
    have o3: "ssl_ok Live ?S w3" using ok_plain(1) [OF assms(1) o2 _ _ _ aw] by simp
    have free: "ssl_ok Live S (ask_do L (O_X509_free (r_ret c)) w)" if "ssl_ok Live ?S w" for w
      using ok_lose [OF assms(1) that, of "O_X509_free (r_ret c)"] False by (simp add: non_null_def)
    show ?thesis
      using assms(4) False free [OF o2] free [OF o3]
      by (auto simp: tls_ssl_ctx_add_root_certificate_def cw sw aw Let_def split: if_splits)
  qed
qed

lemma add_ssl_roots_ok:
  assumes "ssl_law Live der L" "ssl_ok Live S w" "Ctx ctx \<in># S"
  obtains r w' where "add_ssl_roots L ctx ders w = Some (r, w')" "ssl_ok Live S w'"
proof -
  have "\<exists>r w'. add_ssl_roots L ctx ders w = Some (r, w') \<and> ssl_ok Live S w'"
    using assms(2)
  proof (induction ders arbitrary: w)
    case (Cons d ders)
    obtain r w1 where ad: "tls_ssl_ctx_add_root_certificate L ctx d w = (r, w1)" by fastforce
    have o1: "ssl_ok Live S w1" by (rule add_root_ok [OF assms(1) Cons.prems assms(3) ad])
    obtain msg w2 where "err_get_error L w1 = Some (msg, w2)" "ssl_ok Live S w2"
      by (rule err_get_error_ok [OF assms(1) o1])
    then show ?case using Cons.IH [OF o1] by (simp add: ad)
  qed auto
  then show thesis using that by blast
qed

section \<open>What a program records\<close>

text \<open>A connection is listed with whether its context is its own.\<close>

definition shared_ctxs :: "ssl_shared \<Rightarrow> ssl_resource list" where
  "shared_ctxs st =
     (case sh_client st of None \<Rightarrow> [] | Some c \<Rightarrow> non_null Ctx c) @
     (case sh_server st of None \<Rightarrow> [] | Some c \<Rightarrow> non_null Ctx c)"

definition session_res :: "tls_ssl \<times> bool \<Rightarrow> ssl_resource multiset" where
  "session_res s =
     (case s of (t, own_ctx) \<Rightarrow>
        if ts_closed t then {#}
        else {#Ssl (ts_ssl t)#} + (if own_ctx then {#Ctx (ts_ctx t)#} else {#}))"

definition prog_res :: "ssl_shared \<Rightarrow> (tls_ssl \<times> bool) list \<Rightarrow> ssl_resource multiset" where
  "prog_res st ts = mset (shared_ctxs st) + sum_list (map session_res ts)"

definition session_ok :: "ssl_shared \<Rightarrow> tls_ssl \<times> bool \<Rightarrow> bool" where
  "session_ok st s =
     (case s of (t, own_ctx) \<Rightarrow>
        ts_ctx t \<noteq> 0 \<and> (own_ctx \<or> sh_client st = Some (ts_ctx t) \<or> sh_server st = Some (ts_ctx t)))"

definition prog_inv :: "('k \<Rightarrow> int set) \<Rightarrow> ssl_shared \<Rightarrow> (tls_ssl \<times> bool) list \<Rightarrow> 'k ssl_world \<Rightarrow> bool" where
  "prog_inv Live st ts w \<longleftrightarrow> ssl_ok Live (prog_res st ts) w \<and> (\<forall>s \<in> set ts. session_ok st s)"

lemma prog_res_parts: "mset (shared_ctxs st) \<subseteq># prog_res st ts"
  by (simp add: prog_res_def)

lemma prog_res_snoc [simp]: "prog_res st (ts @ [s]) = prog_res st ts + session_res s"
  by (simp add: prog_res_def)

lemma prog_res_at:
  assumes "i < length ts"
  shows "prog_res st (ts[i := s]) + session_res (ts ! i) = prog_res st ts + session_res s"
proof -
  have "sum_list (map session_res ts) = sum_list (map session_res (take i ts)) + session_res (ts ! i) +
      sum_list (map session_res (drop (Suc i) ts))"
    by (subst id_take_nth_drop [OF assms]) simp
  moreover have "sum_list (map session_res (ts[i := s])) = sum_list (map session_res (take i ts)) + session_res s +
      sum_list (map session_res (drop (Suc i) ts))"
    by (subst upd_conv_take_nth_drop [OF assms]) simp
  ultimately show ?thesis by (simp add: prog_res_def)
qed

section \<open>Connections\<close>

lemma create_bio_ok:
  assumes "ssl_law Live der L" "ssl_ok Live S w" "tls_create_bio L m d w = (b, w')"
  shows "ssl_ok Live (S + {#Bio b#}) w'"
proof -
  obtain a w1 where aw: "ask L (O_BIO_new m) w = (a, w1)" by fastforce
  have o1: "ssl_ok Live (S + {#Bio (r_ret a)#}) w1"
    using ok_ask [OF aw assms(1,2)] null_object [OF aw] by (cases "r_ret a = 0") (simp_all add: non_null_def)
  let ?w2 = "ask_do L (O_BIO_set_data (r_ret a) d) w1"
  have o2: "ssl_ok Live (S + {#Bio (r_ret a)#}) ?w2" by (rule ok_plain(3) [OF assms(1) o1]) simp_all
  have "ssl_ok Live (S + {#Bio (r_ret a)#}) (ask_do L (O_BIO_set_init (r_ret a) 1) ?w2)"
    by (rule ok_plain(3) [OF assms(1) o2]) simp_all
  then show ?thesis using assms(3) by (auto simp: tls_create_bio_def aw Let_def)
qed

lemma from_pair_ok:
  assumes "ssl_law Live der L" "ssl_ok Live S w" "Ctx ctx \<in># S" "tls_from_pair L m d ctx c w = (t, w')"
  shows "ssl_ok Live (S + {#Ssl (ts_ssl t)#}) w'" "ts_ctx t = ctx" "ts_is_client t = c"
    "\<not> ts_closed t"
proof -
  obtain rb w1 where r: "tls_create_bio L m d w = (rb, w1)" by fastforce
  obtain wb w2 where wr: "tls_create_bio L m d w1 = (wb, w2)" by fastforce
  let ?B = "S + {#Bio rb#} + {#Bio wb#}"
  have o2: "ssl_ok Live ?B w2"
    by (rule create_bio_ok [OF assms(1) create_bio_ok [OF assms(1,2) r] wr])
  obtain a w3 where aw: "ask L (O_SSL_new ctx) w2 = (a, w3)" by fastforce
  have o3: "ssl_ok Live (?B + {#Ssl (r_ret a)#}) w3" "r_ret a = 0 \<Longrightarrow> ssl_ok Live (S + {#Ssl (r_ret a)#}) w3"
    using ok_ask [OF aw assms(1) o2] assms(3) null_object [OF aw]
    by (cases "r_ret a = 0"; simp add: non_null_def add_mset_commute)+
  obtain b w4 where bw: "ask L (O_SSL_set_bio (r_ret a) rb wb) w3 = (b, w4)" by fastforce
  have "mset [Bio rb, Bio wb] \<subseteq># ?B + {#Ssl (r_ret a)#}"
    by (simp add: add.commute [of S] add.assoc)
  then have "ssl_ok Live (?B + {#Ssl (r_ret a)#} - {#Bio rb, Bio wb#}) w4"
    using ok_ask(1) [OF bw assms(1) o3(1)] by simp
  moreover have "?B + {#Ssl (r_ret a)#} - {#Bio rb, Bio wb#} = S + {#Ssl (r_ret a)#}"
    by (simp add: multiset_eq_iff)
  ultimately show "ssl_ok Live (S + {#Ssl (ts_ssl t)#}) w'" "ts_ctx t = ctx" "ts_is_client t = c"
    "\<not> ts_closed t"
    using assms(4) o3(2) by (auto simp: tls_from_pair_def r wr tls_ssl_new_def aw bw ask_do_def split: if_splits)
qed

lemma ctx_free_own:
  assumes "ssl_law Live der L" "ssl_ok Live (S + {#Ctx ctx#}) w" "mset (shared_ctxs st) \<subseteq># S" "ctx \<noteq> 0"
  shows "ssl_ok Live S (SSL_CTX_free L st ctx w)"
proof (cases "refused (trace w)")
  case True
  then have "refused (trace (SSL_CTX_free L st ctx w))"
    by (simp add: SSL_CTX_free_def tls_ssl_ctx_free_def refused_do)
  then show ?thesis by (rule refused_ok)
next
  case False
  then have "count (S + {#Ctx ctx#}) (Ctx ctx) \<le> 1" using assms(2) unfolding ssl_ok_def by blast
  then have "Ctx ctx \<notin># S" by (simp add: not_in_iff)
  then have "Ctx ctx \<notin> set (shared_ctxs st)" using mset_subset_eqD [OF assms(3)] by auto
  then have "sh_client st \<noteq> Some ctx" "sh_server st \<noteq> Some ctx"
    using assms(4) by (auto simp: shared_ctxs_def non_null_def)
  then show ?thesis
    using ok_lose [OF assms(1,2), of "O_SSL_CTX_free ctx"] assms(4)
    by (simp add: SSL_CTX_free_def tls_ssl_ctx_free_def non_null_def)
qed

lemma close_ok:
  assumes "ssl_law Live der L" "ssl_ok Live (S + session_res (t, o')) w" "mset (shared_ctxs st) \<subseteq># S"
    "session_ok st (t, o')" "tls_ssl_close L st t w = (t', w')"
  shows "ssl_ok Live S w'" "t' = t\<lparr>ts_closed := True\<rparr>"
proof -
  have "ssl_ok Live S w' \<and> t' = t\<lparr>ts_closed := True\<rparr>"
  proof (cases "ts_closed t")
    case True
    then show ?thesis using assms(2,5) by (simp add: tls_ssl_close_def session_res_def)
  next
    case False
    let ?C = "if o' then {#Ctx (ts_ctx t)#} else {#}"
    let ?w1 = "ask_do L (O_SSL_free (ts_ssl t)) w"
    have o1: "ssl_ok Live (S + ?C) ?w1"
    proof (cases "refused (trace w)")
      case True
      then show ?thesis by (intro refused_ok refused_do)
    next
      case sound: False
      then have "ts_ssl t \<noteq> 0" using assms(2) False by (auto simp: ssl_ok_def session_res_def)
      then show ?thesis
        using ok_lose [OF assms(1,2), of "O_SSL_free (ts_ssl t)"] False
        by (simp add: session_res_def non_null_def)
    qed
    have "ssl_ok Live S (SSL_CTX_free L st (ts_ctx t) ?w1)"
      using o1 ctx_free_own [OF assms(1) _ assms(3), of "ts_ctx t" ?w1] assms(4)
      by (cases o') (auto simp: session_ok_def SSL_CTX_free_def)
    then show ?thesis using assms(5) False by (auto simp: tls_ssl_close_def tls_ssl_free_def)
  qed
  then show "ssl_ok Live S w'" "t' = t\<lparr>ts_closed := True\<rparr>" by simp_all
qed

lemma raise_and_close_ok:
  assumes "ssl_law Live der L" "ssl_ok Live (S + session_res (t, o')) w" "mset (shared_ctxs st) \<subseteq># S"
    "session_ok st (t, o')"
  obtains msg w' where "raise_and_close L st t w = Some (Inl msg, w')" "ssl_ok Live S w'"
proof -
  obtain msg w1 where e: "err_get_error L w = Some (msg, w1)" "ssl_ok Live (S + session_res (t, o')) w1"
    by (rule err_get_error_ok [OF assms(1,2)])
  obtain t' w2 where c: "tls_ssl_close L st t w1 = (t', w2)" by fastforce
  show thesis
    using that close_ok(1) [OF assms(1) e(2) assms(3,4) c] by (simp add: raise_and_close_def e(1) c)
qed

section \<open>Opening\<close>

text \<open>The session \<open>(t, o')\<close> on top of what else is held, \<open>P\<close>: it is kept, or closed by an error.\<close>

definition opened_or_closed ::
  "('k \<Rightarrow> int set) \<Rightarrow> ssl_resource multiset \<Rightarrow> tls_ssl \<times> bool \<Rightarrow> (byte list + tls_ssl) \<times> 'k ssl_world \<Rightarrow> bool" where
  "opened_or_closed Live P s x =
     (case x of
        (Inl _, w) \<Rightarrow> ssl_ok Live P w
      | (Inr t, w) \<Rightarrow> t = fst s \<and> ssl_ok Live (P + session_res s) w)"

lemma session_uses:
  "\<not> ts_closed t \<Longrightarrow> Ssl (ts_ssl t) \<in># P + session_res (t, o')"
  by (simp add: session_res_def)

lemma or_close:
  assumes "ssl_law Live der L" "ssl_ok Live (P + session_res (t, o')) w" "mset (shared_ctxs st) \<subseteq># P"
    "session_ok st (t, o')"
  obtains x where "raise_and_close L st t w = Some x" "opened_or_closed Live P (t, o') x"
proof -
  obtain msg w' where r: "raise_and_close L st t w = Some (Inl msg, w')" "ssl_ok Live P w'"
    by (rule raise_and_close_ok [OF assms])
  show thesis by (rule that [OF r(1)]) (simp add: opened_or_closed_def r(2))
qed

lemma client_set_host_ok:
  assumes "ssl_law Live der L" "ssl_ok Live (P + session_res (t, o')) w" "mset (shared_ctxs st) \<subseteq># P"
    "session_ok st (t, o')" "\<not> ts_closed t"
  obtains x where "client_set_host L st h sni t w = Some x" "opened_or_closed Live P (t, o') x"
proof -
  let ?S = "P + session_res (t, o')"
  note use = session_uses [OF assms(5), of P o']
  obtain r w1 where r: "tls_ssl_set_host L (ts_ssl t) h w = (r, w1)" by fastforce
  have o1: "ssl_ok Live ?S w1"
    using ok_plain(2) [OF assms(1,2) _ _ _ r [unfolded tls_ssl_set_host_def]] use by simp
  obtain q w2 where q: "tls_ssl_set_sni L (ts_ssl t) h w1 = (q, w2)" by fastforce
  have o2: "ssl_ok Live ?S w2"
    using ok_plain(2) [OF assms(1) o1 _ _ _ q [unfolded tls_ssl_set_sni_def]] use by simp
  obtain x1 where x1: "raise_and_close L st t w1 = Some x1" "opened_or_closed Live P (t, o') x1"
    by (rule or_close [OF assms(1) o1 assms(3,4)])
  obtain x2 where x2: "raise_and_close L st t w2 = Some x2" "opened_or_closed Live P (t, o') x2"
    by (rule or_close [OF assms(1) o2 assms(3,4)])
  have "opened_or_closed Live P (t, o') (Inr t, w')" if "ssl_ok Live ?S w'" for w'
    using that by (simp add: opened_or_closed_def)
  note kept = this [OF o1] this [OF o2]
  have "\<exists>x. client_set_host L st h sni t w = Some x \<and> opened_or_closed Live P (t, o') x"
    using x1 x2 kept by (cases x1; cases x2) (simp add: client_set_host_def r q)
  then show thesis using that by blast
qed

lemma session_ok_mono:
  assumes "session_ok st s" "sh_client st = None \<or> sh_client st' = sh_client st"
    "sh_server st = None \<or> sh_server st' = sh_server st"
  shows "session_ok st' s"
  using assms by (cases s) (auto simp: session_ok_def)

lemma force_client_ok:
  assumes "ssl_law Live der L" "prog_inv Live st ts w" "force_client_ctx L st w = (c, st', w')"
  shows "prog_inv Live st' ts w'" "sh_client st' = Some c"
proof -
  have "prog_inv Live st' ts w' \<and> sh_client st' = Some c"
  proof (cases "sh_client st")
    case None
    obtain c1 w1 where n: "tls_client_ctx L True w = (c1, w1)" by fastforce
    have "ssl_ok Live (prog_res st ts + mset (non_null Ctx c1)) w1"
      using client_ctx_ok [OF assms(1) _ n] assms(2) by (simp add: prog_inv_def)
    moreover have "prog_res (st\<lparr>sh_client := Some c1\<rparr>) ts = prog_res st ts + mset (non_null Ctx c1)"
      using None by (simp add: prog_res_def shared_ctxs_def)
    ultimately show ?thesis
      using assms(2,3) None session_ok_mono [of st _ "st\<lparr>sh_client := Some c1\<rparr>"]
      by (auto simp: force_client_ctx_def n prog_inv_def)
  next
    case (Some d)
    then show ?thesis using assms(2,3) by (simp add: force_client_ctx_def)
  qed
  then show "prog_inv Live st' ts w'" "sh_client st' = Some c" by simp_all
qed

lemma force_server_ok:
  assumes "ssl_law Live der L" "prog_inv Live st ts w" "force_server_ctx L st w = (c, st', w')"
  shows "prog_inv Live st' ts w'" "sh_server st' = Some c"
proof -
  have "prog_inv Live st' ts w' \<and> sh_server st' = Some c"
  proof (cases "sh_server st")
    case None
    obtain c1 w1 where n: "tls_server_ctx L w = (c1, w1)" by fastforce
    have "ssl_ok Live (prog_res st ts + mset (non_null Ctx c1)) w1"
      using server_ctx_ok [OF assms(1) _ n] assms(2) by (simp add: prog_inv_def)
    moreover have "prog_res (st\<lparr>sh_server := Some c1\<rparr>) ts = prog_res st ts + mset (non_null Ctx c1)"
      using None by (simp add: prog_res_def shared_ctxs_def)
    ultimately show ?thesis
      using assms(2,3) None session_ok_mono [of st _ "st\<lparr>sh_server := Some c1\<rparr>"]
      by (auto simp: force_server_ctx_def n prog_inv_def)
  next
    case (Some d)
    then show ?thesis using assms(2,3) by (simp add: force_server_ctx_def)
  qed
  then show "prog_inv Live st' ts w'" "sh_server st' = Some c" by simp_all
qed

text \<open>A context of its own: held on top of the rest, or nothing is.\<close>

lemma custom_root_ok:
  assumes "ssl_law Live der L" "ssl_ok Live S w" "mset (shared_ctxs st) \<subseteq># S"
  obtains r w' where "client_with_custom_root L st root w = Some (r, w')"
    "case r of Inl _ \<Rightarrow> ssl_ok Live S w' | Inr c \<Rightarrow> ssl_ok Live (S + mset (non_null Ctx c)) w'"
proof -
  obtain c w1 where c: "tls_client_ctx L False w = (c, w1)" by fastforce
  have o1: "ssl_ok Live (S + mset (non_null Ctx c)) w1" by (rule client_ctx_ok [OF assms(1,2) c])
  show thesis
  proof (cases "c = 0")
    case True
    then show thesis using that [of "Inr c" w1] o1 c by (simp add: client_with_custom_root_def tls_ssl_ctx_is_null_def)
  next
    case False
    then have o1: "ssl_ok Live (S + {#Ctx c#}) w1" using o1 by (simp add: non_null_def)
    define added where "added = (case root of Inl e \<Rightarrow> Some (Some e, w1) | Inr ders \<Rightarrow> add_ssl_roots L c ders w1)"
    obtain r w2 where r: "added = Some (r, w2)" "ssl_ok Live (S + {#Ctx c#}) w2"
    proof (cases root)
      case (Inl e)
      then show thesis using that [of "Some e" w1] o1 by (simp add: added_def)
    next
      case (Inr ders)
      obtain r w2 where "add_ssl_roots L c ders w1 = Some (r, w2)" "ssl_ok Live (S + {#Ctx c#}) w2"
        by (rule add_ssl_roots_ok [OF assms(1) o1, where ctx = c and ders = ders]) auto
      then show thesis using that Inr by (simp add: added_def)
    qed
    have "ssl_ok Live S (SSL_CTX_free L st c w2)" by (rule ctx_free_own [OF assms(1) r(2) assms(3) False])
    then show thesis
      using that [of "Inl (the r)" "SSL_CTX_free L st c w2"] that [of "Inr c" w2] r False c
      by (cases r) (simp_all add: client_with_custom_root_def tls_ssl_ctx_is_null_def non_null_def added_def)
  qed
qed

fun has_own_ctx :: "ssl_trust \<Rightarrow> bool" where
  "has_own_ctx (Trust_pem _) = True"
| "has_own_ctx _ = False"

definition after_open :: "(tls_ssl \<times> bool) list \<Rightarrow> bool \<Rightarrow> byte list + tls_ssl \<Rightarrow> (tls_ssl \<times> bool) list" where
  "after_open ts o' r = (case r of Inl _ \<Rightarrow> ts | Inr t \<Rightarrow> ts @ [(t, o')])"

lemma opened_inv:
  assumes "\<forall>s \<in> set ts. session_ok st s" "session_ok st (t, o')"
    "opened_or_closed Live (prog_res st ts) (t, o') (r, w)"
  shows "prog_inv Live st (after_open ts o' r) w"
  using assms by (cases r) (auto simp: opened_or_closed_def prog_inv_def after_open_def)

lemma client_connection_ok:
  assumes "ssl_law Live der L" "ssl_ok Live (prog_res st ts + (if o' then {#Ctx ctx#} else {#})) w"
    "\<forall>s \<in> set ts. session_ok st s" "ctx \<noteq> 0" "o' \<or> sh_client st = Some ctx"
  obtains r w' where "client_connection L m d trust host sni st ctx w = Some (r, st, w')"
    "prog_inv Live st (after_open ts o' r) w'"
proof -
  let ?P = "prog_res st ts" and ?C = "if o' then {#Ctx ctx#} else {#}"
  have held: "Ctx ctx \<in># ?P + ?C"
    using assms(4,5) by (auto simp: prog_res_def shared_ctxs_def non_null_def)
  obtain t w1 where t: "tls_from_pair L m d ctx True w = (t, w1)" by fastforce
  note f = from_pair_ok [OF assms(1,2) held t]
  have res: "session_res (t, o') = {#Ssl (ts_ssl t)#} + ?C" using f(2,4) by (simp add: session_res_def)
  have o1: "ssl_ok Live (?P + session_res (t, o')) w1" using f(1) by (simp only: res union_ac)
  have s_ok: "session_ok st (t, o')" using f(2) assms(4,5) by (auto simp: session_ok_def)
  define w2 where "w2 = (if trust = Trust_none then tls_ssl_set_verify L (ts_ssl t) False w1 else w1)"
  have o2: "ssl_ok Live (?P + session_res (t, o')) w2"
    using o1 ok_plain(3) [OF assms(1) o1] session_uses [OF f(4), of ?P o']
    by (simp add: w2_def tls_ssl_set_verify_def)
  have "\<exists>x. (case host of None \<Rightarrow> Some (Inr t, w2) | Some h \<Rightarrow> client_set_host L st h sni t w2) = Some x \<and>
      opened_or_closed Live ?P (t, o') x"
  proof (cases host)
    case None
    then show ?thesis using o2 by (simp add: opened_or_closed_def)
  next
    case (Some h)
    obtain x where "client_set_host L st h sni t w2 = Some x" "opened_or_closed Live ?P (t, o') x"
      by (rule client_set_host_ok [OF assms(1) o2 prog_res_parts s_ok f(4)])
    then show ?thesis using Some by auto
  qed
  then obtain r w3 where x: "(case host of None \<Rightarrow> Some (Inr t, w2) | Some h \<Rightarrow> client_set_host L st h sni t w2) = Some (r, w3)"
    "opened_or_closed Live ?P (t, o') (r, w3)"
    by auto
  have "client_connection L m d trust host sni st ctx w = Some (r, st, w3)"
    unfolding client_connection_def t Let_def prod.case w2_def [symmetric] x(1) by simp
  then show thesis using opened_inv [OF assms(3) s_ok x(2)] by (rule that)
qed

lemma client_open_ok:
  assumes "ssl_law Live der L" "prog_inv Live st ts w"
  obtains r st' w' where "client_open L m d trust host sni st w = Some (r, st', w')"
    "prog_inv Live st' (after_open ts (has_own_ctx trust) r) w'"
proof -
  have ok: "ssl_ok Live (prog_res st ts) w" "\<forall>s \<in> set ts. session_ok st s"
    using assms(2) by (simp_all add: prog_inv_def)
  note result = that
  have plain: thesis if "\<not> has_own_ctx trust"
  proof -
    obtain c st1 w1 where f: "force_client_ctx L st w = (c, st1, w1)"
      by (cases "force_client_ctx L st w") auto
    note fo = force_client_ok [OF assms f]
    have eq: "client_open L m d trust host sni st w =
        (if c = 0 then Some (Inl NO_CONTEXT, st1, w1) else client_connection L m d trust host sni st1 c w1)"
      using that by (cases trust) (simp_all add: client_open_def f tls_ssl_ctx_is_null_def client_connection_def)
    show thesis
    proof (cases "c = 0")
      case True
      then show thesis using result [of "Inl NO_CONTEXT" st1 w1] eq fo(1) by (simp add: after_open_def)
    next
      case False
      obtain r w2 where "client_connection L m d trust host sni st1 c w1 = Some (r, st1, w2)"
        "prog_inv Live st1 (after_open ts False r) w2"
        by (rule client_connection_ok [OF assms(1), of st1 ts False c w1 m d trust host sni])
          (use fo False in \<open>simp_all add: prog_inv_def\<close>)
      then show thesis using result [of r st1 w2] eq False that by simp
    qed
  qed
  show thesis
  proof (cases trust)
    case (Trust_pem root)
    obtain r w1 where c: "client_with_custom_root L st root w = Some (r, w1)"
      "case r of Inl _ \<Rightarrow> ssl_ok Live (prog_res st ts) w1 | Inr c \<Rightarrow> ssl_ok Live (prog_res st ts + mset (non_null Ctx c)) w1"
      by (rule custom_root_ok [OF assms(1) ok(1) prog_res_parts])
    show thesis
    proof (cases r)
      case (Inl msg)
      then show thesis
        using that [of "Inl msg" st w1] c ok(2) Trust_pem
        by (simp add: client_open_def after_open_def prog_inv_def)
    next
      case (Inr ctx)
      show thesis
      proof (cases "ctx = 0")
        case True
        then show thesis
          using that [of "Inl NO_CONTEXT" st w1] c Inr ok(2) Trust_pem
          by (simp add: client_open_def after_open_def prog_inv_def tls_ssl_ctx_is_null_def non_null_def)
      next
        case False
        then have "ssl_ok Live (prog_res st ts + (if True then {#Ctx ctx#} else {#})) w1"
          using c(2) Inr by (simp add: non_null_def)
        then obtain r2 w2 where "client_connection L m d trust host sni st ctx w1 = Some (r2, st, w2)"
          "prog_inv Live st (after_open ts True r2) w2"
          by (rule client_connection_ok [OF assms(1) _ ok(2) False disjI1 [OF TrueI]])
        then show thesis
          using that [of r2 st w2] c(1) Inr False Trust_pem
          by (simp add: client_open_def tls_ssl_ctx_is_null_def client_connection_def)
      qed
    qed
  qed (use plain in simp_all)
qed

lemma server_open_ok:
  assumes "ssl_law Live der L" "prog_inv Live st ts w"
  obtains r st' w' where "server_open L m d key kt cert ct st w = Some (r, st', w')"
    "prog_inv Live st' (after_open ts False r) w'"
proof -
  obtain c st1 w1 where f: "force_server_ctx L st w = (c, st1, w1)" by (cases "force_server_ctx L st w") auto
  note fo = force_server_ok [OF assms f]
  have ok: "ssl_ok Live (prog_res st1 ts) w1" "\<forall>s \<in> set ts. session_ok st1 s"
    using fo(1) by (simp_all add: prog_inv_def)
  let ?P = "prog_res st1 ts"
  show thesis
  proof (cases "c = 0")
    case True
    then show thesis
      using that [of "Inl NO_CONTEXT" st1 w1] fo(1) f by (simp add: server_open_def tls_ssl_ctx_is_null_def after_open_def)
  next
    case False
    have held: "Ctx c \<in># ?P" using fo(2) False by (simp add: prog_res_def shared_ctxs_def non_null_def)
    obtain t w2 where t: "tls_from_pair L m d c False w1 = (t, w2)" by fastforce
    note fp = from_pair_ok [OF assms(1) ok(1) held t]
    have s_ok: "session_ok st1 (t, False)" using fp fo(2) False by (simp add: session_ok_def)
    have o2: "ssl_ok Live (?P + session_res (t, False)) w2" using fp(1,4) by (simp add: session_res_def)
    note use = session_uses [OF fp(4), of ?P False]
    obtain r w3 where r: "tls_ssl_use_certificate_file L (ts_ssl t) cert ct w2 = (r, w3)" by fastforce
    have o3: "ssl_ok Live (?P + session_res (t, False)) w3"
      using ok_plain(2) [OF assms(1) o2 _ _ _ r [unfolded tls_ssl_use_certificate_file_def]] use by simp
    obtain q w4 where q: "tls_ssl_use_private_key_file L (ts_ssl t) key kt w3 = (q, w4)" by fastforce
    have o4: "ssl_ok Live (?P + session_res (t, False)) w4"
      using ok_plain(2) [OF assms(1) o3 _ _ _ q [unfolded tls_ssl_use_private_key_file_def]] use by simp
    obtain x3 where x3: "raise_and_close L st1 t w3 = Some x3" "opened_or_closed Live ?P (t, False) x3"
      by (rule or_close [OF assms(1) o3 prog_res_parts s_ok])
    obtain x4 where x4: "raise_and_close L st1 t w4 = Some x4" "opened_or_closed Live ?P (t, False) x4"
      by (rule or_close [OF assms(1) o4 prog_res_parts s_ok])
    have x5: "opened_or_closed Live ?P (t, False) (Inr t, w4)" using o4 by (simp add: opened_or_closed_def)
    define x where "x = (if r \<noteq> 1 then x3 else if q \<noteq> 1 then x4 else (Inr t, w4))"
    have x: "opened_or_closed Live ?P (t, False) (fst x, snd x)" using x3 x4 x5 by (simp add: x_def)
    have "server_open L m d key kt cert ct st w = Some (fst x, st1, snd x)"
      using False by (cases x3; cases x4)
        (simp add: server_open_def f tls_ssl_ctx_is_null_def t r q x3(1) x4(1) x_def)
    then show thesis using opened_inv [OF ok(2) s_ok x] by (rule that)
  qed
qed

section \<open>Certificates and channel bindings\<close>

lemma or_no_error_ok:
  assumes "ssl_law Live der L" "ssl_ok Live S w"
  obtains r w' where "or_no_error L q w = Some (r, w')" "ssl_ok Live S w'" "r = q \<or> (\<exists>msg. r = Inl msg)"
proof -
  obtain a w1 where aw: "ask L O_ERR_peek_error w = (a, w1)" by fastforce
  have o1: "ssl_ok Live S w1" using ok_plain(1) [OF assms _ _ _ aw] by simp
  obtain msg w2 where e: "err_get_error L w1 = Some (msg, w2)" "ssl_ok Live S w2"
    by (rule err_get_error_ok [OF assms(1) o1])
  show thesis
  proof (cases "r_ret a mod 2 ^ 64 = 0")
    case True
    then have "or_no_error L q w = Some (q, w1)" by (simp add: or_no_error_def tls_peek_error_code_def aw)
    then show thesis using o1 by (rule that) simp
  next
    case False
    then have "or_no_error L q w = Some (Inl msg, w2)"
      using e(1) by (simp add: or_no_error_def tls_peek_error_code_def aw)
    then show thesis using e(2) by (rule that) simp
  qed
qed

lemma x509_free_ok:
  assumes "ssl_law Live der L" "ssl_ok Live (S + {#X509 c#}) w" "c \<noteq> 0"
  shows "ssl_ok Live S (tls_free_peer_certificate L c w)"
  using ok_lose [OF assms(1,2), of "O_X509_free c"] assms(3)
  by (simp add: tls_free_peer_certificate_def non_null_def)

lemma get_certificate_ok:
  assumes "ssl_law Live der L" "ssl_ok Live S w" "Ssl s \<in># S" "tls_ssl_get_certificate L s c w = (x, w')"
  shows "ssl_ok Live (S + (if c then mset (non_null X509 x) else {#})) w'"
proof (cases c)
  case True
  obtain a w1 where aw: "ask L (O_SSL_get1_peer_certificate s) w = (a, w1)" by fastforce
  then show ?thesis
    using ok_ask(1) [OF aw assms(1,2)] assms(3,4) True by (auto simp: tls_ssl_get_certificate_def)
next
  case False
  obtain a w1 where aw: "ask L (O_SSL_get_certificate s) w = (a, w1)" by fastforce
  then show ?thesis
    using ok_plain(1) [OF assms(1,2) _ _ _ aw] assms(3,4) False by (auto simp: tls_ssl_get_certificate_def)
qed

text \<open>
  \<open>guard len > 0\<close> without an \<open>else\<close>: a certificate that cannot be encoded stops the program. That is
  the one panic there is.
\<close>

definition encode_fails :: "'k ssl_lib \<Rightarrow> bool" where
  "encode_fails L \<longleftrightarrow> (\<exists>c k. c \<noteq> 0 \<and> r_ret (fst (L (O_i2d_X509_AUX c False) k)) \<le> 0)"

lemma peer_certificate_ok:
  assumes "ssl_law Live der L" "ssl_ok Live S w" "Ssl (ts_ssl t) \<in># S"
  shows "encode_fails L \<and> get_peer_certificate_ssl L t w = None \<or>
    (\<exists>r w'. get_peer_certificate_ssl L t w = Some (r, w') \<and> ssl_ok Live S w')"
proof (cases "ts_is_client t")
  case False
  then show ?thesis using assms(2) by (simp add: get_peer_certificate_ssl_def)
next
  case True
  obtain c w1 where c: "tls_ssl_get_certificate L (ts_ssl t) True w = (c, w1)" by fastforce
  have o1: "ssl_ok Live (S + mset (non_null X509 c)) w1"
    using get_certificate_ok [OF assms c] by simp
  show ?thesis
  proof (cases "c = 0")
    case True
    then have o1: "ssl_ok Live S w1" using o1 by (simp add: non_null_def)
    obtain r :: "byte list + byte list option" and w2 where r: "or_no_error L (Inr None) w1 = Some (r, w2)" "ssl_ok Live S w2"
      by (rule or_no_error_ok [OF assms(1) o1])
    then show ?thesis
      using True \<open>ts_is_client t\<close> by (simp add: get_peer_certificate_ssl_def c)
  next
    case False
    then have o1: "ssl_ok Live (S + {#X509 c#}) w1" using o1 by (simp add: non_null_def)
    obtain a w2 where aw: "ask L (O_i2d_X509_AUX c False) w1 = (a, w2)" by fastforce
    note la = lib_st_ask [OF aw]
    have o2: "ssl_ok Live (S + {#X509 c#}) w2"
      using ok_plain(1) [OF assms(1) o1 _ _ _ aw] by auto
    have "der_law der (O_i2d_X509_AUX c False) (lib_st w1) a (lib_st w2)"
      using assms(1) la by (metis fst_conv snd_conv ssl_law_def)
    then have a: "i32 (r_ret a) = r_ret a" "der (lib_st w2) c = der (lib_st w1) c"
        "0 < r_ret a \<longrightarrow> r_ret a = int (length (der (lib_st w1) c))"
      by (auto simp: der_law_def i32_id)
    obtain b w3 where bw: "ask L (O_i2d_X509_AUX c True) w2 = (b, w3)" by fastforce
    have o3: "ssl_ok Live (S + {#X509 c#}) w3"
      using ok_plain(1) [OF assms(1) o2 _ _ _ bw] by auto
    have "der_law der (O_i2d_X509_AUX c True) (lib_st w2) b (lib_st w3)"
      using assms(1) lib_st_ask [OF bw] by (metis fst_conv snd_conv ssl_law_def)
    then have b: "length (r_bytes b) \<le> length (der (lib_st w1) c)" using a(2) by (simp add: der_law_def)
    show ?thesis
    proof (cases "0 < r_ret a")
      case pos: True
      let ?buf = "replicate (nat (r_ret a)) 0"
      have "store_at ?buf 0 (r_bytes b) = Some (blit ?buf 0 (r_bytes b))"
        using a(3) b pos by (simp add: store_at_def poke_def)
      then have "get_peer_certificate_ssl L t w =
          Some (Inr (Some (blit ?buf 0 (r_bytes b))), tls_free_peer_certificate L c w3)"
        using False \<open>ts_is_client t\<close> a(1) pos
        by (simp add: get_peer_certificate_ssl_def c tls_peer_certificate_length_def ask_int_def aw
            tls_peer_certificate_blit_to_def bw)
      then show ?thesis using x509_free_ok [OF assms(1) o3 False] by blast
    next
      case neg: False
      then have "encode_fails L" using la False unfolding encode_fails_def by (metis fst_conv linorder_not_le)
      moreover have "get_peer_certificate_ssl L t w = None"
        using False \<open>ts_is_client t\<close> a(1) neg
        by (simp add: get_peer_certificate_ssl_def c tls_peer_certificate_length_def ask_int_def aw)
      ultimately show ?thesis by blast
    qed
  qed
qed

lemma unique_binding_ok:
  assumes "ssl_law Live der L" "ssl_ok Live S w" "Ssl (ts_ssl t) \<in># S"
  obtains r w' where "unique_channel_binding_ssl L m t w = Some (r, w')" "ssl_ok Live S w'"
proof -
  define call where "call n = (if ts_is_client t then O_SSL_get_finished (ts_ssl t) n
      else O_SSL_get_peer_finished (ts_ssl t) n)" for n
  have p: "set (ssl_uses (call n)) \<subseteq> set_mset S" "ssl_loses (call n) = []" "ssl_gains (call n) a = []"
    "ssl_answer_law (call n) a \<Longrightarrow> length (r_bytes a) \<le> nat n" for n a
    using assms(3) by (simp_all add: call_def split: if_splits)
  obtain a w1 where aw: "ask L (call 0) w = (a, w1)" by fastforce
  have o1: "ssl_ok Live S w1" using ok_plain(1) [OF assms(1,2) p(1-3) aw] by simp
  let ?n = "i32 (r_ret a)"
  obtain b w2 where bw: "ask L (call ?n) w1 = (b, w2)" by fastforce
  have o2: "ssl_ok Live S w2" "length (r_bytes b) \<le> nat ?n"
    using ok_plain(1) [OF assms(1) o1 p(1-3) bw] p(4) by auto
  have st: "store_at (replicate (nat ?n) 0) 0 (r_bytes b) = Some (blit (replicate (nat ?n) 0) 0 (r_bytes b))"
    using o2(2) by (simp add: store_at_def poke_def)
  obtain r :: "byte list + byte list" and w3 where
    e: "or_no_error L (Inl m) w1 = Some (r, w3)" "ssl_ok Live S w3"
    by (rule or_no_error_ok [OF assms(1) o1])
  have "unique_channel_binding_ssl L m t w =
      (if ?n \<le> 0 then or_no_error L (Inl m) w1 else Some (Inr (blit (replicate (nat ?n) 0) 0 (r_bytes b)), w2))"
    using aw bw st
    by (simp add: unique_channel_binding_ssl_def tls_ssl_unique_channel_binding_length_def ask_int_def
        tls_ssl_unique_channel_binding_def call_def Let_def split: if_splits prod.splits)
  then show thesis
    using that [of r w3] that [of "Inr (blit (replicate (nat ?n) 0) 0 (r_bytes b))" w2] e o2(1)
    by (cases "?n \<le> 0") simp_all
qed

text \<open>
  The digest of the certificate, and which one: SHA-256 where the certificate is signed
  with MD5 or SHA-1, else the digest of its signature.
\<close>

lemma endpoint_hash_ok:
  assumes "ssl_law Live der L" "ssl_ok Live S w" "length buf = MAX_DIGEST_LEN"
  obtains h buf' w' where "hash_server_endpoint_certificate L c buf w = Some (h, buf', w')" "ssl_ok Live S w'"
    "length buf' = MAX_DIGEST_LEN"
    "\<forall>bytes n. h = Some (bytes, n) \<longrightarrow> bytes = buf' \<and> 0 \<le> n \<and> n \<le> int MAX_DIGEST_LEN"
proof -
  obtain s w1 where sw: "ask L (O_X509_get_signature_nid c) w = (s, w1)" by fastforce
  have o1: "ssl_ok Live S w1" using ok_plain(1) [OF assms(1,2) _ _ _ sw] by simp
  obtain f w2 where fw: "ask L (O_OBJ_find_sigid_algs (i32 (r_ret s))) w1 = (f, w2)" by fastforce
  have o2: "ssl_ok Live S w2" using ok_plain(1) [OF assms(1) o1 _ _ _ fw] by simp
  obtain n w3 where nw: "ask L (O_OBJ_nid2sn (r_num f)) w2 = (n, w3)" by fastforce
  have o3: "ssl_ok Live S w3" using ok_plain(1) [OF assms(1) o2 _ _ _ nw] by simp
  define name where "name = map (\<lambda>b. char_of (unat b) :: char) (r_bytes n)"
  define dcall where "dcall = (if name = ''MD5'' \<or> name = ''SHA1'' then O_EVP_sha256 else O_EVP_get_digestbyname name)"
  obtain d w4 where dw: "ask L dcall w3 = (d, w4)" by fastforce
  have o4: "ssl_ok Live S w4"
    using ok_plain(1) [OF assms(1) o3 _ _ _ dw] by (simp add: dcall_def)
  obtain h w5 where hw: "ask L (O_X509_digest c (r_ret d)) w4 = (h, w5)" by fastforce
  have o5: "ssl_ok Live S w5" and h: "length (r_bytes h) \<le> MAX_DIGEST_LEN" "0 \<le> r_num h" "r_num h \<le> int MAX_DIGEST_LEN"
    using ok_plain(1) [OF assms(1) o4 _ _ _ hw] by simp_all
  let ?buf = "blit buf 0 (r_bytes h)"
  have st: "store_at buf 0 (r_bytes h) = Some ?buf" "length ?buf = MAX_DIGEST_LEN"
    using h(1) assms(3) by (simp_all add: store_at_def poke_def)
  have eq: "hash_server_endpoint_certificate L c buf w =
      (if i32 (r_ret f) = 0 then Some (None, buf, w2) else if r_ret n = 0 then Some (None, buf, w3)
       else if r_ret d = 0 then Some (None, buf, w4)
       else Some (if i32 (r_ret h) = 0 then None else Some (?buf, r_num h), ?buf, w5))"
    by (simp add: hash_server_endpoint_certificate_def sw fw nw Let_def name_def [symmetric] dcall_def [symmetric]
        dw hw st(1))
  consider "i32 (r_ret f) = 0" | "i32 (r_ret f) \<noteq> 0" "r_ret n = 0" | "i32 (r_ret f) \<noteq> 0" "r_ret n \<noteq> 0" "r_ret d = 0"
    | "i32 (r_ret f) \<noteq> 0" "r_ret n \<noteq> 0" "r_ret d \<noteq> 0" by blast
  then show thesis
  proof cases
    case 1
    then show thesis using that [of None buf w2] eq o2 assms(3) by simp
  next
    case 2
    then show thesis using that [of None buf w3] eq o3 assms(3) by simp
  next
    case 3
    then show thesis using that [of None buf w4] eq o4 assms(3) by simp
  next
    case 4
    then show thesis
      using that [of "if i32 (r_ret h) = 0 then None else Some (?buf, r_num h)" ?buf w5] eq o5 st(2) h
      by (simp split: if_splits)
  qed
qed

lemma endpoint_binding_ok:
  assumes "ssl_law Live der L" "ssl_ok Live S w" "Ssl (ts_ssl t) \<in># S" "length buf = MAX_DIGEST_LEN"
  obtains r buf' w' where "server_endpoint_channel_binding_ssl L m buf t w = Some (r, buf', w')"
    "ssl_ok Live S w'" "length buf' = MAX_DIGEST_LEN"
proof -
  obtain c w1 where c: "tls_ssl_get_certificate L (ts_ssl t) (ts_is_client t) w = (c, w1)" by fastforce
  let ?S = "S + (if ts_is_client t then mset (non_null X509 c) else {#})"
  have o1: "ssl_ok Live ?S w1" by (rule get_certificate_ok [OF assms(1-3) c])
  show thesis
  proof (cases "c = 0")
    case True
    then have o1: "ssl_ok Live S w1" using o1 by (simp add: non_null_def split: if_splits)
    obtain r :: "byte list + byte list" and w2 where
      "or_no_error L (Inl m) w1 = Some (r, w2)" "ssl_ok Live S w2"
      by (rule or_no_error_ok [OF assms(1) o1])
    then show thesis
      using that [of r buf w2] True assms(4) by (simp add: server_endpoint_channel_binding_ssl_def c)
  next
    case False
    obtain h buf' w2 where h: "hash_server_endpoint_certificate L c buf w1 = Some (h, buf', w2)"
      "ssl_ok Live ?S w2" "length buf' = MAX_DIGEST_LEN"
      "\<forall>bytes n. h = Some (bytes, n) \<longrightarrow> bytes = buf' \<and> 0 \<le> n \<and> n \<le> int MAX_DIGEST_LEN"
      by (rule endpoint_hash_ok [OF assms(1) o1 assms(4), of c])
    have free: "ssl_ok Live S (if ts_is_client t then tls_free_peer_certificate L c w else w)"
      if "ssl_ok Live ?S w" for w
      using that x509_free_ok [OF assms(1) _ False, of S w] False by (auto simp: non_null_def)
    show thesis
    proof (cases h)
      case None
      obtain msg w3 where "err_get_error L w2 = Some (msg, w3)" "ssl_ok Live ?S w3"
        by (rule err_get_error_ok [OF assms(1) h(2)])
      then show thesis
        using that [OF _ free h(3)] False h(1) None by (simp add: server_endpoint_channel_binding_ssl_def c)
    next
      case (Some x)
      obtain bytes n where x: "x = (bytes, n)" by (cases x)
      then have "span bytes 0 n = Some (slice bytes 0 (nat n))"
        using h(3,4) Some by (auto simp: span_def rd_def)
      then show thesis
        using that [OF _ free [OF h(2)] h(3)] False h(1) Some x
        by (simp add: server_endpoint_channel_binding_ssl_def c)
    qed
  qed
qed

section \<open>Programs\<close>

text \<open>What a program asks of a connection that is not closed, and a call of OpenSSL that calls back.\<close>

datatype tls_query = Q_certificate | Q_unique "byte list" | Q_endpoint "byte list" "byte list" | Q_error int

fun run_query :: "'k ssl_lib \<Rightarrow> tls_query \<Rightarrow> tls_ssl \<Rightarrow> 'k ssl_world \<Rightarrow> 'k ssl_world option" where
  "run_query L Q_certificate t w = map_option snd (get_peer_certificate_ssl L t w)"
| "run_query L (Q_unique m) t w = map_option snd (unique_channel_binding_ssl L m t w)"
| "run_query L (Q_endpoint m buf) t w = map_option (snd \<circ> snd) (server_endpoint_channel_binding_ssl L m buf t w)"
| "run_query L (Q_error r) t w = Some (snd (tls_ssl_get_error L (ts_ssl t) r w))"

definition query_fits :: "tls_query \<Rightarrow> bool" where
  "query_fits q = (case q of Q_endpoint _ buf \<Rightarrow> length buf = MAX_DIGEST_LEN | _ \<Rightarrow> True)"

definition io_calls :: "int \<Rightarrow> ssl_call set" where
  "io_calls s = {O_SSL_connect s, O_SSL_accept s, O_SSL_shutdown s} \<union> range (O_SSL_read s) \<union> range (O_SSL_write s)"

inductive ssl_reach ::
  "'k ssl_lib \<Rightarrow> 'k ssl_engine \<Rightarrow> 'c bio_methods \<Rightarrow> ssl_shared \<Rightarrow> (tls_ssl \<times> bool) list \<Rightarrow> 'k ssl_world \<Rightarrow> bool"
  for L E M where
  ssl_start: "trace w = [] \<Longrightarrow> ssl_reach L E M \<lparr>sh_client = None, sh_server = None\<rparr> [] w"
| ssl_client: "ssl_reach L E M st ts w \<Longrightarrow> client_open L m d trust host sni st w = Some (r, st', w') \<Longrightarrow>
    ssl_reach L E M st' (after_open ts (has_own_ctx trust) r) w'"
| ssl_server: "ssl_reach L E M st ts w \<Longrightarrow> server_open L m d key kt cert ct st w = Some (r, st', w') \<Longrightarrow>
    ssl_reach L E M st' (after_open ts False r) w'"
| ssl_io: "ssl_reach L E M st ts w \<Longrightarrow> i < length ts \<Longrightarrow> \<not> ts_closed (fst (ts ! i)) \<Longrightarrow>
    call \<in> io_calls (ts_ssl (fst (ts ! i))) \<Longrightarrow> ask_io E M call w c = Some (a, w', c') \<Longrightarrow> ssl_reach L E M st ts w'"
| ssl_query: "ssl_reach L E M st ts w \<Longrightarrow> i < length ts \<Longrightarrow> \<not> ts_closed (fst (ts ! i)) \<Longrightarrow> query_fits q \<Longrightarrow>
    run_query L q (fst (ts ! i)) w = Some w' \<Longrightarrow> ssl_reach L E M st ts w'"
| ssl_close: "ssl_reach L E M st ts w \<Longrightarrow> i < length ts \<Longrightarrow> tls_ssl_close L st (fst (ts ! i)) w = (t', w') \<Longrightarrow>
    ssl_reach L E M st (ts[i := (t', snd (ts ! i))]) w'"

lemma open_ssl_held:
  assumes "i < length ts" "\<not> ts_closed (fst (ts ! i))"
  shows "Ssl (ts_ssl (fst (ts ! i))) \<in># prog_res st ts"
proof -
  have "prog_res st ts = prog_res st (ts[i := (fst (ts ! i)\<lparr>ts_closed := True\<rparr>, True)]) + session_res (ts ! i)"
    using prog_res_at [OF assms(1), of st "(fst (ts ! i)\<lparr>ts_closed := True\<rparr>, True)"]
    by (simp add: session_res_def)
  then show ?thesis using session_uses [OF assms(2), of _ "snd (ts ! i)"] by simp
qed

lemma run_query_ok:
  assumes "ssl_law Live der L" "ssl_ok Live S w" "Ssl (ts_ssl t) \<in># S" "query_fits q"
  shows "q = Q_certificate \<and> encode_fails L \<and> run_query L q t w = None \<or>
    (\<exists>w'. run_query L q t w = Some w' \<and> ssl_ok Live S w')"
proof (cases q)
  case Q_certificate
  then show ?thesis using peer_certificate_ok [OF assms(1-3)] by auto
next
  case (Q_unique m)
  obtain r w' where "unique_channel_binding_ssl L m t w = Some (r, w')" "ssl_ok Live S w'"
    by (rule unique_binding_ok [OF assms(1-3)])
  then show ?thesis using Q_unique by simp
next
  case (Q_endpoint m buf)
  then have "length buf = MAX_DIGEST_LEN" using assms(4) by (simp add: query_fits_def)
  then obtain r buf' w' where "server_endpoint_channel_binding_ssl L m buf t w = Some (r, buf', w')" "ssl_ok Live S w'"
    by (rule endpoint_binding_ok [OF assms(1-3)])
  then show ?thesis using Q_endpoint by simp
next
  case (Q_error r)
  obtain x w' where e: "tls_ssl_get_error L (ts_ssl t) r w = (x, w')" by fastforce
  have "ssl_ok Live S w'"
    using ok_plain(2) [OF assms(1,2) _ _ _ e [unfolded tls_ssl_get_error_def]] assms(3) by simp
  then show ?thesis using Q_error e by simp
qed

lemma io_ok:
  assumes "engine_keeps Live E" "ssl_ok Live S w" "Ssl s \<in># S" "call \<in> io_calls s"
    "ask_io E M call w c = Some (a, w', c')"
  shows "ssl_ok Live S w'"
proof -
  obtain k where r: "run_io M (E call (lib_st w)) c = Some (a, k, c')"
    "w' = w\<lparr>lib_st := k, trace := trace w @ [(call, a)]\<rparr>"
    using assms(5) by (auto simp: ask_io_def)
  have "Live (lib_st w) \<subseteq> Live k"
    using run_io_ends [OF r(1)] assms(1) by (auto simp: engine_keeps_def)
  moreover have p: "ssl_uses call = [Ssl s]" "ssl_loses call = []" "ssl_gains call a = []"
    using assms(4) by (auto simp: io_calls_def)
  ultimately show ?thesis
    using assms(2,3) r(2) by (auto simp: ssl_ok_def ssl_held_def own_snoc p)
qed

lemma ssl_reach_inv:
  assumes "ssl_law Live der L" "engine_keeps Live E"
  shows "ssl_reach L E M st ts w \<Longrightarrow> prog_inv Live st ts w"
proof (induction rule: ssl_reach.induct)
  case (ssl_start w)
  then show ?case
    by (simp add: prog_inv_def prog_res_def shared_ctxs_def ssl_ok_def ssl_held_def)
next
  case (ssl_client st ts w m d trust host sni r st' w')
  then show ?case using client_open_ok [OF assms(1) ssl_client.IH] by (metis option.inject prod.inject)
next
  case (ssl_server st ts w m d key kt cert ct r st' w')
  then show ?case using server_open_ok [OF assms(1) ssl_server.IH] by (metis option.inject prod.inject)
next
  case (ssl_io st ts w i call c a w' c')
  then show ?case
    using io_ok [OF assms(2) _ open_ssl_held [OF ssl_io.hyps(2,3)]] by (auto simp: prog_inv_def)
next
  case (ssl_query st ts w i q w')
  have "ssl_ok Live (prog_res st ts) w" using ssl_query.IH by (simp add: prog_inv_def)
  from run_query_ok [OF assms(1) this open_ssl_held [OF ssl_query.hyps(2,3)] ssl_query.hyps(4)]
  have "ssl_ok Live (prog_res st ts) w'" using ssl_query.hyps(5) by auto
  then show ?case using ssl_query by (simp add: prog_inv_def)
next
  case (ssl_close st ts w i t' w')
  have pair: "(fst (ts ! i), snd (ts ! i)) = ts ! i" by simp
  let ?t = "fst (ts ! i)" and ?ts = "ts[i := (t', snd (ts ! i))]"
  have t: "t' = ?t\<lparr>ts_closed := True\<rparr>"
    using ssl_close.hyps(3) by (auto simp: tls_ssl_close_def Let_def split: if_splits)
  have res: "prog_res st ts = prog_res st ?ts + session_res (?t, snd (ts ! i))"
    using prog_res_at [OF ssl_close.hyps(2), of st "(t', snd (ts ! i))"] by (simp add: session_res_def t)
  have s: "session_ok st (?t, snd (ts ! i))"
    using ssl_close.IH nth_mem [OF ssl_close.hyps(2)] by (simp only: pair prog_inv_def)
  have "ssl_ok Live (prog_res st ?ts) w'"
    using close_ok(1) [OF assms(1) _ prog_res_parts s ssl_close.hyps(3)] ssl_close.IH res
    by (simp add: prog_inv_def)
  moreover have "session_ok st (t', snd (ts ! i))" using s by (cases "ts ! i") (simp add: session_ok_def t)
  ultimately show ?case
    using ssl_close.IH set_update_subset_insert [of ts i "(t', snd (ts ! i))"] by (auto simp: prog_inv_def)
qed

text \<open>
  What goes wrong when a new \<open>SSL\<close> is refused: nothing tests for it, the connection has the null
  pointer, and the two \<open>BIO\<close>s, which no \<open>SSL\<close> took over, are lost.
\<close>

lemma null_connection:
  assumes "\<And>k. r_ret (fst (L (O_SSL_new ctx) k)) = 0" "tls_from_pair L m d ctx c w = (t, w')"
  shows "ts_ssl t = 0" "refused (trace w')"
    "\<exists>rbio wbio w2. fst (tls_create_bio L m d w) = rbio \<and> tls_create_bio L m d (snd (tls_create_bio L m d w)) = (wbio, w2) \<and>
       map fst (trace w') = map fst (trace w2) @ [O_SSL_new ctx]"
proof -
  obtain rb w1 where r: "tls_create_bio L m d w = (rb, w1)" by fastforce
  obtain wb w2 where wr: "tls_create_bio L m d w1 = (wb, w2)" by fastforce
  obtain a w3 where aw: "ask L (O_SSL_new ctx) w2 = (a, w3)" by fastforce
  have a: "r_ret a = 0" using assms(1) [of "lib_st w2"] lib_st_ask [OF aw] by simp
  then have t: "ts_ssl t = 0" "w' = w3"
    using assms(2) by (auto simp: tls_from_pair_def r wr tls_ssl_new_def aw)
  then show "ts_ssl t = 0" "refused (trace w')" using refused_ask [OF aw] a by simp_all
  show "\<exists>rbio wbio w2. fst (tls_create_bio L m d w) = rbio \<and> tls_create_bio L m d (snd (tls_create_bio L m d w)) = (wbio, w2) \<and>
       map fst (trace w') = map fst (trace w2) @ [O_SSL_new ctx]"
    using r wr t(2) trace_ask [of L "O_SSL_new ctx" w2] aw by simp
qed


text \<open>A library that numbers its contexts, and a program that opens a client with a custom root.\<close>

definition demo_ssl :: "int ssl_lib" where
  "demo_ssl c k =
     (case c of
        O_SSL_CTX_new _ \<Rightarrow> (no_answer\<lparr>r_ret := k + 1\<rparr>, k + 1)
      | O_SSL_new _ \<Rightarrow> (no_answer\<lparr>r_ret := 500\<rparr>, k)
      | O_BIO_new _ \<Rightarrow> (no_answer\<lparr>r_ret := 600\<rparr>, k)
      | O_SSL_get1_peer_certificate _ \<Rightarrow> (no_answer\<lparr>r_ret := 700\<rparr>, k)
      | O_i2d_X509_AUX _ out \<Rightarrow> (no_answer\<lparr>r_ret := 2, r_bytes := (if out then [48, 0] else [])\<rparr>, k)
      | _ \<Rightarrow> (no_answer\<lparr>r_ret := 1\<rparr>, k))"

definition demo_engine :: "int ssl_engine" where "demo_engine c k = Io_return no_answer k"

definition demo_bio :: "unit bio_methods" where
  "demo_bio = \<lparr>bio_on_read = (\<lambda>_ _. None), bio_on_write = (\<lambda>_ _. None)\<rparr>"

lemma demo_ssl_law: "ssl_law (\<lambda>k. {x. x \<le> k}) (\<lambda>_ _. [48, 0]) demo_ssl"
proof -
  have "ssl_answer_law c (fst (demo_ssl c k)) \<and>
      live_law (\<lambda>k. {x. x \<le> k}) c k (fst (demo_ssl c k)) (snd (demo_ssl c k)) \<and>
      der_law (\<lambda>_ _. [48, 0]) c k (fst (demo_ssl c k)) (snd (demo_ssl c k))" for c k
    by (cases c) (simp_all add: demo_ssl_def no_answer_def live_law_def der_law_def MAX_DIGEST_LEN_def)
  then show ?thesis by (simp add: ssl_law_def)
qed


end
