(* ===== verification/Openssl_Transport.thy ===== *)
theory Openssl_Transport
  imports Openssl
begin

text \<open>
  The connection side of \<open>tls/openssl.mbt\<close>: the two functions OpenSSL calls back
  (\<open>BIO::read\<close>, \<open>BIO::write\<close>), \<open>handle_error\<close> and the loops of the handshake, \<open>_direct_read\<close>,
  \<open>write_once\<close> and \<open>shutdown\<close>, one iteration at a step. The theorem says what a session
  does to the byte streams between the peer and OpenSSL and between OpenSSL and the caller.
  The last section shows two states in which the code misbehaves.
\<close>

section \<open>Callbacks\<close>

definition BIO_FLAGS_READ :: int where "BIO_FLAGS_READ = 1"
definition BIO_FLAGS_WRITE :: int where "BIO_FLAGS_WRITE = 2"
definition BIO_FLAGS_SHOULD_RETRY :: int where "BIO_FLAGS_SHOULD_RETRY = 8"

definition outcome :: "int \<Rightarrow> byte list \<Rightarrow> bio_outcome" where
  "outcome r bs = \<lparr>bo_ret = r, bo_bytes = bs, bo_flags = None\<rparr>"

definition BIO_read :: "int \<Rightarrow> 'r transport \<Rightarrow> (bio_outcome \<times> 'r transport) option" where
  "BIO_read len ep =
     (case tp_state ep of
        Tp_closed \<Rightarrow> Some (outcome 0 [], ep)
      | Tp_error _ \<Rightarrow> Some (outcome (-1) [], ep)
      | Tp_normal \<Rightarrow>
          let read_buf = tp_read ep
          in if ib_len read_buf \<le> 0
             then Some (tls_bio_set_flags (BIO_FLAGS_READ OR BIO_FLAGS_SHOULD_RETRY) (outcome (-1) []), ep)
             else let len = min (ib_len read_buf) len
             in case (span (ib_buf read_buf) (ib_start read_buf) len, ib_drop read_buf len) of
                  (Some bs, Some read_buf) \<Rightarrow> Some (outcome len bs, ep\<lparr>tp_read := read_buf\<rparr>)
                | _ \<Rightarrow> None)"

definition BIO_write :: "byte list \<Rightarrow> 'r transport \<Rightarrow> (bio_outcome \<times> 'r transport) option" where
  "BIO_write src ep =
     (if tp_state ep \<noteq> Tp_normal then Some (outcome (-1) [], ep)
      else let wb = tp_write ep;
               end_pos = ib_start wb + ib_len wb;
               remaining = ib_capacity wb - end_pos
      in if remaining \<le> 0
         then Some (tls_bio_set_flags (BIO_FLAGS_WRITE OR BIO_FLAGS_SHOULD_RETRY) (outcome (-1) []), ep)
         else let len = min (int (length src)) remaining
         in map_option (\<lambda>buf. (outcome len [], ep\<lparr>tp_write := wb\<lparr>ib_buf := buf, ib_len := ib_len wb + len\<rparr>\<rparr>))
              (store_at (ib_buf wb) end_pos (take (nat len) src)))"

text \<open>The transport, with a record of what OpenSSL read from it and wrote to it.\<close>

record 'r ssl_pipe =
  sp_tp :: "'r transport"
  sp_fed :: "byte list"
  sp_made :: "byte list"

definition bio_callbacks :: "'r ssl_pipe bio_methods" where
  "bio_callbacks =
     \<lparr>bio_on_read = (\<lambda>n c. map_option (\<lambda>(r, tp). (r, c\<lparr>sp_tp := tp, sp_fed := sp_fed c @ bo_bytes r\<rparr>))
                       (BIO_read n (sp_tp c))),
      bio_on_write = (\<lambda>bs c. map_option (\<lambda>(r, tp). (r, c\<lparr>sp_tp := tp,
                         sp_made := sp_made c @ take (nat (bo_ret r)) bs\<rparr>)) (BIO_write bs (sp_tp c)))\<rparr>"

section \<open>Errors\<close>

definition SSL_ERROR_SSL :: int where "SSL_ERROR_SSL = 1"
definition SSL_ERROR_WANT_READ :: int where "SSL_ERROR_WANT_READ = 2"
definition SSL_ERROR_WANT_WRITE :: int where "SSL_ERROR_WANT_WRITE = 3"
definition SSL_ERROR_SYSCALL :: int where "SSL_ERROR_SYSCALL = 5"
definition SSL_ERROR_ZERO_RETURN :: int where "SSL_ERROR_ZERO_RETURN = 6"

datatype ssl_error = Transport_error tls_error | Tls_message "byte list"

text \<open>\<open>Inl\<close> is raised; \<open>Inr\<close>: the loop goes on. An unexpected code aborts.\<close>

definition handle_error ::
  "'k ssl_lib \<Rightarrow> 'r peer \<Rightarrow> int \<Rightarrow> 'k ssl_world \<Rightarrow> 'r transport \<Rightarrow>
     ((ssl_error + unit) \<times> 'k ssl_world \<times> 'r transport) option" where
  "handle_error L P e w tp =
     (if e = SSL_ERROR_WANT_READ
      then (case flush_write P tp of
              None \<Rightarrow> None
            | Some (Inl x, tp) \<Rightarrow> Some (Inl (Transport_error x), w, tp)
            | Some (Inr _, tp) \<Rightarrow>
                map_option (\<lambda>(r, tp). (case r of Inl x \<Rightarrow> Inl (Transport_error x) | Inr _ \<Rightarrow> Inr (), w, tp))
                  (read_more P tp))
      else if e = SSL_ERROR_WANT_WRITE
      then (case flush_write P tp of
              None \<Rightarrow> None
            | Some (Inl x, tp) \<Rightarrow> Some (Inl (Transport_error x), w, tp)
            | Some (Inr _, tp) \<Rightarrow>
                map_option (\<lambda>wb. (Inr (), w, tp\<lparr>tp_write := wb\<rparr>)) (ib_enlarge_to (tp_write tp) 1))
      else if e = SSL_ERROR_SSL \<or> e = SSL_ERROR_SYSCALL
      then map_option (\<lambda>(msg, w). (Inl (Tls_message msg), w, tp)) (err_get_error L w)
      else if e = SSL_ERROR_ZERO_RETURN then Some (Inl (Transport_error Connection_closed), w, tp)
      else None)"

section \<open>Sessions\<close>

text \<open>
  What runs: nothing, the handshake, a read into a buffer, a write of a buffer, the shutdown; or
  nothing, the last operation having raised. \<open>Ssl_failed\<close>: the handshake raised, the connection is
  closed and the caller never gets it. What the reads and writes moved is recorded in chunks, each with
  whether the caller was told (an operation whose last flush raises does not return its
  number); \<open>se_errors\<close> are the errors raised.
\<close>

datatype ssl_phase =
    Ssl_idle
  | Ssl_handshake
  | Ssl_reading "byte list" int int
  | Ssl_writing "byte list" int int
  | Ssl_shutting
  | Ssl_raised ssl_error
  | Ssl_failed ssl_error

record ('k, 'r) ssl_session =
  se_ssl :: int
  se_is_client :: bool
  se_world :: "'k ssl_world"
  se_pipe :: "'r ssl_pipe"
  se_shutdown :: bool
  se_phase :: ssl_phase
  se_delivered :: "(bool \<times> byte list) list"
  se_accepted :: "(bool \<times> byte list) list"
  se_errors :: "ssl_error list"

definition record_chunk :: "bool \<Rightarrow> byte list \<Rightarrow> (bool \<times> byte list) list" where
  "record_chunk told bs = (if bs = [] then [] else [(told, bs)])"

text \<open>An error is raised; out of the handshake after \<open>close\<close>, which closes the transport.\<close>

definition op_raise :: "ssl_error \<Rightarrow> ('k, 'r) ssl_session \<Rightarrow> ('k, 'r) ssl_session" where
  "op_raise x s =
     (let s = s\<lparr>se_errors := se_errors s @ [x]\<rparr>
      in if se_phase s = Ssl_handshake
         then s\<lparr>se_phase := Ssl_failed x, se_pipe := (se_pipe s)\<lparr>sp_tp := close_transport (sp_tp (se_pipe s))\<rparr>\<rparr>
         else s\<lparr>se_phase := Ssl_raised x\<rparr>)"

text \<open>
  The \<open>flush_write\<close> that ends an operation. \<open>got\<close>, \<open>gave\<close>: what it has read or written, which it
  then reports.
\<close>

definition op_finish ::
  "'r peer \<Rightarrow> byte list \<Rightarrow> byte list \<Rightarrow> ('k, 'r) ssl_session \<Rightarrow> ('k, 'r) ssl_session option" where
  "op_finish P got gave s =
     map_option (\<lambda>(r, tp).
         let told = (r = Inr ());
             s = s\<lparr>se_pipe := (se_pipe s)\<lparr>sp_tp := tp\<rparr>, se_delivered := se_delivered s @ record_chunk told got,
                   se_accepted := se_accepted s @ record_chunk told gave\<rparr>
         in case r of Inl e \<Rightarrow> op_raise (Transport_error e) s | Inr _ \<Rightarrow> s\<lparr>se_phase := Ssl_idle\<rparr>)
       (flush_write P (sp_tp (se_pipe s)))"

definition op_retry ::
  "'k ssl_lib \<Rightarrow> 'r peer \<Rightarrow> int \<Rightarrow> ('k, 'r) ssl_session \<Rightarrow> ('k, 'r) ssl_session option" where
  "op_retry L P e s =
     map_option (\<lambda>(r, w, tp).
         let s = s\<lparr>se_world := w, se_pipe := (se_pipe s)\<lparr>sp_tp := tp\<rparr>\<rparr>
         in case r of Inl x \<Rightarrow> op_raise x s | Inr _ \<Rightarrow> s)
       (handle_error L P e (se_world s) (sp_tp (se_pipe s)))"

definition after_call :: "('k, 'r) ssl_session \<Rightarrow> 'k ssl_world \<Rightarrow> 'r ssl_pipe \<Rightarrow> ('k, 'r) ssl_session" where
  "after_call s w c = s\<lparr>se_world := w, se_pipe := c\<rparr>"

text \<open>\<open>self.handle_error(self.ssl.get_error(ret))\<close>.\<close>

definition get_error_and_retry ::
  "'k ssl_lib \<Rightarrow> 'r peer \<Rightarrow> int \<Rightarrow> ('k, 'r) ssl_session \<Rightarrow> ('k, 'r) ssl_session option" where
  "get_error_and_retry L P ret' s =
     (let (e, w) = tls_ssl_get_error L (se_ssl s) ret' (se_world s) in op_retry L P e (s\<lparr>se_world := w\<rparr>))"

definition handshake_iter ::
  "'k ssl_lib \<Rightarrow> 'k ssl_engine \<Rightarrow> 'r peer \<Rightarrow> ('k, 'r) ssl_session \<Rightarrow> ('k, 'r) ssl_session option" where
  "handshake_iter L E P s =
     (case (if se_is_client s then tls_ssl_connect E bio_callbacks (se_ssl s) (se_world s) (se_pipe s)
            else tls_ssl_accept E bio_callbacks (se_ssl s) (se_world s) (se_pipe s)) of
        None \<Rightarrow> None
      | Some (ret', w, c) \<Rightarrow>
          if ret' \<le> 0 then get_error_and_retry L P ret' (after_call s w c)
          else op_finish P [] [] (after_call s w c))"

definition shutdown_iter ::
  "'k ssl_lib \<Rightarrow> 'k ssl_engine \<Rightarrow> 'r peer \<Rightarrow> ('k, 'r) ssl_session \<Rightarrow> ('k, 'r) ssl_session option" where
  "shutdown_iter L E P s =
     (case tls_ssl_shutdown E bio_callbacks (se_ssl s) (se_world s) (se_pipe s) of
        None \<Rightarrow> None
      | Some (ret', w, c) \<Rightarrow>
          if ret' < 0 then get_error_and_retry L P ret' (after_call s w c)
          else op_finish P [] [] (after_call s w c))"

text \<open>
  The beginning of \<open>Tls::shutdown\<close>. After a shutdown that a read started, that read returns zero
  bytes: its own flush then has nothing left to do.
\<close>

definition shutdown_begin :: "('k, 'r) ssl_session \<Rightarrow> ('k, 'r) ssl_session" where
  "shutdown_begin s =
     (if se_shutdown s then s\<lparr>se_phase := Ssl_idle\<rparr>
      else let s = s\<lparr>se_shutdown := True\<rparr>
      in case tp_state (sp_tp (se_pipe s)) of
           Tp_normal \<Rightarrow> s\<lparr>se_phase := Ssl_shutting\<rparr>
         | Tp_closed \<Rightarrow> op_raise (Transport_error Connection_closed) s
         | Tp_error e \<Rightarrow> op_raise (Transport_error (Io_error e)) s)"

definition ssl_read_iter ::
  "'k ssl_lib \<Rightarrow> 'k ssl_engine \<Rightarrow> 'r peer \<Rightarrow> byte list \<Rightarrow> int \<Rightarrow> int \<Rightarrow> ('k, 'r) ssl_session \<Rightarrow>
     ('k, 'r) ssl_session option" where
  "ssl_read_iter L E P buf offset max_len s =
     (case tls_ssl_read E bio_callbacks (se_ssl s) buf offset max_len (se_world s) (se_pipe s) of
        None \<Rightarrow> None
      | Some (ret', buf, w, c) \<Rightarrow>
          if ret' > 0
          then op_finish P (slice buf (nat offset) (nat ret')) [] (after_call s w c)
          else let (e, w) = tls_ssl_get_error L (se_ssl s) ret' w;
                   s = (after_call s w c)\<lparr>se_phase := Ssl_reading buf offset max_len\<rparr>
          in if e = SSL_ERROR_ZERO_RETURN
             then let s = shutdown_begin s in if se_phase s = Ssl_idle then op_finish P [] [] s else Some s
             else if tp_state (sp_tp c) = Tp_closed \<and> ib_len (tp_read (sp_tp c)) = 0
             then op_finish P [] [] s
             else op_retry L P e s)"

definition ssl_write_iter ::
  "'k ssl_lib \<Rightarrow> 'k ssl_engine \<Rightarrow> 'r peer \<Rightarrow> byte list \<Rightarrow> int \<Rightarrow> int \<Rightarrow> ('k, 'r) ssl_session \<Rightarrow>
     ('k, 'r) ssl_session option" where
  "ssl_write_iter L E P buf offset len s =
     (case tls_ssl_write E bio_callbacks (se_ssl s) buf offset len (se_world s) (se_pipe s) of
        None \<Rightarrow> None
      | Some (ret', w, c) \<Rightarrow>
          if ret' > 0
          then op_finish P [] (slice buf (nat offset) (nat ret')) (after_call s w c)
          else get_error_and_retry L P ret' (after_call s w c))"

text \<open>
  A request when nothing runs, also after an operation that raised; \<open>Sq_step\<close> is the next iteration of
  what runs. A shutdown that was begun before returns at once. One coroutine uses the
  connection, so no other request can come (\<open>None\<close>).
\<close>

datatype ssl_request = Sq_step | Sq_read "byte list" int int | Sq_write "byte list" int int | Sq_shutdown

definition quiet :: "ssl_phase \<Rightarrow> bool" where
  "quiet ph = (case ph of Ssl_idle \<Rightarrow> True | Ssl_raised _ \<Rightarrow> True | _ \<Rightarrow> False)"

definition ssl_step ::
  "'k ssl_lib \<Rightarrow> 'k ssl_engine \<Rightarrow> 'r peer \<Rightarrow> ssl_request \<Rightarrow> ('k, 'r) ssl_session \<Rightarrow> ('k, 'r) ssl_session option" where
  "ssl_step L E P rq s =
     (if quiet (se_phase s)
      then (case rq of
              Sq_read buf offset max_len \<Rightarrow> Some (s\<lparr>se_phase := Ssl_reading buf offset max_len\<rparr>)
            | Sq_write buf offset len \<Rightarrow> Some (s\<lparr>se_phase := Ssl_writing buf offset len\<rparr>)
            | Sq_shutdown \<Rightarrow> Some (if se_shutdown s then s else shutdown_begin s)
            | Sq_step \<Rightarrow> None)
      else case (se_phase s, rq) of
        (Ssl_handshake, Sq_step) \<Rightarrow> handshake_iter L E P s
      | (Ssl_shutting, Sq_step) \<Rightarrow> shutdown_iter L E P s
      | (Ssl_reading buf offset max_len, Sq_step) \<Rightarrow> ssl_read_iter L E P buf offset max_len s
      | (Ssl_writing buf offset len, Sq_step) \<Rightarrow> ssl_write_iter L E P buf offset len s
      | _ \<Rightarrow> None)"

text \<open>Which requests can come: a step of what runs, or a new operation when nothing does.\<close>

definition sq_possible :: "ssl_phase \<Rightarrow> ssl_request \<Rightarrow> bool" where
  "sq_possible ph rq \<longleftrightarrow> (if rq = Sq_step then \<not> quiet ph \<and> (\<forall>e. ph \<noteq> Ssl_failed e) else quiet ph)"

section \<open>What the streams are, and what is relied on\<close>

text \<open>
  The plaintext a call gave and took, by its answer. OpenSSL asks its \<open>BIO\<close> for a positive number of bytes
  and answers \<open>SSL_read\<close> and \<open>SSL_write\<close> with a number of bytes in range; the error
  codes after a call that failed (an answer that is not positive) are those of a connection without
  the optional callbacks; an error text fits its buffer.
\<close>

fun ssl_plain :: "ssl_call \<times> lib_answer \<Rightarrow> byte list" where
  "ssl_plain (O_SSL_read _ n, a) = take (nat (i32 (r_ret a))) (r_bytes a)"
| "ssl_plain _ = []"

fun ssl_payload :: "ssl_call \<times> lib_answer \<Rightarrow> byte list" where
  "ssl_payload (O_SSL_write _ bs, a) = take (nat (i32 (r_ret a))) bs"
| "ssl_payload _ = []"

definition along :: "(ssl_call \<times> lib_answer \<Rightarrow> byte list) \<Rightarrow> (ssl_call \<times> lib_answer) list \<Rightarrow> byte list" where
  "along f t = concat (map f t)"

lemma along_simps [simp]: "along f [] = []" "along f (t @ u) = along f t @ along f u" "along f (x # t) = f x @ along f t"
  by (simp_all add: along_def)

fun io_answer_law :: "ssl_call \<Rightarrow> lib_answer \<Rightarrow> bool" where
  "io_answer_law (O_SSL_read _ n) a =
     (i32 (r_ret a) \<le> int (length (r_bytes a)) \<and> length (r_bytes a) \<le> nat n)"
| "io_answer_law (O_SSL_write _ bs) a = (i32 (r_ret a) \<le> int (length bs))"
| "io_answer_law _ a = True"

primrec io_fits :: "ssl_call \<Rightarrow> 'k ssl_io \<Rightarrow> bool" where
  "io_fits c (Io_return a k) = io_answer_law c a"
| "io_fits c (Io_bio_read n f) = (0 < n \<and> (\<forall>r. io_fits c (f r)))"
| "io_fits c (Io_bio_write bs f) = (\<forall>r. io_fits c (f r))"

definition io_law :: "'k ssl_lib \<Rightarrow> 'k ssl_engine \<Rightarrow> bool" where
  "io_law L E \<longleftrightarrow>
     (\<forall>c k. io_fits c (E c k)) \<and>
     (\<forall>s r k. r \<le> 0 \<longrightarrow> i32 (r_ret (fst (L (O_SSL_get_error s r) k))) \<in>
        {SSL_ERROR_SSL, SSL_ERROR_WANT_READ, SSL_ERROR_WANT_WRITE, SSL_ERROR_SYSCALL, SSL_ERROR_ZERO_RETURN}) \<and>
     (\<forall>e k. length (r_bytes (fst (L (O_ERR_error_string e) k))) < 256)"

text \<open>
  What was received is what OpenSSL read followed by what waits in the read buffer; what OpenSSL wrote
  is what was sent followed by what waits in the write buffer. What waits to be written is sent
  when an operation ends. The plaintext is the chunks of the reads in order, and the payload those
  of the writes; each error leaves at most one chunk of which the caller was not told. (\<open>tp_sent\<close> is
  what the writes of the transport that succeeded sent: one that fails may have sent a part, and
  the next flush begins again.)
\<close>

definition pipe_streams :: "'r ssl_pipe \<Rightarrow> bool" where
  "pipe_streams c \<longleftrightarrow>
     (let tp = sp_tp c
      in ib_wf (tp_read tp) \<and> ib_wf (tp_write tp) \<and>
         tp_received tp = sp_fed c @ ib_contents (tp_read tp) \<and>
         tp_sent tp @ ib_contents (tp_write tp) = sp_made c)"

definition all_chunks :: "(bool \<times> byte list) list \<Rightarrow> byte list" where
  "all_chunks xs = concat (map snd xs)"

definition told_chunks :: "(bool \<times> byte list) list \<Rightarrow> byte list" where
  "told_chunks xs = concat (map snd (filter fst xs))"

definition untold :: "(bool \<times> byte list) list \<Rightarrow> nat" where
  "untold xs = length (filter (\<lambda>x. \<not> fst x) xs)"

lemma all_chunks_simps [simp]:
  "all_chunks [] = []" "all_chunks (xs @ ys) = all_chunks xs @ all_chunks ys" "all_chunks (record_chunk b bs) = bs"
  by (simp_all add: all_chunks_def record_chunk_def)

lemma untold_simps [simp]:
  "untold [] = 0" "untold (xs @ ys) = untold xs + untold ys"
  "untold (record_chunk b bs) = (if b \<or> bs = [] then 0 else 1)"
  by (simp_all add: untold_def record_chunk_def)

lemma all_told: "untold xs = 0 \<Longrightarrow> all_chunks xs = told_chunks xs"
  by (simp add: untold_def all_chunks_def told_chunks_def filter_empty_conv)

definition ssl_streams :: "('k, 'r) ssl_session \<Rightarrow> bool" where
  "ssl_streams s \<longleftrightarrow>
     pipe_streams (se_pipe s) \<and>
     (se_phase s = Ssl_idle \<longrightarrow> tp_sent (sp_tp (se_pipe s)) = sp_made (se_pipe s)) \<and>
     along ssl_plain (trace (se_world s)) = all_chunks (se_delivered s) \<and>
     along ssl_payload (trace (se_world s)) = all_chunks (se_accepted s) \<and>
     untold (se_delivered s) + untold (se_accepted s) \<le> length (se_errors s)"

section \<open>Callbacks keep the streams\<close>

lemma bio_read_ok:
  assumes "pipe_streams c" "0 < n"
  obtains r c' where "bio_on_read bio_callbacks n c = Some (r, c')" "pipe_streams c'"
proof -
  let ?tp = "sp_tp c" and ?rb = "tp_read (sp_tp c)"
  have wf: "ib_wf ?rb" using assms(1) by (simp add: pipe_streams_def Let_def)
  show thesis
  proof (cases "tp_state ?tp = Tp_normal \<and> 0 < ib_len ?rb")
    case False
    then have "\<exists>r. BIO_read n ?tp = Some (r, ?tp) \<and> bo_bytes r = []"
      by (cases "tp_state ?tp") (auto simp: BIO_read_def outcome_def tls_bio_set_flags_def)
    then obtain r where "BIO_read n ?tp = Some (r, ?tp)" "bo_bytes r = []" by blast
    then have "bio_on_read bio_callbacks n c = Some (r, c)" by (simp add: bio_callbacks_def)
    then show thesis using assms(1) by (rule that)
  next
    case True
    define m where "m = min (ib_len ?rb) n"
    have m: "0 \<le> m" "m \<le> ib_len ?rb" using True assms(2) by (simp_all add: m_def)
    obtain rb where rb: "ib_drop ?rb m = Some rb" "ib_wf rb" "ib_contents rb = drop (nat m) (ib_contents ?rb)"
      using ib_drop_ok [OF wf m] by metis
    have sp: "span (ib_buf ?rb) (ib_start ?rb) m = Some (take (nat m) (ib_contents ?rb))"
      using wf m by (auto simp: span_def rd_def ib_contents_def ib_wf_def ib_capacity_def slice_def min_def)
    have "bio_on_read bio_callbacks n c = Some (outcome m (take (nat m) (ib_contents ?rb)),
        c\<lparr>sp_tp := ?tp\<lparr>tp_read := rb\<rparr>, sp_fed := sp_fed c @ take (nat m) (ib_contents ?rb)\<rparr>)"
      using True sp rb(1) by (simp add: bio_callbacks_def BIO_read_def Let_def m_def outcome_def)
    then show thesis
      by (rule that) (use assms(1) rb in \<open>simp add: pipe_streams_def Let_def\<close>)
  qed
qed

lemma bio_write_ok:
  assumes "pipe_streams c"
  obtains r c' where "bio_on_write bio_callbacks bs c = Some (r, c')" "pipe_streams c'"
proof -
  let ?tp = "sp_tp c" and ?wb = "tp_write (sp_tp c)"
  have wf: "ib_wf ?wb" using assms(1) by (simp add: pipe_streams_def Let_def)
  define room where "room = ib_capacity ?wb - (ib_start ?wb + ib_len ?wb)"
  show thesis
  proof (cases "tp_state ?tp = Tp_normal \<and> 0 < room")
    case False
    then have "\<exists>r. BIO_write bs ?tp = Some (r, ?tp) \<and> bo_ret r = -1"
      by (auto simp: BIO_write_def outcome_def tls_bio_set_flags_def room_def Let_def)
    then obtain r where "BIO_write bs ?tp = Some (r, ?tp)" "bo_ret r = -1" by blast
    then have "bio_on_write bio_callbacks bs c = Some (r, c)" by (simp add: bio_callbacks_def)
    then show thesis using assms(1) by (rule that)
  next
    case True
    define m where "m = min (int (length bs)) room"
    have m: "int (length (take (nat m) bs)) = m" using True by (auto simp: m_def)
    have fit: "ib_start ?wb + ib_len ?wb + int (length (take (nat m) bs)) \<le> ib_capacity ?wb"
      unfolding m by (simp add: m_def room_def)
    obtain buf where buf: "store_at (ib_buf ?wb) (ib_start ?wb + ib_len ?wb) (take (nat m) bs) = Some buf"
      "ib_wf (?wb\<lparr>ib_buf := buf, ib_len := ib_len ?wb + int (length (take (nat m) bs))\<rparr>)"
      "ib_contents (?wb\<lparr>ib_buf := buf, ib_len := ib_len ?wb + int (length (take (nat m) bs))\<rparr>) =
        ib_contents ?wb @ take (nat m) bs"
      by (rule ib_append_ok [OF wf fit])
    let ?wb' = "?wb\<lparr>ib_buf := buf, ib_len := ib_len ?wb + m\<rparr>"
    have wb': "ib_wf ?wb'" "ib_contents ?wb' = ib_contents ?wb @ take (nat m) bs"
      using buf(2,3) unfolding m by simp_all
    have "\<not> ib_capacity ?wb \<le> ib_start ?wb + ib_len ?wb" using True by (simp add: room_def)
    then have "bio_on_write bio_callbacks bs c = Some (outcome m [],
        c\<lparr>sp_tp := ?tp\<lparr>tp_write := ?wb'\<rparr>, sp_made := sp_made c @ take (nat m) bs\<rparr>)"
      using True buf(1)
      by (simp add: bio_callbacks_def BIO_write_def Let_def m_def [symmetric] room_def [symmetric] outcome_def)
    then show thesis
      by (rule that) (use assms(1) wb' in \<open>simp add: pipe_streams_def Let_def flip: append_assoc\<close>)
  qed
qed

lemma run_io_ok:
  assumes "io_fits call t" "pipe_streams c"
  obtains a k c' where "run_io bio_callbacks t c = Some (a, k, c')" "pipe_streams c'" "io_answer_law call a"
proof -
  have "\<exists>a k c'. run_io bio_callbacks t c = Some (a, k, c') \<and> pipe_streams c' \<and> io_answer_law call a"
    using assms
  proof (induction t arbitrary: c)
    case (Io_bio_read n f)
    obtain r c1 where r: "bio_on_read bio_callbacks n c = Some (r, c1)" "pipe_streams c1"
      by (rule bio_read_ok [OF Io_bio_read.prems(2)]) (use Io_bio_read.prems(1) in auto)
    then show ?case using Io_bio_read.IH [OF rangeI _ r(2)] Io_bio_read.prems(1) by simp
  next
    case (Io_bio_write bs f)
    obtain r c1 where r: "bio_on_write bio_callbacks bs c = Some (r, c1)" "pipe_streams c1"
      by (rule bio_write_ok [OF Io_bio_write.prems(2)])
    then show ?case using Io_bio_write.IH [OF rangeI _ r(2)] Io_bio_write.prems(1) by simp
  qed simp
  then show thesis using that by blast
qed

lemma ask_io_ok:
  assumes "io_law L E" "pipe_streams c"
  obtains a w' c' where "ask_io E bio_callbacks call w c = Some (a, w', c')" "pipe_streams c'"
    "io_answer_law call a" "trace w' = trace w @ [(call, a)]"
proof -
  obtain a k c' where "run_io bio_callbacks (E call (lib_st w)) c = Some (a, k, c')" "pipe_streams c'"
    "io_answer_law call a"
    using run_io_ok [OF _ assms(2), of call "E call (lib_st w)"] assms(1) unfolding io_law_def by metis
  then show thesis
    using that [of a "w\<lparr>lib_st := k, trace := trace w @ [(call, a)]\<rparr>" c'] by (simp add: ask_io_def)
qed

section \<open>The steps keep the streams\<close>

lemma flush_write_failed: "flush_write P tp = Some (r, tp') \<Longrightarrow> r \<noteq> Inr () \<Longrightarrow> tp_write tp' = tp_write tp"
  by (auto simp: flush_write_def Let_def split: if_splits tp_state.splits option.splits prod.splits)

lemma pipe_flush:
  assumes "pipe_streams c"
  obtains r tp where "flush_write P (sp_tp c) = Some (r, tp)" "pipe_streams (c\<lparr>sp_tp := tp\<rparr>)"
    "r = Inr () \<longrightarrow> tp_sent tp = sp_made c"
proof -
  have wf: "ib_wf (tp_write (sp_tp c))" using assms by (simp add: pipe_streams_def Let_def)
  obtain r tp where f: "flush_write P (sp_tp c) = Some (r, tp)" "ib_wf (tp_write tp)"
    "tp_read tp = tp_read (sp_tp c)" "tp_received tp = tp_received (sp_tp c)"
    "r = Inr () \<longrightarrow> ib_contents (tp_write tp) = [] \<and> ib_len (tp_write tp) = 0 \<and>
       tp_sent tp = tp_sent (sp_tp c) @ ib_contents (tp_write (sp_tp c))"
    "r \<noteq> Inr () \<longrightarrow> tp_sent tp = tp_sent (sp_tp c)"
    by (rule flush_write_ok [OF wf])
  have "pipe_streams (c\<lparr>sp_tp := tp\<rparr>)"
    using assms f flush_write_failed [OF f(1)]
    by (cases "r = Inr ()") (simp_all add: pipe_streams_def Let_def)
  then show thesis using f(1,5) assms by (intro that [of r tp]) (simp_all add: pipe_streams_def Let_def)
qed

lemma pipe_read_more:
  assumes "pipe_streams c" "peer_law P"
  obtains r tp where "read_more P (sp_tp c) = Some (r, tp)" "pipe_streams (c\<lparr>sp_tp := tp\<rparr>)"
proof -
  have wf: "ib_wf (tp_read (sp_tp c))" using assms by (simp add: pipe_streams_def Let_def)
  obtain r tp bs where "read_more P (sp_tp c) = Some (r, tp)" "ib_wf (tp_read tp)"
    "ib_contents (tp_read tp) = ib_contents (tp_read (sp_tp c)) @ bs" "tp_received tp = tp_received (sp_tp c) @ bs"
    "tp_write tp = tp_write (sp_tp c)" "tp_sent tp = tp_sent (sp_tp c)"
    by (rule read_more_ok [OF wf assms(2)])
  then show thesis using assms(1) by (intro that [of r tp]) (simp_all add: pipe_streams_def Let_def)
qed

definition accounts :: "('k, 'r) ssl_session \<Rightarrow> byte list \<Rightarrow> byte list \<Rightarrow> bool" where
  "accounts s u v \<longleftrightarrow>
     pipe_streams (se_pipe s) \<and>
     along ssl_plain (trace (se_world s)) = all_chunks (se_delivered s) @ u \<and>
     along ssl_payload (trace (se_world s)) = all_chunks (se_accepted s) @ v \<and>
     untold (se_delivered s) + untold (se_accepted s) \<le> length (se_errors s)"

lemma accounts_streams: "accounts s [] [] \<Longrightarrow> se_phase s \<noteq> Ssl_idle \<Longrightarrow> ssl_streams s"
  by (simp add: accounts_def ssl_streams_def)

lemma streams_accounts: "ssl_streams s \<Longrightarrow> accounts s [] []"
  by (auto simp: accounts_def ssl_streams_def)

definition arguments_fit :: "('k, 'r) ssl_session \<Rightarrow> bool" where
  "arguments_fit s =
     (case se_phase s of
        Ssl_reading buf off n \<Rightarrow> 0 \<le> off \<and> 0 \<le> n \<and> off + n \<le> int (length buf)
      | Ssl_writing buf off n \<Rightarrow> 0 \<le> off \<and> 0 \<le> n \<and> off + n \<le> int (length buf)
      | _ \<Rightarrow> True)"

definition ssl_session_inv :: "('k, 'r) ssl_session \<Rightarrow> bool" where
  "ssl_session_inv s \<longleftrightarrow> ssl_streams s \<and> arguments_fit s"

lemma pipe_close: "pipe_streams (c\<lparr>sp_tp := close_transport (sp_tp c)\<rparr>) = pipe_streams c"
  by (simp add: pipe_streams_def close_transport_def Let_def)

lemma op_raise_ok:
  assumes "pipe_streams (se_pipe s)" "along ssl_plain (trace (se_world s)) = all_chunks (se_delivered s)"
    "along ssl_payload (trace (se_world s)) = all_chunks (se_accepted s)"
    "untold (se_delivered s) + untold (se_accepted s) \<le> Suc (length (se_errors s))"
  shows "ssl_session_inv (op_raise x s)"
  using assms
  by (simp add: op_raise_def Let_def ssl_session_inv_def ssl_streams_def arguments_fit_def pipe_close)

lemma op_finish_ok:
  assumes "accounts s u v" "u = [] \<or> v = []"
  obtains s' where "op_finish P u v s = Some s'" "ssl_session_inv s'"
proof -
  have "pipe_streams (se_pipe s)" using assms(1) by (simp add: accounts_def)
  then obtain r tp where f: "flush_write P (sp_tp (se_pipe s)) = Some (r, tp)"
    "pipe_streams ((se_pipe s)\<lparr>sp_tp := tp\<rparr>)" "r = Inr () \<longrightarrow> tp_sent tp = sp_made (se_pipe s)"
    by (rule pipe_flush)
  show thesis
  proof (cases r)
    case (Inl e)
    let ?s = "s\<lparr>se_pipe := (se_pipe s)\<lparr>sp_tp := tp\<rparr>, se_delivered := se_delivered s @ record_chunk False u,
      se_accepted := se_accepted s @ record_chunk False v\<rparr>"
    have "ssl_session_inv (op_raise (Transport_error e) ?s)"
      using f(2) assms by (intro op_raise_ok) (auto simp: accounts_def)
    moreover have "op_finish P u v s = Some (op_raise (Transport_error e) ?s)"
      using f(1) Inl by (simp add: op_finish_def)
    ultimately show thesis using that by blast
  next
    case (Inr x)
    then show thesis
      using that f assms
      by (simp add: op_finish_def Let_def ssl_session_inv_def ssl_streams_def accounts_def arguments_fit_def)
  qed
qed

lemma get_error_ok:
  assumes "io_law L E" "tls_ssl_get_error L s r w = (e, w')"
  shows "r \<le> 0 \<Longrightarrow> e \<in> {SSL_ERROR_SSL, SSL_ERROR_WANT_READ, SSL_ERROR_WANT_WRITE, SSL_ERROR_SYSCALL, SSL_ERROR_ZERO_RETURN}"
    "f \<in> {ssl_plain, ssl_payload} \<Longrightarrow> along f (trace w') = along f (trace w)"
proof -
  let ?c = "O_SSL_get_error s r"
  have "e = i32 (r_ret (fst (L ?c (lib_st w))))" "trace w' = trace w @ [(?c, fst (ask L ?c w))]"
    using assms(2) by (auto simp: tls_ssl_get_error_def ask_int_def fst_ask [symmetric] trace_ask [symmetric] split: prod.splits)
  then show "r \<le> 0 \<Longrightarrow> e \<in> {SSL_ERROR_SSL, SSL_ERROR_WANT_READ, SSL_ERROR_WANT_WRITE, SSL_ERROR_SYSCALL, SSL_ERROR_ZERO_RETURN}"
    "f \<in> {ssl_plain, ssl_payload} \<Longrightarrow> along f (trace w') = along f (trace w)"
    using assms(1) unfolding io_law_def by auto
qed

lemma err_text_ok:
  assumes "io_law L E"
  obtains msg w' where "err_get_error L w = Some (msg, w')"
    "along ssl_plain (trace w') = along ssl_plain (trace w)" "along ssl_payload (trace w') = along ssl_payload (trace w)"
proof -
  obtain a w1 where aw: "ask L O_ERR_get_error w = (a, w1)" by fastforce
  obtain b w2 where bw: "ask L (O_ERR_error_string (r_ret a)) w1 = (b, w2)" by fastforce
  have "length (r_bytes b) < 256"
    using assms fst_ask [of L "O_ERR_error_string (r_ret a)" w1] bw unfolding io_law_def by (metis fst_conv)
  then obtain msg where m: "err_get_error L w = Some (msg, w2)" by (rule err_get_error_is [OF aw bw])
  have "trace w1 = trace w @ [(O_ERR_get_error, a)]" "trace w2 = trace w1 @ [(O_ERR_error_string (r_ret a), b)]"
    using trace_ask [of L O_ERR_get_error w] trace_ask [of L "O_ERR_error_string (r_ret a)" w1] by (simp_all add: aw bw)
  then show thesis by (intro that [OF m]) simp_all
qed

lemma op_retry_ok:
  assumes "io_law L E" "peer_law P" "accounts s [] []" "arguments_fit s" "se_phase s \<noteq> Ssl_idle"
    "e \<in> {SSL_ERROR_SSL, SSL_ERROR_WANT_READ, SSL_ERROR_WANT_WRITE, SSL_ERROR_SYSCALL, SSL_ERROR_ZERO_RETURN}"
  obtains s' where "op_retry L P e s = Some s'" "ssl_session_inv s'"
proof -
  let ?c = "se_pipe s"
  let ?codes = "[SSL_ERROR_SSL, SSL_ERROR_WANT_READ, SSL_ERROR_WANT_WRITE, SSL_ERROR_SYSCALL, SSL_ERROR_ZERO_RETURN]"
  have pipe: "pipe_streams ?c" using assms(3) by (simp add: accounts_def)
  obtain r tp where f: "flush_write P (sp_tp ?c) = Some (r, tp)" "pipe_streams (?c\<lparr>sp_tp := tp\<rparr>)"
    using pipe_flush [OF pipe] by metis
  obtain q tp2 where m: "read_more P tp = Some (q, tp2)" "pipe_streams (?c\<lparr>sp_tp := tp2\<rparr>)"
    using pipe_read_more [OF f(2) assms(2)] by auto
  obtain wb where e: "ib_enlarge_to (tp_write tp) 1 = Some wb" "ib_wf wb" "ib_contents wb = ib_contents (tp_write tp)"
    using ib_enlarge_to_ok [of "tp_write tp" 1] f(2) by (auto simp: pipe_streams_def Let_def)
  have pe: "pipe_streams (?c\<lparr>sp_tp := tp\<lparr>tp_write := wb\<rparr>\<rparr>)"
    using f(2) e by (simp add: pipe_streams_def Let_def)
  obtain msg w' where g: "err_get_error L (se_world s) = Some (msg, w')"
    "along ssl_plain (trace w') = along ssl_plain (trace (se_world s))"
    "along ssl_payload (trace w') = along ssl_payload (trace (se_world s))"
    by (rule err_text_ok [OF assms(1)])
  have dist: "distinct ?codes"
    by (simp add: SSL_ERROR_SSL_def SSL_ERROR_WANT_READ_def SSL_ERROR_WANT_WRITE_def SSL_ERROR_SYSCALL_def
        SSL_ERROR_ZERO_RETURN_def)
  define good where "good x = (\<exists>r w tp. x = Some (r, w, tp) \<and> pipe_streams (?c\<lparr>sp_tp := tp\<rparr>) \<and>
      along ssl_plain (trace w) = along ssl_plain (trace (se_world s)) \<and>
      along ssl_payload (trace w) = along ssl_payload (trace (se_world s)))"
    for x :: "((ssl_error + unit) \<times> 'a ssl_world \<times> 'b transport) option"
  have "good (handle_error L P e (se_world s) (sp_tp ?c))"
  proof -
    have c: "?c\<lparr>sp_tp := sp_tp ?c\<rparr> = ?c" by simp
    consider "e = SSL_ERROR_WANT_READ" | "e = SSL_ERROR_WANT_WRITE" | "e = SSL_ERROR_SSL \<or> e = SSL_ERROR_SYSCALL"
      | "e = SSL_ERROR_ZERO_RETURN" using assms(6) by blast
    then show ?thesis
    proof cases
      case 1
      then show ?thesis
        using f m by (cases r) (auto simp: handle_error_def good_def)
    next
      case 2
      then show ?thesis
        using f e pe dist by (cases r) (auto simp: handle_error_def good_def)
    next
      case 3
      then show ?thesis using g pipe dist c by (auto simp: handle_error_def good_def)
    next
      case 4
      then show ?thesis using pipe dist c by (auto simp: handle_error_def good_def)
    qed
  qed
  then obtain x w2 tp3 where h: "handle_error L P e (se_world s) (sp_tp ?c) = Some (x, w2, tp3)"
    "pipe_streams (?c\<lparr>sp_tp := tp3\<rparr>)" "along ssl_plain (trace w2) = along ssl_plain (trace (se_world s))"
    "along ssl_payload (trace w2) = along ssl_payload (trace (se_world s))"
    unfolding good_def by blast
  show thesis
  proof (cases x)
    case (Inl y)
    let ?s = "s\<lparr>se_world := w2, se_pipe := ?c\<lparr>sp_tp := tp3\<rparr>\<rparr>"
    have "ssl_session_inv (op_raise y ?s)"
      using h(2-4) assms(3) by (intro op_raise_ok) (auto simp: accounts_def)
    moreover have "op_retry L P e s = Some (op_raise y ?s)"
      using h(1) Inl by (simp add: op_retry_def)
    ultimately show thesis using that by blast
  next
    case (Inr y)
    then show thesis
      using that h assms(3-5)
      by (auto simp: op_retry_def ssl_session_inv_def ssl_streams_def accounts_def arguments_fit_def)
  qed
qed

lemma get_error_and_retry_ok:
  assumes "io_law L E" "peer_law P" "accounts s [] []" "arguments_fit s" "se_phase s \<noteq> Ssl_idle" "r \<le> 0"
  obtains s' where "get_error_and_retry L P r s = Some s'" "ssl_session_inv s'"
proof -
  obtain e w where g: "tls_ssl_get_error L (se_ssl s) r (se_world s) = (e, w)" by fastforce
  have "accounts (s\<lparr>se_world := w\<rparr>) [] []" "arguments_fit (s\<lparr>se_world := w\<rparr>)" "se_phase (s\<lparr>se_world := w\<rparr>) \<noteq> Ssl_idle"
    using assms(3-5) get_error_ok(2) [OF assms(1) g] by (simp_all add: accounts_def arguments_fit_def)
  then show thesis
    using op_retry_ok [OF assms(1,2) _ _ _ get_error_ok(1) [OF assms(1) g assms(6)], of "s\<lparr>se_world := w\<rparr>"] that g
    by (auto simp: get_error_and_retry_def)
qed

text \<open>A call that carries no plaintext.\<close>

lemma silent_call_ok:
  assumes "io_law L E" "ssl_session_inv s"
    "\<And>a. ssl_plain (call, a) = []" "\<And>a. ssl_payload (call, a) = []"
  obtains a w c where "ask_io E bio_callbacks call (se_world s) (se_pipe s) = Some (a, w, c)"
    "accounts (after_call s w c) [] []" "arguments_fit (after_call s w c)"
proof -
  have acc: "accounts s [] []" using assms(2) streams_accounts by (auto simp: ssl_session_inv_def)
  then have pipe: "pipe_streams (se_pipe s)" by (simp add: accounts_def)
  obtain a w c where "ask_io E bio_callbacks call (se_world s) (se_pipe s) = Some (a, w, c)" "pipe_streams c"
    "trace w = trace (se_world s) @ [(call, a)]"
    by (rule ask_io_ok [OF assms(1) pipe, of call "se_world s"])
  then show thesis
    using acc assms(2-4) by (intro that [of a w c])
      (simp_all add: accounts_def after_call_def arguments_fit_def ssl_session_inv_def)
qed

lemma handshake_iter_ok:
  assumes "io_law L E" "peer_law P" "ssl_session_inv s" "se_phase s = Ssl_handshake"
  obtains s' where "handshake_iter L E P s = Some s'" "ssl_session_inv s'"
proof -
  define call where "call = (if se_is_client s then O_SSL_connect (se_ssl s) else O_SSL_accept (se_ssl s))"
  obtain a w c where a: "ask_io E bio_callbacks call (se_world s) (se_pipe s) = Some (a, w, c)"
    "accounts (after_call s w c) [] []" "arguments_fit (after_call s w c)"
    by (rule silent_call_ok [OF assms(1,3), of call]) (simp_all add: call_def)
  have ph: "se_phase (after_call s w c) \<noteq> Ssl_idle" using assms(4) by (simp add: after_call_def)
  have eq: "handshake_iter L E P s =
      (if i32 (r_ret a) \<le> 0 then get_error_and_retry L P (i32 (r_ret a)) (after_call s w c)
       else op_finish P [] [] (after_call s w c))"
    using a(1) by (simp add: handshake_iter_def tls_ssl_connect_def tls_ssl_accept_def call_def split: if_splits)
  have s1: "\<exists>s1. get_error_and_retry L P (i32 (r_ret a)) (after_call s w c) = Some s1 \<and> ssl_session_inv s1"
    if "i32 (r_ret a) \<le> 0"
    using get_error_and_retry_ok [OF assms(1,2) a(2,3) ph that] by metis
  obtain s2 where s2: "op_finish P [] [] (after_call s w c) = Some s2" "ssl_session_inv s2"
    by (rule op_finish_ok [OF a(2)]) simp
  show thesis using that s1 s2 by (cases "i32 (r_ret a) \<le> 0") (auto simp: eq)
qed

lemma shutdown_iter_ok:
  assumes "io_law L E" "peer_law P" "ssl_session_inv s" "se_phase s = Ssl_shutting"
  obtains s' where "shutdown_iter L E P s = Some s'" "ssl_session_inv s'"
proof -
  obtain a w c where a: "ask_io E bio_callbacks (O_SSL_shutdown (se_ssl s)) (se_world s) (se_pipe s) = Some (a, w, c)"
    "accounts (after_call s w c) [] []" "arguments_fit (after_call s w c)"
    by (rule silent_call_ok [OF assms(1,3), of "O_SSL_shutdown (se_ssl s)"]) simp_all
  have ph: "se_phase (after_call s w c) \<noteq> Ssl_idle" using assms(4) by (simp add: after_call_def)
  have eq: "shutdown_iter L E P s =
      (if i32 (r_ret a) < 0 then get_error_and_retry L P (i32 (r_ret a)) (after_call s w c)
       else op_finish P [] [] (after_call s w c))"
    using a(1) by (simp add: shutdown_iter_def tls_ssl_shutdown_def)
  have s1: "\<exists>s1. get_error_and_retry L P (i32 (r_ret a)) (after_call s w c) = Some s1 \<and> ssl_session_inv s1"
    if "i32 (r_ret a) \<le> 0"
    using get_error_and_retry_ok [OF assms(1,2) a(2,3) ph that] by metis
  obtain s2 where s2: "op_finish P [] [] (after_call s w c) = Some s2" "ssl_session_inv s2"
    by (rule op_finish_ok [OF a(2)]) simp
  show thesis using that s1 s2 by (cases "i32 (r_ret a) < 0") (auto simp: eq)
qed

lemma shutdown_begin_ok:
  assumes "accounts s [] []" "se_phase (shutdown_begin s) = Ssl_idle \<longrightarrow> tp_sent (sp_tp (se_pipe s)) = sp_made (se_pipe s)"
  shows "ssl_session_inv (shutdown_begin s)"
proof -
  have "ssl_session_inv (op_raise x (s\<lparr>se_shutdown := True\<rparr>))" for x
    using assms(1) by (intro op_raise_ok) (simp_all add: accounts_def)
  then show ?thesis
    using assms
    by (auto simp: shutdown_begin_def ssl_session_inv_def ssl_streams_def accounts_def arguments_fit_def Let_def
        split: tp_state.splits if_splits)
qed

lemma shutdown_begin_accounts: "accounts s [] [] \<Longrightarrow> accounts (shutdown_begin s) [] []"
  by (auto simp: shutdown_begin_def op_raise_def accounts_def Let_def pipe_close split: tp_state.splits)

lemma ssl_read_iter_ok:
  assumes "io_law L E" "peer_law P" "ssl_session_inv s" "se_phase s = Ssl_reading buf off n"
  obtains s' where "ssl_read_iter L E P buf off n s = Some s'" "ssl_session_inv s'"
proof -
  have acc: "accounts s [] []"
    by (rule streams_accounts) (use assms(3) in \<open>simp add: ssl_session_inv_def\<close>)
  have fit: "0 \<le> off" "0 \<le> n" "off + n \<le> int (length buf)"
    using assms(3,4) by (simp_all add: ssl_session_inv_def arguments_fit_def)
  have pipe: "pipe_streams (se_pipe s)" using acc by (simp add: accounts_def)
  obtain a w c where a: "ask_io E bio_callbacks (O_SSL_read (se_ssl s) n) (se_world s) (se_pipe s) = Some (a, w, c)"
    "pipe_streams c" "io_answer_law (O_SSL_read (se_ssl s) n) a"
    "trace w = trace (se_world s) @ [(O_SSL_read (se_ssl s) n, a)]"
    by (rule ask_io_ok [OF assms(1) pipe, of "O_SSL_read (se_ssl s) n" "se_world s"])
  let ?r = "i32 (r_ret a)"
  have len: "length (r_bytes a) \<le> nat n" "?r \<le> int (length (r_bytes a))" using a(3) by simp_all
  let ?buf = "blit buf (nat off) (r_bytes a)"
  have st: "store_at buf off (r_bytes a) = Some ?buf" "span buf off n \<noteq> None"
    using fit len by (auto simp: store_at_def poke_def span_def rd_def)
  have blen: "length ?buf = length buf" using fit len by (intro length_blit) auto
  let ?s = "after_call s w c"
  have plain: "along ssl_plain (trace w) = all_chunks (se_delivered s) @ take (nat ?r) (r_bytes a)"
    "along ssl_payload (trace w) = all_chunks (se_accepted s)"
    "untold (se_delivered s) + untold (se_accepted s) \<le> length (se_errors s)"
    using acc by (simp_all add: a(4) accounts_def)
  obtain e w2 where g: "tls_ssl_get_error L (se_ssl s) ?r w = (e, w2)" by fastforce
  let ?t = "(after_call s w2 c)\<lparr>se_phase := Ssl_reading ?buf off n\<rparr>"
  have eq: "ssl_read_iter L E P buf off n s =
      (if ?r > 0
       then op_finish P (slice ?buf (nat off) (nat ?r)) [] ?s
       else if e = SSL_ERROR_ZERO_RETURN
       then let s = shutdown_begin ?t in if se_phase s = Ssl_idle then op_finish P [] [] s else Some s
       else if tp_state (sp_tp c) = Tp_closed \<and> ib_len (tp_read (sp_tp c)) = 0
       then op_finish P [] [] ?t
       else op_retry L P e ?t)"
    using a(1) st g by (auto simp: ssl_read_iter_def tls_ssl_read_def Let_def split: option.splits)
  show thesis
  proof (cases "0 < ?r")
    case True
    have got: "slice ?buf (nat off) (nat ?r) = take (nat ?r) (r_bytes a)"
      using fit len by (auto simp: slice_def blit_def min_def)
    have "accounts ?s (take (nat ?r) (r_bytes a)) []"
      using a(2) plain by (simp add: accounts_def after_call_def)
    then obtain s' where "op_finish P (slice ?buf (nat off) (nat ?r)) [] ?s = Some s'" "ssl_session_inv s'"
      unfolding got by (rule op_finish_ok [where P = P]) simp
    then show thesis using that True by (simp add: eq)
  next
    case False
    have t: "accounts ?t [] []" "arguments_fit ?t" "se_phase ?t \<noteq> Ssl_idle"
      using a(2) plain False get_error_ok(2) [OF assms(1) g] fit blen
      by (simp_all add: accounts_def after_call_def arguments_fit_def)
    obtain s1 where s1: "op_retry L P e ?t = Some s1" "ssl_session_inv s1"
      by (rule op_retry_ok [OF assms(1,2) t get_error_ok(1) [OF assms(1) g]]) (use False in simp)
    obtain s2 where s2: "op_finish P [] [] ?t = Some s2" "ssl_session_inv s2"
      by (rule op_finish_ok [OF t(1)]) simp
    obtain s3 where s3: "op_finish P [] [] (shutdown_begin ?t) = Some s3" "ssl_session_inv s3"
      by (rule op_finish_ok [OF shutdown_begin_accounts [OF t(1)]]) simp
    have s4: "ssl_session_inv (shutdown_begin ?t)" if "se_phase (shutdown_begin ?t) \<noteq> Ssl_idle"
      using shutdown_begin_ok [OF t(1)] that by simp
    define u where "u = shutdown_begin ?t"
    have "\<exists>s'. ssl_read_iter L E P buf off n s = Some s' \<and> ssl_session_inv s'"
      using s1 s2 s3 s4 False unfolding eq Let_def u_def [symmetric] by simp
    then show thesis using that by blast
  qed
qed

lemma ssl_write_iter_ok:
  assumes "io_law L E" "peer_law P" "ssl_session_inv s" "se_phase s = Ssl_writing buf off n"
  obtains s' where "ssl_write_iter L E P buf off n s = Some s'" "ssl_session_inv s'"
proof -
  have acc: "accounts s [] []"
    by (rule streams_accounts) (use assms(3) in \<open>simp add: ssl_session_inv_def\<close>)
  have fit: "0 \<le> off" "0 \<le> n" "off + n \<le> int (length buf)"
    using assms(3,4) by (simp_all add: ssl_session_inv_def arguments_fit_def)
  have pipe: "pipe_streams (se_pipe s)" using acc by (simp add: accounts_def)
  let ?bs = "slice buf (nat off) (nat n)"
  have sp: "span buf off n = Some ?bs" using fit by (auto simp: span_def rd_def)
  obtain a w c where a: "ask_io E bio_callbacks (O_SSL_write (se_ssl s) ?bs) (se_world s) (se_pipe s) = Some (a, w, c)"
    "pipe_streams c" "io_answer_law (O_SSL_write (se_ssl s) ?bs) a"
    "trace w = trace (se_world s) @ [(O_SSL_write (se_ssl s) ?bs, a)]"
    by (rule ask_io_ok [OF assms(1) pipe, of "O_SSL_write (se_ssl s) ?bs" "se_world s"])
  let ?r = "i32 (r_ret a)" and ?s = "after_call s w c"
  have eq: "ssl_write_iter L E P buf off n s =
      (if ?r > 0
       then op_finish P [] (slice buf (nat off) (nat ?r)) ?s
       else get_error_and_retry L P ?r ?s)"
    using a(1) sp by (simp add: ssl_write_iter_def tls_ssl_write_def)
  have acc': "accounts ?s [] (take (nat ?r) ?bs)"
    using acc a(2) by (simp add: a(4) accounts_def after_call_def)
  show thesis
  proof (cases "0 < ?r")
    case True
    have "length ?bs \<le> nat n" by (simp add: slice_def)
    then have "?r \<le> n" using a(3) fit(2) by simp
    then have "take (nat ?r) ?bs = slice buf (nat off) (nat ?r)"
      using True by (simp add: slice_def min_def)
    then obtain s' where "op_finish P [] (slice buf (nat off) (nat ?r)) ?s = Some s'" "ssl_session_inv s'"
      using op_finish_ok [OF acc', of P] by auto
    then show thesis using that True by (simp add: eq)
  next
    case False
    have t: "accounts ?s [] []" "arguments_fit ?s" "se_phase ?s \<noteq> Ssl_idle"
      using acc' False assms(4) fit by (simp_all add: after_call_def arguments_fit_def)
    obtain s1 where "get_error_and_retry L P ?r ?s = Some s1" "ssl_session_inv s1"
      using get_error_and_retry_ok [OF assms(1,2) t] False by (metis linorder_not_less)
    then show thesis using that False by (simp add: eq)
  qed
qed

section \<open>All steps\<close>

text \<open>The caller's buffers hold what it asks for.\<close>

definition sq_fits :: "ssl_request \<Rightarrow> bool" where
  "sq_fits rq =
     (case rq of
        Sq_read buf off n \<Rightarrow> 0 \<le> off \<and> 0 \<le> n \<and> off + n \<le> int (length buf)
      | Sq_write buf off n \<Rightarrow> 0 \<le> off \<and> 0 \<le> n \<and> off + n \<le> int (length buf)
      | _ \<Rightarrow> True)"

definition ssl_begin :: "int \<Rightarrow> bool \<Rightarrow> 'k ssl_world \<Rightarrow> 'r transport \<Rightarrow> ('k, 'r) ssl_session" where
  "ssl_begin ssl client w tp =
     \<lparr>se_ssl = ssl, se_is_client = client, se_world = w,
      se_pipe = \<lparr>sp_tp = tp, sp_fed = [], sp_made = []\<rparr>, se_shutdown = False, se_phase = Ssl_handshake,
      se_delivered = [], se_accepted = [], se_errors = []\<rparr>"

inductive session_reach ::
  "'k ssl_lib \<Rightarrow> 'k ssl_engine \<Rightarrow> 'r peer \<Rightarrow> ('k, 'r) ssl_session \<Rightarrow> bool" for L E P where
  session_start: "trace w = [] \<Longrightarrow> ib_wf rb \<Longrightarrow> Transport_new rb p = Some tp \<Longrightarrow>
    session_reach L E P (ssl_begin ssl client w tp)"
| session_next: "session_reach L E P s \<Longrightarrow> sq_fits rq \<Longrightarrow> sq_possible (se_phase s) rq \<Longrightarrow> ssl_step L E P rq s = Some s' \<Longrightarrow>
    session_reach L E P s'"

lemma ssl_begin_inv:
  assumes "trace w = []" "ib_wf rb" "Transport_new rb p = Some tp"
  shows "ssl_session_inv (ssl_begin ssl client w tp)"
proof -
  obtain b where b: "ib_enlarge_to rb BUFFER_SIZE = Some b" "ib_wf b" "ib_contents b = ib_contents rb"
    using ib_enlarge_to_ok [OF assms(2)] by metis
  then have "tp = \<lparr>tp_state = Tp_normal, tp_read = b, tp_write = ib_new (nat BUFFER_SIZE), tp_peer = p,
      tp_received = ib_contents b, tp_sent = []\<rparr>"
    using assms(3) by (simp add: Transport_new_def)
  then show ?thesis
    using assms(1) b(2)
    by (simp add: ssl_begin_def ssl_session_inv_def ssl_streams_def pipe_streams_def arguments_fit_def Let_def)
qed

lemma ssl_step_inv:
  assumes "io_law L E" "peer_law P" "ssl_session_inv s" "sq_fits rq" "sq_possible (se_phase s) rq"
  obtains s' where "ssl_step L E P rq s = Some s'" "ssl_session_inv s'"
proof (cases "quiet (se_phase s)")
  case True
  have acc: "accounts s [] []"
    by (rule streams_accounts) (use assms(3) in \<open>simp add: ssl_session_inv_def\<close>)
  have shut: "ssl_session_inv (shutdown_begin s)" if "\<not> se_shutdown s"
  proof (rule shutdown_begin_ok [OF acc])
    show "se_phase (shutdown_begin s) = Ssl_idle \<longrightarrow> tp_sent (sp_tp (se_pipe s)) = sp_made (se_pipe s)"
      using that by (auto simp: shutdown_begin_def op_raise_def Let_def split: tp_state.splits)
  qed
  have "rq \<noteq> Sq_step" using True assms(5) by (auto simp: sq_possible_def)
  then show thesis
    using that assms(3,4) True shut
    by (cases rq) (auto simp: ssl_step_def ssl_session_inv_def ssl_streams_def arguments_fit_def sq_fits_def)
next
  case False
  then have rq: "rq = Sq_step" and ph: "\<forall>e. se_phase s \<noteq> Ssl_failed e"
    using assms(5) by (auto simp: sq_possible_def split: if_splits)
  note step = that ssl_step_def [of L E P rq s] False
  show thesis
  proof (cases "se_phase s")
    case Ssl_handshake
    show thesis
      by (rule handshake_iter_ok [OF assms(1-3) Ssl_handshake]) (use step rq Ssl_handshake in auto)
  next
    case (Ssl_reading buf off n)
    show thesis
      by (rule ssl_read_iter_ok [OF assms(1-3) Ssl_reading]) (use step rq Ssl_reading in auto)
  next
    case (Ssl_writing buf off n)
    show thesis
      by (rule ssl_write_iter_ok [OF assms(1-3) Ssl_writing]) (use step rq Ssl_writing in auto)
  next
    case Ssl_shutting
    show thesis
      by (rule shutdown_iter_ok [OF assms(1-3) Ssl_shutting]) (use step rq Ssl_shutting in auto)
  qed (use False ph in \<open>auto simp: quiet_def\<close>)
qed

lemma session_reach_inv:
  assumes "io_law L E" "peer_law P"
  shows "session_reach L E P s \<Longrightarrow> ssl_session_inv s"
proof (induction rule: session_reach.induct)
  case (session_next s rq s')
  obtain s2 where "ssl_step L E P rq s = Some s2" "ssl_session_inv s2"
    by (rule ssl_step_inv [OF assms session_next.IH session_next.hyps(2,3)])
  then show ?case using session_next.hyps(4) by simp
qed (rule ssl_begin_inv)


text \<open>
  An OpenSSL that writes a hello and asks for four bytes in the handshake, reads what there is as
  plaintext, and sends what it is given as it is.
\<close>

definition demo_io :: "unit ssl_engine" where
  "demo_io c k =
     (case c of
        O_SSL_connect _ \<Rightarrow>
          Io_bio_write [22, 3] (\<lambda>_. Io_bio_read 4 (\<lambda>r.
            Io_return (no_answer\<lparr>r_ret := (if bo_ret r = 4 then 1 else -1)\<rparr>) k))
      | O_SSL_read _ n \<Rightarrow>
          if 0 < n
          then Io_bio_read n (\<lambda>r. Io_return (no_answer\<lparr>r_ret := int (length (take (nat n) (bo_bytes r))),
                 r_bytes := take (nat n) (bo_bytes r)\<rparr>) k)
          else Io_return (no_answer\<lparr>r_ret := 0\<rparr>) k
      | O_SSL_write _ bs \<Rightarrow>
          Io_bio_write bs (\<lambda>r. Io_return (no_answer\<lparr>r_ret :=
              (if bo_ret r = int (length bs) \<and> length bs < 1000 then int (length bs) else -1)\<rparr>) k)
      | _ \<Rightarrow> Io_return no_answer k)"

definition demo_errors :: "unit ssl_lib" where
  "demo_errors c k =
     (no_answer\<lparr>r_ret := (case c of O_SSL_get_error _ _ \<Rightarrow> SSL_ERROR_WANT_READ | _ \<Rightarrow> 0)\<rparr>, k)"

definition demo_greeting :: "unit peer" where
  "demo_greeting = \<lparr>direct_read = (\<lambda>p n. (Inr (take (nat n) [1, 2, 3, 4, 5]), p)), write_all = (\<lambda>p bs. (None, p))\<rparr>"

lemma demo_io_law: "io_law demo_errors demo_io"
proof -
  have "io_fits c (demo_io c k)" for c k
    by (cases c) (auto simp: demo_io_def no_answer_def i32_def signed_take_bit_int_less_eq_self_iff)
  then show ?thesis
    by (simp add: io_law_def demo_errors_def no_answer_def SSL_ERROR_WANT_READ_def i32_nonneg)
qed

lemmas demo_session_simps = quiet_def demo_io_def demo_errors_def demo_greeting_def no_answer_def ask_io_def ask_def
  bio_callbacks_def BIO_read_def BIO_write_def outcome_def tls_bio_set_flags_def handle_error_def
  flush_write_def read_more_def tls_ssl_connect_def tls_ssl_get_error_def ask_int_def after_call_def
  op_finish_def op_retry_def get_error_and_retry_def handshake_iter_def ib_enlarge_to_def ib_drop_def
  ib_capacity_def BUFFER_SIZE_def SEGMENT_SIZE_def span_def rd_def slice_def store_at_def poke_def blit_def
  array_blit_def ib_contents_def


section \<open>Two faults\<close>

text \<open>
  \<open>BIO::write\<close> and \<open>BIO::read\<close> never clear the retry flags, so once the write buffer was full
  \<open>SSL_get_error\<close> takes any later failure of a write for a buffer that is full. When the
  transport is closed meanwhile, \<open>write_once\<close> then repeats the same iteration for ever,
  without waiting for anything.
\<close>

lemma stale_flag_spins:
  assumes "E (O_SSL_write (se_ssl s) bs) (lib_st (se_world s)) = Io_bio_write out (\<lambda>r. Io_return (no_answer\<lparr>r_ret := bo_ret r\<rparr>) (lib_st (se_world s)))"
    "span buf off n = Some bs"
    "L (O_SSL_get_error (se_ssl s) (-1)) (lib_st (se_world s)) = (no_answer\<lparr>r_ret := SSL_ERROR_WANT_WRITE\<rparr>, lib_st (se_world s))"
    "tp_state (sp_tp (se_pipe s)) = Tp_closed" "ib_len (tp_write (sp_tp (se_pipe s))) = 0"
    "ib_start (tp_write (sp_tp (se_pipe s))) = 0" "1 \<le> ib_capacity (tp_write (sp_tp (se_pipe s)))"
    "se_phase s = Ssl_writing buf off n"
  shows "\<exists>t. ssl_step L E P Sq_step s = Some (s\<lparr>se_world := (se_world s)\<lparr>trace := t\<rparr>\<rparr>)"
proof -
  define t where "t = trace (se_world s) @ [(O_SSL_write (se_ssl s) bs, no_answer\<lparr>r_ret := -1\<rparr>),
    (O_SSL_get_error (se_ssl s) (-1), no_answer\<lparr>r_ret := SSL_ERROR_WANT_WRITE\<rparr>)]"
  have "ssl_step L E P Sq_step s = Some (s\<lparr>se_world := (se_world s)\<lparr>trace := t\<rparr>\<rparr>)"
    using assms
    by (auto simp: ssl_step_def quiet_def ssl_write_iter_def tls_ssl_write_def ask_io_def bio_callbacks_def BIO_write_def
        outcome_def no_answer_def get_error_and_retry_def tls_ssl_get_error_def ask_int_def ask_def after_call_def
        op_retry_def handle_error_def flush_write_def ib_enlarge_to_def SSL_ERROR_WANT_READ_def
        SSL_ERROR_WANT_WRITE_def i32_def t_def intro!: ssl_session.equality lib_world.equality)
  then show ?thesis by blast
qed

text \<open>
  \<open>flush_write\<close> waits for the writer between taking the data and emptying the buffer;
  \<open>flush_resume\<close> is the part after the wait. What \<open>BIO::write\<close> appends in between is neither
  sent nor kept.
\<close>

definition flush_resume :: "byte list \<Rightarrow> 'r transport \<Rightarrow> 'r transport" where
  "flush_resume data tp =
     tp\<lparr>tp_write := (tp_write tp)\<lparr>ib_start := 0, ib_len := 0\<rparr>, tp_sent := tp_sent tp @ data\<rparr>"

lemma flush_write_in_two:
  assumes "tp_state tp = Tp_normal" "0 < ib_len (tp_write tp)" "ib_wf (tp_write tp)"
    "write_all P (tp_peer tp) (ib_contents (tp_write tp)) = (None, p)"
  shows "flush_write P tp = Some (Inr (), flush_resume (ib_contents (tp_write tp)) (tp\<lparr>tp_peer := p\<rparr>))"
  using assms by (simp add: flush_write_def span_contents flush_resume_def)

lemma flush_loses_appended:
  assumes "tp_state tp = Tp_normal" "ib_wf (tp_write tp)" "data = ib_contents (tp_write tp)"
    "ib_start (tp_write tp) + ib_len (tp_write tp) + int (length bs) \<le> ib_capacity (tp_write tp)" "bs \<noteq> []"
  shows "\<exists>r tp1. BIO_write bs tp = Some (r, tp1) \<and> bo_ret r = int (length bs) \<and>
    tp_sent (flush_resume data tp1) = tp_sent tp @ data \<and> ib_contents (tp_write (flush_resume data tp1)) = []"
proof -
  let ?wb = "tp_write tp"
  obtain buf where buf: "store_at (ib_buf ?wb) (ib_start ?wb + ib_len ?wb) bs = Some buf"
    by (rule ib_append_ok [OF assms(2,4)])
  have room: "0 < ib_capacity ?wb - (ib_start ?wb + ib_len ?wb)"
    "min (int (length bs)) (ib_capacity ?wb - (ib_start ?wb + ib_len ?wb)) = int (length bs)"
    using assms(4,5) by (auto simp: min_def simp flip: length_greater_0_conv)
  then have "BIO_write bs tp = Some (outcome (int (length bs)) [],
      tp\<lparr>tp_write := ?wb\<lparr>ib_buf := buf, ib_len := ib_len ?wb + int (length bs)\<rparr>\<rparr>)"
    using assms(1) buf by (simp add: BIO_write_def Let_def)
  then show ?thesis by (simp add: outcome_def flush_resume_def ib_contents_def slice_def)
qed

end
