(* ===== verification/Host_Utils.thy ===== *)
theory Host_Utils
  imports Foreign_Lib Process_Env Socket_Addr Signals
begin

text \<open>
  The small stubs that ask the system for a description of the host: the text of an error
  code (\<open>os_error/stub.c\<close>), the interface the multicast tests use
  (\<open>find_ipv6_test_interface\<close> of \<open>socket/socket.c\<close>), the entries of the environment as a
  child process reads them (\<open>test_programs/dump_env\<close>) and the handler of termination signals
  of \<open>test_programs/sleep\<close>. The calls go through the library parameter of \<open>Foreign_Lib\<close>.

  The lemmas: \<open>errno_to_string\<close> returns as soon as the system has a text for one of the codes
  it reports, and never otherwise; the buffers of the interface search are given back
  once each on every path; a child reads exactly the environment it was spawned with.
\<close>

datatype (plugins only: code size) host_call =
    Format_message int
  | Local_free ptr
  | Str_error int
  | Heap_alloc int
  | Heap_free ptr
  | Adapters_addresses ptr int
  | Get_ifaddrs
  | Free_ifaddrs ptr
  | Name_to_index "byte list"
  | Control_handler
  | Signal_handler int
  | Printed "byte list"
  | Flushed
  | Exited int

type_synonym 'k host_lib = "(host_call, 'k) lib"
type_synonym 'k host_world = "(host_call, 'k) lib_world"

section \<open>The text of an error\<close>

text \<open>
  On Windows the function calls itself with the error of \<open>FormatMessageW\<close> until a text is
  found; \<open>None\<close> is that it does not return.
\<close>

partial_function (option) errno_to_string_win ::
  "'k host_lib \<Rightarrow> int \<Rightarrow> 'k host_world \<Rightarrow> (ptr \<times> 'k host_world) option" where
  "errno_to_string_win L code w =
     (let (a, w) = ask L (Format_message code) w
      in if r_ret a = 0 then errno_to_string_win L (last_error w) w
         else Some (nat (r_num a), w))"

definition errno_to_string ::
  "platform \<Rightarrow> 'k host_lib \<Rightarrow> int \<Rightarrow> 'k host_world \<Rightarrow> (ptr \<times> 'k host_world) option" where
  "errno_to_string pf L code w =
     (if pf = Windows then errno_to_string_win L code w
      else let (a, w) = ask L (Str_error code) w in Some (nat (r_ret a), w))"

definition free_errno_str :: "platform \<Rightarrow> 'k host_lib \<Rightarrow> ptr \<Rightarrow> 'k host_world \<Rightarrow> 'k host_world" where
  "free_errno_str pf L str w = (if pf = Windows then ask_do L (Local_free str) w else w)"

text \<open>\<open>errno_to_string\<close> of \<open>os_error/error.mbt\<close>: the text is read by \<open>read\<close> and then given back.\<close>

definition error_text ::
  "platform \<Rightarrow> 'k host_lib \<Rightarrow> (ptr \<Rightarrow> 'k host_world \<Rightarrow> 's) \<Rightarrow> int \<Rightarrow> 'k host_world \<Rightarrow>
   ('s \<times> 'k host_world) option" where
  "error_text pf L read code w =
     map_option (\<lambda>(str, w). (read str w, free_errno_str pf L str w)) (errno_to_string pf L code w)"

section \<open>The interface of the multicast tests\<close>

text \<open>\<open>IN6_IS_ADDR_LINKLOCAL\<close>: the address is in \<open>fe80::/10\<close>. A socket address is its family and the address.\<close>

definition link_local :: "byte list \<Rightarrow> bool" where
  "link_local addr \<longleftrightarrow>
     (case addr of b0 # b1 # _ \<Rightarrow> b0 = 0xfe \<and> b1 AND 0xc0 = 0x80 | _ \<Rightarrow> False)"

type_synonym sockaddr6 = "int \<times> byte list"

subsection \<open>Windows\<close>

definition IfOperStatusUp :: int where "IfOperStatusUp = 1"
definition IP_ADAPTER_NO_MULTICAST :: "32 word" where "IP_ADAPTER_NO_MULTICAST = 0x10"
definition NO_ERROR :: int where "NO_ERROR = 0"
definition ERROR_BUFFER_OVERFLOW :: int where "ERROR_BUFFER_OVERFLOW = 111"

record adapter =
  OperStatus :: int
  Ipv6IfIndex :: "32 word"
  adapter_flags :: "32 word"
  unicast_addresses :: "sockaddr6 option list"

fun scan_unicast :: "32 word \<Rightarrow> sockaddr6 option list \<Rightarrow> int" where
  "scan_unicast index [] = 0"
| "scan_unicast index (sa # rest) =
     (case sa of
        None \<Rightarrow> scan_unicast index rest
      | Some (family, addr) \<Rightarrow>
          if family \<noteq> int (AF_INET6 Windows) then scan_unicast index rest
          else if \<not> link_local addr then scan_unicast index rest
          else sint index)"

fun scan_adapters :: "adapter list \<Rightarrow> int" where
  "scan_adapters [] = 0"
| "scan_adapters (adapter # rest) =
     (if OperStatus adapter \<noteq> IfOperStatusUp then scan_adapters rest
      else if Ipv6IfIndex adapter = 0 then scan_adapters rest
      else if adapter_flags adapter AND IP_ADAPTER_NO_MULTICAST \<noteq> 0 then scan_adapters rest
      else let result = scan_unicast (Ipv6IfIndex adapter) (unicast_addresses adapter)
           in if result \<noteq> 0 then result else scan_adapters rest)"

text \<open>
  The loop of at most three tries: \<open>None\<close> is the early \<open>return 0\<close> when the heap is
  exhausted. The last answer stands for the block it filled.
\<close>

primrec try_adapters ::
  "nat \<Rightarrow> 'k host_lib \<Rightarrow> int \<Rightarrow> ptr \<Rightarrow> int \<Rightarrow> lib_answer \<Rightarrow> 'k host_world \<Rightarrow>
   (int \<times> ptr \<times> lib_answer) option \<times> 'k host_world" where
  "try_adapters 0 L code addrs buf_len filled w = (Some (code, addrs, filled), w)"
| "try_adapters (Suc n) L code addrs buf_len filled w =
     (if code \<noteq> ERROR_BUFFER_OVERFLOW then (Some (code, addrs, filled), w)
      else
        let w = (if addrs \<noteq> 0 then ask_do L (Heap_free addrs) w else w);
            (a, w) = ask L (Heap_alloc buf_len) w;
            addrs = nat (r_ret a)
        in if addrs = 0 then (None, w)
           else let (b, w) = ask L (Adapters_addresses addrs buf_len) w
                in try_adapters n L (r_ret b) addrs (r_num b) b w)"

definition no_answer :: lib_answer where
  "no_answer = \<lparr>r_ret = 0, r_err = None, r_num = 0, r_nums = [], r_bytes = [], r_bufs = []\<rparr>"

text \<open>\<open>view\<close> is the linked list of adapters in the block an answer filled.\<close>

definition find_ipv6_test_interface_win ::
  "'k host_lib \<Rightarrow> (lib_answer \<Rightarrow> adapter list) \<Rightarrow> 'k host_world \<Rightarrow> int \<times> 'k host_world" where
  "find_ipv6_test_interface_win L view w =
     (case try_adapters 3 L ERROR_BUFFER_OVERFLOW 0 (16 * 1024) no_answer w of
        (None, w) \<Rightarrow> (0, w)
      | (Some (code, addrs, filled), w) \<Rightarrow>
          if code \<noteq> NO_ERROR then (0, if addrs \<noteq> 0 then ask_do L (Heap_free addrs) w else w)
          else (scan_adapters (view filled), ask_do L (Heap_free addrs) w))"

subsection \<open>Unix\<close>

definition IFF_UP :: "32 word" where "IFF_UP = 1"
definition IFF_LOOPBACK :: "32 word" where "IFF_LOOPBACK = 8"
definition IFF_RUNNING :: "32 word" where "IFF_RUNNING = 0x40"
definition IFF_MULTICAST :: "platform \<Rightarrow> 32 word" where
  "IFF_MULTICAST pf = (if pf = Linux then 0x1000 else 0x8000)"

record ifaddr =
  ifa_name :: "byte list"
  ifa_flags :: "32 word"
  ifa_addr :: "sockaddr6 option"

definition ifaddr_fits :: "platform \<Rightarrow> ifaddr \<Rightarrow> bool" where
  "ifaddr_fits pf i \<longleftrightarrow>
     ifa_addr i \<noteq> None \<and>
     fst (the (ifa_addr i)) = int (AF_INET6 pf) \<and>
     (if pf = Linux then ifa_flags i AND IFF_LOOPBACK = 0 else ifa_flags i AND IFF_LOOPBACK \<noteq> 0) \<and>
     ifa_flags i AND IFF_UP \<noteq> 0 \<and>
     ifa_flags i AND IFF_RUNNING \<noteq> 0 \<and>
     ifa_flags i AND IFF_MULTICAST pf \<noteq> 0 \<and>
     link_local (snd (the (ifa_addr i)))"

primrec scan_ifaddrs ::
  "platform \<Rightarrow> 'k host_lib \<Rightarrow> ifaddr list \<Rightarrow> int \<Rightarrow> 'k host_world \<Rightarrow> int \<times> 'k host_world" where
  "scan_ifaddrs pf L [] result w = (result, w)"
| "scan_ifaddrs pf L (i # rest) result w =
     (if ifaddr_fits pf i
      then let (a, w) = ask L (Name_to_index (ifa_name i)) w;
               result = i32 (r_ret a)
           in if result \<noteq> 0 then (result, w) else scan_ifaddrs pf L rest result w
      else scan_ifaddrs pf L rest result w)"

definition find_ipv6_test_interface_unix ::
  "platform \<Rightarrow> 'k host_lib \<Rightarrow> (lib_answer \<Rightarrow> ifaddr list) \<Rightarrow> 'k host_world \<Rightarrow> int \<times> 'k host_world" where
  "find_ipv6_test_interface_unix pf L view w =
     (let (a, w) = ask L Get_ifaddrs w
      in if r_ret a < 0 then (0, w)
         else let (result, w) = scan_ifaddrs pf L (view a) 0 w
              in (result, ask_do L (Free_ifaddrs (nat (r_num a))) w))"

section \<open>The environment as a child reads it\<close>

text \<open>
  \<open>test_programs/dump_env\<close>: the loop of \<open>main\<close> prints the entries up to the first empty one.
  The cursor is the rest of the block, \<open>None\<close> for a null pointer; an outer \<open>None\<close> is a
  read past the block or a length that is no \<open>int\<close>.
\<close>

definition next_entry_win :: "wchar list option \<Rightarrow> (wchar list \<times> wchar list option) option" where
  "next_entry_win env_ptr =
     (case env_ptr of
        None \<Rightarrow> Some ([], None)
      | Some env \<Rightarrow>
          (case block_len env of
             None \<Rightarrow> None
           | Some len \<Rightarrow>
               if 2 ^ 31 \<le> len then None
               else if len = 0 then Some ([], Some env)
               else Some (take len env, Some (drop (len + 1) env))))"

lemma next_entry_win_shrinks:
  assumes "next_entry_win env = Some (entry, env')" "entry \<noteq> []"
  shows "\<exists>cells rest. env = Some cells \<and> env' = Some rest \<and> length rest < length cells"
  using assms by (auto simp: next_entry_win_def split: option.splits if_splits)

function dump_env_win :: "wchar list option \<Rightarrow> wchar list list option" where
  "dump_env_win env =
     (case next_entry_win env of
        None \<Rightarrow> None
      | Some (entry, env') \<Rightarrow>
          if length entry > 0 then map_option (Cons entry) (dump_env_win env') else Some [])"
  by pat_completeness auto
termination
  by (relation "measure (\<lambda>env. case env of None \<Rightarrow> 0 | Some cells \<Rightarrow> length cells)")
    (auto dest: next_entry_win_shrinks)

declare dump_env_win.simps [simp del]

text \<open>On Unix the cursor walks the array of pointers; \<open>mem\<close> is the memory the strings are in.\<close>

definition next_entry_unix ::
  "(ptr \<Rightarrow> byte list option) \<Rightarrow> ptr list option \<Rightarrow> (byte list \<times> ptr list option) option" where
  "next_entry_unix mem cursor =
     (case cursor of
        None \<Rightarrow> Some ([], None)
      | Some [] \<Rightarrow> None
      | Some (p # rest) \<Rightarrow>
          if p = 0 then Some ([], cursor)
          else (case Option.bind (mem p) (\<lambda>bs. map_option (\<lambda>len. (bs, len)) (c_strlen bs)) of
                  None \<Rightarrow> None
                | Some (bs, len) \<Rightarrow>
                    if 2 ^ 31 \<le> len then None else Some (take len bs, Some rest)))"

lemma next_entry_unix_shrinks:
  assumes "next_entry_unix mem cursor = Some (entry, cursor')" "entry \<noteq> []"
  shows "\<exists>p rest. cursor = Some (p # rest) \<and> cursor' = Some rest"
  using assms by (auto simp: next_entry_unix_def split: option.splits if_splits list.splits)

function dump_env_unix :: "(ptr \<Rightarrow> byte list option) \<Rightarrow> ptr list option \<Rightarrow> byte list list option" where
  "dump_env_unix mem cursor =
     (case next_entry_unix mem cursor of
        None \<Rightarrow> None
      | Some (entry, cursor') \<Rightarrow>
          if length entry > 0 then map_option (Cons entry) (dump_env_unix mem cursor') else Some [])"
  by pat_completeness auto
termination
  by (relation "measure (\<lambda>(mem, cursor). case cursor of None \<Rightarrow> 0 | Some ps \<Rightarrow> length ps)")
    (auto dest: next_entry_unix_shrinks)

declare dump_env_unix.simps [simp del]

section \<open>The handler of termination signals\<close>

definition termination_message :: "byte list" where
  "termination_message = map of_char ''received termination signal'' @ [10]"

definition other_message :: "byte list" where
  "other_message = map of_char ''received other signal'' @ [10]"

definition set_swallow_cancel_signal :: "int \<Rightarrow> int" where
  "set_swallow_cancel_signal swallow_cancel_signal = 1"

definition sleep_handler_win :: "'k host_lib \<Rightarrow> int \<Rightarrow> int \<Rightarrow> 'k host_world \<Rightarrow> int \<times> 'k host_world" where
  "sleep_handler_win L swallow_cancel_signal ctrl_type w =
     (if ctrl_type = CTRL_BREAK_EVENT
      then let w = ask_do L (Printed termination_message) w;
               w = ask_do L Flushed w
           in (1, if swallow_cancel_signal = 0 then ask_do L (Exited 1) w else w)
      else let w = ask_do L (Printed other_message) w in (1, ask_do L Flushed w))"

definition sleep_handler_unix :: "'k host_lib \<Rightarrow> int \<Rightarrow> int \<Rightarrow> 'k host_world \<Rightarrow> 'k host_world" where
  "sleep_handler_unix L swallow_cancel_signal s w =
     (if s = SIGTERM
      then let w = ask_do L (Printed termination_message) w;
               w = ask_do L Flushed w
           in if swallow_cancel_signal = 0 then ask_do L (Exited 1) w else w
      else let w = ask_do L (Printed other_message) w in ask_do L Flushed w)"

definition register_termination_handler :: "platform \<Rightarrow> 'k host_lib \<Rightarrow> 'k host_world \<Rightarrow> 'k host_world" where
  "register_termination_handler pf L w =
     (if pf = Windows then ask_do L Control_handler w
      else let w = ask_do L (Signal_handler SIGTERM) w in ask_do L (Signal_handler SIGINT) w)"

section \<open>What the host functions keep\<close>

datatype host_resource = Text ptr | Heap_block ptr | Interfaces ptr

fun host_gains :: "host_call \<Rightarrow> lib_answer \<Rightarrow> host_resource list" where
  "host_gains (Format_message _) a = (if r_ret a = 0 then [] else [Text (nat (r_num a))])"
| "host_gains (Heap_alloc _) a = (if nat (r_ret a) = 0 then [] else [Heap_block (nat (r_ret a))])"
| "host_gains Get_ifaddrs a = (if r_ret a < 0 then [] else [Interfaces (nat (r_num a))])"
| "host_gains _ a = []"

fun host_loses :: "host_call \<Rightarrow> host_resource list" where
  "host_loses (Local_free p) = [Text p]"
| "host_loses (Heap_free p) = [Heap_block p]"
| "host_loses (Free_ifaddrs p) = [Interfaces p]"
| "host_loses _ = []"

fun host_uses :: "host_call \<Rightarrow> host_resource list" where
  "host_uses (Adapters_addresses p _) = [Heap_block p]"
| "host_uses _ = []"

text \<open>\<open>host_held w w' S\<close>: of what was gained since \<open>w\<close>, exactly \<open>S\<close> is held in \<open>w'\<close>.\<close>

definition host_held :: "'k host_world \<Rightarrow> 'k host_world \<Rightarrow> host_resource multiset \<Rightarrow> bool" where
  "host_held w w' S \<longleftrightarrow>
     (\<exists>t. trace w' = trace w @ t \<and> own host_gains host_loses host_uses {#} t = Some S)"

lemma host_held_refl: "host_held w w {#}"
  by (simp add: host_held_def)

lemma host_held_ask:
  assumes "host_held w w' S" "set (host_uses c) \<subseteq> set_mset S" "mset (host_loses c) \<subseteq># S"
  shows "host_held w (snd (ask L c w')) (S - mset (host_loses c) + mset (host_gains c (fst (ask L c w'))))"
  using assms by (auto simp: host_held_def trace_ask own_append)

lemma host_held_do:
  assumes "host_held w w' S" "set (host_uses c) \<subseteq> set_mset S" "mset (host_loses c) \<subseteq># S"
    "\<And>a. host_gains c a = []"
  shows "host_held w (ask_do L c w') (S - mset (host_loses c))"
  using host_held_ask [OF assms(1-3)] assms(4) by (simp add: ask_do_def)

subsection \<open>Errors\<close>

lemma errno_to_string_win_found:
  "r_ret (fst (ask L (Format_message code) w)) \<noteq> 0 \<Longrightarrow>
     errno_to_string_win L code w =
       Some (nat (r_num (fst (ask L (Format_message code) w))), snd (ask L (Format_message code) w))"
  by (simp add: errno_to_string_win.simps [of L code w] split_beta)

lemma errno_to_string_win_again:
  "r_ret (fst (ask L (Format_message code) w)) = 0 \<Longrightarrow>
     errno_to_string_win L code w =
       errno_to_string_win L (last_error (snd (ask L (Format_message code) w))) (snd (ask L (Format_message code) w))"
  by (simp add: errno_to_string_win.simps [of L code w] split_beta)

lemma errno_to_string_win_held:
  assumes "errno_to_string_win L code w = Some r" "host_held w0 w {#}"
  shows "host_held w0 (snd r) {#Text (fst r)#}"
proof -
  have "\<forall>w0. host_held w0 w {#} \<longrightarrow> host_held w0 (snd r) {#Text (fst r)#}"
  proof (rule errno_to_string_win.raw_induct
      [where P = "\<lambda>L code w r. \<forall>w0. host_held w0 w {#} \<longrightarrow> host_held w0 (snd r) {#Text (fst r)#}", OF _ assms(1)])
    fix f L code w r
    assume IH: "\<And>L code w r. f L code w = Some r \<Longrightarrow>
        \<forall>w0. host_held w0 w {#} \<longrightarrow> host_held w0 (snd r) {#Text (fst r)#}"
      and eq: "(let (a, w) = ask L (Format_message code) w
        in if r_ret a = 0 then f L (last_error w) w else Some (nat (r_num a), w)) = Some r"
    show "\<forall>w0. host_held w0 w {#} \<longrightarrow> host_held w0 (snd r) {#Text (fst r)#}"
    proof (intro allI impI)
      fix w0
      assume "host_held w0 w {#}"
      from host_held_ask [OF this, of "Format_message code" L] IH eq
      show "host_held w0 (snd r) {#Text (fst r)#}"
        by (auto simp: split_beta Let_def split: if_splits)
    qed
  qed
  with assms(2) show ?thesis by blast
qed

lemma error_text_frees:
  assumes "error_text Windows L read code w = Some (s, w')"
  shows "host_held w w' {#}"
proof -
  from assms obtain str w1 where e: "errno_to_string_win L code w = Some (str, w1)"
    and w': "w' = ask_do L (Local_free str) w1"
    by (auto simp: error_text_def errno_to_string_def free_errno_str_def)
  from errno_to_string_win_held [OF e host_held_refl] have "host_held w w1 {#Text str#}" by simp
  from host_held_do [OF this, of "Local_free str" L] show ?thesis by (simp add: w')
qed

text \<open>It does not return when the system has no text at all: the function only calls itself.\<close>

lemma errno_to_string_win_asks:
  assumes "errno_to_string_win L code w = Some r"
  shows "\<exists>c k. r_ret (fst (L c k)) \<noteq> 0"
proof (rule errno_to_string_win.raw_induct [where P = "\<lambda>L code w r. \<exists>c k. r_ret (fst (L c k)) \<noteq> 0", OF _ assms])
  fix f :: "'a host_lib \<Rightarrow> int \<Rightarrow> 'a host_world \<Rightarrow> (ptr \<times> 'a host_world) option"
  fix L code w r
  assume IH: "\<And>L code w r. f L code w = Some r \<Longrightarrow> \<exists>c k. r_ret (fst (L c k)) \<noteq> 0"
    and eq: "(let (a, w) = ask L (Format_message code) w
      in if r_ret a = 0 then f L (last_error w) w else Some (nat (r_num a), w)) = Some r"
  show "\<exists>c k. r_ret (fst (L c k)) \<noteq> 0"
  proof (cases "r_ret (fst (ask L (Format_message code) w)) = 0")
    case True
    with eq IH show ?thesis by (auto simp: split_beta Let_def)
  next
    case False
    then show ?thesis by (auto simp: fst_ask)
  qed
qed

lemma errno_to_string_win_loops:
  "(\<And>c k. r_ret (fst (L c k)) = 0) \<Longrightarrow> errno_to_string_win L code w = None"
  using errno_to_string_win_asks by fastforce

subsection \<open>The interface search\<close>

text \<open>What the search means: the first adapter of the list that fits, or nothing.\<close>

definition local_unicast :: "sockaddr6 option \<Rightarrow> bool" where
  "local_unicast sa \<longleftrightarrow>
     (case sa of None \<Rightarrow> False | Some (family, addr) \<Rightarrow> family = int (AF_INET6 Windows) \<and> link_local addr)"

definition adapter_fits :: "adapter \<Rightarrow> bool" where
  "adapter_fits adapter \<longleftrightarrow>
     OperStatus adapter = IfOperStatusUp \<and> Ipv6IfIndex adapter \<noteq> 0 \<and>
     adapter_flags adapter AND IP_ADAPTER_NO_MULTICAST = 0 \<and>
     list_ex local_unicast (unicast_addresses adapter)"

lemma scan_unicast_spec:
  "scan_unicast index addrs = (if list_ex local_unicast addrs then sint index else 0)"
  by (induction index addrs rule: scan_unicast.induct) (auto simp: local_unicast_def split: option.splits)

lemma scan_adapters_spec:
  "scan_adapters as = (case List.find adapter_fits as of None \<Rightarrow> 0 | Some a \<Rightarrow> sint (Ipv6IfIndex a))"
  by (induction as) (auto simp: adapter_fits_def scan_unicast_spec Let_def signed_eq_0_iff)

definition heap_block :: "ptr \<Rightarrow> host_resource multiset" where
  "heap_block p = (if p = 0 then {#} else {#Heap_block p#})"

text \<open>One try: the old block is given back, the new one is filled.\<close>

definition dropped_block :: "'k host_lib \<Rightarrow> ptr \<Rightarrow> 'k host_world \<Rightarrow> 'k host_world" where
  "dropped_block L addrs w = (if addrs \<noteq> 0 then ask_do L (Heap_free addrs) w else w)"

lemma try_adapters_step:
  assumes "try_adapters (Suc n) L ERROR_BUFFER_OVERFLOW addrs buf_len filled w = (r, w')"
  obtains (exhausted) a w1 where "ask L (Heap_alloc buf_len) (dropped_block L addrs w) = (a, w1)"
      "nat (r_ret a) = 0" "r = None" "w' = w1"
    | (got) a w1 b w2 where "ask L (Heap_alloc buf_len) (dropped_block L addrs w) = (a, w1)"
      "nat (r_ret a) \<noteq> 0" "ask L (Adapters_addresses (nat (r_ret a)) buf_len) w1 = (b, w2)"
      "try_adapters n L (r_ret b) (nat (r_ret a)) (r_num b) b w2 = (r, w')"
proof -
  obtain a w1 where a: "ask L (Heap_alloc buf_len) (dropped_block L addrs w) = (a, w1)" by fastforce
  obtain b w2 where b: "ask L (Adapters_addresses (nat (r_ret a)) buf_len) w1 = (b, w2)" by fastforce
  from assms a b have "(if nat (r_ret a) = 0 then (None, w1)
      else try_adapters n L (r_ret b) (nat (r_ret a)) (r_num b) b w2) = (r, w')"
    by (simp only: try_adapters.simps if_False simp_thms Let_def prod.case dropped_block_def [symmetric])
  with a b that show thesis by (auto split: if_splits simp del: nat_eq_iff2)
qed

lemma dropped_block_held:
  "host_held w0 w (heap_block addrs) \<Longrightarrow> host_held w0 (dropped_block L addrs w) {#}"
  using host_held_do [of w0 w "heap_block addrs" "Heap_free addrs" L]
  by (auto simp: heap_block_def dropped_block_def)

lemma host_held_pair:
  assumes "ask L c w1 = (a, w2)" "host_held w0 w1 S" "set (host_uses c) \<subseteq> set_mset S"
    "mset (host_loses c) \<subseteq># S" "S - mset (host_loses c) + mset (host_gains c a) = S'"
  shows "host_held w0 w2 S'"
  using host_held_ask [OF assms(2-4), of L] assms(1,5) by simp

text \<open>The tries keep one block at most; without an error it is filled by the last call.\<close>

lemma try_adapters_held:
  assumes "try_adapters n L status addrs buf_len filled w = (r, w')" "host_held w0 w (heap_block addrs)"
  shows "host_held w0 w' (case r of None \<Rightarrow> {#} | Some (_, p, _) \<Rightarrow> heap_block p)"
  using assms
proof (induction n arbitrary: status addrs buf_len filled w)
  case (Suc n)
  note drop = dropped_block_held [OF Suc.prems(2), of L]
  show ?case
  proof (cases "status = ERROR_BUFFER_OVERFLOW")
    case True
    with Suc.prems(1) have "try_adapters (Suc n) L ERROR_BUFFER_OVERFLOW addrs buf_len filled w = (r, w')" by simp
    then show ?thesis
    proof (cases rule: try_adapters_step)
      case (exhausted a w1)
      from host_held_pair [OF exhausted(1) drop] exhausted(2-4) show ?thesis by simp
    next
      case (got a w1 b w2)
      from host_held_pair [OF got(1) drop] got(2) have "host_held w0 w1 (heap_block (nat (r_ret a)))"
        by (simp add: heap_block_def)
      from host_held_pair [OF got(3) this] got(2) have "host_held w0 w2 (heap_block (nat (r_ret a)))"
        by (simp add: heap_block_def)
      from Suc.IH [OF got(4) this] show ?thesis .
    qed
  qed (use Suc.prems in auto)
qed auto

lemma try_adapters_ok:
  assumes "try_adapters n L status addrs buf_len filled w = (Some (e, p, b), w')" "e \<noteq> ERROR_BUFFER_OVERFLOW"
    "status = ERROR_BUFFER_OVERFLOW"
  shows "p \<noteq> 0 \<and> r_ret b = e \<and> (\<exists>len. (Adapters_addresses p len, b) \<in> set (trace w'))"
  using assms
proof (induction n arbitrary: status addrs buf_len filled w)
  case (Suc n)
  from Suc.prems(1) [unfolded Suc.prems(3)] show ?case
  proof (cases rule: try_adapters_step)
    case (got a w1 b1 w2)
    show ?thesis
    proof (cases "r_ret b1 = ERROR_BUFFER_OVERFLOW")
      case True
      from Suc.IH [OF got(4) Suc.prems(2) True] show ?thesis .
    next
      case False
      with got(4) have "e = r_ret b1" "p = nat (r_ret a)" "b = b1" "w' = w2" by (cases n; simp)+
      moreover have "(Adapters_addresses (nat (r_ret a)) buf_len, b1) \<in> set (trace w2)"
        using trace_ask [of L "Adapters_addresses (nat (r_ret a)) buf_len" w1] got(3) by simp
      ultimately show ?thesis using got(2) by auto
    qed
  qed simp
qed simp

lemma try_adapters_length:
  assumes "try_adapters n L status addrs buf_len filled w = (r, w')"
  shows "length (trace w') \<le> length (trace w) + 3 * n"
  using assms
proof (induction n arbitrary: status addrs buf_len filled w)
  case (Suc n)
  have len: "length (trace w2) = length (trace w1) + 1" if "ask L c w1 = (a, w2)" for c a w1 w2
    using trace_ask [of L c w1] that by simp
  have drop: "length (trace (dropped_block L addrs w)) \<le> length (trace w) + 1"
    by (simp add: dropped_block_def trace_ask_do)
  show ?case
  proof (cases "status = ERROR_BUFFER_OVERFLOW")
    case True
    from Suc.prems [unfolded True] show ?thesis
    proof (cases rule: try_adapters_step)
      case (exhausted a w1)
      with len [OF exhausted(1)] drop show ?thesis by simp
    next
      case (got a w1 b1 w2)
      with len [OF got(1)] len [OF got(3)] drop Suc.IH [OF got(4)] show ?thesis by simp
    qed
  qed (use Suc.prems in auto)
qed simp

lemma scan_ifaddrs_held:
  assumes "scan_ifaddrs pf L is result w = (r, w')" "host_held w0 w S"
  shows "host_held w0 w' S"
  using assms
proof (induction "is" arbitrary: result w)
  case (Cons i rest)
  obtain a w1 where a: "ask L (Name_to_index (ifa_name i)) w = (a, w1)" by fastforce
  from host_held_pair [OF a Cons.prems(2)] have "host_held w0 w1 S" by simp
  with Cons a show ?case by (auto split: if_splits simp: Let_def)
qed simp

lemma scan_ifaddrs_found:
  assumes "scan_ifaddrs pf L is 0 w = (r, w')" "r \<noteq> 0"
  shows "\<exists>i b. i \<in> set is \<and> ifaddr_fits pf i \<and> r = i32 (r_ret b) \<and> (Name_to_index (ifa_name i), b) \<in> set (trace w')"
  using assms
proof (induction "is" arbitrary: w)
  case (Cons i rest)
  obtain a w1 where a: "ask L (Name_to_index (ifa_name i)) w = (a, w1)" by fastforce
  have l: "(Name_to_index (ifa_name i), a) \<in> set (trace w1)"
    using trace_ask [of L "Name_to_index (ifa_name i)" w] a by simp
  show ?case
  proof (cases "ifaddr_fits pf i \<and> i32 (r_ret a) \<noteq> 0")
    case True
    with Cons.prems(1) a have "r = i32 (r_ret a)" "w' = w1" by (auto simp: Let_def)
    with True l show ?thesis by auto
  next
    case False
    with Cons.prems(1) a have "\<exists>w2. scan_ifaddrs pf L rest 0 w2 = (r, w')"
      by (auto simp: Let_def split: if_splits)
    with Cons.IH Cons.prems(2) show ?thesis by fastforce
  qed
qed simp

lemma find_ipv6_test_interface_win_ok:
  assumes "find_ipv6_test_interface_win L adapters w = (r, w')"
  shows "host_held w w' {#}" "length (trace w') \<le> length (trace w) + 10"
    "r \<noteq> 0 \<longrightarrow> (\<exists>p len b a. (Adapters_addresses p len, b) \<in> set (trace w') \<and> r_ret b = NO_ERROR \<and>
       List.find adapter_fits (adapters b) = Some a \<and> r = sint (Ipv6IfIndex a))"
proof -
  obtain q w1 where t: "try_adapters 3 L ERROR_BUFFER_OVERFLOW 0 (16 * 1024) no_answer w = (q, w1)" by fastforce
  have held: "host_held w w1 (case q of None \<Rightarrow> {#} | Some (_, p, _) \<Rightarrow> heap_block p)"
    by (rule try_adapters_held [OF t]) (simp add: heap_block_def host_held_refl)
  have len: "length (trace w1) \<le> length (trace w) + 9" using try_adapters_length [OF t] by simp
  have "host_held w w' {#} \<and> length (trace w') \<le> length (trace w) + 10 \<and>
    (r \<noteq> 0 \<longrightarrow> (\<exists>p len b a. (Adapters_addresses p len, b) \<in> set (trace w') \<and> r_ret b = NO_ERROR \<and>
       List.find adapter_fits (adapters b) = Some a \<and> r = sint (Ipv6IfIndex a)))"
  proof (cases q)
    case None
    with assms t held len show ?thesis by (simp add: find_ipv6_test_interface_win_def)
  next
    case (Some s)
    then obtain e p b where q: "q = Some (e, p, b)" by (cases s) auto
    have p: "p \<noteq> 0 \<and> r_ret b = NO_ERROR \<and> (\<exists>n. (Adapters_addresses p n, b) \<in> set (trace w1))" if "e = NO_ERROR"
      using try_adapters_ok [OF t [unfolded q]] that by (simp add: NO_ERROR_def ERROR_BUFFER_OVERFLOW_def)
    have w': "w' = dropped_block L p w1" and r: "r = (if e = NO_ERROR then scan_adapters (adapters b) else 0)"
      using assms t q p by (auto simp: find_ipv6_test_interface_win_def dropped_block_def split: if_splits)
    from q held have "host_held w w1 (heap_block p)" by simp
    from dropped_block_held [OF this, of L] have "host_held w w' {#}" by (simp add: w')
    moreover have "length (trace w') \<le> length (trace w) + 10" "set (trace w1) \<subseteq> set (trace w')"
      using len by (auto simp: w' dropped_block_def trace_ask_do)
    ultimately show ?thesis
      using p r by (auto simp: scan_adapters_spec split: option.splits if_splits)
  qed
  then show "host_held w w' {#}" "length (trace w') \<le> length (trace w) + 10"
    "r \<noteq> 0 \<longrightarrow> (\<exists>p len b a. (Adapters_addresses p len, b) \<in> set (trace w') \<and> r_ret b = NO_ERROR \<and>
       List.find adapter_fits (adapters b) = Some a \<and> r = sint (Ipv6IfIndex a))"
    by blast+
qed

lemma find_ipv6_test_interface_unix_ok:
  assumes "find_ipv6_test_interface_unix pf L ifs w = (r, w')"
  shows "host_held w w' {#}"
    "r \<noteq> 0 \<longrightarrow> (\<exists>i b. i \<in> set (ifs (fst (ask L Get_ifaddrs w))) \<and> ifaddr_fits pf i \<and>
       (Name_to_index (ifa_name i), b) \<in> set (trace w') \<and> r = i32 (r_ret b))"
proof -
  obtain a w1 where a: "ask L Get_ifaddrs w = (a, w1)" by fastforce
  obtain q w2 where q: "scan_ifaddrs pf L (ifs a) 0 w1 = (q, w2)" by fastforce
  let ?p = "Interfaces (nat (r_num a))"
  from host_held_pair [OF a host_held_refl]
  have w1: "host_held w w1 (if r_ret a < 0 then {#} else {#?p#})"
    by (cases "r_ret a < 0") simp_all
  have "host_held w (ask_do L (Free_ifaddrs (nat (r_num a))) w2) {#}" if "\<not> r_ret a < 0"
  proof -
    from scan_ifaddrs_held [OF q w1] that have "host_held w w2 {#?p#}" by simp
    from host_held_do [OF this, of "Free_ifaddrs (nat (r_num a))" L] show ?thesis by simp
  qed
  with assms a q w1 show "host_held w w' {#}"
    by (auto simp: find_ipv6_test_interface_unix_def split: if_splits)
  show "r \<noteq> 0 \<longrightarrow> (\<exists>i b. i \<in> set (ifs (fst (ask L Get_ifaddrs w))) \<and> ifaddr_fits pf i \<and>
       (Name_to_index (ifa_name i), b) \<in> set (trace w') \<and> r = i32 (r_ret b))"
    using assms a q scan_ifaddrs_found [OF q]
    by (auto simp: find_ipv6_test_interface_unix_def trace_ask_do split: if_splits) blast
qed

text \<open>
  An interface that fits, from the numbers of the systems: its address is an IPv6 address of
  the link, it is up and running and takes part in multicast, and it is the loopback
  exactly when the system is not Linux.
\<close>

definition test_interface :: "platform \<Rightarrow> ifaddr \<Rightarrow> bool" where
  "test_interface pf i \<longleftrightarrow>
     (\<exists>b0 b1 rest. ifa_addr i =
        Some (case pf of Linux \<Rightarrow> 10 | MacOS \<Rightarrow> 30 | Windows \<Rightarrow> 23 | OtherUnix \<Rightarrow> 28, b0 # b1 # rest) \<and>
        b0 = 0xfe \<and> bit b1 7 \<and> \<not> bit b1 6) \<and>
     bit (ifa_flags i) 0 \<and> bit (ifa_flags i) 6 \<and>
     bit (ifa_flags i) (if pf = Linux then 12 else 15) \<and>
     (bit (ifa_flags i) 3 \<longleftrightarrow> pf \<noteq> Linux)"

lemma top_bits: "b AND 0xc0 = 0x80 \<longleftrightarrow> bit b 7 \<and> \<not> bit b 6" for b :: byte
proof -
  have "b AND 0xc0 = 0x80 \<longleftrightarrow> (\<forall>n < 8. bit (b AND 0xc0) n = bit (0x80 :: byte) n)"
    by (auto simp: bit_eq_iff dest: bit_imp_le_length)
  also have "\<dots> \<longleftrightarrow> bit b 7 \<and> \<not> bit b 6"
    by (simp add: eval_nat_numeral less_Suc_eq bit_simps all_conj_distrib) blast
  finally show ?thesis .
qed

lemma flag_bit: "f AND 1 \<noteq> 0 \<longleftrightarrow> bit f 0" "f AND 8 = 0 \<longleftrightarrow> \<not> bit f 3" "f AND 0x40 \<noteq> 0 \<longleftrightarrow> bit f 6"
  "f AND 0x1000 \<noteq> 0 \<longleftrightarrow> bit f 12" "f AND 0x8000 \<noteq> 0 \<longleftrightarrow> bit f 15" for f :: "32 word"
  using and_exp_eq_0_iff_not_bit [of f 0] and_exp_eq_0_iff_not_bit [of f 3] and_exp_eq_0_iff_not_bit [of f 6]
    and_exp_eq_0_iff_not_bit [of f 12] and_exp_eq_0_iff_not_bit [of f 15] by simp_all

lemma ifaddr_fits_iff: "ifaddr_fits pf i \<longleftrightarrow> test_interface pf i"
proof (cases "ifa_addr i")
  case None
  then show ?thesis by (simp add: ifaddr_fits_def test_interface_def)
next
  case (Some a)
  obtain t bs where a: "a = (t, bs)" by fastforce
  have "link_local bs \<longleftrightarrow> (\<exists>b0 b1 rest. bs = b0 # b1 # rest \<and> b0 = 0xfe \<and> bit b1 7 \<and> \<not> bit b1 6)"
    by (auto simp: link_local_def top_bits split: list.splits)
  then show ?thesis
    by (cases pf) (auto simp: ifaddr_fits_def test_interface_def Some a AF_INET6_def IFF_LOOPBACK_def
        IFF_UP_def IFF_RUNNING_def IFF_MULTICAST_def flag_bit)
qed

text \<open>
  Claim C40 (safety). The search for an interface gives back every block it took, once each,
  on every path, hands the system only blocks it holds, and asks at most ten times on
  Windows; an index it returns is that of the first adapter that fits in the list of a
  call that succeeded, or on Unix the index the system gave for a listed interface that fits.
\<close>

theorem test_interface_search:
  "(case find_ipv6_test_interface_win L adapters w of (r, w') \<Rightarrow>
      host_held w w' {#} \<and> length (trace w') \<le> length (trace w) + 10 \<and>
      (r \<noteq> 0 \<longrightarrow> (\<exists>p len b a. (Adapters_addresses p len, b) \<in> set (trace w') \<and> r_ret b = NO_ERROR \<and>
         List.find adapter_fits (adapters b) = Some a \<and> r = sint (Ipv6IfIndex a)))) \<and>
   (case find_ipv6_test_interface_unix pf L ifs v of (r, w') \<Rightarrow>
      host_held v w' {#} \<and>
      (r \<noteq> 0 \<longrightarrow> (\<exists>i b. i \<in> set (ifs (fst (ask L Get_ifaddrs v))) \<and> test_interface pf i \<and>
         (Name_to_index (ifa_name i), b) \<in> set (trace w') \<and> r = i32 (r_ret b))))"
  using find_ipv6_test_interface_win_ok [of L adapters w] find_ipv6_test_interface_unix_ok [of pf L ifs v, unfolded ifaddr_fits_iff]
  by (auto split: prod.split)

text \<open>A host of prepared answers, for the witnesses.\<close>

definition told :: "lib_answer list host_lib" where
  "told c k = (case k of [] \<Rightarrow> (no_answer, []) | a # k \<Rightarrow> (a, k))"

definition answer_of :: "int \<Rightarrow> int \<Rightarrow> lib_answer" where
  "answer_of r n = no_answer\<lparr>r_ret := r, r_num := n\<rparr>"

definition host_boot :: "'k \<Rightarrow> 'k host_world" where
  "host_boot k = \<lparr>lib_st = k, last_error = 0, trace = []\<rparr>"

lemmas told_simps = told_def answer_of_def no_answer_def host_boot_def ask_def ask_do_def

definition fe80 :: sockaddr6 where "fe80 = (23, [0xfe, 0x80, 0, 0])"

definition loopback_down :: adapter where
  "loopback_down = \<lparr>OperStatus = 2, Ipv6IfIndex = 1, adapter_flags = 0, unicast_addresses = [Some fe80]\<rparr>"

definition wifi_up :: adapter where
  "wifi_up = \<lparr>OperStatus = 1, Ipv6IfIndex = 9, adapter_flags = 0, unicast_addresses = [None, Some fe80]\<rparr>"

text \<open>The first block is too small; the second lists two adapters, of which the second fits.\<close>

definition retry_host :: "lib_answer list host_world" where
  "retry_host = host_boot [answer_of 64 0, answer_of 111 20000, answer_of 1 0, answer_of 80 0, answer_of 0 20000]"

lemma retry_host_search:
  "fst (find_ipv6_test_interface_win told (\<lambda>_. [loopback_down, wifi_up]) retry_host) = 9"
  by code_simp

definition unix_host :: "lib_answer list host_world" where
  "unix_host = host_boot [answer_of 0 96, answer_of 4 0]"

definition eth0 :: ifaddr where
  "eth0 = \<lparr>ifa_name = [101], ifa_flags = 0x1041, ifa_addr = Some (10, [0xfe, 0x80])\<rparr>"

lemma eth0_name: "i \<in> set [eth0] \<longleftrightarrow> i = eth0" "ifa_name eth0 = [101]"
  by (simp_all add: eth0_def)

lemma unix_host_search: "fst (find_ipv6_test_interface_unix Linux told (\<lambda>_. [eth0]) unix_host) = 4"
  by code_simp

theorem test_interface_search_witness:
  "host_held retry_host (snd (find_ipv6_test_interface_win told (\<lambda>_. [loopback_down, wifi_up]) retry_host)) {#} \<and>
   (\<exists>a. List.find adapter_fits [loopback_down, wifi_up] = Some a \<and> sint (Ipv6IfIndex a) = 9) \<and>
   host_held unix_host (snd (find_ipv6_test_interface_unix Linux told (\<lambda>_. [eth0]) unix_host)) {#} \<and>
   (\<exists>b. i32 (r_ret b) = 4 \<and> (Name_to_index [101], b) \<in>
      set (trace (snd (find_ipv6_test_interface_unix Linux told (\<lambda>_. [eth0]) unix_host))))"
  using test_interface_search [where L = told and adapters = "\<lambda>_. [loopback_down, wifi_up]" and w = retry_host
      and pf = Linux and ifs = "\<lambda>_. [eth0]" and v = unix_host]
    retry_host_search unix_host_search
  by (auto simp: split_beta eth0_name simp del: List.find.simps)

subsection \<open>The environment of a child\<close>

lemma dump_env_win_block:
  "\<forall>e \<in> set es. env_entry e \<and> length e < 2 ^ 31 \<Longrightarrow>
     dump_env_win (Some (env_block_of es @ [0])) = Some es"
proof (induction es)
  case Nil
  show ?case by (simp add: dump_env_win.simps [of "Some [0]"] next_entry_win_def)
next
  case (Cons e es)
  then have e: "e \<noteq> []" "0 \<notin> set e" "length e < 2 ^ 31" by (simp_all add: env_entry_def)
  then have "next_entry_win (Some (env_block_of (e # es) @ [0])) = Some (e, Some (env_block_of es @ [0]))"
    by (simp add: next_entry_win_def block_len_entry)
  with e(1) Cons show ?case
    by (simp add: dump_env_win.simps [of "Some (env_block_of (e # es) @ [0])"] del: env_block_of_simps)
qed

lemma dump_env_unix_block:
  assumes "0 \<notin> set ps" "map mem ps = map (\<lambda>s. Some (s @ [0])) ss"
    "\<forall>s \<in> set ss. s \<noteq> [] \<and> 0 \<notin> set s \<and> length s < 2 ^ 31"
  shows "dump_env_unix mem (Some (ps @ [0])) = Some ss"
  using assms
proof (induction ps arbitrary: ss)
  case Nil
  then show ?case by (simp add: dump_env_unix.simps [of mem "Some [0]"] next_entry_unix_def)
next
  case (Cons p ps)
  then obtain s ss' where ss: "ss = s # ss'" by (cases ss) auto
  with Cons.prems have "next_entry_unix mem (Some (p # ps @ [0])) = Some (s, Some (ps @ [0]))"
    by (simp add: next_entry_unix_def c_strlen_append [of s "[]"])
  with Cons ss show ?case by (simp add: dump_env_unix.simps [of mem "Some (p # ps @ [0])"])
qed

text \<open>
  Claim C22 (roundtrip). A program that reads its environment entry by entry, as
  \<open>dump_env\<close> does, sees exactly what it was spawned with: on Windows the inherited entries
  that do not begin with \<open>=\<close> and on Unix all of them, followed by \<open>KEY=VALUE\<close> for each
  extra variable, in order, as long as no string is empty, holds a zero or has a length
  beyond \<open>int\<close>. The one exception is stated too: on Windows a child that inherits an environment without
  entries sees none of the extra variables either.
\<close>

theorem child_environment:
  assumes "heap_serves K"
    and "case inherited of None \<Rightarrow> es = [] | Some env \<Rightarrow> env = (if es = [] then [0, 0] else env_block_of es @ [0])"
    and "\<forall>e \<in> set es \<union> variable ` set extra. env_entry e \<and> length e < 2 ^ 31"
    and "case environ of None \<Rightarrow> ps = [] | Some env \<Rightarrow> env = ps @ [0]" "0 \<notin> set ps"
    and "\<forall>s \<in> set ss \<union> (\<lambda>(k, v). encode k @ [61] @ encode v) ` set extra. s \<noteq> [] \<and> 0 \<notin> set s \<and> length s < 2 ^ 31"
  shows "(\<exists>cells w'. spawn_env_win K inherited extra w = Some (map Some cells, w') \<and>
      dump_env_win (Some cells) =
        Some (if inherited \<noteq> None \<and> es = [] then [] else kept_entries es @ map variable extra)) \<and>
    (\<exists>cells n entries w'. spawn_env_unix encode K environ extra w = Some ((map Some cells, n), entries, w') \<and>
      (\<forall>mem. map mem ps = map (\<lambda>s. Some (s @ [0])) ss \<and> (\<forall>(p, text) \<in> set entries. mem p = Some text) \<longrightarrow>
        dump_env_unix mem (Some cells) = Some (ss @ map (\<lambda>(k, v). encode k @ [61] @ encode v) extra)))"
proof
  let ?es = "kept_entries es @ map variable extra"
  show "\<exists>cells w'. spawn_env_win K inherited extra w = Some (map Some cells, w') \<and>
      dump_env_win (Some cells) = Some (if inherited \<noteq> None \<and> es = [] then [] else ?es)"
  proof (cases "inherited \<noteq> None \<and> es = []")
    case True
    then have "inherited = Some [0, 0]" using assms(2) by auto
    moreover have "dump_env_win (Some (0 # env_block_of (map variable extra) @ [0])) = Some []"
      by (simp add: dump_env_win.simps [of "Some (0 # _)"] next_entry_win_def)
    ultimately show ?thesis using spawn_env_win_empty [OF assms(1), of extra w] True by fastforce
  next
    case False
    have "\<forall>e \<in> set es. env_entry e" using assms(3) by simp
    moreover have "case inherited of None \<Rightarrow> es = [] | Some env \<Rightarrow> es \<noteq> [] \<and> env = env_block_of es @ [0]"
      using assms(2) False by (auto split: option.splits)
    ultimately obtain w' where "spawn_env_win K inherited extra w = Some (map Some (env_block_of ?es @ [0]), w')"
      using spawn_env_win_spec [OF assms(1)] by blast
    moreover have "\<forall>e \<in> set ?es. env_entry e \<and> length e < 2 ^ 31"
      using assms(3) by (auto simp: kept_entries_def)
    ultimately show ?thesis
      using dump_env_win_block False by (simp only: if_False) blast
  qed
next
  let ?text = "\<lambda>(k, v). encode k @ [61] @ encode v"
  obtain entries w' where s: "spawn_env_unix encode K environ extra w =
      Some ((map Some ps @ map (\<lambda>(p, _). Some p) entries @ [Some 0], length ps), entries, w')"
    and texts: "map snd entries = map (\<lambda>(k, v). encode k @ [61] @ encode v @ [0]) extra"
    and nz: "0 \<notin> fst ` set entries"
    using spawn_env_unix_spec [OF assms(1,4,5), of encode extra w] by blast
  have "dump_env_unix mem (Some ((ps @ map fst entries) @ [0])) = Some (ss @ map ?text extra)"
    if mem: "map mem ps = map (\<lambda>s. Some (s @ [0])) ss" "\<forall>(p, text) \<in> set entries. mem p = Some text" for mem
  proof (rule dump_env_unix_block)
    have "map mem (map fst entries) = map Some (map snd entries)" using mem(2) by auto
    with mem(1) texts show "map mem (ps @ map fst entries) = map (\<lambda>s. Some (s @ [0])) (ss @ map ?text extra)"
      by (simp add: split_def)
  qed (use assms(5,6) nz in auto)
  with s show "\<exists>cells n entries w'. spawn_env_unix encode K environ extra w = Some ((map Some cells, n), entries, w') \<and>
      (\<forall>mem. map mem ps = map (\<lambda>s. Some (s @ [0])) ss \<and> (\<forall>(p, text) \<in> set entries. mem p = Some text) \<longrightarrow>
        dump_env_unix mem (Some cells) = Some (ss @ map ?text extra))"
    by (intro exI [of _ "(ps @ map fst entries) @ [0]"] exI) (auto simp: split_def)
qed

theorem child_environment_witness:
  "(\<exists>cells w'. spawn_env_win heap_kernel (Some [61, 67, 0, 65, 61, 66, 0, 0]) [([75], [86])] (boot 1) =
       Some (map Some cells, w') \<and> dump_env_win (Some cells) = Some [[65, 61, 66], [75, 61, 86]]) \<and>
   (\<exists>cells n entries w'. spawn_env_unix (map ucast) heap_kernel (Some [9, 0]) [([75], [86])] (boot 1) =
       Some ((map Some cells, n), entries, w') \<and>
     (\<forall>mem. mem 9 = Some [65, 61, 66, 0] \<and> (\<forall>(p, text) \<in> set entries. mem p = Some text) \<longrightarrow>
       dump_env_unix mem (Some cells) = Some [[65, 61, 66], [75, 61, 86]]))"
  using child_environment [OF heap_serves_kernel, where inherited = "Some [61, 67, 0, 65, 61, 66, 0, 0]"
      and es = "[[61, 67], [65, 61, 66]]" and extra = "[([75], [86])]" and w = "boot 1"
      and environ = "Some [9, 0]" and ps = "[9]" and encode = "map ucast" and ss = "[[65, 61, 66]]"]
  by (simp add: env_entry_def variable_def kept_entries_def)

end
