(* ===== verification/S7_Frame.thy ===== *)
theory S7_Frame
  imports Byte_Fields
begin

unbundle bit_operations_syntax

text \<open>
  The frames of the S7 protocol: \<open>src/protocol/types.mbt\<close>, \<open>constant.mbt\<close>, \<open>items.mbt\<close> and
  \<open>s7comm.mbt\<close>, with the errors of \<open>src/core/error.mbt\<close>. An \<open>Int\<close> of MoonBit is an \<open>int\<close> in the
  range of 32 bits, \<open>>>\<close> a division and \<open>to_byte\<close> the low eight bits. An array that the
  code fills cell by cell at constant positions is written as the list it becomes; the
  parsers test the length before they index, so that \<open>!\<close> is inside the frame. An error is the left
  of a sum.

  The lemmas give the layout of a request, and that a decoder written from the description of the
  protocol reads back what was asked for.
\<close>

section \<open>Errors and types\<close>

datatype (plugins only: code size) s7_error =
    ConnectionFailed string
  | ConnectionTimeout
  | ConnectionClosed
  | InvalidPDU string
  | InvalidParameter string
  | PlcError int string
  | TimeoutError string
  | TransportError string
  | TlsError string
  | VersionMismatch int int
  | BufferOverflow
  | ItemNotFound string
  | NotConnected
  | AlreadyConnected
  | DataConversionError string
  | UnsupportedError string
  | ResourceExhausted string
  | JobPending
  | InvalidDataSize
  | InvalidPassword
  | NeedPassword
  | FunNotAvailable
  | DataOverPdu
  | CpuError int
  | InvalidResponse string

type_synonym 'a s7_result = "s7_error + 'a"

datatype data_type =
    DT_Bool | DT_Byte | DT_Word | DT_DWord | DT_Int | DT_DInt | DT_Real | DT_S5Time | DT_Time
  | DT_Date | DT_TimeOfDay | DT_String | DT_ByteArray int | DT_Char | DT_Counter | DT_Timer
  | DT_IecTimer | DT_DateAndTime

datatype area =
    ProcessInputs | ProcessOutputs | Flags | DataBlock int | SystemInfo
  | Area_Timer | Area_Counter | Vendor int

datatype cpu_status = Cpu_Unknown | Cpu_Stop | Cpu_Run

definition cpu_status_from_u8 :: "byte \<Rightarrow> cpu_status" where
  "cpu_status_from_u8 v = (if v = 4 then Cpu_Stop else if v = 8 then Cpu_Run else Cpu_Unknown)"

definition WL_BIT :: int where "WL_BIT = 0x01"
definition WL_BYTE :: int where "WL_BYTE = 0x02"
definition WL_CHAR :: int where "WL_CHAR = 0x03"
definition WL_WORD :: int where "WL_WORD = 0x04"
definition WL_INT :: int where "WL_INT = 0x05"
definition WL_DWORD :: int where "WL_DWORD = 0x06"
definition WL_DINT :: int where "WL_DINT = 0x07"
definition WL_REAL :: int where "WL_REAL = 0x08"
definition WL_COUNTER :: int where "WL_COUNTER = 0x1C"
definition WL_TIMER :: int where "WL_TIMER = 0x1D"

lemmas word_lens = WL_BIT_def WL_BYTE_def WL_CHAR_def WL_WORD_def WL_INT_def WL_DWORD_def WL_DINT_def
  WL_REAL_def WL_COUNTER_def WL_TIMER_def

definition AREA_CT :: byte where "AREA_CT = 0x1C"
definition AREA_TM :: byte where "AREA_TM = 0x1D"

definition data_size_byte :: "int \<Rightarrow> int" where
  "data_size_byte word_len =
     (if word_len \<in> {WL_BIT, WL_BYTE, WL_CHAR} then 1
      else if word_len \<in> {WL_WORD, WL_INT, WL_COUNTER, WL_TIMER} then 2
      else if word_len \<in> {WL_DWORD, WL_DINT, WL_REAL} then 4
      else 0)"

fun dt_to_word_len :: "data_type \<Rightarrow> int" where
  "dt_to_word_len DT_Bool = WL_BIT"
| "dt_to_word_len DT_Byte = WL_BYTE"
| "dt_to_word_len DT_Char = WL_BYTE"
| "dt_to_word_len DT_String = WL_BYTE"
| "dt_to_word_len (DT_ByteArray _) = WL_BYTE"
| "dt_to_word_len DT_Word = WL_WORD"
| "dt_to_word_len DT_Counter = WL_WORD"
| "dt_to_word_len DT_S5Time = WL_WORD"
| "dt_to_word_len DT_Int = WL_INT"
| "dt_to_word_len DT_DWord = WL_DWORD"
| "dt_to_word_len DT_Time = WL_DWORD"
| "dt_to_word_len DT_TimeOfDay = WL_DWORD"
| "dt_to_word_len DT_Date = WL_DWORD"
| "dt_to_word_len DT_DInt = WL_DINT"
| "dt_to_word_len DT_Real = WL_REAL"
| "dt_to_word_len DT_Timer = WL_TIMER"
| "dt_to_word_len DT_IecTimer = WL_DWORD"
| "dt_to_word_len DT_DateAndTime = WL_DWORD"

record read_item =
  ri_area :: area
  ri_byte_offset :: int
  ri_bit_offset :: int
  ri_count :: int
  ri_data_type :: data_type
  ri_word_len :: int

record write_item =
  wi_area :: area
  wi_byte_offset :: int
  wi_bit_offset :: int
  wi_data_type :: data_type
  wi_data :: "byte list"
  wi_word_len :: int

definition ReadItem_with_word_len :: "area \<Rightarrow> int \<Rightarrow> data_type \<Rightarrow> int \<Rightarrow> read_item" where
  "ReadItem_with_word_len ar off dt wl =
     \<lparr>ri_area = ar, ri_byte_offset = off, ri_bit_offset = 0,
      ri_count = (case dt of DT_ByteArray n \<Rightarrow> n | _ \<Rightarrow> 1), ri_data_type = dt, ri_word_len = wl\<rparr>"

definition ReadItem_new :: "area \<Rightarrow> int \<Rightarrow> data_type \<Rightarrow> read_item" where
  "ReadItem_new ar off dt =
     \<lparr>ri_area = ar, ri_byte_offset = off, ri_bit_offset = 0,
      ri_count = (case dt of DT_ByteArray n \<Rightarrow> n | _ \<Rightarrow> 1), ri_data_type = dt,
      ri_word_len = dt_to_word_len dt\<rparr>"

definition WriteItem_with_word_len :: "area \<Rightarrow> int \<Rightarrow> data_type \<Rightarrow> byte list \<Rightarrow> int \<Rightarrow> write_item" where
  "WriteItem_with_word_len ar off dt d wl =
     \<lparr>wi_area = ar, wi_byte_offset = off, wi_bit_offset = 0, wi_data_type = dt, wi_data = d,
      wi_word_len = wl\<rparr>"

definition WriteItem_new :: "area \<Rightarrow> int \<Rightarrow> data_type \<Rightarrow> byte list \<Rightarrow> write_item" where
  "WriteItem_new ar off dt d =
     \<lparr>wi_area = ar, wi_byte_offset = off, wi_bit_offset = 0, wi_data_type = dt, wi_data = d,
      wi_word_len = dt_to_word_len dt\<rparr>"

section \<open>Requests\<close>

definition PID :: byte where "PID = 0x32"
definition MAX_PDU :: int where "MAX_PDU = 960"

definition tb :: "int \<Rightarrow> byte" where "tb v = word_of_int v"
definition hi8 :: "int \<Rightarrow> byte" where "hi8 v = word_of_int ((v div 256) mod 256)"
definition lo8 :: "int \<Rightarrow> byte" where "lo8 v = word_of_int (v mod 256)"

definition cotp_dt :: "byte list" where "cotp_dt = [0x02, 0xF0, 0x80]"

fun acode :: "area \<Rightarrow> byte" where
  "acode ProcessInputs = tb 0x81"
| "acode ProcessOutputs = tb 0x82"
| "acode Flags = tb 0x83"
| "acode (DataBlock _) = tb 0x84"
| "acode SystemInfo = tb 0x85"
| "acode Area_Timer = tb 0x86"
| "acode Area_Counter = tb 0x87"
| "acode (Vendor v) = tb v"

fun adb :: "area \<Rightarrow> int" where
  "adb (DataBlock v) = v"
| "adb _ = 0"

definition mk_hdr :: "byte \<Rightarrow> int \<Rightarrow> int \<Rightarrow> int \<Rightarrow> byte list" where
  "mk_hdr mt refn plen dlen =
     [PID, mt, 0x00, 0x00, hi8 refn, lo8 refn, hi8 plen, lo8 plen, hi8 dlen, lo8 dlen]"

text \<open>The twelve bytes of an item: \<open>12 0A 10 WL count db area address\<close>.\<close>

definition item_bytes :: "int \<Rightarrow> int \<Rightarrow> area \<Rightarrow> int \<Rightarrow> int \<Rightarrow> byte list" where
  "item_bytes wl cnt ar byte_offset bit_offset =
     (let db = adb ar;
          a = i32 (byte_offset * 2 ^ 3) OR bit_offset
      in [0x12, 0x0A, 0x10, tb wl, hi8 cnt, lo8 cnt, hi8 db, lo8 db, acode ar,
          tb ((a div 2 ^ 16) AND 0xFF), tb ((a div 2 ^ 8) AND 0xFF), tb (a AND 0xFF)])"

text \<open>The frame around the parts: the four bytes of TPKT with the length of it all.\<close>

definition tpkt :: "byte list list \<Rightarrow> byte list" where
  "tpkt parts =
     (let tlen = int (length (concat parts)) + 4
      in [0x03, 0x00, hi8 tlen, lo8 tlen] @ concat parts)"

definition build_read_pdu :: "read_item list \<Rightarrow> int \<Rightarrow> byte list s7_result" where
  "build_read_pdu items refn =
     (let params = [0x04, tb (int (length items))] @
            concat (map (\<lambda>it. item_bytes (ri_word_len it) (ri_count it) (ri_area it)
              (ri_byte_offset it) (ri_bit_offset it)) items);
          hdr = mk_hdr 0x01 refn (int (length params)) 0;
          total = length cotp_dt + length hdr + length params
      in if int total > MAX_PDU then Inl (InvalidPDU ''PDU too big'')
         else Inr (tpkt [cotp_dt, hdr, params]))"

text \<open>The count and the data section of an item; \<open>None\<close> is a division by zero.\<close>

definition write_count :: "write_item \<Rightarrow> int option" where
  "write_count it =
     (let dl = int (length (wi_data it))
      in if dl < 1 then Some 1
         else if data_size_byte (wi_word_len it) = 0 then None
         else Some (dl div data_size_byte (wi_word_len it)))"

definition write_data :: "write_item \<Rightarrow> byte list" where
  "write_data it =
     (let wl = wi_word_len it;
          dl = int (length (wi_data it));
          ts = (if wl = WL_BIT then tb 3 else if wl \<in> {WL_COUNTER, WL_TIMER} then tb 9 else tb 4);
          bit_len = (if wl \<in> {WL_BIT, WL_COUNTER, WL_TIMER} then dl else i32 (dl * 2 ^ 3))
      in [0x00, ts, hi8 bit_len, lo8 bit_len] @ wi_data it)"

definition build_write_pdu :: "write_item list \<Rightarrow> int \<Rightarrow> byte list s7_result option" where
  "build_write_pdu items refn =
     (case those (map write_count items) of
        None \<Rightarrow> None
      | Some counts \<Rightarrow>
          let params = [0x05, tb (int (length items))] @
                concat (map2 (\<lambda>it cnt. item_bytes (wi_word_len it) cnt (wi_area it)
                  (wi_byte_offset it) (wi_bit_offset it)) items counts);
              wdata = concat (map write_data items);
              hdr = mk_hdr 0x01 refn (int (length params)) (int (length wdata));
              total = length cotp_dt + length hdr + length params + length wdata
          in Some (if int total > MAX_PDU then Inl (InvalidPDU ''PDU too big'')
                   else Inr (tpkt [cotp_dt, hdr, params, wdata])))"

section \<open>Responses\<close>

text \<open>The loop over \<open>i\<close>: the first place that looks like a header, \<open>-1\<close> without one.\<close>

fun find_s7_from :: "int \<Rightarrow> byte list \<Rightarrow> int" where
  "find_s7_from i (a # b # rest) =
     (if a = PID \<and> (b AND 0x7F) \<in> {0x01, 0x03, 0x07} then i else find_s7_from (i + 1) (b # rest))"
| "find_s7_from i _ = -1"

definition find_s7 :: "byte list \<Rightarrow> int" where
  "find_s7 data = find_s7_from 0 data"

text \<open>\<open>(data[i].to_int() << 8) | data[i + 1].to_int()\<close>\<close>

definition be16 :: "byte list \<Rightarrow> nat \<Rightarrow> int" where
  "be16 data i = (uint (data ! i) * 2 ^ 8) OR uint (data ! (i + 1))"

definition parse_response :: "byte list \<Rightarrow> byte list list s7_result" where
  "parse_response data =
     (let n = int (length data);
          s7 = find_s7 data;
          at = nat s7
      in if s7 < 0 then Inl (InvalidPDU ''No S7 header'')
         else if s7 + 2 > n then Inl (InvalidPDU ''Too short'')
         else if (data ! (at + 1)) AND 0x80 \<noteq> 0
         then Inl (PlcError (if s7 + 12 < n then be16 data (at + 10) else 0) ''PLC error'')
         else if s7 + 18 > n then Inl (InvalidPDU ''Too short'')
         else if uint (data ! (at + 14)) \<noteq> 0xFF
         then Inl (PlcError (uint (data ! (at + 14))) ''PLC read item error'')
         else Inr [drop (at + 18) data])"

definition build_setup_pdu :: "int \<Rightarrow> int \<Rightarrow> int \<Rightarrow> byte list" where
  "build_setup_pdu refn call called =
     (let pdu_size = 960
      in [0x03, 0x00, 0x00, 0x19, 0x02, 0xF0, 0x80, PID, 0x01, 0x00, 0x00, 0x00, 0x00, 0x00, 0x08,
          0x00, 0x00, 0xF0, 0x00, 0x00, 0x08, 0x00, 0x08, hi8 pdu_size, lo8 pdu_size])"

definition parse_setup_resp :: "byte list \<Rightarrow> int s7_result" where
  "parse_setup_resp data =
     (if length data < 22 then Inl (InvalidPDU ''Too short'')
      else if find_s7 data < 0 then Inl (InvalidPDU ''No S7 header'')
      else if 28 \<le> length data then Inr (be16 data 25)
      else Inr 480)"

definition build_cotp_cr :: "byte list \<Rightarrow> byte list \<Rightarrow> byte list" where
  "build_cotp_cr lsap rsap =
     (let sl = int (length lsap);
          rl = int (length rsap);
          total = 18 + sl + rl
      in [0x03, 0x00, hi8 total, lo8 total, 0x11, 0xE0, 0x00, 0x00, 0x00, 0x02, 0x00,
          0xC0, 0x01, 0x0A, 0xC1, tb sl] @ lsap @ [0xC2, tb rl] @ rsap)"

definition parse_cotp_cc :: "byte list \<Rightarrow> int s7_result" where
  "parse_cotp_cc data =
     (if length data < 7 then Inl (InvalidPDU ''Too short'')
      else if data ! 0 \<noteq> 0x03 then Inl (InvalidPDU ''Bad TPKT'')
      else if data ! 4 \<noteq> 0x11 \<or> data ! 5 \<noteq> 0xD0 then Inl (InvalidPDU ''Not CC'')
      else Inr 1024)"

section \<open>Control of the controller\<close>

text \<open>The trailing bytes of start and stop: the name \<open>P_PROGRAM\<close>.\<close>

definition p_program :: "byte list" where
  "p_program = [0x50, 0x5F, 0x50, 0x52, 0x4F, 0x47, 0x52, 0x41, 0x4D]"

definition build_plc_start_pdu :: "int \<Rightarrow> byte list" where
  "build_plc_start_pdu refn =
     [0x03, 0x00, 0x00, 0x27, 0x02, 0xF0, 0x80, PID, 0x01, 0x00, 0x00, hi8 refn, lo8 refn, 0x00, 0x16,
      0x00, 0x00, 0x28, 0, 0, 0, 0, 0, 0, 0xFD, 0, 0x02, 0x43, 0x20, 0x09] @ p_program"

definition build_plc_stop_pdu :: "int \<Rightarrow> byte list" where
  "build_plc_stop_pdu refn =
     [0x03, 0x00, 0x00, 0x21, 0x02, 0xF0, 0x80, PID, 0x01, 0x00, 0x00, hi8 refn, lo8 refn, 0x00, 0x10,
      0x00, 0x00, 0x29, 0, 0, 0, 0, 0, 0x09] @ p_program"

definition build_plc_restart_pdu :: "int \<Rightarrow> byte list" where
  "build_plc_restart_pdu refn =
     [0x03, 0x00, 0x00, 0x25, 0x02, 0xF0, 0x80, PID, 0x01, 0x00, 0x00, hi8 refn, lo8 refn, 0x00, 0x14,
      0x00, 0x00, 0x28, 0, 0, 0, 0, 0, 0, 0xFD, 0, 0, 0x09] @ p_program"

definition parse_plc_ctrl_resp :: "byte list \<Rightarrow> byte \<Rightarrow> byte \<Rightarrow> unit s7_result" where
  "parse_plc_ctrl_resp data start_cmp already_cmp =
     (if length data < 19 then Inl (InvalidPDU ''Resp too short'')
      else if data ! 17 \<noteq> start_cmp then Inl (PlcError (uint (data ! 17)) ''PLC ctrl failed'')
      else if data ! 18 = already_cmp then Inl JobPending
      else Inr ())"

definition build_plc_status_pdu :: "int \<Rightarrow> byte list" where
  "build_plc_status_pdu refn =
     [0x03, 0x00, 0x00, 0x21, 0x02, 0xF0, 0x80, PID, 0x07, 0x00, 0x00, hi8 refn, lo8 refn, 0x00, 0x08,
      0x00, 0x08, 0, 0x01, 0x12, 0x04, 0x11, 0x44, 0x01, 0, 0xFF, 0x09, 0, 0x04, 0x04, 0x24, 0, 0]"

definition parse_plc_status :: "byte list \<Rightarrow> cpu_status s7_result" where
  "parse_plc_status data =
     (if length data < 45 then Inl (InvalidPDU ''Status too short'')
      else if data ! 44 = 0x08 then Inr Cpu_Run
      else if data ! 44 = 0x07 then Inr Cpu_Stop
      else Inr Cpu_Unknown)"

section \<open>System status lists\<close>

record szl_data =
  header_len :: int
  data_count :: int
  szl_bytes :: "byte list"

record cpu_info =
  module_type_name :: "int list"
  serial_number :: "int list"
  as_name :: "int list"
  copyright :: "int list"
  cpu_module_name :: "int list"

record cp_info =
  max_pdu_length :: int
  max_connections :: int
  max_mpi_rate :: int
  max_bus_rate :: int

definition build_szl_first_pdu :: "int \<Rightarrow> int \<Rightarrow> int \<Rightarrow> byte list" where
  "build_szl_first_pdu refn szl_id index =
     (let r = i32 (refn + 1) AND 0xFFFF
      in [0x03, 0x00, 0x00, 0x21, 0x02, 0xF0, 0x80, PID, 0x07, 0x00, 0x00, hi8 r, lo8 r, 0x00, 0x08,
          0x00, 0x08, 0, 0x01, 0x12, 0x04, 0x11, 0x44, 0x01, 0, 0xFF, 0x09, 0, 0x04,
          hi8 szl_id, lo8 szl_id, hi8 index, lo8 index])"

definition build_szl_next_pdu :: "int \<Rightarrow> int \<Rightarrow> byte list" where
  "build_szl_next_pdu refn sequence =
     (let r = i32 (refn + 1) AND 0xFFFF
      in [0x03, 0x00, 0x00, 0x21, 0x02, 0xF0, 0x80, PID, 0x07, 0x00, 0x00, hi8 r, lo8 r, 0x00, 0x0C,
          0x00, 0x04, 0, 0x01, 0x12, 0x08, 0x12, 0x44, 0x01, tb sequence, 0, 0, 0, 0, 0x0A, 0, 0, 0])"

definition parse_szl_first :: "byte list \<Rightarrow> szl_data s7_result" where
  "parse_szl_first data =
     (if length data < 42 then Inl (InvalidPDU ''SZL too short'')
      else Inr \<lparr>header_len = be16 data 37 * 2, data_count = be16 data 39, szl_bytes = drop 41 data\<rparr>)"

text \<open>\<open>str_slice\<close>: the characters up to a zero, at most \<open>maxlen\<close>; a character is its number.\<close>

definition str_slice :: "byte list \<Rightarrow> nat \<Rightarrow> nat \<Rightarrow> int list" where
  "str_slice data start maxlen =
     map uint (takeWhile (\<lambda>b. b \<noteq> 0x00) (take maxlen (drop start data)))"

definition parse_cpu_info :: "byte list \<Rightarrow> cpu_info s7_result" where
  "parse_cpu_info data =
     (if length data < 205 then Inl (InvalidPDU ''CPU info too short'')
      else Inr \<lparr>module_type_name = str_slice data 172 32, serial_number = str_slice data 138 24,
                as_name = str_slice data 2 24, copyright = str_slice data 104 26,
                cpu_module_name = str_slice data 36 24\<rparr>)"

definition parse_cp_info :: "byte list \<Rightarrow> cp_info s7_result" where
  "parse_cp_info data =
     (if length data < 14 then Inl (InvalidPDU ''CP info too short'')
      else Inr \<lparr>max_pdu_length = be16 data 2, max_connections = be16 data 4,
                max_mpi_rate = be16 data 6, max_bus_rate = be16 data 10\<rparr>)"

section \<open>Numbers and bytes\<close>

lemma and_0xFF: "(x :: int) AND 0xFF = x mod 256"
proof -
  have "(x :: int) AND mask 8 = x mod 2 ^ 8" by (simp only: take_bit_eq_mask [symmetric] take_bit_eq_mod)
  then show ?thesis by (simp add: mask_eq_exp_minus_1)
qed

lemma shift_or:
  assumes "0 \<le> b" "b < 2 ^ n"
  shows "(a * 2 ^ n) OR b = a * 2 ^ n + (b :: int)"
proof -
  from assms have b: "take_bit n b = b" by (simp add: take_bit_int_eq_self)
  have "push_bit n a + take_bit n b = push_bit n a OR take_bit n b"
    by (rule disjunctive_add) (auto simp: bit_simps)
  with b show ?thesis by (simp add: push_bit_eq_mult)
qed

lemma be16_sum: "be16 data i = uint (data ! i) * 256 + uint (data ! (i + 1))"
  using shift_or [of "uint (data ! (i + 1))" 8 "uint (data ! i)"] uint_lt2p [of "data ! (i + 1)"]
  by (simp add: be16_def)

lemma uint_tb [simp]: "uint (tb v) = v mod 256"
  by (simp add: tb_def uint_word_of_int)

lemma uint_hi8 [simp]: "uint (hi8 v) = v div 256 mod 256"
  by (simp add: hi8_def uint_word_of_int)

lemma uint_lo8 [simp]: "uint (lo8 v) = v mod 256"
  by (simp add: lo8_def uint_word_of_int)

lemma hi_lo_mod: "v div 256 mod 256 * 256 + v mod 256 = (v :: int) mod 65536"
proof -
  have "v mod (256 * 256) = 256 * (v div 256 mod 256) + v mod 256"
    by (rule zmod_zmult2_eq) (rule zero_le_numeral)
  then show ?thesis
    by (simp only: mult.commute [of "v div 256 mod 256"] mult_num_simps numeral_times_numeral)
qed

lemma hi_lo: "0 \<le> v \<Longrightarrow> v < 65536 \<Longrightarrow> v div 256 mod 256 * 256 + v mod 256 = (v :: int)"
  unfolding hi_lo_mod by simp

section \<open>What a request says\<close>

text \<open>
  A decoder written from the description of the protocol: word length, number of elements, data block,
  area code and bit address of each item, the function code, the reference and the data section.
\<close>

record s7_item =
  si_word_len :: int
  si_count :: int
  si_db :: int
  si_area :: byte
  si_address :: int

definition decode_item :: "byte list \<Rightarrow> s7_item option" where
  "decode_item bs =
     (if length bs = 12 \<and> take 3 bs = [0x12, 0x0A, 0x10]
      then Some \<lparr>si_word_len = uint (bs ! 3), si_count = be16 bs 4, si_db = be16 bs 6, si_area = bs ! 8,
                 si_address = uint (bs ! 9) * 65536 + be16 bs 10\<rparr>
      else None)"

fun decode_items :: "nat \<Rightarrow> byte list \<Rightarrow> s7_item list option" where
  "decode_items 0 bs = (if bs = [] then Some [] else None)"
| "decode_items (Suc n) bs =
     (case decode_item (take 12 bs) of
        None \<Rightarrow> None
      | Some it \<Rightarrow> map_option (Cons it) (decode_items n (drop 12 bs)))"

record s7_request =
  rq_function :: byte
  rq_reference :: int
  rq_items :: "s7_item list"
  rq_data :: "byte list"

definition decode_request :: "byte list \<Rightarrow> s7_request option" where
  "decode_request f =
     (if 19 \<le> length f \<and> take 2 f = [0x03, 0x00] \<and> be16 f 2 = int (length f) \<and>
         take 3 (drop 4 f) = cotp_dt \<and> take 4 (drop 7 f) = [0x32, 0x01, 0x00, 0x00] \<and>
         int (length f) = 17 + be16 f 13 + be16 f 15 \<and> be16 f 13 = 2 + 12 * uint (f ! 18)
      then map_option (\<lambda>is. \<lparr>rq_function = f ! 17, rq_reference = be16 f 11, rq_items = is,
             rq_data = drop (nat (17 + be16 f 13)) f\<rparr>)
           (decode_items (unat (f ! 18)) (take (nat (be16 f 13) - 2) (drop 19 f)))
      else None)"

text \<open>The ranges the fields of a frame have room for.\<close>

definition encodable :: "int \<Rightarrow> int \<Rightarrow> area \<Rightarrow> int \<Rightarrow> int \<Rightarrow> bool" where
  "encodable wl cnt ar byte_offset bit_offset \<longleftrightarrow>
     0 \<le> wl \<and> wl < 256 \<and> 0 \<le> cnt \<and> cnt < 65536 \<and> 0 \<le> adb ar \<and> adb ar < 65536 \<and>
     0 \<le> byte_offset \<and> byte_offset < 2 ^ 21 \<and> 0 \<le> bit_offset \<and> bit_offset < 8"

definition said_item :: "int \<Rightarrow> int \<Rightarrow> area \<Rightarrow> int \<Rightarrow> int \<Rightarrow> s7_item" where
  "said_item wl cnt ar byte_offset bit_offset =
     \<lparr>si_word_len = wl, si_count = cnt, si_db = adb ar, si_area = acode ar,
      si_address = byte_offset * 8 + bit_offset\<rparr>"

lemma length_item_bytes [simp]: "length (item_bytes wl cnt ar off bo) = 12"
  by (simp add: item_bytes_def Let_def)

lemma address_bytes:
  assumes "0 \<le> a" "a < 2 ^ 24"
  shows "a div 65536 mod 256 * 65536 + (a div 256 mod 256 * 256 + a mod 256) = (a :: int)"
proof -
  have "a div 65536 \<le> (2 ^ 24 - 1) div 65536" using assms by (intro zdiv_mono1) auto
  moreover have "0 \<le> a div 65536" using assms by (simp add: pos_imp_zdiv_nonneg_iff)
  ultimately have hi: "a div 65536 mod 256 = a div 65536" by simp
  show ?thesis unfolding hi hi_lo_mod by (rule div_mult_mod_eq)
qed

lemma decode_item_bytes:
  assumes "encodable wl cnt ar off bo"
  shows "decode_item (item_bytes wl cnt ar off bo) = Some (said_item wl cnt ar off bo)"
proof -
  have "i32 (off * 8) = off * 8" using assms by (intro i32_nonneg) (auto simp: encodable_def)
  moreover define A where "A = off * 8 + bo"
  ultimately have a: "i32 (off * 8) OR bo = A"
    using shift_or [of bo 3 off] assms by (simp add: encodable_def)
  have r: "0 \<le> A" "A < 2 ^ 24" using assms by (auto simp: encodable_def A_def)
  have b: "item_bytes wl cnt ar off bo = [0x12, 0x0A, 0x10, tb wl, hi8 cnt, lo8 cnt, hi8 (adb ar), lo8 (adb ar),
      acode ar, tb (A div 65536 mod 256), hi8 A, lo8 A]" (is "_ = ?b")
    by (simp add: item_bytes_def Let_def a and_0xFF tb_def hi8_def lo8_def)
  have c: "be16 ?b 4 = cnt"
    using assms by (simp add: be16_sum encodable_def hi_lo)
  have d: "be16 ?b 6 = adb ar"
    using assms by (simp add: be16_sum encodable_def hi_lo)
  have "uint (?b ! 9) = A div 65536 mod 256" "be16 ?b 10 = A div 256 mod 256 * 256 + A mod 256"
    by (simp_all add: be16_sum)
  then have e: "uint (?b ! 9) * 65536 + be16 ?b 10 = A"
    by (simp only: address_bytes [OF r])
  have w: "uint (?b ! 3) = wl" using assms by (simp add: encodable_def)
  show ?thesis
    unfolding b decode_item_def c d e w by (simp add: said_item_def A_def)
qed

lemma decode_items_concat:
  assumes "\<forall>x \<in> set xs. length (enc x) = 12 \<and> decode_item (enc x) = Some (dec x)"
  shows "decode_items (length xs) (concat (map enc xs)) = Some (map dec xs)"
  using assms by (induction xs) auto
lemma tpkt_length: "length (tpkt parts) = length (concat parts) + 4"
  by (simp add: tpkt_def Let_def)

lemma tpkt_read_parts: "tpkt [a, b, c] = tpkt [a, b, c, []]"
  by (simp add: tpkt_def)

lemma decode_request_frame:
  assumes "length its = 12 * n" "n < 256" "length wdata < 60000" "decode_items n its = Some is"
  shows "decode_request (tpkt [cotp_dt, mk_hdr 0x01 refn (2 + 12 * int n) (int (length wdata)),
      [fc, tb (int n)] @ its, wdata]) =
    Some \<lparr>rq_function = fc, rq_reference = refn mod 65536, rq_items = is, rq_data = wdata\<rparr>"
proof -
  let ?len = "int (19 + 12 * n + length wdata)"
  define F where "F = tpkt [cotp_dt, mk_hdr 0x01 refn (2 + 12 * int n) (int (length wdata)), [fc, tb (int n)] @ its, wdata]"
  have f: "F = [0x03, 0x00, hi8 ?len, lo8 ?len, 0x02, 0xF0, 0x80, 0x32, 0x01, 0x00, 0x00, hi8 refn, lo8 refn,
      hi8 (2 + 12 * int n), lo8 (2 + 12 * int n), hi8 (int (length wdata)), lo8 (int (length wdata)),
      fc, tb (int n)] @ its @ wdata"
    using assms(1) by (simp add: F_def tpkt_def Let_def cotp_dt_def mk_hdr_def PID_def add_ac)
  have n: "uint (F ! 18) = int n" "unat (F ! 18) = n"
    using assms(2) by (simp_all add: f unat_eq_nat_uint)
  have len: "be16 F 2 = ?len" "be16 F 13 = 2 + 12 * int n" "be16 F 15 = int (length wdata)" "be16 F 11 = refn mod 65536"
    using assms(2,3) unfolding f by (simp_all add: be16_sum hi_lo hi_lo_mod)
  have parts: "length F = 19 + 12 * n + length wdata" "take 2 F = [0x03, 0x00]" "take 3 (drop 4 F) = cotp_dt"
    "take 4 (drop 7 F) = [0x32, 0x01, 0x00, 0x00]" "F ! 17 = fc"
    using assms(1) unfolding f by (simp_all add: cotp_dt_def)
  have k: "nat (2 + 12 * int n) - 2 = length its" "nat (17 + (2 + 12 * int n)) = length its + 19"
    using assms(1) by simp_all
  have rest: "take (length its) (drop 19 F) = its" "drop (length its + 19) F = wdata"
    unfolding drop_drop [symmetric] unfolding f by simp_all
  have "decode_request F =
      Some \<lparr>rq_function = fc, rq_reference = refn mod 65536, rq_items = is, rq_data = wdata\<rparr>"
    using assms(4) unfolding decode_request_def len n parts k rest by simp
  then show ?thesis by (simp only: F_def)
qed

lemma read_request_decodes:
  assumes "\<forall>it \<in> set items. encodable (ri_word_len it) (ri_count it) (ri_area it) (ri_byte_offset it) (ri_bit_offset it)"
  shows "if 15 + 12 * length items > 960 then build_read_pdu items refn = Inl (InvalidPDU ''PDU too big'')
    else (\<exists>f. build_read_pdu items refn = Inr f \<and> length f = 19 + 12 * length items \<and>
      decode_request f = Some \<lparr>rq_function = 0x04, rq_reference = refn mod 65536,
        rq_items = map (\<lambda>it. said_item (ri_word_len it) (ri_count it) (ri_area it) (ri_byte_offset it) (ri_bit_offset it)) items,
        rq_data = []\<rparr>)"
proof -
  let ?enc = "\<lambda>it. item_bytes (ri_word_len it) (ri_count it) (ri_area it) (ri_byte_offset it) (ri_bit_offset it)"
  let ?its = "concat (map ?enc items)"
  have len: "length ?its = 12 * length items" by (simp add: length_concat comp_def sum_list_triv)
  show ?thesis
  proof (cases "15 + 12 * length items > 960")
    case True
    then show ?thesis by (simp add: build_read_pdu_def len MAX_PDU_def cotp_dt_def mk_hdr_def)
  next
    case False
    then have "length items < 256" by simp
    then have "decode_request (tpkt [cotp_dt, mk_hdr 0x01 refn (2 + 12 * int (length items)) (int (length ([] :: byte list))),
        [0x04, tb (int (length items))] @ ?its, []]) = Some \<lparr>rq_function = 0x04, rq_reference = refn mod 65536,
        rq_items = map (\<lambda>it. said_item (ri_word_len it) (ri_count it) (ri_area it) (ri_byte_offset it) (ri_bit_offset it)) items,
        rq_data = []\<rparr>"
      by (intro decode_request_frame decode_items_concat len) (use assms decode_item_bytes in auto)
    with False len show ?thesis
      by (simp add: build_read_pdu_def Let_def MAX_PDU_def tpkt_read_parts tpkt_length cotp_dt_def mk_hdr_def)
  qed
qed

lemma those_map: "(\<And>x. x \<in> set xs \<Longrightarrow> f x = Some (g x)) \<Longrightarrow> those (map f xs) = Some (map g xs)"
  by (induction xs) auto

lemma map2_map_right: "map2 f xs (map g xs) = map (\<lambda>x. f x (g x)) xs"
  by (induction xs) auto

definition write_fits :: "write_item \<Rightarrow> bool" where
  "write_fits it \<longleftrightarrow> (\<exists>cnt. write_count it = Some cnt \<and>
     encodable (wi_word_len it) cnt (wi_area it) (wi_byte_offset it) (wi_bit_offset it))"

definition said_write :: "write_item \<Rightarrow> s7_item" where
  "said_write it = said_item (wi_word_len it) (the (write_count it)) (wi_area it) (wi_byte_offset it) (wi_bit_offset it)"

lemma write_request_decodes:
  assumes "\<forall>it \<in> set items. write_fits it"
  shows "if 15 + 12 * length items + length (concat (map write_data items)) > 960
    then build_write_pdu items refn = Some (Inl (InvalidPDU ''PDU too big''))
    else (\<exists>f. build_write_pdu items refn = Some (Inr f) \<and>
      length f = 19 + 12 * length items + length (concat (map write_data items)) \<and>
      decode_request f = Some \<lparr>rq_function = 0x05, rq_reference = refn mod 65536,
        rq_items = map said_write items, rq_data = concat (map write_data items)\<rparr>)"
proof -
  let ?enc = "\<lambda>it. item_bytes (wi_word_len it) (the (write_count it)) (wi_area it) (wi_byte_offset it) (wi_bit_offset it)"
  let ?its = "concat (map ?enc items)" and ?data = "concat (map write_data items)"
  have c: "those (map write_count items) = Some (map (\<lambda>it. the (write_count it)) items)"
    using assms by (intro those_map) (auto simp: write_fits_def)
  have len: "length ?its = 12 * length items" by (simp add: length_concat comp_def sum_list_triv)
  have pdu: "build_write_pdu items refn =
      Some (if 15 + 12 * length items + length ?data > 960 then Inl (InvalidPDU ''PDU too big'')
        else Inr (tpkt [cotp_dt, mk_hdr 0x01 refn (2 + 12 * int (length items)) (int (length ?data)),
          [0x05, tb (int (length items))] @ ?its, ?data]))"
    by (simp add: build_write_pdu_def c map2_map_right len MAX_PDU_def cotp_dt_def mk_hdr_def Let_def)
  show ?thesis
  proof (cases "15 + 12 * length items + length ?data > 960")
    case True
    then show ?thesis by (simp add: pdu)
  next
    case False
    then have "length items < 256" "length ?data < 60000" by simp_all
    then have "decode_request (tpkt [cotp_dt, mk_hdr 0x01 refn (2 + 12 * int (length items)) (int (length ?data)),
        [0x05, tb (int (length items))] @ ?its, ?data]) = Some \<lparr>rq_function = 0x05, rq_reference = refn mod 65536,
        rq_items = map said_write items, rq_data = ?data\<rparr>"
      by (intro decode_request_frame decode_items_concat len)
        (use assms in \<open>auto simp: write_fits_def said_write_def decode_item_bytes\<close>)
    with False len show ?thesis
      by (simp add: pdu tpkt_length cotp_dt_def mk_hdr_def)
  qed
qed

subsection \<open>The meaning of a request\<close>

text \<open>
  What the receiver makes of a request, with the codes of the protocol: the areas by their
  codes (counters and timers have \<open>0x1C\<close> and \<open>0x1D\<close>), the place in bytes and bits, and the data sections. A
  section is a zero, the transport size, a length (in bits for the sizes 3 and 4, in bytes for 9) and the data;
  one of odd length is followed by a fill byte, unless it is the last.
\<close>

definition area_of :: "byte \<Rightarrow> int \<Rightarrow> area option" where
  "area_of code db =
     (if code = 0x81 then Some ProcessInputs
      else if code = 0x82 then Some ProcessOutputs
      else if code = 0x83 then Some Flags
      else if code = 0x84 then Some (DataBlock db)
      else if code = 0x1C then Some Area_Counter
      else if code = 0x1D then Some Area_Timer
      else None)"

record s7_order =
  od_word_len :: int
  od_count :: int
  od_area :: "area option"
  od_byte :: int
  od_bit :: int

definition order_of :: "s7_item \<Rightarrow> s7_order" where
  "order_of it =
     \<lparr>od_word_len = si_word_len it, od_count = si_count it, od_area = area_of (si_area it) (si_db it),
      od_byte = si_address it div 8, od_bit = si_address it mod 8\<rparr>"

fun data_sections :: "nat \<Rightarrow> byte list \<Rightarrow> (byte \<times> byte list) list option" where
  "data_sections 0 bs = (if bs = [] then Some [] else None)"
| "data_sections (Suc n) bs =
     (if length bs < 4 \<or> bs ! 0 \<noteq> 0 then None
      else
        let len = nat (be16 bs 2);
            k = (if bs ! 1 = 9 then len else (len + 7) div 8);
            rest = drop (4 + k) bs
        in if length bs < 4 + k then None
           else map_option (Cons (bs ! 1, take k (drop 4 bs)))
                  (data_sections n (if n > 0 \<and> odd k then drop 1 rest else rest)))"

definition understand :: "byte list \<Rightarrow> (byte \<times> int \<times> s7_order list \<times> (byte \<times> byte list) list) option" where
  "understand f =
     (case decode_request f of
        None \<Rightarrow> None
      | Some rq \<Rightarrow>
          if rq_function rq = 0x04 \<and> rq_data rq = []
          then Some (0x04, rq_reference rq, map order_of (rq_items rq), [])
          else if rq_function rq = 0x05
          then map_option (\<lambda>ds. (0x05, rq_reference rq, map order_of (rq_items rq), ds))
                 (data_sections (length (rq_items rq)) (rq_data rq))
          else None)"

text \<open>Bytes of an element of each word length, and the transport size of its data.\<close>

definition element_size :: "int \<Rightarrow> nat" where
  "element_size wl =
     (if wl \<in> {1, 2, 3} then 1 else if wl \<in> {4, 5, 0x1C, 0x1D} then 2 else if wl \<in> {6, 7, 8} then 4 else 0)"

definition transport_size :: "int \<Rightarrow> byte" where
  "transport_size wl = (if wl = 1 then 3 else if wl \<in> {0x1C, 0x1D} then 9 else 4)"

text \<open>A place a request can name: in the inputs, the outputs, the flags or a data block.\<close>

definition addressable :: "area \<Rightarrow> int \<Rightarrow> int \<Rightarrow> bool" where
  "addressable ar byte_offset bit_offset \<longleftrightarrow>
     (case ar of
        ProcessInputs \<Rightarrow> True | ProcessOutputs \<Rightarrow> True | Flags \<Rightarrow> True
      | DataBlock n \<Rightarrow> 0 \<le> n \<and> n < 65536
      | _ \<Rightarrow> False) \<and>
     0 \<le> byte_offset \<and> byte_offset < 2 ^ 21 \<and> 0 \<le> bit_offset \<and> bit_offset < 8"

definition readable :: "read_item \<Rightarrow> bool" where
  "readable it \<longleftrightarrow> addressable (ri_area it) (ri_byte_offset it) (ri_bit_offset it) \<and>
     0 \<le> ri_word_len it \<and> ri_word_len it < 256 \<and> 0 \<le> ri_count it \<and> ri_count it < 65536"

text \<open>Data of whole elements, a single one of them when it is a bit.\<close>

definition writable :: "write_item \<Rightarrow> bool" where
  "writable it \<longleftrightarrow> addressable (wi_area it) (wi_byte_offset it) (wi_bit_offset it) \<and>
     0 < element_size (wi_word_len it) \<and> element_size (wi_word_len it) dvd length (wi_data it) \<and>
     0 < length (wi_data it) \<and> length (wi_data it) < 8192 \<and> (wi_word_len it = 1 \<longrightarrow> length (wi_data it) = 1)"

definition read_order :: "read_item \<Rightarrow> s7_order" where
  "read_order it =
     \<lparr>od_word_len = ri_word_len it, od_count = ri_count it, od_area = Some (ri_area it),
      od_byte = ri_byte_offset it, od_bit = ri_bit_offset it\<rparr>"

definition write_order :: "write_item \<Rightarrow> s7_order" where
  "write_order it =
     \<lparr>od_word_len = wi_word_len it, od_count = int (length (wi_data it) div element_size (wi_word_len it)),
      od_area = Some (wi_area it), od_byte = wi_byte_offset it, od_bit = wi_bit_offset it\<rparr>"

lemma order_said:
  assumes "addressable ar off bo"
  shows "order_of (said_item wl cnt ar off bo) =
    \<lparr>od_word_len = wl, od_count = cnt, od_area = Some ar, od_byte = off, od_bit = bo\<rparr>"
proof -
  have "(off * 8 + bo) div 8 = off" "(off * 8 + bo) mod 8 = bo" using assms by (simp_all add: addressable_def)
  moreover have "area_of (acode ar) (adb ar) = Some ar"
    using assms by (cases ar) (simp_all add: addressable_def area_of_def tb_def)
  ultimately show ?thesis by (simp add: order_of_def said_item_def)
qed

lemma readable_encodable:
  "readable it \<Longrightarrow> encodable (ri_word_len it) (ri_count it) (ri_area it) (ri_byte_offset it) (ri_bit_offset it)"
  by (cases "ri_area it") (simp_all add: readable_def addressable_def encodable_def)

lemma element_size_byte: "0 < element_size wl \<Longrightarrow> data_size_byte wl = int (element_size wl) \<and> 0 \<le> wl \<and> wl < 256"
  by (auto simp: element_size_def data_size_byte_def word_lens split: if_splits)

lemma writable_fits:
  assumes "writable it"
  shows "write_fits it" "order_of (said_write it) = write_order it"
    "length (write_data it) = 4 + length (wi_data it)"
proof -
  let ?k = "element_size (wi_word_len it)" and ?n = "length (wi_data it)"
  have k: "data_size_byte (wi_word_len it) = int ?k" "0 \<le> wi_word_len it" "wi_word_len it < 256" "0 < ?k"
    using assms element_size_byte [of "wi_word_len it"] by (auto simp: writable_def)
  have c: "write_count it = Some (int (?n div ?k))"
    using assms k by (auto simp: write_count_def writable_def Let_def zdiv_int)
  have "?n < 8192" using assms by (simp add: writable_def)
  then have n: "?n div ?k < 65536" using div_le_dividend [of ?n ?k] by linarith
  have a: "addressable (wi_area it) (wi_byte_offset it) (wi_bit_offset it)" using assms by (simp add: writable_def)
  then have "encodable (wi_word_len it) (int (?n div ?k)) (wi_area it) (wi_byte_offset it) (wi_bit_offset it)"
    using k n by (cases "wi_area it") (simp_all add: addressable_def encodable_def)
  with c show "write_fits it" by (simp add: write_fits_def)
  show "order_of (said_write it) = write_order it"
    using c order_said [OF a] by (simp add: said_write_def write_order_def)
  show "length (write_data it) = 4 + ?n" by (simp add: write_data_def Let_def)
qed

lemma section_of:
  assumes "writable it"
  obtains len where "write_data it = [0x00, transport_size (wi_word_len it), hi8 len, lo8 len] @ wi_data it"
    "0 \<le> len" "len < 65536" "(if transport_size (wi_word_len it) = 9 then nat len else (nat len + 7) div 8) = length (wi_data it)"
proof -
  let ?n = "int (length (wi_data it))" and ?wl = "wi_word_len it"
  let ?len = "if ?wl \<in> {1, 0x1C, 0x1D} then ?n else ?n * 8"
  have n: "?n < 8192" using assms by (simp add: writable_def)
  then have "i32 (?n * 8) = ?n * 8" by (intro i32_nonneg) simp_all
  then have "write_data it = [0x00, transport_size ?wl, hi8 ?len, lo8 ?len] @ wi_data it"
    by (auto simp: write_data_def transport_size_def word_lens tb_def Let_def)
  moreover have "(if transport_size ?wl = 9 then nat ?len else (nat ?len + 7) div 8) = length (wi_data it)"
    using assms by (auto simp: writable_def transport_size_def nat_mult_distrib)
  ultimately show thesis using n by (intro that [of ?len]) auto
qed

lemma data_sections_next:
  assumes "bs ! 0 = 0" "bs ! 1 = ts" "be16 bs 2 = len" "(if ts = 9 then nat len else (nat len + 7) div 8) = k"
    and "4 + k \<le> length bs" "\<not> (n > 0 \<and> odd k)"
  shows "data_sections (Suc n) bs = map_option (Cons (ts, take k (drop 4 bs))) (data_sections n (drop (4 + k) bs))"
proof -
  have "\<not> (length bs < 4 \<or> bs ! 0 \<noteq> 0)" "\<not> length bs < 4 + k" using assms(1,5) by auto
  then show ?thesis unfolding data_sections.simps(2) Let_def assms(2,3,4) using assms(6) by (simp only: if_False)
qed

text \<open>The data sections of a write that need no fill byte are read back.\<close>

lemma data_sections_write:
  assumes "\<forall>it \<in> set ws. writable it" "\<forall>it \<in> set (butlast ws). even (length (wi_data it))"
  shows "data_sections (length ws) (concat (map write_data ws)) =
    Some (map (\<lambda>it. (transport_size (wi_word_len it), wi_data it)) ws)"
  using assms
proof (induction ws)
  case (Cons it ws)
  obtain len where len: "write_data it = [0x00, transport_size (wi_word_len it), hi8 len, lo8 len] @ wi_data it"
    "0 \<le> len" "len < 65536" "(if transport_size (wi_word_len it) = 9 then nat len else (nat len + 7) div 8) = length (wi_data it)"
    using section_of [of it] Cons.prems(1) by auto
  let ?bs = "write_data it @ concat (map write_data ws)"
  have b: "?bs ! 0 = 0" "?bs ! 1 = transport_size (wi_word_len it)" "be16 ?bs 2 = len" "4 + length (wi_data it) \<le> length ?bs"
    using len(2,3) by (simp_all add: len(1) be16_sum hi_lo)
  have "4 + length (wi_data it) = length (write_data it)" by (simp add: len(1))
  then have d: "drop (4 + length (wi_data it)) ?bs = concat (map write_data ws)" "take (length (wi_data it)) (drop 4 ?bs) = wi_data it"
    by simp (simp add: len(1))
  have e: "\<not> (length ws > 0 \<and> odd (length (wi_data it)))" using Cons.prems(2) by (cases ws) auto
  have "data_sections (length ws) (concat (map write_data ws)) =
      Some (map (\<lambda>it. (transport_size (wi_word_len it), wi_data it)) ws)"
  proof (rule Cons.IH)
    show "\<forall>it \<in> set ws. writable it" using Cons.prems(1) by simp
    show "\<forall>it \<in> set (butlast ws). even (length (wi_data it))" using Cons.prems(2) by (cases ws) simp_all
  qed
  moreover have "data_sections (Suc (length ws)) ?bs =
      map_option (Cons (transport_size (wi_word_len it), wi_data it)) (data_sections (length ws) (concat (map write_data ws)))"
    using data_sections_next [OF b(1-3) len(4) b(4) e] unfolding d .
  ultimately show ?case by simp
qed simp



text \<open>Timers and counters: the codes sent are not those of the protocol.\<close>

lemma timer_not_understood:
  "area_of (acode Area_Timer) db = None" "area_of (acode Area_Counter) db = None"
  by (simp_all add: area_of_def tb_def)

section \<open>Replies\<close>

text \<open>What a controller answers, written from the description of the protocol: the header of an
  acknowledgement has two more bytes, the error class and code.\<close>

definition ack_header :: "int \<Rightarrow> int \<Rightarrow> int \<Rightarrow> byte list" where
  "ack_header refn plen dlen = mk_hdr 0x03 refn plen dlen @ [0x00, 0x00]"

definition read_reply :: "int \<Rightarrow> byte list \<Rightarrow> byte list" where
  "read_reply refn bs =
     tpkt [cotp_dt, ack_header refn 2 (4 + int (length bs)), [0x04, 0x01],
       [0xFF, 0x04, hi8 (8 * int (length bs)), lo8 (8 * int (length bs))] @ bs]"

definition refused_reply :: "int \<Rightarrow> byte \<Rightarrow> byte list" where
  "refused_reply refn code = tpkt [cotp_dt, ack_header refn 2 4, [0x04, 0x01], [code, 0x00, 0x00, 0x00]]"

definition write_reply :: "int \<Rightarrow> byte \<Rightarrow> byte list" where
  "write_reply refn code = tpkt [cotp_dt, ack_header refn 2 1, [0x05, 0x01], [code]]"

definition setup_reply :: "int \<Rightarrow> int \<Rightarrow> byte list" where
  "setup_reply refn pdu = tpkt [cotp_dt, ack_header refn 8 0, [0xF0, 0x00, 0x00, 0x01, 0x00, 0x01, hi8 pdu, lo8 pdu]]"

lemma hi8_not_PID:
  assumes "0 \<le> v" "v < 12800"
  shows "hi8 v \<noteq> 0x32"
proof -
  have "v div 256 \<le> 12799 div 256" using assms by (intro zdiv_mono1) auto
  moreover have "0 \<le> v div 256" using assms by (simp add: pos_imp_zdiv_nonneg_iff)
  ultimately have "uint (hi8 v) \<noteq> uint (0x32 :: byte)" by simp
  then show ?thesis by metis
qed

text \<open>The lengths of a frame are never taken for its header.\<close>

lemma find_s7_ack:
  assumes "length xs + length (concat parts) < 12000"
  shows "find_s7 (tpkt (cotp_dt # (0x32 # 0x03 # xs) # parts)) = 7"
proof -
  let ?len = "int (length xs + length (concat parts)) + 9"
  have t: "tpkt (cotp_dt # (0x32 # 0x03 # xs) # parts) =
      0x03 # 0x00 # hi8 ?len # lo8 ?len # 0x02 # 0xF0 # 0x80 # 0x32 # 0x03 # xs @ concat parts"
    by (simp add: tpkt_def Let_def cotp_dt_def add_ac)
  have "hi8 ?len \<noteq> 0x32" using assms by (intro hi8_not_PID) auto
  then show ?thesis by (simp add: t find_s7_def PID_def)
qed

lemma ack_header_Cons: "ack_header refn plen dlen =
    0x32 # 0x03 # [0x00, 0x00, hi8 refn, lo8 refn, hi8 plen, lo8 plen, hi8 dlen, lo8 dlen, 0x00, 0x00]"
  by (simp add: ack_header_def mk_hdr_def PID_def)

lemma parse_read_reply:
  assumes "length bs < 10000"
  shows "parse_response (read_reply refn bs) = Inr [bs]"
proof -
  define F where "F = read_reply refn bs"
  have s7: "find_s7 F = 7"
    unfolding F_def read_reply_def ack_header_Cons by (rule find_s7_ack) (use assms in simp)
  have "F = take 4 F @ [0x02, 0xF0, 0x80, 0x32, 0x03, 0x00, 0x00, hi8 refn, lo8 refn, 0x00, 0x02,
      hi8 (4 + int (length bs)), lo8 (4 + int (length bs)), 0x00, 0x00, 0x04, 0x01,
      0xFF, 0x04, hi8 (8 * int (length bs)), lo8 (8 * int (length bs))] @ bs" "length (take 4 F) = 4"
    by (simp_all add: F_def read_reply_def tpkt_def Let_def cotp_dt_def ack_header_Cons hi8_def lo8_def)
  then obtain pre where F: "F = pre @ [0x02, 0xF0, 0x80, 0x32, 0x03, 0x00, 0x00, hi8 refn, lo8 refn, 0x00, 0x02,
      hi8 (4 + int (length bs)), lo8 (4 + int (length bs)), 0x00, 0x00, 0x04, 0x01,
      0xFF, 0x04, hi8 (8 * int (length bs)), lo8 (8 * int (length bs))] @ bs" "length pre = 4" by blast
  have "length F = 25 + length bs" "F ! 8 = 0x03" "F ! 21 = 0xFF" "drop 25 F = bs"
    using F(2) by (simp_all add: F(1) nth_append)
  then show ?thesis by (simp add: F_def [symmetric] parse_response_def s7 Let_def)
qed

text \<open>
  The acknowledgement of a setup has 27 bytes; the parser takes the agreed length only from a
  frame of at least 28, so that it answers 480 whatever the controller agreed to.
\<close>

lemma setup_reply_ignored: "length (setup_reply refn pdu) = 27 \<and> parse_setup_resp (setup_reply refn pdu) = Inr 480"
proof -
  have l: "length (setup_reply refn pdu) = 27" by (simp add: setup_reply_def tpkt_length cotp_dt_def ack_header_Cons)
  have "find_s7 (setup_reply refn pdu) = 7"
    unfolding setup_reply_def ack_header_Cons by (rule find_s7_ack) simp
  with l show ?thesis by (simp add: parse_setup_resp_def)
qed

text \<open>The length indicator of a connection request is that of two TSAPs of two bytes each.\<close>

lemma cotp_cr_length_indicator:
  assumes "length lsap + length rsap < 200"
  shows "uint (build_cotp_cr lsap rsap ! 4) = int (length (build_cotp_cr lsap rsap)) - 5 \<longleftrightarrow>
    length lsap + length rsap = 4"
  using assms by (auto simp: build_cotp_cr_def Let_def)

text \<open>A write of several items does not pad a data section of odd length to an even one.\<close>

lemma odd_section_not_padded:
  "build_write_pdu [WriteItem_new Flags 0 DT_Byte [1], WriteItem_new Flags 1 DT_Byte [2]] refn = Some (Inr f) \<Longrightarrow>
     drop 43 f = [0x00, 0x04, 0x00, 0x08, 1, 0x00, 0x04, 0x00, 0x08, 2]"
  by (auto simp: build_write_pdu_def write_count_def WriteItem_new_def word_lens data_size_byte_def write_data_def
    tpkt_def Let_def cotp_dt_def mk_hdr_def item_bytes_def MAX_PDU_def tb_def hi8_def lo8_def i32_def)

text \<open>A code of the state of a controller that means one thing in \<open>CpuStatus::from_u8\<close> and another in the parser.\<close>

lemma stop_codes_differ:
  "parse_plc_status (replicate 44 0 @ [4]) = Inr Cpu_Unknown \<and> cpu_status_from_u8 4 = Cpu_Stop"
  by (simp add: parse_plc_status_def cpu_status_from_u8_def nth_append)

end
