(* ===== verification/S7_Field.thy ===== *)
theory S7_Field
  imports Complex_Main S7_Frame
begin

text \<open>
  The values of a data block: \<open>src/protocol/field.mbt\<close> and the strings of \<open>s7comm.mbt\<close>. A \<open>Double\<close> is
  an exact rational number or an infinity: the functions here only halve, double, and combine
  numbers whose exact result has at most 53 significant bits, so that no rounding but that of
  \<open>round()\<close> takes place. A character is its code point, and a text is written by the standard
  library in UTF-8.

  The lemmas: encoding and decoding are inverse on integers, bits, strings and the numbers a
  32-bit float can hold; the ones that are not are pinned down.
\<close>

section \<open>Bits and words\<close>

record bool_field =
  bf_db_num :: int
  bf_byte_offset :: int
  bf_bit_offset :: nat
  bf_byte_val :: int
  bf_bit_val :: bool

definition BoolField_from_byte :: "int \<Rightarrow> int \<Rightarrow> nat \<Rightarrow> byte \<Rightarrow> bool_field" where
  "BoolField_from_byte db byte_off bit_off b =
     (let v = uint b;
          bo = (v div 2 ^ bit_off) AND 1
      in \<lparr>bf_db_num = db, bf_byte_offset = byte_off, bf_bit_offset = bit_off, bf_byte_val = v,
          bf_bit_val = (bo \<noteq> 0)\<rparr>)"

definition BoolField_set_value :: "bool_field \<Rightarrow> bool \<Rightarrow> bool_field" where
  "BoolField_set_value f v =
     (let m = 2 ^ bf_bit_offset f;
          nb = (if v then bf_byte_val f OR m else bf_byte_val f AND (0xFF XOR m))
      in f\<lparr>bf_byte_val := nb, bf_bit_val := v\<rparr>)"

definition BoolField_to_bytes :: "bool_field \<Rightarrow> byte list" where
  "BoolField_to_bytes f = [tb (bf_byte_val f)]"

record word_field =
  wf_db_num :: int
  wf_offset_val :: int
  wf_value_val :: int

definition WordField_new :: "int \<Rightarrow> int \<Rightarrow> byte list \<Rightarrow> word_field" where
  "WordField_new db offset bs =
     \<lparr>wf_db_num = db, wf_offset_val = offset, wf_value_val = (if 2 \<le> length bs then be16 bs 0 else 0)\<rparr>"

definition WordField_to_bytes :: "word_field \<Rightarrow> byte list" where
  "WordField_to_bytes f = [hi8 (wf_value_val f), lo8 (wf_value_val f)]"

definition dword_from_bytes :: "byte list \<Rightarrow> int" where
  "dword_from_bytes b =
     (uint (b ! 0) * 2 ^ 24) OR (uint (b ! 1) * 2 ^ 16) OR (uint (b ! 2) * 2 ^ 8) OR uint (b ! 3)"

definition dword_to_bytes :: "int \<Rightarrow> byte list" where
  "dword_to_bytes v =
     [tb ((v div 2 ^ 24) AND 0xFF), tb ((v div 2 ^ 16) AND 0xFF), tb ((v div 2 ^ 8) AND 0xFF), tb (v AND 0xFF)]"

text \<open>\<open>to_int\<close> of a 64-bit number keeps the low 32 bits.\<close>

definition dint_from_bytes :: "byte list \<Rightarrow> int" where
  "dint_from_bytes b =
     (let u = dword_from_bytes b
      in i32 (if 0x80000000 \<le> u then u - 0x100000000 else u))"

definition dint_to_bytes :: "int \<Rightarrow> byte list" where
  "dint_to_bytes v = dword_to_bytes (v AND 0xFFFFFFFF)"

definition DIntField_value :: "byte list \<Rightarrow> int" where
  "DIntField_value bs = (if 4 \<le> length bs then dint_from_bytes bs else 0)"

definition DWordField_value :: "byte list \<Rightarrow> int" where
  "DWordField_value bs = (if 4 \<le> length bs then dword_from_bytes bs else 0)"

section \<open>Floating-point numbers\<close>

datatype double = Finite rat | Infinite bool

text \<open>\<open>pow2\<close> multiplies in a loop and inverts for a negative exponent.\<close>

primrec pow2_loop :: "nat \<Rightarrow> rat \<Rightarrow> rat" where
  "pow2_loop 0 r = r"
| "pow2_loop (Suc n) r = pow2_loop n (r * 2)"

definition pow2 :: "int \<Rightarrow> rat" where
  "pow2 e =
     (let r = pow2_loop (nat (if e < 0 then - e else e)) 1
      in if e < 0 then 1 / r else r)"

text \<open>The two loops of \<open>ilog2_floor\<close>.\<close>

partial_function (option) halve_loop :: "int \<Rightarrow> rat \<Rightarrow> (int \<times> rat) option" where
  "halve_loop n v = (if 2 \<le> v then halve_loop (n + 1) (v / 2) else Some (n, v))"

partial_function (option) double_loop :: "int \<Rightarrow> rat \<Rightarrow> int option" where
  "double_loop n v = (if v < 1 then double_loop (n - 1) (v * 2) else Some n)"

definition ilog2_floor :: "rat \<Rightarrow> int option" where
  "ilog2_floor x = Option.bind (halve_loop 0 x) (\<lambda>(n, v). double_loop n v)"

definition f32_bits :: "byte list \<Rightarrow> int" where
  "f32_bits b =
     i32 ((uint (b ! 0) * 2 ^ 24) OR (uint (b ! 1) * 2 ^ 16) OR (uint (b ! 2) * 2 ^ 8) OR uint (b ! 3))"

definition f32_from_bytes :: "byte list \<Rightarrow> double" where
  "f32_from_bytes b =
     (let bits = f32_bits b;
          sign = (if bits AND (- (2 ^ 31)) \<noteq> 0 then - 1 else 1);
          e = ((bits div 2 ^ 23) AND 0xFF) - 127;
          mant = rat_of_int (bits AND 0x7FFFFF)
      in if e = -127 \<and> mant = 0 then Finite 0
         else if e = 128 then Infinite (sign < (0 :: rat))
         else let mv = 1 + mant / 8388608 in Finite (sign * mv * pow2 e))"

text \<open>\<open>None\<close> is a loop of \<open>ilog2_floor\<close> that does not end. \<open>round\<close> of a number that is not negative.\<close>

definition round_half_up :: "rat \<Rightarrow> int" where
  "round_half_up x = \<lfloor>x + 1 / 2\<rfloor>"

definition f32_to_bytes :: "rat \<Rightarrow> byte list option" where
  "f32_to_bytes v =
     (if v = 0 then Some [0, 0, 0, 0]
      else
        let sb = (if v < 0 then 1 else 0);
            av = (if v < 0 then - v else v)
        in map_option (\<lambda>ev.
             let eb = ev + 127;
                 mn = av / pow2 ev;
                 mi = round_half_up ((mn - 1) * 8388608);
                 bits = (i32 (sb * 2 ^ 31) OR i32 (eb * 2 ^ 23)) OR (mi AND 0x7FFFFF)
             in [tb ((bits div 2 ^ 24) AND 0xFF), tb ((bits div 2 ^ 16) AND 0xFF),
                 tb ((bits div 2 ^ 8) AND 0xFF), tb (bits AND 0xFF)]) (ilog2_floor av))"

definition f64_from_bytes :: "byte list \<Rightarrow> double" where
  "f64_from_bytes b =
     (let hi = f32_bits b;
          lo = f32_bits (drop 4 b);
          sign = (if hi AND (- (2 ^ 31)) \<noteq> 0 then - 1 else 1);
          e = ((hi div 2 ^ 20) AND 0x7FF) - 1023;
          mh = rat_of_int (hi AND 0xFFFFF);
          ml = rat_of_int lo
      in if e = -1023 \<and> mh = 0 \<and> ml = 0 then Finite 0
         else if e = 1024 then Infinite (sign < (0 :: rat))
         else let mv = 1 + (mh * 4294967296 + ml) / 4503599627370496 in Finite (sign * mv * pow2 e))"

definition f64_to_bytes :: "rat \<Rightarrow> byte list option" where
  "f64_to_bytes v =
     (if v = 0 then Some (replicate 8 0)
      else
        let sb = (if v < 0 then 1 else 0);
            av = (if v < 0 then - v else v)
        in map_option (\<lambda>ev.
             let eb = ev + 1023;
                 mn = av / pow2 ev;
                 mi = round_half_up ((mn - 1) * 4503599627370496);
                 hm = (mi div 2 ^ 32) AND 0xFFFFF;
                 lm = i32 (mi AND 0xFFFFFFFF);
                 hi = (i32 (sb * 2 ^ 31) OR i32 (eb * 2 ^ 20)) OR hm
             in [tb ((hi div 2 ^ 24) AND 0xFF), tb ((hi div 2 ^ 16) AND 0xFF), tb ((hi div 2 ^ 8) AND 0xFF), tb (hi AND 0xFF),
                 tb ((lm div 2 ^ 24) AND 0xFF), tb ((lm div 2 ^ 16) AND 0xFF), tb ((lm div 2 ^ 8) AND 0xFF), tb (lm AND 0xFF)])
             (ilog2_floor av))"

section \<open>Strings\<close>

text \<open>UTF-8 as \<open>write_string_utf8\<close> of the standard library writes it.\<close>

definition utf8_char :: "int \<Rightarrow> byte list" where
  "utf8_char c =
     (if c < 0x80 then [tb c]
      else if c < 0x800 then [tb (0xC0 + c div 64), tb (0x80 + c mod 64)]
      else if c < 0x10000 then [tb (0xE0 + c div 4096), tb (0x80 + c div 64 mod 64), tb (0x80 + c mod 64)]
      else [tb (0xF0 + c div 262144), tb (0x80 + c div 4096 mod 64), tb (0x80 + c div 64 mod 64), tb (0x80 + c mod 64)])"

definition utf8 :: "int list \<Rightarrow> byte list" where
  "utf8 s = concat (map utf8_char s)"

definition encode_s7_string :: "int \<Rightarrow> int list \<Rightarrow> byte list" where
  "encode_s7_string max_len s =
     (let chars = utf8 s;
          cur = (if int (length chars) > max_len then max_len else int (length chars))
      in [tb max_len, tb cur] @ take (nat cur) chars)"

definition cont6 :: "byte \<Rightarrow> int" where
  "cont6 b = uint b AND 0x3F"

function decode_utf8 :: "byte list \<Rightarrow> int list" where
  "decode_utf8 [] = []"
| "decode_utf8 (b0 # rest) =
     (let c0 = uint b0 AND 0xFF
      in if c0 < 0x80 then c0 # decode_utf8 rest
         else if c0 < 0xE0 \<and> 1 \<le> length rest
         then (((c0 AND 0x1F) * 2 ^ 6) OR cont6 (rest ! 0)) # decode_utf8 (drop 1 rest)
         else if c0 < 0xF0 \<and> 2 \<le> length rest
         then ((((c0 AND 0x0F) * 2 ^ 12) OR (cont6 (rest ! 0) * 2 ^ 6)) OR cont6 (rest ! 1)) # decode_utf8 (drop 2 rest)
         else if 3 \<le> length rest
         then (((((c0 AND 0x07) * 2 ^ 18) OR (cont6 (rest ! 0) * 2 ^ 12)) OR (cont6 (rest ! 1) * 2 ^ 6)) OR cont6 (rest ! 2))
           # decode_utf8 (drop 3 rest)
         else decode_utf8 rest)"
  by pat_completeness auto
termination by (relation "measure length") auto

declare decode_utf8.simps(2) [simp del]

definition decode_s7_string :: "byte list \<Rightarrow> int list" where
  "decode_s7_string data =
     (if length data < 2 then []
      else
        let cur = uint (data ! 1);
            avail = int (length data) - 2;
            n = (if cur > avail then avail else cur)
        in decode_utf8 (take (nat n) (drop 2 data)))"

text \<open>\<open>StringField::to_bytes\<close>: padded to the whole field.\<close>

definition StringField_to_bytes :: "int \<Rightarrow> int list \<Rightarrow> byte list" where
  "StringField_to_bytes max_len s =
     (let b = encode_s7_string max_len s
      in b @ replicate (nat (max_len + 2) - length b) 0)"

section \<open>Integers\<close>

lemma and_mask_mod: "(x :: int) AND (2 ^ n - 1) = x mod 2 ^ n"
  using take_bit_eq_mask [of n x] by (simp add: take_bit_eq_mod mask_eq_exp_minus_1)

lemma and_mods:
  fixes x :: int
  shows "x AND 1 = x mod 2" "x AND 0x07 = x mod 8" "x AND 0x0F = x mod 16" "x AND 0x1F = x mod 32"
     "x AND 0x3F = x mod 64" "x AND 0x7FF = x mod 2048" "x AND 0xFFFFF = x mod 1048576"
     "x AND 0x7FFFFF = x mod 8388608" "x AND 0xFFFFFFFF = x mod 4294967296"
proof -
  show "x AND 1 = x mod 2" using and_mask_mod [of x 1] by simp
  show "x AND 0x07 = x mod 8" using and_mask_mod [of x 3] by simp
  show "x AND 0x0F = x mod 16" using and_mask_mod [of x 4] by simp
  show "x AND 0x1F = x mod 32" using and_mask_mod [of x 5] by simp
  show "x AND 0x3F = x mod 64" using and_mask_mod [of x 6] by simp
  show "x AND 0x7FF = x mod 2048" using and_mask_mod [of x 11] by simp
  show "x AND 0xFFFFF = x mod 1048576" using and_mask_mod [of x 20] by simp
  show "x AND 0x7FFFFF = x mod 8388608" using and_mask_mod [of x 23] by simp
  show "x AND 0xFFFFFFFF = x mod 4294967296" using and_mask_mod [of x 32] by simp
qed

lemma or_byte: "0 \<le> c \<Longrightarrow> c < 256 \<Longrightarrow> (a * 256) OR c = a * 256 + (c :: int)"
  using shift_or [of c 8 a] by simp

lemma uint_byte: "0 \<le> uint (b :: byte)" "uint (b :: byte) < 256"
  using uint_lt2p [of b] by simp_all

text \<open>Four bytes are the digits of their number.\<close>

lemma or_bytes:
  assumes "0 \<le> b" "b < 256" "0 \<le> c" "c < 256" "0 \<le> d" "d < (256 :: int)"
  shows "(a * 2 ^ 24) OR (b * 2 ^ 16) OR (c * 2 ^ 8) OR d = a * 2 ^ 24 + b * 2 ^ 16 + c * 2 ^ 8 + d"
proof -
  have "(c * 2 ^ 8) OR d = c * 2 ^ 8 + d" using assms by (intro shift_or) simp_all
  moreover have "(b * 2 ^ 16) OR (c * 2 ^ 8 + d) = b * 2 ^ 16 + (c * 2 ^ 8 + d)"
    using assms by (intro shift_or) simp_all
  moreover have "(a * 2 ^ 24) OR (b * 2 ^ 16 + (c * 2 ^ 8 + d)) = a * 2 ^ 24 + (b * 2 ^ 16 + (c * 2 ^ 8 + d))"
    using assms by (intro shift_or) simp_all
  ultimately show ?thesis by simp
qed

lemma dword_from_bytes_sum:
  "dword_from_bytes b = uint (b ! 0) * 2 ^ 24 + uint (b ! 1) * 2 ^ 16 + uint (b ! 2) * 2 ^ 8 + uint (b ! 3)"
  unfolding dword_from_bytes_def by (rule or_bytes) (simp_all add: uint_byte)

lemma digits4:
  "v div 16777216 mod 256 * 16777216 + v div 65536 mod 256 * 65536 + v div 256 mod 256 * 256 + v mod 256 =
     (v :: int) mod 4294967296"
proof -
  define a b c d x where d: "a = v div 16777216 mod 256" "b = v div 65536 mod 256" "c = v div 256 mod 256"
    "d = v mod 256" "x = v div 65536 mod 65536"
  have "v mod (65536 * 65536) = 65536 * x + v mod 65536"
    unfolding d by (rule zmod_zmult2_eq) (rule zero_le_numeral)
  then have z: "v mod 4294967296 = 65536 * x + v mod 65536"
    by (simp only: mult_num_simps numeral_times_numeral)
  have "v div 65536 div 256 = v div 16777216"
    by (simp only: zdiv_zmult2_eq [symmetric] zero_le_numeral mult_num_simps numeral_times_numeral)
  then have x: "x = a * 256 + b" using hi_lo_mod [of "v div 65536"] by (simp only: d)
  have y: "v mod 65536 = c * 256 + d" using hi_lo_mod [of v] by (simp only: d)
  show ?thesis unfolding d(1-4) [symmetric] z y x by simp
qed

lemma dword_to_bytes_digits:
  "dword_to_bytes v = [tb (v div 16777216 mod 256), tb (v div 65536 mod 256), tb (v div 256 mod 256), tb (v mod 256)]"
  by (simp add: dword_to_bytes_def and_0xFF)

lemma dword_roundtrip_mod: "dword_from_bytes (dword_to_bytes v) = v mod 4294967296"
proof -
  have "dword_from_bytes (dword_to_bytes v) = v div 16777216 mod 256 * 16777216 + v div 65536 mod 256 * 65536 +
      v div 256 mod 256 * 256 + v mod 256"
    by (simp add: dword_from_bytes_sum dword_to_bytes_digits)
  also have "\<dots> = v mod 4294967296" by (rule digits4)
  finally show ?thesis .
qed

lemma dword_roundtrip: "0 \<le> v \<Longrightarrow> v < 2 ^ 32 \<Longrightarrow> dword_from_bytes (dword_to_bytes v) = v"
  by (simp add: dword_roundtrip_mod)

lemma dint_roundtrip:
  assumes "- (2 ^ 31) \<le> v" "v < 2 ^ 31"
  shows "dint_from_bytes (dint_to_bytes v) = v"
proof -
  have "dword_from_bytes (dint_to_bytes v) = v mod 4294967296"
    by (simp add: dint_to_bytes_def and_mods dword_roundtrip_mod)
  moreover have "v mod 4294967296 = (if v < 0 then v + 4294967296 else v)"
  proof (cases "v < 0")
    case True
    with assms have "(v + 4294967296) mod 4294967296 = v + 4294967296" by (intro mod_pos_pos_trivial) simp_all
    with True show ?thesis by simp
  qed (use assms in simp)
  ultimately show ?thesis
    using assms i32_id [of v] by (auto simp: dint_from_bytes_def Let_def)
qed

lemma word_roundtrip: "0 \<le> v \<Longrightarrow> v < 65536 \<Longrightarrow> be16 [hi8 v, lo8 v] 0 = v"
  by (simp add: be16_sum hi_lo)

text \<open>Setting a bit of a byte changes that bit, and no other.\<close>

lemma from_byte_bit: "bf_bit_val (BoolField_from_byte db a i b) = bit b i"
  using bit_uint_iff [of b i] bit_iff_odd [of "uint b" i]
  by (auto simp: BoolField_from_byte_def Let_def and_mods odd_iff_mod_2_eq_one dest: bit_imp_le_length)

lemma bool_field_bit:
  assumes "off < 8" "i < 8"
  shows "bf_bit_val (BoolField_from_byte db a i (hd (BoolField_to_bytes (BoolField_set_value (BoolField_from_byte db a off b) v)))) =
    (if i = off then v else bf_bit_val (BoolField_from_byte db a i b))"
proof -
  have m: "bit (2 ^ off :: int) i \<longleftrightarrow> i = off" by (auto simp: bit_exp_iff)
  have f: "bit (0xFF :: int) i" using bit_mask_iff [of 8 i, where 'a = int] assms by (simp add: mask_eq_exp_minus_1)
  show ?thesis
    using assms m f unfolding from_byte_bit
    by (auto simp: BoolField_to_bytes_def BoolField_set_value_def BoolField_from_byte_def Let_def tb_def
      bit_word_of_int_iff bit_or_int_iff bit_and_int_iff bit_xor_int_iff bit_uint_iff)
qed

section \<open>Text\<close>

lemma cont6_tb:
  assumes "0 \<le> r" "r < 64"
  shows "cont6 (tb (0x80 + r)) = r"
proof -
  have "(128 + r) mod 64 = (r + 2 * 64) mod 64" by (simp add: add.commute)
  also have "\<dots> = r" using assms by (simp only: mod_mult_self1 mod_pos_pos_trivial)
  finally have "(128 + r) mod 64 = r" .
  then show ?thesis using assms by (simp add: cont6_def and_mods)
qed

lemma lead_byte:
  assumes "0 \<le> q" "q < m" "k + m \<le> 256" "0 \<le> (k :: int)" "m dvd k"
  shows "uint (tb (k + q)) AND 0xFF = k + q" "(k + q) mod m = q"
proof -
  have "(k + q) mod 256 = k + q" using assms by (intro mod_pos_pos_trivial) auto
  then show "uint (tb (k + q)) AND 0xFF = k + q" by (simp add: and_0xFF)
  obtain l where "k = m * l" using assms(5) by auto
  then have "(k + q) mod m = q mod m" by simp
  then show "(k + q) mod m = q" using assms by simp
qed

lemma or3:
  assumes "0 \<le> b" "b < 64" "0 \<le> r" "r < (64 :: int)"
  shows "((a * 2 ^ 12) OR (b * 2 ^ 6)) OR r = a * 4096 + b * 64 + r"
proof -
  have "(a * 2 ^ 12) OR (b * 2 ^ 6) = (a * 64 + b) * 2 ^ 6"
    using shift_or [of "b * 64" 12 a] assms by simp
  then show ?thesis using shift_or [of r 6 "a * 64 + b"] assms by simp
qed

lemma or4:
  assumes "0 \<le> d" "d < 64" "0 \<le> b" "b < 64" "0 \<le> r" "r < (64 :: int)"
  shows "(((a * 2 ^ 18) OR (d * 2 ^ 12)) OR (b * 2 ^ 6)) OR r = a * 262144 + d * 4096 + b * 64 + r"
proof -
  have "(a * 2 ^ 18) OR (d * 2 ^ 12) = (a * 64 + d) * 2 ^ 12"
    using shift_or [of "d * 4096" 18 a] assms by simp
  then show ?thesis using or3 [of b r "a * 64 + d"] assms by simp
qed

lemma decode_utf8_1: "0 \<le> c \<Longrightarrow> c < 0x80 \<Longrightarrow> decode_utf8 (tb c # rest) = c # decode_utf8 rest"
  by (simp add: decode_utf8.simps(2) and_0xFF)

lemma decode_utf8_2:
  assumes "2 \<le> q" "q < 32" "0 \<le> r" "r < 64"
  shows "decode_utf8 (tb (0xC0 + q) # tb (0x80 + r) # rest) = (q * 64 + r) # decode_utf8 rest"
  using assms lead_byte [of q 32 "0xC0"] cont6_tb [of r] shift_or [of r 6 q]
  by (simp add: decode_utf8.simps(2) and_mods)

lemma decode_utf8_3:
  assumes "0 \<le> a" "a < 16" "0 \<le> b" "b < 64" "0 \<le> r" "r < 64"
  shows "decode_utf8 (tb (0xE0 + a) # tb (0x80 + b) # tb (0x80 + r) # rest) = (a * 4096 + b * 64 + r) # decode_utf8 rest"
  using assms lead_byte [of a 16 "0xE0"] cont6_tb [of r] cont6_tb [of b] or3 [of b r a]
  by (simp add: decode_utf8.simps(2) and_mods)

lemma decode_utf8_4:
  assumes "0 \<le> a" "a < 8" "0 \<le> d" "d < 64" "0 \<le> b" "b < 64" "0 \<le> r" "r < 64"
  shows "decode_utf8 (tb (0xF0 + a) # tb (0x80 + d) # tb (0x80 + b) # tb (0x80 + r) # rest) =
    (a * 262144 + d * 4096 + b * 64 + r) # decode_utf8 rest"
  using assms lead_byte [of a 8 "0xF0"] cont6_tb [of r] cont6_tb [of b] cont6_tb [of d] or4 [of d b r a]
  by (simp add: decode_utf8.simps(2) and_mods)

definition code_point :: "int \<Rightarrow> bool" where
  "code_point c \<longleftrightarrow> 0 \<le> c \<and> c < 0x110000"

lemma decode_utf8_char:
  assumes "code_point c"
  shows "decode_utf8 (utf8_char c @ rest) = c # decode_utf8 rest"
proof -
  define q a d b r where d: "q = c div 64" "a = c div 4096" "d = c div 262144" "b = c div 4096 mod 64" "r = c mod 64"
  define m where "m = c div 64 mod 64"
  have range: "0 \<le> c" "c < 0x110000" using assms by (simp_all add: code_point_def)
  have r: "0 \<le> r" "r < 64" "0 \<le> m" "m < 64" "0 \<le> b" "b < 64" by (simp_all add: d m_def)
  have q: "c = q * 64 + r" by (simp add: d)
  have "q div 64 = a" by (simp add: d zdiv_zmult2_eq [symmetric])
  then have a: "q = a * 64 + m" using div_mult_mod_eq [of q 64] by (simp add: m_def d)
  have "a div 64 = d" by (simp add: d zdiv_zmult2_eq [symmetric])
  then have dd: "a = d * 64 + b" using div_mult_mod_eq [of a 64] by (simp add: d)
  consider "c < 0x80" | "0x80 \<le> c" "c < 0x800" | "0x800 \<le> c" "c < 0x10000" | "0x10000 \<le> c" by linarith
  moreover have u: "utf8_char c = (if c < 0x80 then [tb c] else if c < 0x800 then [tb (0xC0 + q), tb (0x80 + r)]
      else if c < 0x10000 then [tb (0xE0 + a), tb (0x80 + m), tb (0x80 + r)]
      else [tb (0xF0 + d), tb (0x80 + b), tb (0x80 + m), tb (0x80 + r)])"
    by (simp add: utf8_char_def d m_def)
  ultimately show ?thesis
  proof cases
    case 1
    with range show ?thesis by (simp add: u decode_utf8_1)
  next
    case 2
    with q r have "2 \<le> q" "q < 32" by linarith+
    with 2 r show ?thesis by (simp add: u decode_utf8_2 q [symmetric])
  next
    case 3
    with q r a have "0 \<le> a" "a < 16" by linarith+
    moreover have "a * 4096 + m * 64 + r = c" using q a by simp
    moreover have "utf8_char c = [tb (0xE0 + a), tb (0x80 + m), tb (0x80 + r)]" using 3 by (simp add: u)
    ultimately show ?thesis using r by (simp add: decode_utf8_3)
  next
    case 4
    with q r a dd range have "0 \<le> d" "d < 8" by linarith+
    moreover have "d * 262144 + b * 4096 + m * 64 + r = c" using q a dd by simp
    moreover have "utf8_char c = [tb (0xF0 + d), tb (0x80 + b), tb (0x80 + m), tb (0x80 + r)]" using 4 by (simp add: u)
    ultimately show ?thesis using r by (simp add: decode_utf8_4)
  qed
qed

lemma decode_utf8_utf8: "\<forall>c \<in> set s. code_point c \<Longrightarrow> decode_utf8 (utf8 s) = s"
  by (induction s) (simp_all add: utf8_def decode_utf8_char)

lemma decode_s7_string_padded:
  assumes "\<forall>c \<in> set s. code_point c" "int (length (utf8 s)) \<le> max_len" "max_len < 256"
  shows "decode_s7_string (StringField_to_bytes max_len s) = s"
proof -
  let ?n = "length (utf8 s)"
  have e: "encode_s7_string max_len s = [tb max_len, tb (int ?n)] @ utf8 s"
    using assms(2) by (simp add: encode_s7_string_def Let_def)
  have "int ?n < 256" using assms(2,3) by simp
  then show ?thesis
    using assms(1,2) by (simp add: StringField_to_bytes_def e decode_s7_string_def decode_utf8_utf8)
qed

lemma StringField_length:
  "0 \<le> max_len \<Longrightarrow> length (StringField_to_bytes max_len s) = nat (max_len + 2)"
  by (auto simp: StringField_to_bytes_def encode_s7_string_def Let_def min_def)

text \<open>A text of more bytes than \<open>max_len\<close> is cut between bytes, not between characters.\<close>

lemma cut_inside_character: "decode_s7_string (StringField_to_bytes 1 [0xE9]) = []"
  by (simp add: StringField_to_bytes_def encode_s7_string_def utf8_def utf8_char_def tb_def decode_s7_string_def
    decode_utf8.simps(2) and_mods and_0xFF)

section \<open>Real numbers\<close>

lemma pow2_loop_power: "pow2_loop n r = r * 2 ^ n"
  by (induction n arbitrary: r) simp_all

lemma pow2_powi: "pow2 e = 2 powi e"
  by (simp add: pow2_def pow2_loop_power power_int_def Let_def power_one_over)

lemma halve_loop_power:
  "1 \<le> m \<Longrightarrow> m < 2 \<Longrightarrow> halve_loop n (m * 2 ^ k) = Some (n + int k, m)"
proof (induction k arbitrary: n)
  case 0
  then show ?case by (simp add: halve_loop.simps [of n m])
next
  case (Suc k)
  have "1 * 1 \<le> m * 2 ^ k" using Suc.prems by (intro mult_mono) simp_all
  then have "halve_loop n (m * 2 ^ Suc k) = halve_loop (n + 1) (m * 2 ^ Suc k / 2)"
    by (subst halve_loop.simps) simp
  also have "m * 2 ^ Suc k / 2 = m * 2 ^ k" by simp
  finally show ?case using Suc.IH [of "n + 1"] Suc.prems by simp
qed

lemma double_loop_power:
  "1 \<le> m \<Longrightarrow> m < 2 \<Longrightarrow> double_loop n (m / 2 ^ k) = Some (n - int k)"
proof (induction k arbitrary: n)
  case 0
  then show ?case by (simp add: double_loop.simps [of n m])
next
  case (Suc k)
  have "m / 2 ^ Suc k < 2 / 2 ^ Suc k" using Suc.prems by (intro divide_strict_right_mono) simp_all
  also have "\<dots> \<le> 1" by simp
  finally have "double_loop n (m / 2 ^ Suc k) = double_loop (n - 1) (m / 2 ^ Suc k * 2)"
    by (subst double_loop.simps) simp
  also have "m / 2 ^ Suc k * 2 = m / 2 ^ k" by simp
  finally show ?case using Suc.IH [of "n - 1"] Suc.prems by simp
qed

lemma ilog2_floor_powi:
  assumes "1 \<le> m" "m < 2"
  shows "ilog2_floor (m * 2 powi e) = Some e"
proof (cases "0 \<le> e")
  case True
  then have "halve_loop 0 (m * 2 powi e) = Some (e, m)"
    using halve_loop_power [OF assms, of 0 "nat e"] by (simp add: power_int_def)
  with assms show ?thesis by (simp add: ilog2_floor_def double_loop.simps [of e m])
next
  case False
  define k where "k = nat (- e)"
  have v: "m * 2 powi e = m / 2 ^ k" using False by (simp add: power_int_def power_one_over k_def)
  have "m / 2 ^ k \<le> m / 1" using assms by (intro divide_left_mono) simp_all
  with assms(2) have "halve_loop 0 (m / 2 ^ k) = Some (0, m / 2 ^ k)" by (subst halve_loop.simps) simp
  with double_loop_power [OF assms, of 0 k] False show ?thesis by (simp add: ilog2_floor_def v k_def)
qed

text \<open>A number of 32 bits by its sign, its exponent field and its mantissa field.\<close>

definition f32_of_parts :: "bool \<Rightarrow> int \<Rightarrow> int \<Rightarrow> int" where
  "f32_of_parts neg eb m = (if neg then - (2 ^ 31) else 0) + eb * 2 ^ 23 + m"

lemma sign_bit:
  assumes "- (2 ^ 31) \<le> x" "x < 2 ^ 31"
  shows "x AND (- (2 ^ 31)) \<noteq> 0 \<longleftrightarrow> x < (0 :: int)"
proof -
  have p: "- (2 ^ 31) = push_bit 31 (- 1 :: int)" by (simp add: push_bit_eq_mult)
  show ?thesis
  proof (cases "x < 0")
    case True
    with assms have "x div 2 ^ 31 = - 1" by (intro int_div_pos_eq [of _ _ _ "x + 2 ^ 31"]) simp_all
    then have "bit x 31" by (simp add: bit_iff_odd)
    moreover have "bit (push_bit 31 (- 1 :: int)) 31" by (simp add: bit_simps)
    ultimately have "bit (x AND push_bit 31 (- 1)) 31" by (simp only: bit_and_iff simp_thms)
    then have "x AND push_bit 31 (- 1) \<noteq> 0" by (metis bit_0_eq bot_apply bot_bool_def)
    with True show ?thesis unfolding p by blast
  next
    case False
    with assms have t: "take_bit 31 x = x" by (simp add: take_bit_int_eq_self)
    have "take_bit 31 x AND push_bit 31 (- 1) = 0" by (rule bit_eqI) (auto simp: bit_simps)
    with t False show ?thesis unfolding p by simp
  qed
qed

lemma f32_bits_dword: "f32_bits b = i32 (dword_from_bytes b)"
  by (simp add: f32_bits_def dword_from_bytes_def)

lemma i32_mod: "i32 (v mod 4294967296) = i32 v"
  using signed_take_bit_take_bit [of 31 32 v] by (simp add: i32_def take_bit_eq_mod)

lemma f32_bits_roundtrip:
  assumes "- (2 ^ 31) \<le> v" "v < 2 ^ 31"
  shows "f32_bits (dword_to_bytes v) = v"
  using assms by (simp add: f32_bits_dword dword_roundtrip_mod i32_mod i32_id)

lemma f32_parts_fields:
  assumes "0 \<le> eb" "eb < 256" "0 \<le> m" "m < 2 ^ 23" and x: "x = f32_of_parts neg eb m"
  shows "- (2 ^ 31) \<le> x" "x < 2 ^ 31" "x < 0 \<longleftrightarrow> neg" "(x div 2 ^ 23) AND 0xFF = eb" "x AND 0x7FFFFF = m"
proof -
  have "eb * 2 ^ 23 + m < 2 ^ 31" using assms by simp
  with assms show "- (2 ^ 31) \<le> x" "x < 2 ^ 31" "x < 0 \<longleftrightarrow> neg" by (auto simp: f32_of_parts_def)
  define h where "h = (if neg then - 256 else 0) + eb"
  have x: "x = 2 ^ 23 * h + m" by (simp add: x f32_of_parts_def h_def)
  have "x div 2 ^ 23 = h" using assms(3,4) by (intro int_div_pos_eq [OF x]) simp_all
  moreover have "h mod 256 = eb"
    using assms(1,2) by (intro int_mod_pos_eq [of _ _ "if neg then - 1 else 0"]) (simp_all add: h_def)
  ultimately show "(x div 2 ^ 23) AND 0xFF = eb" by (simp only: and_0xFF)
  have "x mod 2 ^ 23 = m" using assms(3,4) by (intro int_mod_pos_eq [OF x]) simp_all
  then show "x AND 0x7FFFFF = m" by (simp add: and_mods)
qed

text \<open>The number that a sign, an exponent field and a mantissa stand for.\<close>

definition f32_value :: "bool \<Rightarrow> int \<Rightarrow> int \<Rightarrow> rat" where
  "f32_value neg eb m = (if neg then - 1 else 1) * (1 + rat_of_int m / 8388608) * 2 powi (eb - 127)"

lemma f32_decodes:
  assumes "1 \<le> eb" "eb < 255" "0 \<le> m" "m < 2 ^ 23"
  shows "f32_from_bytes (dword_to_bytes (f32_of_parts neg eb m)) = Finite (f32_value neg eb m)"
proof -
  define x where x: "x = f32_of_parts neg eb m"
  have eb: "0 \<le> eb" "eb < 256" using assms by simp_all
  note p = f32_parts_fields [OF eb assms(3,4) x]
  have "f32_bits (dword_to_bytes x) = x" by (rule f32_bits_roundtrip [OF p(1,2)])
  then show ?thesis
    using assms p(3-5) sign_bit [OF p(1,2)]
    by (simp add: x [symmetric] f32_from_bytes_def f32_value_def pow2_powi Let_def)
qed

lemma f32_to_bytes_nonzero:
  assumes "v \<noteq> 0" "v < 0 \<longleftrightarrow> neg" "\<bar>v\<bar> = av"
  shows "f32_to_bytes v = map_option (\<lambda>ev. dword_to_bytes ((i32 ((if neg then 1 else 0) * 2 ^ 31) OR i32 ((ev + 127) * 2 ^ 23)) OR
    (round_half_up ((av / pow2 ev - 1) * 8388608) AND 0x7FFFFF))) (ilog2_floor av)"
proof -
  have "(if v < 0 then - v else v) = av" using assms(3) by (auto simp: abs_if)
  then show ?thesis
    using assms(1) unfolding f32_to_bytes_def dword_to_bytes_def Let_def assms(2) by simp
qed

lemma f32_encodes:
  assumes "1 \<le> eb" "eb < 255" "1 \<le> mn" "mn < 2"
    and r: "r = round_half_up ((mn - 1) * 8388608)"
  shows "f32_to_bytes ((if neg then - 1 else 1) * mn * 2 powi (eb - 127)) =
    Some (dword_to_bytes (f32_of_parts neg eb (r mod 8388608)))"
proof -
  define v where "v = (if neg then - 1 else 1) * mn * 2 powi (eb - 127)"
  let ?av = "mn * 2 powi (eb - 127)"
  have "0 < ?av" using assms(3) by simp
  then have v: "v \<noteq> 0" "v < 0 \<longleftrightarrow> neg" "\<bar>v\<bar> = ?av" by (auto simp: v_def)
  have il: "ilog2_floor ?av = Some (eb - 127)" by (rule ilog2_floor_powi [OF assms(3,4)])
  have mn: "?av / pow2 (eb - 127) = mn" by (simp add: pow2_powi)
  have sgn: "i32 ((if neg then 1 else 0) * 2 ^ 31) = (if neg then - 1 else 0) * 2 ^ 31"
    by (simp add: i32_def)
  have e: "i32 ((eb - 127 + 127) * 2 ^ 23) = eb * 2 ^ 23" using assms(1,2) by (simp, intro i32_id) simp_all
  have "((if neg then - 1 else 0) * 2 ^ 31) OR (eb * 2 ^ 23) = (if neg then - 1 else 0) * 2 ^ 31 + eb * 2 ^ 23"
    using assms(1,2) by (intro shift_or) simp_all
  also have "\<dots> = ((if neg then - 256 else 0) + eb) * 2 ^ 23" by simp
  finally have "(((if neg then - 1 else 0) * 2 ^ 31) OR (eb * 2 ^ 23)) OR (r AND 0x7FFFFF) =
      ((if neg then - 256 else 0) + eb) * 2 ^ 23 OR (r mod 8388608)" by (simp only: and_mods)
  also have "\<dots> = ((if neg then - 256 else 0) + eb) * 2 ^ 23 + r mod 8388608" by (rule shift_or) simp_all
  also have "\<dots> = f32_of_parts neg eb (r mod 8388608)" by (simp add: f32_of_parts_def)
  finally have bits: "(((if neg then - 1 else 0) * 2 ^ 31) OR (eb * 2 ^ 23)) OR (r AND 0x7FFFFF) =
      f32_of_parts neg eb (r mod 8388608)" .
  show ?thesis
    unfolding v_def [symmetric] f32_to_bytes_nonzero [OF v] il option.map(2) mn sgn e r [symmetric] bits ..
qed

lemma round_half_up_int: "round_half_up (rat_of_int i) = i"
  by (simp add: round_half_up_def floor_unique)

text \<open>Every number that a 32-bit float can hold, apart from the smallest, is encoded and decoded exactly.\<close>

lemma f32_roundtrip:
  assumes "1 \<le> eb" "eb < 255" "0 \<le> m" "m < 2 ^ 23"
  shows "\<exists>bs. f32_to_bytes (f32_value neg eb m) = Some bs \<and> f32_from_bytes bs = Finite (f32_value neg eb m)"
proof -
  define mn where "mn = 1 + rat_of_int m / 8388608"
  have "rat_of_int m < 8388608" using assms(4) by simp
  then have mn: "1 \<le> mn" "mn < 2" using assms(3) by (simp_all add: mn_def)
  have "m = round_half_up ((mn - 1) * 8388608)" by (simp add: mn_def round_half_up_int)
  from f32_encodes [OF assms(1,2) mn this, of neg] assms
  have "f32_to_bytes (f32_value neg eb m) = Some (dword_to_bytes (f32_of_parts neg eb m))"
    by (simp add: f32_value_def mn_def)
  with f32_decodes [OF assms] show ?thesis by blast
qed

text \<open>A mantissa that rounds up to the next power of two loses the carry: half the number is written.\<close>

lemma f32_carry_lost:
  assumes "1 \<le> eb" "eb < 255"
  shows "\<exists>bs. f32_to_bytes ((2 - 1 / 2 ^ 25) * 2 powi (eb - 127)) = Some bs \<and> f32_from_bytes bs = Finite (2 powi (eb - 127))"
proof -
  have "8388608 = round_half_up (((2 - 1 / 2 ^ 25) - 1) * 8388608)"
    unfolding round_half_up_def by (rule floor_unique [symmetric]) simp_all
  from f32_encodes [OF assms _ _ this, of False] f32_decodes [OF assms, of 0 False]
  show ?thesis by (simp add: f32_value_def)
qed

text \<open>The smallest numbers of a 32-bit float, below \<open>2 ^ -126\<close>, are read wrongly.\<close>

lemma f32_denormal_wrong: "f32_from_bytes [0, 0, 0, 1] = Finite ((1 + 1 / 8388608) * 2 powi (- 127))"
proof -
  have "f32_bits [0, 0, 0, 1] = 1" by (simp add: f32_bits_def i32_def)
  then show ?thesis using sign_bit [of 1] by (simp add: f32_from_bytes_def and_mods and_0xFF pow2_powi Let_def)
qed

text \<open>
  The lower half of a 64-bit float is read as a signed number: from \<open>1 + 2 ^ -21\<close>, written
  correctly, comes back \<open>1 - 2 ^ -21\<close>.
\<close>

lemma f64_lower_half_signed:
  "f64_from_bytes [0x3F, 0xF0, 0, 0, 0x80, 0, 0, 0] = Finite (1 - 1 / 2 ^ 21)"
proof -
  have "f32_bits [0x3F, 0xF0, 0, 0, 0x80, 0, 0, 0] = 0x3FF00000" "f32_bits [0x80, 0, 0, 0] = - (2 ^ 31)"
    by (simp_all add: f32_bits_def i32_def)
  then show ?thesis
    using sign_bit [of "0x3FF00000"] by (simp add: f64_from_bytes_def and_mods pow2_powi Let_def)
qed

end
