(* ===== verification/S7_Client.thy ===== *)
theory S7_Client
  imports S7_Field
begin

text \<open>
  The connection and the client: \<open>src/transport/tcp.mbt\<close> and \<open>src/client/client.mbt\<close>. The socket
  of the asynchronous library is a parameter, \<open>tcp_lib\<close>: connecting, writing, \<open>read_exactly\<close> and
  closing in a state of its own. A call ends, raises an error, or is still running when the
  time of \<open>with_timeout_opt\<close> is over; \<open>with_timeout_opt\<close> around several calls is over when one
  of them is.

  The locale \<open>s7_plc\<close> says what a controller does with the requests the client sends: it answers
  a request that the decoder of \<open>S7_Frame\<close> understands and that keeps the agreed length,
  from a memory of bytes. Inside it the chunked transfers are proved to read and write exactly
  that memory; a controller written out below is an instance of it.
\<close>

datatype 'a tcp_answer = Done_with 'a | Raised string | Timed_out

record 'k tcp_lib =
  tcp_connect_to :: "string \<Rightarrow> int \<Rightarrow> 'k \<Rightarrow> int tcp_answer \<times> 'k"
  tcp_write :: "int \<Rightarrow> byte list \<Rightarrow> 'k \<Rightarrow> unit tcp_answer \<times> 'k"
  tcp_read_exactly :: "int \<Rightarrow> int \<Rightarrow> 'k \<Rightarrow> byte list tcp_answer \<times> 'k"
  tcp_close :: "int \<Rightarrow> 'k \<Rightarrow> 'k"

section \<open>The connection\<close>

record tcp_config =
  tc_host :: string
  tc_port :: int
  tc_local_tsap :: "byte list"
  tc_remote_tsap :: "byte list"

definition TcpConfig_new :: tcp_config where
  "TcpConfig_new =
     \<lparr>tc_host = ''192.168.0.1'', tc_port = 102, tc_local_tsap = [0x01, 0x00], tc_remote_tsap = [0x01, 0x01]\<rparr>"

record tcp_connection =
  c_config :: tcp_config
  c_connected :: bool
  c_tcp :: "int option"
  c_pdu_ref :: int
  c_pdu_size :: int
  c_local_tsap :: "byte list"
  c_remote_tsap :: "byte list"

definition TcpConnection_new :: "tcp_config \<Rightarrow> tcp_connection" where
  "TcpConnection_new c =
     \<lparr>c_config = c, c_connected = False, c_tcp = None, c_pdu_ref = 0, c_pdu_size = 480,
      c_local_tsap = tc_local_tsap c, c_remote_tsap = tc_remote_tsap c\<rparr>"

text \<open>The outer \<open>None\<close> is the end of the time.\<close>

definition write_all :: "'k tcp_lib \<Rightarrow> int \<Rightarrow> byte list \<Rightarrow> 'k \<Rightarrow> unit s7_result option \<times> 'k" where
  "write_all T tcp data k =
     (case tcp_write T tcp data k of
        (Done_with _, k) \<Rightarrow> (Some (Inr ()), k)
      | (Raised m, k) \<Rightarrow> (Some (Inl (TransportError (''Write failed: '' @ m))), k)
      | (Timed_out, k) \<Rightarrow> (None, k))"

definition read_tpkt :: "'k tcp_lib \<Rightarrow> int \<Rightarrow> 'k \<Rightarrow> byte list s7_result option \<times> 'k" where
  "read_tpkt T tcp k =
     (case tcp_read_exactly T tcp 4 k of
        (Timed_out, k) \<Rightarrow> (None, k)
      | (Raised _, k) \<Rightarrow> (Some (Inl ConnectionClosed), k)
      | (Done_with hdr, k) \<Rightarrow>
          if hdr ! 0 \<noteq> 0x03 then (Some (Inl (InvalidPDU ''Bad TPKT'')), k)
          else if be16 hdr 2 < 4 then (Some (Inl (InvalidPDU ''Invalid TPKT length'')), k)
          else (case tcp_read_exactly T tcp (be16 hdr 2 - 4) k of
                  (Timed_out, k) \<Rightarrow> (None, k)
                | (Raised _, k) \<Rightarrow> (Some (Inl ConnectionClosed), k)
                | (Done_with body, k) \<Rightarrow> (Some (Inr (take 4 hdr @ body)), k)))"

text \<open>A step of a sequence of fallible calls within one time limit.\<close>

definition then_do ::
  "'a s7_result option \<times> 'k \<Rightarrow> ('a \<Rightarrow> 'k \<Rightarrow> 'b s7_result option \<times> 'k) \<Rightarrow> 'b s7_result option \<times> 'k" where
  "then_do r f =
     (case r of
        (None, k) \<Rightarrow> (None, k)
      | (Some (Inl e), k) \<Rightarrow> (Some (Inl e), k)
      | (Some (Inr x), k) \<Rightarrow> f x k)"

definition negotiate :: "'k tcp_lib \<Rightarrow> byte list \<Rightarrow> byte list \<Rightarrow> int \<Rightarrow> 'k \<Rightarrow> int s7_result option \<times> 'k" where
  "negotiate T local_tsap remote_tsap sock k =
     then_do (write_all T sock (build_cotp_cr local_tsap remote_tsap) k) (\<lambda>_ k.
     then_do (read_tpkt T sock k) (\<lambda>cc k.
     then_do (Some (parse_cotp_cc cc), k) (\<lambda>_ k.
     then_do (write_all T sock (build_setup_pdu 1 1 1) k) (\<lambda>_ k.
     then_do (read_tpkt T sock k) (\<lambda>st k. (Some (parse_setup_resp st), k))))))"

text \<open>A number in an error message.\<close>

fun digits_text :: "nat \<Rightarrow> string" where
  "digits_text n = (if n < 10 then [char_of (48 + n)] else digits_text (n div 10) @ [char_of (48 + n mod 10)])"

declare digits_text.simps [simp del]

definition int_text :: "int \<Rightarrow> string" where
  "int_text i = (if i < 0 then ''-'' @ digits_text (nat (- i)) else digits_text (nat i))"

definition TcpConnection_connect :: "'k tcp_lib \<Rightarrow> tcp_connection \<Rightarrow> 'k \<Rightarrow> tcp_connection s7_result \<times> 'k" where
  "TcpConnection_connect T c k =
     (if c_connected c then (Inl AlreadyConnected, k)
      else
        case tcp_connect_to T (tc_host (c_config c)) (tc_port (c_config c)) k of
          (Raised m, k) \<Rightarrow>
            (Inl (ConnectionFailed
              (''connect to '' @ tc_host (c_config c) @ '':'' @ int_text (tc_port (c_config c)) @ '': '' @ m)), k)
        | (Timed_out, k) \<Rightarrow> (Inl ConnectionTimeout, k)
        | (Done_with sock, k) \<Rightarrow>
            (case negotiate T (c_local_tsap c) (c_remote_tsap c) sock k of
               (None, k) \<Rightarrow> (Inl ConnectionTimeout, tcp_close T sock k)
             | (Some (Inl e), k) \<Rightarrow> (Inl e, tcp_close T sock k)
             | (Some (Inr ps), k) \<Rightarrow>
                 (Inr \<lparr>c_config = c_config c, c_connected = True, c_tcp = Some sock, c_pdu_ref = 2,
                       c_pdu_size = ps, c_local_tsap = c_local_tsap c, c_remote_tsap = c_remote_tsap c\<rparr>, k)))"

definition TcpConnection_disconnect :: "'k tcp_lib \<Rightarrow> tcp_connection \<Rightarrow> 'k \<Rightarrow> 'k" where
  "TcpConnection_disconnect T c k = (case c_tcp c of Some tcp \<Rightarrow> tcp_close T tcp k | None \<Rightarrow> k)"

definition send_raw :: "'k tcp_lib \<Rightarrow> tcp_connection \<Rightarrow> byte list \<Rightarrow> 'k \<Rightarrow> int s7_result \<times> 'k" where
  "send_raw T c data k =
     (if \<not> c_connected c then (Inl NotConnected, k)
      else case c_tcp c of
        None \<Rightarrow> (Inl NotConnected, k)
      | Some tcp \<Rightarrow>
          (case write_all T tcp data k of
             (None, k) \<Rightarrow> (Inl (TimeoutError ''write timeout''), k)
           | (Some (Inr _), k) \<Rightarrow> (Inr (int (length data)), k)
           | (Some (Inl e), k) \<Rightarrow> (Inl e, k)))"

definition receive :: "'k tcp_lib \<Rightarrow> tcp_connection \<Rightarrow> int \<Rightarrow> 'k \<Rightarrow> byte list s7_result \<times> 'k" where
  "receive T c len k =
     (if \<not> c_connected c then (Inl NotConnected, k)
      else case c_tcp c of
        None \<Rightarrow> (Inl NotConnected, k)
      | Some tcp \<Rightarrow>
          (case read_tpkt T tcp k of
             (None, k) \<Rightarrow> (Inl (TimeoutError ''read timeout''), k)
           | (Some r, k) \<Rightarrow> (r, k)))"

definition TcpConnection_send :: "'k tcp_lib \<Rightarrow> tcp_connection \<Rightarrow> byte list \<Rightarrow> 'k \<Rightarrow> byte list s7_result \<times> 'k" where
  "TcpConnection_send T c data k =
     (case send_raw T c data k of (Inl e, k) \<Rightarrow> (Inl e, k) | (Inr _, k) \<Rightarrow> receive T c 0 k)"

section \<open>The client\<close>

record s7_client =
  s_tcp :: tcp_connection
  s_connected :: bool
  s_pdu_ref :: int
  s_pdu_size :: int

definition S7Client_new_with_config :: "tcp_config \<Rightarrow> s7_client" where
  "S7Client_new_with_config c =
     \<lparr>s_tcp = TcpConnection_new c, s_connected = False, s_pdu_ref = 1, s_pdu_size = 480\<rparr>"

definition S7Client_connect :: "'k tcp_lib \<Rightarrow> s7_client \<Rightarrow> 'k \<Rightarrow> s7_client s7_result \<times> 'k" where
  "S7Client_connect T cl k =
     (if s_connected cl then (Inl AlreadyConnected, k)
      else case TcpConnection_connect T (s_tcp cl) k of
        (Inl e, k) \<Rightarrow> (Inl e, k)
      | (Inr tc, k) \<Rightarrow>
          (Inr \<lparr>s_tcp = tc, s_connected = True, s_pdu_ref = i32 (c_pdu_ref tc + 1), s_pdu_size = c_pdu_size tc\<rparr>, k))"

definition S7Client_disconnect :: "'k tcp_lib \<Rightarrow> s7_client \<Rightarrow> 'k \<Rightarrow> 'k" where
  "S7Client_disconnect T cl k = (if s_connected cl then TcpConnection_disconnect T (s_tcp cl) k else k)"

text \<open>The pair of calls of every request: send it, receive a frame.\<close>

definition request :: "'k tcp_lib \<Rightarrow> s7_client \<Rightarrow> byte list \<Rightarrow> 'k \<Rightarrow> byte list s7_result \<times> 'k" where
  "request T cl req k =
     (case send_raw T (s_tcp cl) req k of
        (Inl e, k) \<Rightarrow> (Inl e, k)
      | (Inr _, k) \<Rightarrow> receive T (s_tcp cl) (s_pdu_size cl) k)"

definition read_chunk :: "int \<Rightarrow> int" where
  "read_chunk pdu = (if pdu > 23 then pdu - 23 else 240)"

lemma read_chunk_pos: "0 < read_chunk pdu"
  by (simp add: read_chunk_def)

function chunked_read_loop ::
  "'k tcp_lib \<Rightarrow> s7_client \<Rightarrow> area \<Rightarrow> int \<Rightarrow> int \<Rightarrow> int \<Rightarrow> byte list \<Rightarrow> 'k \<Rightarrow> byte list s7_result \<times> 'k" where
  "chunked_read_loop T cl ar start remaining off result k =
     (if remaining > 0
      then
        let cs = (if remaining > read_chunk (s_pdu_size cl) then read_chunk (s_pdu_size cl) else remaining)
        in case build_read_pdu [ReadItem_new ar (i32 (start + off)) (DT_ByteArray cs)] (s_pdu_ref cl) of
             Inl e \<Rightarrow> (Inl e, k)
           | Inr req \<Rightarrow>
               (case request T cl req k of
                  (Inl e, k) \<Rightarrow> (Inl e, k)
                | (Inr resp, k) \<Rightarrow>
                    (case parse_response resp of
                       Inl e \<Rightarrow> (Inl e, k)
                     | Inr results \<Rightarrow>
                         chunked_read_loop T cl ar start (remaining - cs) (off + cs)
                           (result @ (if length results > 0 then results ! 0 else [])) k))
      else if length result = 0 then (Inl (ItemNotFound ''No data''), k)
      else (Inr result, k))"
  by pat_completeness auto
termination
  by (relation "measure (\<lambda>(T, cl, ar, start, remaining, off, result, k). nat remaining)")
    (auto simp: read_chunk_pos)

declare chunked_read_loop.simps [simp del]

definition chunked_read :: "'k tcp_lib \<Rightarrow> s7_client \<Rightarrow> area \<Rightarrow> int \<Rightarrow> int \<Rightarrow> 'k \<Rightarrow> byte list s7_result \<times> 'k" where
  "chunked_read T cl ar start len k =
     (if \<not> s_connected cl then (Inl NotConnected, k) else chunked_read_loop T cl ar start len 0 [] k)"

definition exec_write :: "'k tcp_lib \<Rightarrow> s7_client \<Rightarrow> write_item list \<Rightarrow> 'k \<Rightarrow> (unit s7_result \<times> 'k) option" where
  "exec_write T cl items k =
     map_option (\<lambda>built.
       case built of
         Inl e \<Rightarrow> (Inl e, k)
       | Inr req \<Rightarrow>
           (case request T cl req k of
              (Inl e, k) \<Rightarrow> (Inl e, k)
            | (Inr resp, k) \<Rightarrow>
                let s7 = find_s7 resp
                in if s7 < 0 \<or> int (length resp) \<le> s7 + 14 then (Inl (InvalidPDU ''Bad write response''), k)
                   else if uint (resp ! nat (s7 + 14)) \<noteq> 0xFF
                   then (Inl (PlcError (uint (resp ! nat (s7 + 14))) ''PLC write item error''), k)
                   else (Inr (), k)))
       (build_write_pdu items (s_pdu_ref cl))"

definition write_chunk :: "int \<Rightarrow> int" where
  "write_chunk pdu = (if pdu > 35 then pdu - 35 else 240)"

lemma write_chunk_pos: "0 < write_chunk pdu"
  by (simp add: write_chunk_def)

text \<open>The data from \<open>off\<close> on is the argument of the loop. An outer \<open>None\<close> is a division by zero.\<close>

function chunked_write_loop ::
  "'k tcp_lib \<Rightarrow> s7_client \<Rightarrow> area \<Rightarrow> int \<Rightarrow> byte list \<Rightarrow> int \<Rightarrow> 'k \<Rightarrow> (unit s7_result \<times> 'k) option" where
  "chunked_write_loop T cl ar start data off k =
     (if 0 < length data
      then
        let max_chunk = write_chunk (s_pdu_size cl);
            cs = (if int (length data) > max_chunk then max_chunk else int (length data));
            chunk = take (nat cs) data
        in case exec_write T cl [WriteItem_new ar (i32 (start + off)) (DT_ByteArray cs) chunk] k of
             None \<Rightarrow> None
           | Some (Inl e, k) \<Rightarrow> Some (Inl e, k)
           | Some (Inr _, k) \<Rightarrow> chunked_write_loop T cl ar start (drop (nat cs) data) (off + cs) k
      else Some (Inr (), k))"
  by pat_completeness auto
termination
  by (relation "measure (\<lambda>(T, cl, ar, start, data, off, k). length data)")
    (auto simp: write_chunk_pos)

declare chunked_write_loop.simps [simp del]

definition chunked_write ::
  "'k tcp_lib \<Rightarrow> s7_client \<Rightarrow> area \<Rightarrow> int \<Rightarrow> byte list \<Rightarrow> 'k \<Rightarrow> (unit s7_result \<times> 'k) option" where
  "chunked_write T cl ar start data k =
     (if \<not> s_connected cl then Some (Inl NotConnected, k) else chunked_write_loop T cl ar start data 0 k)"

section \<open>Operations of the client\<close>

definition ag_read :: "'k tcp_lib \<Rightarrow> s7_client \<Rightarrow> int \<Rightarrow> int \<Rightarrow> int \<Rightarrow> 'k \<Rightarrow> byte list s7_result \<times> 'k" where
  "ag_read T cl db start len k =
     (if \<not> s_connected cl then (Inl NotConnected, k) else chunked_read T cl (DataBlock db) start len k)"

definition ag_write :: "'k tcp_lib \<Rightarrow> s7_client \<Rightarrow> int \<Rightarrow> int \<Rightarrow> byte list \<Rightarrow> 'k \<Rightarrow> (unit s7_result \<times> 'k) option" where
  "ag_write T cl db start data k =
     (if \<not> s_connected cl then Some (Inl NotConnected, k) else chunked_write T cl (DataBlock db) start data k)"

definition ag_read_string :: "'k tcp_lib \<Rightarrow> s7_client \<Rightarrow> int \<Rightarrow> int \<Rightarrow> int \<Rightarrow> 'k \<Rightarrow> int list s7_result \<times> 'k" where
  "ag_read_string T cl db start max_len k =
     (if \<not> s_connected cl then (Inl NotConnected, k)
      else case chunked_read T cl (DataBlock db) start (i32 (max_len + 2)) k of
        (Inl e, k) \<Rightarrow> (Inl e, k)
      | (Inr data, k) \<Rightarrow> (Inr (decode_s7_string data), k))"

definition ag_write_string ::
  "'k tcp_lib \<Rightarrow> s7_client \<Rightarrow> int \<Rightarrow> int \<Rightarrow> int \<Rightarrow> int list \<Rightarrow> 'k \<Rightarrow> (byte list s7_result \<times> 'k) option" where
  "ag_write_string T cl db start max_len v k =
     (if \<not> s_connected cl then Some (Inl NotConnected, k)
      else
        let bs = StringField_to_bytes max_len v
        in map_option (\<lambda>r. case r of (Inl e, k) \<Rightarrow> (Inl e, k) | (Inr _, k) \<Rightarrow> (Inr bs, k))
             (chunked_write T cl (DataBlock db) start bs k))"

text \<open>The answer is indexed without a test of its length: \<open>None\<close> is the abort.\<close>

definition word_of_answer :: "byte list \<Rightarrow> int option" where
  "word_of_answer b = (if length b < 2 then None else Some (be16 b 0))"

definition ag_read_int :: "'k tcp_lib \<Rightarrow> s7_client \<Rightarrow> int \<Rightarrow> int \<Rightarrow> 'k \<Rightarrow> (int s7_result \<times> 'k) option" where
  "ag_read_int T cl db start k =
     (case chunked_read T cl (DataBlock db) start 2 k of
        (Inl e, k) \<Rightarrow> Some (Inl e, k)
      | (Inr b, k) \<Rightarrow>
          map_option (\<lambda>u. (Inr (if u \<ge> 32768 then u - 65536 else u), k)) (word_of_answer b))"

definition ag_write_int :: "'k tcp_lib \<Rightarrow> s7_client \<Rightarrow> int \<Rightarrow> int \<Rightarrow> int \<Rightarrow> 'k \<Rightarrow> (unit s7_result \<times> 'k) option" where
  "ag_write_int T cl db start v k =
     (let v = (if v < 0 then v + 65536 else v)
      in chunked_write T cl (DataBlock db) start [hi8 v, lo8 v] k)"

definition ag_read_word :: "'k tcp_lib \<Rightarrow> s7_client \<Rightarrow> int \<Rightarrow> int \<Rightarrow> 'k \<Rightarrow> (int s7_result \<times> 'k) option" where
  "ag_read_word T cl db start k =
     (case chunked_read T cl (DataBlock db) start 2 k of
        (Inl e, k) \<Rightarrow> Some (Inl e, k)
      | (Inr b, k) \<Rightarrow> map_option (\<lambda>u. (Inr u, k)) (word_of_answer b))"

definition ag_write_word :: "'k tcp_lib \<Rightarrow> s7_client \<Rightarrow> int \<Rightarrow> int \<Rightarrow> int \<Rightarrow> 'k \<Rightarrow> (unit s7_result \<times> 'k) option" where
  "ag_write_word T cl db start v k = chunked_write T cl (DataBlock db) start [hi8 v, lo8 v] k"

definition ag_read_dint :: "'k tcp_lib \<Rightarrow> s7_client \<Rightarrow> int \<Rightarrow> int \<Rightarrow> 'k \<Rightarrow> int s7_result \<times> 'k" where
  "ag_read_dint T cl db start k =
     (case chunked_read T cl (DataBlock db) start 4 k of
        (Inl e, k) \<Rightarrow> (Inl e, k)
      | (Inr b, k) \<Rightarrow> (Inr (DIntField_value b), k))"

definition ag_write_dint :: "'k tcp_lib \<Rightarrow> s7_client \<Rightarrow> int \<Rightarrow> int \<Rightarrow> int \<Rightarrow> 'k \<Rightarrow> (unit s7_result \<times> 'k) option" where
  "ag_write_dint T cl db start v k = chunked_write T cl (DataBlock db) start (dint_to_bytes v) k"

definition ag_read_dword :: "'k tcp_lib \<Rightarrow> s7_client \<Rightarrow> int \<Rightarrow> int \<Rightarrow> 'k \<Rightarrow> int s7_result \<times> 'k" where
  "ag_read_dword T cl db start k =
     (case chunked_read T cl (DataBlock db) start 4 k of
        (Inl e, k) \<Rightarrow> (Inl e, k)
      | (Inr b, k) \<Rightarrow> (Inr (DWordField_value b), k))"

definition ag_write_dword :: "'k tcp_lib \<Rightarrow> s7_client \<Rightarrow> int \<Rightarrow> int \<Rightarrow> int \<Rightarrow> 'k \<Rightarrow> (unit s7_result \<times> 'k) option" where
  "ag_write_dword T cl db start v k = chunked_write T cl (DataBlock db) start (dword_to_bytes v) k"

text \<open>Process inputs (\<open>eb\<close>), outputs (\<open>ab\<close>) and flags (\<open>mb\<close>).\<close>

definition eb_read :: "'k tcp_lib \<Rightarrow> s7_client \<Rightarrow> int \<Rightarrow> int \<Rightarrow> 'k \<Rightarrow> byte list s7_result \<times> 'k" where
  "eb_read T cl start len k = chunked_read T cl ProcessInputs start len k"

definition eb_write :: "'k tcp_lib \<Rightarrow> s7_client \<Rightarrow> int \<Rightarrow> byte list \<Rightarrow> 'k \<Rightarrow> (unit s7_result \<times> 'k) option" where
  "eb_write T cl start data k = chunked_write T cl ProcessInputs start data k"

definition ab_read :: "'k tcp_lib \<Rightarrow> s7_client \<Rightarrow> int \<Rightarrow> int \<Rightarrow> 'k \<Rightarrow> byte list s7_result \<times> 'k" where
  "ab_read T cl start len k = chunked_read T cl ProcessOutputs start len k"

definition ab_write :: "'k tcp_lib \<Rightarrow> s7_client \<Rightarrow> int \<Rightarrow> byte list \<Rightarrow> 'k \<Rightarrow> (unit s7_result \<times> 'k) option" where
  "ab_write T cl start data k = chunked_write T cl ProcessOutputs start data k"

definition mb_read :: "'k tcp_lib \<Rightarrow> s7_client \<Rightarrow> int \<Rightarrow> int \<Rightarrow> 'k \<Rightarrow> byte list s7_result \<times> 'k" where
  "mb_read T cl start len k = chunked_read T cl Flags start len k"

definition mb_write :: "'k tcp_lib \<Rightarrow> s7_client \<Rightarrow> int \<Rightarrow> byte list \<Rightarrow> 'k \<Rightarrow> (unit s7_result \<times> 'k) option" where
  "mb_write T cl start data k = chunked_write T cl Flags start data k"

subsection \<open>Control and state\<close>

definition do_ctrl :: "'k tcp_lib \<Rightarrow> s7_client \<Rightarrow> byte list \<Rightarrow> byte \<Rightarrow> byte \<Rightarrow> 'k \<Rightarrow> unit s7_result \<times> 'k" where
  "do_ctrl T cl pdu start_cmp already_cmp k =
     (if \<not> s_connected cl then (Inl NotConnected, k)
      else case request T cl pdu k of
        (Inl e, k) \<Rightarrow> (Inl e, k)
      | (Inr resp, k) \<Rightarrow> (parse_plc_ctrl_resp resp start_cmp already_cmp, k))"

definition plc_start :: "'k tcp_lib \<Rightarrow> s7_client \<Rightarrow> 'k \<Rightarrow> unit s7_result \<times> 'k" where
  "plc_start T cl k = do_ctrl T cl (build_plc_start_pdu (s_pdu_ref cl)) 0x28 0x02 k"

definition plc_stop :: "'k tcp_lib \<Rightarrow> s7_client \<Rightarrow> 'k \<Rightarrow> unit s7_result \<times> 'k" where
  "plc_stop T cl k = do_ctrl T cl (build_plc_stop_pdu (s_pdu_ref cl)) 0x29 0x07 k"

definition plc_restart :: "'k tcp_lib \<Rightarrow> s7_client \<Rightarrow> 'k \<Rightarrow> unit s7_result \<times> 'k" where
  "plc_restart T cl k = do_ctrl T cl (build_plc_restart_pdu (s_pdu_ref cl)) 0x28 0x02 k"

definition plc_status :: "'k tcp_lib \<Rightarrow> s7_client \<Rightarrow> 'k \<Rightarrow> cpu_status s7_result \<times> 'k" where
  "plc_status T cl k =
     (if \<not> s_connected cl then (Inl NotConnected, k)
      else case request T cl (build_plc_status_pdu (s_pdu_ref cl)) k of
        (Inl e, k) \<Rightarrow> (Inl e, k)
      | (Inr resp, k) \<Rightarrow> (parse_plc_status resp, k))"

definition szl_read :: "'k tcp_lib \<Rightarrow> s7_client \<Rightarrow> int \<Rightarrow> int \<Rightarrow> int \<Rightarrow> 'k \<Rightarrow> cpu_info s7_result \<times> 'k" where
  "szl_read T cl szl_id index least k =
     (if \<not> s_connected cl then (Inl NotConnected, k)
      else case request T cl (build_szl_first_pdu (s_pdu_ref cl) szl_id index) k of
        (Inl e, k) \<Rightarrow> (Inl e, k)
      | (Inr resp, k) \<Rightarrow>
          (case parse_szl_first resp of
             Inl e \<Rightarrow> (Inl e, k)
           | Inr szl \<Rightarrow>
               if int (length (szl_bytes szl)) < least
               then (case request T cl (build_szl_next_pdu (s_pdu_ref cl) (s_pdu_ref cl)) k of
                       (Inl e, k) \<Rightarrow> (Inl e, k)
                     | (Inr resp2, k) \<Rightarrow>
                         (case parse_szl_first resp2 of
                            Inl e \<Rightarrow> (Inl e, k)
                          | Inr szl2 \<Rightarrow> (parse_cpu_info (szl_bytes szl @ szl_bytes szl2), k)))
               else (parse_cpu_info (szl_bytes szl), k)))"

definition szl_read_cp :: "'k tcp_lib \<Rightarrow> s7_client \<Rightarrow> int \<Rightarrow> int \<Rightarrow> 'k \<Rightarrow> cp_info s7_result \<times> 'k" where
  "szl_read_cp T cl szl_id index k =
     (if \<not> s_connected cl then (Inl NotConnected, k)
      else case request T cl (build_szl_first_pdu (s_pdu_ref cl) szl_id index) k of
        (Inl e, k) \<Rightarrow> (Inl e, k)
      | (Inr resp, k) \<Rightarrow>
          (case parse_szl_first resp of
             Inl e \<Rightarrow> (Inl e, k)
           | Inr szl \<Rightarrow> (parse_cp_info (szl_bytes szl), k)))"

definition read_cpu_info :: "'k tcp_lib \<Rightarrow> s7_client \<Rightarrow> 'k \<Rightarrow> cpu_info s7_result \<times> 'k" where
  "read_cpu_info T cl k = szl_read T cl 0x001C 0x000 205 k"

definition read_cp_info :: "'k tcp_lib \<Rightarrow> s7_client \<Rightarrow> 'k \<Rightarrow> cp_info s7_result \<times> 'k" where
  "read_cp_info T cl k = szl_read_cp T cl 0x0131 0x000 k"

section \<open>A controller\<close>

text \<open>A request is sent, and its reply is read in the two pieces of a frame.\<close>

definition exchange :: "'k tcp_lib \<Rightarrow> int \<Rightarrow> byte list \<Rightarrow> byte list \<Rightarrow> 'k \<Rightarrow> 'k \<Rightarrow> bool" where
  "exchange T sock f reply k k' \<longleftrightarrow>
     (\<exists>k1 k2. tcp_write T sock f k = (Done_with (), k1) \<and>
       tcp_read_exactly T sock 4 k1 = (Done_with (take 4 reply), k2) \<and>
       tcp_read_exactly T sock (int (length reply) - 4) k2 = (Done_with (drop 4 reply), k'))"

text \<open>The request for \<open>n\<close> bytes of an area from a byte on, as the decoder reads it.\<close>

definition bytes_item :: "byte \<Rightarrow> int \<Rightarrow> int \<Rightarrow> int \<Rightarrow> s7_item" where
  "bytes_item a db off n = \<lparr>si_word_len = 2, si_count = n, si_db = db, si_area = a, si_address = off * 8\<rparr>"

definition mem_read :: "(byte \<Rightarrow> int \<Rightarrow> int \<Rightarrow> byte) \<Rightarrow> byte \<Rightarrow> int \<Rightarrow> int \<Rightarrow> int \<Rightarrow> byte list" where
  "mem_read m a db off n = map (\<lambda>i. m a db (off + int i)) [0..<nat n]"

definition mem_write ::
  "(byte \<Rightarrow> int \<Rightarrow> int \<Rightarrow> byte) \<Rightarrow> byte \<Rightarrow> int \<Rightarrow> int \<Rightarrow> byte list \<Rightarrow> byte \<Rightarrow> int \<Rightarrow> int \<Rightarrow> byte" where
  "mem_write m a db off bs =
     (\<lambda>a' db' i. if a' = a \<and> db' = db \<and> off \<le> i \<and> i < off + int (length bs) then bs ! nat (i - off)
                 else m a' db' i)"

text \<open>A client that is connected, and its requests.\<close>

definition on_line :: "s7_client \<Rightarrow> int \<Rightarrow> bool" where
  "on_line cl sock \<longleftrightarrow> s_connected cl \<and> c_connected (s_tcp cl) \<and> c_tcp (s_tcp cl) = Some sock"

definition framed :: "byte list \<Rightarrow> bool" where
  "framed r \<longleftrightarrow> 4 \<le> length r \<and> r ! 0 = 0x03 \<and> be16 r 2 = int (length r)"

lemma framed_tpkt:
  assumes "length (concat parts) < 60000"
  shows "framed (tpkt parts)"
proof -
  have "be16 (tpkt parts) 2 = int (length (concat parts)) + 4"
    using assms by (simp add: tpkt_def Let_def be16_sum hi_lo)
  then show ?thesis by (simp add: framed_def tpkt_length) (simp add: tpkt_def Let_def)
qed

lemma request_exchange:
  assumes "on_line cl sock" "exchange T sock f reply k k'" "framed reply"
  shows "request T cl f k = (Inr reply, k')"
proof -
  obtain k1 k2 where x: "tcp_write T sock f k = (Done_with (), k1)"
    "tcp_read_exactly T sock 4 k1 = (Done_with (take 4 reply), k2)"
    "tcp_read_exactly T sock (int (length reply) - 4) k2 = (Done_with (drop 4 reply), k')"
    using assms(2) by (auto simp: exchange_def)
  have h: "take 4 reply ! 0 = 0x03" "be16 (take 4 reply) 2 = int (length reply)" "\<not> int (length reply) < 4"
    using assms(3) by (simp_all add: framed_def be16_def)
  show ?thesis
    using assms(1) x h
    by (simp add: request_def send_raw_def receive_def on_line_def write_all_def read_tpkt_def)
qed

lemma length_mem_read [simp]: "length (mem_read m a db off n) = nat n"
  by (simp add: mem_read_def)

lemma mem_read_split:
  assumes "0 \<le> x" "0 \<le> y"
  shows "mem_read m a db off (x + y) = mem_read m a db off x @ mem_read m a db (off + x) y"
proof (rule nth_equalityI)
  show "length (mem_read m a db off (x + y)) = length (mem_read m a db off x @ mem_read m a db (off + x) y)"
    using assms by (simp add: nat_add_distrib)
next
  fix i
  assume "i < length (mem_read m a db off (x + y))"
  then have i: "i < nat (x + y)" by simp
  show "mem_read m a db off (x + y) ! i = (mem_read m a db off x @ mem_read m a db (off + x) y) ! i"
  proof (cases "i < nat x")
    case False
    then have "i - nat x < nat y" "off + x + int (i - nat x) = off + int i" using i assms by linarith+
    with False i show ?thesis by (simp add: mem_read_def nth_append)
  qed (use i in \<open>simp add: mem_read_def nth_append\<close>)
qed

lemma mem_write_split:
  "mem_write (mem_write m a db off xs) a db (off + int (length xs)) ys = mem_write m a db off (xs @ ys)"
proof (intro ext)
  fix a' db' i
  have "nat (i - (off + int (length xs))) = nat (i - off) - length xs" by linarith
  then show "mem_write (mem_write m a db off xs) a db (off + int (length xs)) ys a' db' i =
      mem_write m a db off (xs @ ys) a' db' i"
    by (auto simp: mem_write_def nth_append)
qed

lemma mem_read_write: "mem_read (mem_write m a db off bs) a db off (int (length bs)) = bs"
  by (rule nth_equalityI) (simp_all add: mem_read_def mem_write_def)

lemma said_bytes_item:
  "said_item WL_BYTE n ar off 0 = bytes_item (acode ar) (adb ar) off n"
  by (simp add: said_item_def bytes_item_def WL_BYTE_def)

text \<open>The frames of one chunk.\<close>

lemma read_chunk_frame:
  assumes "0 \<le> n" "n < 65536" "0 \<le> adb ar" "adb ar < 65536" "0 \<le> off" "off < 2 ^ 21"
  obtains f where "build_read_pdu [ReadItem_new ar off (DT_ByteArray n)] refn = Inr f" "length f = 31"
    "decode_request f = Some \<lparr>rq_function = 0x04, rq_reference = refn mod 65536,
       rq_items = [bytes_item (acode ar) (adb ar) off n], rq_data = []\<rparr>"
proof -
  let ?it = "ReadItem_new ar off (DT_ByteArray n)"
  have "\<forall>it \<in> set [?it]. encodable (ri_word_len it) (ri_count it) (ri_area it) (ri_byte_offset it) (ri_bit_offset it)"
    using assms by (simp add: ReadItem_new_def encodable_def WL_BYTE_def)
  from read_request_decodes [OF this, of refn] that show thesis
    by (auto simp: ReadItem_new_def said_bytes_item)
qed

lemma write_chunk_frame:
  assumes "bs \<noteq> []" "length bs < 930" "0 \<le> adb ar" "adb ar < 65536" "0 \<le> off" "off < 2 ^ 21"
  obtains f where "build_write_pdu [WriteItem_new ar off (DT_ByteArray n) bs] refn = Some (Inr f)"
    "length f = 35 + length bs"
    "decode_request f = Some \<lparr>rq_function = 0x05, rq_reference = refn mod 65536,
       rq_items = [bytes_item (acode ar) (adb ar) off (int (length bs))],
       rq_data = [0x00, 0x04, hi8 (int (length bs) * 8), lo8 (int (length bs) * 8)] @ bs\<rparr>"
proof -
  let ?it = "WriteItem_new ar off (DT_ByteArray n) bs"
  have c: "write_count ?it = Some (int (length bs))"
    using assms(1) by (cases bs) (simp_all add: write_count_def WriteItem_new_def data_size_byte_def word_lens)
  then have w: "\<forall>it \<in> set [?it]. write_fits it"
    using assms by (simp add: write_fits_def WriteItem_new_def encodable_def WL_BYTE_def)
  have d: "write_data ?it = [0x00, 0x04, hi8 (int (length bs) * 8), lo8 (int (length bs) * 8)] @ bs"
    using assms(2) i32_nonneg [of "int (length bs) * 8"]
    by (simp add: write_data_def WriteItem_new_def word_lens tb_def Let_def)
  have s: "said_write ?it = bytes_item (acode ar) (adb ar) off (int (length bs))"
    using c by (simp add: said_write_def WriteItem_new_def said_bytes_item)
  from write_request_decodes [OF w, of refn] assms(2) that show thesis by (auto simp: d s)
qed

lemma framed_read_reply: "length bs < 10000 \<Longrightarrow> framed (read_reply refn bs)"
  unfolding read_reply_def by (rule framed_tpkt) (simp add: cotp_dt_def ack_header_Cons)

lemma framed_write_reply: "framed (write_reply refn code)"
  unfolding write_reply_def by (rule framed_tpkt) (simp add: cotp_dt_def ack_header_Cons)

lemma write_reply_code:
  "find_s7 (write_reply refn code) = 7" "length (write_reply refn code) = 22" "write_reply refn code ! 21 = code"
proof -
  show "find_s7 (write_reply refn code) = 7"
    unfolding write_reply_def ack_header_Cons by (rule find_s7_ack) simp
  show "length (write_reply refn code) = 22" "write_reply refn code ! 21 = code"
    by (simp_all add: write_reply_def tpkt_def Let_def cotp_dt_def ack_header_Cons hi8_def lo8_def)
qed

locale s7_plc =
  fixes T :: "'k tcp_lib"
    and sock :: int
    and mem :: "'k \<Rightarrow> byte \<Rightarrow> int \<Rightarrow> int \<Rightarrow> byte"
    and idle :: "'k \<Rightarrow> bool"
    and limit :: int
  assumes reads: "\<lbrakk>idle k; decode_request f = Some \<lparr>rq_function = 0x04, rq_reference = r,
        rq_items = [bytes_item a db off n], rq_data = []\<rparr>; int (length f) - 7 \<le> limit; 18 + n \<le> limit\<rbrakk> \<Longrightarrow>
      \<exists>k'. exchange T sock f (read_reply r (mem_read (mem k) a db off n)) k k' \<and> idle k' \<and> mem k' = mem k"
    and writes: "\<lbrakk>idle k; decode_request f = Some \<lparr>rq_function = 0x05, rq_reference = r,
        rq_items = [bytes_item a db off (int (length bs))],
        rq_data = [0x00, 0x04, hi8 (int (length bs) * 8), lo8 (int (length bs) * 8)] @ bs\<rparr>;
        int (length f) - 7 \<le> limit\<rbrakk> \<Longrightarrow>
      \<exists>k'. exchange T sock f (write_reply r 0xFF) k k' \<and> idle k' \<and> mem k' = mem_write (mem k) a db off bs"
begin

text \<open>A chunked read gives the bytes of the memory, and leaves it as it was.\<close>

lemma read_loop:
  assumes "on_line cl sock" "idle k" "24 \<le> s_pdu_size cl" "s_pdu_size cl \<le> limit" "s_pdu_size cl < 10000"
    and "0 \<le> adb ar" "adb ar < 65536" "0 \<le> start" "0 \<le> off" "0 \<le> remaining" "start + off + remaining \<le> 2 ^ 21"
    and "result \<noteq> [] \<or> 0 < remaining"
  shows "\<exists>k'. chunked_read_loop T cl ar start remaining off result k =
      (Inr (result @ mem_read (mem k) (acode ar) (adb ar) (start + off) remaining), k') \<and> idle k' \<and> mem k' = mem k"
  using assms(2,9-)
proof (induction "nat remaining" arbitrary: remaining off result k rule: less_induct)
  case less
  show ?case
  proof (cases "remaining > 0")
    case False
    with less.prems have "remaining = 0" "result \<noteq> []" by auto
    with less.prems show ?thesis by (simp add: chunked_read_loop.simps mem_read_def)
  next
    case True
    let ?max = "read_chunk (s_pdu_size cl)"
    define cs where "cs = (if remaining > ?max then ?max else remaining)"
    have cs: "0 < cs" "cs \<le> remaining" "cs \<le> s_pdu_size cl - 23"
      using True assms(3) by (auto simp: cs_def read_chunk_def)
    let ?bs = "mem_read (mem k) (acode ar) (adb ar) (start + off) cs"
    have off: "i32 (start + off) = start + off" "0 \<le> start + off" "start + off < 2 ^ 21"
      using less.prems True assms(8) by (auto intro!: i32_nonneg)
    have n: "0 \<le> cs" "cs < 65536" using cs assms(5) by auto
    obtain f where f: "build_read_pdu [ReadItem_new ar (start + off) (DT_ByteArray cs)] (s_pdu_ref cl) = Inr f"
      "length f = 31" "decode_request f = Some \<lparr>rq_function = 0x04, rq_reference = s_pdu_ref cl mod 65536,
         rq_items = [bytes_item (acode ar) (adb ar) (start + off) cs], rq_data = []\<rparr>"
      by (rule read_chunk_frame [OF n assms(6,7) off(2,3)])
    have "int (length f) - 7 \<le> limit" "18 + cs \<le> limit" using f(2) cs assms(3,4) by auto
    from reads [OF less.prems(1) f(3) this] obtain k1 where
      k1: "exchange T sock f (read_reply (s_pdu_ref cl mod 65536) ?bs) k k1" "idle k1" "mem k1 = mem k" by blast
    have len: "length ?bs < 10000" using cs assms(5) by simp
    have rq: "request T cl f k = (Inr (read_reply (s_pdu_ref cl mod 65536) ?bs), k1)"
      by (rule request_exchange [OF assms(1) k1(1) framed_read_reply [OF len]])
    have step: "chunked_read_loop T cl ar start remaining off result k =
        chunked_read_loop T cl ar start (remaining - cs) (off + cs) (result @ ?bs) k1"
      using True f(1) rq parse_read_reply [OF len]
      by (subst chunked_read_loop.simps) (simp add: off cs_def [symmetric] Let_def)
    have "result @ ?bs \<noteq> []" using cs by (metis append_is_Nil_conv length_mem_read list.size(3) nat_0_iff not_le)
    then obtain k' where "chunked_read_loop T cl ar start (remaining - cs) (off + cs) (result @ ?bs) k1 =
        (Inr ((result @ ?bs) @ mem_read (mem k1) (acode ar) (adb ar) (start + (off + cs)) (remaining - cs)), k')"
      "idle k'" "mem k' = mem k1"
      using less.hyps [of "remaining - cs" k1 "off + cs" "result @ ?bs"] k1(2) less.prems cs by auto
    with step k1(3) mem_read_split [of cs "remaining - cs" "mem k" "acode ar" "adb ar" "start + off"] cs
    show ?thesis by (auto simp: add.assoc)
  qed
qed

text \<open>A chunked write stores its bytes, and changes no other.\<close>

lemma write_loop:
  assumes "on_line cl sock" "idle k" "36 \<le> s_pdu_size cl" "s_pdu_size cl \<le> limit" "s_pdu_size cl \<le> 960"
    and "0 \<le> adb ar" "adb ar < 65536" "0 \<le> start" "0 \<le> off" "start + off + int (length data) \<le> 2 ^ 21"
  shows "\<exists>k'. chunked_write_loop T cl ar start data off k = Some (Inr (), k') \<and> idle k' \<and>
      mem k' = mem_write (mem k) (acode ar) (adb ar) (start + off) data"
  using assms(2,9-)
proof (induction "length data" arbitrary: data off k rule: less_induct)
  case less
  show ?case
  proof (cases "data = []")
    case True
    with less.prems show ?thesis by (auto simp: chunked_write_loop.simps mem_write_def fun_eq_iff)
  next
    case False
    let ?max = "write_chunk (s_pdu_size cl)"
    define cs where "cs = (if int (length data) > ?max then ?max else int (length data))"
    have cs: "0 < cs" "cs \<le> int (length data)" "cs \<le> s_pdu_size cl - 35"
      using False assms(3) by (auto simp: cs_def write_chunk_def)
    let ?bs = "take (nat cs) data"
    have off: "i32 (start + off) = start + off" "0 \<le> start + off" "start + off < 2 ^ 21"
      using less.prems cs assms(8) by (auto intro!: i32_nonneg)
    have bs: "?bs \<noteq> []" "length ?bs < 930" "int (length ?bs) = cs" using cs assms(5) False by auto
    obtain f where f: "build_write_pdu [WriteItem_new ar (start + off) (DT_ByteArray cs) ?bs] (s_pdu_ref cl) = Some (Inr f)"
      "length f = 35 + length ?bs"
      "decode_request f = Some \<lparr>rq_function = 0x05, rq_reference = s_pdu_ref cl mod 65536,
         rq_items = [bytes_item (acode ar) (adb ar) (start + off) (int (length ?bs))],
         rq_data = [0x00, 0x04, hi8 (int (length ?bs) * 8), lo8 (int (length ?bs) * 8)] @ ?bs\<rparr>"
      by (rule write_chunk_frame [OF bs(1,2) assms(6,7) off(2,3)])
    have "int (length f) - 7 \<le> limit" using f(2) bs(3) cs assms(4) by linarith
    from writes [OF less.prems(1) f(3) this] obtain k1 where
      k1: "exchange T sock f (write_reply (s_pdu_ref cl mod 65536) 0xFF) k k1" "idle k1"
        "mem k1 = mem_write (mem k) (acode ar) (adb ar) (start + off) ?bs" by blast
    have "request T cl f k = (Inr (write_reply (s_pdu_ref cl mod 65536) 0xFF), k1)"
      by (rule request_exchange [OF assms(1) k1(1) framed_write_reply])
    then have ex: "exec_write T cl [WriteItem_new ar (start + off) (DT_ByteArray cs) ?bs] k = Some (Inr (), k1)"
      using f(1) by (simp add: exec_write_def write_reply_code Let_def)
    have step: "chunked_write_loop T cl ar start data off k =
        chunked_write_loop T cl ar start (drop (nat cs) data) (off + cs) k1"
      using False ex by (subst chunked_write_loop.simps) (simp add: off cs_def [symmetric] Let_def)
    have "length (drop (nat cs) data) < length data" using cs by auto
    then obtain k' where "chunked_write_loop T cl ar start (drop (nat cs) data) (off + cs) k1 = Some (Inr (), k')" "idle k'"
      "mem k' = mem_write (mem k1) (acode ar) (adb ar) (start + (off + cs)) (drop (nat cs) data)"
      using less.hyps [of "drop (nat cs) data" k1 "off + cs"] k1(2) less.prems cs by auto
    with step k1(3) mem_write_split [of "mem k" "acode ar" "adb ar" "start + off" ?bs "drop (nat cs) data"] bs(3)
    show ?thesis by (auto simp: add.assoc)
  qed
qed

lemma chunked_read_memory:
  assumes "on_line cl sock" "idle k" "24 \<le> s_pdu_size cl" "s_pdu_size cl \<le> limit" "s_pdu_size cl < 10000"
    and "0 \<le> adb ar" "adb ar < 65536" "0 \<le> start" "0 < len" "start + len \<le> 2 ^ 21"
  shows "\<exists>k'. chunked_read T cl ar start len k = (Inr (mem_read (mem k) (acode ar) (adb ar) start len), k') \<and>
      idle k' \<and> mem k' = mem k"
  using read_loop [OF assms(1-8), of 0 len "[]"] assms(1,9,10) by (simp add: chunked_read_def on_line_def)

lemma chunked_write_memory:
  assumes "on_line cl sock" "idle k" "36 \<le> s_pdu_size cl" "s_pdu_size cl \<le> limit" "s_pdu_size cl \<le> 960"
    and "0 \<le> adb ar" "adb ar < 65536" "0 \<le> start" "start + int (length data) \<le> 2 ^ 21"
  shows "\<exists>k'. chunked_write T cl ar start data k = Some (Inr (), k') \<and> idle k' \<and>
      mem k' = mem_write (mem k) (acode ar) (adb ar) start data"
  using write_loop [OF assms(1-8), of 0 data] assms(1,9) by (simp add: chunked_write_def on_line_def)

lemma write_then_read:
  assumes "on_line cl sock" "idle k" "36 \<le> s_pdu_size cl" "s_pdu_size cl \<le> limit" "s_pdu_size cl \<le> 960"
    and "0 \<le> db" "db < 65536" "0 \<le> start" "start + int (length data) \<le> 2 ^ 21" "0 < length data"
  shows "\<exists>k1 k2. chunked_write T cl (DataBlock db) start data k = Some (Inr (), k1) \<and>
      chunked_read T cl (DataBlock db) start (int (length data)) k1 = (Inr data, k2) \<and>
      idle k2 \<and> mem k2 = mem_write (mem k) 0x84 db start data"
proof -
  obtain k1 where k1: "chunked_write T cl (DataBlock db) start data k = Some (Inr (), k1)" "idle k1"
    "mem k1 = mem_write (mem k) 0x84 db start data"
    using chunked_write_memory [of cl k "DataBlock db" start data] assms by (auto simp: tb_def)
  then obtain k2 where "chunked_read T cl (DataBlock db) start (int (length data)) k1 = (Inr data, k2)" "idle k2"
    "mem k2 = mem k1"
    using chunked_read_memory [of cl k1 "DataBlock db" start "int (length data)"] assms
    by (auto simp: tb_def mem_read_write)
  with k1 show ?thesis by auto
qed

text \<open>A typed value written is the value read.\<close>

lemma word_write_read:
  assumes "on_line cl sock" "idle k" "36 \<le> s_pdu_size cl" "s_pdu_size cl \<le> limit" "s_pdu_size cl \<le> 960"
    and "0 \<le> db" "db < 65536" "0 \<le> start" "start + 2 \<le> 2 ^ 21" "0 \<le> v" "v < 65536"
  shows "\<exists>k1 k2. ag_write_word T cl db start v k = Some (Inr (), k1) \<and>
      ag_read_word T cl db start k1 = Some (Inr v, k2) \<and> idle k2"
proof -
  obtain k1 k2 where "chunked_write T cl (DataBlock db) start [hi8 v, lo8 v] k = Some (Inr (), k1)"
    "chunked_read T cl (DataBlock db) start 2 k1 = (Inr [hi8 v, lo8 v], k2)" "idle k2"
    using write_then_read [OF assms(1-8), of "[hi8 v, lo8 v]"] assms(9) by auto
  then show ?thesis
    using word_roundtrip [OF assms(10,11)]
    by (auto simp: ag_write_word_def ag_read_word_def word_of_answer_def)
qed

lemma int_write_read:
  assumes "on_line cl sock" "idle k" "36 \<le> s_pdu_size cl" "s_pdu_size cl \<le> limit" "s_pdu_size cl \<le> 960"
    and "0 \<le> db" "db < 65536" "0 \<le> start" "start + 2 \<le> 2 ^ 21" "- 32768 \<le> v" "v < 32768"
  shows "\<exists>k1 k2. ag_write_int T cl db start v k = Some (Inr (), k1) \<and>
      ag_read_int T cl db start k1 = Some (Inr v, k2) \<and> idle k2"
proof -
  define u where "u = (if v < 0 then v + 65536 else v)"
  have u: "0 \<le> u" "u < 65536" "(if u \<ge> 32768 then u - 65536 else u) = v" using assms(10,11) by (auto simp: u_def)
  obtain k1 k2 where "chunked_write T cl (DataBlock db) start [hi8 u, lo8 u] k = Some (Inr (), k1)"
    "chunked_read T cl (DataBlock db) start 2 k1 = (Inr [hi8 u, lo8 u], k2)" "idle k2"
    using write_then_read [OF assms(1-8), of "[hi8 u, lo8 u]"] assms(9) by auto
  then show ?thesis
    using word_roundtrip [OF u(1,2)] u(3)
    by (simp add: ag_write_int_def ag_read_int_def word_of_answer_def u_def [symmetric] Let_def)
qed

lemma dword_write_read:
  assumes "on_line cl sock" "idle k" "36 \<le> s_pdu_size cl" "s_pdu_size cl \<le> limit" "s_pdu_size cl \<le> 960"
    and "0 \<le> db" "db < 65536" "0 \<le> start" "start + 4 \<le> 2 ^ 21" "0 \<le> v" "v < 2 ^ 32"
  shows "\<exists>k1 k2. ag_write_dword T cl db start v k = Some (Inr (), k1) \<and>
      ag_read_dword T cl db start k1 = (Inr v, k2) \<and> idle k2"
proof -
  have "length (dword_to_bytes v) = 4" by (simp add: dword_to_bytes_def)
  then obtain k1 k2 where "chunked_write T cl (DataBlock db) start (dword_to_bytes v) k = Some (Inr (), k1)"
    "chunked_read T cl (DataBlock db) start 4 k1 = (Inr (dword_to_bytes v), k2)" "idle k2"
    using write_then_read [OF assms(1-8), of "dword_to_bytes v"] assms(9) by auto
  then show ?thesis
    using dword_roundtrip [OF assms(10,11)] \<open>length (dword_to_bytes v) = 4\<close>
    by (auto simp: ag_write_dword_def ag_read_dword_def DWordField_value_def)
qed

lemma dint_write_read:
  assumes "on_line cl sock" "idle k" "36 \<le> s_pdu_size cl" "s_pdu_size cl \<le> limit" "s_pdu_size cl \<le> 960"
    and "0 \<le> db" "db < 65536" "0 \<le> start" "start + 4 \<le> 2 ^ 21" "- (2 ^ 31) \<le> v" "v < 2 ^ 31"
  shows "\<exists>k1 k2. ag_write_dint T cl db start v k = Some (Inr (), k1) \<and>
      ag_read_dint T cl db start k1 = (Inr v, k2) \<and> idle k2"
proof -
  have l: "length (dint_to_bytes v) = 4" by (simp add: dint_to_bytes_def dword_to_bytes_def)
  then obtain k1 k2 where "chunked_write T cl (DataBlock db) start (dint_to_bytes v) k = Some (Inr (), k1)"
    "chunked_read T cl (DataBlock db) start 4 k1 = (Inr (dint_to_bytes v), k2)" "idle k2"
    using write_then_read [OF assms(1-8), of "dint_to_bytes v"] assms(9) by auto
  then show ?thesis
    using dint_roundtrip [OF assms(10,11)] l
    by (auto simp: ag_write_dint_def ag_read_dint_def DIntField_value_def)
qed

lemma string_write_read:
  assumes "on_line cl sock" "idle k" "36 \<le> s_pdu_size cl" "s_pdu_size cl \<le> limit" "s_pdu_size cl \<le> 960"
    and "0 \<le> db" "db < 65536" "0 \<le> start" "start + 258 \<le> 2 ^ 21"
    and "\<forall>c \<in> set s. code_point c" "int (length (utf8 s)) \<le> max_len" "max_len < 256"
  shows "\<exists>k1 k2. ag_write_string T cl db start max_len s k = Some (Inr (StringField_to_bytes max_len s), k1) \<and>
      ag_read_string T cl db start max_len k1 = (Inr s, k2) \<and> idle k2"
proof -
  have m: "0 \<le> max_len" "i32 (max_len + 2) = max_len + 2" using assms(11,12) by (auto intro!: i32_nonneg)
  have l: "int (length (StringField_to_bytes max_len s)) = max_len + 2" using m(1) by (simp add: StringField_length)
  with m(1) have "0 < length (StringField_to_bytes max_len s)" by linarith
  then obtain k1 k2 where "chunked_write T cl (DataBlock db) start (StringField_to_bytes max_len s) k = Some (Inr (), k1)"
    "chunked_read T cl (DataBlock db) start (max_len + 2) k1 = (Inr (StringField_to_bytes max_len s), k2)" "idle k2"
    using write_then_read [OF assms(1-8), of "StringField_to_bytes max_len s"] assms(9,12) m(1) l by auto
  then show ?thesis
    using decode_s7_string_padded [OF assms(10-12)] assms(1) m(2)
    by (auto simp: ag_write_string_def ag_read_string_def on_line_def Let_def)
qed

end

section \<open>A controller written out\<close>

record plc =
  p_mem :: "byte \<Rightarrow> int \<Rightarrow> int \<Rightarrow> byte"
  p_out :: "byte list"

definition plc_reply :: "byte list \<Rightarrow> plc \<Rightarrow> plc" where
  "plc_reply bs p = p\<lparr>p_out := p_out p @ bs\<rparr>"

definition plc_serve :: "byte list \<Rightarrow> plc \<Rightarrow> plc" where
  "plc_serve f p =
     (case decode_request f of
        Some rq \<Rightarrow>
          (case rq_items rq of
             [it] \<Rightarrow>
               if si_word_len it = 2 \<and> si_address it mod 8 = 0
               then if rq_function rq = 0x04
                    then plc_reply (read_reply (rq_reference rq)
                      (mem_read (p_mem p) (si_area it) (si_db it) (si_address it div 8) (si_count it))) p
                    else plc_reply (write_reply (rq_reference rq) 0xFF)
                      (p\<lparr>p_mem := mem_write (p_mem p) (si_area it) (si_db it) (si_address it div 8) (drop 4 (rq_data rq))\<rparr>)
               else p
           | _ \<Rightarrow> p)
      | None \<Rightarrow>
          if length f = 22 then plc_reply [0x03, 0x00, 0x00, 0x0B, 0x11, 0xD0, 0x00, 0x02, 0x00, 0x01, 0x00] p
          else plc_reply (setup_reply 0 480) p)"

definition plc_tcp :: "plc tcp_lib" where
  "plc_tcp =
     \<lparr>tcp_connect_to = \<lambda>host port p. (Done_with 1, p),
      tcp_write = \<lambda>s f p. (Done_with (), plc_serve f p),
      tcp_read_exactly = \<lambda>s n p.
        if int (length (p_out p)) < n then (Timed_out, p)
        else (Done_with (take (nat n) (p_out p)), p\<lparr>p_out := drop (nat n) (p_out p)\<rparr>),
      tcp_close = \<lambda>s p. p\<rparr>"

lemma plc_exchange:
  assumes "plc_serve f p = plc_reply reply p'" "p_out p' = []" "4 \<le> length reply"
  shows "exchange plc_tcp s f reply p p'"
  using assms by (simp add: exchange_def plc_tcp_def plc_reply_def)

interpretation plc: s7_plc plc_tcp 1 "p_mem :: plc \<Rightarrow> _" "\<lambda>p :: plc. p_out p = []" 960
proof
  fix p :: plc and f r a db off n
  assume p: "p_out p = []" and f: "decode_request f = Some \<lparr>rq_function = 0x04, rq_reference = r,
      rq_items = [bytes_item a db off n], rq_data = []\<rparr>"
  have "plc_serve f p = plc_reply (read_reply r (mem_read (p_mem p) a db off n)) p"
    by (simp add: plc_serve_def f bytes_item_def)
  then have "exchange plc_tcp 1 f (read_reply r (mem_read (p_mem p) a db off n)) p p"
    using p by (intro plc_exchange) (simp_all add: read_reply_def tpkt_length)
  with p show "\<exists>p'. exchange plc_tcp 1 f (read_reply r (mem_read (p_mem p) a db off n)) p p' \<and>
      p_out p' = [] \<and> p_mem p' = p_mem p" by blast
next
  fix p :: plc and f r a db off and bs :: "byte list"
  assume p: "p_out p = []" and f: "decode_request f = Some \<lparr>rq_function = 0x05, rq_reference = r,
      rq_items = [bytes_item a db off (int (length bs))],
      rq_data = [0x00, 0x04, hi8 (int (length bs) * 8), lo8 (int (length bs) * 8)] @ bs\<rparr>"
  let ?p = "p\<lparr>p_mem := mem_write (p_mem p) a db off bs\<rparr>"
  have "plc_serve f p = plc_reply (write_reply r 0xFF) ?p"
    by (simp add: plc_serve_def f bytes_item_def)
  then have "exchange plc_tcp 1 f (write_reply r 0xFF) p ?p"
    using p by (intro plc_exchange) (simp_all add: write_reply_code)
  with p show "\<exists>p'. exchange plc_tcp 1 f (write_reply r 0xFF) p p' \<and> p_out p' = [] \<and>
      p_mem p' = mem_write (p_mem p) a db off bs" by (intro exI [of _ ?p]) simp
qed

section \<open>What the client gets\<close>


definition demo_client :: s7_client where
  "demo_client =
     \<lparr>s_tcp = (TcpConnection_new TcpConfig_new)\<lparr>c_connected := True, c_tcp := Some 1, c_pdu_ref := 2\<rparr>,
      s_connected = True, s_pdu_ref = 3, s_pdu_size = 480\<rparr>"

definition demo_plc :: plc where
  "demo_plc = \<lparr>p_mem = \<lambda>a db i. word_of_int (i + db), p_out = []\<rparr>"

lemma demo_on_line: "on_line demo_client 1"
  by (simp add: on_line_def demo_client_def)


text \<open>
  Claim C9 (roundtrip). Over such a controller a typed value that the client writes is the
  value it reads back: a signed and an unsigned 16-bit number, a signed and an unsigned 32-bit
  number, each over its whole range, and a text whose UTF-8 form fits the length of its
  field. The five values are written at any byte of any data block.
\<close>

theorem s7_values_roundtrip:
  assumes "s7_plc T sock mem idle limit" "on_line cl sock" "idle k"
    and "36 \<le> s_pdu_size cl" "s_pdu_size cl \<le> limit" "s_pdu_size cl \<le> 960"
    and "0 \<le> db" "db < 65536" "0 \<le> start" "start + 258 \<le> 2 ^ 21"
    and "- 32768 \<le> i" "i < 32768" "0 \<le> w" "w < 65536"
    and "- (2 ^ 31) \<le> d" "d < 2 ^ 31" "0 \<le> u" "u < 2 ^ 32"
    and "\<forall>c \<in> set s. code_point c" "int (length (utf8 s)) \<le> max_len" "max_len < 256"
  shows "(\<exists>k1 k2. ag_write_int T cl db start i k = Some (Inr (), k1) \<and>
      ag_read_int T cl db start k1 = Some (Inr i, k2) \<and> idle k2) \<and>
    (\<exists>k1 k2. ag_write_word T cl db start w k = Some (Inr (), k1) \<and>
      ag_read_word T cl db start k1 = Some (Inr w, k2) \<and> idle k2) \<and>
    (\<exists>k1 k2. ag_write_dint T cl db start d k = Some (Inr (), k1) \<and>
      ag_read_dint T cl db start k1 = (Inr d, k2) \<and> idle k2) \<and>
    (\<exists>k1 k2. ag_write_dword T cl db start u k = Some (Inr (), k1) \<and>
      ag_read_dword T cl db start k1 = (Inr u, k2) \<and> idle k2) \<and>
    (\<exists>k1 k2. ag_write_string T cl db start max_len s k = Some (Inr (StringField_to_bytes max_len s), k1) \<and>
      ag_read_string T cl db start max_len k1 = (Inr s, k2) \<and> idle k2)"
  using s7_plc.int_write_read [OF assms(1-9), of i] s7_plc.word_write_read [OF assms(1-9), of w]
    s7_plc.dint_write_read [OF assms(1-9), of d] s7_plc.dword_write_read [OF assms(1-9), of u]
    s7_plc.string_write_read [OF assms(1-9), of s max_len] assms(10-)
  by simp

theorem s7_values_roundtrip_witness:
  "(\<exists>p p'. ag_write_int plc_tcp demo_client 7 10 (- 5) demo_plc = Some (Inr (), p) \<and>
     ag_read_int plc_tcp demo_client 7 10 p = Some (Inr (- 5), p')) \<and>
   (\<exists>p p'. ag_write_string plc_tcp demo_client 7 10 4 [0x48, 0xE9] demo_plc =
       Some (Inr [4, 3, 0x48, 0xC3, 0xA9, 0], p) \<and>
     ag_read_string plc_tcp demo_client 7 10 4 p = (Inr [0x48, 0xE9], p'))"
proof -
  have a: "p_out demo_plc = []" "s_pdu_size demo_client = 480" by (simp_all add: demo_plc_def demo_client_def)
  have u: "utf8 [0x48, 0xE9] = [0x48, 0xC3, 0xA9]" "\<forall>c \<in> set [0x48, 0xE9]. code_point c"
    "StringField_to_bytes 4 [0x48, 0xE9] = [4, 3, 0x48, 0xC3, 0xA9, 0]"
    by code_simp+
  from s7_values_roundtrip [OF plc.s7_plc_axioms demo_on_line a(1), of 7 10 "- 5" 0 0 0 "[0x48, 0xE9]" 4] a(2) u
  show ?thesis by fastforce
qed

section \<open>Connecting, and late replies\<close>

text \<open>
  Once the socket is open, every connection attempt that fails closes it; one that succeeds is
  on line over it, with the frame length of the negotiation.
\<close>

lemma connect_closes:
  assumes "S7Client_connect T cl k = (Inl e, k')" "\<not> s_connected cl" "\<not> c_connected (s_tcp cl)"
    and "tcp_connect_to T (tc_host (c_config (s_tcp cl))) (tc_port (c_config (s_tcp cl))) k = (Done_with sock, k1)"
  shows "\<exists>r k2. negotiate T (c_local_tsap (s_tcp cl)) (c_remote_tsap (s_tcp cl)) sock k1 = (r, k2) \<and>
    k' = tcp_close T sock k2 \<and> (r = None \<and> e = ConnectionTimeout \<or> r = Some (Inl e))"
  using assms by (auto simp: S7Client_connect_def TcpConnection_connect_def split: prod.splits option.splits sum.splits)

lemma connect_on_line:
  assumes "S7Client_connect T cl k = (Inr cl', k')"
  shows "\<exists>sock k1. tcp_connect_to T (tc_host (c_config (s_tcp cl))) (tc_port (c_config (s_tcp cl))) k =
      (Done_with sock, k1) \<and> on_line cl' sock \<and>
    negotiate T (c_local_tsap (s_tcp cl)) (c_remote_tsap (s_tcp cl)) sock k1 = (Some (Inr (s_pdu_size cl')), k')"
  using assms by (auto simp: S7Client_connect_def TcpConnection_connect_def on_line_def
      split: prod.splits option.splits sum.splits tcp_answer.splits if_splits)

text \<open>A new client connects to the controller above, with the length 480.\<close>

lemma demo_connects:
  "case S7Client_connect plc_tcp (S7Client_new_with_config TcpConfig_new) demo_plc of
     (r, p) \<Rightarrow> r = Inr demo_client \<and> p_out p = []"
  by code_simp

text \<open>
  The reply to a request that timed out stays in the stream, and the next request takes it
  for its own: the reference of a reply is not compared, and every request of a client has
  the same one. Here the controller answers the first request too late, and the read of three
  flags from byte 20 on returns the flags from byte 8 on.
\<close>

definition slow_tcp :: "(plc \<times> bool) tcp_lib" where
  "slow_tcp =
     \<lparr>tcp_connect_to = \<lambda>host port (p, slow). (Done_with 1, p, slow),
      tcp_write = \<lambda>s f (p, slow). (Done_with (), plc_serve f p, slow),
      tcp_read_exactly = \<lambda>s n (p, slow).
        if slow then (Timed_out, p, False)
        else case tcp_read_exactly plc_tcp s n p of (r, p') \<Rightarrow> (r, p', False),
      tcp_close = \<lambda>s k. k\<rparr>"

lemma late_reply_taken:
  "case chunked_read slow_tcp demo_client Flags 8 3 (demo_plc, True) of
     (r, k) \<Rightarrow> r = Inl (TimeoutError ''read timeout'') \<and>
       fst (chunked_read slow_tcp demo_client Flags 20 3 k) = Inr [8, 9, 10]"
  by code_simp

end
