(* ===== verification/Coroutines.thy ===== *)
theory Coroutines
  imports Prelude
begin

text \<open>
  The scheduler of coroutines: \<open>internal/coroutine/coroutine.mbt\<close> and \<open>scheduler.mbt\<close>. A coroutine
  is a number, and its record is looked up in the state of the scheduler. The code
  between two suspensions is arbitrary: what a running coroutine does to the scheduler is a sequence of actions,
  and so is what the event loop does between rounds. A continuation is the place where the
  coroutine was suspended, because what follows it in this code depends on that place only.

  The lemmas: the invariant of every schedule (no wake-up, cancellation or end of a
  target is lost), and that a round resumes exactly what was queued when it began.
\<close>

section \<open>State\<close>

datatype co_error = Co_cancelled | Other_error string

datatype suspension = At_start | At_suspend | At_pause | At_wait nat

datatype co_state = Co_done | Co_fail co_error | Co_running | Co_suspend suspension

record coroutine =
  co_state :: co_state
  co_shielded :: bool
  co_cancelled :: bool
  co_ready :: bool
  co_downstream :: "nat list"

text \<open>\<open>sch_left\<close> is the number of iterations left of the loop in \<open>reschedule\<close>.\<close>

record scheduler =
  sch_coro_id :: nat
  sch_curr :: "nat option"
  sch_run_later :: "nat list"
  sch_all :: "nat list"
  sch_co :: "nat \<Rightarrow> coroutine"
  sch_left :: nat

definition new_coroutine :: coroutine where
  "new_coroutine =
     \<lparr>co_state = Co_suspend At_start, co_shielded = True, co_cancelled = False, co_ready = True, co_downstream = []\<rparr>"

definition scheduler_init :: scheduler where
  "scheduler_init =
     \<lparr>sch_coro_id = 0, sch_curr = None, sch_run_later = [], sch_all = [], sch_co = \<lambda>_. new_coroutine, sch_left = 0\<rparr>"

definition co_update :: "nat \<Rightarrow> (coroutine \<Rightarrow> coroutine) \<Rightarrow> scheduler \<Rightarrow> scheduler" where
  "co_update c f s = s\<lparr>sch_co := (sch_co s)(c := f (sch_co s c))\<rparr>"

section \<open>Operations\<close>

definition co_wake :: "nat \<Rightarrow> scheduler \<Rightarrow> scheduler" where
  "co_wake c s =
     (if \<not> co_ready (sch_co s c)
      then (co_update c (co_ready_update (\<lambda>_. True)) s)\<lparr>sch_run_later := sch_run_later s @ [c]\<rparr>
      else s)"

definition being_cancelled :: "nat \<Rightarrow> scheduler \<Rightarrow> bool" where
  "being_cancelled c s \<longleftrightarrow> co_cancelled (sch_co s c) \<and> \<not> co_shielded (sch_co s c)"

definition co_cancel :: "nat \<Rightarrow> scheduler \<Rightarrow> scheduler" where
  "co_cancel c s =
     (let s = co_update c (co_cancelled_update (\<lambda>_. True)) s
      in if \<not> co_shielded (sch_co s c) then co_wake c s else s)"

text \<open>The coroutine gives up control, unless the call raises \<open>Cancelled\<close>; then it goes on.\<close>

definition co_give_up :: "nat \<Rightarrow> suspension \<Rightarrow> scheduler \<Rightarrow> scheduler" where
  "co_give_up c p s = (co_update c (co_state_update (\<lambda>_. Co_suspend p)) s)\<lparr>sch_curr := None\<rparr>"

definition co_pause :: "nat \<Rightarrow> scheduler \<Rightarrow> co_error option \<times> scheduler" where
  "co_pause c s =
     (if being_cancelled c s then (Some Co_cancelled, s)
      else (None, (co_update c (co_ready_update (\<lambda>_. True)) (co_give_up c At_pause s))
              \<lparr>sch_run_later := sch_run_later s @ [c]\<rparr>))"

definition co_suspend_at :: "suspension \<Rightarrow> nat \<Rightarrow> scheduler \<Rightarrow> co_error option \<times> scheduler" where
  "co_suspend_at p c s = (if being_cancelled c s then (Some Co_cancelled, s) else (None, co_give_up c p s))"

definition co_spawn :: "scheduler \<Rightarrow> nat \<times> scheduler" where
  "co_spawn s =
     (let c = sch_coro_id s + 1
      in (c, s\<lparr>sch_coro_id := c, sch_co := (sch_co s)(c := new_coroutine),
               sch_run_later := sch_run_later s @ [c], sch_all := sch_all s @ [c]\<rparr>))"

text \<open>The end of the body: its result, and whoever waits for it is woken.\<close>

definition co_finish :: "nat \<Rightarrow> co_error option \<Rightarrow> scheduler \<Rightarrow> scheduler" where
  "co_finish c result s =
     (let s = co_update c (co_state_update (\<lambda>_. case result of Some e \<Rightarrow> Co_fail e | None \<Rightarrow> Co_done)) s;
          s = fold co_wake (co_downstream (sch_co s c)) s;
          s = co_update c (co_downstream_update (\<lambda>_. [])) s
      in s\<lparr>sch_all := removeAll c (sch_all s), sch_curr := None\<rparr>)"

text \<open>\<open>unwrap\<close>: the outer \<open>None\<close> is the panic, the inner one the absence of an error.\<close>

definition co_unwrap :: "nat \<Rightarrow> scheduler \<Rightarrow> co_error option option" where
  "co_unwrap t s =
     (case co_state (sch_co s t) of
        Co_done \<Rightarrow> Some None
      | Co_fail e \<Rightarrow> Some (Some e)
      | _ \<Rightarrow> None)"

definition co_remove_downstream :: "nat \<Rightarrow> nat \<Rightarrow> scheduler \<Rightarrow> scheduler" where
  "co_remove_downstream t c s = co_update t (co_downstream_update (removeAll c)) s"

text \<open>The insertion of the source's sets, which are iterated in the order of insertion.\<close>

definition set_add :: "'a \<Rightarrow> 'a list \<Rightarrow> 'a list" where
  "set_add x xs = (if x \<in> set xs then xs else xs @ [x])"

lemma set_add_set [simp]: "set (set_add x xs) = insert x (set xs)"
  by (auto simp: set_add_def)

lemma set_add_remove [simp]: "removeAll x (set_add x xs) = removeAll x xs"
  by (simp add: set_add_def)

definition co_wait :: "nat \<Rightarrow> nat \<Rightarrow> scheduler \<Rightarrow> co_error option \<times> scheduler" where
  "co_wait c t s =
     (case co_state (sch_co s t) of
        Co_done \<Rightarrow> (None, s)
      | Co_fail e \<Rightarrow> (Some e, s)
      | _ \<Rightarrow>
          (case co_suspend_at (At_wait t) c (co_update t (co_downstream_update (set_add c)) s) of
             (Some e, s) \<Rightarrow> (Some e, co_remove_downstream t c s)
           | (None, s) \<Rightarrow> (None, s)))"

text \<open>The two ends of \<open>protect_from_cancel\<close> when the coroutine was not shielded before.\<close>

definition co_protect :: "nat \<Rightarrow> scheduler \<Rightarrow> scheduler" where
  "co_protect c s = co_update c (co_shielded_update (\<lambda>_. True)) s"

definition co_unprotect :: "bool \<Rightarrow> nat \<Rightarrow> scheduler \<Rightarrow> co_error option \<times> scheduler" where
  "co_unprotect resume_on_cancel c s =
     (if \<not> resume_on_cancel \<and> co_cancelled (sch_co s c) then Some Co_cancelled else None,
      co_update c (co_shielded_update (\<lambda>_. False)) s)"

text \<open>
  What a coroutine does first when it is resumed, with an error or without: the start of its body
  leaves the shield (and has no continuation for an error, so that it would never end), a wait
  looks at its target. \<open>None\<close> is the panic of \<open>unwrap\<close>.
\<close>

definition co_continue :: "suspension \<Rightarrow> nat \<Rightarrow> co_error option \<Rightarrow> scheduler \<Rightarrow> (co_error option \<times> scheduler) option" where
  "co_continue p c raised s =
     (case (p, raised) of
        (At_start, None) \<Rightarrow> Some (None, co_update c (co_shielded_update (\<lambda>_. False)) s)
      | (At_start, Some e) \<Rightarrow> Some (None, s\<lparr>sch_curr := None\<rparr>)
      | (At_wait t, None) \<Rightarrow> map_option (\<lambda>r. (r, s)) (co_unwrap t s)
      | (At_wait t, Some e) \<Rightarrow> Some (Some e, co_remove_downstream t c s)
      | (_, _) \<Rightarrow> Some (raised, s))"

text \<open>\<open>reschedule\<close>: a round takes as many coroutines as are queued when it begins.\<close>

definition co_round :: "scheduler \<Rightarrow> scheduler" where
  "co_round s = s\<lparr>sch_left := length (sch_run_later s)\<rparr>"

definition co_resume :: "scheduler \<Rightarrow> (co_error option \<times> scheduler) option" where
  "co_resume s =
     (case sch_run_later s of
        [] \<Rightarrow> Some (None, s\<lparr>sch_left := 0\<rparr>)
      | c # rest \<Rightarrow>
          let s = (co_update c (co_ready_update (\<lambda>_. False)) s)\<lparr>sch_run_later := rest, sch_left := sch_left s - 1\<rparr>
          in case co_state (sch_co s c) of
               Co_suspend p \<Rightarrow>
                 let s = (co_update c (co_state_update (\<lambda>_. Co_running)) s)\<lparr>sch_curr := Some c\<rparr>
                 in co_continue p c (if being_cancelled c s then Some Co_cancelled else None) s
             | _ \<Rightarrow> Some (None, s))"

section \<open>Schedules\<close>

datatype co_action =
    Do_spawn
  | Do_wake nat
  | Do_cancel nat
  | Do_suspend
  | Do_pause
  | Do_wait nat
  | Do_protect
  | Do_unprotect bool
  | Do_finish "co_error option"
  | Do_round
  | Do_resume

text \<open>
  Who can do what: spawning, waking and cancelling is open to the running coroutine and
  to the event loop, the rest of the operations to the running coroutine, and the loop of
  \<open>reschedule\<close> goes on when no coroutine runs.
\<close>

definition co_known :: "nat \<Rightarrow> scheduler \<Rightarrow> bool" where
  "co_known c s \<longleftrightarrow> 0 < c \<and> c \<le> sch_coro_id s"

fun co_enabled :: "co_action \<Rightarrow> scheduler \<Rightarrow> bool" where
  "co_enabled Do_spawn s = True"
| "co_enabled (Do_wake c) s = co_known c s"
| "co_enabled (Do_cancel c) s = co_known c s"
| "co_enabled (Do_wait t) s = (sch_curr s \<noteq> None \<and> sch_curr s \<noteq> Some t \<and> co_known t s)"
| "co_enabled Do_protect s = (case sch_curr s of None \<Rightarrow> False | Some c \<Rightarrow> \<not> co_shielded (sch_co s c))"
| "co_enabled (Do_unprotect b) s = (case sch_curr s of None \<Rightarrow> False | Some c \<Rightarrow> co_shielded (sch_co s c))"
| "co_enabled Do_round s = (sch_curr s = None \<and> sch_left s = 0)"
| "co_enabled Do_resume s = (sch_curr s = None \<and> 0 < sch_left s)"
| "co_enabled _ s = (sch_curr s \<noteq> None)"

fun co_do :: "co_action \<Rightarrow> scheduler \<Rightarrow> scheduler option" where
  "co_do Do_spawn s = Some (snd (co_spawn s))"
| "co_do (Do_wake c) s = Some (co_wake c s)"
| "co_do (Do_cancel c) s = Some (co_cancel c s)"
| "co_do Do_suspend s = Some (snd (co_suspend_at At_suspend (the (sch_curr s)) s))"
| "co_do Do_pause s = Some (snd (co_pause (the (sch_curr s)) s))"
| "co_do (Do_wait t) s = Some (snd (co_wait (the (sch_curr s)) t s))"
| "co_do Do_protect s = Some (co_protect (the (sch_curr s)) s)"
| "co_do (Do_unprotect b) s = Some (snd (co_unprotect b (the (sch_curr s)) s))"
| "co_do (Do_finish r) s = Some (co_finish (the (sch_curr s)) r s)"
| "co_do Do_round s = Some (co_round s)"
| "co_do Do_resume s = map_option snd (co_resume s)"

definition co_finished :: "nat \<Rightarrow> scheduler \<Rightarrow> bool" where
  "co_finished c s \<longleftrightarrow> (case co_state (sch_co s c) of Co_done \<Rightarrow> True | Co_fail _ \<Rightarrow> True | _ \<Rightarrow> False)"

text \<open>
  A schedule is polite when a coroutine is woken only where it called \<open>suspend\<close> (or when it is
  finished), and no coroutine cancels itself.
\<close>

fun co_polite :: "co_action \<Rightarrow> scheduler \<Rightarrow> bool" where
  "co_polite (Do_wake c) s = (co_state (sch_co s c) = Co_suspend At_suspend \<or> co_finished c s)"
| "co_polite (Do_cancel c) s = (sch_curr s \<noteq> Some c)"
| "co_polite _ s = True"

inductive co_reach :: "bool \<Rightarrow> scheduler \<Rightarrow> bool" for polite where
  co_start: "co_reach polite scheduler_init"
| co_next: "\<lbrakk>co_reach polite s; co_enabled a s; polite \<Longrightarrow> co_polite a s; co_do a s = Some s'\<rbrakk> \<Longrightarrow> co_reach polite s'"

text \<open>A schedule written out.\<close>

fun co_exec :: "bool \<Rightarrow> co_action list \<Rightarrow> scheduler \<Rightarrow> scheduler option" where
  "co_exec polite [] s = Some s"
| "co_exec polite (a # as) s =
     (if co_enabled a s \<and> (polite \<longrightarrow> co_polite a s) then Option.bind (co_do a s) (co_exec polite as) else None)"

lemma co_exec_reach: "co_exec polite as s = Some s' \<Longrightarrow> co_reach polite s \<Longrightarrow> co_reach polite s'"
  by (induction as arbitrary: s) (auto split: if_splits bind_splits intro: co_next)

section \<open>What every schedule keeps\<close>

lemma co_update_simps [simp]:
  "sch_co (co_update c f s) = (sch_co s)(c := f (sch_co s c))"
  "sch_coro_id (co_update c f s) = sch_coro_id s"
  "sch_curr (co_update c f s) = sch_curr s"
  "sch_run_later (co_update c f s) = sch_run_later s"
  "sch_all (co_update c f s) = sch_all s"
  "sch_left (co_update c f s) = sch_left s"
  by (simp_all add: co_update_def)

text \<open>Waking a list of coroutines, each of them once.\<close>

lemma fold_wake:
  "\<exists>new. fold co_wake ds s = s\<lparr>sch_run_later := sch_run_later s @ new,
      sch_co := \<lambda>c. (sch_co s c)\<lparr>co_ready := co_ready (sch_co s c) \<or> c \<in> set ds\<rparr>\<rparr> \<and>
    set new = {c \<in> set ds. \<not> co_ready (sch_co s c)} \<and> distinct new"
proof (induction ds arbitrary: s)
  case Nil
  have "(\<lambda>c. (sch_co s c)\<lparr>co_ready := co_ready (sch_co s c)\<rparr>) = sch_co s" by (simp add: fun_eq_iff)
  then show ?case by simp
next
  case (Cons d ds)
  obtain new where new: "fold co_wake ds (co_wake d s) = (co_wake d s)\<lparr>sch_run_later := sch_run_later (co_wake d s) @ new,
      sch_co := \<lambda>c. (sch_co (co_wake d s) c)\<lparr>co_ready := co_ready (sch_co (co_wake d s) c) \<or> c \<in> set ds\<rparr>\<rparr>"
    "set new = {c \<in> set ds. \<not> co_ready (sch_co (co_wake d s) c)}" "distinct new"
    using Cons.IH [of "co_wake d s"] by blast
  define r where "r = sch_co s d"
  show ?case
  proof (cases "co_ready r")
    case True
    then have "(co_ready (sch_co s c) \<or> c \<in> set ds) = (co_ready (sch_co s c) \<or> c \<in> set (d # ds))" for c
      by (auto simp: r_def)
    moreover have "co_wake d s = s" using True by (simp add: co_wake_def r_def)
    moreover have "{c \<in> set (d # ds). \<not> co_ready (sch_co s c)} = {c \<in> set ds. \<not> co_ready (sch_co s c)}"
      using True by (auto simp: r_def)
    ultimately show ?thesis using new by (intro exI [of _ new]) simp
  next
    case False
    have w: "sch_co (co_wake d s) = (sch_co s)(d := r\<lparr>co_ready := True\<rparr>)"
      "sch_run_later (co_wake d s) = sch_run_later s @ [d]"
      "(co_wake d s)\<lparr>sch_run_later := q, sch_co := f\<rparr> = s\<lparr>sch_run_later := q, sch_co := f\<rparr>" for q f
      using False by (simp_all add: co_wake_def r_def co_update_def)
    have "(\<lambda>c. (sch_co (co_wake d s) c)\<lparr>co_ready := co_ready (sch_co (co_wake d s) c) \<or> c \<in> set ds\<rparr>) =
        (\<lambda>c. (sch_co s c)\<lparr>co_ready := co_ready (sch_co s c) \<or> c \<in> set (d # ds)\<rparr>)"
      by (rule ext) (simp add: w(1) r_def)
    moreover have "set (d # new) = {c \<in> set (d # ds). \<not> co_ready (sch_co s c)}"
      using new(2) False by (auto simp: w(1) r_def)
    moreover have "distinct (d # new)" using new(2,3) by (simp add: w(1))
    ultimately show ?thesis using new(1) by (intro exI [of _ "d # new"]) (simp add: w(2,3))
  qed
qed

lemma wake_effect:
  "co_wake d s = s\<lparr>sch_run_later := sch_run_later s @ (if co_ready (sch_co s d) then [] else [d]),
      sch_co := (sch_co s)(d := (sch_co s d)\<lparr>co_ready := True\<rparr>)\<rparr>"
  by (auto simp: co_wake_def co_update_def fun_eq_iff)

definition co_ok :: "scheduler \<Rightarrow> nat \<Rightarrow> bool" where
  "co_ok s c \<longleftrightarrow>
     (co_ready (sch_co s c) \<longrightarrow> c \<in> set (sch_run_later s)) \<and>
     (co_state (sch_co s c) = Co_running \<longleftrightarrow> sch_curr s = Some c) \<and>
     (c \<in> set (sch_all s) \<longleftrightarrow> \<not> co_finished c s) \<and>
     (case co_state (sch_co s c) of
        Co_suspend p \<Rightarrow>
          (being_cancelled c s \<longrightarrow> c \<in> set (sch_run_later s)) \<and>
          (case p of
             At_start \<Rightarrow> co_shielded (sch_co s c) \<and> c \<in> set (sch_run_later s)
           | At_pause \<Rightarrow> c \<in> set (sch_run_later s)
           | At_wait t \<Rightarrow> co_known t s \<and>
               (c \<in> set (sch_run_later s) \<or> c \<in> set (co_downstream (sch_co s t)) \<and> \<not> co_finished t s)
           | At_suspend \<Rightarrow> True)
      | _ \<Rightarrow> True)"

definition co_inv :: "scheduler \<Rightarrow> bool" where
  "co_inv s \<longleftrightarrow>
     (\<forall>c. co_known c s \<longrightarrow> co_ok s c) \<and>
     (\<forall>c \<in> set (sch_run_later s) \<union> set (sch_all s). co_known c s) \<and>
     (\<forall>c. sch_curr s = Some c \<longrightarrow> co_known c s) \<and>
     (\<forall>t c. co_known t s \<longrightarrow> c \<in> set (co_downstream (sch_co s t)) \<longrightarrow> co_known c s) \<and>
     sch_left s \<le> length (sch_run_later s)"

lemma co_invI:
  assumes "\<And>c. co_known c s \<Longrightarrow> co_ok s c"
    and "\<And>c. c \<in> set (sch_run_later s) \<Longrightarrow> co_known c s" "\<And>c. c \<in> set (sch_all s) \<Longrightarrow> co_known c s"
    and "\<And>c. sch_curr s = Some c \<Longrightarrow> co_known c s"
    and "\<And>t c. co_known t s \<Longrightarrow> c \<in> set (co_downstream (sch_co s t)) \<Longrightarrow> co_known c s"
    and "sch_left s \<le> length (sch_run_later s)"
  shows "co_inv s"
  using assms unfolding co_inv_def by blast

lemma co_invD:
  assumes "co_inv s"
  shows "co_known c s \<Longrightarrow> co_ok s c"
    and "c \<in> set (sch_run_later s) \<Longrightarrow> co_known c s" "c \<in> set (sch_all s) \<Longrightarrow> co_known c s"
    and "sch_curr s = Some c \<Longrightarrow> co_known c s"
    and "co_known t s \<Longrightarrow> c \<in> set (co_downstream (sch_co s t)) \<Longrightarrow> co_known c s"
    and "sch_left s \<le> length (sch_run_later s)"
  using assms unfolding co_inv_def by blast+

text \<open>A coroutine that an operation does not suspend, resume or end keeps its part of the invariant.\<close>

lemma co_ok_frame:
  assumes "co_ok s c" "c \<in> set (sch_run_later s) \<Longrightarrow> c \<in> set (sch_run_later s')"
    and "co_state (sch_co s' c) = co_state (sch_co s c)"
    and "co_shielded (sch_co s c) \<Longrightarrow> co_shielded (sch_co s' c) \<or> sch_curr s = Some c"
    and "co_cancelled (sch_co s' c) \<Longrightarrow> co_cancelled (sch_co s c) \<or> co_shielded (sch_co s' c) \<or> c \<in> set (sch_run_later s')"
    and "co_ready (sch_co s' c) \<Longrightarrow> co_ready (sch_co s c) \<or> c \<in> set (sch_run_later s')"
    and "sch_curr s' = Some c \<longleftrightarrow> sch_curr s = Some c" "c \<in> set (sch_all s') \<longleftrightarrow> c \<in> set (sch_all s)"
    and "sch_coro_id s \<le> sch_coro_id s'"
    and "\<And>t. \<lbrakk>co_state (sch_co s c) = Co_suspend (At_wait t); c \<in> set (co_downstream (sch_co s t)); \<not> co_finished t s\<rbrakk> \<Longrightarrow>
      c \<in> set (sch_run_later s') \<or> c \<in> set (co_downstream (sch_co s' t)) \<and> \<not> co_finished t s'"
  shows "co_ok s' c"
proof -
  have f: "co_finished c s' \<longleftrightarrow> co_finished c s" using assms(3) by (simp add: co_finished_def)
  show ?thesis
  proof (cases "co_state (sch_co s c)")
    case (Co_suspend p)
    then have n: "sch_curr s \<noteq> Some c" using assms(1) by (simp add: co_ok_def)
    then have b: "being_cancelled c s' \<Longrightarrow> being_cancelled c s \<or> c \<in> set (sch_run_later s')"
      using assms(4,5) by (auto simp: being_cancelled_def)
    show ?thesis
      using assms(1,2,6-9) Co_suspend n b assms(4) assms(10) unfolding co_ok_def f assms(3)
      by (cases p) (auto simp: co_known_def)
  qed (use assms(1-3,6-8) in \<open>auto simp: co_ok_def f\<close>)
qed

lemma co_inv_step:
  assumes "co_inv s" "sch_coro_id s' = sch_coro_id s"
    and "\<And>c. c \<in> set (sch_run_later s') \<Longrightarrow> c \<in> set (sch_run_later s) \<or> co_known c s"
    and "set (sch_all s') \<subseteq> set (sch_all s)" "\<And>c. sch_curr s' = Some c \<Longrightarrow> co_known c s"
    and "\<And>t c. c \<in> set (co_downstream (sch_co s' t)) \<Longrightarrow> c \<in> set (co_downstream (sch_co s t)) \<or> co_known c s"
    and "sch_left s' \<le> length (sch_run_later s')"
    and "\<And>c. co_known c s \<Longrightarrow> co_ok s c \<Longrightarrow> co_ok s' c"
  shows "co_inv s'"
proof (rule co_invI)
  have k: "co_known c s' = co_known c s" for c using assms(2) by (simp add: co_known_def)
  show "co_known c s' \<Longrightarrow> co_ok s' c" for c using assms(8) co_invD(1) [OF assms(1)] k by blast
  show "c \<in> set (sch_run_later s') \<Longrightarrow> co_known c s'" for c using assms(3) co_invD(2) [OF assms(1)] k by blast
  show "c \<in> set (sch_all s') \<Longrightarrow> co_known c s'" for c using assms(4) co_invD(3) [OF assms(1)] k by blast
  show "sch_curr s' = Some c \<Longrightarrow> co_known c s'" for c using assms(5) k by blast
  show "co_known t s' \<Longrightarrow> c \<in> set (co_downstream (sch_co s' t)) \<Longrightarrow> co_known c s'" for t c
    using assms(6) co_invD(5) [OF assms(1)] k by blast
qed (rule assms(7))

lemma inv_init: "co_inv scheduler_init"
  by (simp add: co_inv_def co_known_def scheduler_init_def)

text \<open>Only the flag and the queue change when coroutines are woken.\<close>

lemma inv_wakes:
  assumes "co_inv s" "\<forall>d \<in> set ds. co_known d s"
  shows "co_inv (fold co_wake ds s)"
proof -
  obtain new where new: "fold co_wake ds s = s\<lparr>sch_run_later := sch_run_later s @ new,
      sch_co := \<lambda>c. (sch_co s c)\<lparr>co_ready := co_ready (sch_co s c) \<or> c \<in> set ds\<rparr>\<rparr>" (is "_ = ?s")
    "set new = {c \<in> set ds. \<not> co_ready (sch_co s c)}"
    using fold_wake [of ds s] by blast
  have "co_inv ?s"
  proof (rule co_inv_step [OF assms(1)])
    show "co_ok s c \<Longrightarrow> co_ok ?s c" for c
      by (rule co_ok_frame) (use new(2) in \<open>auto simp: co_finished_def\<close>)
  qed (use co_invD(4,6) [OF assms(1)] assms(2) new(2) in auto)
  with new(1) show ?thesis by simp
qed

lemma inv_wake: "co_inv s \<Longrightarrow> co_known c s \<Longrightarrow> co_inv (co_wake c s)"
  using inv_wakes [of s "[c]"] by simp

lemma inv_cancel:
  assumes "co_inv s" "co_known d s"
  shows "co_inv (co_cancel d s)"
proof -
  let ?s = "co_cancel d s"
  have q: "set (sch_run_later s) \<subseteq> set (sch_run_later ?s)" "set (sch_run_later ?s) \<subseteq> insert d (set (sch_run_later s))"
    "length (sch_run_later s) \<le> length (sch_run_later ?s)"
    by (auto simp: co_cancel_def wake_effect Let_def)
  have r: "c \<noteq> d \<Longrightarrow> sch_co ?s c = sch_co s c" for c by (simp add: co_cancel_def wake_effect Let_def)
  have d: "co_state (sch_co ?s d) = co_state (sch_co s d)" "co_shielded (sch_co ?s d) = co_shielded (sch_co s d)"
    "co_downstream (sch_co ?s d) = co_downstream (sch_co s d)"
    by (simp_all add: co_cancel_def wake_effect Let_def)
  have e: "sch_coro_id ?s = sch_coro_id s" "sch_all ?s = sch_all s" "sch_curr ?s = sch_curr s" "sch_left ?s = sch_left s"
    by (simp_all add: co_cancel_def wake_effect Let_def)
  have f: "co_finished t ?s = co_finished t s" "co_downstream (sch_co ?s t) = co_downstream (sch_co s t)" for t
    using r [of t] d by (cases "t = d"; simp add: co_finished_def)+
  have w: "\<not> co_shielded (sch_co s d) \<Longrightarrow> d \<in> set (sch_run_later ?s)" if "co_ok s d"
    using that by (auto simp: co_cancel_def wake_effect Let_def co_ok_def)
  show ?thesis
  proof (rule co_inv_step [OF assms(1)])
    fix c assume c: "co_ok s c"
    show "co_ok ?s c"
    proof (cases "c = d")
      case True
      have rd: "co_ready (sch_co ?s d) \<Longrightarrow> co_ready (sch_co s d) \<or> d \<in> set (sch_run_later ?s)"
        by (auto simp: co_cancel_def wake_effect Let_def split: if_splits)
      have wd: "\<not> co_shielded (sch_co s d) \<Longrightarrow> d \<in> set (sch_run_later ?s)" using w c True by blast
      show ?thesis unfolding True
        by (rule co_ok_frame [OF c [unfolded True] subsetD [OF q(1)] d(1)]) (use d(2) wd rd in \<open>auto simp: e f\<close>)
    next
      case False
      then show ?thesis by (intro co_ok_frame [OF c subsetD [OF q(1)]]) (auto simp: r e f)
    qed
  next
    show "sch_left ?s \<le> length (sch_run_later ?s)" using co_invD(6) [OF assms(1)] q(3) e(4) by simp
  qed (use q(2) assms(2) in \<open>auto simp: e f dest: co_invD(4) [OF assms(1)]\<close>)
qed

text \<open>The running coroutine gives up control at a place where it can be found again.\<close>

lemma inv_leave:
  assumes "co_inv s" "sch_curr s = Some c" "\<not> being_cancelled c s"
    and s': "sch_coro_id s' = sch_coro_id s" "sch_all s' = sch_all s" "sch_curr s' = None" "sch_left s' = sch_left s"
      "sch_run_later s' = sch_run_later s @ q" "set q \<subseteq> {c}"
    and same: "\<And>d. co_shielded (sch_co s' d) = co_shielded (sch_co s d)" "\<And>d. co_cancelled (sch_co s' d) = co_cancelled (sch_co s d)"
      "\<And>d. d \<noteq> c \<Longrightarrow> co_state (sch_co s' d) = co_state (sch_co s d)" "\<And>d. d \<noteq> c \<Longrightarrow> co_ready (sch_co s' d) = co_ready (sch_co s d)"
    and down: "\<And>t. set (co_downstream (sch_co s t)) \<subseteq> set (co_downstream (sch_co s' t))"
      "\<And>t. set (co_downstream (sch_co s' t)) \<subseteq> insert c (set (co_downstream (sch_co s t)))"
    and p: "co_state (sch_co s' c) = Co_suspend p" "co_ready (sch_co s' c) \<Longrightarrow> co_ready (sch_co s c) \<or> c \<in> set q"
    and place: "case p of At_start \<Rightarrow> False | At_suspend \<Rightarrow> True | At_pause \<Rightarrow> c \<in> set q
      | At_wait t \<Rightarrow> co_known t s \<and> t \<noteq> c \<and> c \<in> set (co_downstream (sch_co s' t)) \<and> \<not> co_finished t s"
  shows "co_inv s'"
proof -
  have c: "co_known c s" by (rule co_invD(4) [OF assms(1,2)])
  have running: "co_state (sch_co s c) = Co_running" using co_invD(1) [OF assms(1) c] assms(2) by (simp add: co_ok_def)
  have fin: "co_finished t s' = co_finished t s" for t
    using same(3) [of t] running p(1) by (cases "t = c") (simp_all add: co_finished_def)
  show ?thesis
  proof (rule co_inv_step [OF assms(1) s'(1)])
    fix d assume d: "co_ok s d"
    show "co_ok s' d"
    proof (cases "d = c")
      case True
      have "\<not> being_cancelled c s'" using assms(3) same by (simp add: being_cancelled_def)
      moreover have "co_ready (sch_co s' c) \<Longrightarrow> c \<in> set (sch_run_later s')" using p(2) d True by (auto simp: co_ok_def s'(5))
      moreover have "c \<in> set (sch_all s') \<longleftrightarrow> \<not> co_finished c s'" using d True by (simp add: co_ok_def s'(2) fin)
      ultimately show ?thesis
        using place unfolding True co_ok_def
        by (cases p) (simp_all add: p(1) s'(3,5) fin, simp_all add: co_known_def s'(1))
    next
      case False
      show ?thesis
      proof (rule co_ok_frame [OF d])
        show "sch_curr s' = Some d \<longleftrightarrow> sch_curr s = Some d" using False by (simp add: s'(3) assms(2))
        fix t assume "d \<in> set (co_downstream (sch_co s t))" "\<not> co_finished t s"
        then show "d \<in> set (sch_run_later s') \<or> d \<in> set (co_downstream (sch_co s' t)) \<and> \<not> co_finished t s'"
          using down(1) [of t] fin by auto
      qed (use False in \<open>simp_all add: same s'\<close>)
    qed
  next
    fix t d assume "d \<in> set (co_downstream (sch_co s' t))"
    then show "d \<in> set (co_downstream (sch_co s t)) \<or> co_known d s" using down(2) [of t] c by auto
  next
    fix d assume "d \<in> set (sch_run_later s')"
    then show "d \<in> set (sch_run_later s) \<or> co_known d s" using s'(5,6) c by auto
  qed (use s' co_invD(6) [OF assms(1)] in simp_all)
qed

lemma inv_suspend:
  assumes "co_inv s" "sch_curr s = Some c"
  shows "co_inv (snd (co_suspend_at At_suspend c s))"
proof (cases "being_cancelled c s")
  case False
  have "co_inv (co_give_up c At_suspend s)"
    by (rule inv_leave [OF assms False, where q = "[]" and p = At_suspend]) (simp_all add: co_give_up_def subset_insertI)
  with False show ?thesis by (simp add: co_suspend_at_def)
qed (use assms in \<open>simp add: co_suspend_at_def\<close>)

lemma inv_pause:
  assumes "co_inv s" "sch_curr s = Some c"
  shows "co_inv (snd (co_pause c s))"
proof (cases "being_cancelled c s")
  case False
  have "co_inv (snd (co_pause c s))"
    by (rule inv_leave [OF assms False, where q = "[c]" and p = At_pause]) (simp_all add: co_give_up_def co_pause_def False subset_insertI)
  with False show ?thesis by simp
qed (use assms in \<open>simp add: co_pause_def\<close>)

lemma co_finished_update [simp]:
  "(\<And>r. co_state (f r) = co_state r) \<Longrightarrow> co_finished d (co_update c f s) = co_finished d s"
  by (simp add: co_finished_def)

text \<open>The list of a target may lose or gain the running coroutine.\<close>

lemma inv_downstream:
  assumes "co_inv s" "sch_curr s = Some c" "\<And>xs. set (f xs) - {c} = set xs - {c}"
  shows "co_inv (co_update t (co_downstream_update f) s)" (is "co_inv ?s")
proof (rule co_inv_step [OF assms(1)])
  fix d assume d: "co_ok s d"
  then show "co_ok ?s d"
  proof (rule co_ok_frame)
    fix t' assume x: "co_state (sch_co s d) = Co_suspend (At_wait t')" "d \<in> set (co_downstream (sch_co s t'))" "\<not> co_finished t' s"
    then have "d \<noteq> c" using d assms(2) by (auto simp: co_ok_def)
    then show "d \<in> set (sch_run_later ?s) \<or> d \<in> set (co_downstream (sch_co ?s t')) \<and> \<not> co_finished t' ?s"
      using x assms(3) [of "co_downstream (sch_co s t')"] by auto
  qed (cases "d = t"; simp)+
next
  fix t' d assume "d \<in> set (co_downstream (sch_co ?s t'))"
  then show "d \<in> set (co_downstream (sch_co s t')) \<or> co_known d s"
    using assms(3) [of "co_downstream (sch_co s t')"] co_invD(4) [OF assms(1,2)] by (cases "d = c") (auto split: if_splits)
qed (use co_invD(4,6) [OF assms(1)] in auto)

lemma inv_wait:
  assumes "co_inv s" "sch_curr s = Some c" "co_known t s" "t \<noteq> c"
  shows "co_inv (snd (co_wait c t s))"
proof (cases "co_finished t s")
  case True
  with assms(1) show ?thesis by (auto simp: co_wait_def co_finished_def split: co_state.splits)
next
  case False
  show ?thesis
  proof (cases "being_cancelled c s")
    case True
    have "snd (co_wait c t s) = co_remove_downstream t c (co_update t (co_downstream_update (set_add c)) s)"
      using True False assms(4)
      by (auto simp: co_wait_def co_finished_def co_suspend_at_def being_cancelled_def split: co_state.splits)
    moreover have "co_inv (co_update t (co_downstream_update (set_add c)) s)"
      by (rule inv_downstream [OF assms(1,2)]) auto
    then have "co_inv (co_remove_downstream t c (co_update t (co_downstream_update (set_add c)) s))"
      unfolding co_remove_downstream_def by (rule inv_downstream) (use assms(2) in auto)
    ultimately show ?thesis by simp
  next
    case n: False
    have "snd (co_wait c t s) = co_give_up c (At_wait t) (co_update t (co_downstream_update (set_add c)) s)" (is "_ = ?s")
      using n False assms(4)
      by (auto simp: co_wait_def co_finished_def co_suspend_at_def being_cancelled_def split: co_state.splits)
    moreover have "co_inv ?s"
      by (rule inv_leave [OF assms(1,2) n, where q = "[]" and p = "At_wait t"])
        (use assms(3,4) False in \<open>simp_all add: co_give_up_def subset_insertI\<close>)
    ultimately show ?thesis by simp
  qed
qed

lemma inv_protect:
  assumes "co_inv s" "sch_curr s = Some c"
  shows "co_inv (co_protect c s)" "co_inv (snd (co_unprotect b c s))"
proof -
  have "co_inv (co_update c (co_shielded_update (\<lambda>_. x)) s)" (is "co_inv ?s") for x
  proof (rule co_inv_step [OF assms(1)])
    fix d assume d: "co_ok s d"
    show "co_ok ?s d"
    proof (cases "d = c")
      case True
      show ?thesis by (rule co_ok_frame [OF d]) (use assms(2) True in auto)
    qed (rule co_ok_frame [OF d]; auto)
  qed (use co_invD(4,6) [OF assms(1)] in \<open>auto split: if_splits\<close>)
  then show "co_inv (co_protect c s)" "co_inv (snd (co_unprotect b c s))" by (simp_all add: co_protect_def co_unprotect_def)
qed

text \<open>The end of a coroutine wakes everyone who waits for it.\<close>

lemma inv_finish:
  assumes "co_inv s" "sch_curr s = Some c"
  shows "co_inv (co_finish c r s)"
proof -
  define e where "e = (case r of Some e \<Rightarrow> Co_fail e | None \<Rightarrow> Co_done)"
  have e: "e = Co_done \<or> (\<exists>x. e = Co_fail x)" by (simp add: e_def split: option.splits)
  let ?ds = "co_downstream (sch_co s c)" and ?s1 = "co_update c (co_state_update (\<lambda>_. e)) s"
  obtain new where new: "fold co_wake ?ds ?s1 = ?s1\<lparr>sch_run_later := sch_run_later s @ new,
      sch_co := \<lambda>d. (sch_co ?s1 d)\<lparr>co_ready := co_ready (sch_co ?s1 d) \<or> d \<in> set ?ds\<rparr>\<rparr>"
    "set new = {d \<in> set ?ds. \<not> co_ready (sch_co s d)}"
    using fold_wake [of ?ds ?s1] by (auto split: if_splits)
  have f: "co_finish c r s = (co_update c (co_downstream_update (\<lambda>_. [])) (fold co_wake ?ds ?s1))
      \<lparr>sch_all := removeAll c (sch_all s), sch_curr := None\<rparr>" (is "_ = ?s")
    by (simp add: co_finish_def Let_def new(1) [unfolded e_def] e_def)
  have c: "co_known c s" by (rule co_invD(4) [OF assms])
  have fin: "co_finished d ?s \<longleftrightarrow> d = c \<or> co_finished d s" for d
    using e by (auto simp: co_finished_def new(1))
  have "co_inv ?s"
  proof (rule co_inv_step [OF assms(1)])
    fix d assume d: "co_ok s d"
    show "co_ok ?s d"
    proof (cases "d = c")
      case True
      have "co_state (sch_co ?s c) = e" by (simp add: new(1))
      moreover have "co_ready (sch_co ?s c) \<Longrightarrow> c \<in> set (sch_run_later ?s)"
        using d True new(2) by (auto simp: new(1) co_ok_def)
      moreover have "co_finished c ?s" by (simp add: fin)
      ultimately show ?thesis unfolding True co_ok_def using e by auto
    next
      case False
      show ?thesis
      proof (rule co_ok_frame [OF d])
        assume "co_ready (sch_co ?s d)"
        then show "co_ready (sch_co s d) \<or> d \<in> set (sch_run_later ?s)" using False new(2) by (auto simp: new(1))
      next
        fix t assume x: "co_state (sch_co s d) = Co_suspend (At_wait t)" "d \<in> set (co_downstream (sch_co s t))" "\<not> co_finished t s"
        show "d \<in> set (sch_run_later ?s) \<or> d \<in> set (co_downstream (sch_co ?s t)) \<and> \<not> co_finished t ?s"
        proof (cases "t = c")
          case True
          with x d new(2) show ?thesis by (cases "co_ready (sch_co s d)") (auto simp: new(1) co_ok_def)
        next
          case False
          with x(2,3) fin [of t] show ?thesis by (simp add: new(1))
        qed
      qed (use False assms(2) in \<open>simp_all add: new(1)\<close>)
    qed
  next
    fix d assume "d \<in> set (sch_run_later ?s)"
    then show "d \<in> set (sch_run_later s) \<or> co_known d s"
      using co_invD(5) [OF assms(1) c, of d] new(2) by (auto simp: new(1))
  qed (use co_invD(6) [OF assms(1)] in \<open>auto simp: new(1) split: if_splits\<close>)
  with f show ?thesis by simp
qed

lemma inv_spawn:
  assumes "co_inv s"
  shows "co_inv (snd (co_spawn s))" (is "co_inv ?s")
proof (rule co_invI)
  let ?c = "sch_coro_id s + 1"
  have k: "co_known d ?s \<longleftrightarrow> d = ?c \<or> co_known d s" for d by (auto simp: co_spawn_def Let_def co_known_def)
  have n: "\<not> co_known ?c s" by (simp add: co_known_def)
  have fresh: "sch_curr s \<noteq> Some ?c" using n co_invD(4) [OF assms] by blast
  have fields: "sch_co ?s = (sch_co s)(?c := new_coroutine)" "sch_run_later ?s = sch_run_later s @ [?c]"
    "sch_all ?s = sch_all s @ [?c]" "sch_curr ?s = sch_curr s" "sch_left ?s = sch_left s" "sch_coro_id ?s = ?c"
    by (simp_all add: co_spawn_def Let_def)
  have fin: "d \<noteq> ?c \<Longrightarrow> co_finished d ?s = co_finished d s" for d by (simp add: co_finished_def fields)
  show "co_ok ?s d" if "co_known d ?s" for d
  proof (cases "d = ?c")
    case True
    have "co_state new_coroutine = Co_suspend At_start" "co_shielded new_coroutine" by (simp_all add: new_coroutine_def)
    with True fresh show ?thesis by (simp add: co_ok_def fields co_finished_def)
  next
    case False
    then have d: "co_ok s d" using that k co_invD(1) [OF assms] by blast
    show ?thesis
    proof (rule co_ok_frame [OF d])
      fix t assume x: "co_state (sch_co s d) = Co_suspend (At_wait t)" "d \<in> set (co_downstream (sch_co s t))" "\<not> co_finished t s"
      then have "t \<noteq> ?c" using d n by (auto simp: co_ok_def)
      with x show "d \<in> set (sch_run_later ?s) \<or> d \<in> set (co_downstream (sch_co ?s t)) \<and> \<not> co_finished t ?s"
        using fin [of t] by (simp add: fields)
    qed (use False in \<open>simp_all add: fields\<close>)
  qed
  show "d \<in> set (sch_run_later ?s) \<Longrightarrow> co_known d ?s" for d using co_invD(2) [OF assms, of d] by (auto simp: k fields)
  show "d \<in> set (sch_all ?s) \<Longrightarrow> co_known d ?s" for d using co_invD(3) [OF assms, of d] by (auto simp: k fields)
  show "sch_curr ?s = Some d \<Longrightarrow> co_known d ?s" for d using co_invD(4) [OF assms, of d] by (simp add: k fields)
  show "co_known t ?s \<Longrightarrow> d \<in> set (co_downstream (sch_co ?s t)) \<Longrightarrow> co_known d ?s" for t d
    using co_invD(5) [OF assms, of t d] by (auto simp: k fields new_coroutine_def split: if_splits)
  show "sch_left ?s \<le> length (sch_run_later ?s)" using co_invD(6) [OF assms] by (simp add: fields)
qed

text \<open>A coroutine is taken from the queue.\<close>

lemma inv_resume:
  assumes "co_inv s" "sch_curr s = None" "co_resume s = Some (r, s')"
  shows "co_inv s'"
proof (cases "sch_run_later s")
  case Nil
  have "co_inv (s\<lparr>sch_left := 0\<rparr>)" (is "co_inv ?s")
  proof (rule co_inv_step [OF assms(1)])
    show "co_ok s d \<Longrightarrow> co_ok ?s d" for d by (rule co_ok_frame) (auto simp: co_finished_def)
  qed (use co_invD(4) [OF assms(1)] in auto)
  with assms(3) Nil show ?thesis by (simp add: co_resume_def)
next
  case (Cons c rest)
  define s1 where "s1 = (co_update c (co_ready_update (\<lambda>_. False)) s)\<lparr>sch_run_later := rest, sch_left := sch_left s - 1\<rparr>"
  have c: "co_known c s" using co_invD(2) [OF assms(1)] Cons by simp
  have fields: "sch_co s1 = (sch_co s)(c := (sch_co s c)\<lparr>co_ready := False\<rparr>)" "sch_run_later s1 = rest"
    "sch_all s1 = sch_all s" "sch_curr s1 = None" "sch_coro_id s1 = sch_coro_id s" "sch_left s1 = sch_left s - 1"
    by (simp_all add: s1_def assms(2))
  have other: "co_ok s1 d" if "co_ok s d" "d \<noteq> c" for d
    by (rule co_ok_frame [OF that(1)]) (use that(2) Cons assms(2) in \<open>auto simp: fields co_finished_def\<close>)
  show ?thesis
  proof (cases "\<exists>p. co_state (sch_co s c) = Co_suspend p")
    case False
    have "co_inv s1"
    proof (rule co_inv_step [OF assms(1) fields(5)])
      fix d assume d: "co_ok s d"
      show "co_ok s1 d"
      proof (cases "d = c")
        case True
        with d False assms(2) show ?thesis
          by (cases "co_state (sch_co s c)") (auto simp: co_ok_def fields co_finished_def)
      qed (use other d in blast)
    qed (use Cons co_invD(6) [OF assms(1)] in \<open>auto simp: fields split: if_splits\<close>)
    moreover have "s' = s1"
      using assms(3) False by (cases "co_state (sch_co s c)") (auto simp: co_resume_def Cons s1_def Let_def)
    ultimately show ?thesis by simp
  next
    case True
    then obtain p where p: "co_state (sch_co s c) = Co_suspend p" by blast
    define s2 where "s2 = (co_update c (co_state_update (\<lambda>_. Co_running)) s1)\<lparr>sch_curr := Some c\<rparr>"
    have fin: "co_finished d s2 = co_finished d s" for d by (simp add: s2_def fields co_finished_def p)
    have "co_inv s2"
    proof (rule co_inv_step [OF assms(1)])
      fix d assume d: "co_ok s d"
      show "co_ok s2 d"
      proof (cases "d = c")
        case True
        with d p fin show ?thesis by (auto simp: co_ok_def s2_def fields)
      next
        case False
        show ?thesis
          by (rule co_ok_frame [OF other [OF d False]])
            (use False fin in \<open>auto simp: s2_def fields co_finished_def\<close>)
      qed
    qed (use Cons c co_invD(6) [OF assms(1)] in \<open>auto simp: s2_def fields split: if_splits\<close>)
    moreover have "sch_curr s2 = Some c" by (simp add: s2_def)
    moreover have "co_continue p c (if being_cancelled c s2 then Some Co_cancelled else None) s2 = Some (r, s')"
      using assms(3) p by (simp add: co_resume_def Cons s1_def s2_def Let_def)
    moreover have "\<not> being_cancelled c s2" if "p = At_start"
      using co_invD(1) [OF assms(1) c] p that by (simp add: co_ok_def s2_def being_cancelled_def fields)
    ultimately show ?thesis
      using inv_protect(2) [of s2 c False] inv_downstream [of s2 c "removeAll c"]
      by (cases p) (auto simp: co_continue_def co_unprotect_def co_remove_downstream_def split: if_splits)
  qed
qed

lemma inv_round: "co_inv s \<Longrightarrow> co_inv (co_round s)"
proof -
  assume i: "co_inv s"
  show ?thesis
  proof (rule co_inv_step [OF i])
    show "co_ok s d \<Longrightarrow> co_ok (co_round s) d" for d by (rule co_ok_frame) (auto simp: co_finished_def co_round_def)
  qed (use co_invD(4) [OF i] in \<open>auto simp: co_round_def\<close>)
qed

lemma co_do_inv:
  assumes "co_inv s" "co_enabled a s" "co_do a s = Some s'"
  shows "co_inv s'"
  using assms
  by (cases a) (auto simp: inv_spawn inv_wake inv_cancel inv_suspend inv_pause inv_wait inv_protect inv_finish inv_round
      dest: inv_resume split: option.splits)

lemma co_reach_inv: "co_reach polite s \<Longrightarrow> co_inv s"
  by (induction rule: co_reach.induct) (auto intro: inv_init co_do_inv)

section \<open>What a round serves\<close>

fun co_popped :: "co_action \<Rightarrow> scheduler \<Rightarrow> nat list" where
  "co_popped Do_resume s = take 1 (sch_run_later s)"
| "co_popped _ s = []"

fun co_served :: "co_action list \<Rightarrow> scheduler \<Rightarrow> nat list" where
  "co_served [] s = []"
| "co_served (a # as) s = co_popped a s @ (case co_do a s of Some s' \<Rightarrow> co_served as s' | None \<Rightarrow> [])"

lemma wake_queue: "\<exists>q. sch_run_later (co_wake c s) = sch_run_later s @ q" "sch_left (co_wake c s) = sch_left s"
  by (simp_all add: wake_effect)

lemma fold_wake_left: "sch_left (fold co_wake ds s) = sch_left s"
  by (induction ds arbitrary: s) (simp_all add: wake_queue(2))

text \<open>Every action but resuming only appends to the queue.\<close>

lemma co_do_appends:
  assumes "co_do a s = Some s'" "a \<noteq> Do_round" "a \<noteq> Do_resume"
  shows "(\<exists>q. sch_run_later s' = sch_run_later s @ q) \<and> sch_left s' = sch_left s"
proof (cases a)
  case (Do_finish r)
  define c where "c = the (sch_curr s)"
  let ?s1 = "co_update c (co_state_update (\<lambda>_. case r of Some e \<Rightarrow> Co_fail e | None \<Rightarrow> Co_done)) s"
  have "\<exists>q. sch_run_later (fold co_wake ds t) = sch_run_later t @ q" for ds t
    using fold_wake [of ds t] by auto
  from this [of "co_downstream (sch_co ?s1 c)" ?s1] show ?thesis
    using assms(1) Do_finish by (auto simp: co_finish_def Let_def fold_wake_left c_def)
qed (use assms in \<open>auto simp: co_spawn_def co_cancel_def wake_effect co_suspend_at_def co_pause_def co_wait_def co_give_up_def
  co_protect_def co_unprotect_def co_remove_downstream_def Let_def split: co_state.splits option.splits\<close>)

lemma co_resume_pops:
  assumes "co_resume s = Some (r, s')"
  shows "sch_run_later s' = drop 1 (sch_run_later s) \<and>
    sch_left s' = (if sch_run_later s = [] then 0 else sch_left s - 1)"
  using assms
  by (auto simp: co_resume_def co_continue_def Let_def co_remove_downstream_def
      split: list.splits co_state.splits suspension.splits option.splits if_splits)

lemma co_do_serves:
  assumes "co_do a s = Some s'" "a \<noteq> Do_round" "co_enabled a s" "sch_left s \<le> length (sch_run_later s)"
  shows "take (sch_left s) (sch_run_later s) = co_popped a s @ take (sch_left s') (sch_run_later s')"
proof (cases "a = Do_resume")
  case True
  then have l: "0 < sch_left s" using assms(3) by simp
  then obtain c rest where q: "sch_run_later s = c # rest" using assms(4) by (cases "sch_run_later s") auto
  obtain r where "co_resume s = Some (r, s')" using assms(1) True by auto
  with co_resume_pops q have "sch_run_later s' = rest" "sch_left s' = sch_left s - 1" by fastforce+
  with True q l show ?thesis by (cases "sch_left s") simp_all
next
  case False
  then have "co_popped a s = []" by (cases a) simp_all
  with co_do_appends [OF assms(1,2) False] assms(4) show ?thesis by auto
qed

lemma co_exec_serves:
  assumes "co_exec polite as s = Some s'" "co_inv s" "Do_round \<notin> set as"
  shows "take (sch_left s) (sch_run_later s) = co_served as s @ take (sch_left s') (sch_run_later s')"
  using assms
proof (induction as arbitrary: s)
  case (Cons a as)
  then obtain s1 where s1: "co_enabled a s" "co_do a s = Some s1" "co_exec polite as s1 = Some s'"
    by (auto split: if_splits bind_splits)
  have "take (sch_left s) (sch_run_later s) = co_popped a s @ take (sch_left s1) (sch_run_later s1)"
    using co_do_serves [OF s1(2) _ s1(1)] Cons.prems(2,3) by (auto dest: co_invD(6))
  moreover have "take (sch_left s1) (sch_run_later s1) = co_served as s1 @ take (sch_left s') (sch_run_later s')"
    using Cons.IH [OF s1(3) co_do_inv [OF Cons.prems(2) s1(1,2)]] Cons.prems(3) by simp
  ultimately show ?case using s1(2) by simp
qed simp

section \<open>The properties\<close>

text \<open>
  Claim C7 (invariant). In every state that any schedule reaches, at most the current
  coroutine runs, and no reason to resume is lost: a suspended coroutine is queued when it is marked ready,
  when it is cancelled and not shielded, when it was just spawned, when it paused, and when it
  waits for a coroutine that has finished; one that waits for another is among those its end wakes. The
  set of all coroutines holds those that have not finished.
\<close>

theorem coroutines_not_lost:
  assumes "co_reach polite s" "co_known c s"
  shows "(co_state (sch_co s c) = Co_running \<longleftrightarrow> sch_curr s = Some c) \<and>
    (c \<in> set (sch_all s) \<longleftrightarrow> \<not> co_finished c s) \<and>
    (co_ready (sch_co s c) \<longrightarrow> c \<in> set (sch_run_later s)) \<and>
    (\<forall>p. co_state (sch_co s c) = Co_suspend p \<longrightarrow>
       (being_cancelled c s \<or> p = At_start \<or> p = At_pause \<or> (\<exists>t. p = At_wait t \<and> co_finished t s) \<longrightarrow>
          c \<in> set (sch_run_later s)) \<and>
       (\<forall>t. p = At_wait t \<longrightarrow> c \<in> set (sch_run_later s) \<or> c \<in> set (co_downstream (sch_co s t))))"
proof -
  have "co_ok s c" using co_reach_inv [OF assms(1)] assms(2) by (rule co_invD(1))
  then show ?thesis by (auto simp: co_ok_def)
qed

text \<open>A program of three coroutines: the first spawns two others and waits for the second of them.\<close>

definition demo_schedule :: "co_action list" where
  "demo_schedule =
     [Do_spawn, Do_round, Do_resume, Do_spawn, Do_spawn, Do_wait 3, Do_round, Do_resume, Do_suspend, Do_resume, Do_pause]"

theorem coroutines_not_lost_witness:
  "case co_exec True (demo_schedule @ [Do_cancel 2, Do_cancel 1]) scheduler_init of
     Some s \<Rightarrow> co_state (sch_co s 1) = Co_suspend (At_wait 3) \<and> 1 \<in> set (sch_run_later s) \<and> 2 \<in> set (sch_run_later s) \<and>
       3 \<in> set (sch_run_later s)
   | None \<Rightarrow> False"
proof -
  obtain s where s: "co_exec True (demo_schedule @ [Do_cancel 2, Do_cancel 1]) scheduler_init = Some s"
    and facts: "sch_coro_id s = 3" "co_state (sch_co s 1) = Co_suspend (At_wait 3)" "being_cancelled 1 s"
      "co_state (sch_co s 2) = Co_suspend At_suspend" "being_cancelled 2 s" "co_state (sch_co s 3) = Co_suspend At_pause"
  proof -
    have "case co_exec True (demo_schedule @ [Do_cancel 2, Do_cancel 1]) scheduler_init of
        Some s \<Rightarrow> sch_coro_id s = 3 \<and> co_state (sch_co s 1) = Co_suspend (At_wait 3) \<and> being_cancelled 1 s \<and>
          co_state (sch_co s 2) = Co_suspend At_suspend \<and> being_cancelled 2 s \<and> co_state (sch_co s 3) = Co_suspend At_pause
      | None \<Rightarrow> False"
      by code_simp
    with that show thesis by (auto split: option.splits)
  qed
  have "co_reach True s" by (rule co_exec_reach [OF s co_start])
  note c = coroutines_not_lost [OF this]
  from c [of 1] c [of 2] c [of 3] facts s show ?thesis by (simp add: co_known_def)
qed

text \<open>
  Claim C25 (liveness). A round takes from the queue exactly the coroutines that were queued when
  it began, in their order, each once for every place it had, whatever they do meanwhile: those woken, spawned or paused
  during the round wait for the next one.
\<close>

theorem round_serves_queue:
  assumes "co_reach polite s" "co_enabled Do_round s" "Do_round \<notin> set as"
    and "co_exec polite as (co_round s) = Some s'" "sch_left s' = 0"
  shows "co_served as (co_round s) = sch_run_later s"
proof -
  have "co_inv (co_round s)" by (rule inv_round [OF co_reach_inv [OF assms(1)]])
  from co_exec_serves [OF assms(4) this assms(3)] assms(5) show ?thesis by (simp add: co_round_def)
qed

text \<open>The coroutine that pauses in its round is not served again in it.\<close>

theorem round_serves_queue_witness:
  "case co_exec True (demo_schedule @ [Do_wake 2]) scheduler_init of
     Some s \<Rightarrow> co_served [Do_resume, Do_pause, Do_resume, Do_suspend] (co_round s) = [3, 2]
   | None \<Rightarrow> False"
proof -
  let ?as = "[Do_resume, Do_pause, Do_resume, Do_suspend]"
  have "case co_exec True (demo_schedule @ [Do_wake 2]) scheduler_init of
      Some s \<Rightarrow> co_enabled Do_round s \<and> sch_run_later s = [3, 2] \<and>
        (case co_exec True ?as (co_round s) of Some s' \<Rightarrow> sch_left s' = 0 | None \<Rightarrow> False)
    | None \<Rightarrow> False"
    by code_simp
  then obtain s s' where s: "co_exec True (demo_schedule @ [Do_wake 2]) scheduler_init = Some s"
    and facts: "co_enabled Do_round s" "sch_run_later s = [3, 2]" "co_exec True ?as (co_round s) = Some s'" "sch_left s' = 0"
    by (auto split: option.splits simp del: co_exec.simps co_enabled.simps)
  have "co_reach True s" by (rule co_exec_reach [OF s co_start])
  from round_serves_queue [OF this facts(1) _ facts(3,4)] facts(2) s show ?thesis by simp
qed

end
