(* ===== verification/Coroutines_Polite.thy ===== *)
theory Coroutines_Polite
  imports Coroutines
begin

text \<open>
  Schedules in which coroutines are woken only where they called \<open>suspend\<close> and none cancels itself.
  In these the queue holds a coroutine once, and a wait always finds its target
  finished. The last lemma shows what happens to a task that cancels itself.
\<close>

section \<open>The invariant of polite schedules\<close>

definition co_neat :: "scheduler \<Rightarrow> bool" where
  "co_neat s \<longleftrightarrow>
     distinct (sch_run_later s) \<and> (\<forall>c \<in> set (sch_run_later s). co_ready (sch_co s c)) \<and>
     (\<forall>c. co_known c s \<longrightarrow> co_state (sch_co s c) = Co_running \<longrightarrow> \<not> co_ready (sch_co s c)) \<and>
     (\<forall>c t. co_known c s \<longrightarrow> co_state (sch_co s c) = Co_suspend (At_wait t) \<longrightarrow> co_ready (sch_co s c) \<longrightarrow>
        co_finished t s \<or> being_cancelled c s) \<and>
     (\<forall>c t. co_known t s \<longrightarrow> c \<in> set (co_downstream (sch_co s t)) \<longrightarrow>
        co_state (sch_co s c) = Co_suspend (At_wait t) \<and> \<not> co_finished t s)"

lemma co_neatI:
  assumes "distinct (sch_run_later s)" "\<And>c. c \<in> set (sch_run_later s) \<Longrightarrow> co_ready (sch_co s c)"
    and "\<And>c. co_known c s \<Longrightarrow> co_state (sch_co s c) = Co_running \<Longrightarrow> \<not> co_ready (sch_co s c)"
    and "\<And>c t. \<lbrakk>co_known c s; co_state (sch_co s c) = Co_suspend (At_wait t); co_ready (sch_co s c); \<not> being_cancelled c s\<rbrakk> \<Longrightarrow>
      co_finished t s"
    and "\<And>c t. co_known t s \<Longrightarrow> c \<in> set (co_downstream (sch_co s t)) \<Longrightarrow>
      co_state (sch_co s c) = Co_suspend (At_wait t) \<and> \<not> co_finished t s"
  shows "co_neat s"
  using assms unfolding co_neat_def by blast

lemma co_neatD:
  assumes "co_neat s"
  shows "distinct (sch_run_later s)" "c \<in> set (sch_run_later s) \<Longrightarrow> co_ready (sch_co s c)"
    and "co_known c s \<Longrightarrow> co_state (sch_co s c) = Co_running \<Longrightarrow> \<not> co_ready (sch_co s c)"
    and "\<lbrakk>co_known c s; co_state (sch_co s c) = Co_suspend (At_wait t); co_ready (sch_co s c); \<not> being_cancelled c s\<rbrakk> \<Longrightarrow>
      co_finished t s"
    and "co_known t s \<Longrightarrow> c \<in> set (co_downstream (sch_co s t)) \<Longrightarrow>
      co_state (sch_co s c) = Co_suspend (At_wait t) \<and> \<not> co_finished t s"
  using assms unfolding co_neat_def by blast+

lemma neat_wake:
  assumes "co_neat s" "co_known d s" "co_state (sch_co s d) \<noteq> Co_running"
    and "\<And>t. co_state (sch_co s d) = Co_suspend (At_wait t) \<Longrightarrow> co_finished t s \<or> being_cancelled d s"
  shows "co_neat (co_wake d s)"
proof (cases "co_ready (sch_co s d)")
  case True
  with assms(1) show ?thesis by (simp add: co_wake_def)
next
  case False
  let ?s = "co_wake d s"
  have fields: "sch_co ?s = (sch_co s)(d := (sch_co s d)\<lparr>co_ready := True\<rparr>)" "sch_run_later ?s = sch_run_later s @ [d]"
    using False by (simp_all add: wake_effect)
  have k: "co_known c ?s = co_known c s" for c by (simp add: co_known_def wake_effect)
  have same: "co_state (sch_co ?s c) = co_state (sch_co s c)" "co_downstream (sch_co ?s c) = co_downstream (sch_co s c)"
    "being_cancelled c ?s = being_cancelled c s" "co_finished c ?s = co_finished c s" for c
    by (simp_all add: fields being_cancelled_def co_finished_def)
  have r: "c \<noteq> d \<Longrightarrow> co_ready (sch_co ?s c) = co_ready (sch_co s c)" for c by (simp add: fields)
  show ?thesis
  proof (rule co_neatI)
    show "distinct (sch_run_later ?s)" using co_neatD(1,2) [OF assms(1)] False by (auto simp: fields)
    show "c \<in> set (sch_run_later ?s) \<Longrightarrow> co_ready (sch_co ?s c)" for c using co_neatD(2) [OF assms(1)] by (auto simp: fields)
    show "co_known c ?s \<Longrightarrow> co_state (sch_co ?s c) = Co_running \<Longrightarrow> \<not> co_ready (sch_co ?s c)" for c
      using co_neatD(3) [OF assms(1), of c] assms(3) r [of c] by (cases "c = d") (simp_all add: k same)
    show "co_finished t ?s" if "co_known c ?s" "co_state (sch_co ?s c) = Co_suspend (At_wait t)" "co_ready (sch_co ?s c)"
      "\<not> being_cancelled c ?s" for c t
      using co_neatD(4) [OF assms(1), of c t] assms(4) [of t] r [of c] that by (cases "c = d") (simp_all add: k same)
    show "co_known t ?s \<Longrightarrow> c \<in> set (co_downstream (sch_co ?s t)) \<Longrightarrow>
        co_state (sch_co ?s c) = Co_suspend (At_wait t) \<and> \<not> co_finished t ?s" for c t
      using co_neatD(5) [OF assms(1), of t c] by (simp add: k same)
  qed
qed

lemma neat_wakes:
  assumes "co_neat s"
    and "\<forall>d \<in> set ds. co_known d s \<and> (\<exists>t. co_state (sch_co s d) = Co_suspend (At_wait t) \<and> co_finished t s)"
  shows "co_neat (fold co_wake ds s)"
  using assms
proof (induction ds arbitrary: s)
  case (Cons d ds)
  have "co_neat (co_wake d s)" using Cons.prems by (intro neat_wake) auto
  moreover have "co_known c (co_wake d s) = co_known c s" "co_state (sch_co (co_wake d s) c) = co_state (sch_co s c)" for c
    by (simp_all add: wake_effect co_known_def)
  ultimately show ?case using Cons.IH [of "co_wake d s"] Cons.prems(2) by (simp add: co_finished_def)
qed simp

lemma neat_cancel:
  assumes "co_neat s" "co_inv s" "co_known d s" "sch_curr s \<noteq> Some d"
  shows "co_neat (co_cancel d s)"
proof -
  let ?s = "co_update d (co_cancelled_update (\<lambda>_. True)) s"
  have k: "co_known c ?s = co_known c s" for c by (simp add: co_known_def)
  have same: "co_state (sch_co ?s c) = co_state (sch_co s c)" "co_downstream (sch_co ?s c) = co_downstream (sch_co s c)"
    "co_ready (sch_co ?s c) = co_ready (sch_co s c)" "co_finished c ?s = co_finished c s" for c
    by (simp_all add: co_finished_def)
  have b: "being_cancelled c s \<Longrightarrow> being_cancelled c ?s" for c by (auto simp: being_cancelled_def)
  have n: "co_neat ?s"
  proof (rule co_neatI)
    show "co_finished t ?s" if "co_known c ?s" "co_state (sch_co ?s c) = Co_suspend (At_wait t)" "co_ready (sch_co ?s c)"
      "\<not> being_cancelled c ?s" for c t
      using co_neatD(4) [OF assms(1), of c t] that b [of c] by (simp only: k same) blast
    show "c \<in> set (sch_run_later ?s) \<Longrightarrow> co_ready (sch_co ?s c)" for c using co_neatD(2) [OF assms(1), of c] by (simp only: same) simp
    show "co_known c ?s \<Longrightarrow> co_state (sch_co ?s c) = Co_running \<Longrightarrow> \<not> co_ready (sch_co ?s c)" for c
      using co_neatD(3) [OF assms(1), of c] by (simp only: k same) simp
    show "co_known t ?s \<Longrightarrow> c \<in> set (co_downstream (sch_co ?s t)) \<Longrightarrow>
        co_state (sch_co ?s c) = Co_suspend (At_wait t) \<and> \<not> co_finished t ?s" for c t
      using co_neatD(5) [OF assms(1), of t c] by (simp only: k same) simp
  qed (use co_neatD(1) [OF assms(1)] in simp)
  show ?thesis
  proof (cases "co_shielded (sch_co s d)")
    case True
    with n show ?thesis by (simp add: co_cancel_def Let_def)
  next
    case False
    have "co_neat (co_wake d ?s)"
    proof (rule neat_wake [OF n])
      show "co_state (sch_co ?s d) \<noteq> Co_running"
        using co_invD(1) [OF assms(2,3)] assms(4) by (simp only: same) (simp add: co_ok_def)
    qed (use assms(3) False in \<open>simp_all add: co_known_def being_cancelled_def\<close>)
    with False show ?thesis by (simp add: co_cancel_def Let_def)
  qed
qed

text \<open>What the running coroutine does to itself keeps the rest of the queue in order.\<close>

lemma running_not_ready:
  assumes "co_neat s" "co_inv s" "sch_curr s = Some c"
  shows "co_state (sch_co s c) = Co_running" "\<not> co_ready (sch_co s c)" "c \<notin> set (sch_run_later s)"
    "co_known t s \<Longrightarrow> c \<notin> set (co_downstream (sch_co s t))" "\<not> co_finished c s"
proof -
  have c: "co_known c s" by (rule co_invD(4) [OF assms(2,3)])
  show r: "co_state (sch_co s c) = Co_running" using co_invD(1) [OF assms(2) c] assms(3) by (simp add: co_ok_def)
  show n: "\<not> co_ready (sch_co s c)" by (rule co_neatD(3) [OF assms(1) c r])
  show "c \<notin> set (sch_run_later s)" using co_neatD(2) [OF assms(1)] n by blast
  show "co_known t s \<Longrightarrow> c \<notin> set (co_downstream (sch_co s t))" using co_neatD(5) [OF assms(1), of t c] r by auto
  show "\<not> co_finished c s" using r by (simp add: co_finished_def)
qed

lemma neat_leave:
  assumes "co_neat s" "co_inv s" "sch_curr s = Some c"
    and s': "sch_coro_id s' = sch_coro_id s" "sch_run_later s' = sch_run_later s @ q" "q = [] \<or> q = [c]"
    and same: "\<And>d. co_shielded (sch_co s' d) = co_shielded (sch_co s d)" "\<And>d. co_cancelled (sch_co s' d) = co_cancelled (sch_co s d)"
      "\<And>d. d \<noteq> c \<Longrightarrow> co_state (sch_co s' d) = co_state (sch_co s d)" "\<And>d. d \<noteq> c \<Longrightarrow> co_ready (sch_co s' d) = co_ready (sch_co s d)"
    and p: "co_state (sch_co s' c) = Co_suspend p" "co_ready (sch_co s' c) \<longleftrightarrow> q = [c]"
    and wait: "\<And>t. p = At_wait t \<Longrightarrow> q = [] \<and> \<not> co_finished t s"
    and down: "\<And>t d. d \<in> set (co_downstream (sch_co s' t)) \<Longrightarrow> d \<in> set (co_downstream (sch_co s t)) \<or> d = c \<and> p = At_wait t"
  shows "co_neat s'"
proof (rule co_neatI)
  note run = running_not_ready [OF assms(1-3)]
  have k: "co_known d s' = co_known d s" for d by (simp add: co_known_def s'(1))
  have fin: "co_finished d s' = co_finished d s" for d
    using same(3) [of d] p(1) run(5) by (cases "d = c") (auto simp: co_finished_def)
  have b: "being_cancelled d s' = being_cancelled d s" for d by (simp add: being_cancelled_def same)
  show "distinct (sch_run_later s')" using co_neatD(1) [OF assms(1)] run(3) s'(3) by (auto simp: s'(2))
  show "d \<in> set (sch_run_later s') \<Longrightarrow> co_ready (sch_co s' d)" for d
    using co_neatD(2) [OF assms(1), of d] run(3) s'(3) p(2) same(4) [of d] by (cases "d = c") (auto simp: s'(2))
  show "co_known d s' \<Longrightarrow> co_state (sch_co s' d) = Co_running \<Longrightarrow> \<not> co_ready (sch_co s' d)" for d
    using co_neatD(3) [OF assms(1), of d] p(1) same(3,4) [of d] by (cases "d = c") (simp_all add: k)
  show "co_finished t s'" if "co_known d s'" "co_state (sch_co s' d) = Co_suspend (At_wait t)" "co_ready (sch_co s' d)"
    "\<not> being_cancelled d s'" for d t
    using co_neatD(4) [OF assms(1), of d t] that p wait [of t] same(3,4) [of d] by (cases "d = c") (simp_all add: k fin b)
  show "co_state (sch_co s' d) = Co_suspend (At_wait t) \<and> \<not> co_finished t s'"
    if "co_known t s'" "d \<in> set (co_downstream (sch_co s' t))" for d t
    using down [OF that(2)] co_neatD(5) [OF assms(1), of t d] run(4) [of t] that(1) p(1) wait [of t] same(3) [of d]
    by (cases "d = c") (auto simp: k fin)
qed

lemma neat_suspend:
  assumes "co_neat s" "co_inv s" "sch_curr s = Some c"
  shows "co_neat (snd (co_suspend_at At_suspend c s))"
proof (cases "being_cancelled c s")
  case False
  have "co_neat (co_give_up c At_suspend s)"
    by (rule neat_leave [OF assms, where q = "[]" and p = At_suspend])
      (use running_not_ready(2) [OF assms] in \<open>auto simp: co_give_up_def split: if_splits\<close>)
  with False show ?thesis by (simp add: co_suspend_at_def)
qed (use assms in \<open>simp add: co_suspend_at_def\<close>)

lemma neat_pause:
  assumes "co_neat s" "co_inv s" "sch_curr s = Some c"
  shows "co_neat (snd (co_pause c s))"
proof (cases "being_cancelled c s")
  case False
  show ?thesis
    by (rule neat_leave [OF assms, where q = "[c]" and p = At_pause])
      (auto simp: co_give_up_def co_pause_def False split: if_splits)
qed (use assms in \<open>simp add: co_pause_def\<close>)

lemma neat_wait:
  assumes "co_neat s" "co_inv s" "sch_curr s = Some c" "co_known t s" "t \<noteq> c"
  shows "co_neat (snd (co_wait c t s))"
proof (cases "co_finished t s")
  case True
  with assms(1) show ?thesis by (auto simp: co_wait_def co_finished_def split: co_state.splits)
next
  case False
  note run = running_not_ready [OF assms(1-3)]
  show ?thesis
  proof (cases "being_cancelled c s")
    case True
    have "snd (co_wait c t s) = co_remove_downstream t c (co_update t (co_downstream_update (set_add c)) s)"
      using True False assms(5)
      by (auto simp: co_wait_def co_finished_def co_suspend_at_def being_cancelled_def split: co_state.splits)
    also have "\<dots> = s"
    proof -
      have "co_downstream_update (removeAll c \<circ> set_add c) (sch_co s t) = sch_co s t"
        using run(4) [OF assms(4)] by (cases "sch_co s t") simp
      then show ?thesis by (simp add: co_remove_downstream_def co_update_def)
    qed
    finally show ?thesis using assms(1) by simp
  next
    case n: False
    have "snd (co_wait c t s) = co_give_up c (At_wait t) (co_update t (co_downstream_update (set_add c)) s)" (is "_ = ?s")
      using n False assms(5)
      by (auto simp: co_wait_def co_finished_def co_suspend_at_def being_cancelled_def split: co_state.splits)
    moreover have "co_neat ?s"
      by (rule neat_leave [OF assms(1-3), where q = "[]" and p = "At_wait t"])
        (use run(2) assms(5) False in \<open>auto simp: co_give_up_def split: if_splits\<close>)
    ultimately show ?thesis by simp
  qed
qed

text \<open>The shield of the running coroutine, and the start of a round, are of no consequence here.\<close>

lemma neat_same:
  assumes "co_neat s" "sch_coro_id s' = sch_coro_id s" "sch_run_later s' = sch_run_later s"
    and "\<And>d. co_state (sch_co s' d) = co_state (sch_co s d)" "\<And>d. co_ready (sch_co s' d) = co_ready (sch_co s d)"
      "\<And>d. set (co_downstream (sch_co s' d)) \<subseteq> set (co_downstream (sch_co s d))"
    and "\<And>d p. co_state (sch_co s d) = Co_suspend p \<Longrightarrow> being_cancelled d s' = being_cancelled d s"
  shows "co_neat s'"
proof (rule co_neatI)
  have k: "co_known d s' = co_known d s" for d by (simp add: co_known_def assms(2))
  have fin: "co_finished d s' = co_finished d s" for d by (simp add: co_finished_def assms(4))
  show "distinct (sch_run_later s')" using co_neatD(1) [OF assms(1)] by (simp add: assms(3))
  show "d \<in> set (sch_run_later s') \<Longrightarrow> co_ready (sch_co s' d)" for d using co_neatD(2) [OF assms(1)] by (simp add: assms(3,5))
  show "co_known d s' \<Longrightarrow> co_state (sch_co s' d) = Co_running \<Longrightarrow> \<not> co_ready (sch_co s' d)" for d
    using co_neatD(3) [OF assms(1), of d] by (simp add: k assms(4,5))
  show "co_finished t s'" if "co_known d s'" "co_state (sch_co s' d) = Co_suspend (At_wait t)" "co_ready (sch_co s' d)"
    "\<not> being_cancelled d s'" for d t
    using co_neatD(4) [OF assms(1), of d t] that assms(7) [of d] by (simp add: k fin assms(4,5))
  show "co_state (sch_co s' d) = Co_suspend (At_wait t) \<and> \<not> co_finished t s'"
    if "co_known t s'" "d \<in> set (co_downstream (sch_co s' t))" for d t
    using co_neatD(5) [OF assms(1), of t d] that assms(6) [of t] by (auto simp: k fin assms(4))
qed

lemma neat_protect:
  assumes "co_neat s" "co_inv s" "sch_curr s = Some c"
  shows "co_neat (co_update c (co_shielded_update (\<lambda>_. x)) s)"
  by (rule neat_same [OF assms(1)])
    (use running_not_ready(1) [OF assms] in \<open>auto simp: being_cancelled_def split: if_splits\<close>)

lemma wake_downstream:
  "co_update c (co_downstream_update f) (co_wake d s) = co_wake d (co_update c (co_downstream_update f) s)"
proof -
  have u: "co_downstream_update f (r\<lparr>co_ready := True\<rparr>) = (co_downstream_update f r)\<lparr>co_ready := True\<rparr>" for r :: coroutine
    by (cases r) simp
  show ?thesis by (cases "c = d") (simp_all add: wake_effect co_update_def fun_upd_twist u)
qed

lemma fold_wake_downstream:
  "co_update c (co_downstream_update f) (fold co_wake ds s) = fold co_wake ds (co_update c (co_downstream_update f) s)"
  by (induction ds arbitrary: s) (simp_all add: wake_downstream)

lemma neat_finish:
  assumes "co_neat s" "co_inv s" "sch_curr s = Some c"
  shows "co_neat (co_finish c r s)"
proof -
  note run = running_not_ready [OF assms]
  have c: "co_known c s" by (rule co_invD(4) [OF assms(2,3)])
  define e where "e = (case r of Some e \<Rightarrow> Co_fail e | None \<Rightarrow> Co_done)"
  have e: "e = Co_done \<or> (\<exists>x. e = Co_fail x)" by (simp add: e_def split: option.splits)
  let ?ds = "co_downstream (sch_co s c)"
  define s0 where "s0 = co_update c (\<lambda>r. r\<lparr>co_state := e, co_downstream := []\<rparr>) s"
  have k: "co_known d s0 = co_known d s" for d by (simp add: s0_def co_known_def)
  have fin: "co_finished d s0 \<longleftrightarrow> d = c \<or> co_finished d s" for d using e by (auto simp: s0_def co_finished_def)
  have other: "d \<noteq> c \<Longrightarrow> sch_co s0 d = sch_co s d" for d by (simp add: s0_def)
  have n: "co_neat s0"
  proof (rule co_neatI)
    show "distinct (sch_run_later s0)" using co_neatD(1) [OF assms(1)] by (simp add: s0_def)
    show "d \<in> set (sch_run_later s0) \<Longrightarrow> co_ready (sch_co s0 d)" for d
      using co_neatD(2) [OF assms(1), of d] by (auto simp: s0_def)
    show "co_known d s0 \<Longrightarrow> co_state (sch_co s0 d) = Co_running \<Longrightarrow> \<not> co_ready (sch_co s0 d)" for d
      using co_neatD(3) [OF assms(1), of d] run(2) by (cases "d = c") (simp_all add: k other, simp add: s0_def)
    show "co_finished t s0" if "co_known d s0" "co_state (sch_co s0 d) = Co_suspend (At_wait t)" "co_ready (sch_co s0 d)"
      "\<not> being_cancelled d s0" for d t
      using co_neatD(4) [OF assms(1), of d t] that e
      by (cases "d = c") (auto simp: k fin other being_cancelled_def, auto simp: s0_def)
    show "co_state (sch_co s0 d) = Co_suspend (At_wait t) \<and> \<not> co_finished t s0"
      if "co_known t s0" "d \<in> set (co_downstream (sch_co s0 t))" for d t
    proof -
      have t: "t \<noteq> c" using that(2) by (auto simp: s0_def)
      with that have d: "d \<in> set (co_downstream (sch_co s t))" "co_known t s" by (simp_all add: other k)
      moreover have "d \<noteq> c" using run(4) d by blast
      ultimately show ?thesis using co_neatD(5) [OF assms(1), of t d] t by (simp add: other fin)
    qed
  qed
  have w: "co_neat (fold co_wake ?ds s0)"
  proof (rule neat_wakes [OF n], intro ballI conjI)
    fix d assume d: "d \<in> set ?ds"
    show "co_known d s0" using co_invD(5) [OF assms(2) c d] by (simp add: k)
    have "d \<noteq> c" using run(4) [OF c] d by blast
    then show "\<exists>t. co_state (sch_co s0 d) = Co_suspend (At_wait t) \<and> co_finished t s0"
      using co_neatD(5) [OF assms(1) c d] by (auto simp: other fin)
  qed
  have "co_neat ((fold co_wake ?ds s0)\<lparr>sch_all := removeAll c (sch_all s), sch_curr := None\<rparr>)"
    by (rule neat_same [OF w]) (simp_all add: being_cancelled_def)
  moreover have "co_finish c r s = (fold co_wake ?ds s0)\<lparr>sch_all := removeAll c (sch_all s), sch_curr := None\<rparr>"
  proof -
    have "co_update c (co_downstream_update (\<lambda>_. [])) (co_update c (co_state_update (\<lambda>_. e)) s) = s0"
      by (simp add: s0_def co_update_def)
    moreover have "sch_all (fold co_wake ?ds (co_update c (co_state_update (\<lambda>_. e)) s)) = sch_all s"
      using fold_wake [of ?ds "co_update c (co_state_update (\<lambda>_. e)) s"] by auto
    ultimately show ?thesis
      by (simp add: co_finish_def Let_def e_def [symmetric] fold_wake_downstream)
  qed
  ultimately show ?thesis by simp
qed

lemma neat_spawn:
  assumes "co_neat s" "co_inv s"
  shows "co_neat (snd (co_spawn s))" (is "co_neat ?s")
proof (rule co_neatI)
  let ?c = "sch_coro_id s + 1"
  have k: "co_known d ?s \<longleftrightarrow> d = ?c \<or> co_known d s" for d by (auto simp: co_spawn_def Let_def co_known_def)
  have n: "\<not> co_known ?c s" by (simp add: co_known_def)
  have fields: "sch_co ?s = (sch_co s)(?c := new_coroutine)" "sch_run_later ?s = sch_run_later s @ [?c]"
    by (simp_all add: co_spawn_def Let_def)
  have new: "co_state new_coroutine = Co_suspend At_start" "co_ready new_coroutine" "co_downstream new_coroutine = []"
    by (simp_all add: new_coroutine_def)
  have other: "d \<noteq> ?c \<Longrightarrow> sch_co ?s d = sch_co s d" for d by (simp add: fields)
  have fin: "d \<noteq> ?c \<Longrightarrow> co_finished d ?s = co_finished d s" for d by (simp add: co_finished_def fields)
  show "distinct (sch_run_later ?s)" using co_neatD(1) [OF assms(1)] co_invD(2) [OF assms(2)] n by (auto simp: fields)
  show "d \<in> set (sch_run_later ?s) \<Longrightarrow> co_ready (sch_co ?s d)" for d
    using co_neatD(2) [OF assms(1), of d] new by (auto simp: fields)
  show "co_known d ?s \<Longrightarrow> co_state (sch_co ?s d) = Co_running \<Longrightarrow> \<not> co_ready (sch_co ?s d)" for d
    using co_neatD(3) [OF assms(1), of d] new by (cases "d = ?c") (auto simp: k fields)
  show "co_finished t ?s" if "co_known d ?s" "co_state (sch_co ?s d) = Co_suspend (At_wait t)" "co_ready (sch_co ?s d)"
    "\<not> being_cancelled d ?s" for d t
  proof -
    have d: "d \<noteq> ?c" using that(2) new by (auto simp: fields)
    with that have x: "co_known d s" "co_state (sch_co s d) = Co_suspend (At_wait t)" "co_ready (sch_co s d)" "\<not> being_cancelled d s"
      by (auto simp: k fields being_cancelled_def)
    moreover have "t \<noteq> ?c" using co_invD(1) [OF assms(2) x(1)] x(2) n by (auto simp: co_ok_def)
    ultimately show ?thesis using co_neatD(4) [OF assms(1) x] by (simp add: fin)
  qed
  show "co_state (sch_co ?s d) = Co_suspend (At_wait t) \<and> \<not> co_finished t ?s"
    if "co_known t ?s" "d \<in> set (co_downstream (sch_co ?s t))" for d t
  proof -
    have t: "t \<noteq> ?c" using that(2) new by (auto simp: fields)
    then have x: "co_known t s" "d \<in> set (co_downstream (sch_co s t))" using that by (auto simp: k fields)
    moreover have "d \<noteq> ?c" using co_invD(5) [OF assms(2) x] n by blast
    ultimately show ?thesis using co_neatD(5) [OF assms(1) x] t by (simp add: fin other)
  qed
qed

text \<open>A coroutine that is resumed without an error from a wait finds its target finished.\<close>

lemma neat_resume:
  assumes "co_neat s" "co_inv s" "sch_curr s = None"
  shows "\<exists>r s'. co_resume s = Some (r, s') \<and> co_neat s'"
proof (cases "sch_run_later s")
  case Nil
  have "co_neat (s\<lparr>sch_left := 0\<rparr>)" by (rule neat_same [OF assms(1)]) (simp_all add: being_cancelled_def)
  with Nil show ?thesis by (simp add: co_resume_def)
next
  case (Cons c rest)
  have c: "co_known c s" using co_invD(2) [OF assms(2)] Cons by simp
  have ready: "co_ready (sch_co s c)" using co_neatD(2) [OF assms(1)] Cons by simp
  define s1 where "s1 = (co_update c (co_ready_update (\<lambda>_. False)) s)\<lparr>sch_run_later := rest, sch_left := sch_left s - 1\<rparr>"
  have fields: "sch_co s1 = (sch_co s)(c := (sch_co s c)\<lparr>co_ready := False\<rparr>)" "sch_run_later s1 = rest"
    by (simp_all add: s1_def)
  have k: "co_known d s1 = co_known d s" for d by (simp add: s1_def co_known_def)
  have same: "co_state (sch_co s1 d) = co_state (sch_co s d)" "co_downstream (sch_co s1 d) = co_downstream (sch_co s d)"
    "being_cancelled d s1 = being_cancelled d s" "co_finished d s1 = co_finished d s" for d
    by (simp_all add: fields being_cancelled_def co_finished_def)
  have q: "distinct rest" "c \<notin> set rest" using co_neatD(1) [OF assms(1)] Cons by simp_all
  have r: "d \<in> set rest \<Longrightarrow> co_ready (sch_co s1 d)" for d
    using co_neatD(2) [OF assms(1), of d] Cons q(2) by (auto simp: fields)
  have n1: "co_neat s1"
  proof (rule co_neatI)
    show "co_finished t s1" if "co_known d s1" "co_state (sch_co s1 d) = Co_suspend (At_wait t)" "co_ready (sch_co s1 d)"
      "\<not> being_cancelled d s1" for d t
      using co_neatD(4) [OF assms(1), of d t] that(1,2,4) that(3) by (simp only: k same) (auto simp: fields split: if_splits)
    show "co_known d s1 \<Longrightarrow> co_state (sch_co s1 d) = Co_running \<Longrightarrow> \<not> co_ready (sch_co s1 d)" for d
      using co_neatD(3) [OF assms(1), of d] by (auto simp: k same) (auto simp: fields split: if_splits)
    show "co_known t s1 \<Longrightarrow> d \<in> set (co_downstream (sch_co s1 t)) \<Longrightarrow>
        co_state (sch_co s1 d) = Co_suspend (At_wait t) \<and> \<not> co_finished t s1" for d t
      using co_neatD(5) [OF assms(1), of t d] by (simp only: k same) simp
  qed (use q r in \<open>simp_all add: fields(2)\<close>)
  show ?thesis
  proof (cases "\<exists>p. co_state (sch_co s c) = Co_suspend p")
    case False
    then have "co_resume s = Some (None, s1)"
      by (cases "co_state (sch_co s c)") (auto simp: co_resume_def Cons s1_def Let_def)
    with n1 show ?thesis by blast
  next
    case True
    then obtain p where p: "co_state (sch_co s c) = Co_suspend p" by blast
    define s2 where "s2 = (co_update c (co_state_update (\<lambda>_. Co_running)) s1)\<lparr>sch_curr := Some c\<rparr>"
    have res: "co_resume s = co_continue p c (if being_cancelled c s2 then Some Co_cancelled else None) s2"
      using p by (simp add: co_resume_def Cons s1_def s2_def Let_def)
    have bc: "being_cancelled d s2 = being_cancelled d s" for d by (simp add: s2_def fields being_cancelled_def)
    have final: "co_neat s'"
      if same': "sch_coro_id s' = sch_coro_id s" "sch_run_later s' = rest"
          "\<And>d. d \<noteq> c \<Longrightarrow> co_state (sch_co s' d) = co_state (sch_co s d)" "\<And>d. d \<noteq> c \<Longrightarrow> co_ready (sch_co s' d) = co_ready (sch_co s d)"
          "\<And>d. d \<noteq> c \<Longrightarrow> being_cancelled d s' = being_cancelled d s"
        and run: "co_state (sch_co s' c) = Co_running" "\<not> co_ready (sch_co s' c)"
        and down: "\<And>t. set (co_downstream (sch_co s' t)) \<subseteq> set (co_downstream (sch_co s t))"
          "\<And>t. co_known t s \<Longrightarrow> c \<notin> set (co_downstream (sch_co s' t))" for s'
    proof (rule co_neatI)
      have k': "co_known d s' = co_known d s" for d by (simp add: co_known_def same'(1))
      have fin: "co_finished d s' = co_finished d s" for d
        using same'(3) [of d] run(1) p by (cases "d = c") (simp_all add: co_finished_def)
      show "distinct (sch_run_later s')" using q same'(2) by simp
      show "d \<in> set (sch_run_later s') \<Longrightarrow> co_ready (sch_co s' d)" for d
        using r [of d] q(2) same'(2,4) by (cases "d = c") (auto simp: fields)
      show "co_known d s' \<Longrightarrow> co_state (sch_co s' d) = Co_running \<Longrightarrow> \<not> co_ready (sch_co s' d)" for d
        using co_neatD(3) [OF assms(1), of d] run(2) same'(3,4) [of d] by (cases "d = c") (simp_all add: k')
      show "co_finished t s'" if "co_known d s'" "co_state (sch_co s' d) = Co_suspend (At_wait t)" "co_ready (sch_co s' d)"
        "\<not> being_cancelled d s'" for d t
        using co_neatD(4) [OF assms(1), of d t] that run(1) same'(3-5) [of d] by (cases "d = c") (simp_all add: k' fin)
      show "co_state (sch_co s' d) = Co_suspend (At_wait t) \<and> \<not> co_finished t s'"
        if "co_known t s'" "d \<in> set (co_downstream (sch_co s' t))" for d t
        using co_neatD(5) [OF assms(1), of t d] that down(1) [of t] down(2) [of t] same'(3) [of d]
        by (cases "d = c") (auto simp: k' fin)
    qed
    have only: "p = At_wait t \<and> \<not> co_finished t s" if "co_known t s" "c \<in> set (co_downstream (sch_co s t))" for t
      using co_neatD(5) [OF assms(1) that] p by simp
    have start: "\<not> being_cancelled c s" if "p = At_start"
      using co_invD(1) [OF assms(2) c] p that by (simp add: co_ok_def being_cancelled_def)
    have ended: "co_finished t s" if "p = At_wait t" "\<not> being_cancelled c s" for t
      by (rule co_neatD(4) [OF assms(1) c _ ready that(2)]) (simp add: p that(1))
    have waited: "co_known t s" if "p = At_wait t" for t
      using co_invD(1) [OF assms(2) c] p that by (simp add: co_ok_def)
    have n2: "co_neat s2" if "\<And>t. p = At_wait t \<Longrightarrow> co_finished t s"
      by (rule final) (use only that in \<open>auto simp: s2_def s1_def being_cancelled_def split: if_splits\<close>)
    show ?thesis
    proof (cases p)
      case At_start
      have "co_neat (co_update c (co_shielded_update (\<lambda>_. False)) s2)"
        by (rule final) (use only At_start in \<open>auto simp: s2_def s1_def being_cancelled_def split: if_splits\<close>)
      with At_start start res bc show ?thesis by (simp add: co_continue_def)
    next
      case (At_wait t)
      show ?thesis
      proof (cases "being_cancelled c s")
        case True
        have "co_neat (co_remove_downstream t c s2)"
          by (rule final)
            (use only At_wait in \<open>auto simp: s2_def s1_def being_cancelled_def co_remove_downstream_def split: if_splits\<close>)
        with At_wait True res bc show ?thesis by (simp add: co_continue_def)
      next
        case False
        have f: "co_finished t s" by (rule ended [OF At_wait False])
        with c p have "co_finished t s2" by (auto simp: s2_def s1_def co_finished_def)
        then have "\<exists>x. co_unwrap t s2 = Some x" by (auto simp: co_finished_def co_unwrap_def split: co_state.splits)
        moreover have "co_neat s2" by (rule n2) (use f At_wait in simp)
        ultimately show ?thesis using At_wait False res bc by (auto simp: co_continue_def)
      qed
    qed (use n2 res in \<open>auto simp: co_continue_def\<close>)
  qed
qed

lemma co_do_neat:
  assumes "co_neat s" "co_inv s" "co_enabled a s" "co_polite a s"
  shows "\<exists>s'. co_do a s = Some s' \<and> co_neat s'"
proof (cases a)
  case (Do_wake c)
  with assms show ?thesis by (auto intro!: neat_wake simp: co_finished_def)
next
  case Do_round
  have "co_neat (co_round s)" by (rule neat_same [OF assms(1)]) (simp_all add: co_round_def being_cancelled_def)
  with Do_round show ?thesis by simp
next
  case Do_resume
  with neat_resume [OF assms(1,2)] assms(3) show ?thesis by auto
qed (use assms in \<open>auto simp: neat_spawn neat_cancel neat_suspend neat_pause neat_wait neat_finish co_protect_def co_unprotect_def
  neat_protect split: option.splits\<close>)

lemma neat_init: "co_neat scheduler_init"
  by (simp add: co_neat_def scheduler_init_def co_known_def)

lemma co_reach_neat: "co_reach True s \<Longrightarrow> co_neat s"
proof (induction rule: co_reach.induct)
  case (co_next s a s')
  then obtain s'' where "co_do a s = Some s''" "co_neat s''" using co_do_neat [OF co_next.IH co_reach_inv] by blast
  with co_next.hyps show ?case by simp
qed (rule neat_init)

section \<open>Waiting\<close>

text \<open>
  Claim C12 (safety). When coroutines are woken only where they called \<open>suspend\<close> and none cancels
  itself, no action panics: a coroutine is resumed without an error from a wait only when its target has finished. The
  queue holds each coroutine once, and just those that are marked ready.
\<close>

theorem waits_end_with_result:
  assumes "co_reach True s" "co_enabled a s" "co_polite a s"
  shows "(\<exists>s'. co_do a s = Some s' \<and> co_reach True s') \<and> distinct (sch_run_later s) \<and>
    (\<forall>c. co_known c s \<longrightarrow> (co_ready (sch_co s c) \<longleftrightarrow> c \<in> set (sch_run_later s))) \<and>
    (\<forall>c p t. sch_run_later s = c # p \<longrightarrow> co_state (sch_co s c) = Co_suspend (At_wait t) \<longrightarrow>
       \<not> being_cancelled c s \<longrightarrow> co_finished t s)"
proof (intro conjI allI impI)
  have n: "co_neat s" and i: "co_inv s" by (rule co_reach_neat [OF assms(1)], rule co_reach_inv [OF assms(1)])
  show "\<exists>s'. co_do a s = Some s' \<and> co_reach True s'"
    using co_do_neat [OF n i assms(2,3)] co_next [OF assms(1,2)] assms(3) by blast
  show "distinct (sch_run_later s)" by (rule co_neatD(1) [OF n])
  show "co_ready (sch_co s c) \<longleftrightarrow> c \<in> set (sch_run_later s)" if "co_known c s" for c
    using co_invD(1) [OF i that] co_neatD(2) [OF n, of c] by (auto simp: co_ok_def)
  show "co_finished t s" if "sch_run_later s = c # p" "co_state (sch_co s c) = Co_suspend (At_wait t)" "\<not> being_cancelled c s"
    for c p t
    using co_neatD(4) [OF n _ that(2) _ that(3)] co_neatD(2) [OF n, of c] co_invD(2) [OF i, of c] that(1) by simp
qed

theorem waits_end_with_result_witness:
  "case co_exec True (demo_schedule @ [Do_round, Do_resume, Do_finish None, Do_round]) scheduler_init of
     Some s \<Rightarrow> sch_run_later s = [1] \<and> co_finished 3 s \<and> co_do Do_resume s \<noteq> None
   | None \<Rightarrow> False"
proof -
  obtain s where s: "co_exec True (demo_schedule @ [Do_round, Do_resume, Do_finish None, Do_round]) scheduler_init = Some s"
    and facts: "co_enabled Do_resume s" "sch_run_later s = [1]" "co_state (sch_co s 1) = Co_suspend (At_wait 3)"
      "\<not> being_cancelled 1 s"
  proof -
    have "case co_exec True (demo_schedule @ [Do_round, Do_resume, Do_finish None, Do_round]) scheduler_init of
        Some s \<Rightarrow> co_enabled Do_resume s \<and> sch_run_later s = [1] \<and> co_state (sch_co s 1) = Co_suspend (At_wait 3) \<and>
          \<not> being_cancelled 1 s
      | None \<Rightarrow> False"
      by code_simp
    with that show thesis by (auto split: option.splits)
  qed
  have "co_reach True s" by (rule co_exec_reach [OF s co_start])
  from waits_end_with_result [OF this facts(1)] facts s show ?thesis by auto
qed

text \<open>
  Cancelling oneself is not polite, and a task does it: \<open>return_immediately\<close>, called by a task
  of the group, cancels every child, also the calling one. The call puts the running coroutine into the queue, and the next
  suspension in its clean-up code under \<open>protect_from_cancel\<close> returns at once. Here the clean-up of
  coroutine 1 waits for coroutine 2, which has not finished: the round that follows panics.
\<close>

lemma self_cancel_panics:
  "case co_exec False [Do_spawn, Do_round, Do_resume, Do_spawn, Do_cancel 1, Do_protect, Do_wait 2,
       Do_round, Do_resume, Do_suspend] scheduler_init of
     Some s \<Rightarrow> co_enabled Do_resume s \<and> co_do Do_resume s = None
   | None \<Rightarrow> False"
  by code_simp

end
