(* ===== verification/Event_Loop.thy ===== *)
theory Event_Loop
  imports Pool_Invariant Coroutines Signals
begin

text \<open>
  Where the event loop, the thread pool and the scheduler of coroutines meet:
  \<open>handle_completed_job\<close> of \<open>event_loop.mbt\<close> on a number read from the channel of the pool. A
  number is a signal, which cancels the main coroutine, or a finished job: its worker is given
  the next job or put to rest (\<open>Worker_Pool\<close>), and the coroutine that waits for it is woken
  (\<open>Coroutines\<close>).
\<close>

text \<open>The fields \<open>jobs\<close>, \<open>main\<close> and \<open>killed_by_signal\<close>, with the pool and the scheduler.\<close>

record 'j event_loop =
  el_pool :: "'j pool"
  el_sch :: scheduler
  el_jobs :: "nat \<Rightarrow> nat option"
  el_main :: "nat option"
  el_killed :: "int option"

text \<open>
  The pool holds the numbers of jobs in the order of the channel, so that a job is handled
  when it is the first of them. \<open>None\<close> is the guard that fails.
\<close>

definition handle_completion :: "int \<Rightarrow> 'j event_loop \<Rightarrow> 'j event_loop option" where
  "handle_completion job_id s =
     (case decode_completion job_id of
        Signal sig \<Rightarrow>
          Some (s\<lparr>el_sch := (case el_main s of None \<Rightarrow> el_sch s | Some c \<Rightarrow> co_cancel c (el_sch s)),
                  el_killed := Some sig\<rparr>)
      | Job_done i \<Rightarrow>
          if take 1 (pipe (el_pool s)) \<noteq> [nat i] then None
          else (case handle_completed_job (el_pool s) of
                  None \<Rightarrow> None
                | Some pool \<Rightarrow>
                    Some (s\<lparr>el_pool := pool,
                            el_sch := (case el_jobs s (nat i) of
                                         None \<Rightarrow> el_sch s
                                       | Some c \<Rightarrow> co_wake c (el_sch s))\<rparr>)))"

definition event_loop_inv :: "wakeup \<Rightarrow> 'j event_loop \<Rightarrow> bool" where
  "event_loop_inv m s \<longleftrightarrow> pool_inv m (el_pool s) \<and> co_inv (el_sch s) \<and>
     (\<forall>i c. el_jobs s i = Some c \<longrightarrow> co_known c (el_sch s)) \<and>
     (\<forall>c. el_main s = Some c \<longrightarrow> co_known c (el_sch s))"

lemma co_known_wake [simp]: "co_known d (co_wake c s) = co_known d s"
  by (simp add: co_known_def wake_effect)

lemma co_known_cancel [simp]: "co_known d (co_cancel c s) = co_known d s"
  by (simp add: co_cancel_def co_known_def wake_effect co_update_def Let_def)

text \<open>Handling a completion keeps the invariants of the pool and of the scheduler.\<close>

lemma handle_completion_inv:
  assumes "event_loop_inv m s" "handle_completion job_id s = Some s'"
  shows "event_loop_inv m s'"
  using assms
  by (auto simp: handle_completion_def event_loop_inv_def handle_inv inv_wake inv_cancel
      split: completion.splits option.splits if_splits)

text \<open>
  The coroutine that waits for the job is ready to run and in the queue; any other stays as
  it was, and without a waiter the scheduler does.
\<close>

lemma handle_completion_wakes:
  assumes "event_loop_inv m s" "0 \<le> i" "i < 2 ^ 31" "handle_completion i s = Some s'"
  shows "(case el_jobs s (nat i) of
       None \<Rightarrow> el_sch s' = el_sch s
     | Some c \<Rightarrow> co_ready (sch_co (el_sch s') c) \<and> c \<in> set (sch_run_later (el_sch s')) \<and>
         (\<forall>d. d \<noteq> c \<longrightarrow> sch_co (el_sch s') d = sch_co (el_sch s) d)) \<and>
    completed (el_pool s') = completed (el_pool s) @ [nat i]"
proof -
  have d: "decode_completion i = Job_done i" using assms(2,3) by (rule decode_job)
  have p: "handle_completed_job (el_pool s) = Some (el_pool s')" "take 1 (pipe (el_pool s)) = [nat i]"
    "el_sch s' = (case el_jobs s (nat i) of None \<Rightarrow> el_sch s | Some c \<Rightarrow> co_wake c (el_sch s))"
    using assms(4) d by (auto simp: handle_completion_def split: if_splits option.splits)
  have "completed (el_pool s') = completed (el_pool s) @ [nat i]"
    using p(1,2)
    by (auto simp: handle_completed_job_def worker_enter_idle_def wake_worker_def set_thread_def Let_def
        split: if_splits list.splits option.splits dest!: arg_cong [where f = completed])
  moreover have "c \<in> set (sch_run_later (co_wake c (el_sch s)))" if "el_jobs s (nat i) = Some c" for c
    using co_invD(1) [of "el_sch s" c] assms(1) that
    by (auto simp: event_loop_inv_def wake_effect co_ok_def)
  ultimately show ?thesis using p(3) by (auto simp: wake_effect split: option.splits)
qed

text \<open>A signal cancels the main coroutine, is remembered, and leaves the pool alone.\<close>

lemma handle_completion_signal:
  assumes "0 \<le> sig" "sig < 2 ^ 31" "el_main s = Some c"
  shows "\<exists>s'. handle_completion (notify_signal sig) s = Some s' \<and> el_killed s' = Some sig \<and>
    co_cancelled (sch_co (el_sch s') c) \<and> el_pool s' = el_pool s"
  using assms decode_notify [of sig]
  by (auto simp: handle_completion_def co_cancel_def co_update_def wake_effect Let_def)

end
