(* ===== verification/Spec2Isabelle.thy ===== *)
theory Spec2Isabelle
  imports Jobs_Process Pool_Theorems Dir_Entries Watch_Buffers Signals Overlapped_Io Process_Env
    Native_Utils Tls_Windows Tls_Client Openssl_Resources Openssl_Transport Host_Utils
    S7_Client Coroutines_Polite Event_Loop
begin

text \<open>
  A verification library for an S7 client and its native run time: the C code and the MoonBit
  code next to it that carry the asynchronous input and output, under
  \<open>src/.mooncakes/moonbitlang/async/src/\<close> (file names below are relative to that
  directory), and the protocol and the client above them, in \<open>src/protocol\<close>, \<open>src/transport\<close>
  and \<open>src/client\<close>. The client waits in coroutines; the run time turns every wait into a job of a
  thread pool, a registration with an event queue or an overlapped operation, and wakes the
  coroutine when the system is done.

  \<^bold>\<open>How the program is modelled.\<close> A C function is a HOL function of the same name on
  its arguments and a \<open>world\<close>. The operating system is the parameter \<open>K\<close> of type
  \<open>'k kernel\<close>: it answers each call with a return value, an error number and what it wrote
  through its output pointers, depending on a state of its own, so that a theorem holds for
  every behaviour of the system, or for every behaviour that keeps a law its
  documentation gives (\<open>os_law\<close>, \<open>serves_pipe\<close>, \<open>honours_fcntl\<close>, \<open>knows_child\<close>,
  \<open>heap_serves\<close> and others, stated next to their use). The world also logs
  the calls, and theorems read from the log what was acquired, released, allocated, freed,
  moved or announced. Reading outside a table or a buffer, an abort, and a loop that does not
  end are \<open>None\<close>, so that \<open>= Some\<close> says that the code is safe and returns; loops are
  \<open>partial_function (option)\<close> and no fuel is used. The platform (\<open>Linux\<close>, \<open>MacOS\<close>,
  \<open>Windows\<close> or another Unix) is an argument where the C code has \<open>#ifdef\<close>.

  \<^bold>\<open>Theories, in the order of their dependencies.\<close>
  \<^item> \<open>Prelude\<close>, \<open>Byte_Fields\<close>: \<open>int32_t\<close>, bounds-checked buffers, little- and big-endian fields
    and their layout lemmas.
  \<^item> \<open>Platform\<close>: error codes and their tests (\<open>os_error/stub.c\<close>), file kinds
    (\<open>event_loop/detect_file_kind.c\<close>), standard streams.
  \<^item> \<open>Os_Interface\<close>: the calls, answers, the world, the documented laws and the reading of the log.
  \<^item> \<open>Job_Core\<close>: the job header of \<open>event_loop/thread_pool.c\<close> and the locale
    \<open>worker_contract\<close> (a worker reports a positive error or a result that is not negative),
    interpreted on every worker of the four theories of jobs.
  \<^item> \<open>Jobs_Io\<close>, \<open>Jobs_File\<close>, \<open>Jobs_Path\<close>, \<open>Jobs_Process\<close>: the jobs of \<open>thread_pool.c\<close>: sleep, read,
    write and open; kinds, sizes, times, locks, directories; rename, links, real paths;
    spawning and waiting, bind, name resolution, signals. For each job its constructor, worker,
    accessors and free function; the theorems say that a transfer is done once, that
    descriptors, handles and blocks are owned by exactly one side, and what a child gets.
  \<^item> \<open>Worker_Pool\<close>, \<open>Pool_Invariant\<close>, \<open>Pool_Theorems\<close>: the protocol between the main thread and the
    workers (\<open>worker_loop\<close>, \<open>wake_worker\<close>, \<open>spawn_worker\<close>, \<open>perform_job_in_worker\<close>,
    \<open>handle_completed_job\<close> of \<open>event_loop.mbt\<close>) as a step relation in which every store
    of a wake-up is a step of its own; its invariant, that jobs are
    executed and handled once and none is lost, and the refinement of an abstract job server.
  \<^item> \<open>Event_Bus\<close>: \<open>epoll.c\<close>, \<open>kqueue.c\<close>, \<open>iocp.c\<close>, the start and end of the pool, and the poll
    functions of \<open>event_loop_unix.mbt\<close> and \<open>event_loop_windows.mbt\<close>.
  \<^item> \<open>Fd_Util\<close>, \<open>Signals\<close>: \<open>fd_util/stub.c\<close>; \<open>signal.c\<close> and the Windows console handler.
  \<^item> \<open>Dir_Entries\<close>, \<open>Watch_Buffers\<close>: the buffers of \<open>fs/dir.c\<close>, \<open>watch_inotify.c\<close>,
    \<open>watch_kqueue.c\<close>, \<open>watch_windows.c\<close> and the loops of \<open>fs/dir.mbt\<close> and the watchers that read
    them; the contents of a buffer are given by an encoder written from the
    documentation of the system, and reading is proved to return what was encoded.
  \<^item> \<open>Socket_Addr\<close>, \<open>Socket_Ops\<close>: addresses as bytes, the choice of \<open>Addr::resolve\<close>, creation and
    options of sockets (\<open>socket/socket.c\<close>), the calls of \<open>io_unix.c\<close>.
  \<^item> \<open>Overlapped_Io\<close>: \<open>io_windows.c\<close> and \<open>io_windows.mbt\<close>: the blocks of overlapped operations, their
    outcome, and as a step relation the life of a block between coroutine, system and event loop.
  \<^item> \<open>Process_Env\<close>: environment, arguments and command line of a child (\<open>process/unix.c\<close>,
    \<open>process/windows.c\<close> and \<open>raw_spawn\<close>).
  \<^item> \<open>Host_Utils\<close>: the text of an error (\<open>os_error/stub.c\<close>), the interface search of
    \<open>socket/socket.c\<close>, and the test programs \<open>dump_env\<close> and \<open>sleep\<close>; a child reads exactly the environment it
    was spawned with.
  \<^item> \<open>Native_Utils\<close>: \<open>event_loop/process.c\<close>, \<open>fs/stub.c\<close>, \<open>c_buffer\<close>, \<open>os_string\<close>, \<open>raw_fd\<close>, \<open>types\<close>.

  \<^item> \<open>Foreign_Lib\<close>, \<open>Schannel\<close>, \<open>Schannel_Resources\<close>: a library that is called and not in the repository,
    as a parameter with a trace of its calls; \<open>tls/schannel.c\<close> over the Windows security package; the
    invariant that a context holds exactly the resources it records.
  \<^item> \<open>Tls_Transport\<close>, \<open>Tls_Windows\<close>, \<open>Tls_Client\<close>: the buffers of \<open>tls/transport.mbt\<close>; the
    handshake, read, write and shutdown of \<open>tls/schannel.mbt\<close> as steps of a session, which refine a
    pair of byte streams in each direction; the check of certificates by a client.
  \<^item> \<open>Openssl\<close>, \<open>Openssl_Session\<close>, \<open>Openssl_Resources\<close>, \<open>Openssl_Transport\<close>: \<open>tls/openssl.c\<close> over
    OpenSSL, which calls back into the program (a finite tree of callbacks for each call);
    \<open>tls/openssl.mbt\<close>: opening and closing with the objects held over all connections, and the
    callbacks and loops of a session, which refine a pair of byte streams in each direction.

  \<^item> \<open>Coroutines\<close>, \<open>Coroutines_Polite\<close>: the scheduler of \<open>internal/coroutine\<close> as actions on its state, for every
    schedule; no reason to resume is lost, a round serves its queue, and a wait ends with a
    finished target when nobody wakes a coroutine elsewhere than in \<open>suspend\<close> or cancels itself.
  \<^item> \<open>Event_Loop\<close>: the whole of \<open>handle_completed_job\<close> over the pool and the scheduler: a signal
    cancels the main coroutine, a finished job frees its worker and wakes who waits for it.
  \<^item> \<open>S7_Frame\<close>: the requests and replies of \<open>protocol/s7comm.mbt\<close> as bytes; a decoder written from the
    description of the protocol understands every request as what it was built from.
  \<^item> \<open>S7_Field\<close>: \<open>protocol/field.mbt\<close> and the strings of \<open>s7comm.mbt\<close>: integers, bits, strings and
    floating-point numbers as bytes, with round trips and the values for which there is none.
  \<^item> \<open>S7_Client\<close>: \<open>transport/tcp.mbt\<close> and \<open>client/client.mbt\<close> over a socket that is a parameter; the locale
    \<open>s7_plc\<close> is a controller that answers requests from a memory of bytes, interpreted on one
    written out; the transfers of the client in chunks are the operations of that memory.

  \<^bold>\<open>Conventions and bounds.\<close> Descriptors, handles and pointers are numbers, and a Windows
  handle that does not fit is not considered. Widths are written out: \<open>int32_t\<close> results pass
  through \<open>i32\<close>, flags and positions are words. Job numbers are below \<open>2 ^ 31\<close> where a signal
  shares their channel (\<open>submit\<close> asks for it). Coroutines are numbers; outside \<open>Coroutines\<close> their
  scheduler appears as the interleaving of steps.

  \<^bold>\<open>Not modelled, and why.\<close> The other protocols of the library (HTTP,
  WebSocket, gzip) are MoonBit that the client does not use. Between the S7 client and the
  sockets stand the task groups and timers, also MoonBit: the client takes the
  calls of a socket, and the time limits around them, as a parameter. Not a number, the rounding of divisions of
  doubles, the texts of \<open>utils/helpers.mbt\<close> and accessors that pass a field on are left out too.
  The WebAssembly and JavaScript variants and the tests are left out.
  Threads are interleaved step by step with every store visible at once: the C code relies on its
  mutex, semaphore, signal and join for that, and weak memory is not modelled.
\<close>

end
